(* ===== verification/Prelude.thy ===== *)
theory Prelude
  imports Main "HOL-Library.Sublist" "HOL-Library.AList"
begin

text \<open>
  Shared vocabulary of the development: the parts of the C++ standard library that the
  sources use on strings (\<open>std::string_view::find\<close>, \<open>substr\<close>, \<open>starts_with\<close>, the
  \<open>cctype\<close> classifiers in the "C" locale, \<open>std::to_string\<close>, \<open>std::hex\<close>), and the two
  generic interfaces that the components instantiate: a transition system with an
  inductive invariant, and a character-wise escaping scheme.
  A byte is a \<^typ>\<open>char\<close>, so \<open>length\<close> is \<open>size()\<close>.
\<close>

named_theorems cxx_string \<open>facts on the C++ string operations\<close>

section \<open>Searching\<close>

text \<open>\<open>s.find(c)\<close>: the first index of a byte, \<open>None\<close> for \<open>npos\<close>.\<close>

fun find_char :: "char \<Rightarrow> string \<Rightarrow> nat option" where
  "find_char c [] = None"
| "find_char c (x # xs) = (if x = c then Some 0 else map_option Suc (find_char c xs))"

text \<open>\<open>s.find(needle)\<close>: the first index at which the needle starts.\<close>

fun find_str :: "string \<Rightarrow> string \<Rightarrow> nat option" where
  "find_str needle [] = (if needle = [] then Some 0 else None)"
| "find_str needle (x # xs) =
     (if prefix needle (x # xs) then Some 0 else map_option Suc (find_str needle xs))"

text \<open>\<open>s.find(needle, pos)\<close>: nothing is found when \<open>pos\<close> is past the end.\<close>

definition find_str_from :: "string \<Rightarrow> string \<Rightarrow> nat \<Rightarrow> nat option" where
  "find_str_from needle s pos =
     (if pos \<le> length s then map_option ((+) pos) (find_str needle (drop pos s)) else None)"

definition find_char_from :: "char \<Rightarrow> string \<Rightarrow> nat \<Rightarrow> nat option" where
  "find_char_from c s pos =
     (if pos \<le> length s then map_option ((+) pos) (find_char c (drop pos s)) else None)"

text \<open>\<open>s.substr(pos, n)\<close> for \<open>pos \<le> s.size()\<close>, the only way the sources call it.\<close>

definition substr :: "string \<Rightarrow> nat \<Rightarrow> nat \<Rightarrow> string" where
  "substr s pos n = take n (drop pos s)"

lemma substr_bound: "substr s p k = t \<Longrightarrow> length t = k \<Longrightarrow> 0 < k \<Longrightarrow> p + k \<le> length s"
  by (auto simp: substr_def min_def split: if_splits)

lemma find_char_None [cxx_string]: "find_char c s = None \<longleftrightarrow> c \<notin> set s"
  by (induction s) auto

lemma find_char_Some [cxx_string]:
  "find_char c s = Some i \<longleftrightarrow> i < length s \<and> s ! i = c \<and> c \<notin> set (take i s)"
proof (induction s arbitrary: i)
  case Nil
  show ?case by simp
next
  case (Cons x s)
  then show ?case by (cases i) auto
qed

lemma find_char_split:
  assumes "find_char c s = Some i"
  shows "s = take i s @ c # drop (Suc i) s"
  using assms by (auto simp: find_char_Some id_take_nth_drop)

lemma find_char_append:
  "c \<notin> set xs \<Longrightarrow> find_char c (xs @ c # ys) = Some (length xs)"
  by (induction xs) auto

lemma find_str_bound:
  "find_str needle s = Some i \<Longrightarrow> i + length needle \<le> length s"
  by (induction needle s arbitrary: i rule: find_str.induct)
     (fastforce split: if_splits dest: prefix_length_le)+

lemma find_str_match:
  "find_str needle s = Some i \<Longrightarrow> take (length needle) (drop i s) = needle"
  by (induction needle s arbitrary: i rule: find_str.induct)
     (auto split: if_splits simp: prefix_def)

lemma find_str_prefix: "prefix needle s \<Longrightarrow> find_str needle s = Some 0"
  by (cases s) auto

lemma find_str_from_bound:
  "find_str_from needle s pos = Some i \<Longrightarrow> pos \<le> i \<and> i + length needle \<le> length s"
  by (auto simp: find_str_from_def split: if_splits dest: find_str_bound)

text \<open>Splitting at the first occurrence: nothing before it contains the needle's first byte.\<close>

lemma find_str_append:
  assumes "c \<notin> set xs"
  shows "find_str (c # n) (xs @ (c # n) @ ys) = Some (length xs)"
  using assms by (induction xs) auto

lemma find_str_skip:
  assumes "c \<notin> set xs"
  shows "find_str (c # n) (xs @ ys) = map_option ((+) (length xs)) (find_str (c # n) ys)"
  using assms
proof (induction xs)
  case Nil
  show ?case by (cases "find_str (c # n) ys") auto
next
  case (Cons x xs)
  then show ?case by (cases "find_str (c # n) ys") auto
qed

text \<open>More input does not move the first occurrence.\<close>

lemma find_str_stable:
  "find_str n s = Some i \<Longrightarrow> find_str n (s @ t) = Some i"
proof (induction n s arbitrary: i rule: find_str.induct)
  case (1 n)
  then show ?case by (auto split: if_splits intro: find_str_prefix)
next
  case (2 n x xs)
  show ?case
  proof (cases "prefix n (x # xs)")
    case True
    then have "prefix n (x # xs @ t)" by (metis append_Cons prefix_prefix)
    with 2 True show ?thesis by simp
  next
    case False
    with 2 obtain j where j: "find_str n xs = Some j" "i = Suc j" by auto
    have "length n \<le> length (x # xs)" using find_str_bound [OF j(1)] by simp
    then have "\<not> prefix n ((x # xs) @ t)" using False prefix_length_prefix [of n "(x # xs) @ t" "x # xs"] by auto
    with 2 False j show ?thesis by simp
  qed
qed

lemma find_str_absent: "c \<notin> set xs \<Longrightarrow> find_str (c # n) xs = None"
  by (induction xs) auto

section \<open>Character classes and case mapping\<close>

definition toupper :: "char \<Rightarrow> char" where
  "toupper c = (if 97 \<le> (of_char c :: nat) \<and> (of_char c :: nat) \<le> 122
                then char_of ((of_char c :: nat) - 32) else c)"

definition tolower :: "char \<Rightarrow> char" where
  "tolower c = (if 65 \<le> (of_char c :: nat) \<and> (of_char c :: nat) \<le> 90
                then char_of ((of_char c :: nat) + 32) else c)"

definition isspace :: "char \<Rightarrow> bool" where
  "isspace c \<longleftrightarrow> (of_char c :: nat) = 32 \<or> (9 \<le> (of_char c :: nat) \<and> (of_char c :: nat) \<le> 13)"

definition isdigit :: "char \<Rightarrow> bool" where
  "isdigit c \<longleftrightarrow> 48 \<le> (of_char c :: nat) \<and> (of_char c :: nat) \<le> 57"

abbreviation to_upper :: "string \<Rightarrow> string" where
  "to_upper \<equiv> map toupper"

abbreviation to_lower :: "string \<Rightarrow> string" where
  "to_lower \<equiv> map tolower"

abbreviation CR :: char where "CR \<equiv> CHR 0x0D"
abbreviation LF :: char where "LF \<equiv> CHR 0x0A"
abbreviation TAB :: char where "TAB \<equiv> CHR 0x09"
abbreviation DQUOTE :: char where "DQUOTE \<equiv> CHR 0x22"
abbreviation BSLASH :: char where "BSLASH \<equiv> CHR 0x5C"
abbreviation CRLF :: string where "CRLF \<equiv> [CR, LF]"

lemma of_char_bound: "(of_char c :: nat) < 256"
  by (metis of_char_mod_256 mod_less_divisor zero_less_numeral)

lemma of_char_char_of_small: "n < 256 \<Longrightarrow> (of_char (char_of n) :: nat) = n"
  by simp

lemma toupper_toupper [simp]: "toupper (toupper c) = toupper c"
  by (auto simp: toupper_def)

lemma tolower_tolower [simp]: "tolower (tolower c) = tolower c"
  using of_char_bound [of c] by (auto simp: tolower_def)

lemma to_upper_idem [simp]: "to_upper (to_upper s) = to_upper s"
  by simp

lemma tolower_toupper [simp]: "tolower (toupper c) = tolower c"
  using of_char_bound [of c] by (auto simp: toupper_def tolower_def)

lemma toupper_tolower [simp]: "toupper (tolower c) = toupper c"
  using of_char_bound [of c] by (auto simp: toupper_def tolower_def)

text \<open>Comparing names case-insensitively does not depend on the direction of the mapping.\<close>

lemma to_upper_eq_iff_to_lower_eq: "to_upper a = to_upper b \<longleftrightarrow> to_lower a = to_lower b"
proof
  assume "to_upper a = to_upper b"
  then have "to_lower (to_upper a) = to_lower (to_upper b)" by simp
  then show "to_lower a = to_lower b" by (simp add: comp_def)
next
  assume "to_lower a = to_lower b"
  then have "to_upper (to_lower a) = to_upper (to_lower b)" by simp
  then show "to_upper a = to_upper b" by (simp add: comp_def)
qed

section \<open>Trimming\<close>

definition strip_by :: "(char \<Rightarrow> bool) \<Rightarrow> string \<Rightarrow> string" where
  "strip_by P s = rev (dropWhile P (rev (dropWhile P s)))"

lemma length_dropWhile_less_eq [simp]: "length (dropWhile P s) \<le> length s"
  by (induction s) auto

lemma length_strip_by: "length (strip_by P s) \<le> length s"
proof -
  have "length (dropWhile P (rev (dropWhile P s))) \<le> length (dropWhile P s)"
    by (metis length_dropWhile_le length_rev)
  also have "\<dots> \<le> length s" by simp
  finally show ?thesis by (simp add: strip_by_def)
qed

lemma dropWhile_unchanged: "t = [] \<or> \<not> P (hd t) \<Longrightarrow> dropWhile P t = t"
  by (cases t) auto

lemma strip_by_ends:
  assumes "strip_by P s \<noteq> []"
  shows "\<not> P (hd (strip_by P s)) \<and> \<not> P (last (strip_by P s))"
proof -
  define d where "d = dropWhile P s"
  define e where "e = dropWhile P (rev d)"
  have strip: "strip_by P s = rev e" by (simp add: strip_by_def d_def e_def)
  with assms have e: "e \<noteq> []" by simp
  then have "\<not> P (hd e)" using hd_dropWhile [of P "rev d"] unfolding e_def by blast
  moreover obtain zs where "rev d = zs @ e"
    unfolding e_def by (metis takeWhile_dropWhile_id)
  then have d: "d = rev e @ rev zs" by (metis rev_append rev_rev_ident)
  with e have "hd d = hd (rev e)" and "d \<noteq> []" by simp_all
  then have "\<not> P (hd (rev e))" using hd_dropWhile [of P s] unfolding d_def by metis
  ultimately show ?thesis using e by (simp add: strip last_rev)
qed

lemma strip_by_idem: "strip_by P (strip_by P s) = strip_by P s"
proof -
  let ?t = "strip_by P s"
  have "dropWhile P ?t = ?t"
    using strip_by_ends [of P s] by (intro dropWhile_unchanged) auto
  moreover have "dropWhile P (rev ?t) = rev ?t"
    using strip_by_ends [of P s] by (intro dropWhile_unchanged) (auto simp: hd_rev)
  ultimately show ?thesis by (simp add: strip_by_def [of P ?t])
qed

lemma strip_by_Cons: "P x \<Longrightarrow> strip_by P (x # s) = strip_by P s"
  by (simp add: strip_by_def)

lemma strip_by_unchanged:
  assumes "\<forall>c \<in> set s. \<not> P c"
  shows "strip_by P s = s"
proof -
  have "dropWhile P s = s" using assms by (intro dropWhile_unchanged) (cases s; auto)
  moreover have "dropWhile P (rev s) = rev s"
    using assms by (intro dropWhile_unchanged) (metis hd_in_set set_rev)
  ultimately show ?thesis by (simp add: strip_by_def)
qed

lemma takeWhile_until:
  "\<forall>c \<in> set xs. P c \<Longrightarrow> \<not> P y \<Longrightarrow> takeWhile P (xs @ y # ys) = xs"
  by (induction xs) auto

section \<open>Removing one element from a list\<close>

lemma distinct_map_remove1: "distinct (map f xs) \<Longrightarrow> distinct (map f (remove1 x xs))"
proof (induction xs)
  case Nil
  then show ?case by simp
next
  case (Cons a xs)
  then show ?case using set_remove1_subset [of x xs] by auto
qed

lemma length_filter_remove1:
  "x \<in> set xs \<Longrightarrow> length (filter P xs) = length (filter P (remove1 x xs)) + (if P x then 1 else 0)"
  by (induction xs) auto

section \<open>Numbers as text\<close>

text \<open>
  \<open>std::to_string\<close> of an unsigned value and \<open>std::ostream\<close> output under \<open>std::hex\<close>:
  positional digits without leading zeros, in lower case.
\<close>

definition digit_char :: "nat \<Rightarrow> char" where
  "digit_char d = (if d < 10 then char_of (48 + d) else char_of (87 + d))"

definition digit_value :: "char \<Rightarrow> nat option" where
  "digit_value c = (let n = of_char c :: nat in
     if 48 \<le> n \<and> n \<le> 57 then Some (n - 48)
     else if 97 \<le> n \<and> n \<le> 102 then Some (n - 87)
     else if 65 \<le> n \<and> n \<le> 70 then Some (n - 55) else None)"

function render_base :: "nat \<Rightarrow> nat \<Rightarrow> string" where
  "render_base b n =
     (if b < 2 \<or> n < b then [digit_char n] else render_base b (n div b) @ [digit_char (n mod b)])"
  by pat_completeness auto
termination
  by (relation "measure snd") auto

declare render_base.simps [simp del]

abbreviation dec_of_nat :: "nat \<Rightarrow> string" where
  "dec_of_nat \<equiv> render_base 10"

abbreviation hex_of_nat :: "nat \<Rightarrow> string" where
  "hex_of_nat \<equiv> render_base 16"

definition dec_of_int :: "int \<Rightarrow> string" where
  "dec_of_int i = (if i < 0 then CHR ''-'' # dec_of_nat (nat (- i)) else dec_of_nat (nat i))"

text \<open>The value of a digit string, most significant digit first.\<close>

definition digits_value :: "nat \<Rightarrow> string \<Rightarrow> nat" where
  "digits_value b = foldl (\<lambda>acc c. acc * b + the (digit_value c)) 0"

lemma digit_char_0: "digit_char 0 = CHR ''0''"
  by code_simp

lemma digit_char_class: "d < 10 \<Longrightarrow> isdigit (digit_char d) \<and> of_char (digit_char d) - 48 = d"
  by (simp add: isdigit_def digit_char_def)

lemma digit_value_digit_char: "d < 16 \<Longrightarrow> digit_value (digit_char d) = Some d"
  by (auto simp: digit_value_def digit_char_def Let_def)

lemma render_base_nonempty [simp]: "render_base b n \<noteq> []"
  by (subst render_base.simps) simp

lemma render_base_digits:
  assumes "2 \<le> b" "b \<le> 16" "c \<in> set (render_base b n)"
  shows "\<exists>d < b. c = digit_char d"
  using assms
proof (induction b n rule: render_base.induct)
  case (1 b n)
  show ?case
  proof (cases "n < b")
    case True
    with "1.prems" show ?thesis by (auto simp: render_base.simps [of b n])
  next
    case False
    with "1.prems" have "c \<in> set (render_base b (n div b)) \<or> c = digit_char (n mod b)"
      by (auto simp: render_base.simps [of b n])
    moreover have "n mod b < b" using "1.prems" by simp
    ultimately show ?thesis using "1.IH" False "1.prems"(1,2) by (metis leD)
  qed
qed

lemma dec_of_nat_digits: "c \<in> set (dec_of_nat n) \<Longrightarrow> isdigit c"
  using render_base_digits [of 10 c n] digit_char_class by auto

lemma render_base_hex_digits:
  assumes "2 \<le> b" "b \<le> 16" "c \<in> set (render_base b n)"
  shows "digit_value c \<noteq> None"
  using render_base_digits [OF assms] assms(2) by (auto simp: digit_value_digit_char)

text \<open>Hexadecimal digits are not white space, signs or separators.\<close>

lemma digit_value_class:
  assumes "digit_value c \<noteq> None"
  shows "\<not> isspace c" "c \<noteq> CHR ''-''" "c \<noteq> CHR ''+''" "c \<noteq> CHR ''x''" "c \<noteq> CHR ''X''"
    "c \<noteq> CHR '';''" "c \<noteq> CHR '':''" "c \<noteq> CR" "c \<noteq> LF"
  using assms by (auto simp: digit_value_def isspace_def Let_def split: if_splits)

lemma digits_value_render_base:
  assumes "2 \<le> b" "b \<le> 16"
  shows "digits_value b (render_base b n) = n"
  using assms
proof (induction b n rule: render_base.induct)
  case (1 b n)
  show ?case
  proof (cases "n < b")
    case True
    with "1.prems" show ?thesis
      by (simp add: render_base.simps [of b n] digits_value_def digit_value_digit_char)
  next
    case False
    with "1" have "digits_value b (render_base b (n div b)) = n div b" by simp
    moreover have "n mod b < b" using "1.prems" by simp
    then have "n mod b < 16" using "1.prems" by linarith
    ultimately show ?thesis using False "1.prems"
      by (simp add: render_base.simps [of b n] digits_value_def digit_value_digit_char)
  qed
qed

lemma render_base_inject:
  "2 \<le> b \<Longrightarrow> b \<le> 16 \<Longrightarrow> render_base b m = render_base b n \<longleftrightarrow> m = n"
  by (metis digits_value_render_base)

text \<open>A number below \<open>b ^ k\<close> takes at most \<open>k\<close> digits.\<close>

lemma length_render_base:
  "2 \<le> b \<Longrightarrow> 0 < k \<Longrightarrow> n < b ^ k \<Longrightarrow> length (render_base b n) \<le> k"
proof (induction k arbitrary: n)
  case 0
  then show ?case by simp
next
  case (Suc k)
  show ?case
  proof (cases "n < b \<or> k = 0")
    case True
    with Suc.prems show ?thesis by (auto simp: render_base.simps [of b n])
  next
    case False
    with Suc.prems have "n div b < b ^ k"
      by (simp add: less_mult_imp_div_less mult.commute)
    with Suc False show ?thesis by (simp add: render_base.simps [of b n])
  qed
qed

section \<open>Character-wise escaping\<close>

text \<open>
  Several components write a string between terminators after replacing each byte by an
  escape sequence. The interface: the sequence of a byte can be read back from the front
  of any text, and no sequence starts with the terminator. What a client gets is that a
  reader stops exactly at the terminator the writer added and recovers the string, so an
  escaped value cannot break out of its quotes.
\<close>

definition escape_with :: "(char \<Rightarrow> string) \<Rightarrow> string \<Rightarrow> string" where
  "escape_with esc s = concat (map esc s)"

fun scan_quoted ::
  "(string \<Rightarrow> (char \<times> string) option) \<Rightarrow> char \<Rightarrow> nat \<Rightarrow> string \<Rightarrow> (string \<times> string) option" where
  "scan_quoted unesc q 0 s = None"
| "scan_quoted unesc q (Suc k) s =
     (case s of [] \<Rightarrow> None
      | c # cs \<Rightarrow>
          if c = q then Some ([], cs)
          else case unesc s of None \<Rightarrow> None
               | Some (ch, rest) \<Rightarrow> map_option (apfst (Cons ch)) (scan_quoted unesc q k rest))"

locale char_escape =
  fixes esc :: "char \<Rightarrow> string"
    and unesc :: "string \<Rightarrow> (char \<times> string) option"
    and q :: char
  assumes unesc_esc: "unesc (esc c @ s) = Some (c, s)"
    and esc_nonempty: "esc c \<noteq> []"
    and esc_not_quote: "hd (esc c) \<noteq> q"
begin

lemma scan_escaped:
  "length s < k \<Longrightarrow> scan_quoted unesc q k (escape_with esc s @ q # rest) = Some (s, rest)"
proof (induction s arbitrary: k)
  case Nil
  then show ?case by (cases k) (auto simp: escape_with_def)
next
  case (Cons c s)
  then obtain k' where k': "k = Suc k'" "length s < k'" by (cases k) auto
  obtain x xs where x: "esc c = x # xs" "x \<noteq> q"
    using esc_nonempty [of c] esc_not_quote [of c] by (cases "esc c") auto
  have "unesc (escape_with esc (c # s) @ q # rest) = Some (c, escape_with esc s @ q # rest)"
    using unesc_esc [of c "escape_with esc s @ q # rest"] by (simp add: escape_with_def)
  with Cons.IH [OF k'(2)] x k' show ?case by (simp add: escape_with_def)
qed

lemma escape_inject: "escape_with esc s = escape_with esc t \<longleftrightarrow> s = t"
proof
  assume "escape_with esc s = escape_with esc t"
  then have "scan_quoted unesc q (Suc (length s + length t)) (escape_with esc s @ q # [])
           = scan_quoted unesc q (Suc (length s + length t)) (escape_with esc t @ q # [])" by simp
  then show "s = t" by (simp add: scan_escaped del: scan_quoted.simps)
qed simp

end

section \<open>Transition systems with an inductive invariant\<close>

text \<open>
  The interface every stateful component fills in: which states it starts in, what one
  atomic step does, and an invariant that the start states satisfy and every step keeps.
  The client gets the invariant in all states that any interleaving of steps can reach.
\<close>

locale invariant_system =
  fixes init :: "'s \<Rightarrow> bool"
    and step :: "'s \<Rightarrow> 's \<Rightarrow> bool"
    and inv :: "'s \<Rightarrow> bool"
  assumes inv_init: "init s \<Longrightarrow> inv s"
    and inv_step: "inv s \<Longrightarrow> step s t \<Longrightarrow> inv t"
begin

lemma inv_steps: "step\<^sup>*\<^sup>* s t \<Longrightarrow> inv s \<Longrightarrow> inv t"
  by (induction rule: rtranclp_induct) (auto intro: inv_step)

lemma reachable_inv: "init s \<Longrightarrow> step\<^sup>*\<^sup>* s t \<Longrightarrow> inv t"
  by (blast intro: inv_steps inv_init)

end

lemma rtranclp_steps3:
  "r a b \<Longrightarrow> r b c \<Longrightarrow> r c d \<Longrightarrow> r\<^sup>*\<^sup>* a d"
  by (meson converse_rtranclp_into_rtranclp rtranclp.rtrancl_refl)

lemma rtranclp_steps4:
  "r a b \<Longrightarrow> r b c \<Longrightarrow> r c d \<Longrightarrow> r d e \<Longrightarrow> r\<^sup>*\<^sup>* a e"
  by (meson rtranclp_steps3 converse_rtranclp_into_rtranclp)

text \<open>The same interface for deterministic components driven by a sequence of events.\<close>

locale invariant_machine =
  fixes next_state :: "'s \<Rightarrow> 'e \<Rightarrow> 's"
    and inv :: "'s \<Rightarrow> bool"
  assumes inv_next: "inv s \<Longrightarrow> inv (next_state s e)"
begin

lemma inv_run: "inv s \<Longrightarrow> inv (foldl next_state s es)"
  by (induction es arbitrary: s) (auto intro: inv_next)

end

section \<open>Paths\<close>

text \<open>No two slashes in a row.\<close>

fun no_double_slash :: "string \<Rightarrow> bool" where
  "no_double_slash (a # b # r) \<longleftrightarrow> \<not> (a = CHR ''/'' \<and> b = CHR ''/'') \<and> no_double_slash (b # r)"
| "no_double_slash _ \<longleftrightarrow> True"

lemma no_double_slash_Cons:
  "no_double_slash (a # s) \<longleftrightarrow> no_double_slash s \<and> \<not> (a = CHR ''/'' \<and> s \<noteq> [] \<and> hd s = CHR ''/'')"
  by (cases s) auto

lemma no_double_slash_butlast: "no_double_slash s \<Longrightarrow> no_double_slash (butlast s)"
proof (induction s rule: no_double_slash.induct)
  case (1 a b r)
  then show ?case by (cases r) (auto simp: no_double_slash_Cons)
qed auto

end
