(* ===== verification/Waiter_List.thy ===== *)
theory Waiter_List
  imports Prelude
begin

text \<open>
  The intrusive doubly linked list of waiters inside \<open>flux::AsyncSemaphore\<close>
  (\<open>include/flux/async_semaphore.h\<close>): the nodes are embedded in the operation states, so a
  pointer to a node is the identity of its operation. The pointer manipulations of
  \<open>enqueue_waiter_locked\<close>, \<open>remove_waiter_locked\<close> and \<open>pop_front_waiter_locked\<close> are
  modelled on an explicit heap, and shown to implement a FIFO queue with removal from the
  middle (the locale \<open>waiter_queue\<close>).
\<close>

type_synonym op_id = nat

record waiter_node =
  wn_prev :: "op_id option"
  wn_next :: "op_id option"
  wn_queued :: bool

type_synonym node_heap = "op_id \<Rightarrow> waiter_node"

definition fresh_node :: waiter_node where
  "fresh_node = \<lparr>wn_prev = None, wn_next = None, wn_queued = False\<rparr>"

record waiter_list =
  wl_head :: "op_id option"
  wl_tail :: "op_id option"
  wl_nodes :: node_heap

definition empty_waiters :: waiter_list where
  "empty_waiters = \<lparr>wl_head = None, wl_tail = None, wl_nodes = (\<lambda>_. fresh_node)\<rparr>"

definition enqueue_waiter_locked :: "op_id \<Rightarrow> waiter_list \<Rightarrow> waiter_list" where
  "enqueue_waiter_locked w l =
     (let h1 = (wl_nodes l)(w := \<lparr>wn_prev = wl_tail l, wn_next = None, wn_queued = True\<rparr>) in
      case wl_tail l of
        Some t \<Rightarrow> l\<lparr>wl_nodes := h1(t := (h1 t)\<lparr>wn_next := Some w\<rparr>), wl_tail := Some w\<rparr>
      | None \<Rightarrow> l\<lparr>wl_nodes := h1, wl_head := Some w, wl_tail := Some w\<rparr>)"

definition remove_waiter_locked :: "op_id \<Rightarrow> waiter_list \<Rightarrow> waiter_list" where
  "remove_waiter_locked w l =
     (if \<not> wn_queued (wl_nodes l w) then l
      else
        let p = wn_prev (wl_nodes l w); n = wn_next (wl_nodes l w);
            l1 = (case p of
                    Some a \<Rightarrow> l\<lparr>wl_nodes := (wl_nodes l)(a := (wl_nodes l a)\<lparr>wn_next := n\<rparr>)\<rparr>
                  | None \<Rightarrow> l\<lparr>wl_head := n\<rparr>);
            l2 = (case n of
                    Some b \<Rightarrow> l1\<lparr>wl_nodes := (wl_nodes l1)(b := (wl_nodes l1 b)\<lparr>wn_prev := p\<rparr>)\<rparr>
                  | None \<Rightarrow> l1\<lparr>wl_tail := p\<rparr>)
        in l2\<lparr>wl_nodes := (wl_nodes l2)(w := fresh_node)\<rparr>)"

definition pop_front_waiter_locked :: "waiter_list \<Rightarrow> op_id option \<times> waiter_list" where
  "pop_front_waiter_locked l =
     (case wl_head l of
        None \<Rightarrow> (None, l)
      | Some w \<Rightarrow>
          let hd' = wn_next (wl_nodes l w);
              l1 = l\<lparr>wl_head := hd'\<rparr>;
              l2 = (case hd' of
                      Some b \<Rightarrow> l1\<lparr>wl_nodes := (wl_nodes l1)(b := (wl_nodes l1 b)\<lparr>wn_prev := None\<rparr>)\<rparr>
                    | None \<Rightarrow> l1\<lparr>wl_tail := None\<rparr>)
          in (Some w, l2\<lparr>wl_nodes := (wl_nodes l2)(w := fresh_node)\<rparr>))"

section \<open>Segments of the list on the heap\<close>

definition first_of :: "op_id list \<Rightarrow> op_id option \<Rightarrow> op_id option" where
  "first_of ws n = (case ws of [] \<Rightarrow> n | w # _ \<Rightarrow> Some w)"

definition last_of :: "op_id option \<Rightarrow> op_id list \<Rightarrow> op_id option" where
  "last_of p ws = (if ws = [] then p else Some (last ws))"

fun seg :: "node_heap \<Rightarrow> op_id option \<Rightarrow> op_id list \<Rightarrow> op_id option \<Rightarrow> bool" where
  "seg h p [] n = True"
| "seg h p (w # ws) n =
     (wn_prev (h w) = p \<and> wn_next (h w) = first_of ws n \<and> seg h (Some w) ws n)"

lemma first_of_simps [simp]:
  "first_of [] n = n" "first_of (w # ws) n = Some w"
  "first_of (xs @ ys) n = first_of xs (first_of ys n)"
  by (simp_all add: first_of_def split: list.splits)

lemma last_of_simps [simp]:
  "last_of p [] = p" "last_of p (w # ws) = last_of (Some w) ws" "last_of p (ws @ [w]) = Some w"
  by (auto simp: last_of_def)

lemma last_of_append [simp]: "last_of p (xs @ ys) = last_of (last_of p xs) ys"
  by (auto simp: last_of_def)

lemma seg_append [simp]:
  "seg h p (xs @ ys) n \<longleftrightarrow> seg h p xs (first_of ys n) \<and> seg h (last_of p xs) ys n"
  by (induction xs arbitrary: p) auto

lemma seg_upd_other [simp]: "w \<notin> set ws \<Longrightarrow> seg (h(w := v)) p ws n = seg h p ws n"
  by (induction ws arbitrary: p) auto

text \<open>Redirecting the link out of, or into, a segment.\<close>

lemma seg_set_next:
  assumes "seg h p (ws @ [t]) n" "t \<notin> set ws"
  shows "seg (h(t := (h t)\<lparr>wn_next := n'\<rparr>)) p (ws @ [t]) n'"
  using assms by simp

lemma seg_set_prev:
  assumes "seg h p (b # ws) n" "b \<notin> set ws"
  shows "seg (h(b := (h b)\<lparr>wn_prev := p'\<rparr>)) p' (b # ws) n"
  using assms by simp

text \<open>The representation relation: the whole list, and which nodes are queued.\<close>

definition is_queue :: "waiter_list \<Rightarrow> op_id list \<Rightarrow> bool" where
  "is_queue l ws \<longleftrightarrow>
     distinct ws \<and> wl_head l = first_of ws None \<and> wl_tail l = last_of None ws
     \<and> seg (wl_nodes l) None ws None \<and> (\<forall>w. wn_queued (wl_nodes l w) \<longleftrightarrow> w \<in> set ws)"

lemma is_queue_empty: "is_queue empty_waiters []"
  by (simp add: is_queue_def empty_waiters_def fresh_node_def)

lemma enqueue_is_queue:
  assumes q: "is_queue l ws" and w: "w \<notin> set ws"
  shows "is_queue (enqueue_waiter_locked w l) (ws @ [w])"
proof (cases ws rule: rev_exhaust)
  case Nil
  with q show ?thesis
    by (auto simp: is_queue_def enqueue_waiter_locked_def Let_def)
next
  case (snoc vs t)
  with q w show ?thesis
    by (auto simp: is_queue_def enqueue_waiter_locked_def Let_def)
qed

lemma pop_is_queue:
  assumes q: "is_queue l ws"
  shows "case ws of
           [] \<Rightarrow> pop_front_waiter_locked l = (None, l)
         | w # vs \<Rightarrow> \<exists>l'. pop_front_waiter_locked l = (Some w, l') \<and> is_queue l' vs"
proof (cases ws)
  case Nil
  with q show ?thesis by (simp add: is_queue_def pop_front_waiter_locked_def)
next
  case (Cons w vs)
  with q show ?thesis
    by (cases vs) (auto simp: is_queue_def pop_front_waiter_locked_def Let_def fresh_node_def)
qed

lemma remove_is_queue:
  assumes q: "is_queue l ws"
  shows "is_queue (remove_waiter_locked w l) (remove1 w ws)"
proof (cases "w \<in> set ws")
  case False
  with q show ?thesis by (simp add: is_queue_def remove_waiter_locked_def remove1_idem)
next
  case True
  then obtain xs ys where ws: "ws = xs @ w # ys" and xs: "w \<notin> set xs"
    by (meson split_list_first)
  with q have "w \<notin> set ys" by (simp add: is_queue_def)
  with ws xs q show ?thesis
    by (cases xs rule: rev_exhaust; cases ys)
       (auto simp: is_queue_def remove_waiter_locked_def Let_def fresh_node_def remove1_append)
qed

section \<open>The queue contract\<close>

text \<open>Popping up to \<open>n\<close> elements, as the semaphore's critical sections do.\<close>

fun pop_upto :: "('q \<Rightarrow> 'a option \<times> 'q) \<Rightarrow> nat \<Rightarrow> 'q \<Rightarrow> 'a list \<times> 'q" where
  "pop_upto pop 0 q = ([], q)"
| "pop_upto pop (Suc n) q =
     (case pop q of
        (None, q') \<Rightarrow> ([], q')
      | (Some w, q') \<Rightarrow> let (ws, q'') = pop_upto pop n q' in (w # ws, q''))"

locale waiter_queue =
  fixes rep :: "'q \<Rightarrow> 'a list \<Rightarrow> bool"
    and enq :: "'a \<Rightarrow> 'q \<Rightarrow> 'q"
    and pop :: "'q \<Rightarrow> 'a option \<times> 'q"
    and rem :: "'a \<Rightarrow> 'q \<Rightarrow> 'q"
  assumes rep_distinct: "rep q ws \<Longrightarrow> distinct ws"
    and rep_enq: "rep q ws \<Longrightarrow> w \<notin> set ws \<Longrightarrow> rep (enq w q) (ws @ [w])"
    and rep_pop_Nil: "rep q [] \<Longrightarrow> pop q = (None, q)"
    and rep_pop_Cons: "rep q (w # ws) \<Longrightarrow> \<exists>q'. pop q = (Some w, q') \<and> rep q' ws"
    and rep_rem: "rep q ws \<Longrightarrow> rep (rem w q) (remove1 w ws)"
begin

lemma pop_upto_rep:
  "rep q ws \<Longrightarrow> \<exists>q'. pop_upto pop n q = (take n ws, q') \<and> rep q' (drop n ws)"
proof (induction n arbitrary: q ws)
  case 0
  then show ?case by simp
next
  case (Suc n)
  show ?case
  proof (cases ws)
    case Nil
    with Suc.prems show ?thesis by (auto simp: rep_pop_Nil)
  next
    case (Cons w vs)
    with Suc.prems obtain q' where q': "pop q = (Some w, q')" "rep q' vs"
      using rep_pop_Cons by blast
    with Suc.IH [OF q'(2)] Cons show ?thesis by auto
  qed
qed

text \<open>First in, first out: what a batch of enqueued waiters is popped as.\<close>

lemma fold_enq_rep:
  "rep q ws \<Longrightarrow> distinct (ws @ vs) \<Longrightarrow> rep (fold enq vs q) (ws @ vs)"
proof (induction vs arbitrary: q ws)
  case Nil
  then show ?case by simp
next
  case (Cons v vs)
  then have "rep (enq v q) (ws @ [v])" by (auto intro: rep_enq)
  with Cons.IH [of "enq v q" "ws @ [v]"] Cons.prems show ?case by simp
qed

lemma fifo:
  assumes "rep q []" "distinct vs" "set xs \<subseteq> set vs"
  shows "fst (pop_upto pop n (fold rem xs (fold enq vs q))) = take n (filter (\<lambda>v. v \<notin> set xs) vs)"
proof -
  have rem: "rep (fold rem xs p) (filter (\<lambda>v. v \<notin> set xs) ws)" if "rep p ws" for p ws
    using that
  proof (induction xs arbitrary: p ws)
    case Nil
    then show ?case by simp
  next
    case (Cons x xs)
    from rep_distinct [OF Cons.prems]
    have "remove1 x ws = filter ((\<noteq>) x) ws" by (simp add: distinct_remove1_removeAll removeAll_filter_not_eq)
    with rep_rem [OF Cons.prems, of x] have "rep (rem x p) (filter ((\<noteq>) x) ws)" by simp
    from Cons.IH [OF this] show ?case by (simp add: conj_commute eq_commute)
  qed
  have "rep (fold enq vs q) vs" using fold_enq_rep [of q "[]" vs] assms by simp
  from pop_upto_rep [OF rem [OF this], of n] show ?thesis by auto
qed

end

interpretation waiters: waiter_queue is_queue enqueue_waiter_locked pop_front_waiter_locked
  remove_waiter_locked
proof unfold_locales
  fix l ws w
  show "is_queue l ws \<Longrightarrow> distinct ws" by (simp add: is_queue_def)
  show "is_queue l ws \<Longrightarrow> w \<notin> set ws \<Longrightarrow> is_queue (enqueue_waiter_locked w l) (ws @ [w])"
    by (rule enqueue_is_queue)
  show "is_queue l [] \<Longrightarrow> pop_front_waiter_locked l = (None, l)"
    using pop_is_queue [of l "[]"] by simp
  show "is_queue l (w # ws) \<Longrightarrow> \<exists>l'. pop_front_waiter_locked l = (Some w, l') \<and> is_queue l' ws"
    using pop_is_queue [of l "w # ws"] by simp
  show "is_queue l ws \<Longrightarrow> is_queue (remove_waiter_locked w l) (remove1 w ws)"
    by (rule remove_is_queue)
qed

text \<open>The head pointer is null exactly when the queue is empty.\<close>

lemma head_None_iff: "is_queue l ws \<Longrightarrow> wl_head l = None \<longleftrightarrow> ws = []"
  by (cases ws) (auto simp: is_queue_def)

lemma not_queued_iff: "is_queue l ws \<Longrightarrow> wn_queued (wl_nodes l w) \<longleftrightarrow> w \<in> set ws"
  by (simp add: is_queue_def)



end
