(* ===== verification/Semaphore.thy ===== *)
theory Semaphore
  imports Waiter_List
begin

text \<open>
  \<open>flux::AsyncSemaphore\<close> and the operation states of its \<open>acquire()\<close> sender
  (\<open>include/flux/async_semaphore.h\<close>). The critical sections under \<open>mutex_\<close> are atomic
  steps; what a thread does between them (delivering completions collected under the lock,
  registering the stop callback, running the stop callback) are steps of their own, so that
  every interleaving the code allows is a run of \<open>sem_step\<close>.
  Permit counts are \<^typ>\<open>int\<close>: \<open>std::ptrdiff_t\<close> without its bound.
\<close>

section \<open>The semaphore\<close>

record semaphore =
  sem_permits :: int
  sem_closed :: bool
  sem_waiters :: waiter_list

definition make_semaphore :: "int \<Rightarrow> semaphore" where
  "make_semaphore permits =
     \<lparr>sem_permits = (if permits > 0 then permits else 0), sem_closed = False,
      sem_waiters = empty_waiters\<rparr>"

text \<open>The loop of \<open>release\<close> under the lock: hand permits to waiters, bank the rest.\<close>

fun release_loop :: "nat \<Rightarrow> semaphore \<Rightarrow> op_id list \<Rightarrow> semaphore \<times> op_id list" where
  "release_loop 0 s ready = (s, ready)"
| "release_loop (Suc n) s ready =
     (if wl_head (sem_waiters s) \<noteq> None then
        (case pop_front_waiter_locked (sem_waiters s) of
           (Some w, l) \<Rightarrow> release_loop n (s\<lparr>sem_waiters := l\<rparr>) (ready @ [w])
         | (None, l) \<Rightarrow> release_loop n (s\<lparr>sem_waiters := l\<rparr>) ready)
      else release_loop n (s\<lparr>sem_permits := sem_permits s + 1\<rparr>) ready)"

definition sem_release :: "int \<Rightarrow> semaphore \<Rightarrow> semaphore \<times> op_id list" where
  "sem_release permits s =
     (if permits \<le> 0 then (s, [])
      else if sem_closed s then (s, [])
      else release_loop (nat permits) s [])"

text \<open>The loop of \<open>close\<close>: pop until the head pointer is null. \<open>None\<close> would be a loop that
  does not end, as on a cyclic list.\<close>

partial_function (option) drain_waiters ::
  "waiter_list \<Rightarrow> op_id list \<Rightarrow> (op_id list \<times> waiter_list) option" where
  "drain_waiters l waiting =
     (if wl_head l \<noteq> None then
        (case pop_front_waiter_locked l of
           (Some w, l') \<Rightarrow> drain_waiters l' (waiting @ [w])
         | (None, l') \<Rightarrow> drain_waiters l' waiting)
      else Some (waiting, l))"

definition sem_close :: "semaphore \<Rightarrow> (semaphore \<times> op_id list) option" where
  "sem_close s =
     (if sem_closed s then Some (s, [])
      else case drain_waiters (sem_waiters s) [] of
             None \<Rightarrow> None
           | Some (waiting, l) \<Rightarrow>
               Some (s\<lparr>sem_closed := True, sem_permits := 0, sem_waiters := l\<rparr>, waiting))"

definition is_closed :: "semaphore \<Rightarrow> bool" where
  "is_closed s = sem_closed s"

text \<open>The critical section of \<open>Operation::start\<close>.\<close>

datatype start_result = Immediate bool | Queued

definition start_locked :: "op_id \<Rightarrow> semaphore \<Rightarrow> start_result \<times> semaphore" where
  "start_locked w s =
     (if sem_closed s then (Immediate False, s)
      else if sem_permits s > 0 then
        (Immediate True, s\<lparr>sem_permits := sem_permits s - 1\<rparr>)
      else (Queued, s\<lparr>sem_waiters := enqueue_waiter_locked w (sem_waiters s)\<rparr>))"

section \<open>Operation states\<close>

datatype outcome = SetValue bool | SetStopped

text \<open>Progress of \<open>request_stop\<close>: \<open>completed\<close> was seen false; the waiter was unlinked.\<close>

datatype stop_phase = NotStopping | Checked | Detached

record operation =
  op_started :: bool
  op_completed :: bool
  op_registering :: bool    \<comment> \<open>queued, before \<open>on_stop.emplace\<close>\<close>
  op_on_stop :: bool        \<comment> \<open>the stop callback is registered\<close>
  op_stop_requested :: bool \<comment> \<open>the receiver's stop token\<close>
  op_stop_phase :: stop_phase
  op_result :: "outcome option"

definition new_operation :: operation where
  "new_operation = \<lparr>op_started = False, op_completed = False, op_registering = False,
     op_on_stop = False, op_stop_requested = False, op_stop_phase = NotStopping,
     op_result = None\<rparr>"

definition mark_completed :: "operation \<Rightarrow> bool \<times> operation" where
  "mark_completed p =
     (if op_completed p then (False, p)
      else (True, p\<lparr>op_completed := True, op_on_stop := False\<rparr>))"

definition finish :: "bool \<Rightarrow> operation \<Rightarrow> operation" where
  "finish acquired p =
     (case mark_completed p of
        (False, p') \<Rightarrow> p'
      | (True, p') \<Rightarrow> p'\<lparr>op_result := Some (SetValue acquired)\<rparr>)"

definition finish_stopped :: "operation \<Rightarrow> operation" where
  "finish_stopped p =
     (case mark_completed p of
        (False, p') \<Rightarrow> p'
      | (True, p') \<Rightarrow> p'\<lparr>op_result := Some SetStopped\<rparr>)"

section \<open>The running system\<close>

text \<open>
  \<open>pending\<close> holds the completions that \<open>release\<close> or \<open>close\<close> popped under the lock and has
  not delivered yet. The last four fields are ghost counters of the permit ledger: permits
  put in, permits delivered to an operation, permits delivered to an operation that had
  already completed, permits dropped by \<open>close\<close>.
\<close>

record sem_sys =
  sys_sem :: semaphore
  sys_ops :: "op_id \<Rightarrow> operation"
  sys_pending :: "(op_id \<times> bool) list"
  sys_issued :: int
  sys_acquired :: int
  sys_lost :: int
  sys_discarded :: int

definition init_sys :: "int \<Rightarrow> sem_sys" where
  "init_sys permits =
     \<lparr>sys_sem = make_semaphore permits, sys_ops = (\<lambda>_. new_operation), sys_pending = [],
      sys_issued = (if permits > 0 then permits else 0), sys_acquired = 0, sys_lost = 0,
      sys_discarded = 0\<rparr>"

definition upd_op :: "op_id \<Rightarrow> (operation \<Rightarrow> operation) \<Rightarrow> sem_sys \<Rightarrow> sem_sys" where
  "upd_op i f s = s\<lparr>sys_ops := (sys_ops s)(i := f (sys_ops s i))\<rparr>"

text \<open>\<open>Operation::start\<close> up to the end of its critical section; an immediate result is
  finished by the same thread, and nobody else can see the operation before that.\<close>

definition start_op :: "op_id \<Rightarrow> sem_sys \<Rightarrow> sem_sys" where
  "start_op i s =
     (let s1 = upd_op i (\<lambda>p. p\<lparr>op_started := True\<rparr>) s in
      if op_stop_requested (sys_ops s i) then upd_op i finish_stopped s1
      else case start_locked i (sys_sem s) of
             (Immediate acq, sem) \<Rightarrow>
               (upd_op i (finish acq) s1)
                 \<lparr>sys_sem := sem, sys_acquired := sys_acquired s + (if acq then 1 else 0)\<rparr>
           | (Queued, sem) \<Rightarrow>
               (upd_op i (\<lambda>p. p\<lparr>op_registering := True\<rparr>) s1)\<lparr>sys_sem := sem\<rparr>)"

text \<open>The rest of \<open>start\<close>: emplace the callback, and drop it again if already completed.\<close>

definition register_stop :: "operation \<Rightarrow> operation" where
  "register_stop p = p\<lparr>op_registering := False, op_on_stop := \<not> op_completed p\<rparr>"

definition detach_op :: "op_id \<Rightarrow> sem_sys \<Rightarrow> sem_sys" where
  "detach_op i s =
     s\<lparr>sys_sem := (sys_sem s)\<lparr>sem_waiters := remove_waiter_locked i (sem_waiters (sys_sem s))\<rparr>\<rparr>"

definition release_op :: "int \<Rightarrow> sem_sys \<Rightarrow> sem_sys" where
  "release_op n s =
     (case sem_release n (sys_sem s) of
        (sem, ready) \<Rightarrow>
          s\<lparr>sys_sem := sem, sys_pending := sys_pending s @ map (\<lambda>w. (w, True)) ready,
            sys_issued := sys_issued s + (if sem_closed (sys_sem s) \<or> n \<le> 0 then 0 else n)\<rparr>)"

definition deliver_op :: "op_id \<times> bool \<Rightarrow> sem_sys \<Rightarrow> sem_sys" where
  "deliver_op x s =
     (let fresh = \<not> op_completed (sys_ops s (fst x)) in
      (upd_op (fst x) (finish (snd x)) s)
        \<lparr>sys_pending := remove1 x (sys_pending s),
         sys_acquired := sys_acquired s + (if snd x \<and> fresh then 1 else 0),
         sys_lost := sys_lost s + (if snd x \<and> \<not> fresh then 1 else 0)\<rparr>)"

inductive sem_step :: "sem_sys \<Rightarrow> sem_sys \<Rightarrow> bool" where
  step_start: "\<not> op_started (sys_ops s i) \<Longrightarrow> sem_step s (start_op i s)"
| step_register: "op_registering (sys_ops s i) \<Longrightarrow> sem_step s (upd_op i register_stop s)"
| step_request: "sem_step s (upd_op i (\<lambda>p. p\<lparr>op_stop_requested := True\<rparr>) s)"
| step_stop_check:
    "op_on_stop (sys_ops s i) \<Longrightarrow> op_stop_requested (sys_ops s i) \<Longrightarrow>
     op_stop_phase (sys_ops s i) = NotStopping \<Longrightarrow> \<not> op_completed (sys_ops s i) \<Longrightarrow>
     sem_step s (upd_op i (\<lambda>p. p\<lparr>op_stop_phase := Checked\<rparr>) s)"
| step_stop_detach:
    "op_stop_phase (sys_ops s i) = Checked \<Longrightarrow>
     sem_step s (upd_op i (\<lambda>p. p\<lparr>op_stop_phase := Detached\<rparr>) (detach_op i s))"
| step_stop_finish:
    "op_stop_phase (sys_ops s i) = Detached \<Longrightarrow> sem_step s (upd_op i finish_stopped s)"
| step_destroy: "op_completed (sys_ops s i) \<Longrightarrow> sem_step s (detach_op i s)"
| step_release: "sem_step s (release_op n s)"
| step_close:
    "sem_close (sys_sem s) = Some (sem, waiting) \<Longrightarrow>
     sem_step s (s\<lparr>sys_sem := sem,
                   sys_pending := sys_pending s @ map (\<lambda>w. (w, False)) waiting,
                   sys_discarded := sys_discarded s
                     + (if sem_closed (sys_sem s) then 0 else sem_permits (sys_sem s))\<rparr>)"
| step_deliver: "x \<in> set (sys_pending s) \<Longrightarrow> sem_step s (deliver_op x s)"

section \<open>What the critical sections do to the queue\<close>

lemma release_loop_spec:
  assumes "is_queue (sem_waiters s) ws"
  shows "\<exists>l. release_loop n s ready =
               (s\<lparr>sem_permits := sem_permits s + int (n - length ws), sem_waiters := l\<rparr>,
                ready @ take n ws) \<and> is_queue l (drop n ws)"
  using assms
proof (induction n arbitrary: s ws ready)
  case 0
  then show ?case by (intro exI [of _ "sem_waiters s"]) simp
next
  case (Suc n)
  show ?case
  proof (cases ws)
    case Nil
    with Suc.prems have "wl_head (sem_waiters s) = None" by (simp add: head_None_iff)
    with Suc.IH [of "s\<lparr>sem_permits := sem_permits s + 1\<rparr>" ws ready] Suc.prems Nil
    show ?thesis by (auto simp: algebra_simps)
  next
    case (Cons w vs)
    with Suc.prems obtain l where
      l: "pop_front_waiter_locked (sem_waiters s) = (Some w, l)" "is_queue l vs"
      using waiters.rep_pop_Cons by blast
    moreover from Suc.prems Cons have "wl_head (sem_waiters s) \<noteq> None"
      by (simp add: head_None_iff)
    ultimately show ?thesis
      using Suc.IH [of "s\<lparr>sem_waiters := l\<rparr>" vs "ready @ [w]"] Cons by auto
  qed
qed

lemma drain_waiters_spec:
  assumes "is_queue l ws"
  shows "\<exists>l'. drain_waiters l waiting = Some (waiting @ ws, l') \<and> is_queue l' []"
  using assms
proof (induction ws arbitrary: l waiting)
  case Nil
  then show ?case by (subst drain_waiters.simps) (simp add: head_None_iff)
next
  case (Cons w ws)
  then obtain l' where l': "pop_front_waiter_locked l = (Some w, l')" "is_queue l' ws"
    using waiters.rep_pop_Cons by blast
  moreover have "wl_head l \<noteq> None" using Cons.prems by (simp add: head_None_iff)
  ultimately show ?case
    using Cons.IH [OF l'(2), of "waiting @ [w]"] by (subst drain_waiters.simps) simp
qed

section \<open>The invariant\<close>

text \<open>One operation, given whether it is queued and whether a completion for it is pending.\<close>

definition op_ok :: "bool \<Rightarrow> bool \<Rightarrow> operation \<Rightarrow> bool" where
  "op_ok q pnd p \<longleftrightarrow>
     (op_completed p \<longleftrightarrow> op_result p \<noteq> None)
     \<and> (\<not> op_started p \<longrightarrow> \<not> op_completed p \<and> \<not> op_registering p \<and> \<not> op_on_stop p
          \<and> op_stop_phase p = NotStopping \<and> \<not> q \<and> \<not> pnd)
     \<and> (q \<longrightarrow> \<not> op_completed p \<and> op_stop_phase p \<noteq> Detached \<and> \<not> pnd)
     \<and> (op_stop_phase p \<noteq> NotStopping \<longrightarrow> op_stop_requested p)
     \<and> (op_completed p \<and> pnd \<longrightarrow> op_stop_requested p)"

definition pending_ids :: "sem_sys \<Rightarrow> op_id set" where
  "pending_ids s = fst ` set (sys_pending s)"

definition ops_ok :: "sem_sys \<Rightarrow> op_id list \<Rightarrow> bool" where
  "ops_ok s ws \<longleftrightarrow> distinct (map fst (sys_pending s))
     \<and> (\<forall>i. op_ok (i \<in> set ws) (i \<in> pending_ids s) (sys_ops s i))"

definition sem_ok :: "semaphore \<Rightarrow> op_id list \<Rightarrow> bool" where
  "sem_ok sem ws \<longleftrightarrow> is_queue (sem_waiters sem) ws \<and> 0 \<le> sem_permits sem
     \<and> (sem_permits sem > 0 \<longrightarrow> ws = []) \<and> (sem_closed sem \<longrightarrow> ws = [] \<and> sem_permits sem = 0)"

definition ledger_ok :: "sem_sys \<Rightarrow> bool" where
  "ledger_ok s \<longleftrightarrow>
     sem_permits (sys_sem s) + sys_acquired s + int (length (filter snd (sys_pending s)))
       + sys_lost s + sys_discarded s = sys_issued s
     \<and> 0 \<le> sys_acquired s \<and> 0 \<le> sys_lost s \<and> 0 \<le> sys_discarded s
     \<and> (sys_lost s > 0 \<longrightarrow> (\<exists>i. op_stop_requested (sys_ops s i)))"

definition sem_inv :: "sem_sys \<Rightarrow> bool" where
  "sem_inv s \<longleftrightarrow> (\<exists>ws. sem_ok (sys_sem s) ws \<and> ops_ok s ws) \<and> ledger_ok s"

lemmas op_defs = upd_op_def finish_def finish_stopped_def mark_completed_def register_stop_def
  detach_op_def op_ok_def ops_ok_def pending_ids_def

lemma sem_inv_init: "sem_inv (init_sys n)"
proof -
  have "sem_ok (sys_sem (init_sys n)) [] \<and> ops_ok (init_sys n) []"
    by (simp add: sem_ok_def op_defs init_sys_def make_semaphore_def new_operation_def
        is_queue_empty)
  moreover have "ledger_ok (init_sys n)"
    by (simp add: ledger_ok_def init_sys_def make_semaphore_def)
  ultimately show ?thesis unfolding sem_inv_def by blast
qed

lemma ex_upd: "\<exists>j. P (g j) \<Longrightarrow> (P (g i) \<Longrightarrow> P y) \<Longrightarrow> \<exists>j. P ((g(i := y)) j)"
  by (metis fun_upd_apply)

lemma ledger_ok_upd_op:
  assumes "ledger_ok s"
    and "op_stop_requested (sys_ops s i) \<Longrightarrow> op_stop_requested (f (sys_ops s i))"
  shows "ledger_ok (upd_op i f s)"
  using assms ex_upd [of op_stop_requested "sys_ops s" i "f (sys_ops s i)"]
  by (simp add: ledger_ok_def upd_op_def del: fun_upd_apply)

text \<open>Steps that touch one operation and nothing else.\<close>

lemma sem_inv_upd_op:
  assumes inv: "sem_inv s"
    and ok: "\<And>q pnd. op_ok q pnd (sys_ops s i) \<Longrightarrow> op_ok q pnd (f (sys_ops s i))"
    and mono: "op_stop_requested (sys_ops s i) \<Longrightarrow> op_stop_requested (f (sys_ops s i))"
  shows "sem_inv (upd_op i f s)"
proof -
  from inv obtain ws where ws: "sem_ok (sys_sem s) ws" "ops_ok s ws" and l: "ledger_ok s"
    unfolding sem_inv_def by blast
  from ws(2) ok have "ops_ok (upd_op i f s) ws"
    by (simp add: ops_ok_def pending_ids_def upd_op_def)
  moreover from l mono have "ledger_ok (upd_op i f s)" by (rule ledger_ok_upd_op)
  ultimately show ?thesis using ws(1) unfolding sem_inv_def by (auto simp: upd_op_def)
qed

lemma sem_ok_start:
  assumes ok: "sem_ok sem ws" and i: "i \<notin> set ws"
  shows "sem_ok (snd (start_locked i sem))
           (case fst (start_locked i sem) of Queued \<Rightarrow> ws @ [i] | Immediate _ \<Rightarrow> ws)"
  using ok enqueue_is_queue [of "sem_waiters sem" ws i] i
  by (auto simp: sem_ok_def start_locked_def)

lemma start_inv:
  assumes inv: "sem_inv s" and new: "\<not> op_started (sys_ops s i)"
  shows "sem_inv (start_op i s)"
proof -
  from inv obtain ws where ws: "sem_ok (sys_sem s) ws" "ops_ok s ws" and l: "ledger_ok s"
    unfolding sem_inv_def by blast
  from ws(2) new have i: "i \<notin> set ws" "i \<notin> pending_ids s"
    by (auto simp: ops_ok_def op_ok_def)
  note start = sem_ok_start [OF ws(1) i(1)]
  define vs where "vs = (if op_stop_requested (sys_ops s i) then ws
    else case fst (start_locked i (sys_sem s)) of Queued \<Rightarrow> ws @ [i] | Immediate _ \<Rightarrow> ws)"
  have "sem_ok (sys_sem (start_op i s)) vs"
    using start ws(1)
    by (auto simp: vs_def start_op_def Let_def upd_op_def split: prod.splits start_result.splits)
  moreover have "ops_ok (start_op i s) vs"
    using ws(2) i new
    by (auto simp: vs_def start_op_def Let_def op_defs split: prod.splits start_result.splits)
  moreover have "ledger_ok (start_op i s)"
    using l by (auto simp: ledger_ok_def start_op_def Let_def op_defs start_locked_def)
  ultimately show ?thesis unfolding sem_inv_def by blast
qed

lemma detach_inv:
  assumes inv: "sem_inv s"
    and ok: "\<And>pnd. op_ok True pnd (sys_ops s i) \<Longrightarrow> op_ok False pnd (f (sys_ops s i))"
    and ok': "\<And>pnd. op_ok False pnd (sys_ops s i) \<Longrightarrow> op_ok False pnd (f (sys_ops s i))"
    and mono: "op_stop_requested (sys_ops s i) \<Longrightarrow> op_stop_requested (f (sys_ops s i))"
  shows "sem_inv (upd_op i f (detach_op i s))"
proof -
  let ?t = "upd_op i f (detach_op i s)"
  from inv obtain ws where ws: "sem_ok (sys_sem s) ws" "ops_ok s ws" and l: "ledger_ok s"
    unfolding sem_inv_def by blast
  have d: "distinct ws" using ws(1) by (simp add: sem_ok_def is_queue_def)
  have "sem_ok (sys_sem ?t) (remove1 i ws)"
    using ws(1) remove_is_queue [of "sem_waiters (sys_sem s)" ws i]
    by (auto simp: sem_ok_def upd_op_def detach_op_def)
  moreover have "op_ok (j \<in> set (remove1 i ws)) (j \<in> pending_ids ?t) (sys_ops ?t j)" for j
  proof (cases "j = i")
    case True
    have "op_ok (i \<in> set ws) (i \<in> pending_ids s) (sys_ops s i)"
      using ws(2) by (simp add: ops_ok_def)
    then have "op_ok False (i \<in> pending_ids s) (f (sys_ops s i))"
      using ok ok' by (cases "i \<in> set ws") simp_all
    with True d show ?thesis by (simp add: pending_ids_def upd_op_def detach_op_def)
  next
    case False
    with ws(2) d show ?thesis
      by (simp add: ops_ok_def pending_ids_def upd_op_def detach_op_def)
  qed
  then have "ops_ok ?t (remove1 i ws)"
    using ws(2) by (simp add: ops_ok_def upd_op_def detach_op_def)
  moreover have "ledger_ok (detach_op i s)" using l by (simp add: ledger_ok_def detach_op_def)
  then have "ledger_ok ?t" by (rule ledger_ok_upd_op) (simp add: detach_op_def mono)
  ultimately show ?thesis unfolding sem_inv_def by blast
qed

text \<open>Moving a popped front part of the queue into the pending completions.\<close>

lemma ops_ok_pop:
  assumes ok: "ops_ok s (xs @ ys)" and d: "distinct (xs @ ys)"
    and pend: "sys_pending t = sys_pending s @ map (\<lambda>w. (w, b)) xs" and ops: "sys_ops t = sys_ops s"
  shows "ops_ok t ys"
proof -
  have ids: "pending_ids t = pending_ids s \<union> set xs"
    by (simp add: pending_ids_def pend image_Un image_image)
  have "op_ok (i \<in> set ys) (i \<in> pending_ids t) (sys_ops t i)" for i
  proof -
    have "op_ok (i \<in> set (xs @ ys)) (i \<in> pending_ids s) (sys_ops s i)"
      using ok by (simp add: ops_ok_def)
    then show ?thesis using d by (auto simp: ids ops op_ok_def)
  qed
  moreover have "set xs \<inter> fst ` set (sys_pending s) = {}"
    using ok by (auto simp: ops_ok_def op_ok_def pending_ids_def)
  then have "distinct (map fst (sys_pending t))"
    using ok d by (auto simp: ops_ok_def pend comp_def)
  ultimately show ?thesis by (simp add: ops_ok_def)
qed

lemma release_inv:
  assumes inv: "sem_inv s"
  shows "sem_inv (release_op n s)"
proof (cases "n \<le> 0 \<or> sem_closed (sys_sem s)")
  case True
  then have "release_op n s = s" by (auto simp: release_op_def sem_release_def)
  with inv show ?thesis by simp
next
  case False
  from inv obtain ws where ws: "sem_ok (sys_sem s) ws" "ops_ok s ws" and l: "ledger_ok s"
    unfolding sem_inv_def by blast
  let ?n = "nat n" and ?t = "release_op n s"
  from ws(1) have q: "is_queue (sem_waiters (sys_sem s)) ws" by (simp add: sem_ok_def)
  from release_loop_spec [OF q, of ?n "[]"] obtain wl where
    rel: "sem_release n (sys_sem s) =
      ((sys_sem s)\<lparr>sem_permits := sem_permits (sys_sem s) + int (?n - length ws), sem_waiters := wl\<rparr>,
       take ?n ws)" and wl: "is_queue wl (drop ?n ws)"
    using False by (auto simp: sem_release_def)
  have "sem_ok (sys_sem ?t) (drop ?n ws)"
    using ws(1) wl False by (auto simp: sem_ok_def release_op_def rel)
  moreover have "ops_ok ?t (drop ?n ws)"
    by (rule ops_ok_pop [of s "take ?n ws" _ _ True])
       (use ws(2) q in \<open>simp_all add: release_op_def rel is_queue_def\<close>)
  moreover have "ledger_ok ?t"
    using l False by (auto simp: ledger_ok_def release_op_def rel comp_def)
  ultimately show ?thesis unfolding sem_inv_def by blast
qed

lemma close_inv:
  assumes inv: "sem_inv s" and cl: "sem_close (sys_sem s) = Some (sem, waiting)"
  shows "sem_inv (s\<lparr>sys_sem := sem,
                    sys_pending := sys_pending s @ map (\<lambda>w. (w, False)) waiting,
                    sys_discarded := sys_discarded s
                      + (if sem_closed (sys_sem s) then 0 else sem_permits (sys_sem s))\<rparr>)"
    (is "sem_inv ?t")
proof (cases "sem_closed (sys_sem s)")
  case True
  with cl have "?t = s" by (simp add: sem_close_def)
  with inv show ?thesis by simp
next
  case False
  from inv obtain ws where ws: "sem_ok (sys_sem s) ws" "ops_ok s ws" and l: "ledger_ok s"
    unfolding sem_inv_def by blast
  from ws(1) have q: "is_queue (sem_waiters (sys_sem s)) ws" by (simp add: sem_ok_def)
  from drain_waiters_spec [OF q, of "[]"] cl False obtain wl where
    sem: "sem = (sys_sem s)\<lparr>sem_closed := True, sem_permits := 0, sem_waiters := wl\<rparr>"
    "waiting = ws" "is_queue wl []"
    by (auto simp: sem_close_def)
  have "sem_ok (sys_sem ?t) []" using sem by (simp add: sem_ok_def)
  moreover have "ops_ok ?t []"
    by (rule ops_ok_pop [of s ws _ _ False]) (use ws(2) q sem in \<open>simp_all add: is_queue_def\<close>)
  moreover have "ledger_ok ?t"
    using l False sem ws(1) by (auto simp: ledger_ok_def comp_def sem_ok_def)
  ultimately show ?thesis unfolding sem_inv_def by blast
qed

lemma finish_ok: "op_ok q True p \<Longrightarrow> op_ok q False (finish b p)"
  by (auto simp: op_ok_def finish_def mark_completed_def)

lemma deliver_inv:
  assumes inv: "sem_inv s" and x: "x \<in> set (sys_pending s)"
  shows "sem_inv (deliver_op x s)"
proof -
  obtain i b where xi: "x = (i, b)" by fastforce
  from inv obtain ws where ws: "sem_ok (sys_sem s) ws" "ops_ok s ws" and l: "ledger_ok s"
    unfolding sem_inv_def by blast
  let ?t = "deliver_op x s"
  have d: "distinct (map fst (sys_pending s))" using ws(2) by (simp add: ops_ok_def)
  have i: "i \<in> pending_ids s" using x xi by (force simp: pending_ids_def)
  have ids: "pending_ids ?t = pending_ids s - {i}"
  proof -
    from x obtain ps qs where ps: "sys_pending s = ps @ x # qs" "x \<notin> set ps"
      by (meson split_list_first)
    with d xi show ?thesis
      by (auto simp: pending_ids_def deliver_op_def Let_def upd_op_def remove1_append image_iff)
  qed
  have "op_ok (j \<in> set ws) (j \<in> pending_ids ?t) (sys_ops ?t j)" for j
  proof -
    have "op_ok (j \<in> set ws) (j \<in> pending_ids s) (sys_ops s j)" using ws(2) by (simp add: ops_ok_def)
    moreover have "sys_ops ?t j = (if j = i then finish b (sys_ops s i) else sys_ops s j)"
      by (simp add: xi deliver_op_def Let_def upd_op_def)
    ultimately show ?thesis using i finish_ok unfolding ids by auto
  qed
  moreover have "distinct (map fst (sys_pending ?t))"
    using d by (simp add: deliver_op_def Let_def upd_op_def distinct_map_remove1)
  moreover have "ledger_ok ?t"
  proof -
    have c: "op_completed (sys_ops s i) \<Longrightarrow> op_stop_requested (sys_ops s i)"
      using ws(2) i by (auto simp: ops_ok_def op_ok_def)
    let ?u = "s\<lparr>sys_pending := sys_pending ?t, sys_acquired := sys_acquired ?t, sys_lost := sys_lost ?t\<rparr>"
    have "ledger_ok ?u"
      using l c length_filter_remove1 [OF x, of snd] xi
      by (auto simp: ledger_ok_def deliver_op_def Let_def upd_op_def)
    then have "ledger_ok (upd_op i (finish b) ?u)"
      by (rule ledger_ok_upd_op) (simp add: finish_def mark_completed_def)
    moreover have "upd_op i (finish b) ?u = ?t" by (simp add: xi deliver_op_def Let_def upd_op_def)
    ultimately show ?thesis by simp
  qed
  moreover have "sem_ok (sys_sem ?t) ws"
    using ws(1) by (simp add: deliver_op_def Let_def upd_op_def)
  ultimately show ?thesis unfolding sem_inv_def ops_ok_def by blast
qed

lemma sem_step_inv: "sem_inv s \<Longrightarrow> sem_step s t \<Longrightarrow> sem_inv t"
proof -
  assume inv: "sem_inv s" and "sem_step s t"
  from this(2) show "sem_inv t"
  proof cases
    case (step_start i)
    with inv show ?thesis by (simp add: start_inv)
  next
    case (step_register i)
    have "sem_inv (upd_op i register_stop s)"
      by (rule sem_inv_upd_op [OF inv]) (use step_register in \<open>auto simp: op_ok_def register_stop_def\<close>)
    with step_register show ?thesis by simp
  next
    case (step_request i)
    have "sem_inv (upd_op i (\<lambda>p. p\<lparr>op_stop_requested := True\<rparr>) s)"
      by (rule sem_inv_upd_op [OF inv]) (auto simp: op_ok_def)
    with step_request show ?thesis by simp
  next
    case (step_stop_check i)
    have "sem_inv (upd_op i (\<lambda>p. p\<lparr>op_stop_phase := Checked\<rparr>) s)"
      by (rule sem_inv_upd_op [OF inv]) (use step_stop_check in \<open>auto simp: op_ok_def\<close>)
    with step_stop_check show ?thesis by simp
  next
    case (step_stop_detach i)
    have "sem_inv (upd_op i (\<lambda>p. p\<lparr>op_stop_phase := Detached\<rparr>) (detach_op i s))"
      by (rule detach_inv [OF inv]) (use step_stop_detach in \<open>auto simp: op_ok_def\<close>)
    with step_stop_detach show ?thesis by simp
  next
    case (step_stop_finish i)
    from inv obtain ws where ws: "sem_ok (sys_sem s) ws" "ops_ok s ws" and l: "ledger_ok s"
      unfolding sem_inv_def by blast
    have "sem_inv (upd_op i finish_stopped s)"
      by (rule sem_inv_upd_op [OF inv])
         (use step_stop_finish in \<open>auto simp: op_ok_def finish_stopped_def mark_completed_def\<close>)
    with step_stop_finish show ?thesis by simp
  next
    case (step_destroy i)
    have "sem_inv (upd_op i (\<lambda>p. p) (detach_op i s))"
      by (rule detach_inv [OF inv]) (use step_destroy in \<open>auto simp: op_ok_def\<close>)
    with step_destroy show ?thesis by (simp add: upd_op_def)
  next
    case (step_release n)
    with inv show ?thesis by (simp add: release_inv)
  next
    case (step_close sem waiting)
    with close_inv [OF inv] show ?thesis by simp
  next
    case (step_deliver x)
    with inv show ?thesis by (simp add: deliver_inv)
  qed
qed

interpretation sem: invariant_system "\<lambda>s. \<exists>n. s = init_sys n" sem_step sem_inv
  by unfold_locales (auto simp: sem_inv_init intro: sem_step_inv)

lemma op_result_stable:
  assumes inv: "sem_inv u" and st: "sem_step u v" and res: "op_result (sys_ops u i) = Some r"
  shows "op_result (sys_ops v i) = Some r"
proof -
  have c: "op_completed (sys_ops u i)" "op_started (sys_ops u i)"
    using inv res by (auto simp: sem_inv_def ops_ok_def op_ok_def)
  from st c res show ?thesis
    by cases (auto simp: op_defs start_op_def release_op_def deliver_op_def Let_def
        split: prod.splits start_result.splits)
qed

section \<open>Properties\<close>

text \<open>
  C2: in every state that any interleaving of acquire, release, close, stop requests and
  deliveries can reach, the permit ledger balances. Each permit put into the semaphore is
  banked, held by an acquirer, on its way to one, dropped by \<open>close\<close>, or lost, and a permit
  can only be lost when some operation's stop token was triggered. No permit is duplicated.
\<close>

theorem permits_conserved:
  assumes "sem_step\<^sup>*\<^sup>* (init_sys n) s"
  shows "sem_permits (sys_sem s) + sys_acquired s + int (length (filter snd (sys_pending s)))
           + sys_lost s + sys_discarded s = sys_issued s
         \<and> 0 \<le> sem_permits (sys_sem s) \<and> 0 \<le> sys_lost s
         \<and> ((\<forall>i. \<not> op_stop_requested (sys_ops s i)) \<longrightarrow> sys_lost s = 0)"
proof -
  have "sem_inv s" using sem.reachable_inv assms by blast
  then show ?thesis by (auto simp: sem_inv_def ledger_ok_def sem_ok_def order.order_iff_strict)
qed

theorem permits_conserved_witness:
  "sys_acquired (start_op 0 (init_sys 1)) + sem_permits (sys_sem (start_op 0 (init_sys 1))) = 1"
proof -
  have "sem_step (init_sys 1) (start_op 0 (init_sys 1))"
    by (rule step_start) (simp add: init_sys_def new_operation_def)
  from permits_conserved [OF r_into_rtranclp [of sem_step, OF this]] show ?thesis
    by (simp add: start_op_def init_sys_def new_operation_def make_semaphore_def start_locked_def
        upd_op_def Let_def)
qed

text \<open>
  C3: no wake-up is missed. In every reachable state a banked permit means that nobody is
  queued, a closed semaphore has neither permits nor waiters, and whoever is queued has
  started, has not completed and has no completion on its way.
\<close>

theorem no_missed_wakeup:
  assumes "sem_step\<^sup>*\<^sup>* (init_sys n) s"
  shows "\<exists>ws. is_queue (sem_waiters (sys_sem s)) ws
           \<and> (sem_permits (sys_sem s) > 0 \<longrightarrow> ws = [])
           \<and> (sem_closed (sys_sem s) \<longrightarrow> ws = [] \<and> sem_permits (sys_sem s) = 0)
           \<and> (\<forall>w \<in> set ws. op_started (sys_ops s w) \<and> \<not> op_completed (sys_ops s w)
                \<and> w \<notin> fst ` set (sys_pending s))"
proof -
  have "sem_inv s" using sem.reachable_inv assms by blast
  then obtain ws where "sem_ok (sys_sem s) ws" "ops_ok s ws" unfolding sem_inv_def by blast
  then show ?thesis
    by (intro exI [of _ ws]) (auto simp: sem_ok_def ops_ok_def op_ok_def pending_ids_def)
qed

theorem no_missed_wakeup_witness:
  "\<exists>ws. is_queue (sem_waiters (sys_sem (init_sys 2))) ws \<and> ws = []"
  using no_missed_wakeup [of 2 "init_sys 2"] by (auto simp: init_sys_def make_semaphore_def)

text \<open>
  C4: an operation completes at most once. Whatever happens after an operation has delivered
  a result to its receiver, that result stays the only one: racing releases, closes and stop
  callbacks never overwrite it.
\<close>

theorem completes_at_most_once:
  assumes "sem_step\<^sup>*\<^sup>* (init_sys n) s" and "sem_step\<^sup>*\<^sup>* s t"
    and "op_result (sys_ops s i) = Some r"
  shows "op_result (sys_ops t i) = Some r"
proof -
  from assms(2) show ?thesis
  proof (induction rule: rtranclp_induct)
    case base
    show ?case by (rule assms(3))
  next
    case (step u v)
    have "sem_inv u" using sem.reachable_inv [OF _ rtranclp_trans [OF assms(1) step.hyps(1)]] by blast
    with step show ?case by (blast intro: op_result_stable)
  qed
qed

theorem completes_at_most_once_witness:
  "op_result (sys_ops (release_op 1 (start_op 0 (init_sys 1))) 0) = Some (SetValue True)"
proof -
  have s: "sem_step (init_sys 1) (start_op 0 (init_sys 1))"
    by (rule step_start) (simp add: init_sys_def new_operation_def)
  have r: "op_result (sys_ops (start_op 0 (init_sys 1)) 0) = Some (SetValue True)"
    by (simp add: start_op_def init_sys_def new_operation_def make_semaphore_def start_locked_def
        op_defs Let_def)
  show ?thesis
    using completes_at_most_once [OF r_into_rtranclp [of sem_step, OF s] r_into_rtranclp [of sem_step, OF step_release] r] .
qed

text \<open>
  \<open>release(n)\<close> on an open semaphore wakes the first \<open>min n k\<close> of the \<open>k\<close> waiters in
  arrival order and banks exactly the permits that are left over.
\<close>

theorem release_wakes_in_order:
  assumes "is_queue (sem_waiters s) ws" and "0 < n" and "\<not> sem_closed s"
  shows "\<exists>l. sem_release n s =
           (s\<lparr>sem_permits := sem_permits s + int (nat n - length ws), sem_waiters := l\<rparr>,
            take (nat n) ws) \<and> is_queue l (drop (nat n) ws)"
  using release_loop_spec [OF assms(1), of "nat n" "[]"] assms(2,3) by (simp add: sem_release_def)

theorem release_wakes_in_order_witness:
  "snd (sem_release 2 (make_semaphore 0
      \<lparr>sem_waiters := fold enqueue_waiter_locked [7, 8, 9] empty_waiters\<rparr>)) = [7, 8]"
proof -
  have "is_queue (fold enqueue_waiter_locked [7, 8, 9] empty_waiters) [7, 8, 9]"
    using waiters.fold_enq_rep [OF is_queue_empty, of "[7, 8, 9]"] by simp
  then show ?thesis
    using release_wakes_in_order [of "make_semaphore 0
      \<lparr>sem_waiters := fold enqueue_waiter_locked [7, 8, 9] empty_waiters\<rparr>" "[7, 8, 9]" 2]
    by (auto simp: make_semaphore_def)
qed

text \<open>
  C8: \<open>close\<close> terminates on every queue the code can build, collects every waiter in order
  and leaves a semaphore on which every later \<open>acquire\<close> reports failure at once and every
  later \<open>release\<close> does nothing.
\<close>

theorem close_drains:
  assumes "is_queue (sem_waiters s) ws" and "\<not> sem_closed s"
  shows "\<exists>s'. sem_close s = Some (s', ws) \<and> is_closed s' \<and> sem_permits s' = 0
           \<and> is_queue (sem_waiters s') []
           \<and> (\<forall>i. start_locked i s' = (Immediate False, s')) \<and> (\<forall>n. sem_release n s' = (s', []))"
proof -
  from drain_waiters_spec [OF assms(1), of "[]"] obtain l where
    l: "drain_waiters (sem_waiters s) [] = Some (ws, l)" "is_queue l []" by auto
  with assms(2) show ?thesis
    by (simp add: sem_close_def is_closed_def start_locked_def sem_release_def)
qed

theorem close_drains_witness:
  "\<exists>s'. sem_close (make_semaphore 3) = Some (s', []) \<and> is_closed s'"
  using close_drains [of "make_semaphore 3" "[]"] by (auto simp: make_semaphore_def is_queue_empty)

section \<open>Two races\<close>

text \<open>The states of one run: operation 0 queues and registers its stop callback, its token is
  triggered, the callback sees \<open>completed\<close> false, another thread's \<open>release(1)\<close> pops the
  waiter, the callback finishes the operation as stopped, and the release delivers.\<close>

definition race_before_release :: sem_sys where
  "race_before_release =
     upd_op 0 (\<lambda>p. p\<lparr>op_stop_phase := Checked\<rparr>)
       (upd_op 0 (\<lambda>p. p\<lparr>op_stop_requested := True\<rparr>)
         (upd_op 0 register_stop (start_op 0 (init_sys 0))))"

definition race_after_release :: sem_sys where
  "race_after_release =
     upd_op 0 finish_stopped
       (upd_op 0 (\<lambda>p. p\<lparr>op_stop_phase := Detached\<rparr>)
         (detach_op 0 (release_op 1 race_before_release)))"

lemmas race_eval = start_op_def start_locked_def init_sys_def make_semaphore_def new_operation_def
  empty_waiters_def fresh_node_def enqueue_waiter_locked_def pop_front_waiter_locked_def
  remove_waiter_locked_def release_op_def sem_release_def deliver_op_def
  upd_op_def finish_def finish_stopped_def mark_completed_def register_stop_def detach_op_def
  Let_def

lemma queued_start:
  "start_op 0 (init_sys 0) =
     (init_sys 0)\<lparr>sys_ops := (\<lambda>_. new_operation)(0 := new_operation\<lparr>op_started := True, op_registering := True\<rparr>),
       sys_sem := (make_semaphore 0)\<lparr>sem_waiters := enqueue_waiter_locked 0 empty_waiters\<rparr>\<rparr>"
  by (simp add: race_eval)

lemma race_before_reachable: "sem_step\<^sup>*\<^sup>* (init_sys 0) race_before_release"
proof -
  let ?s1 = "start_op 0 (init_sys 0)"
  let ?s2 = "upd_op 0 register_stop ?s1"
  let ?s3 = "upd_op 0 (\<lambda>p. p\<lparr>op_stop_requested := True\<rparr>) ?s2"
  have "sem_step (init_sys 0) ?s1" by (rule step_start) (simp add: init_sys_def new_operation_def)
  moreover have "sem_step ?s1 ?s2" by (rule step_register) (simp add: queued_start)
  moreover have "sem_step ?s2 ?s3" by (rule step_request)
  moreover have "sem_step ?s3 race_before_release"
    unfolding race_before_release_def
    by (rule step_stop_check)
       (simp_all add: queued_start upd_op_def register_stop_def new_operation_def)
  ultimately show ?thesis by (rule rtranclp_steps4)
qed

lemma race_after_reachable: "sem_step\<^sup>*\<^sup>* (init_sys 0) race_after_release"
proof -
  let ?s5 = "release_op 1 race_before_release"
  let ?s6 = "upd_op 0 (\<lambda>p. p\<lparr>op_stop_phase := Detached\<rparr>) (detach_op 0 ?s5)"
  have "sem_step race_before_release ?s5" by (rule step_release)
  moreover have "sem_step ?s5 ?s6"
    by (rule step_stop_detach)
       (simp add: release_op_def race_before_release_def upd_op_def split: prod.splits)
  moreover have "sem_step ?s6 race_after_release"
    unfolding race_after_release_def
    by (rule step_stop_finish) (simp add: upd_op_def)
  ultimately have "sem_step\<^sup>*\<^sup>* race_before_release race_after_release" by (rule rtranclp_steps3)
  with race_before_reachable show ?thesis by (rule rtranclp_trans)
qed

text \<open>
  the permit of a \<open>release\<close> that races with a stop request can vanish. There is a
  reachable state in which one permit was released into an idle semaphore, the only
  operation has ended as stopped, nothing is pending and nobody is queued, and yet no permit
  is banked: \<open>finish(true)\<close> on the already completed operation drops it instead of
  returning it to the semaphore.
\<close>

theorem stop_race_loses_permit:
  "\<exists>s. sem_step\<^sup>*\<^sup>* (init_sys 0) s \<and> sys_issued s = 1 \<and> \<not> sem_closed (sys_sem s)
     \<and> sys_pending s = [] \<and> wl_head (sem_waiters (sys_sem s)) = None
     \<and> op_result (sys_ops s 0) = Some SetStopped
     \<and> sem_permits (sys_sem s) = 0 \<and> sys_acquired s = 0 \<and> sys_lost s = 1"
proof -
  let ?s = "deliver_op (0, True) race_after_release"
  have st: "sem_step race_after_release ?s"
    by (rule step_deliver)
       (simp add: race_after_release_def race_before_release_def race_eval)
  have "sys_issued ?s = 1 \<and> \<not> sem_closed (sys_sem ?s)
     \<and> sys_pending ?s = [] \<and> wl_head (sem_waiters (sys_sem ?s)) = None
     \<and> op_result (sys_ops ?s 0) = Some SetStopped
     \<and> sem_permits (sys_sem ?s) = 0 \<and> sys_acquired ?s = 0 \<and> sys_lost ?s = 1"
    by (simp add: race_after_release_def race_before_release_def race_eval)
  with rtranclp.rtrancl_into_rtrancl [OF race_after_reachable st] show ?thesis by blast
qed

text \<open>
  an operation can be completed while its own \<open>start()\<close> has not finished. There is a
  reachable state in which the receiver has been given its result (and may destroy the
  operation state) although \<open>start\<close> is still about to emplace the stop callback into it.
\<close>

theorem completed_before_start_returns:
  "\<exists>s. sem_step\<^sup>*\<^sup>* (init_sys 0) s
     \<and> op_result (sys_ops s 0) = Some (SetValue True) \<and> op_registering (sys_ops s 0)"
proof -
  let ?s1 = "start_op 0 (init_sys 0)"
  let ?s2 = "release_op 1 ?s1"
  let ?s3 = "deliver_op (0, True) ?s2"
  have "sem_step (init_sys 0) ?s1" by (rule step_start) (simp add: init_sys_def new_operation_def)
  moreover have "sem_step ?s1 ?s2" by (rule step_release)
  moreover have "sem_step ?s2 ?s3" by (rule step_deliver) (simp add: race_eval)
  ultimately have "sem_step\<^sup>*\<^sup>* (init_sys 0) ?s3" by (rule rtranclp_steps3)
  moreover have "op_result (sys_ops ?s3 0) = Some (SetValue True) \<and> op_registering (sys_ops ?s3 0)"
    by (simp add: race_eval)
  ultimately show ?thesis by blast
qed

end
