(* ===== verification/Pool.thy ===== *)
theory Pool
  imports Semaphore
begin

text \<open>
  The connection pool that \<open>layer2/src/redis.cpp\<close> and \<open>layer2/src/sql.cpp\<close> share in structure: a queue of
  free indices behind a mutex, and an \<open>AsyncSemaphore\<close> that counts them. The semaphore is the model
  of the theory \<open>Semaphore\<close>, with all its interleavings; \<open>pool_step\<close> adds the critical sections of the
  pool. An acquire with a timeout is \<open>when_any(acquire, timer)\<close>: when the timer is first, the
  operation is asked to stop and its own result is dropped.
\<close>

section \<open>What the pool relies on\<close>

text \<open>The semaphore as its clients see it: \<open>granted\<close> are the operations that were given a permit; grants
  are never taken back, and there are no more of them than permits issued.\<close>

locale permit_source =
  fixes step :: "'s \<Rightarrow> 's \<Rightarrow> bool" and inv :: "'s \<Rightarrow> bool"
    and issued :: "'s \<Rightarrow> int" and granted :: "'s \<Rightarrow> 'o set"
  assumes granted_mono: "inv s \<Longrightarrow> step s t \<Longrightarrow> granted s \<subseteq> granted t"
    and granted_finite: "inv s \<Longrightarrow> finite (granted s)"
    and granted_issued: "inv s \<Longrightarrow> int (card (granted s)) \<le> issued s"
begin

text \<open>A grant that was not used yet finds an item: items and used grants together are at least as many
  as the permits issued.\<close>

lemma unused_grant:
  assumes "inv s" and "used \<subseteq> granted s" and "i \<in> granted s - used"
    and "issued s \<le> int n + int (card used)"
  shows "0 < n"
proof -
  have "insert i used \<subseteq> granted s" using assms(2,3) by blast
  then have "card (insert i used) \<le> card (granted s)" using granted_finite [OF assms(1)] by (rule card_mono [rotated])
  moreover have "card (insert i used) = Suc (card used)"
    using assms(2,3) granted_finite [OF assms(1)] by (simp add: finite_subset)
  ultimately show ?thesis using granted_issued [OF assms(1)] assms(4) by linarith
qed

end

definition granted_ops :: "sem_sys \<Rightarrow> op_id set" where
  "granted_ops s = {i. op_result (sys_ops s i) = Some (SetValue True)}"

text \<open>The counter of acquired permits counts the operations that hold one; nothing was discarded
  before the semaphore was closed.\<close>

definition grants_ok :: "sem_sys \<Rightarrow> bool" where
  "grants_ok s \<longleftrightarrow> finite (granted_ops s) \<and> int (card (granted_ops s)) = sys_acquired s
     \<and> (\<not> sem_closed (sys_sem s) \<longrightarrow> sys_discarded s = 0)"

definition permits_inv :: "sem_sys \<Rightarrow> bool" where
  "permits_inv s \<longleftrightarrow> sem_inv s \<and> grants_ok s"

lemma granted_upd:
  "granted_ops (upd_op i f s) =
     (if op_result (f (sys_ops s i)) = Some (SetValue True) then insert i (granted_ops s) else granted_ops s - {i})"
  by (auto simp: granted_ops_def upd_op_def)

lemma granted_fields [simp]:
  "granted_ops (s\<lparr>sys_sem := x\<rparr>) = granted_ops s" "granted_ops (s\<lparr>sys_pending := ps\<rparr>) = granted_ops s"
  "granted_ops (s\<lparr>sys_issued := n\<rparr>) = granted_ops s" "granted_ops (s\<lparr>sys_acquired := n\<rparr>) = granted_ops s"
  "granted_ops (s\<lparr>sys_lost := n\<rparr>) = granted_ops s" "granted_ops (s\<lparr>sys_discarded := n\<rparr>) = granted_ops s"
  by (simp_all add: granted_ops_def)

lemma upd_op_fields [simp]:
  "sys_sem (upd_op i f s) = sys_sem s" "sys_acquired (upd_op i f s) = sys_acquired s"
  "sys_discarded (upd_op i f s) = sys_discarded s" "sys_issued (upd_op i f s) = sys_issued s"
  by (simp_all add: upd_op_def)

lemma upd_op_same [simp]: "sys_ops (upd_op i f s) i = f (sys_ops s i)"
  by (simp add: upd_op_def)

lemma finish_result:
  "op_result (finish b p) = (if op_completed p then op_result p else Some (SetValue b))"
  "op_result (finish_stopped p) = (if op_completed p then op_result p else Some SetStopped)"
  by (simp_all add: finish_def finish_stopped_def mark_completed_def)

lemma sem_release_closed [simp]: "sem_closed (fst (sem_release n s)) = sem_closed s"
proof -
  have "sem_closed (fst (release_loop k u r)) = sem_closed u" for k u r
    by (induction k u r rule: release_loop.induct) (auto split: prod.splits option.splits)
  then show ?thesis by (simp add: sem_release_def)
qed

lemma granted_iff: "i \<in> granted_ops s \<longleftrightarrow> op_result (sys_ops s i) = Some (SetValue True)"
  by (simp add: granted_ops_def)

lemma completed_result: "sem_inv s \<Longrightarrow> op_completed (sys_ops s i) \<longleftrightarrow> op_result (sys_ops s i) \<noteq> None"
  by (auto simp: sem_inv_def ops_ok_def op_ok_def)

lemma not_completed_granted: "sem_inv s \<Longrightarrow> \<not> op_completed (sys_ops s i) \<Longrightarrow> i \<notin> granted_ops s"
  by (simp add: completed_result granted_iff)

lemma granted_upd_same:
  "op_result (f (sys_ops s i)) = op_result (sys_ops s i) \<Longrightarrow> granted_ops (upd_op i f s) = granted_ops s"
  by (auto simp: granted_upd granted_iff)

lemma granted_finish:
  assumes "sem_inv s" and "op_completed (sys_ops t i) = op_completed (sys_ops s i)"
    and "op_result (sys_ops t i) = op_result (sys_ops s i)" and "granted_ops t = granted_ops s"
  shows "granted_ops (upd_op i finish_stopped t) = granted_ops s"
    and "granted_ops (upd_op i (finish b) t) =
           (if b \<and> \<not> op_completed (sys_ops s i) then insert i (granted_ops s) else granted_ops s)"
proof -
  note n = not_completed_granted [OF assms(1), of i]
  have in_granted: "op_result (sys_ops s i) = Some (SetValue True) \<longleftrightarrow> i \<in> granted_ops s" by (simp add: granted_iff)
  show "granted_ops (upd_op i finish_stopped t) = granted_ops s"
    unfolding granted_upd finish_result assms(2,3,4) using n in_granted by (cases "op_completed (sys_ops s i)") auto
  show "granted_ops (upd_op i (finish b) t) =
           (if b \<and> \<not> op_completed (sys_ops s i) then insert i (granted_ops s) else granted_ops s)"
    unfolding granted_upd finish_result assms(2,3,4) using n in_granted by (cases "op_completed (sys_ops s i)") auto
qed

lemma grants_start:
  assumes "sem_inv s" and "grants_ok s" and "\<not> op_started (sys_ops s i)"
  shows "grants_ok (start_op i s)"
proof -
  have c: "\<not> op_completed (sys_ops s i)"
    using assms(1,3) by (auto simp: sem_inv_def ops_ok_def op_ok_def)
  let ?s1 = "upd_op i (\<lambda>p. p\<lparr>op_started := True\<rparr>) s"
  have g: "granted_ops ?s1 = granted_ops s" by (simp add: granted_upd_same)
  have q: "granted_ops (upd_op i (\<lambda>p. p\<lparr>op_registering := True\<rparr>) ?s1) = granted_ops s"
    using g by (simp add: granted_upd_same)
  show ?thesis
    using assms(2) c not_completed_granted [OF assms(1) c] granted_finish [OF assms(1) _ _ g, of i] q
    by (auto simp: grants_ok_def start_op_def start_locked_def Let_def split: prod.splits start_result.splits)
qed

lemma grants_step:
  assumes "sem_inv s" and "grants_ok s" and "sem_step s t"
  shows "grants_ok t"
  using assms(3)
proof cases
  case (step_start i)
  with assms show ?thesis by (simp add: grants_start)
next
  case (step_deliver x)
  then show ?thesis
    using assms(2) not_completed_granted [OF assms(1), of "fst x"] granted_finish(2) [OF assms(1), of s "fst x" "snd x"]
    by (auto simp: grants_ok_def deliver_op_def Let_def)
next
  case (step_stop_finish i)
  with assms(2) granted_finish(1) [OF assms(1), of s i] show ?thesis by (simp add: grants_ok_def)
next
  case (step_release n)
  with assms(2) sem_release_closed [of n "sys_sem s"] show ?thesis
    by (cases "sem_release n (sys_sem s)") (auto simp: grants_ok_def release_op_def)
qed (use assms(2) in \<open>auto simp: grants_ok_def granted_upd_same register_stop_def detach_op_def sem_close_def
  split: option.splits if_splits\<close>)

interpretation permits: permit_source sem_step permits_inv sys_issued granted_ops
proof
  fix s t
  assume inv: "permits_inv s"
  show "finite (granted_ops s)" using inv by (simp add: permits_inv_def grants_ok_def)
  show "int (card (granted_ops s)) \<le> sys_issued s"
    using inv by (auto simp: permits_inv_def grants_ok_def sem_inv_def ledger_ok_def sem_ok_def)
  assume "sem_step s t"
  with inv show "granted_ops s \<subseteq> granted_ops t"
    using op_result_stable by (auto simp: permits_inv_def granted_iff)
qed

lemma permits_inv_step: "permits_inv s \<Longrightarrow> sem_step s t \<Longrightarrow> permits_inv t"
  using grants_step sem_step_inv by (auto simp: permits_inv_def)

section \<open>The pool\<close>

datatype pool_error = PoolClosed | PoolInvalid

text \<open>
  \<open>outcome\<close> is what \<open>take_index\<close> gave each acquire, \<open>held\<close> the leases that were not returned,
  \<open>timed_out\<close> the acquires whose timer was first, and \<open>notify\<close> the number of returned indices whose
  \<open>available_signal_.release(1)\<close> is still to come.
\<close>

record pool =
  pl_signal :: sem_sys
  pl_available :: "nat list"
  pl_closed :: bool
  pl_outcome :: "op_id \<rightharpoonup> pool_error + nat"
  pl_held :: "op_id \<rightharpoonup> nat"
  pl_timed_out :: "op_id set"
  pl_notify :: nat

text \<open>The end of \<open>init()\<close>: every index is available and the semaphore has as many permits.\<close>

definition pool_init :: "nat \<Rightarrow> pool" where
  "pool_init max_connections =
     \<lparr>pl_signal = release_op (int max_connections) (init_sys 0), pl_available = [0..<max_connections],
      pl_closed = False, pl_outcome = Map.empty, pl_held = Map.empty, pl_timed_out = {}, pl_notify = 0\<rparr>"

definition take_index :: "bool \<Rightarrow> pool \<Rightarrow> (pool_error + nat) \<times> pool" where
  "take_index acquired p =
     (if \<not> acquired then (Inl PoolClosed, p)
      else if pl_closed p then (Inl PoolClosed, p)
      else case pl_available p of
             [] \<Rightarrow> (Inl PoolInvalid, p)
           | index # rest \<Rightarrow> (Inr index, p\<lparr>pl_available := rest\<rparr>))"

definition release_index :: "nat \<Rightarrow> pool \<Rightarrow> bool \<times> pool" where
  "release_index index p =
     (if \<not> pl_closed p then (True, p\<lparr>pl_available := pl_available p @ [index]\<rparr>) else (False, p))"

definition pool_close_mark :: "pool \<Rightarrow> pool" where
  "pool_close_mark p = p\<lparr>pl_closed := True, pl_available := []\<rparr>"

text \<open>
  \<open>pool_signal\<close>: a step of the semaphore other than \<open>release\<close> and \<open>close\<close>, which only the pool calls.
  \<open>pool_timeout\<close>: the timer of an acquire that has no result yet fires.
\<close>

inductive pool_step :: "pool \<Rightarrow> pool \<Rightarrow> bool" where
  pool_signal:
    "sem_step (pl_signal p) t \<Longrightarrow> sys_issued t = sys_issued (pl_signal p) \<Longrightarrow>
     sem_closed (sys_sem t) = sem_closed (sys_sem (pl_signal p)) \<Longrightarrow>
     pool_step p (p\<lparr>pl_signal := t\<rparr>)"
| pool_timeout:
    "op_started (sys_ops (pl_signal p) i) \<Longrightarrow> op_result (sys_ops (pl_signal p) i) = None \<Longrightarrow>
     pool_step p (p\<lparr>pl_signal := upd_op i (\<lambda>x. x\<lparr>op_stop_requested := True\<rparr>) (pl_signal p),
                    pl_timed_out := insert i (pl_timed_out p)\<rparr>)"
| pool_take:
    "op_result (sys_ops (pl_signal p) i) = Some (SetValue acquired) \<Longrightarrow> i \<notin> pl_timed_out p \<Longrightarrow>
     pl_outcome p i = None \<Longrightarrow> take_index acquired p = (r, q) \<Longrightarrow>
     pool_step p (q\<lparr>pl_outcome := (pl_outcome p)(i \<mapsto> r),
                    pl_held := (case r of Inl _ \<Rightarrow> pl_held p | Inr k \<Rightarrow> (pl_held p)(i \<mapsto> k))\<rparr>)"
| pool_return:
    "pl_held p i = Some k \<Longrightarrow> release_index k p = (should_notify, q) \<Longrightarrow>
     pool_step p (q\<lparr>pl_held := (pl_held p)(i := None),
                    pl_notify := pl_notify p + (if should_notify then 1 else 0)\<rparr>)"
| pool_notify:
    "0 < pl_notify p \<Longrightarrow>
     pool_step p (p\<lparr>pl_signal := release_op 1 (pl_signal p), pl_notify := pl_notify p - 1\<rparr>)"
| pool_close: "pool_step p (pool_close_mark p)"
| pool_close_signal:
    "pl_closed p \<Longrightarrow> sem_step (pl_signal p) t \<Longrightarrow> sem_closed (sys_sem t) \<Longrightarrow>
     sys_issued t = sys_issued (pl_signal p) \<Longrightarrow> pool_step p (p\<lparr>pl_signal := t\<rparr>)"

section \<open>The invariant of the pool\<close>

definition taken_ops :: "pool \<Rightarrow> op_id set" where
  "taken_ops p = {i. \<exists>k. pl_outcome p i = Some (Inr k)}"

definition leases_ok :: "nat \<Rightarrow> pool \<Rightarrow> bool" where
  "leases_ok n p \<longleftrightarrow> distinct (pl_available p) \<and> inj_on (pl_held p) (dom (pl_held p))
     \<and> ran (pl_held p) \<inter> set (pl_available p) = {} \<and> ran (pl_held p) \<union> set (pl_available p) \<subseteq> {..<n}
     \<and> (\<not> pl_closed p \<longrightarrow> ran (pl_held p) \<union> set (pl_available p) = {..<n})
     \<and> dom (pl_held p) \<subseteq> taken_ops p"

definition pool_count_ok :: "pool \<Rightarrow> bool" where
  "pool_count_ok p \<longleftrightarrow> taken_ops p \<subseteq> granted_ops (pl_signal p)
     \<and> (sem_closed (sys_sem (pl_signal p)) \<longrightarrow> pl_closed p)
     \<and> (\<not> pl_closed p \<longrightarrow> sys_issued (pl_signal p) + int (pl_notify p)
          = int (length (pl_available p)) + int (card (taken_ops p)))
     \<and> (\<forall>i. pl_outcome p i \<noteq> Some (Inl PoolInvalid))"

definition pool_inv :: "nat \<Rightarrow> pool \<Rightarrow> bool" where
  "pool_inv n p \<longleftrightarrow> permits_inv (pl_signal p) \<and> leases_ok n p \<and> pool_count_ok p"

lemmas pool_defs = leases_ok_def pool_count_ok_def taken_ops_def

lemma permits_inv_init: "permits_inv (init_sys n)"
  using sem_inv_init [of n]
  by (simp add: permits_inv_def grants_ok_def granted_ops_def) (simp add: init_sys_def new_operation_def)

lemma permits_inv_release: "permits_inv s \<Longrightarrow> permits_inv (release_op n s)"
  by (blast intro: permits_inv_step step_release)

lemma release_op_fields [simp]:
  "sem_closed (sys_sem (release_op n s)) = sem_closed (sys_sem s)" "sys_ops (release_op n s) = sys_ops s"
  "sys_issued (release_op n s) = sys_issued s + (if sem_closed (sys_sem s) \<or> n \<le> 0 then 0 else n)"
  using sem_release_closed [of n "sys_sem s"] by (cases "sem_release n (sys_sem s)"; simp add: release_op_def)+

lemma granted_release [simp]: "granted_ops (release_op n s) = granted_ops s"
  by (simp add: granted_ops_def)

lemma pool_inv_init: "pool_inv n (pool_init n)"
  by (auto simp: pool_inv_def pool_defs pool_init_def permits_inv_release permits_inv_init)
     (simp add: init_sys_def make_semaphore_def)+

text \<open>A step that leaves the leases alone and moves the semaphore.\<close>

lemma pool_inv_signal:
  assumes "pool_inv n p" and "sem_step (pl_signal p) t" and "sys_issued t = sys_issued (pl_signal p)"
    and "sem_closed (sys_sem t) \<longrightarrow> pl_closed p"
  shows "pool_inv n (p\<lparr>pl_signal := t\<rparr>)"
proof -
  have "permits_inv t" using assms(1,2) permits_inv_step by (auto simp: pool_inv_def)
  moreover have "granted_ops (pl_signal p) \<subseteq> granted_ops t"
    using assms(1,2) permits.granted_mono by (auto simp: pool_inv_def)
  ultimately show ?thesis using assms by (auto simp: pool_inv_def pool_defs)
qed

lemma taken_fields [simp]:
  "taken_ops (p\<lparr>pl_held := h\<rparr>) = taken_ops p" "taken_ops (p\<lparr>pl_available := ks\<rparr>) = taken_ops p"
  "taken_ops (p\<lparr>pl_notify := m\<rparr>) = taken_ops p" "taken_ops (p\<lparr>pl_signal := t\<rparr>) = taken_ops p"
  "taken_ops (p\<lparr>pl_closed := c\<rparr>) = taken_ops p" "taken_ops (p\<lparr>pl_timed_out := T\<rparr>) = taken_ops p"
  by (simp_all add: taken_ops_def)

lemma taken_upd:
  "pl_outcome p i = None \<Longrightarrow>
     taken_ops (q\<lparr>pl_outcome := (pl_outcome p)(i \<mapsto> r)\<rparr>) =
       (case r of Inl _ \<Rightarrow> taken_ops p | Inr k \<Rightarrow> insert i (taken_ops p))"
  by (auto simp: taken_ops_def split: sum.splits)

lemma take_finds_index:
  assumes "pool_inv n p" and "op_result (sys_ops (pl_signal p) i) = Some (SetValue True)"
    and "pl_outcome p i = None" and "\<not> pl_closed p"
  shows "pl_available p \<noteq> []"
proof -
  have "0 < length (pl_available p)"
    using assms
    by (intro permits.unused_grant [of "pl_signal p" "taken_ops p" i])
       (auto simp: pool_inv_def pool_count_ok_def granted_iff taken_ops_def)
  then show ?thesis by simp
qed

text \<open>Leases as an injective map: a new one, and one given back.\<close>

lemma inj_lease:
  "inj_on h (dom h) \<Longrightarrow> k \<notin> ran h \<Longrightarrow> inj_on (h(i \<mapsto> k)) (insert i (dom h))"
  by (auto simp: inj_on_def ran_def)

lemma inj_return: "inj_on h (dom h) \<Longrightarrow> inj_on (h(i := None)) (dom h - {i})"
  by (auto simp: inj_on_def)

lemma ran_return:
  assumes "inj_on h (dom h)" "h i = Some k"
  shows "ran (h(i := None)) = ran h - {k}"
proof (intro set_eqI iffI)
  fix x
  assume "x \<in> ran (h(i := None))"
  then obtain a where a: "h a = Some x" "a \<noteq> i" by (auto simp: ran_def split: if_splits)
  then have "x \<noteq> k" using inj_onD [OF assms(1), of a i] assms(2) by auto
  then show "x \<in> ran h - {k}" using a by (auto intro: ranI)
next
  fix x
  assume "x \<in> ran h - {k}"
  then obtain a where "h a = Some x" "a \<noteq> i" using assms(2) unfolding ran_def by force
  then show "x \<in> ran (h(i := None))" by (auto simp: ran_def)
qed

lemma pool_inv_take:
  assumes inv: "pool_inv n p" and res: "op_result (sys_ops (pl_signal p) i) = Some (SetValue acquired)"
    and new: "pl_outcome p i = None" and take: "take_index acquired p = (r, q)"
  shows "pool_inv n (q\<lparr>pl_outcome := (pl_outcome p)(i \<mapsto> r),
                       pl_held := (case r of Inl _ \<Rightarrow> pl_held p | Inr k \<Rightarrow> (pl_held p)(i \<mapsto> k))\<rparr>)"
proof (cases "acquired \<and> \<not> pl_closed p")
  case False
  then have "r = Inl PoolClosed \<and> q = p" using take by (auto simp: take_index_def split: if_splits)
  then show ?thesis using inv taken_upd [OF new, where q = p and r = "Inl PoolClosed"]
    by (auto simp: pool_inv_def leases_ok_def pool_count_ok_def)
next
  case True
  with take_finds_index [OF inv] res new obtain k ks where av: "pl_available p = k # ks"
    by (cases "pl_available p") auto
  then have r: "r = Inr k" "q = p\<lparr>pl_available := ks\<rparr>" using take True by (auto simp: take_index_def)
  have i: "i \<notin> taken_ops p" "i \<in> granted_ops (pl_signal p)" "pl_held p i = None"
    using new res True inv by (auto simp: taken_ops_def granted_iff pool_inv_def leases_ok_def dom_def)
  have fin: "finite (taken_ops p)"
    using inv permits.granted_finite finite_subset by (auto simp: pool_inv_def pool_count_ok_def)
  have "leases_ok n (q\<lparr>pl_outcome := (pl_outcome p)(i \<mapsto> r), pl_held := (pl_held p)(i \<mapsto> k)\<rparr>)"
  proof -
    have l: "distinct (k # ks)" "inj_on (pl_held p) (dom (pl_held p))" "ran (pl_held p) \<inter> set (k # ks) = {}"
      "ran (pl_held p) \<union> set (k # ks) = {..<n}" "dom (pl_held p) \<subseteq> taken_ops p"
      using inv True unfolding av [symmetric] by (simp_all add: pool_inv_def leases_ok_def)
    have "inj_on ((pl_held p)(i \<mapsto> k)) (insert i (dom (pl_held p)))" using l by (intro inj_lease) auto
    then show ?thesis using l i(3) r taken_upd [OF new] by (simp add: leases_ok_def) blast
  qed
  moreover have "pool_count_ok (q\<lparr>pl_outcome := (pl_outcome p)(i \<mapsto> r), pl_held := (pl_held p)(i \<mapsto> k)\<rparr>)"
    using inv av r i fin taken_upd [OF new] unfolding pool_count_ok_def by (auto simp: pool_inv_def pool_count_ok_def)
  ultimately show ?thesis using inv r by (simp add: pool_inv_def)
qed

lemma pool_inv_return:
  assumes inv: "pool_inv n p" and held: "pl_held p i = Some k" and rel: "release_index k p = (b, q)"
  shows "pool_inv n (q\<lparr>pl_held := (pl_held p)(i := None), pl_notify := pl_notify p + (if b then 1 else 0)\<rparr>)"
proof -
  have l: "distinct (pl_available p)" "inj_on (pl_held p) (dom (pl_held p))"
    "ran (pl_held p) \<inter> set (pl_available p) = {}" "ran (pl_held p) \<union> set (pl_available p) \<subseteq> {..<n}"
    "\<not> pl_closed p \<longrightarrow> ran (pl_held p) \<union> set (pl_available p) = {..<n}" "dom (pl_held p) \<subseteq> taken_ops p"
    using inv by (simp_all add: pool_inv_def leases_ok_def)
  have k: "k \<in> ran (pl_held p)" using held by (rule ranI)
  note h = inj_return [OF l(2), of i] ran_return [OF l(2) held]
  have "leases_ok n (q\<lparr>pl_held := (pl_held p)(i := None), pl_notify := m\<rparr>)" for m
    using rel l h k by (auto simp: leases_ok_def release_index_def split: if_splits)
  moreover have "pool_count_ok (q\<lparr>pl_held := (pl_held p)(i := None), pl_notify := pl_notify p + (if b then 1 else 0)\<rparr>)"
    using inv rel by (auto simp: pool_inv_def pool_count_ok_def release_index_def split: if_splits)
  moreover have "pl_signal q = pl_signal p" using rel by (auto simp: release_index_def split: if_splits)
  ultimately show ?thesis using inv by (simp add: pool_inv_def)
qed

lemma pool_inv_step:
  assumes inv: "pool_inv n p" and "pool_step p q"
  shows "pool_inv n q"
  using assms(2)
proof cases
  case (pool_signal t)
  moreover have "sem_closed (sys_sem (pl_signal p)) \<longrightarrow> pl_closed p" using inv by (simp add: pool_inv_def pool_count_ok_def)
  ultimately show ?thesis using pool_inv_signal [OF inv] by simp
next
  case (pool_timeout i)
  have "pool_inv n (p\<lparr>pl_signal := upd_op i (\<lambda>x. x\<lparr>op_stop_requested := True\<rparr>) (pl_signal p)\<rparr>)"
    by (rule pool_inv_signal [OF inv step_request]) (use inv in \<open>simp_all add: pool_inv_def pool_count_ok_def\<close>)
  then show ?thesis using pool_timeout by (simp add: pool_inv_def leases_ok_def pool_count_ok_def)
next
  case (pool_take i acquired r q')
  with pool_inv_take [OF inv] show ?thesis by simp
next
  case (pool_return i k b q')
  with pool_inv_return [OF inv] show ?thesis by simp
next
  case pool_notify
  then show ?thesis using inv by (auto simp: pool_inv_def leases_ok_def pool_count_ok_def permits_inv_release)
next
  case pool_close
  then show ?thesis using inv by (auto simp: pool_inv_def leases_ok_def pool_count_ok_def pool_close_mark_def)
next
  case (pool_close_signal t)
  with pool_inv_signal [OF inv] show ?thesis by simp
qed

interpretation pool: invariant_system "\<lambda>p. p = pool_init n" pool_step "pool_inv n"
  by unfold_locales (auto simp: pool_inv_init intro: pool_inv_step)

section \<open>Properties\<close>

text \<open>
  C5: A pool never hands out an index twice. In every state that any interleaving of acquires, timeouts,
  returns and a close can reach, the held and the free indices are disjoint and distinct, while the
  pool is open they are exactly the indices below \<open>max_connections\<close>, and the error
  "internal state invalid" is never raised: a granted permit always finds a free index.\<close>

theorem pool_exclusive:
  assumes "pool_step\<^sup>*\<^sup>* (pool_init n) p"
  shows "inj_on (pl_held p) (dom (pl_held p)) \<and> distinct (pl_available p)
    \<and> ran (pl_held p) \<inter> set (pl_available p) = {}
    \<and> (\<not> pl_closed p \<longrightarrow> ran (pl_held p) \<union> set (pl_available p) = {..<n})
    \<and> (\<forall>i. pl_outcome p i \<noteq> Some (Inl PoolInvalid))
    \<and> (\<forall>i. i \<in> granted_ops (pl_signal p) \<and> pl_outcome p i = None \<and> \<not> pl_closed p \<longrightarrow> pl_available p \<noteq> [])"
proof -
  have inv: "pool_inv n p" using pool.reachable_inv [OF refl assms] .
  then show ?thesis
    using take_finds_index [OF inv] by (auto simp: pool_inv_def leases_ok_def pool_count_ok_def granted_iff)
qed

text \<open>
  Without timeouts no connection is lost. In every reachable state of an open pool in which no
  acquire was asked to stop, nothing is on its way and every granted acquire has taken its index, the
  semaphore holds exactly one permit per free index, so the next acquires succeed at once.\<close>

theorem pool_idle_permits:
  assumes "pool_step\<^sup>*\<^sup>* (pool_init n) p" and "\<not> pl_closed p"
    and "\<forall>i. \<not> op_stop_requested (sys_ops (pl_signal p) i)"
    and "sys_pending (pl_signal p) = []" and "pl_notify p = 0" and "granted_ops (pl_signal p) = taken_ops p"
  shows "sem_permits (sys_sem (pl_signal p)) = int (length (pl_available p))"
proof -
  have "pool_inv n p" using pool.reachable_inv [OF refl assms(1)] .
  then have "sys_lost (pl_signal p) = 0" "sys_discarded (pl_signal p) = 0"
    "int (card (granted_ops (pl_signal p))) = sys_acquired (pl_signal p)"
    "sys_issued (pl_signal p) = int (length (pl_available p)) + int (card (taken_ops p))"
    "sem_permits (sys_sem (pl_signal p)) + sys_acquired (pl_signal p) + sys_lost (pl_signal p)
       + sys_discarded (pl_signal p) = sys_issued (pl_signal p)"
    using assms(2-5)
    by (auto simp: pool_inv_def permits_inv_def grants_ok_def sem_inv_def ledger_ok_def pool_count_ok_def
        order.order_iff_strict)
  then show ?thesis using assms(6) by simp
qed

section \<open>A run\<close>

text \<open>A pool of one connection: operation 0 takes the index; operation 1 queues; the index is returned and
  its permit is on its way to operation 1 when the timer of operation 1 fires.\<close>

definition leased :: pool where
  "leased = (pool_init 1)\<lparr>pl_signal := start_op 0 (pl_signal (pool_init 1)), pl_available := [],
     pl_outcome := [0 \<mapsto> Inr 0], pl_held := [0 \<mapsto> 0]\<rparr>"

definition returned :: pool where
  "returned = leased\<lparr>pl_signal := start_op 1 (pl_signal leased), pl_available := [0], pl_held := Map.empty, pl_notify := 1\<rparr>"

definition starved :: pool where
  "starved = returned\<lparr>pl_notify := 0, pl_timed_out := {1},
     pl_signal := deliver_op (1, True) (upd_op 1 (\<lambda>x. x\<lparr>op_stop_requested := True\<rparr>)
       (release_op 1 (pl_signal returned)))\<rparr>"

lemma pool_takeI:
  assumes "op_result (sys_ops (pl_signal p) i) = Some (SetValue True)" and "i \<notin> pl_timed_out p"
    and "pl_outcome p i = None" and "\<not> pl_closed p" and "pl_available p = k # ks"
  shows "pool_step p (p\<lparr>pl_available := ks, pl_outcome := (pl_outcome p)(i \<mapsto> Inr k), pl_held := (pl_held p)(i \<mapsto> k)\<rparr>)"
  using pool_take [OF assms(1,2,3), of "Inr k" "p\<lparr>pl_available := ks\<rparr>"] assms(4,5) by (simp add: take_index_def)

lemma pool_returnI:
  assumes "pl_held p i = Some k" and "\<not> pl_closed p"
  shows "pool_step p (p\<lparr>pl_available := pl_available p @ [k], pl_held := (pl_held p)(i := None), pl_notify := pl_notify p + 1\<rparr>)"
  using pool_return [OF assms(1), of True "p\<lparr>pl_available := pl_available p @ [k]\<rparr>"] assms(2) by (simp add: release_index_def)

lemmas run_eval = pool_init_def leased_def returned_def race_eval

lemma leased_reachable: "pool_step\<^sup>*\<^sup>* (pool_init 1) leased"
proof -
  let ?p = "(pool_init 1)\<lparr>pl_signal := start_op 0 (pl_signal (pool_init 1))\<rparr>"
  have "pool_step (pool_init 1) ?p" by (rule pool_signal [OF step_start]) (simp_all add: run_eval)
  moreover have "pool_step ?p leased"
    using pool_takeI [of ?p 0 0 "[]"] by (simp add: run_eval)
  ultimately show ?thesis by (meson r_into_rtranclp rtranclp.rtrancl_into_rtrancl)
qed

lemma starved_reachable: "pool_step\<^sup>*\<^sup>* leased starved"
proof -
  let ?p1 = "leased\<lparr>pl_signal := start_op 1 (pl_signal leased)\<rparr>"
  let ?p3 = "returned\<lparr>pl_signal := release_op 1 (pl_signal returned), pl_notify := 0\<rparr>"
  let ?p4 = "?p3\<lparr>pl_signal := upd_op 1 (\<lambda>x. x\<lparr>op_stop_requested := True\<rparr>) (pl_signal ?p3), pl_timed_out := {1}\<rparr>"
  have "pool_step leased ?p1" by (rule pool_signal [OF step_start]) (simp_all add: run_eval)
  moreover have "pool_step ?p1 returned" using pool_returnI [of ?p1 0 0] by (simp add: run_eval)
  moreover have "pool_step returned ?p3" using pool_notify [of returned] by (simp add: run_eval)
  ultimately have "pool_step\<^sup>*\<^sup>* leased ?p3" by (rule rtranclp_steps3)
  moreover have "pool_step ?p3 ?p4" using pool_timeout [of ?p3 1] by (simp add: run_eval)
  moreover have "pool_step ?p4 starved"
  proof -
    have "(1, True) \<in> set (sys_pending (pl_signal ?p4))" by (simp add: run_eval)
    then have "pool_step ?p4 (?p4\<lparr>pl_signal := deliver_op (1, True) (pl_signal ?p4)\<rparr>)"
      by (intro pool_signal step_deliver) (simp_all add: deliver_op_def Let_def)
    then show ?thesis by (simp add: starved_def)
  qed
  ultimately show ?thesis by (meson rtranclp.rtrancl_into_rtrancl)
qed

theorem pool_exclusive_witness:
  "pl_held leased 0 = Some 0 \<and> ran (pl_held leased) \<union> set (pl_available leased) = {..<1}"
  using pool_exclusive [OF leased_reachable] by (simp add: leased_def pool_init_def)

theorem pool_idle_permits_witness: "sem_permits (sys_sem (pl_signal leased)) = 0"
proof -
  have "granted_ops (pl_signal leased) = {0}" by (auto simp: granted_ops_def run_eval)
  moreover have "taken_ops leased = {0}" by (auto simp: taken_ops_def leased_def)
  ultimately show ?thesis
    using pool_idle_permits [OF leased_reachable] by (simp add: run_eval)
qed

text \<open>
  An acquire timeout can cost the pool a connection for good. With one connection there is a
  reachable state of an open pool in which nothing is held, nothing is on its way, nobody waits and the
  connection is free, and yet the semaphore has no permit: the permit went to the acquire whose timer
  fired first, and every later acquire queues.\<close>

theorem pool_timeout_starves:
  "\<exists>p. pool_step\<^sup>*\<^sup>* (pool_init 1) p \<and> \<not> pl_closed p \<and> pl_available p = [0] \<and> pl_held p = Map.empty
     \<and> pl_notify p = 0 \<and> sys_pending (pl_signal p) = [] \<and> wl_head (sem_waiters (sys_sem (pl_signal p))) = None
     \<and> (\<forall>i. fst (start_locked i (sys_sem (pl_signal p))) = Queued)"
proof -
  have "sem_permits (sys_sem (pl_signal starved)) = 0 \<and> \<not> sem_closed (sys_sem (pl_signal starved))
     \<and> \<not> pl_closed starved \<and> pl_available starved = [0] \<and> pl_held starved = Map.empty \<and> pl_notify starved = 0
     \<and> sys_pending (pl_signal starved) = [] \<and> wl_head (sem_waiters (sys_sem (pl_signal starved))) = None"
    by (simp add: starved_def run_eval)
  then show ?thesis
    using rtranclp_trans [OF leased_reachable starved_reachable]
    by (intro exI [of _ starved]) (simp add: start_locked_def)
qed

end
