(* ===== verification/Redis.thy ===== *)
theory Redis
  imports Prelude "HOL-Library.Word"
begin

text \<open>
  The Redis client of \<open>layer2/src/redis.cpp\<close>: the command splitter, placeholder parameters, conversion of
  replies, the client with its busy flag, and the health check of a pooled client. Boost.Redis and the
  TLS library are parameters: the record \<open>redis_lib\<close> holds what their calls return on a world \<open>'w\<close>.
  An operation guard is released when its operation completes.
\<close>

section \<open>Errors, parameters and options\<close>

datatype redis_error_kind =
  RK_invalid_argument | RK_runtime_missing | RK_connect_failed | RK_not_connected
  | RK_command_failed | RK_internal_error

datatype redis_error = RedisError (redis_message: string) (redis_kind: redis_error_kind)

type_synonym redis_param = "string option"

definition param_bool :: "bool \<Rightarrow> redis_param" where
  "param_bool b = Some (if b then ''1'' else ''0'')"

definition param_int :: "int \<Rightarrow> redis_param" where
  "param_int i = Some (dec_of_int i)"

definition redis_as_text :: "redis_param \<Rightarrow> string" where
  "redis_as_text p = (case p of None \<Rightarrow> [] | Some s \<Rightarrow> s)"

record redis_options =
  ro_host :: string
  ro_port :: int
  ro_user :: string
  ro_password :: string
  ro_db :: int
  ro_connect_timeout_ms :: int
  ro_command_timeout_ms :: int
  ro_tls_enabled :: bool
  ro_tls_verify_peer :: bool
  ro_tls_ca_cert_file :: string
  ro_tls_ca_cert_dir :: string
  ro_tls_cert_file :: string
  ro_tls_key_file :: string
  ro_tls_server_name :: string

definition default_redis_options :: redis_options where
  "default_redis_options = \<lparr>ro_host = ''127.0.0.1'', ro_port = 6379, ro_user = [], ro_password = [], ro_db = 0,
     ro_connect_timeout_ms = 0, ro_command_timeout_ms = 0, ro_tls_enabled = False, ro_tls_verify_peer = True,
     ro_tls_ca_cert_file = [], ro_tls_ca_cert_dir = [], ro_tls_cert_file = [], ro_tls_key_file = [],
     ro_tls_server_name = []\<rparr>"

text \<open>\<open>CommandOptions\<close> has one field, its timeout.\<close>

definition choose_timeout_ms :: "redis_options \<Rightarrow> int \<Rightarrow> int option" where
  "choose_timeout_ms options command_timeout =
     (if command_timeout > 0 then Some command_timeout
      else if ro_command_timeout_ms options > 0 then Some (ro_command_timeout_ms options)
      else None)"

section \<open>Splitting a command\<close>

record split_state =
  sp_out :: "string list"
  sp_token :: string
  sp_single :: bool
  sp_double :: bool
  sp_escape :: bool

definition split_char :: "split_state \<Rightarrow> char \<Rightarrow> split_state" where
  "split_char st ch =
     (if sp_escape st then st\<lparr>sp_token := sp_token st @ [ch], sp_escape := False\<rparr>
      else if ch = CHR 0x5C then st\<lparr>sp_escape := True\<rparr>
      else if ch = CHR 0x27 \<and> \<not> sp_double st then st\<lparr>sp_single := \<not> sp_single st\<rparr>
      else if ch = CHR 0x22 \<and> \<not> sp_single st then st\<lparr>sp_double := \<not> sp_double st\<rparr>
      else if isspace ch \<and> \<not> sp_single st \<and> \<not> sp_double st then
        (if sp_token st \<noteq> [] then st\<lparr>sp_out := sp_out st @ [sp_token st], sp_token := []\<rparr> else st)
      else st\<lparr>sp_token := sp_token st @ [ch]\<rparr>)"

definition split_start :: split_state where
  "split_start = \<lparr>sp_out = [], sp_token = [], sp_single = False, sp_double = False, sp_escape = False\<rparr>"

definition split_command :: "string \<Rightarrow> redis_error + string list" where
  "split_command input =
     (let st = foldl split_char split_start input in
      if sp_escape st \<or> sp_single st \<or> sp_double st then
        Inl (RedisError ''redis command has invalid quoting'' RK_invalid_argument)
      else
        let out = (if sp_token st \<noteq> [] then sp_out st @ [sp_token st] else sp_out st) in
        if out = [] then Inl (RedisError ''redis command cannot be empty'' RK_invalid_argument)
        else Inr out)"

definition param_mismatch :: redis_error where
  "param_mismatch = RedisError ''redis parameter count does not match placeholders'' RK_invalid_argument"

text \<open>The loop over the tokens, with the parameters that are left.\<close>

fun fill_tokens :: "string list \<Rightarrow> redis_param list \<Rightarrow> redis_error + string list" where
  "fill_tokens [] params = (if params = [] then Inr [] else Inl param_mismatch)"
| "fill_tokens (t # ts) params =
     (if t = ''?'' then
        (case params of
           [] \<Rightarrow> Inl param_mismatch
         | p # ps \<Rightarrow> map_sum id ((#) (redis_as_text p)) (fill_tokens ts ps))
      else map_sum id ((#) t) (fill_tokens ts params))"

definition materialize_args :: "string \<Rightarrow> redis_param list \<Rightarrow> redis_error + string list" where
  "materialize_args command params =
     (case split_command command of Inl e \<Rightarrow> Inl e | Inr tokens \<Rightarrow> fill_tokens tokens params)"

section \<open>Replies\<close>

text \<open>\<open>parse_i64\<close> computes with 64-bit integers; the model wraps where the code would overflow.\<close>

fun parse_i64_digits :: "64 word \<Rightarrow> string \<Rightarrow> 64 word option" where
  "parse_i64_digits value [] = Some value"
| "parse_i64_digits value (c # cs) =
     (if isdigit c then parse_i64_digits (value * 10 + of_nat (of_char c - 48)) cs else None)"

definition parse_i64 :: "string \<Rightarrow> 64 word" where
  "parse_i64 text =
     (if text = [] then 0
      else if hd text = CHR ''-'' then (case parse_i64_digits 0 (tl text) of None \<Rightarrow> 0 | Some v \<Rightarrow> - v)
      else (case parse_i64_digits 0 text of None \<Rightarrow> 0 | Some v \<Rightarrow> v))"

datatype resp_type =
  Resp_array | Resp_push | Resp_set | Resp_map | Resp_attribute | Resp_simple_string | Resp_simple_error
  | Resp_number | Resp_doublean | Resp_boolean | Resp_big_number | Resp_null | Resp_blob_error
  | Resp_verbatim_string | Resp_blob_string | Resp_streamed_string | Resp_streamed_string_part | Resp_invalid

record resp_node =
  rn_type :: resp_type
  rn_size :: nat
  rn_value :: string

datatype reply_type = Reply_null | Reply_string | Reply_integer | Reply_array | Reply_status | Reply_error

datatype reply = Reply (reply_type: reply_type) (reply_string: "string option") (reply_integer: "64 word")
  (reply_elements: "reply list")

definition null_reply :: reply where
  "null_reply = Reply Reply_null None 0 []"

text \<open>The cases of the switch without children.\<close>

definition leaf_reply :: "resp_type \<Rightarrow> string \<Rightarrow> reply option" where
  "leaf_reply ty v =
     (case ty of
        Resp_null \<Rightarrow> Some null_reply
      | Resp_simple_string \<Rightarrow> Some (Reply Reply_status (Some v) 0 [])
      | Resp_blob_string \<Rightarrow> Some (Reply Reply_string (Some v) 0 [])
      | Resp_verbatim_string \<Rightarrow> Some (Reply Reply_string (Some v) 0 [])
      | Resp_big_number \<Rightarrow> Some (Reply Reply_string (Some v) 0 [])
      | Resp_streamed_string \<Rightarrow> Some (Reply Reply_string (Some v) 0 [])
      | Resp_streamed_string_part \<Rightarrow> Some (Reply Reply_string (Some v) 0 [])
      | Resp_simple_error \<Rightarrow> Some (Reply Reply_error (Some v) 0 [])
      | Resp_blob_error \<Rightarrow> Some (Reply Reply_error (Some v) 0 [])
      | Resp_number \<Rightarrow> Some (Reply Reply_integer None (parse_i64 v) [])
      | Resp_boolean \<Rightarrow> Some (Reply Reply_integer None (if v = ''t'' \<or> v = ''true'' \<or> v = ''1'' then 1 else 0) [])
      | Resp_doublean \<Rightarrow> Some (Reply Reply_string (Some v) 0 [])
      | Resp_invalid \<Rightarrow> Some null_reply
      | _ \<Rightarrow> None)"

text \<open>The recursive reader; \<open>nodes\<close> are the nodes from \<open>index\<close> on, \<open>mult\<close> is Boost's
  \<open>element_multiplicity\<close>.\<close>

function parse_resp_node :: "(resp_type \<Rightarrow> nat) \<Rightarrow> resp_node list \<Rightarrow> reply \<times> resp_node list"
  and parse_resp_children :: "(resp_type \<Rightarrow> nat) \<Rightarrow> nat \<Rightarrow> resp_node list \<Rightarrow> reply list \<times> resp_node list" where
  "parse_resp_node mult [] = (null_reply, [])"
| "parse_resp_node mult (n # ns) =
     (case leaf_reply (rn_type n) (rn_value n) of
        Some r \<Rightarrow> (r, ns)
      | None \<Rightarrow>
          let (es, rest) = parse_resp_children mult (rn_size n * mult (rn_type n)) ns
          in (Reply Reply_array None 0 es, rest))"
| "parse_resp_children mult 0 ns = ([], ns)"
| "parse_resp_children mult (Suc k) ns =
     (let (r, ns') = parse_resp_node mult ns; (rs, ns'') = parse_resp_children mult k ns' in (r # rs, ns''))"
  by pat_completeness auto

termination
proof -
  let ?D = parse_resp_node_parse_resp_children_dom
  have shrinks: "?D (Inl (m, ns)) \<Longrightarrow> length (snd (parse_resp_node m ns)) \<le> length ns"
    "?D (Inr (m, k, ns)) \<Longrightarrow> length (snd (parse_resp_children m k ns)) \<le> length ns" for m k ns
  proof (induction m ns and m k ns rule: parse_resp_node_parse_resp_children.pinduct)
    case (4 m k ns)
    obtain r ns' where r: "parse_resp_node m ns = (r, ns')" by fastforce
    have "length (snd (parse_resp_children m k ns')) \<le> length ns'" using 4 r by simp
    also have "\<dots> \<le> length ns" using "4.IH"(1) r by simp
    finally show ?case using "4.hyps" r by (auto simp: parse_resp_children.psimps split: prod.splits)
  qed (auto simp: parse_resp_node.psimps parse_resp_children.psimps Let_def split: option.splits prod.splits)
  show ?thesis
  proof (relation "measures [case_sum (\<lambda>(m, ns). length ns) (\<lambda>(m, k, ns). length ns),
      case_sum (\<lambda>_. 0) (\<lambda>(m, k, ns). Suc k)]", goal_cases)
    case (4 m k ns x r ns')
    moreover from 4 have "ns' = snd (parse_resp_node m ns)" by (metis snd_conv)
    ultimately show ?case using shrinks(1) [of m ns] by (simp add: order.order_iff_strict)
  qed auto
qed

declare parse_resp_node.simps(2) [simp del]

datatype generic_response = Response_error string | Response_nodes "resp_node list"

definition convert_response :: "(resp_type \<Rightarrow> nat) \<Rightarrow> generic_response \<Rightarrow> redis_error + reply" where
  "convert_response mult response =
     (case response of
        Response_error diagnostic \<Rightarrow>
          Inl (RedisError (if diagnostic = [] then ''redis command failed'' else diagnostic) RK_command_failed)
      | Response_nodes [] \<Rightarrow> Inr null_reply
      | Response_nodes nodes \<Rightarrow> Inr (fst (parse_resp_node mult nodes)))"

section \<open>The client\<close>

record redis_config =
  cfg_use_ssl :: bool
  cfg_host :: string
  cfg_port :: string
  cfg_username :: string
  cfg_password :: string
  cfg_database_index :: int
  cfg_timeout :: "int option"

definition make_redis_config :: "redis_options \<Rightarrow> redis_config" where
  "make_redis_config o' =
     \<lparr>cfg_use_ssl = ro_tls_enabled o', cfg_host = (if ro_host o' = [] then ''127.0.0.1'' else ro_host o'),
      cfg_port = dec_of_int (if ro_port o' > 0 then ro_port o' else 6379),
      cfg_username = (if ro_user o' = [] then ''default'' else ro_user o'), cfg_password = ro_password o',
      cfg_database_index = ro_db o',
      cfg_timeout = (if ro_connect_timeout_ms o' > 0 then Some (ro_connect_timeout_ms o') else None)\<rparr>"

text \<open>How an \<open>async_exec\<close> raced against its timer ends: an error code, the timer, or a response.\<close>

datatype exec_result = Exec_error string | Exec_timeout | Exec_response generic_response

text \<open>The libraries. A TLS call returns the message of its error code, if any.\<close>

record 'w redis_lib =
  lib_mult :: "resp_type \<Rightarrow> nat"
  lib_exec :: "redis_config \<Rightarrow> string list \<Rightarrow> int option \<Rightarrow> 'w \<Rightarrow> exec_result \<times> 'w"
  lib_now :: "'w \<Rightarrow> int"
  lib_verify_peer :: "bool \<Rightarrow> string option"
  lib_verify_file :: "string \<Rightarrow> string option"
  lib_verify_paths :: "string option"
  lib_cert_file :: "string \<Rightarrow> string option"
  lib_key_file :: "string \<Rightarrow> string option"

definition tls_check :: "string \<Rightarrow> string option \<Rightarrow> redis_error option \<Rightarrow> redis_error option" where
  "tls_check what ec k = (case ec of Some m \<Rightarrow> Some (RedisError (what @ m) RK_connect_failed) | None \<Rightarrow> k)"

text \<open>\<open>make_tls_context\<close>: \<open>None\<close> is a context, \<open>Some\<close> what it throws.\<close>

definition make_tls_context :: "('w, 'm) redis_lib_scheme \<Rightarrow> redis_options \<Rightarrow> redis_error option" where
  "make_tls_context lib o' =
     (let certs =
        (if ro_tls_cert_file o' \<noteq> [] \<and> ro_tls_key_file o' \<noteq> [] then
           tls_check ''redis tls load cert file failed: '' (lib_cert_file lib (ro_tls_cert_file o'))
             (tls_check ''redis tls load key file failed: '' (lib_key_file lib (ro_tls_key_file o')) None)
         else None)
      in if ro_tls_verify_peer o' then
           tls_check ''redis tls verify mode failed: '' (lib_verify_peer lib True)
             (if ro_tls_ca_cert_file o' \<noteq> [] then
                tls_check ''redis tls load ca file failed: '' (lib_verify_file lib (ro_tls_ca_cert_file o')) certs
              else tls_check ''redis tls default verify paths failed: '' (lib_verify_paths lib) certs)
         else tls_check ''redis tls disable verify failed: '' (lib_verify_peer lib False) certs)"

record redis_client =
  rc_options :: redis_options
  rc_busy :: bool
  rc_open :: bool
  rc_runtime :: bool
  rc_conn :: "redis_config option"

definition new_client :: redis_client where
  "new_client = \<lparr>rc_options = default_redis_options, rc_busy = False, rc_open = False, rc_runtime = False,
     rc_conn = None\<rparr>"

definition close_async_state :: "redis_client \<Rightarrow> redis_client" where
  "close_async_state c = c\<lparr>rc_open := False, rc_conn := None, rc_runtime := False\<rparr>"

definition execute ::
  "('w, 'm) redis_lib_scheme \<Rightarrow> string list \<Rightarrow> int option \<Rightarrow> bool \<Rightarrow> redis_client \<Rightarrow> 'w \<Rightarrow> (redis_error + reply) \<times> 'w" where
  "execute lib args timeout_ms runtime c w =
     (case rc_conn c of
        None \<Rightarrow> (Inl (RedisError ''redis connection is not open'' RK_not_connected), w)
      | Some cfg \<Rightarrow>
          if \<not> rc_open c then (Inl (RedisError ''redis connection is not open'' RK_not_connected), w)
          else if args = [] then (Inl (RedisError ''redis command cannot be empty'' RK_invalid_argument), w)
          else if timeout_ms \<noteq> None \<and> \<not> runtime then
            (Inl (RedisError ''redis::Client::command requires current runtime'' RK_runtime_missing), w)
          else case lib_exec lib cfg args timeout_ms w of
                 (Exec_error m, w') \<Rightarrow> (Inl (RedisError (''redis command failed: '' @ m) RK_command_failed), w')
               | (Exec_timeout, w') \<Rightarrow> (Inl (RedisError ''redis command timeout'' RK_command_failed), w')
               | (Exec_response response, w') \<Rightarrow>
                   (case convert_response (lib_mult lib) response of
                      Inl e \<Rightarrow> (Inl e, w')
                    | Inr out \<Rightarrow>
                        if reply_type out = Reply_error then
                          (Inl (RedisError (case reply_string out of None \<Rightarrow> ''redis command failed'' | Some m \<Rightarrow> m)
                             RK_command_failed), w')
                        else (Inr out, w')))"

text \<open>\<open>OperationGuard\<close>: the busy flag around an operation.\<close>

definition guarded ::
  "(redis_client \<Rightarrow> 'w \<Rightarrow> (redis_error + 'a) \<times> redis_client \<times> 'w) \<Rightarrow> redis_client \<Rightarrow> 'w
     \<Rightarrow> (redis_error + 'a) \<times> redis_client \<times> 'w" where
  "guarded f c w =
     (if rc_busy c then (Inl (RedisError ''redis client is busy with another operation'' RK_internal_error), c, w)
      else case f (c\<lparr>rc_busy := True\<rparr>) w of (r, c', w') \<Rightarrow> (r, c'\<lparr>rc_busy := False\<rparr>, w'))"

definition client_open ::
  "('w, 'm) redis_lib_scheme \<Rightarrow> bool \<Rightarrow> redis_options \<Rightarrow> redis_client \<Rightarrow> 'w
     \<Rightarrow> (redis_error + unit) \<times> redis_client \<times> 'w" where
  "client_open lib runtime o' = guarded (\<lambda>c w.
     if \<not> runtime then (Inl (RedisError ''redis::Client::open requires current runtime'' RK_runtime_missing), c, w)
     else
       let c1 = (close_async_state c)\<lparr>rc_runtime := True\<rparr> in
       case (if ro_tls_enabled o' then make_tls_context lib o' else None) of
         Some e \<Rightarrow> (Inl e, close_async_state c1, w)
       | None \<Rightarrow>
           let c2 = c1\<lparr>rc_conn := Some (make_redis_config o'), rc_options := o', rc_open := True\<rparr>;
               timeout_ms = (if ro_connect_timeout_ms o' > 0 then Some (ro_connect_timeout_ms o') else None)
           in case execute lib [''PING''] timeout_ms runtime c2 w of
                (Inl e, w') \<Rightarrow> (Inl e, close_async_state c2, w')
              | (Inr _, w') \<Rightarrow> (Inr (), c2, w'))"

definition client_close :: "redis_client \<Rightarrow> 'w \<Rightarrow> (redis_error + unit) \<times> redis_client \<times> 'w" where
  "client_close = guarded (\<lambda>c w. (Inr (), close_async_state c, w))"

definition client_command ::
  "('w, 'm) redis_lib_scheme \<Rightarrow> bool \<Rightarrow> string \<Rightarrow> redis_param list \<Rightarrow> int \<Rightarrow> redis_client \<Rightarrow> 'w
     \<Rightarrow> (redis_error + reply) \<times> redis_client \<times> 'w" where
  "client_command lib runtime command_text params timeout = guarded (\<lambda>c w.
     if \<not> runtime then (Inl (RedisError ''redis::Client::command requires current runtime'' RK_runtime_missing), c, w)
     else case materialize_args command_text params of
            Inl e \<Rightarrow> (Inl e, c, w)
          | Inr args \<Rightarrow>
              (case execute lib args (choose_timeout_ms (rc_options c) timeout) runtime c w of (r, w') \<Rightarrow> (r, c, w')))"

text \<open>\<open>detail::command_task\<close>: a client of its own for one command; errors of \<open>close\<close> are dropped.\<close>

definition one_shot_command ::
  "('w, 'm) redis_lib_scheme \<Rightarrow> bool \<Rightarrow> redis_options \<Rightarrow> string \<Rightarrow> redis_param list \<Rightarrow> int \<Rightarrow> 'w
     \<Rightarrow> (redis_error + reply) \<times> redis_client \<times> 'w" where
  "one_shot_command lib runtime o' command_text params timeout w =
     (case client_open lib runtime o' new_client w of
        (Inl e, c1, w1) \<Rightarrow> (Inl e, c1, w1)
      | (Inr _, c1, w1) \<Rightarrow>
          (case client_command lib runtime command_text params timeout c1 w1 of
             (r, c2, w2) \<Rightarrow> (case client_close c2 w2 of (_, c3, w3) \<Rightarrow> (r, c3, w3))))"

section \<open>Pooled clients\<close>

record redis_pool_options =
  rpo_connection :: redis_options
  rpo_max_connections :: nat
  rpo_preconnect :: bool
  rpo_acquire_timeout_ms :: int
  rpo_max_lifetime_ms :: int
  rpo_health_check_command :: string

text \<open>\<open>clients_\<close> and \<open>born_at_\<close>.\<close>

record redis_slots =
  sl_clients :: "redis_client list"
  sl_born :: "int list"

definition set_client :: "nat \<Rightarrow> redis_client \<Rightarrow> redis_slots \<Rightarrow> redis_slots" where
  "set_client i c s = s\<lparr>sl_clients := (sl_clients s)[i := c]\<rparr>"

definition open_slot ::
  "('w, 'm) redis_lib_scheme \<Rightarrow> bool \<Rightarrow> redis_pool_options \<Rightarrow> nat \<Rightarrow> redis_slots \<Rightarrow> 'w
     \<Rightarrow> (redis_error + unit) \<times> redis_slots \<times> 'w" where
  "open_slot lib runtime po i s w =
     (case client_open lib runtime (rpo_connection po) (sl_clients s ! i) w of
        (Inl e, c, w') \<Rightarrow> (Inl e, set_client i c s, w')
      | (Inr _, c, w') \<Rightarrow> (Inr (), (set_client i c s)\<lparr>sl_born := (sl_born s)[i := lib_now lib w']\<rparr>, w'))"

definition reopen_slot ::
  "('w, 'm) redis_lib_scheme \<Rightarrow> bool \<Rightarrow> redis_pool_options \<Rightarrow> nat \<Rightarrow> redis_slots \<Rightarrow> 'w
     \<Rightarrow> (redis_error + unit) \<times> redis_slots \<times> 'w" where
  "reopen_slot lib runtime po i s w =
     (case client_close (sl_clients s ! i) w of (_, c, w') \<Rightarrow> open_slot lib runtime po i (set_client i c s) w')"

definition ensure_healthy ::
  "('w, 'm) redis_lib_scheme \<Rightarrow> bool \<Rightarrow> redis_pool_options \<Rightarrow> nat \<Rightarrow> redis_slots \<Rightarrow> 'w
     \<Rightarrow> (redis_error + unit) \<times> redis_slots \<times> 'w" where
  "ensure_healthy lib runtime po i s w =
     (if \<not> rc_open (sl_clients s ! i)
         \<or> (rpo_max_lifetime_ms po > 0 \<and> lib_now lib w - sl_born s ! i \<ge> rpo_max_lifetime_ms po)
      then reopen_slot lib runtime po i s w
      else if rpo_health_check_command po = [] then (Inr (), s, w)
      else case client_command lib runtime (rpo_health_check_command po) [] 0 (sl_clients s ! i) w of
             (Inr _, c, w') \<Rightarrow> (Inr (), set_client i c s, w')
           | (Inl _, c, w') \<Rightarrow> reopen_slot lib runtime po i (set_client i c s) w')"

text \<open>\<open>ConnectionPool::command\<close> once it holds an index.\<close>

definition slot_command ::
  "('w, 'm) redis_lib_scheme \<Rightarrow> bool \<Rightarrow> redis_pool_options \<Rightarrow> string \<Rightarrow> redis_param list \<Rightarrow> int \<Rightarrow> nat
     \<Rightarrow> redis_slots \<Rightarrow> 'w \<Rightarrow> (redis_error + reply) \<times> redis_slots \<times> 'w" where
  "slot_command lib runtime po command_text params timeout i s w =
     (case ensure_healthy lib runtime po i s w of
        (Inl e, s1, w1) \<Rightarrow> (Inl e, s1, w1)
      | (Inr _, s1, w1) \<Rightarrow>
          (case client_command lib runtime command_text params timeout (sl_clients s1 ! i) w1 of
             (r, c, w2) \<Rightarrow> (r, set_client i c s1, w2)))"

text \<open>\<open>init()\<close>: the loop that opens every client, and the whole of it; the result lists the available indices.\<close>

fun preconnect_loop ::
  "('w, 'm) redis_lib_scheme \<Rightarrow> bool \<Rightarrow> redis_pool_options \<Rightarrow> nat list \<Rightarrow> nat list \<Rightarrow> redis_slots \<Rightarrow> 'w
     \<Rightarrow> (redis_error + nat list) \<times> redis_slots \<times> 'w" where
  "preconnect_loop lib runtime po [] available s w = (Inr available, s, w)"
| "preconnect_loop lib runtime po (i # is) available s w =
     (case open_slot lib runtime po i s w of
        (Inl e, s', w') \<Rightarrow> (Inl e, s', w')
      | (Inr _, s', w') \<Rightarrow> preconnect_loop lib runtime po is (available @ [i]) s' w')"

definition redis_pool_init ::
  "('w, 'm) redis_lib_scheme \<Rightarrow> bool \<Rightarrow> redis_pool_options \<Rightarrow> 'w \<Rightarrow> (redis_error + nat list) \<times> redis_slots \<times> 'w" where
  "redis_pool_init lib runtime po w =
     (let n = rpo_max_connections po;
          s = \<lparr>sl_clients = replicate n new_client, sl_born = replicate n (lib_now lib w)\<rparr> in
      if n = 0 then
        (Inl (RedisError ''redis pool max_connections must be > 0'' RK_invalid_argument), \<lparr>sl_clients = [], sl_born = []\<rparr>, w)
      else if \<not> rpo_preconnect po then (Inr [0..<n], s, w)
      else preconnect_loop lib runtime po [0..<n] [] s w)"

definition redis_pool_close :: "redis_slots \<Rightarrow> redis_slots" where
  "redis_pool_close s = s\<lparr>sl_clients := map (\<lambda>c. fst (snd (client_close c ()))) (sl_clients s)\<rparr>"

section \<open>Commands\<close>

text \<open>A token with every character escaped, and a command of such tokens.\<close>

definition quote_token :: "string \<Rightarrow> string" where
  "quote_token s = concat (map (\<lambda>c. [CHR 0x5C, c]) s)"

fun join_tokens :: "string list \<Rightarrow> string" where
  "join_tokens [] = []"
| "join_tokens (t # ts) = quote_token t @ CHR '' '' # join_tokens ts"

lemma split_quoted:
  "\<not> sp_escape st \<Longrightarrow> foldl split_char st (quote_token s) = st\<lparr>sp_token := sp_token st @ s\<rparr>"
  by (induction s arbitrary: st) (auto simp: quote_token_def split_char_def)

lemma split_joined:
  "[] \<notin> set args \<Longrightarrow> \<not> sp_escape st \<Longrightarrow> \<not> sp_single st \<Longrightarrow> \<not> sp_double st \<Longrightarrow> sp_token st = [] \<Longrightarrow>
     foldl split_char st (join_tokens args) = st\<lparr>sp_out := sp_out st @ args\<rparr>"
proof (induction args arbitrary: st)
  case Nil
  then show ?case by simp
next
  case (Cons a args)
  have "split_char (st\<lparr>sp_token := a\<rparr>) CHR '' '' = st\<lparr>sp_out := sp_out st @ [a]\<rparr>"
    using Cons.prems by (auto simp: split_char_def isspace_def)
  then show ?case using Cons by (simp add: split_quoted)
qed

lemma split_char_tokens:
  "[] \<notin> set (sp_out st) \<Longrightarrow> [] \<notin> set (sp_out (split_char st ch))"
  by (simp add: split_char_def)

lemma split_tokens: "[] \<notin> set (sp_out st) \<Longrightarrow> [] \<notin> set (sp_out (foldl split_char st s))"
  by (induction s arbitrary: st) (simp_all add: split_char_tokens)

text \<open>
  The command splitter can express exactly the non-empty lists of non-empty arguments: a list of
  arguments is the result of some command line if and only if it is one, and escaping every
  character is such a command line, whatever the arguments contain.\<close>

theorem split_command_range:
  "(args \<noteq> [] \<and> [] \<notin> set args \<longleftrightarrow> split_command (join_tokens args) = Inr args)
   \<and> (args \<noteq> [] \<and> [] \<notin> set args \<longleftrightarrow> (\<exists>command. split_command command = Inr args))"
proof -
  have "split_command (join_tokens args) = Inr args" if "args \<noteq> []" "[] \<notin> set args"
    using that split_joined [of args split_start] by (simp add: split_command_def split_start_def)
  moreover have "args \<noteq> [] \<and> [] \<notin> set args" if "split_command command = Inr args" for command
    using that split_tokens [of split_start command]
    by (auto simp: split_command_def split_start_def Let_def split: if_splits)
  ultimately show ?thesis by blast
qed

text \<open>The arguments at the placeholders.\<close>

definition placeholder_args :: "string list \<Rightarrow> string list \<Rightarrow> string list" where
  "placeholder_args tokens args = map snd (filter (\<lambda>(t, a). t = ''?'') (zip tokens args))"

lemma fill_tokens_mismatch:
  "length (filter (\<lambda>t. t = ''?'') ts) \<noteq> length ps \<Longrightarrow> fill_tokens ts ps = Inl param_mismatch"
  by (induction ts ps rule: fill_tokens.induct) (auto split: list.splits)

lemma fill_tokens_ok:
  "length (filter (\<lambda>t. t = ''?'') ts) = length ps \<Longrightarrow>
     \<exists>args. fill_tokens ts ps = Inr args \<and> length args = length ts
       \<and> placeholder_args ts args = map redis_as_text ps \<and> (\<forall>i < length ts. ts ! i \<noteq> ''?'' \<longrightarrow> args ! i = ts ! i)"
proof (induction ts ps rule: fill_tokens.induct)
  case (1 ps)
  then show ?case by (simp add: placeholder_args_def)
next
  case (2 t ts ps)
  show ?case
  proof (cases "t = ''?''")
    case True
    with "2.prems" obtain p ps' where ps: "ps = p # ps'" by (cases ps) auto
    with True 2 obtain args where "fill_tokens ts ps' = Inr args" "length args = length ts"
      "placeholder_args ts args = map redis_as_text ps'" "\<forall>i < length ts. ts ! i \<noteq> ''?'' \<longrightarrow> args ! i = ts ! i" by auto
    then show ?thesis using True ps by (auto simp: placeholder_args_def nth_Cons split: nat.splits)
  next
    case False
    with 2 obtain args where "fill_tokens ts ps = Inr args" "length args = length ts"
      "placeholder_args ts args = map redis_as_text ps" "\<forall>i < length ts. ts ! i \<noteq> ''?'' \<longrightarrow> args ! i = ts ! i" by auto
    then show ?thesis using False by (auto simp: placeholder_args_def nth_Cons split: nat.splits)
  qed
qed

text \<open>
  Parameters cannot break out of their place. When the command splits and the number of \<open>?\<close> tokens is
  the number of parameters, every token gives exactly one argument, the parameters stand, whatever
  their text, in order at the placeholders, and all other tokens are unchanged; when the numbers differ
  the command is refused.\<close>

theorem materialize_args_exact:
  assumes "split_command command = Inr tokens"
  shows "if length (filter (\<lambda>t. t = ''?'') tokens) = length params
    then \<exists>args. materialize_args command params = Inr args \<and> length args = length tokens
       \<and> placeholder_args tokens args = map redis_as_text params
       \<and> (\<forall>i < length tokens. tokens ! i \<noteq> ''?'' \<longrightarrow> args ! i = tokens ! i)
    else materialize_args command params = Inl param_mismatch"
  using assms fill_tokens_ok [of tokens params] fill_tokens_mismatch [of tokens params]
  by (simp add: materialize_args_def)

theorem materialize_args_exact_witness:
  "\<exists>args. materialize_args ''SET k ?'' [Some ''a b''] = Inr args \<and> length args = 3"
  using materialize_args_exact [of "''SET k ?''" "[''SET'', ''k'', ''?'']" "[Some ''a b'']"]
  by (auto simp: split_command_def split_start_def split_char_def isspace_def Let_def numeral_3_eq_3)

section \<open>Reading replies\<close>

lemma parse_i64_render: "parse_i64_digits v (xs @ [c]) =
  (case parse_i64_digits v xs of None \<Rightarrow> None
   | Some u \<Rightarrow> if isdigit c then Some (u * 10 + of_nat (of_char c - 48)) else None)"
  by (induction xs arbitrary: v) auto

lemma parse_i64_dec: "parse_i64_digits 0 (dec_of_nat n) = Some (of_nat n)"
proof (induction "10 :: nat" n rule: render_base.induct)
  case (1 n)
  show ?case
  proof (cases "n < 10")
    case True
    with digit_char_class [of n] show ?thesis by (subst render_base.simps) simp
  next
    case False
    have "of_nat n = (of_nat (n div 10) * 10 + of_nat (n mod 10) :: 64 word)"
      by (metis (no_types) div_mult_mod_eq of_nat_add of_nat_mult of_nat_numeral)
    with False 1 digit_char_class [of "n mod 10"] show ?thesis
      by (subst render_base.simps) (simp add: parse_i64_render)
  qed
qed

lemma dec_of_nat_hd: "hd (dec_of_nat n) \<noteq> CHR ''-''"
proof -
  have "hd (dec_of_nat n) \<in> set (dec_of_nat n)" by simp
  then obtain d where "d < 10" "hd (dec_of_nat n) = digit_char d"
    using render_base_digits [of 10 "hd (dec_of_nat n)" n] by auto
  then show ?thesis using digit_char_class [of d] by (auto simp: isdigit_def)
qed

text \<open>
  Integers of a reply are read exactly: the decimal text of every 64-bit signed integer, the smallest
  one included, is read back as that integer.\<close>

theorem parse_i64_exact: "parse_i64 (dec_of_int (sint n)) = (n :: 64 word)"
proof (cases "sint n < 0")
  case True
  have "- of_nat (nat (- sint n)) = n" using True by (simp add: of_nat_nat)
  with True show ?thesis by (simp add: parse_i64_def dec_of_int_def parse_i64_dec)
next
  case False
  then have "of_nat (nat (sint n)) = n" by (simp add: of_nat_nat)
  with False show ?thesis by (simp add: parse_i64_def dec_of_int_def parse_i64_dec dec_of_nat_hd)
qed

text \<open>A reply as a tree, the nodes that Boost lists for it in order, and what the reader should make of it.\<close>

datatype resp = Resp_leaf resp_type string | Resp_aggregate resp_type nat "resp list"

fun resp_nodes :: "resp \<Rightarrow> resp_node list" where
  "resp_nodes (Resp_leaf ty v) = [\<lparr>rn_type = ty, rn_size = 1, rn_value = v\<rparr>]"
| "resp_nodes (Resp_aggregate ty k rs) = \<lparr>rn_type = ty, rn_size = k, rn_value = []\<rparr> # concat (map resp_nodes rs)"

fun reply_of :: "resp \<Rightarrow> reply" where
  "reply_of (Resp_leaf ty v) = (case leaf_reply ty v of Some r \<Rightarrow> r | None \<Rightarrow> null_reply)"
| "reply_of (Resp_aggregate ty k rs) = Reply Reply_array None 0 (map reply_of rs)"

fun resp_wf :: "(resp_type \<Rightarrow> nat) \<Rightarrow> resp \<Rightarrow> bool" where
  "resp_wf mult (Resp_leaf ty v) \<longleftrightarrow> leaf_reply ty v \<noteq> None"
| "resp_wf mult (Resp_aggregate ty k rs) \<longleftrightarrow>
     leaf_reply ty [] = None \<and> length rs = k * mult ty \<and> list_all (resp_wf mult) rs"

lemma parse_resp_list:
  "(\<And>r rest. r \<in> set rs \<Longrightarrow> parse_resp_node mult (resp_nodes r @ rest) = (reply_of r, rest)) \<Longrightarrow>
     parse_resp_children mult (length rs) (concat (map resp_nodes rs) @ rest) = (map reply_of rs, rest)"
  by (induction rs arbitrary: rest) simp_all

lemma parse_resp_tree: "resp_wf mult r \<Longrightarrow> parse_resp_node mult (resp_nodes r @ rest) = (reply_of r, rest)"
proof (induction r arbitrary: rest)
  case (Resp_leaf ty v)
  then show ?case by (auto simp: parse_resp_node.simps(2))
next
  case (Resp_aggregate ty k rs)
  then have "parse_resp_children mult (length rs) (concat (map resp_nodes rs) @ rest) = (map reply_of rs, rest)"
    by (intro parse_resp_list) (auto simp: list_all_iff)
  with Resp_aggregate.prems show ?case by (simp add: parse_resp_node.simps(2))
qed

text \<open>
  Replies of any nesting are read back: for every well-formed reply tree, whose aggregates have as
  many children as their size and the multiplicity of their type say, the conversion of the nodes listed for it
  rebuilds the tree and leaves the nodes behind it alone.\<close>

theorem resp_roundtrip:
  assumes "resp_wf mult r"
  shows "parse_resp_node mult (resp_nodes r @ rest) = (reply_of r, rest)
    \<and> convert_response mult (Response_nodes (resp_nodes r)) = Inr (reply_of r)"
  using parse_resp_tree [OF assms] parse_resp_tree [OF assms, of "[]"]
  by (cases r) (auto simp: convert_response_def)

theorem resp_roundtrip_witness:
  "convert_response (\<lambda>ty. if ty = Resp_map then 2 else 1)
     (Response_nodes (resp_nodes (Resp_aggregate Resp_map 1 [Resp_leaf Resp_blob_string ''a'', Resp_leaf Resp_null []])))
   = Inr (Reply Reply_array None 0 [Reply Reply_string (Some ''a'') 0 [], null_reply])"
  using resp_roundtrip [of "\<lambda>ty. if ty = Resp_map then 2 else 1"
      "Resp_aggregate Resp_map 1 [Resp_leaf Resp_blob_string ''a'', Resp_leaf Resp_null []]" "[]"]
  by (simp add: leaf_reply_def)

section \<open>Client and slots\<close>

text \<open>A client between two operations: idle, and connected exactly when it is open.\<close>

definition client_ok :: "redis_client \<Rightarrow> bool" where
  "client_ok c \<longleftrightarrow> \<not> rc_busy c \<and> (rc_open c \<longleftrightarrow> rc_conn c \<noteq> None) \<and> (rc_open c \<longleftrightarrow> rc_runtime c)
     \<and> (rc_open c \<longrightarrow> rc_conn c = Some (make_redis_config (rc_options c)))"

lemmas client_defs = client_open_def client_close_def client_command_def guarded_def close_async_state_def
  client_ok_def Let_def

lemma client_open_cases:
  assumes "client_ok c" and "client_open lib True o' c w = (r, c', w')"
  shows "client_ok c' \<and> (case r of Inl _ \<Rightarrow> \<not> rc_open c' | Inr _ \<Rightarrow> rc_open c' \<and> rc_options c' = o')"
  using assms by (auto simp: client_defs split: option.splits sum.splits prod.splits if_splits)

lemma client_command_same:
  "client_ok c \<Longrightarrow> fst (snd (client_command lib runtime t ps k c w)) = c"
  by (auto simp: client_defs split: option.splits sum.splits prod.splits if_splits)

lemma client_close_ok: "client_ok c \<Longrightarrow> client_close c w = (Inr (), close_async_state c, w) \<and> client_ok (close_async_state c)"
  by (simp add: client_defs)

datatype client_call = Call_open bool redis_options | Call_close | Call_command bool string "redis_param list" int

definition client_event ::
  "('w, 'm) redis_lib_scheme \<Rightarrow> redis_client \<times> 'w \<Rightarrow> client_call \<Rightarrow> redis_client \<times> 'w" where
  "client_event lib s call =
     (case call of
        Call_open runtime o' \<Rightarrow> snd (client_open lib runtime o' (fst s) (snd s))
      | Call_close \<Rightarrow> snd (client_close (fst s) (snd s))
      | Call_command runtime t ps k \<Rightarrow> snd (client_command lib runtime t ps k (fst s) (snd s)))"

lemma client_open_no_runtime: "client_ok c \<Longrightarrow> fst (snd (client_open lib False o' c w)) = c"
  by (simp add: client_defs)

lemma client_event_ok:
  assumes "client_ok (fst s)"
  shows "client_ok (fst (client_event lib s call))"
proof (cases call)
  case (Call_open runtime o')
  obtain r c' w' where r: "client_open lib runtime o' (fst s) (snd s) = (r, c', w')" by (metis prod_cases3)
  then show ?thesis
    using Call_open assms client_open_cases [OF assms, of lib o'] client_open_no_runtime [OF assms, of lib o' "snd s"]
    by (cases runtime) (auto simp: client_event_def)
qed (use assms in \<open>auto simp: client_event_def client_command_same client_close_ok\<close>)

interpretation client: invariant_machine "client_event lib" "\<lambda>s. client_ok (fst s)"
  by unfold_locales (rule client_event_ok)

lemma new_client_ok: "client_ok new_client"
  by (simp add: client_ok_def new_client_def)

text \<open>
  C37: A client cannot get stuck. After any sequence of opens, closes and commands, whatever the server
  answers, it is idle and connected exactly when it is open; an \<open>open\<close> that fails leaves it closed and one
  that succeeds leaves it open with the new options; and a well-formed command on a closed client is
  refused as not connected without touching the server. A one-shot command leaves its client closed.\<close>

theorem client_lifecycle:
  assumes "c = fst (foldl (client_event lib) (new_client, w0) calls)"
  shows "client_ok c
    \<and> (\<forall>o' w r c' w'. client_open lib True o' c w = (r, c', w') \<longrightarrow>
         (case r of Inl _ \<Rightarrow> \<not> rc_open c' | Inr _ \<Rightarrow> rc_open c' \<and> rc_options c' = o'))
    \<and> (\<not> rc_open c \<longrightarrow> (\<forall>t ps args k w. materialize_args t ps = Inr args \<longrightarrow>
         client_command lib True t ps k c w =
           (Inl (RedisError ''redis connection is not open'' RK_not_connected), c, w)))
    \<and> (\<forall>o' t ps k w. \<not> rc_open (fst (snd (one_shot_command lib True o' t ps k w))))"
proof -
  have ok: "client_ok c" using client.inv_run [of "(new_client, w0)" lib calls] new_client_ok assms by simp
  have one: "\<not> rc_open (fst (snd (one_shot_command lib True o' t ps k w)))" for o' t ps k w
  proof (cases "client_open lib True o' new_client w")
    case (fields r c1 w1)
    note o = client_open_cases [OF new_client_ok fields]
    obtain x a b where x: "client_command lib True t ps k c1 w1 = (x, a, b)" by (metis prod_cases3)
    then have "a = c1" using client_command_same [of c1 lib True t ps k w1] o by simp
    with x show ?thesis using fields o client_close_ok [of c1 b]
      by (auto simp: one_shot_command_def close_async_state_def split: sum.splits)
  qed
  have "client_command lib True t ps k c w =
      (Inl (RedisError ''redis connection is not open'' RK_not_connected), c, w)"
    if "\<not> rc_open c" "materialize_args t ps = Inr args" for t ps args k w
    using ok that by (simp add: client_defs execute_def)
  then show ?thesis using ok one by (intro conjI allI impI) (auto dest: client_open_cases [OF ok])
qed

text \<open>A server that answers every command with \<open>+PONG\<close>, one millisecond later.\<close>

definition pong_lib :: "int redis_lib" where
  "pong_lib = \<lparr>lib_mult = (\<lambda>_. 1),
     lib_exec = (\<lambda>cfg args t w. (Exec_response (Response_nodes [\<lparr>rn_type = Resp_simple_string, rn_size = 1, rn_value = ''PONG''\<rparr>]), w + 1)),
     lib_now = id, lib_verify_peer = (\<lambda>_. None), lib_verify_file = (\<lambda>_. None), lib_verify_paths = None,
     lib_cert_file = (\<lambda>_. None), lib_key_file = (\<lambda>_. None)\<rparr>"

lemmas pong_eval = pong_lib_def client_open_def guarded_def close_async_state_def execute_def convert_response_def
  parse_resp_node.simps(2) leaf_reply_def Let_def new_client_def default_redis_options_def

theorem client_lifecycle_witness:
  "rc_open (fst (foldl (client_event pong_lib) (new_client, 0) [Call_close, Call_open True default_redis_options]))
   \<and> client_ok (fst (foldl (client_event pong_lib) (new_client, 0) [Call_close, Call_open True default_redis_options]))"
  using client_lifecycle [OF refl, of pong_lib 0 "[Call_close, Call_open True default_redis_options]"]
  by (simp add: client_event_def client_close_def pong_eval)

text \<open>Every slot holds an idle client.\<close>

definition slots_ok :: "redis_slots \<Rightarrow> bool" where
  "slots_ok s \<longleftrightarrow> list_all client_ok (sl_clients s) \<and> length (sl_born s) = length (sl_clients s)"

lemma slots_ok_set: "slots_ok s \<Longrightarrow> client_ok c \<Longrightarrow> slots_ok (set_client i c s)"
  by (auto simp: slots_ok_def set_client_def list_all_length) (metis nth_list_update_eq nth_list_update_neq)

lemma slot_ok: "slots_ok s \<Longrightarrow> i < length (sl_clients s) \<Longrightarrow> client_ok (sl_clients s ! i)"
  by (simp add: slots_ok_def list_all_length)

lemma open_slot_cases:
  assumes "slots_ok s" and "i < length (sl_clients s)" and "open_slot lib True po i s w = (r, s', w')"
  shows "slots_ok s' \<and> (\<forall>j. j \<noteq> i \<longrightarrow> sl_clients s' ! j = sl_clients s ! j) \<and> length (sl_clients s') = length (sl_clients s)
    \<and> (case r of Inl _ \<Rightarrow> \<not> rc_open (sl_clients s' ! i)
       | Inr _ \<Rightarrow> rc_open (sl_clients s' ! i) \<and> sl_born s' ! i = lib_now lib w')"
proof -
  obtain x c u where x: "client_open lib True (rpo_connection po) (sl_clients s ! i) w = (x, c, u)" by (metis prod_cases3)
  note c = client_open_cases [OF slot_ok [OF assms(1,2)] x]
  show ?thesis using assms x c slots_ok_set [OF assms(1), of c i]
    by (cases x) (auto simp: open_slot_def set_client_def slots_ok_def)
qed

lemma reopen_slot_cases:
  assumes "slots_ok s" and "i < length (sl_clients s)" and "reopen_slot lib True po i s w = (r, s', w')"
  shows "slots_ok s' \<and> (\<forall>j. j \<noteq> i \<longrightarrow> sl_clients s' ! j = sl_clients s ! j) \<and> length (sl_clients s') = length (sl_clients s)
    \<and> (case r of Inl _ \<Rightarrow> \<not> rc_open (sl_clients s' ! i)
       | Inr _ \<Rightarrow> rc_open (sl_clients s' ! i) \<and> sl_born s' ! i = lib_now lib w')"
proof -
  let ?c = "close_async_state (sl_clients s ! i)"
  note c = client_close_ok [OF slot_ok [OF assms(1,2)], of w]
  have o: "open_slot lib True po i (set_client i ?c s) w = (r, s', w')" using assms(3) c by (simp add: reopen_slot_def)
  have "slots_ok (set_client i ?c s)" using c slots_ok_set [OF assms(1)] by blast
  from open_slot_cases [OF this _ o] assms(2) show ?thesis by (auto simp: set_client_def)
qed

text \<open>
  The health check delivers a live client. When it succeeds the client of the slot is open, and it was
  either opened just now or is below its maximal lifetime; when it fails the client is closed; the other slots
  are not touched, and every slot is left idle.\<close>

theorem ensure_healthy_fresh:
  assumes "slots_ok s" and "i < length (sl_clients s)" and "ensure_healthy lib True po i s w = (r, s', w')"
  shows "slots_ok s' \<and> (\<forall>j. j \<noteq> i \<longrightarrow> sl_clients s' ! j = sl_clients s ! j)
    \<and> (case r of Inl _ \<Rightarrow> \<not> rc_open (sl_clients s' ! i)
       | Inr _ \<Rightarrow> rc_open (sl_clients s' ! i)
           \<and> (sl_born s' ! i = lib_now lib w' \<or> s' = s
                \<and> (rpo_max_lifetime_ms po > 0 \<longrightarrow> lib_now lib w - sl_born s ! i < rpo_max_lifetime_ms po)))"
proof -
  let ?c = "sl_clients s ! i"
  have same: "set_client i ?c s = s" by (simp add: set_client_def)
  obtain x c u where x: "client_command lib True (rpo_health_check_command po) [] 0 ?c w = (x, c, u)" by (metis prod_cases3)
  have c: "c = ?c" using client_command_same [OF slot_ok [OF assms(1,2)], of lib True "rpo_health_check_command po" "[]" 0 w] x
    by simp
  note re = reopen_slot_cases [OF assms(1,2)]
  show ?thesis
    using assms(1,3) same x c re [of lib po w r s' w'] re [of lib po u r s' w']
    by (auto simp: ensure_healthy_def split: if_splits sum.splits)
qed

theorem ensure_healthy_fresh_witness:
  "\<exists>s'. ensure_healthy pong_lib True \<lparr>rpo_connection = default_redis_options, rpo_max_connections = 1, rpo_preconnect = False,
       rpo_acquire_timeout_ms = 0, rpo_max_lifetime_ms = 5, rpo_health_check_command = []\<rparr> 0
       \<lparr>sl_clients = [new_client], sl_born = [0]\<rparr> 7 = (Inr (), s', 8) \<and> rc_open (sl_clients s' ! 0)"
proof -
  let ?s = "\<lparr>sl_clients = [new_client], sl_born = [0]\<rparr>"
  let ?po = "\<lparr>rpo_connection = default_redis_options, rpo_max_connections = 1, rpo_preconnect = False,
     rpo_acquire_timeout_ms = 0, rpo_max_lifetime_ms = 5, rpo_health_check_command = []\<rparr>"
  obtain s' where s': "ensure_healthy pong_lib True ?po 0 ?s 7 = (Inr (), s', 8)"
    by (simp add: ensure_healthy_def reopen_slot_def open_slot_def set_client_def client_close_def pong_eval)
  have "slots_ok ?s" by (simp add: slots_ok_def new_client_ok)
  with s' ensure_healthy_fresh [of ?s 0 pong_lib ?po 7 "Inr ()" s' 8] show ?thesis by simp
qed

end
