(* ===== verification/Http_Types.thy ===== *)
theory Http_Types
  imports Prelude
begin

text \<open>
  The data that the HTTP layer passes around (\<open>layer2/include/flux_http/http.h\<close>,
  \<open>parser.h\<close>, \<open>server.h\<close>), and the interface of a case-insensitive header lookup, which
  the code implements five times.
\<close>

record http_header =
  h_name :: string
  h_value :: string

abbreviation mk_header :: "string \<Rightarrow> string \<Rightarrow> http_header" where
  "mk_header n v \<equiv> \<lparr>h_name = n, h_value = v\<rparr>"

type_synonym headers = "http_header list"

text \<open>\<open>HttpMessage\<close>. The body is in memory or in a temporary file, never both.\<close>

record http_message =
  hm_is_request :: bool
  hm_method :: string
  hm_url :: string
  hm_status_code :: int
  hm_reason :: string
  hm_major :: int
  hm_minor :: int
  hm_headers :: headers
  hm_trailers :: headers
  hm_body :: string
  hm_body_file :: "string option"
  hm_body_size :: nat

definition empty_message :: http_message where
  "empty_message = \<lparr>hm_is_request = False, hm_method = [], hm_url = [], hm_status_code = 0,
     hm_reason = [], hm_major = 0, hm_minor = 0, hm_headers = [], hm_trailers = [],
     hm_body = [], hm_body_file = None, hm_body_size = 0\<rparr>"

record request_target =
  rt_path :: string
  rt_query_items :: "(string \<times> string) list"
  rt_fragment :: "string option"

record request_meta =
  rm_request_id :: string
  rm_remote_address :: string
  rm_deadline :: "int option"
  rm_cancelled :: bool

definition default_meta :: request_meta where
  "default_meta = \<lparr>rm_request_id = [], rm_remote_address = [], rm_deadline = None,
     rm_cancelled = False\<rparr>"

record server_request =
  rq_method :: string
  rq_raw_target :: string
  rq_target :: request_target
  rq_headers :: headers
  rq_body :: string
  rq_body_size :: nat
  rq_major :: int
  rq_minor :: int
  rq_meta :: request_meta
  rq_body_file :: "string option"

definition default_request :: server_request where
  "default_request = \<lparr>rq_method = [], rq_raw_target = [],
     rq_target = \<lparr>rt_path = [], rt_query_items = [], rt_fragment = None\<rparr>, rq_headers = [],
     rq_body = [], rq_body_size = 0, rq_major = 1, rq_minor = 1, rq_meta = default_meta,
     rq_body_file = None\<rparr>"

record server_response =
  rs_status_code :: int
  rs_reason :: string
  rs_headers :: headers
  rs_body :: string
  rs_keep_alive :: bool
  rs_chunked :: bool

definition default_response :: server_response where
  "default_response = \<lparr>rs_status_code = 200, rs_reason = [], rs_headers = [], rs_body = [],
     rs_keep_alive = True, rs_chunked = False\<rparr>"

record server_limits =
  sl_max_header_count :: nat
  sl_max_header_bytes :: nat
  sl_max_body_bytes :: nat
  sl_max_target_bytes :: nat
  sl_max_method_bytes :: nat

definition default_limits :: server_limits where
  "default_limits = \<lparr>sl_max_header_count = 256, sl_max_header_bytes = 16 * 1024,
     sl_max_body_bytes = 8 * 1024 * 1024, sl_max_target_bytes = 8 * 1024,
     sl_max_method_bytes = 16\<rparr>"

text \<open>The time-outs of \<open>ServerConnectionPolicy\<close> only reach socket calls and are left out.\<close>

record connection_policy =
  cp_keep_alive_enabled :: bool
  cp_max_keep_alive_requests :: nat

definition default_policy :: connection_policy where
  "default_policy = \<lparr>cp_keep_alive_enabled = True, cp_max_keep_alive_requests = 100\<rparr>"

record connection_state =
  cs_handled_requests :: nat

record validation_result =
  vr_ok :: bool
  vr_status_code :: int
  vr_close_connection :: bool
  vr_message :: string

section \<open>Case-insensitive header lookup\<close>

definition same_name :: "string \<Rightarrow> string \<Rightarrow> bool" where
  "same_name a b \<longleftrightarrow> to_lower a = to_lower b"

text \<open>The contract of a lookup: scan the fields in order, compare names case-insensitively,
  return the value of the first that matches.\<close>

locale header_lookup =
  fixes get :: "headers \<Rightarrow> string \<Rightarrow> string option"
  assumes get_Nil: "get [] n = None"
    and get_Cons: "get (h # hs) n = (if same_name (h_name h) n then Some (h_value h) else get hs n)"
begin

lemma get_find: "get hs n = map_option h_value (List.find (\<lambda>h. same_name (h_name h) n) hs)"
  by (induction hs) (auto simp: get_Nil get_Cons)

lemma get_case_insensitive: "same_name n m \<Longrightarrow> get hs n = get hs m"
  by (simp add: get_find same_name_def)

lemma get_None_iff: "get hs n = None \<longleftrightarrow> (\<forall>h \<in> set hs. \<not> same_name (h_name h) n)"
  by (auto simp: get_find find_None_iff)

lemma get_append: "get (hs @ ks) n = (case get hs n of None \<Rightarrow> get ks n | Some v \<Rightarrow> Some v)"
  by (induction hs) (auto simp: get_Nil get_Cons)

end

text \<open>Two implementations of the contract agree on every header list and name.\<close>

lemma header_lookup_unique:
  assumes "header_lookup f" and "header_lookup g"
  shows "f hs n = g hs n"
  using header_lookup.get_find [OF assms(1)] header_lookup.get_find [OF assms(2)] by simp

end
