(* ===== verification/Cookies.thy ===== *)
theory Cookies
  imports Http_Types
begin

text \<open>
  The cookie jar of the HTTP client (\<open>layer2/src/http.cpp\<close>): matching of domains and paths, the jar's file
  format, reading \<open>Set-Cookie\<close> and composing \<open>Cookie\<close>. A parsed URL is the record \<open>client_url\<close>, as
  Boost.URL gives it.
\<close>

section \<open>Operations\<close>

record client_url =
  cu_scheme :: string
  cu_host :: string
  cu_port :: "string option"
  cu_path :: string
  cu_query :: "string option"

record cookie_entry =
  ck_domain :: string
  ck_path :: string
  ck_name :: string
  ck_value :: string
  ck_secure :: bool

definition equals_ci :: "string \<Rightarrow> string \<Rightarrow> bool" where
  "equals_ci left right \<longleftrightarrow>
     length left = length right \<and> (\<forall>i < length left. tolower (left ! i) = tolower (right ! i))"

definition cookie_domain_matches :: "string \<Rightarrow> string \<Rightarrow> bool" where
  "cookie_domain_matches request_host cookie_domain =
     (let host = to_lower request_host; domain0 = to_lower cookie_domain;
          domain = (if domain0 \<noteq> [] \<and> hd domain0 = CHR ''.'' then tl domain0 else domain0) in
      if domain = [] then False
      else if host = domain then True
      else length host > length domain \<and> suffix domain host
        \<and> host ! (length host - length domain - 1) = CHR ''.'')"

definition cookie_path_matches :: "string \<Rightarrow> string \<Rightarrow> bool" where
  "cookie_path_matches request_path cookie_path =
     prefix (if cookie_path = [] then ''/'' else cookie_path) request_path"

text \<open>\<open>std::getline\<close> with a delimiter. The stream is the text that is left, \<open>None\<close> once the end was hit; a call that
  extracts nothing fails.\<close>

definition get_line :: "char \<Rightarrow> string option \<Rightarrow> (string \<times> string option) option" where
  "get_line d stream =
     (case stream of
        None \<Rightarrow> None
      | Some s \<Rightarrow>
          if s = [] then None
          else case find_char d s of
                 Some i \<Rightarrow> Some (take i s, Some (drop (Suc i) s))
               | None \<Rightarrow> Some (s, None))"

definition load_cookie_line :: "string \<Rightarrow> cookie_entry option" where
  "load_cookie_line line =
     (if line = [] \<or> line ! 0 = CHR ''#'' then None
      else case get_line (CHR 0x09) (Some line) of None \<Rightarrow> None | Some (domain, r1) \<Rightarrow>
      (case get_line (CHR 0x09) r1 of None \<Rightarrow> None | Some (path, r2) \<Rightarrow>
      (case get_line (CHR 0x09) r2 of None \<Rightarrow> None | Some (secure, r3) \<Rightarrow>
      (case get_line (CHR 0x09) r3 of None \<Rightarrow> None | Some (name, r4) \<Rightarrow>
      (case get_line LF r4 of None \<Rightarrow> None | Some (value, r5) \<Rightarrow>
        if domain \<noteq> [] \<and> name \<noteq> [] then
          Some \<lparr>ck_domain = domain, ck_path = path, ck_name = name, ck_value = value, ck_secure = (secure = ''1'')\<rparr>
        else None)))))"

function load_cookie_lines :: "string option \<Rightarrow> cookie_entry list" where
  "load_cookie_lines stream =
     (case get_line LF stream of
        None \<Rightarrow> []
      | Some (line, rest) \<Rightarrow>
          (case load_cookie_line line of None \<Rightarrow> load_cookie_lines rest | Some c \<Rightarrow> c # load_cookie_lines rest))"
  by pat_completeness auto
termination
  by (relation "measure (case_option 0 (Suc \<circ> length))")
     (auto simp: get_line_def find_char_Some split: option.splits if_splits)

declare load_cookie_lines.simps [simp del]

definition load_cookie_jar_file :: "(string \<rightharpoonup> string) \<Rightarrow> string \<Rightarrow> cookie_entry list" where
  "load_cookie_jar_file files path =
     (case files path of None \<Rightarrow> [] | Some text \<Rightarrow> load_cookie_lines (Some text))"

definition cookie_line :: "cookie_entry \<Rightarrow> string" where
  "cookie_line c = ck_domain c @ [CHR 0x09] @ ck_path c @ [CHR 0x09] @ (if ck_secure c then ''1'' else ''0'') @ [CHR 0x09]
     @ ck_name c @ [CHR 0x09] @ ck_value c @ [LF]"

definition save_cookie_jar_file :: "string \<Rightarrow> cookie_entry list \<Rightarrow> (string \<rightharpoonup> string) \<Rightarrow> (string \<rightharpoonup> string)" where
  "save_cookie_jar_file path cookies files =
     files(path \<mapsto> ''# flux beast cookie jar v1'' @ [LF] @ concat (map cookie_line cookies))"

definition same_cookie :: "cookie_entry \<Rightarrow> cookie_entry \<Rightarrow> bool" where
  "same_cookie a b \<longleftrightarrow> equals_ci (ck_domain a) (ck_domain b) \<and> ck_path a = ck_path b \<and> ck_name a = ck_name b"

fun upsert_cookie :: "cookie_entry list \<Rightarrow> cookie_entry \<Rightarrow> cookie_entry list" where
  "upsert_cookie [] entry = [entry]"
| "upsert_cookie (c # cs) entry = (if same_cookie c entry then entry # cs else c # upsert_cookie cs entry)"

text \<open>\<open>next_token\<close>: the text up to the next semicolon, and what follows it.\<close>

definition next_token :: "string \<Rightarrow> string \<times> string" where
  "next_token rest =
     (case find_char CHR '';'' rest of None \<Rightarrow> (rest, []) | Some pos \<Rightarrow> (take pos rest, drop (Suc pos) rest))"

definition trim :: "string \<Rightarrow> string" where
  "trim = strip_by isspace"

definition cookie_attribute :: "string \<Rightarrow> cookie_entry \<Rightarrow> cookie_entry" where
  "cookie_attribute raw_token cookie =
     (let attr_eq = find_char CHR ''='' raw_token;
          attr_name = to_lower (case attr_eq of None \<Rightarrow> raw_token | Some i \<Rightarrow> take i raw_token);
          attr_value = (case attr_eq of None \<Rightarrow> [] | Some i \<Rightarrow> drop (Suc i) raw_token) in
      if attr_name = ''domain'' \<and> attr_value \<noteq> [] then cookie\<lparr>ck_domain := to_lower attr_value\<rparr>
      else if attr_name = ''path'' \<and> attr_value \<noteq> [] then cookie\<lparr>ck_path := attr_value\<rparr>
      else if attr_name = ''secure'' then cookie\<lparr>ck_secure := True\<rparr>
      else cookie)"

function cookie_attributes :: "string \<Rightarrow> cookie_entry \<Rightarrow> cookie_entry" where
  "cookie_attributes rest cookie =
     (if rest = [] then cookie
      else
        let (token, rest') = next_token rest; raw_token = trim token in
        if raw_token = [] then cookie_attributes rest' cookie
        else cookie_attributes rest' (cookie_attribute raw_token cookie))"
  by pat_completeness auto
termination
  by (relation "measure (length \<circ> fst)") (auto simp: next_token_def find_char_Some split: option.splits)

declare cookie_attributes.simps [simp del]

definition find_last :: "char \<Rightarrow> string \<Rightarrow> nat option" where
  "find_last c s = map_option (\<lambda>i. length s - 1 - i) (find_char c (rev s))"

definition default_cookie_path :: "client_url \<Rightarrow> string" where
  "default_cookie_path url =
     (let request_path = (if cu_path url = [] then ''/'' else cu_path url) in
      if hd request_path = CHR ''/'' then
        (case find_last CHR ''/'' request_path of
           Some slash \<Rightarrow> if slash > 0 then take slash request_path else ''/''
         | None \<Rightarrow> ''/'')
      else ''/'')"

definition parse_set_cookie :: "string \<Rightarrow> client_url \<Rightarrow> cookie_entry option" where
  "parse_set_cookie header url =
     (let (token, rest) = next_token header; first = trim token in
      case find_char CHR ''='' first of
        None \<Rightarrow> None
      | Some eq \<Rightarrow>
          if eq = 0 then None
          else
            let cookie0 = \<lparr>ck_domain = to_lower (cu_host url), ck_path = default_cookie_path url,
                  ck_name = take eq first, ck_value = drop (Suc eq) first, ck_secure = False\<rparr>;
                cookie1 = cookie_attributes rest cookie0;
                cookie2 = (if ck_path cookie1 = [] then cookie1\<lparr>ck_path := ''/''\<rparr> else cookie1)
            in Some (if ck_domain cookie2 = [] then cookie2\<lparr>ck_domain := to_lower (cu_host url)\<rparr> else cookie2))"

text \<open>The loop of \<open>build_cookie_header\<close> with the header composed so far.\<close>

fun cookie_header_loop :: "client_url \<Rightarrow> string \<Rightarrow> cookie_entry list \<Rightarrow> string" where
  "cookie_header_loop url header [] = header"
| "cookie_header_loop url header (c # cs) =
     (let path = (if cu_path url = [] then ''/'' else cu_path url) in
      if ck_secure c \<and> to_lower (cu_scheme url) \<noteq> ''https'' then cookie_header_loop url header cs
      else if \<not> cookie_domain_matches (to_lower (cu_host url)) (ck_domain c) then cookie_header_loop url header cs
      else if \<not> cookie_path_matches path (ck_path c) then cookie_header_loop url header cs
      else cookie_header_loop url
             ((if header \<noteq> [] then header @ ''; '' else header) @ ck_name c @ CHR ''='' # ck_value c) cs)"

definition build_cookie_header :: "cookie_entry list \<Rightarrow> client_url \<Rightarrow> string" where
  "build_cookie_header cookies url = cookie_header_loop url [] cookies"

section \<open>Which cookies are sent\<close>

lemma equals_ci_lower [code]: "equals_ci a b \<longleftrightarrow> to_lower a = to_lower b"
  by (auto simp: equals_ci_def list_eq_iff_nth_eq)

definition cookie_applies :: "client_url \<Rightarrow> cookie_entry \<Rightarrow> bool" where
  "cookie_applies url c \<longleftrightarrow> (ck_secure c \<longrightarrow> to_lower (cu_scheme url) = ''https'')
     \<and> cookie_domain_matches (cu_host url) (ck_domain c)
     \<and> cookie_path_matches (if cu_path url = [] then ''/'' else cu_path url) (ck_path c)"

fun join_semicolon :: "string list \<Rightarrow> string" where
  "join_semicolon [] = []"
| "join_semicolon [x] = x"
| "join_semicolon (x # y # xs) = x @ ''; '' @ join_semicolon (y # xs)"

definition cookie_pair :: "cookie_entry \<Rightarrow> string" where
  "cookie_pair c = ck_name c @ CHR ''='' # ck_value c"

lemma domain_matches_lower: "cookie_domain_matches (to_lower h) d = cookie_domain_matches h d"
  by (simp add: cookie_domain_matches_def comp_def)

lemma join_semicolon_Cons: "join_semicolon (x # xs) = x @ (if xs = [] then [] else ''; '' @ join_semicolon xs)"
  by (cases xs) simp_all

lemma cookie_header_loop_spec:
  "cookie_header_loop url header cs =
     (let pairs = map cookie_pair (filter (cookie_applies url) cs) in
      if pairs = [] then header else if header = [] then join_semicolon pairs else header @ ''; '' @ join_semicolon pairs)"
proof (induction cs arbitrary: header)
  case Nil
  show ?case by simp
next
  case (Cons c cs)
  show ?case
  proof (cases "cookie_applies url c")
    case True
    then show ?thesis
      by (auto simp: Cons.IH Let_def cookie_applies_def cookie_pair_def join_semicolon_Cons domain_matches_lower)
  next
    case False
    then have "cookie_header_loop url header (c # cs) = cookie_header_loop url header cs"
      by (auto simp: cookie_applies_def Let_def domain_matches_lower)
    with False show ?thesis by (simp add: Cons.IH)
  qed
qed

text \<open>The domain test says: the host is the domain, or a subdomain of it.\<close>

lemma cookie_domain_matches_iff:
  "cookie_domain_matches host d \<longleftrightarrow>
     (let domain = (if prefix ''.'' (to_lower d) then tl (to_lower d) else to_lower d) in
      domain \<noteq> [] \<and> (to_lower host = domain \<or> (\<exists>sub. to_lower host = sub @ CHR ''.'' # domain)))"
proof -
  have sub: "length h > length d \<and> suffix d h \<and> h ! (length h - length d - 1) = CHR ''.''
      \<longleftrightarrow> (\<exists>sub. h = sub @ CHR ''.'' # d)" for h d :: string
  proof
    assume a: "length h > length d \<and> suffix d h \<and> h ! (length h - length d - 1) = CHR ''.''"
    then obtain p where p: "h = p @ d" by (auto simp: suffix_def)
    with a have "p \<noteq> []" "last p = CHR ''.''" by (auto simp: nth_append last_conv_nth)
    then have "p = butlast p @ [CHR ''.'']" by (metis append_butlast_last_id)
    with p show "\<exists>sub. h = sub @ CHR ''.'' # d" by (metis append.assoc append_Cons append_Nil)
  next
    assume "\<exists>sub. h = sub @ CHR ''.'' # d"
    then show "length h > length d \<and> suffix d h \<and> h ! (length h - length d - 1) = CHR ''.''"
      by (auto simp: suffix_def nth_append)
  qed
  have pre: "l \<noteq> [] \<and> hd l = CHR ''.'' \<longleftrightarrow> prefix ''.'' l" for l by (cases l) auto
  show ?thesis unfolding cookie_domain_matches_def Let_def pre sub by auto
qed

text \<open>
  The \<open>Cookie\<close> header of a request lists, in the order of the jar and joined by semicolons, exactly the
  cookies that apply to its URL; a secure one only over https, and each only for a host that is
  its domain or ends in a dot and the domain (case-insensitively, after one leading dot), under a path
  that starts with its path.\<close>

theorem cookies_sent_exactly:
  "build_cookie_header cookies url = join_semicolon (map cookie_pair (filter (cookie_applies url) cookies))
   \<and> (cookie_applies url c \<longrightarrow>
        (ck_secure c \<longrightarrow> to_lower (cu_scheme url) = ''https'')
        \<and> (\<exists>domain. domain \<noteq> [] \<and> to_lower (ck_domain c) \<in> {domain, CHR ''.'' # domain}
             \<and> (to_lower (cu_host url) = domain \<or> (\<exists>sub. to_lower (cu_host url) = sub @ CHR ''.'' # domain)))
        \<and> prefix (if ck_path c = [] then ''/'' else ck_path c) (if cu_path url = [] then ''/'' else cu_path url))"
proof (intro conjI impI)
  show "build_cookie_header cookies url = join_semicolon (map cookie_pair (filter (cookie_applies url) cookies))"
    by (simp add: build_cookie_header_def cookie_header_loop_spec Let_def)
next
  assume a: "cookie_applies url c"
  have "to_lower (ck_domain c) \<in> {domain, CHR ''.'' # domain}"
    if "domain = (if prefix ''.'' (to_lower (ck_domain c)) then tl (to_lower (ck_domain c)) else to_lower (ck_domain c))" for domain
    using that by (cases "to_lower (ck_domain c)") (auto split: if_splits)
  then show "\<exists>domain. domain \<noteq> [] \<and> to_lower (ck_domain c) \<in> {domain, CHR ''.'' # domain}
      \<and> (to_lower (cu_host url) = domain \<or> (\<exists>sub. to_lower (cu_host url) = sub @ CHR ''.'' # domain))"
    using a unfolding cookie_applies_def cookie_domain_matches_iff Let_def by blast
qed (auto simp: cookie_applies_def cookie_path_matches_def)

definition shop_url :: client_url where
  "shop_url = \<lparr>cu_scheme = ''https'', cu_host = ''a.Shop.org'', cu_port = None, cu_path = ''/cart/view'', cu_query = None\<rparr>"

definition shop_cookie :: cookie_entry where
  "shop_cookie = \<lparr>ck_domain = ''.shop.org'', ck_path = ''/cart'', ck_name = ''id'', ck_value = ''7'', ck_secure = True\<rparr>"

lemma shop_cookie_applies: "cookie_applies shop_url shop_cookie"
  by code_simp

theorem cookies_sent_exactly_witness:
  "build_cookie_header [shop_cookie] shop_url = ''id=7'' \<and> to_lower (cu_scheme shop_url) = ''https''"
  using cookies_sent_exactly [of "[shop_cookie]" shop_url shop_cookie] shop_cookie_applies
  by (simp add: cookie_pair_def shop_cookie_def)

section \<open>The jar's file\<close>

text \<open>Fields that do not clash with the file format.\<close>

definition storable_cookie :: "cookie_entry \<Rightarrow> bool" where
  "storable_cookie c \<longleftrightarrow> ck_domain c \<noteq> [] \<and> hd (ck_domain c) \<noteq> CHR ''#'' \<and> ck_name c \<noteq> []
     \<and> (\<forall>s \<in> {ck_domain c, ck_path c, ck_name c}. CHR 0x09 \<notin> set s \<and> LF \<notin> set s) \<and> LF \<notin> set (ck_value c)"

lemma get_line_field: "d \<notin> set s \<Longrightarrow> get_line d (Some (s @ d # rest)) = Some (s, Some rest)"
  by (simp add: get_line_def find_char_append)

lemma load_line_stored:
  assumes "storable_cookie c"
  shows "load_cookie_line (butlast (cookie_line c)) = (if ck_value c = [] then None else Some c)"
proof -
  have b: "butlast (cookie_line c) = ck_domain c @ CHR 0x09 # (ck_path c @ CHR 0x09 # ((if ck_secure c then ''1'' else ''0'')
      @ CHR 0x09 # (ck_name c @ CHR 0x09 # ck_value c)))" by (simp add: cookie_line_def butlast_append)
  have "find_char LF (ck_value c) = None" using assms by (simp add: storable_cookie_def find_char_None)
  then have v: "get_line LF (Some (ck_value c)) = (if ck_value c = [] then None else Some (ck_value c, None))"
    by (simp add: get_line_def)
  have f: "get_line CHR 0x09 (Some ((if ck_secure c then ''1'' else ''0'') @ CHR 0x09 # r)) = Some (if ck_secure c then ''1'' else ''0'', Some r)"
    for r by (rule get_line_field) simp
  have "ck_domain c ! 0 \<noteq> CHR ''#''" "get_line LF (Some []) = None"
    using assms hd_conv_nth [of "ck_domain c"] by (auto simp: storable_cookie_def get_line_def)
  then show ?thesis
    using assms unfolding load_cookie_line_def b storable_cookie_def by (auto simp: get_line_field f v nth_append)
qed

lemma load_lines_stored:
  "\<forall>c \<in> set cs. storable_cookie c \<Longrightarrow>
     load_cookie_lines (Some (concat (map cookie_line cs))) = filter (\<lambda>c. ck_value c \<noteq> []) cs"
proof (induction cs)
  case Nil
  show ?case by (simp add: load_cookie_lines.simps get_line_def)
next
  case (Cons c cs)
  let ?l = "butlast (cookie_line c)"
  have l: "cookie_line c = ?l @ [LF]" by (simp add: cookie_line_def butlast_append)
  have "LF \<notin> set ?l" using Cons.prems by (auto simp: cookie_line_def butlast_append storable_cookie_def)
  then have "get_line LF (Some (concat (map cookie_line (c # cs)))) = Some (?l, Some (concat (map cookie_line cs)))"
    by (subst list.map, subst concat.simps, subst l) (simp add: get_line_field)
  moreover have "load_cookie_line ?l = (if ck_value c = [] then None else Some c)"
    using Cons.prems by (intro load_line_stored) simp
  ultimately show ?case using Cons by (subst load_cookie_lines.simps) simp
qed

text \<open>
  The cookie jar survives its file: loading what was saved gives the same cookies in the same order,
  with every field, except that cookies with an empty value are gone.\<close>

theorem cookie_jar_roundtrip:
  assumes "\<forall>c \<in> set cookies. storable_cookie c"
  shows "load_cookie_jar_file (save_cookie_jar_file path cookies files) path = filter (\<lambda>c. ck_value c \<noteq> []) cookies"
proof -
  let ?h = "''# flux beast cookie jar v1''"
  have "get_line LF (Some (?h @ LF # concat (map cookie_line cookies))) = Some (?h, Some (concat (map cookie_line cookies)))"
    by (rule get_line_field) simp
  moreover have "load_cookie_line ?h = None" by (simp add: load_cookie_line_def)
  ultimately show ?thesis
    using load_lines_stored [OF assms] unfolding load_cookie_jar_file_def save_cookie_jar_file_def fun_upd_same option.case
    by (subst load_cookie_lines.simps) (simp only: append_Cons append_Nil option.case prod.case)
qed

theorem cookie_jar_roundtrip_witness:
  "load_cookie_jar_file (save_cookie_jar_file ''jar'' [shop_cookie, shop_cookie\<lparr>ck_value := []\<rparr>] Map.empty) ''jar'' = [shop_cookie]"
  using cookie_jar_roundtrip [of "[shop_cookie, shop_cookie\<lparr>ck_value := []\<rparr>]" "''jar''" Map.empty]
  by (simp add: storable_cookie_def shop_cookie_def)

section \<open>The jar as a map\<close>

definition jar_ok :: "cookie_entry list \<Rightarrow> bool" where
  "jar_ok cs \<longleftrightarrow> distinct (map (\<lambda>c. (to_lower (ck_domain c), ck_path c, ck_name c)) cs)"

lemma same_cookie_key:
  "same_cookie a b \<longleftrightarrow> (to_lower (ck_domain a), ck_path a, ck_name a) = (to_lower (ck_domain b), ck_path b, ck_name b)"
  by (simp add: same_cookie_def equals_ci_lower)

lemma set_upsert_cookie: "jar_ok cs \<Longrightarrow> set (upsert_cookie cs e) = insert e {c \<in> set cs. \<not> same_cookie c e}"
proof (induction cs)
  case (Cons c cs)
  then have "\<not> same_cookie d c" if "d \<in> set cs" for d
    using that Cons.prems unfolding jar_ok_def same_cookie_key by (metis (no_types, lifting) distinct.simps(2) image_eqI list.simps(9) set_map)
  then have "\<not> same_cookie d e" if "d \<in> set cs" "same_cookie c e" for d using that by (auto simp: same_cookie_key)
  with Cons show ?case by (auto simp: jar_ok_def)
qed simp

text \<open>
  The jar holds one cookie per domain, path and name: storing a cookie replaces the one with the same key,
  keeps all the others, and keeps the keys distinct.\<close>

theorem upsert_cookie_map:
  assumes "jar_ok cookies"
  shows "jar_ok (upsert_cookie cookies entry)
    \<and> set (upsert_cookie cookies entry) = insert entry {c \<in> set cookies. \<not> same_cookie c entry}"
proof -
  have "jar_ok (upsert_cookie cs entry)" if "jar_ok cs" for cs
    using that
  proof (induction cs)
    case (Cons c cs)
    then show ?case using set_upsert_cookie [of cs entry] by (auto simp: jar_ok_def same_cookie_key)
  qed (simp add: jar_ok_def)
  then show ?thesis using assms set_upsert_cookie by blast
qed

theorem upsert_cookie_map_witness:
  "set (upsert_cookie [shop_cookie] (shop_cookie\<lparr>ck_value := ''8''\<rparr>)) = {shop_cookie\<lparr>ck_value := ''8''\<rparr>}"
  using upsert_cookie_map [of "[shop_cookie]" "shop_cookie\<lparr>ck_value := ''8''\<rparr>"]
  by (auto simp: jar_ok_def same_cookie_key shop_cookie_def)

section \<open>A foreign cookie\<close>

text \<open>A server may set a cookie for any other domain, and the client sends it there: the domain attribute
  is not compared with the host of the response.\<close>

theorem foreign_cookie_accepted:
  "parse_set_cookie ''id=7; domain=shop.org; path=/'' (shop_url\<lparr>cu_host := ''evil.net''\<rparr>)
     = Some \<lparr>ck_domain = ''shop.org'', ck_path = ''/'', ck_name = ''id'', ck_value = ''7'', ck_secure = False\<rparr>
   \<and> cookie_applies shop_url \<lparr>ck_domain = ''shop.org'', ck_path = ''/'', ck_name = ''id'', ck_value = ''7'', ck_secure = False\<rparr>"
  by code_simp

end
