(* ===== verification/Http_Client.thy ===== *)
theory Http_Client
  imports Cookies
begin

text \<open>
  The HTTP client of \<open>layer2/src/http.cpp\<close>: composing a request, one exchange with a server, redirects, the
  cookie jar, retries, and downloads with resume. Boost.URL, the network and the environment are the parameter
  record \<open>http_lib\<close>; every network call returns an error code. The state holds the files, the chunks given to the
  stream callback, and a log of the requests that were written to a connection.
\<close>

section \<open>Formats and errors\<close>

datatype response_format = RF_json | RF_form | RF_xml | RF_text

datatype request_format = QF_json | QF_form | QF_xml | QF_text | QF_binary | QF_multipart

datatype http_error_code = HE_invalid_request | HE_curl_failure | HE_http_status_failure

datatype transport_kind = TK_none | TK_timeout | TK_dns | TK_tls | TK_connect | TK_send | TK_recv | TK_reset | TK_unknown

record http_error =
  he_message :: string
  he_code :: http_error_code
  he_transport_code :: int
  he_status :: int
  he_kind :: transport_kind

definition http_error_simple :: "string \<Rightarrow> http_error_code \<Rightarrow> http_error" where
  "http_error_simple m code = \<lparr>he_message = m, he_code = code, he_transport_code = 0, he_status = 0, he_kind = TK_none\<rparr>"

definition connect_error :: "string \<Rightarrow> transport_kind \<Rightarrow> http_error" where
  "connect_error m k = \<lparr>he_message = m, he_code = HE_curl_failure, he_transport_code = 0, he_status = 0, he_kind = k\<rparr>"

definition invalid_request :: "string \<Rightarrow> http_error" where
  "invalid_request m = http_error_simple m HE_invalid_request"

definition parse_response_format :: "string \<Rightarrow> http_error + response_format" where
  "parse_response_format text =
     (let lower = to_lower text in
      if lower = ''json'' \<or> lower = ''application/json'' then Inr RF_json
      else if lower = ''form'' \<or> lower = ''application/x-www-form-urlencoded'' then Inr RF_form
      else if lower = ''xml'' \<or> lower = ''application/xml'' \<or> lower = ''text/xml'' then Inr RF_xml
      else if lower = ''text'' \<or> lower = ''text/plain'' then Inr RF_text
      else Inl (invalid_request ''unsupported response format''))"

definition parse_request_format :: "string \<Rightarrow> http_error + request_format" where
  "parse_request_format text =
     (let lower = to_lower text in
      if lower = ''json'' \<or> lower = ''application/json'' then Inr QF_json
      else if lower = ''form'' \<or> lower = ''application/x-www-form-urlencoded'' then Inr QF_form
      else if lower = ''xml'' \<or> lower = ''application/xml'' \<or> lower = ''text/xml'' then Inr QF_xml
      else if lower = ''text'' \<or> lower = ''text/plain'' then Inr QF_text
      else if lower = ''binary'' \<or> lower = ''application/octet-stream'' then Inr QF_binary
      else if lower = ''multipart'' \<or> lower = ''multipart/form-data'' then Inr QF_multipart
      else Inl (invalid_request ''unsupported request format''))"

primrec accept_value_for_format :: "response_format \<Rightarrow> string" where
  "accept_value_for_format RF_json = ''application/json''"
| "accept_value_for_format RF_form = ''application/x-www-form-urlencoded''"
| "accept_value_for_format RF_xml = ''application/xml''"
| "accept_value_for_format RF_text = ''text/plain''"

primrec content_type_for_request_format :: "request_format \<Rightarrow> string option" where
  "content_type_for_request_format QF_json = Some ''application/json''"
| "content_type_for_request_format QF_form = Some ''application/x-www-form-urlencoded''"
| "content_type_for_request_format QF_xml = Some ''application/xml''"
| "content_type_for_request_format QF_text = Some ''text/plain''"
| "content_type_for_request_format QF_binary = Some ''application/octet-stream''"
| "content_type_for_request_format QF_multipart = None"

text \<open>The error codes that the code names.\<close>

datatype net_ec =
  Net_ok | Net_timed_out | Net_beast_timeout | Net_host_not_found | Net_host_not_found_try_again
  | Net_network_unreachable | Net_connection_refused | Net_connection_aborted | Net_host_unreachable | Net_ssl
  | Net_broken_pipe | Net_connection_reset | Net_eof | Net_end_of_stream | Net_not_connected | Net_other

definition map_transport_error_kind :: "net_ec \<Rightarrow> transport_kind" where
  "map_transport_error_kind ec =
     (if ec = Net_ok then TK_none
      else if ec \<in> {Net_timed_out, Net_beast_timeout} then TK_timeout
      else if ec \<in> {Net_host_not_found, Net_host_not_found_try_again, Net_network_unreachable} then TK_dns
      else if ec \<in> {Net_connection_refused, Net_connection_aborted, Net_host_unreachable} then TK_connect
      else if ec = Net_ssl then TK_tls
      else if ec \<in> {Net_broken_pipe, Net_connection_reset, Net_eof, Net_end_of_stream} then TK_reset
      else TK_unknown)"

section \<open>Headers\<close>

fun has_header :: "headers \<Rightarrow> string \<Rightarrow> bool" where
  "has_header [] name = False"
| "has_header (h # hs) name = (if to_upper (h_name h) = to_upper name then True else has_header hs name)"

definition set_header_if_absent :: "string \<Rightarrow> string \<Rightarrow> headers \<Rightarrow> headers" where
  "set_header_if_absent name value hs = (if \<not> has_header hs name then hs @ [mk_header name value] else hs)"

fun find_header_value :: "headers \<Rightarrow> string \<Rightarrow> string option" where
  "find_header_value [] name = None"
| "find_header_value (h # hs) name = (if equals_ci (h_name h) name then Some (h_value h) else find_header_value hs name)"

definition erase_header :: "string \<Rightarrow> headers \<Rightarrow> headers" where
  "erase_header name hs = filter (\<lambda>h. \<not> equals_ci (h_name h) name) hs"

fun set_or_replace_header :: "string \<Rightarrow> string \<Rightarrow> headers \<Rightarrow> headers" where
  "set_or_replace_header name value [] = [mk_header name value]"
| "set_or_replace_header name value (h # hs) =
     (if equals_ci (h_name h) name then h\<lparr>h_value := value\<rparr> # hs else h # set_or_replace_header name value hs)"

section \<open>One exchange\<close>

record send_request =
  sr_url :: client_url
  sr_connect :: "string \<times> string"
  sr_tls :: bool
  sr_verify_peer :: bool
  sr_method :: string
  sr_target :: string
  sr_fields :: headers
  sr_body :: string

record raw_response =
  raw_status :: int
  raw_fields :: headers
  raw_body :: string

record 'w http_lib =
  hl_parse_uri :: "string \<Rightarrow> client_url option"
  hl_parse_reference :: "string \<Rightarrow> (bool \<times> string) option"
  hl_resolve_reference :: "string \<Rightarrow> string \<Rightarrow> string option"
  hl_append_params :: "string \<Rightarrow> (string \<times> string) list \<Rightarrow> string option"
  hl_encode :: "string \<Rightarrow> string"
  hl_ec_message :: "net_ec \<Rightarrow> string"
  hl_ec_value :: "net_ec \<Rightarrow> int"
  hl_getenv :: "string \<Rightarrow> string option"
  hl_random :: "'w \<Rightarrow> (nat \<times> nat) \<times> 'w"
  hl_default_verify_paths :: bool
  hl_sni :: "string \<Rightarrow> bool"
  hl_dns :: "string \<times> string \<Rightarrow> 'w \<Rightarrow> net_ec \<times> 'w"
  hl_connect :: "string \<times> string \<Rightarrow> int \<Rightarrow> 'w \<Rightarrow> net_ec \<times> 'w"
  hl_handshake :: "string \<Rightarrow> bool \<Rightarrow> 'w \<Rightarrow> net_ec \<times> 'w"
  hl_write :: "send_request \<Rightarrow> 'w \<Rightarrow> net_ec \<times> 'w"
  hl_read :: "'w \<Rightarrow> (net_ec \<times> raw_response) \<times> 'w"
  hl_shutdown :: "'w \<Rightarrow> net_ec \<times> 'w"

record 'w client_world =
  cw_files :: "string \<rightharpoonup> string"
  cw_chunks :: "string list"
  cw_sent :: "send_request list"
  cw_world :: 'w

definition throw_beast_transport_error :: "'w http_lib \<Rightarrow> string \<Rightarrow> net_ec \<Rightarrow> http_error" where
  "throw_beast_transport_error lib where' ec =
     \<lparr>he_message = where' @ '' failed: '' @ hl_ec_message lib ec, he_code = HE_curl_failure,
      he_transport_code = hl_ec_value lib ec, he_status = 0, he_kind = map_transport_error_kind ec\<rparr>"

definition is_redirect_status :: "int \<Rightarrow> bool" where
  "is_redirect_status code \<longleftrightarrow> code \<in> {301, 302, 303, 307, 308}"

definition resolve_redirect_url :: "'w http_lib \<Rightarrow> string \<Rightarrow> string \<Rightarrow> string option" where
  "resolve_redirect_url lib base_url location =
     (case hl_parse_reference lib location of
        None \<Rightarrow> None
      | Some (True, buffer) \<Rightarrow> Some buffer
      | Some (False, _) \<Rightarrow>
          (case hl_parse_uri lib base_url of None \<Rightarrow> None | Some _ \<Rightarrow> hl_resolve_reference lib base_url location))"

definition make_default_port :: "string \<Rightarrow> string" where
  "make_default_port scheme = (if equals_ci scheme ''https'' then ''443'' else ''80'')"

definition make_http_target :: "client_url \<Rightarrow> string" where
  "make_http_target url =
     (if cu_path url = [] then ''/'' else cu_path url) @ (case cu_query url of None \<Rightarrow> [] | Some q \<Rightarrow> CHR ''?'' # q)"

definition should_switch_to_get_on_redirect :: "int \<Rightarrow> string \<Rightarrow> bool" where
  "should_switch_to_get_on_redirect code m \<longleftrightarrow> code = 303 \<or> (code = 301 \<or> code = 302) \<and> equals_ci m ''POST''"

record client_response =
  cr_status_code :: int
  cr_effective_url :: string
  cr_headers :: headers
  cr_body :: string

definition response_ok :: "client_response \<Rightarrow> bool" where
  "response_ok r \<longleftrightarrow> 200 \<le> cr_status_code r \<and> cr_status_code r < 300"

text \<open>\<open>BeastExecRequest\<close>; the callback is present or not. The part of it that the redirect loop changes is a
  record of its own.\<close>

record exec_request =
  xr_proxy :: "string option"
  xr_jar_enabled :: bool
  xr_jar_file :: "string option"
  xr_user_agent :: string
  xr_timeout :: int
  xr_connect_timeout :: int
  xr_follow_redirects :: bool
  xr_aggregate_body :: bool
  xr_on_chunk :: bool

record exec_state =
  xs_url :: string
  xs_method :: string
  xs_body :: string
  xs_headers :: headers
  xs_cookies :: "cookie_entry list"

definition sending_headers :: "exec_request \<Rightarrow> client_url \<Rightarrow> exec_state \<Rightarrow> headers" where
  "sending_headers rq url st =
     (if xr_jar_enabled rq then
        let hs = erase_header ''Cookie'' (xs_headers st); cookie_header = build_cookie_header (xs_cookies st) url in
        if cookie_header \<noteq> [] then hs @ [mk_header ''Cookie'' cookie_header] else hs
      else xs_headers st)"

definition host_header :: "client_url \<Rightarrow> string" where
  "host_header url =
     (case cu_port url of
        Some port \<Rightarrow> if port \<noteq> make_default_port (cu_scheme url) then cu_host url @ '':'' @ port else cu_host url
      | None \<Rightarrow> cu_host url)"

text \<open>The fields of the request in the order in which they are set.\<close>

definition request_fields :: "exec_request \<Rightarrow> client_url \<Rightarrow> exec_state \<Rightarrow> headers" where
  "request_fields rq url st =
     (let hs = sending_headers rq url st in
      hs @ (if has_header hs ''Host'' then [] else [mk_header ''Host'' (host_header url)])
        @ (if has_header hs ''User-Agent'' \<or> xr_user_agent rq = [] then []
           else [mk_header ''User-Agent'' (xr_user_agent rq)]))"

text \<open>The request of one pass and where to connect.\<close>

definition prepare_request :: "'w http_lib \<Rightarrow> exec_request \<Rightarrow> exec_state \<Rightarrow> http_error + send_request" where
  "prepare_request lib rq st =
     (case hl_parse_uri lib (xs_url st) of
        None \<Rightarrow> Inl (invalid_request ''invalid request url for beast backend'')
      | Some url \<Rightarrow>
          let use_tls = equals_ci (cu_scheme url) ''https'' in
          if \<not> equals_ci (cu_scheme url) ''http'' \<and> \<not> use_tls then
            Inl (invalid_request ''unsupported url scheme for beast backend'')
          else
            let port = (case cu_port url of Some p \<Rightarrow> p | None \<Rightarrow> make_default_port (cu_scheme url));
                direct = \<lparr>sr_url = url, sr_connect = (cu_host url, port), sr_tls = use_tls,
                  sr_verify_peer = hl_default_verify_paths lib, sr_method = xs_method st,
                  sr_target = make_http_target url, sr_fields = request_fields rq url st, sr_body = xs_body st\<rparr> in
            (case xr_proxy rq of
               None \<Rightarrow> Inr direct
             | Some proxy \<Rightarrow>
                 if proxy = [] then Inr direct
                 else case hl_parse_uri lib proxy of
                        None \<Rightarrow> Inl (connect_error ''unsupported proxy url for beast backend'' TK_connect)
                      | Some proxy_url \<Rightarrow>
                          if \<not> equals_ci (cu_scheme proxy_url) ''http'' then
                            Inl (connect_error ''unsupported proxy url for beast backend'' TK_connect)
                          else if use_tls then
                            Inl (connect_error ''https over proxy is not supported in beast backend yet'' TK_connect)
                          else Inr (direct\<lparr>sr_connect := (cu_host proxy_url,
                                 case cu_port proxy_url of Some p \<Rightarrow> p | None \<Rightarrow> ''80''), sr_target := xs_url st\<rparr>)))"

text \<open>A network call: on an error code the request fails with the name of the stage.\<close>

definition net_call ::
  "'w http_lib \<Rightarrow> string \<Rightarrow> ('w \<Rightarrow> net_ec \<times> 'w) \<Rightarrow>
     ('w client_world \<Rightarrow> (http_error + 'a) \<times> 'w client_world) \<Rightarrow> 'w client_world \<Rightarrow> (http_error + 'a) \<times> 'w client_world" where
  "net_call lib where' call k w =
     (case call (cw_world w) of
        (ec, w') \<Rightarrow>
          if ec = Net_ok then k (w\<lparr>cw_world := w'\<rparr>)
          else (Inl (throw_beast_transport_error lib where' ec), w\<lparr>cw_world := w'\<rparr>))"

text \<open>Writing the request and reading the response; the write is logged.\<close>

definition write_read ::
  "'w http_lib \<Rightarrow> send_request \<Rightarrow> (raw_response \<Rightarrow> 'w client_world \<Rightarrow> (http_error + 'a) \<times> 'w client_world)
     \<Rightarrow> 'w client_world \<Rightarrow> (http_error + 'a) \<times> 'w client_world" where
  "write_read lib sr k w =
     net_call lib ''http write'' (hl_write lib sr)
       (\<lambda>w. case hl_read lib (cw_world w) of
              ((ec, res), w') \<Rightarrow>
                if ec = Net_ok then k res (w\<lparr>cw_world := w'\<rparr>)
                else (Inl (throw_beast_transport_error lib ''http read'' ec), w\<lparr>cw_world := w'\<rparr>))
       (w\<lparr>cw_sent := cw_sent w @ [sr]\<rparr>)"

definition transmit ::
  "'w http_lib \<Rightarrow> exec_request \<Rightarrow> send_request \<Rightarrow> 'w client_world \<Rightarrow> (http_error + raw_response) \<times> 'w client_world" where
  "transmit lib rq sr =
     net_call lib ''dns resolve'' (hl_dns lib (sr_connect sr))
       (\<lambda>w. if sr_tls sr then
              (if \<not> hl_sni lib (cu_host (sr_url sr)) then (Inl (connect_error ''tls sni setup failed'' TK_tls), w)
               else net_call lib ''tcp connect'' (hl_connect lib (sr_connect sr) (xr_connect_timeout rq))
                      (net_call lib ''tls handshake'' (hl_handshake lib (cu_host (sr_url sr)) (sr_verify_peer sr))
                        (write_read lib sr
                          (\<lambda>res w. case hl_shutdown lib (cw_world w) of
                             (ec, w') \<Rightarrow>
                               if ec \<notin> {Net_ok, Net_not_connected, Net_eof} then
                                 (Inl (throw_beast_transport_error lib ''tls shutdown'' ec), w\<lparr>cw_world := w'\<rparr>)
                               else (Inr res, w\<lparr>cw_world := w'\<rparr>)))) w)
            else net_call lib ''tcp connect'' (hl_connect lib (sr_connect sr) (xr_connect_timeout rq))
                   (write_read lib sr (\<lambda>res w. (Inr res, w\<lparr>cw_world := snd (hl_shutdown lib (cw_world w))\<rparr>))) w)"

definition absorb_cookies :: "headers \<Rightarrow> client_url \<Rightarrow> cookie_entry list \<Rightarrow> cookie_entry list" where
  "absorb_cookies hs url cookies =
     foldl (\<lambda>cs h. if \<not> equals_ci (h_name h) ''Set-Cookie'' then cs
                   else case parse_set_cookie (h_value h) url of None \<Rightarrow> cs | Some c \<Rightarrow> upsert_cookie cs c) cookies hs"

text \<open>What follows a response: the callback, the cookie jar, and the decision to stop, to fail or to go on.\<close>

datatype next_step = Step_return client_response | Step_fail http_error | Step_redirect client_response string

definition deliver_response ::
  "exec_request \<Rightarrow> exec_state \<Rightarrow> client_url \<Rightarrow> raw_response \<Rightarrow> 'w client_world \<Rightarrow> client_response \<times> exec_state \<times> 'w client_world" where
  "deliver_response rq st url res w =
     (let response = \<lparr>cr_status_code = raw_status res, cr_effective_url = xs_url st, cr_headers = raw_fields res,
            cr_body = (if xr_aggregate_body rq then raw_body res else [])\<rparr>;
          w1 = (if xr_on_chunk rq \<and> raw_body res \<noteq> [] then w\<lparr>cw_chunks := cw_chunks w @ [raw_body res]\<rparr> else w) in
      if xr_jar_enabled rq then
        let cookies = absorb_cookies (raw_fields res) url (xs_cookies st) in
        (response, st\<lparr>xs_cookies := cookies\<rparr>,
         (case xr_jar_file rq of None \<Rightarrow> w1 | Some f \<Rightarrow> w1\<lparr>cw_files := save_cookie_jar_file f cookies (cw_files w1)\<rparr>))
      else (response, st, w1))"

definition decide_redirect :: "'w http_lib \<Rightarrow> exec_request \<Rightarrow> bool \<Rightarrow> exec_state \<Rightarrow> client_response \<Rightarrow> next_step" where
  "decide_redirect lib rq last_pass st response =
     (if \<not> xr_follow_redirects rq \<or> \<not> is_redirect_status (cr_status_code response) then Step_return response
      else case find_header_value (cr_headers response) ''Location'' of
             None \<Rightarrow> Step_return response
           | Some location \<Rightarrow>
               if location = [] then Step_return response
               else if last_pass then Step_fail (http_error_simple ''too many redirects'' HE_curl_failure)
               else case resolve_redirect_url lib (xs_url st) location of
                      None \<Rightarrow> Step_return response
                    | Some url \<Rightarrow> Step_redirect response url)"

definition follow_redirect :: "client_response \<Rightarrow> string \<Rightarrow> exec_state \<Rightarrow> exec_state" where
  "follow_redirect response url st =
     (if should_switch_to_get_on_redirect (cr_status_code response) (xs_method st) then
        st\<lparr>xs_url := url, xs_method := ''GET'', xs_body := [],
           xs_headers := erase_header ''Content-Type'' (erase_header ''Content-Length'' (xs_headers st))\<rparr>
      else st\<lparr>xs_url := url\<rparr>)"

text \<open>The redirect loop, with the number of redirects that are left.\<close>

fun exec_loop ::
  "'w http_lib \<Rightarrow> exec_request \<Rightarrow> nat \<Rightarrow> exec_state \<Rightarrow> 'w client_world \<Rightarrow> (http_error + client_response) \<times> 'w client_world" where
  "exec_loop lib rq left st w =
     (case prepare_request lib rq st of
        Inl e \<Rightarrow> (Inl e, w)
      | Inr sr \<Rightarrow>
          (case transmit lib rq sr w of
             (Inl e, w1) \<Rightarrow> (Inl e, w1)
           | (Inr res, w1) \<Rightarrow>
               (case deliver_response rq st (sr_url sr) res w1 of
                  (response, st1, w2) \<Rightarrow>
                    (case decide_redirect lib rq (left = 0) st1 response of
                       Step_return r \<Rightarrow> (Inr r, w2)
                     | Step_fail e \<Rightarrow> (Inl e, w2)
                     | Step_redirect r url \<Rightarrow>
                         (case left of
                            0 \<Rightarrow> (Inl (http_error_simple ''too many redirects'' HE_curl_failure), w2)
                          | Suc left' \<Rightarrow> exec_loop lib rq left' (follow_redirect r url st1) w2)))))"

declare exec_loop.simps [simp del]

definition max_redirects :: nat where
  "max_redirects = 8"

definition execute_with_beast_blocking ::
  "'w http_lib \<Rightarrow> exec_request \<Rightarrow> exec_state \<Rightarrow> 'w client_world \<Rightarrow> (http_error + client_response) \<times> 'w client_world" where
  "execute_with_beast_blocking lib rq st w =
     exec_loop lib rq max_redirects
       (st\<lparr>xs_cookies := (case xr_jar_file rq of
              Some f \<Rightarrow> if xr_jar_enabled rq then load_cookie_jar_file (cw_files w) f else []
            | None \<Rightarrow> [])\<rparr>) w"

section \<open>Retries\<close>

record retry_policy =
  rp_enabled :: bool
  rp_max_attempts :: int
  rp_retry_idempotent_only :: bool
  rp_base_backoff :: int
  rp_max_backoff :: int
  rp_retry_on_http_5xx :: bool

definition is_idempotent_method :: "string \<Rightarrow> bool" where
  "is_idempotent_method m \<longleftrightarrow> m \<in> {''GET'', ''HEAD'', ''PUT'', ''DELETE'', ''OPTIONS''}"

definition should_retry_error :: "retry_policy \<Rightarrow> http_error \<Rightarrow> string \<Rightarrow> int \<Rightarrow> bool" where
  "should_retry_error policy error m attempt_index =
     (if \<not> rp_enabled policy \<or> attempt_index > rp_max_attempts policy then False
      else if rp_retry_idempotent_only policy \<and> \<not> is_idempotent_method m then False
      else if he_code error = HE_http_status_failure then
        rp_retry_on_http_5xx policy \<and> 500 \<le> he_status error \<and> he_status error \<le> 599
      else if he_code error = HE_curl_failure then
        he_kind error \<in> {TK_timeout, TK_dns, TK_connect, TK_recv, TK_send, TK_reset}
      else False)"

text \<open>The loop that doubles the factor, from \<open>i\<close> on.\<close>

function backoff_factor :: "nat \<Rightarrow> int \<Rightarrow> int \<Rightarrow> nat" where
  "backoff_factor factor i attempt_index =
     (if i < attempt_index then
        (if factor * 2 > 2 ^ 20 then factor * 2 else backoff_factor (factor * 2) (i + 1) attempt_index)
      else factor)"
  by pat_completeness auto
termination
  by (relation "measure (\<lambda>(f, i, k). nat (k - i))") auto

declare backoff_factor.simps [simp del]

definition retry_backoff :: "retry_policy \<Rightarrow> int \<Rightarrow> int" where
  "retry_backoff policy attempt_index =
     (let value = rp_base_backoff policy * int (backoff_factor 1 1 attempt_index) in
      if value > rp_max_backoff policy then rp_max_backoff policy else value)"

text \<open>The attempts of \<open>Client::execute\<close>: \<open>act\<close> is one call of \<open>execute_async\<close>. The result lists the pauses made.\<close>

function attempt_loop ::
  "retry_policy \<Rightarrow> string \<Rightarrow> ('s \<Rightarrow> (http_error + 'a) \<times> 's) \<Rightarrow> int \<Rightarrow> http_error option \<Rightarrow> 's
     \<Rightarrow> (http_error + 'a) \<times> int list \<times> 's" where
  "attempt_loop policy m act attempt last_error s =
     (if attempt \<le> max 1 (rp_max_attempts policy) then
        (case act s of
           (Inr r, s') \<Rightarrow> (Inr r, [], s')
         | (Inl error, s') \<Rightarrow>
             if \<not> should_retry_error policy error m (attempt + 1) then (Inl error, [], s')
             else case attempt_loop policy m act (attempt + 1) (Some error) s' of
                    (r, pauses, s'') \<Rightarrow> (r, retry_backoff policy attempt # pauses, s''))
      else (Inl (case last_error of Some e \<Rightarrow> e | None \<Rightarrow> invalid_request ''request not executed''), [], s))"
  by pat_completeness auto
termination
  by (relation "measure (\<lambda>(policy, m, act, attempt, e, s). nat (max 1 (rp_max_attempts policy) + 1 - attempt))") auto

declare attempt_loop.simps [simp del]

section \<open>Requests\<close>

record multipart_part =
  mp_name :: string
  mp_value :: string
  mp_file_path :: "string option"
  mp_file_name :: "string option"
  mp_content_type :: "string option"

record client_request =
  cq_method :: string
  cq_url :: string
  cq_query_items :: "(string \<times> string) list"
  cq_headers :: headers
  cq_body :: string
  cq_multipart_parts :: "multipart_part list"
  cq_user_agent :: "string option"
  cq_request_format :: "request_format option"
  cq_response_format :: "response_format option"
  cq_timeout :: "int option"
  cq_connect_timeout :: "int option"
  cq_follow_redirects :: "bool option"
  cq_retry :: "retry_policy option"
  cq_proxy :: "string option"
  cq_aggregate_body :: "bool option"
  cq_on_chunk :: bool

definition new_request :: "string \<Rightarrow> string \<Rightarrow> client_request" where
  "new_request m url = \<lparr>cq_method = m, cq_url = url, cq_query_items = [], cq_headers = [], cq_body = [],
     cq_multipart_parts = [], cq_user_agent = None, cq_request_format = None, cq_response_format = None,
     cq_timeout = None, cq_connect_timeout = None, cq_follow_redirects = None, cq_retry = None, cq_proxy = None,
     cq_aggregate_body = None, cq_on_chunk = False\<rparr>"

text \<open>An interceptor may be a null pointer.\<close>

record 'w interceptor =
  ic_on_request :: "client_request \<Rightarrow> 'w \<Rightarrow> client_request \<times> 'w"
  ic_on_response :: "client_request \<Rightarrow> client_response \<Rightarrow> 'w \<Rightarrow> client_response \<times> 'w"
  ic_on_error :: "client_request \<Rightarrow> http_error \<Rightarrow> 'w \<Rightarrow> 'w"

record 'w client_config =
  cc_default_headers :: headers
  cc_user_agent :: string
  cc_timeout :: int
  cc_connect_timeout :: int
  cc_follow_redirects :: bool
  cc_throw_on_http_error :: bool
  cc_interceptors :: "'w client_world interceptor option list"
  cc_retry :: retry_policy
  cc_proxy :: "string option"
  cc_jar_enabled :: bool
  cc_jar_file :: "string option"
  cc_aggregate_body :: bool
  cc_on_chunk :: bool

definition apply_request_interceptors :: "'w client_config \<Rightarrow> client_request \<Rightarrow> 'w client_world \<Rightarrow> client_request \<times> 'w client_world" where
  "apply_request_interceptors cfg rq w =
     foldl (\<lambda>(rq, w) i. case i of None \<Rightarrow> (rq, w) | Some i \<Rightarrow> ic_on_request i rq w) (rq, w) (cc_interceptors cfg)"

definition apply_response_interceptors ::
  "'w client_config \<Rightarrow> client_request \<Rightarrow> client_response \<Rightarrow> 'w client_world \<Rightarrow> client_response \<times> 'w client_world" where
  "apply_response_interceptors cfg rq r w =
     foldl (\<lambda>(r, w) i. case i of None \<Rightarrow> (r, w) | Some i \<Rightarrow> ic_on_response i rq r w) (r, w) (cc_interceptors cfg)"

definition notify_error_interceptors :: "'w client_config \<Rightarrow> client_request \<Rightarrow> http_error \<Rightarrow> 'w client_world \<Rightarrow> 'w client_world" where
  "notify_error_interceptors cfg rq e w =
     foldl (\<lambda>w i. case i of None \<Rightarrow> w | Some i \<Rightarrow> ic_on_error i rq e w) w (cc_interceptors cfg)"

definition random_multipart_boundary :: "nat \<times> nat \<Rightarrow> string" where
  "random_multipart_boundary r = ''flux-boundary-'' @ hex_of_nat (fst r) @ hex_of_nat (snd r)"

definition quote_multipart_token :: "string \<Rightarrow> string" where
  "quote_multipart_token value =
     concat (map (\<lambda>c. if c = CHR 0x22 \<or> c = CHR 0x5C then [CHR 0x5C, c] else [c]) value)"

definition read_file_binary :: "(string \<rightharpoonup> string) \<Rightarrow> string \<Rightarrow> http_error + string" where
  "read_file_binary files path =
     (case files path of
        None \<Rightarrow> Inl (invalid_request (''multipart file open failed: '' @ path))
      | Some data \<Rightarrow> Inr data)"

definition part_head :: "string \<Rightarrow> multipart_part \<Rightarrow> string" where
  "part_head boundary part =
     ''--'' @ boundary @ CRLF @ ''Content-Disposition: form-data; name='' @ [CHR 0x22]
     @ quote_multipart_token (mp_name part) @ [CHR 0x22]
     @ (case mp_file_name part of
          None \<Rightarrow> []
        | Some f \<Rightarrow> ''; filename='' @ [CHR 0x22] @ quote_multipart_token f @ [CHR 0x22]) @ CRLF
     @ (case mp_content_type part of None \<Rightarrow> [] | Some t \<Rightarrow> ''Content-Type: '' @ t @ CRLF) @ CRLF"

fun build_multipart_body :: "(string \<rightharpoonup> string) \<Rightarrow> multipart_part list \<Rightarrow> string \<Rightarrow> http_error + string" where
  "build_multipart_body files [] boundary = Inr (''--'' @ boundary @ ''--'' @ CRLF)"
| "build_multipart_body files (part # parts) boundary =
     (case (case mp_file_path part of Some f \<Rightarrow> read_file_binary files f | None \<Rightarrow> Inr (mp_value part)) of
        Inl e \<Rightarrow> Inl e
      | Inr data \<Rightarrow>
          map_sum id (\<lambda>rest. part_head boundary part @ data @ CRLF @ rest) (build_multipart_body files parts boundary))"

fun encode_query :: "'w http_lib \<Rightarrow> (string \<times> string) list \<Rightarrow> string" where
  "encode_query lib [] = []"
| "encode_query lib [(k, v)] = hl_encode lib k @ CHR ''='' # hl_encode lib v"
| "encode_query lib ((k, v) # kv # kvs) = hl_encode lib k @ CHR ''='' # hl_encode lib v @ CHR ''&'' # encode_query lib (kv # kvs)"

definition build_url_with_query :: "'w http_lib \<Rightarrow> string \<Rightarrow> (string \<times> string) list \<Rightarrow> string" where
  "build_url_with_query lib base_url query_items =
     (if query_items = [] then base_url
      else case hl_append_params lib base_url query_items of
             Some url \<Rightarrow> url
           | None \<Rightarrow> base_url @ [if CHR ''?'' \<in> set base_url then CHR ''&'' else CHR ''?''] @ encode_query lib query_items)"

definition proxy_from_env_for_url :: "'w http_lib \<Rightarrow> string \<Rightarrow> string option" where
  "proxy_from_env_for_url lib url =
     (let is_https = prefix ''https://'' url;
          usable = (\<lambda>name. case hl_getenv lib name of None \<Rightarrow> None | Some v \<Rightarrow> if v = [] then None else Some v) in
      case usable (if is_https then ''HTTPS_PROXY'' else ''HTTP_PROXY'') of
        Some v \<Rightarrow> Some v
      | None \<Rightarrow>
          (case usable (if is_https then ''https_proxy'' else ''http_proxy'') of
             Some v \<Rightarrow> Some v
           | None \<Rightarrow> (case usable ''ALL_PROXY'' of Some v \<Rightarrow> Some v | None \<Rightarrow> usable ''all_proxy'')))"

definition opt_or :: "'a option \<Rightarrow> 'a \<Rightarrow> 'a" where
  "opt_or x d = (case x of Some v \<Rightarrow> v | None \<Rightarrow> d)"

text \<open>The checks of \<open>execute_async\<close> on the body, after the interceptors.\<close>

definition effective_request_format :: "client_request \<Rightarrow> request_format" where
  "effective_request_format rq =
     opt_or (cq_request_format rq) (if cq_multipart_parts rq \<noteq> [] then QF_multipart else QF_text)"

definition check_payload :: "client_request \<Rightarrow> http_error option" where
  "check_payload rq =
     (let parts = cq_multipart_parts rq; fmt = effective_request_format rq; m = to_upper (cq_method rq) in
      if parts \<noteq> [] \<and> cq_body rq \<noteq> [] then Some (invalid_request ''request body conflicts with multipart payload'')
      else if fmt = QF_multipart \<and> parts = [] then
        Some (invalid_request ''request_format is multipart but no multipart part is provided'')
      else if fmt \<noteq> QF_multipart \<and> parts \<noteq> [] then
        Some (invalid_request ''multipart payload requires request_format multipart'')
      else if parts \<noteq> [] \<and> m \<noteq> ''POST'' \<and> m \<noteq> ''PUT'' then
        Some (invalid_request ''multipart form-data requires POST or PUT'')
      else None)"

definition request_headers :: "'w client_config \<Rightarrow> client_request \<Rightarrow> headers" where
  "request_headers cfg rq =
     (let hs = cc_default_headers cfg @ cq_headers rq in
      case content_type_for_request_format (effective_request_format rq) of
        Some t \<Rightarrow> set_header_if_absent ''Content-Type'' t hs
      | None \<Rightarrow> hs)"

text \<open>The body and the headers that go with it; a multipart body takes two random numbers.\<close>

definition request_payload ::
  "'w http_lib \<Rightarrow> 'w client_config \<Rightarrow> client_request \<Rightarrow> 'w client_world \<Rightarrow> (http_error + string \<times> headers) \<times> 'w client_world" where
  "request_payload lib cfg rq w =
     (if cq_multipart_parts rq = [] then (Inr (cq_body rq, request_headers cfg rq), w)
      else case hl_random lib (cw_world w) of
             (r, w') \<Rightarrow>
               let boundary = random_multipart_boundary r in
               (map_sum id (\<lambda>body. (body, set_or_replace_header ''Content-Type''
                    (''multipart/form-data; boundary='' @ boundary) (request_headers cfg rq)))
                  (build_multipart_body (cw_files w) (cq_multipart_parts rq) boundary), w\<lparr>cw_world := w'\<rparr>))"

definition make_exec_request :: "'w http_lib \<Rightarrow> 'w client_config \<Rightarrow> client_request \<Rightarrow> string \<Rightarrow> exec_request" where
  "make_exec_request lib cfg rq url =
     \<lparr>xr_proxy = (case cq_proxy rq of Some p \<Rightarrow> Some p
        | None \<Rightarrow> (case cc_proxy cfg of Some p \<Rightarrow> Some p | None \<Rightarrow> proxy_from_env_for_url lib url)),
      xr_jar_enabled = cc_jar_enabled cfg, xr_jar_file = cc_jar_file cfg,
      xr_user_agent = opt_or (cq_user_agent rq) (cc_user_agent cfg), xr_timeout = opt_or (cq_timeout rq) (cc_timeout cfg),
      xr_connect_timeout = opt_or (cq_connect_timeout rq) (cc_connect_timeout cfg),
      xr_follow_redirects = opt_or (cq_follow_redirects rq) (cc_follow_redirects cfg),
      xr_aggregate_body = opt_or (cq_aggregate_body rq) (cc_aggregate_body cfg),
      xr_on_chunk = (cq_on_chunk rq \<or> cc_on_chunk cfg)\<rparr>"

text \<open>\<open>execute_async\<close> inside its \<open>try\<close>: what it returns or throws, and the request as it was then.\<close>

definition execute_body ::
  "'w http_lib \<Rightarrow> 'w client_config \<Rightarrow> client_request \<Rightarrow> 'w client_world
     \<Rightarrow> (http_error + client_response) \<times> client_request \<times> 'w client_world" where
  "execute_body lib cfg rq0 w0 =
     (if cq_url rq0 = [] then (Inl (invalid_request ''request url is empty''), rq0, w0)
      else
        let rq1 = (if cq_method rq0 = [] then rq0\<lparr>cq_method := ''GET''\<rparr> else rq0);
            (rq, w) = apply_request_interceptors cfg rq1 w0 in
        case check_payload rq of
          Some e \<Rightarrow> (Inl e, rq, w)
        | None \<Rightarrow>
            (case request_payload lib cfg rq w of
               (Inl e, w1) \<Rightarrow> (Inl e, rq, w1)
             | (Inr (body, hs), w1) \<Rightarrow>
                 let url = build_url_with_query lib (cq_url rq) (cq_query_items rq) in
                 (case execute_with_beast_blocking lib (make_exec_request lib cfg rq url)
                         \<lparr>xs_url = url, xs_method = to_upper (cq_method rq), xs_body = body, xs_headers = hs, xs_cookies = []\<rparr> w1 of
                    (Inl e, w2) \<Rightarrow> (Inl e, rq, w2)
                  | (Inr r0, w2) \<Rightarrow>
                      let (r, w3) = apply_response_interceptors cfg rq r0 w2 in
                      if cc_throw_on_http_error cfg \<and> \<not> response_ok r then
                        (Inl \<lparr>he_message = ''http status is not success: '' @ dec_of_int (cr_status_code r),
                           he_code = HE_http_status_failure, he_transport_code = 0, he_status = cr_status_code r,
                           he_kind = TK_none\<rparr>, rq, w3)
                      else (Inr r, rq, w3))))"

definition execute_async ::
  "'w http_lib \<Rightarrow> 'w client_config \<Rightarrow> client_request \<Rightarrow> 'w client_world \<Rightarrow> (http_error + client_response) \<times> 'w client_world" where
  "execute_async lib cfg rq w =
     (case execute_body lib cfg rq w of
        (Inl e, rq', w') \<Rightarrow> (Inl e, notify_error_interceptors cfg rq' e w')
      | (Inr r, rq', w') \<Rightarrow> (Inr r, w'))"

definition client_execute ::
  "'w http_lib \<Rightarrow> 'w client_config \<Rightarrow> client_request \<Rightarrow> 'w client_world
     \<Rightarrow> (http_error + client_response) \<times> int list \<times> 'w client_world" where
  "client_execute lib cfg rq w =
     attempt_loop (opt_or (cq_retry rq) (cc_retry cfg)) (to_upper (if cq_method rq = [] then ''GET'' else cq_method rq))
       (execute_async lib cfg rq) 1 None w"

section \<open>Building requests\<close>

text \<open>The operations of \<open>RequestBuilder\<close> that do more than set one field.\<close>

definition builder_json :: "string \<Rightarrow> client_request \<Rightarrow> client_request" where
  "builder_json value rq = rq\<lparr>cq_body := value, cq_request_format := Some QF_json, cq_response_format := Some RF_json,
     cq_headers := set_header_if_absent ''Accept'' ''application/json''
       (set_header_if_absent ''Content-Type'' ''application/json'' (cq_headers rq))\<rparr>"

definition builder_xml :: "string \<Rightarrow> client_request \<Rightarrow> client_request" where
  "builder_xml value rq = rq\<lparr>cq_body := value, cq_request_format := Some QF_xml, cq_response_format := Some RF_xml,
     cq_headers := set_header_if_absent ''Accept'' ''application/xml''
       (set_header_if_absent ''Content-Type'' ''application/xml'' (cq_headers rq))\<rparr>"

definition builder_form_urlencoded :: "string \<Rightarrow> client_request \<Rightarrow> client_request" where
  "builder_form_urlencoded value rq = rq\<lparr>cq_body := value, cq_request_format := Some QF_form, cq_response_format := Some RF_form,
     cq_headers := set_header_if_absent ''Accept'' ''application/x-www-form-urlencoded''
       (set_header_if_absent ''Content-Type'' ''application/x-www-form-urlencoded'' (cq_headers rq))\<rparr>"

definition builder_body :: "string \<Rightarrow> client_request \<Rightarrow> client_request" where
  "builder_body value rq = rq\<lparr>cq_body := value, cq_request_format := Some QF_text\<rparr>"

definition builder_multipart :: "multipart_part list \<Rightarrow> client_request \<Rightarrow> client_request" where
  "builder_multipart parts rq = rq\<lparr>cq_multipart_parts := cq_multipart_parts rq @ parts, cq_request_format := Some QF_multipart,
     cq_response_format := Some RF_json, cq_headers := set_header_if_absent ''Accept'' ''application/json'' (cq_headers rq)\<rparr>"

definition builder_form_data :: "string \<Rightarrow> string \<Rightarrow> client_request \<Rightarrow> client_request" where
  "builder_form_data name value = builder_multipart
     [\<lparr>mp_name = name, mp_value = value, mp_file_path = None, mp_file_name = None, mp_content_type = None\<rparr>]"

definition builder_form_file :: "string \<Rightarrow> string \<Rightarrow> string option \<Rightarrow> string option \<Rightarrow> client_request \<Rightarrow> client_request" where
  "builder_form_file name path file_name ctype = builder_multipart
     [\<lparr>mp_name = name, mp_value = [], mp_file_path = Some path, mp_file_name = file_name, mp_content_type = ctype\<rparr>]"

definition builder_form_binary :: "string \<Rightarrow> string \<Rightarrow> string option \<Rightarrow> string option \<Rightarrow> client_request \<Rightarrow> client_request" where
  "builder_form_binary name data file_name ctype = builder_multipart
     [\<lparr>mp_name = name, mp_value = data, mp_file_path = None, mp_file_name = file_name,
       mp_content_type = Some (opt_or ctype ''application/octet-stream'')\<rparr>]"

definition builder_response_format :: "response_format \<Rightarrow> client_request \<Rightarrow> client_request" where
  "builder_response_format fmt rq = rq\<lparr>cq_response_format := Some fmt,
     cq_headers := set_header_if_absent ''Accept'' (accept_value_for_format fmt) (cq_headers rq)\<rparr>"

definition builder_request_format :: "request_format \<Rightarrow> client_request \<Rightarrow> client_request" where
  "builder_request_format fmt rq = rq\<lparr>cq_request_format := Some fmt,
     cq_headers := (case content_type_for_request_format fmt of
        Some t \<Rightarrow> set_header_if_absent ''Content-Type'' t (cq_headers rq) | None \<Rightarrow> cq_headers rq)\<rparr>"

definition builder_send :: "client_request \<Rightarrow> client_request" where
  "builder_send rq = rq\<lparr>cq_headers := set_header_if_absent ''Accept''
     (accept_value_for_format (opt_or (cq_response_format rq) RF_json)) (cq_headers rq)\<rparr>"

section \<open>Downloads\<close>

record download_options =
  do_resume :: bool
  do_use_temp_file :: bool
  do_overwrite :: bool
  do_temp_path :: "string option"

record download_result =
  dr_output_path :: string
  dr_size :: nat
  dr_resumed :: bool
  dr_status_code :: int

datatype download_error = DL_http http_error | DL_file_system

definition output_parent :: "string \<Rightarrow> string" where
  "output_parent path = (case find_last CHR ''/'' path of None \<Rightarrow> [] | Some i \<Rightarrow> take (max 1 i) path)"

definition output_filename :: "string \<Rightarrow> string" where
  "output_filename path = (case find_last CHR ''/'' path of None \<Rightarrow> path | Some i \<Rightarrow> drop (Suc i) path)"

definition download_temp_path :: "download_options \<Rightarrow> string \<Rightarrow> string" where
  "download_temp_path opts output =
     (if \<not> do_use_temp_file opts then output
      else case do_temp_path opts of
             Some t \<Rightarrow> t
           | None \<Rightarrow>
               let base = output_parent output; name = output_filename output @ ''.part'' in
               if base = [] then name else if last base = CHR ''/'' then base @ name else base @ CHR ''/'' # name)"

definition download_request :: "string \<Rightarrow> nat \<Rightarrow> client_request" where
  "download_request url offset =
     (let rq = (builder_response_format RF_text (new_request ''GET'' url))
            \<lparr>cq_on_chunk := True, cq_aggregate_body := Some False, cq_follow_redirects := Some True\<rparr> in
      builder_send (if offset > 0 then rq\<lparr>cq_headers := cq_headers rq @ [mk_header ''Range'' (''bytes='' @ dec_of_nat offset @ ''-'')]\<rparr> else rq))"

text \<open>\<open>run_once\<close>: fetch, then write what the callback received, appended or from the start.\<close>

definition download_run_once ::
  "'w http_lib \<Rightarrow> 'w client_config \<Rightarrow> string \<Rightarrow> string \<Rightarrow> nat \<Rightarrow> bool \<Rightarrow> 'w client_world
     \<Rightarrow> (download_error + client_response) \<times> 'w client_world" where
  "download_run_once lib cfg url temp offset append_mode w =
     (case client_execute lib cfg (download_request url offset) w of
        (Inl e, _, w') \<Rightarrow> (Inl (DL_http e), w')
      | (Inr r, _, w') \<Rightarrow>
          let streamed = concat (drop (length (cw_chunks w)) (cw_chunks w'));
              old = (if append_mode then opt_or (cw_files w' temp) [] else []) in
          (Inr r, w'\<lparr>cw_files := (cw_files w')(temp \<mapsto> old @ streamed)\<rparr>))"

definition download_finish ::
  "string \<Rightarrow> string \<Rightarrow> download_options \<Rightarrow> bool \<Rightarrow> client_response \<Rightarrow> 'w client_world
     \<Rightarrow> (download_error + download_result) \<times> 'w client_world" where
  "download_finish temp output opts resumed r w =
     (let result = (\<lambda>w. \<lparr>dr_output_path = output, dr_size = (case cw_files w output of Some c \<Rightarrow> length c | None \<Rightarrow> 0),
            dr_resumed = resumed, dr_status_code = cr_status_code r\<rparr>) in
      if \<not> do_use_temp_file opts then (Inr (result w), w)
      else if cw_files w output \<noteq> None \<and> \<not> do_overwrite opts then
        (Inl (DL_http (invalid_request ''output file exists and overwrite is disabled'')), w)
      else
        let w1 = w\<lparr>cw_files := (cw_files w)(output := None)\<rparr> in
        case cw_files w1 temp of
          None \<Rightarrow> (Inl DL_file_system, w1)
        | Some c \<Rightarrow>
            let w2 = w1\<lparr>cw_files := (cw_files w1)(temp := None, output \<mapsto> c)\<rparr> in (Inr (result w2), w2))"

definition download_to_file ::
  "'w http_lib \<Rightarrow> 'w client_config \<Rightarrow> string \<Rightarrow> string \<Rightarrow> download_options \<Rightarrow> 'w client_world
     \<Rightarrow> (download_error + download_result) \<times> 'w client_world" where
  "download_to_file lib cfg url output opts w =
     (if url = [] \<or> output = [] then (Inl (DL_http (invalid_request ''download url or output path is empty'')), w)
      else
        let temp = download_temp_path opts output;
            offset = (if do_resume opts then (case cw_files w temp of Some c \<Rightarrow> length c | None \<Rightarrow> 0) else 0) in
        case download_run_once lib cfg url temp offset (offset > 0) w of
          (Inl e, w1) \<Rightarrow> (Inl e, w1)
        | (Inr r, w1) \<Rightarrow>
            if offset > 0 \<and> cr_status_code r = 200 then
              (case download_run_once lib cfg url temp 0 False w1 of
                 (Inl e, w2) \<Rightarrow> (Inl e, w2)
               | (Inr r', w2) \<Rightarrow> download_finish temp output opts False r' w2)
            else download_finish temp output opts (offset > 0 \<and> cr_status_code r = 206) r w1)"

section \<open>What goes out\<close>

lemma net_call_sent:
  "net_call lib where' call k w = (r, w') \<Longrightarrow>
     (cw_sent w' = cw_sent w \<and> cw_chunks w' = cw_chunks w \<and> cw_files w' = cw_files w \<and> (\<exists>e. r = Inl e))
     \<or> (\<exists>u. k (w\<lparr>cw_world := u\<rparr>) = (r, w'))"
  by (auto simp: net_call_def split: prod.splits if_splits)

text \<open>One exchange writes its request at most once and touches neither files nor chunks.\<close>

lemma transmit_sent:
  assumes "transmit lib rq sr w = (r, w')"
  shows "(cw_sent w' = cw_sent w \<or> cw_sent w' = cw_sent w @ [sr]) \<and> cw_chunks w' = cw_chunks w \<and> cw_files w' = cw_files w"
  using assms unfolding transmit_def write_read_def net_call_def
  by (auto split: prod.splits if_splits)

lemma deliver_sent:
  "deliver_response rq st url res w = (response, st', w') \<Longrightarrow>
     cw_sent w' = cw_sent w \<and> xs_url st' = xs_url st \<and> xs_headers st' = xs_headers st \<and> xs_method st' = xs_method st"
  by (auto simp: deliver_response_def Let_def split: if_splits option.splits)

definition is_cookie_field :: "http_header \<Rightarrow> bool" where
  "is_cookie_field h \<longleftrightarrow> equals_ci (h_name h) ''Cookie''"

text \<open>The cookie fields of a request are those of some jar, for its own URL; TLS goes with the scheme.\<close>

definition cookie_fields_ok :: "send_request \<Rightarrow> bool" where
  "cookie_fields_ok sr \<longleftrightarrow> (\<exists>jar. let applying = filter (cookie_applies (sr_url sr)) jar in
      filter is_cookie_field (sr_fields sr) =
        (if applying = [] then [] else [mk_header ''Cookie'' (join_semicolon (map cookie_pair applying))])
      \<and> (\<forall>c \<in> set applying. ck_secure c \<longrightarrow> sr_tls sr))"

lemma cookie_header_empty: "build_cookie_header jar url = [] \<longleftrightarrow> filter (cookie_applies url) jar = []"
proof -
  have "join_semicolon (map cookie_pair cs) = [] \<longleftrightarrow> cs = []" for cs
    by (cases cs) (auto simp: join_semicolon_Cons cookie_pair_def)
  then show ?thesis by (simp add: build_cookie_header_def cookie_header_loop_spec Let_def)
qed

lemma prepare_request_parts:
  assumes "prepare_request lib rq st = Inr sr"
  shows "\<exists>url. hl_parse_uri lib (xs_url st) = Some url \<and> sr_url sr = url \<and> sr_tls sr = equals_ci (cu_scheme url) ''https''
    \<and> sr_fields sr = request_fields rq url st \<and> sr_method sr = xs_method st \<and> sr_body sr = xs_body st"
  using assms by (auto simp: prepare_request_def Let_def split: option.splits if_splits)

lemma prepare_cookies:
  assumes "prepare_request lib rq st = Inr sr" and "xr_jar_enabled rq"
  shows "cookie_fields_ok sr"
proof -
  obtain url where sr: "sr_url sr = url" "sr_tls sr = equals_ci (cu_scheme url) ''https''" "sr_fields sr = request_fields rq url st"
    using prepare_request_parts [OF assms(1)] by blast
  let ?app = "filter (cookie_applies url) (xs_cookies st)"
  have "filter is_cookie_field (erase_header ''Cookie'' hs) = []" for hs
    by (simp add: erase_header_def is_cookie_field_def filter_empty_conv)
  moreover have "is_cookie_field (mk_header ''Cookie'' v)" for v by (simp add: is_cookie_field_def equals_ci_lower)
  ultimately have "filter is_cookie_field (sending_headers rq url st) =
      (if ?app = [] then [] else [mk_header ''Cookie'' (join_semicolon (map cookie_pair ?app))])"
    using assms(2) cookie_header_empty [of "xs_cookies st" url]
    by (auto simp: sending_headers_def Let_def build_cookie_header_def cookie_header_loop_spec)
  moreover have "\<not> is_cookie_field (mk_header ''Host'' v)" "\<not> is_cookie_field (mk_header ''User-Agent'' v)" for v
    by (simp_all add: is_cookie_field_def equals_ci_def)
  ultimately have "filter is_cookie_field (sr_fields sr) =
      (if ?app = [] then [] else [mk_header ''Cookie'' (join_semicolon (map cookie_pair ?app))])"
    by (simp add: sr(3) request_fields_def Let_def)
  moreover have "to_lower ''https'' = ''https''" by code_simp
  then have "\<forall>c \<in> set ?app. ck_secure c \<longrightarrow> sr_tls sr" by (simp add: sr(2) cookie_applies_def equals_ci_lower)
  ultimately show ?thesis using sr(1) unfolding cookie_fields_ok_def Let_def by (intro exI [of _ "xs_cookies st"]) simp
qed

lemma exec_loop_sent:
  assumes "exec_loop lib rq left st w = (r, w')"
  shows "\<exists>new. cw_sent w' = cw_sent w @ new \<and> length new \<le> Suc left \<and> (xr_jar_enabled rq \<longrightarrow> (\<forall>sr \<in> set new. cookie_fields_ok sr))"
  using assms
proof (induction lib rq left st w arbitrary: r w' rule: exec_loop.induct)
  case (1 lib rq left st w)
  show ?case
  proof (cases "prepare_request lib rq st")
    case (Inl e)
    with "1.prems" show ?thesis by (auto simp: exec_loop.simps)
  next
    case sr: (Inr sr)
    obtain x w1 where t: "transmit lib rq sr w = (x, w1)" by fastforce
    from transmit_sent [OF t] obtain new where new: "cw_sent w1 = cw_sent w @ new" "new = [] \<or> new = [sr]" by auto
    have ok: "xr_jar_enabled rq \<longrightarrow> (\<forall>sr \<in> set new. cookie_fields_ok sr)" using prepare_cookies [OF sr] new(2) by auto
    show ?thesis
    proof (cases x)
      case (Inl e)
      with "1.prems" sr t have "w' = w1" by (simp add: exec_loop.simps)
      then show ?thesis using new ok by (intro exI [of _ new]) auto
    next
      case res: (Inr res)
      obtain response st1 w2 where d: "deliver_response rq st (sr_url sr) res w1 = (response, st1, w2)" by (metis prod_cases3)
      have w2: "cw_sent w2 = cw_sent w @ new" using deliver_sent [OF d] new by simp
      consider "w' = w2" | left' q url where "left = Suc left'" "exec_loop lib rq left' (follow_redirect q url st1) w2 = (r, w')"
        "decide_redirect lib rq (left = 0) st1 response = Step_redirect q url"
        using "1.prems" sr t res d by (auto simp: exec_loop.simps [of lib rq left] split: next_step.splits nat.splits)
      then show ?thesis
      proof cases
        case 1
        then show ?thesis using w2 new(2) ok by (intro exI [of _ new]) auto
      next
        case 2
        from "1.IH" [OF sr t [symmetric] res d [symmetric] refl 2(3,1,2)] obtain more where
          "cw_sent w' = cw_sent w2 @ more" "length more \<le> Suc left'" "xr_jar_enabled rq \<longrightarrow> (\<forall>sr \<in> set more. cookie_fields_ok sr)"
          by auto
        then show ?thesis using w2 2(1) new(2) ok by (intro exI [of _ "new @ more"]) auto
      qed
    qed
  qed
qed


section \<open>Retries\<close>

text \<open>\<open>n\<close> attempts in a row, with their results.\<close>

fun run_attempts :: "('s \<Rightarrow> 'r \<times> 's) \<Rightarrow> nat \<Rightarrow> 's \<Rightarrow> 'r list \<times> 's" where
  "run_attempts act 0 s = ([], s)"
| "run_attempts act (Suc n) s = (case act s of (r, s') \<Rightarrow> case run_attempts act n s' of (rs, s'') \<Rightarrow> (r # rs, s''))"

definition retryable_error :: "retry_policy \<Rightarrow> string \<Rightarrow> http_error \<Rightarrow> bool" where
  "retryable_error policy m e \<longleftrightarrow> rp_enabled policy \<and> (rp_retry_idempotent_only policy \<longrightarrow> is_idempotent_method m)
     \<and> (if he_code e = HE_http_status_failure then rp_retry_on_http_5xx policy \<and> 500 \<le> he_status e \<and> he_status e \<le> 599
        else he_code e = HE_curl_failure \<and> he_kind e \<in> {TK_timeout, TK_dns, TK_connect, TK_recv, TK_send, TK_reset})"

definition retryable :: "retry_policy \<Rightarrow> string \<Rightarrow> http_error + 'a \<Rightarrow> bool" where
  "retryable policy m r \<longleftrightarrow> (case r of Inr _ \<Rightarrow> False | Inl e \<Rightarrow> retryable_error policy m e)"

lemma should_retry_iff:
  "should_retry_error policy e m k \<longleftrightarrow> retryable_error policy m e \<and> k \<le> rp_max_attempts policy"
  by (auto simp: should_retry_error_def retryable_error_def)

lemma attempt_loop_runs:
  assumes "attempt_loop policy m act k le s = (r, pauses, s')" and "1 \<le> k" and "k \<le> max 1 (rp_max_attempts policy)"
  shows "\<exists>rs. run_attempts act (Suc (length pauses)) s = (rs, s') \<and> rs \<noteq> [] \<and> last rs = r
    \<and> (\<forall>x \<in> set (butlast rs). retryable policy m x) \<and> k + int (length pauses) \<le> max 1 (rp_max_attempts policy)
    \<and> (retryable policy m r \<longrightarrow> k + int (length pauses) = max 1 (rp_max_attempts policy))
    \<and> (\<forall>i < length pauses. pauses ! i = retry_backoff policy (k + int i))"
  using assms
proof (induction policy m act k le s arbitrary: r pauses rule: attempt_loop.induct)
  case (1 policy m act k le s)
  obtain x t where x: "act s = (x, t)" by fastforce
  show ?case
  proof (cases "\<exists>e. x = Inl e \<and> should_retry_error policy e m (k + 1)")
    case False
    then have "r = x \<and> pauses = [] \<and> s' = t"
      using "1.prems" x by (cases x) (auto simp: attempt_loop.simps)
    moreover have "k = max 1 (rp_max_attempts policy)" if "retryable policy m x"
    proof (cases x)
      case (Inl e)
      then show ?thesis using False that "1.prems"(2,3) by (auto simp: should_retry_iff retryable_def max_def split: if_splits)
    qed (use that in \<open>simp add: retryable_def\<close>)
    ultimately show ?thesis using x "1.prems"(3) by (intro exI [of _ "[x]"]) simp
  next
    case True
    then obtain e where e: "x = Inl e" "should_retry_error policy e m (k + 1)" by blast
    obtain r1 ps t' where rec: "attempt_loop policy m act (k + 1) (Some e) t = (r1, ps, t')" by (metis prod_cases3)
    then have r: "r = r1" "pauses = retry_backoff policy k # ps" "s' = t'"
      using "1.prems" x e by (auto simp: attempt_loop.simps [of policy m act k])
    have k: "k + 1 \<le> max 1 (rp_max_attempts policy)" using e(2) by (auto simp: should_retry_iff)
    have "\<not> \<not> should_retry_error policy e m (k + 1)" "1 \<le> k + 1" using e(2) "1.prems"(2) by simp_all
    from "1.IH" [OF "1.prems"(3) x [symmetric] e(1) this(1) rec [folded r(1,3)] this(2) k] obtain rs where rs:
      "run_attempts act (Suc (length ps)) t = (rs, s')" "rs \<noteq> []" "last rs = r" "\<forall>x \<in> set (butlast rs). retryable policy m x"
      "k + 1 + int (length ps) \<le> max 1 (rp_max_attempts policy)"
      "retryable policy m r \<longrightarrow> k + 1 + int (length ps) = max 1 (rp_max_attempts policy)"
      "\<forall>i < length ps. ps ! i = retry_backoff policy (k + 1 + int i)" by blast
    have "\<forall>i < length pauses. pauses ! i = retry_backoff policy (k + int i)"
      using r(2) rs(7) by (auto simp: nth_Cons ac_simps split: nat.splits)
    then show ?thesis using rs x e r by (intro exI [of _ "Inl e # rs"]) (auto simp: should_retry_iff retryable_def)
  qed
qed

lemma backoff_factor_power:
  "backoff_factor (2 ^ j) i k = 2 ^ (if i < k \<and> j < 20 then min 21 (j + nat (k - i)) else if i < k then Suc j else j)"
  if "j \<le> 20"
  using that
proof (induction "nat (k - i)" arbitrary: i j)
  case 0
  then show ?case by (simp add: backoff_factor.simps)
next
  case (Suc n)
  then have i: "i < k" by simp
  show ?case
  proof (cases "j < 20")
    case False
    with Suc.prems have "j = 20" by simp
    with i show ?thesis by (simp add: backoff_factor.simps)
  next
    case True
    then have "\<not> (2 :: nat) ^ j * 2 > 2 ^ 20" using power_increasing [of "Suc j" 20 "2 :: nat"] by simp
    then have "backoff_factor (2 ^ j) i k = backoff_factor (2 ^ Suc j) (i + 1) k"
      using i by (subst backoff_factor.simps) (simp add: mult.commute)
    also have "\<dots> = 2 ^ (if i + 1 < k \<and> Suc j < 20 then min 21 (Suc j + nat (k - (i + 1))) else if i + 1 < k then Suc (Suc j) else Suc j)"
      using Suc.hyps(2) True by (intro Suc.hyps(1)) auto
    finally show ?thesis using i True by (auto simp: min_def nat_diff_distrib)
  qed
qed

text \<open>
  Retries follow the policy. The attempts of a request are a run of \<open>n\<close> calls of the same action, with \<open>n\<close> at most
  \<open>max 1 max_attempts\<close>; the caller gets the result of the last one; all before it failed with an error that
  the policy allows to retry, which for the default policy needs an idempotent method; when the last
  one could be retried too, the attempts are used up; and the pause after the \<open>i\<close>-th attempt is the
  base pause doubled \<open>i - 1\<close> times (at most 21 times), cut off at the maximal pause.\<close>

theorem retries_follow_policy:
  assumes "attempt_loop policy m act 1 None s = (r, pauses, s')"
  shows "\<exists>rs. run_attempts act (Suc (length pauses)) s = (rs, s') \<and> rs \<noteq> [] \<and> last rs = r
    \<and> (\<forall>x \<in> set (butlast rs). retryable policy m x)
    \<and> 1 + int (length pauses) \<le> max 1 (rp_max_attempts policy)
    \<and> (retryable policy m r \<longrightarrow> 1 + int (length pauses) = max 1 (rp_max_attempts policy))
    \<and> (\<forall>i < length pauses. pauses ! i = min (rp_base_backoff policy * 2 ^ min 21 i) (rp_max_backoff policy))"
proof -
  have f: "backoff_factor 1 1 (1 + int i) = 2 ^ min 21 i" for i
    using backoff_factor_power [of 0 1 "1 + int i"] by simp
  obtain rs where rs: "run_attempts act (Suc (length pauses)) s = (rs, s')" "rs \<noteq> []" "last rs = r"
    "\<forall>x \<in> set (butlast rs). retryable policy m x" "1 + int (length pauses) \<le> max 1 (rp_max_attempts policy)"
    "retryable policy m r \<longrightarrow> 1 + int (length pauses) = max 1 (rp_max_attempts policy)"
    "\<forall>i < length pauses. pauses ! i = retry_backoff policy (1 + int i)"
    using attempt_loop_runs [OF assms] by auto
  have "pauses ! i = min (rp_base_backoff policy * 2 ^ min 21 i) (rp_max_backoff policy)" if "i < length pauses" for i
  proof -
    have "pauses ! i = retry_backoff policy (1 + int i)" using rs(7) that by blast
    also have "\<dots> = min (rp_base_backoff policy * 2 ^ min 21 i) (rp_max_backoff policy)"
      unfolding retry_backoff_def f Let_def by (simp add: min_def)
    finally show ?thesis .
  qed
  with rs(1-6) show ?thesis by blast
qed

definition once_policy :: retry_policy where
  "once_policy = \<lparr>rp_enabled = True, rp_max_attempts = 1, rp_retry_idempotent_only = True, rp_base_backoff = 100,
     rp_max_backoff = 2000, rp_retry_on_http_5xx = True\<rparr>"

theorem retries_follow_policy_witness:
  "\<exists>rs. run_attempts (\<lambda>n. (if n < 2 then Inl (connect_error ''x'' TK_reset) else Inr n, n + 1)) 3 (0 :: nat) = (rs, 3)
     \<and> last rs = Inr 2"
proof -
  let ?act = "\<lambda>n :: nat. (if n < 2 then Inl (connect_error ''x'' TK_reset) else Inr n, n + 1)"
  have "attempt_loop (once_policy\<lparr>rp_max_attempts := 5\<rparr>) ''GET'' ?act 1 None 0 = (Inr 2, [100, 200], 3)"
    by (simp add: attempt_loop.simps once_policy_def should_retry_error_def is_idempotent_method_def connect_error_def
        retry_backoff_def backoff_factor.simps)
  from retries_follow_policy [OF this] show ?thesis by (auto simp: numeral_3_eq_3)
qed

section \<open>Redirects to another host\<close>

text \<open>
  A redirect hands the caller's headers to the new host: whatever URL a server redirects to, every header
  of the caller except \<open>Content-Length\<close>, \<open>Content-Type\<close> and \<open>Cookie\<close> is sent there too, \<open>Authorization\<close> and \<open>Host\<close> included.\<close>

theorem redirect_forwards_headers:
  assumes "prepare_request lib rq (follow_redirect response url st) = Inr sr" and "h \<in> set (xs_headers st)"
    and "to_lower (h_name h) \<notin> {''content-length'', ''content-type'', ''cookie''}"
  shows "h \<in> set (sr_fields sr)"
proof -
  have l: "to_lower ''Content-Length'' = ''content-length''" "to_lower ''Content-Type'' = ''content-type''"
    "to_lower ''Cookie'' = ''cookie''" by code_simp+
  have "h \<in> set (xs_headers (follow_redirect response url st))"
    using assms(2,3) l by (simp add: follow_redirect_def erase_header_def equals_ci_lower)
  then have "h \<in> set (sending_headers rq u (follow_redirect response url st))" for u
    using assms(3) l by (auto simp: sending_headers_def erase_header_def equals_ci_lower Let_def)
  then show ?thesis using prepare_request_parts [OF assms(1)] by (auto simp: request_fields_def Let_def)
qed

section \<open>Downloads\<close>

text \<open>What a download relies on of the server and the network: the request is answered with the content from the
  offset on and 206 if ranges are honoured, and with all of it and 200 if not; the fetch itself leaves the files alone.\<close>

definition serves :: "'w http_lib \<Rightarrow> 'w client_config \<Rightarrow> string \<Rightarrow> string \<Rightarrow> bool \<Rightarrow> nat \<Rightarrow> bool" where
  "serves lib cfg url content ranges offset \<longleftrightarrow>
     (\<forall>w. \<exists>r ps w' cs. client_execute lib cfg (download_request url offset) w = (Inr r, ps, w')
        \<and> cw_files w' = cw_files w \<and> cw_chunks w' = cw_chunks w @ cs
        \<and> (if offset > 0 \<and> ranges then cr_status_code r = 206 \<and> concat cs = drop offset content
           else cr_status_code r = 200 \<and> concat cs = content))"

lemma run_once_serves:
  assumes "serves lib cfg url content ranges offset"
  shows "\<exists>r w'. download_run_once lib cfg url temp offset append_mode w = (Inr r, w')
    \<and> cr_status_code r = (if offset > 0 \<and> ranges then 206 else 200)
    \<and> cw_files w' = (cw_files w)(temp \<mapsto> (if append_mode then opt_or (cw_files w temp) [] else [])
         @ (if offset > 0 \<and> ranges then drop offset content else content))"
proof -
  from assms obtain r ps w' cs where
    "client_execute lib cfg (download_request url offset) w = (Inr r, ps, w')" "cw_files w' = cw_files w"
    "cw_chunks w' = cw_chunks w @ cs" and cs: "if offset > 0 \<and> ranges then cr_status_code r = 206 \<and> concat cs = drop offset content
           else cr_status_code r = 200 \<and> concat cs = content"
    unfolding serves_def by blast
  then show ?thesis by (auto simp: download_run_once_def split: if_splits)
qed

lemma download_finish_ok:
  assumes "do_use_temp_file opts" and "do_overwrite opts \<or> cw_files w output = None" and "cw_files w temp = Some c" and "temp \<noteq> output"
  shows "\<exists>w'. download_finish temp output opts resumed r w =
       (Inr \<lparr>dr_output_path = output, dr_size = length c, dr_resumed = resumed, dr_status_code = cr_status_code r\<rparr>, w')
    \<and> cw_files w' = (cw_files w)(temp := None, output \<mapsto> c)"
  using assms by (auto simp: download_finish_def Let_def fun_upd_twist)


section \<open>A small network\<close>

text \<open>Every text is a URL, whose host it is. The server \<open>old\<close> redirects to \<open>new\<close> with a body of its own; all others serve \<open>ab\<close>, and
  its second byte for the range from 1 on.\<close>

definition small_reply :: "send_request \<Rightarrow> raw_response" where
  "small_reply sr =
     (if cu_host (sr_url sr) = ''old'' then
        \<lparr>raw_status = 302, raw_fields = [mk_header ''Location'' ''new''], raw_body = ''Moved''\<rparr>
      else if find_header_value (sr_fields sr) ''Range'' = Some ''bytes=1-'' then
        \<lparr>raw_status = 206, raw_fields = [], raw_body = ''b''\<rparr>
      else \<lparr>raw_status = 200, raw_fields = [], raw_body = ''ab''\<rparr>)"

definition small_lib :: "send_request option http_lib" where
  "small_lib = \<lparr>hl_parse_uri = (\<lambda>u. Some \<lparr>cu_scheme = ''http'', cu_host = u, cu_port = None, cu_path = [], cu_query = None\<rparr>),
     hl_parse_reference = (\<lambda>l. Some (True, l)), hl_resolve_reference = (\<lambda>b l. None), hl_append_params = (\<lambda>u ps. None),
     hl_encode = id, hl_ec_message = (\<lambda>_. []), hl_ec_value = (\<lambda>_. 0), hl_getenv = (\<lambda>_. None), hl_random = (\<lambda>w. ((0, 0), w)),
     hl_default_verify_paths = True, hl_sni = (\<lambda>_. True), hl_dns = (\<lambda>_ w. (Net_ok, w)), hl_connect = (\<lambda>_ _ w. (Net_ok, w)),
     hl_handshake = (\<lambda>_ _ w. (Net_ok, w)), hl_write = (\<lambda>sr w. (Net_ok, Some sr)),
     hl_read = (\<lambda>w. ((Net_ok, small_reply (the w)), w)), hl_shutdown = (\<lambda>w. (Net_ok, w))\<rparr>"

definition default_config :: "'w client_config" where
  "default_config = \<lparr>cc_default_headers = [], cc_user_agent = ''flux_http/0.4'', cc_timeout = 30000, cc_connect_timeout = 10000,
     cc_follow_redirects = True, cc_throw_on_http_error = True, cc_interceptors = [], cc_retry = once_policy, cc_proxy = None,
     cc_jar_enabled = False, cc_jar_file = None, cc_aggregate_body = True, cc_on_chunk = False\<rparr>"

definition empty_world :: "send_request option client_world" where
  "empty_world = \<lparr>cw_files = Map.empty, cw_chunks = [], cw_sent = [], cw_world = None\<rparr>"

definition default_download :: download_options where
  "default_download = \<lparr>do_resume = True, do_use_temp_file = True, do_overwrite = True, do_temp_path = None\<rparr>"

definition small_exec :: exec_request where
  "small_exec = make_exec_request small_lib default_config (download_request ''old'' 0) ''old''"

definition small_state :: "string \<Rightarrow> headers \<Rightarrow> exec_state" where
  "small_state url hs = \<lparr>xs_url = url, xs_method = ''GET'', xs_body = [], xs_headers = hs, xs_cookies = []\<rparr>"

definition small_redirect :: client_response where
  "small_redirect = \<lparr>cr_status_code = 302, cr_effective_url = ''old'', cr_headers = [mk_header ''Location'' ''new''], cr_body = []\<rparr>"

lemma transmit_small:
  "\<not> sr_tls sr \<Longrightarrow> transmit small_lib rq sr w = (Inr (small_reply sr), w\<lparr>cw_sent := cw_sent w @ [sr], cw_world := Some sr\<rparr>)"
  by (simp add: transmit_def net_call_def write_read_def small_lib_def)

definition range_headers :: "nat \<Rightarrow> headers" where
  "range_headers n = mk_header ''Accept'' (accept_value_for_format RF_text)
     # (if n > 0 then [mk_header ''Range'' (''bytes='' @ dec_of_nat n @ ''-'')] else [])"

lemma download_request_eq:
  "download_request url n = (new_request ''GET'' url)\<lparr>cq_headers := range_headers n, cq_response_format := Some RF_text,
     cq_on_chunk := True, cq_aggregate_body := Some False, cq_follow_redirects := Some True\<rparr>"
  by (simp add: download_request_def Let_def builder_response_format_def builder_send_def new_request_def range_headers_def
      set_header_if_absent_def)

lemma default_exec:
  "make_exec_request small_lib default_config (download_request url n) url = small_exec"
  by (simp add: small_exec_def make_exec_request_def download_request_eq new_request_def default_config_def opt_or_def
      proxy_from_env_for_url_def small_lib_def Let_def)

definition small_send :: "string \<Rightarrow> headers \<Rightarrow> send_request" where
  "small_send url hs = \<lparr>sr_url = \<lparr>cu_scheme = ''http'', cu_host = url, cu_port = None, cu_path = [], cu_query = None\<rparr>,
     sr_connect = (url, ''80''), sr_tls = False, sr_verify_peer = True, sr_method = ''GET'', sr_target = ''/'',
     sr_fields = hs @ (if has_header hs ''Host'' then [] else [mk_header ''Host'' url])
       @ (if has_header hs ''User-Agent'' then [] else [mk_header ''User-Agent'' ''flux_http/0.4'']), sr_body = []\<rparr>"

lemma small_exec_fields:
  "xr_proxy small_exec = None" "xr_jar_enabled small_exec = False" "xr_jar_file small_exec = None"
  "xr_user_agent small_exec = ''flux_http/0.4''" "xr_aggregate_body small_exec = False" "xr_on_chunk small_exec = True"
  "xr_follow_redirects small_exec = True"
  by code_simp+

lemma prepare_small: "prepare_request small_lib small_exec (small_state url hs) = Inr (small_send url hs)"
proof -
  have "equals_ci ''http'' ''https'' = False" "equals_ci ''http'' ''http'' = True" "make_default_port ''http'' = ''80''" by code_simp+
  then show ?thesis
    by (simp add: prepare_request_def small_state_def small_send_def small_lib_def request_fields_def sending_headers_def
        host_header_def make_http_target_def small_exec_fields Let_def)
qed

text \<open>One pass against the small network: the answer is streamed, and the loop stops unless it is a redirect.\<close>

lemma exec_loop_small:
  assumes "reply = small_reply (small_send url hs)"
    and "w' = w\<lparr>cw_sent := cw_sent w @ [small_send url hs], cw_world := Some (small_send url hs), cw_chunks := cw_chunks w @ [raw_body reply]\<rparr>"
  shows "url \<noteq> ''old'' \<Longrightarrow> exec_loop small_lib small_exec left (small_state url hs) w =
      (Inr \<lparr>cr_status_code = raw_status reply, cr_effective_url = url, cr_headers = [], cr_body = []\<rparr>, w')"
    and "url = ''old'' \<Longrightarrow> exec_loop small_lib small_exec (Suc left) (small_state url hs) w =
      exec_loop small_lib small_exec left (small_state ''new'' hs) w'"
proof -
  have l: "equals_ci ''Location'' ''Location''" by code_simp
  have r: "resolve_redirect_url small_lib ''old'' ''new'' = Some ''new''" by code_simp
  have st: "xs_url (small_state u hs) = u" "xs_method (small_state u hs) = ''GET''" "(small_state u hs)\<lparr>xs_url := v\<rparr> = small_state v hs" for u v
    by (simp_all add: small_state_def)
  have g: "equals_ci ''GET'' ''POST'' = False" by code_simp
  note defs = prepare_small transmit_small deliver_response_def decide_redirect_def follow_redirect_def small_exec_fields
    is_redirect_status_def should_switch_to_get_on_redirect_def Let_def
  have t: "\<not> sr_tls (small_send url hs)" "sr_url (small_send url hs) = \<lparr>cu_scheme = ''http'', cu_host = url, cu_port = None, cu_path = [], cu_query = None\<rparr>"
    by (simp_all add: small_send_def)
  show "exec_loop small_lib small_exec left (small_state url hs) w =
      (Inr \<lparr>cr_status_code = raw_status reply, cr_effective_url = url, cr_headers = [], cr_body = []\<rparr>, w')" if "url \<noteq> ''old''"
    using that t assms by (simp add: exec_loop.simps defs st small_reply_def)
  show "exec_loop small_lib small_exec (Suc left) (small_state url hs) w = exec_loop small_lib small_exec left (small_state ''new'' hs) w'"
    if "url = ''old''"
    using that t assms l r g by (subst exec_loop.simps) (simp add: defs st small_reply_def)
qed

lemma execute_small:
  assumes "url \<noteq> []"
    and "execute_with_beast_blocking small_lib small_exec (small_state url (range_headers n @ [mk_header ''Content-Type'' ''text/plain''])) w = (Inr r, w')"
    and "response_ok r"
  shows "client_execute small_lib default_config (download_request url n) w = (Inr r, [], w')"
proof -
  let ?rq = "download_request url n"
  have f: "cq_url ?rq = url" "cq_method ?rq = ''GET''" "cq_query_items ?rq = []" "cq_multipart_parts ?rq = []" "cq_body ?rq = []"
    "cq_request_format ?rq = None" "cq_headers ?rq = range_headers n" "cq_retry ?rq = None"
    by (simp_all add: download_request_eq new_request_def)
  have u: "to_upper ''GET'' = ''GET''" "to_upper ''Accept'' = ''ACCEPT''" "to_upper ''Range'' = ''RANGE''" "to_upper ''Content-Type'' = ''CONTENT-TYPE''"
    by code_simp+
  then have g: "toupper CHR ''G'' = CHR ''G''" "toupper CHR ''E'' = CHR ''E''" "toupper CHR ''T'' = CHR ''T''" "has_header (range_headers n) ''Content-Type'' = False"
    by (simp_all add: range_headers_def)
  have c: "cc_interceptors default_config = []" "cc_default_headers default_config = []"
    by (simp_all add: default_config_def)
  have "execute_async small_lib default_config ?rq w = (Inr r, w')"
    using assms by (simp add: execute_async_def execute_body_def f c g apply_request_interceptors_def apply_response_interceptors_def
        check_payload_def effective_request_format_def opt_or_def request_payload_def request_headers_def set_header_if_absent_def
        build_url_with_query_def default_exec small_state_def Let_def)
  then show ?thesis by (simp add: client_execute_def attempt_loop.simps)
qed

lemma exec_small:
  "execute_with_beast_blocking small_lib small_exec (small_state url hs) w = exec_loop small_lib small_exec 8 (small_state url hs) w"
  by (simp add: execute_with_beast_blocking_def small_exec_fields max_redirects_def small_state_def)

lemma exec_small_old:
  "execute_with_beast_blocking small_lib small_exec (small_state ''old'' hs) w =
     (Inr \<lparr>cr_status_code = raw_status (small_reply (small_send ''new'' hs)), cr_effective_url = ''new'', cr_headers = [], cr_body = []\<rparr>,
      w\<lparr>cw_sent := cw_sent w @ [small_send ''old'' hs, small_send ''new'' hs], cw_world := Some (small_send ''new'' hs),
        cw_chunks := cw_chunks w @ [''Moved'', raw_body (small_reply (small_send ''new'' hs))]\<rparr>)"
proof -
  have "raw_body (small_reply (small_send ''old'' hs)) = ''Moved''" by (simp add: small_reply_def small_send_def)
  then show ?thesis
    unfolding exec_small using exec_loop_small(2) [OF refl refl refl, of 7 hs w] by (simp add: exec_loop_small(1) [OF refl refl])
qed

lemma small_lib_serves: "n \<in> {0, 1} \<Longrightarrow> serves small_lib default_config ''new'' ''ab'' True n"
proof -
  assume n: "n \<in> {0, 1}"
  let ?hs = "range_headers n @ [mk_header ''Content-Type'' ''text/plain'']"
  have "small_reply (small_send ''new'' ?hs) = (if n > 0 then \<lparr>raw_status = 206, raw_fields = [], raw_body = ''b''\<rparr>
        else \<lparr>raw_status = 200, raw_fields = [], raw_body = ''ab''\<rparr>)"
    using n by (elim insertE emptyE) (simp only:, code_simp)+
  then have e: "execute_with_beast_blocking small_lib small_exec (small_state ''new'' ?hs) w =
      (Inr \<lparr>cr_status_code = (if n > 0 then 206 else 200), cr_effective_url = ''new'', cr_headers = [], cr_body = []\<rparr>,
       w\<lparr>cw_sent := cw_sent w @ [small_send ''new'' ?hs], cw_world := Some (small_send ''new'' ?hs),
         cw_chunks := cw_chunks w @ [if n > 0 then ''b'' else ''ab'']\<rparr>)" for w
    using exec_loop_small(1) [of _ "''new''" ?hs _ w] unfolding exec_small by (simp split: if_splits)
  have "client_execute small_lib default_config (download_request ''new'' n) w =
      (Inr \<lparr>cr_status_code = (if n > 0 then 206 else 200), cr_effective_url = ''new'', cr_headers = [], cr_body = []\<rparr>, [],
       w\<lparr>cw_sent := cw_sent w @ [small_send ''new'' ?hs], cw_world := Some (small_send ''new'' ?hs),
         cw_chunks := cw_chunks w @ [if n > 0 then ''b'' else ''ab'']\<rparr>)" for w
    by (rule execute_small [OF _ e]) (simp_all add: response_ok_def)
  with n show ?thesis unfolding serves_def by fastforce
qed


text \<open>The body of a redirect reaches the stream callback, so a download that is redirected starts with it.\<close>

theorem redirect_body_streamed:
  "fst (download_to_file small_lib default_config ''old'' ''f'' default_download empty_world) =
     Inr \<lparr>dr_output_path = ''f'', dr_size = 7, dr_resumed = False, dr_status_code = 200\<rparr>
   \<and> cw_files (snd (download_to_file small_lib default_config ''old'' ''f'' default_download empty_world)) = [''f'' \<mapsto> ''Movedab'']"
proof -
  let ?hs = "range_headers 0 @ [mk_header ''Content-Type'' ''text/plain'']"
  have r: "small_reply (small_send ''new'' ?hs) = \<lparr>raw_status = 200, raw_fields = [], raw_body = ''ab''\<rparr>" by code_simp
  have c: "client_execute small_lib default_config (download_request ''old'' 0) w =
     (Inr \<lparr>cr_status_code = 200, cr_effective_url = ''new'', cr_headers = [], cr_body = []\<rparr>, [],
      w\<lparr>cw_sent := cw_sent w @ [small_send ''old'' ?hs, small_send ''new'' ?hs], cw_world := Some (small_send ''new'' ?hs),
        cw_chunks := cw_chunks w @ [''Moved'', ''ab'']\<rparr>)" for w
    using exec_small_old [of ?hs w] by (intro execute_small) (simp_all add: r response_ok_def)
  have "download_temp_path default_download ''f'' = ''f.part''" by code_simp
  then show ?thesis
    by (simp add: download_to_file_def download_run_once_def c Let_def empty_world_def default_download_def download_finish_def opt_or_def)
qed


theorem redirect_forwards_headers_witness:
  "\<exists>sr. prepare_request small_lib small_exec
       (follow_redirect small_redirect ''new'' (small_state ''old'' [mk_header ''Authorization'' ''s3cret''])) = Inr sr
     \<and> cu_host (sr_url sr) = ''new'' \<and> mk_header ''Authorization'' ''s3cret'' \<in> set (sr_fields sr)"
proof -
  let ?h = "mk_header ''Authorization'' ''s3cret''"
  have f: "follow_redirect small_redirect ''new'' (small_state ''old'' [?h]) = small_state ''new'' [?h]" by code_simp
  have "to_lower (h_name ?h) \<notin> {''content-length'', ''content-type'', ''cookie''}" by code_simp
  from redirect_forwards_headers [OF _ _ this, of small_lib small_exec small_redirect "''new''" "small_state ''old'' [?h]"
      "small_send ''new'' [?h]"] show ?thesis unfolding f prepare_small by (simp add: small_state_def small_send_def)
qed

end
