(* ===== verification/Sql_Text.thy ===== *)
theory Sql_Text
  imports Prelude "HOL-Library.Word"
begin

text \<open>
  The text level of the SQL library (\<open>layer2/src/sql.cpp\<close>): options, parameters, the connection string for
  PostgreSQL, and the question marks of a statement. Doubles are of a type \<open>'d\<close>, and their text is that of the stream
  library, a parameter.
\<close>

section \<open>Options and errors\<close>

datatype sql_driver = Driver_postgres | Driver_mysql | Driver_sqlite

datatype postgres_ssl_mode = Ssl_disable | Ssl_allow | Ssl_prefer | Ssl_require | Ssl_verify_ca | Ssl_verify_full

datatype sql_error_kind =
  SK_invalid_argument | SK_runtime_missing | SK_connect_failed | SK_not_connected | SK_query_failed | SK_internal_error

datatype sql_error = SqlError (se_message: string) (se_kind: sql_error_kind)

record sql_options =
  so_driver :: sql_driver
  so_host :: string
  so_port :: int
  so_user :: string
  so_password :: string
  so_database :: string
  so_file :: string
  so_connect_timeout_ms :: int
  so_query_timeout_ms :: int
  so_ssl_mode :: postgres_ssl_mode
  so_ssl_root_cert_file :: string
  so_ssl_cert_file :: string
  so_ssl_key_file :: string
  so_ssl_crl_file :: string
  so_ssl_min_protocol :: string

definition default_sql_options :: sql_options where
  "default_sql_options = \<lparr>so_driver = Driver_sqlite, so_host = ''127.0.0.1'', so_port = 0, so_user = [], so_password = [],
     so_database = [], so_file = [], so_connect_timeout_ms = 0, so_query_timeout_ms = 0, so_ssl_mode = Ssl_prefer,
     so_ssl_root_cert_file = [], so_ssl_cert_file = [], so_ssl_key_file = [], so_ssl_crl_file = [], so_ssl_min_protocol = []\<rparr>"

definition sql_choose_timeout_ms :: "sql_options \<Rightarrow> int \<Rightarrow> int option" where
  "sql_choose_timeout_ms conn query_timeout_ms =
     (if query_timeout_ms > 0 then Some query_timeout_ms
      else if so_query_timeout_ms conn > 0 then Some (so_query_timeout_ms conn) else None)"

definition default_sqlite_file :: "sql_options \<Rightarrow> string" where
  "default_sqlite_file o' = (if so_file o' = [] then '':memory:'' else so_file o')"

definition default_port :: "sql_options \<Rightarrow> int" where
  "default_port o' =
     (if so_port o' > 0 then so_port o'
      else case so_driver o' of Driver_postgres \<Rightarrow> 5432 | Driver_mysql \<Rightarrow> 3306 | Driver_sqlite \<Rightarrow> 0)"

section \<open>Parameters\<close>

datatype 'd sql_param = SP_null | SP_text string | SP_int64 "64 word" | SP_float64 'd | SP_boolean bool

definition param_of_text :: "string option \<Rightarrow> 'd sql_param" where
  "param_of_text v = (case v of Some s \<Rightarrow> SP_text s | None \<Rightarrow> SP_null)"

definition param_of_int32 :: "32 word \<Rightarrow> 'd sql_param" where
  "param_of_int32 v = SP_int64 (scast v)"

definition param_of_uint32 :: "32 word \<Rightarrow> 'd sql_param" where
  "param_of_uint32 v = SP_int64 (ucast v)"

definition param_of_uint64 :: "64 word \<Rightarrow> sql_error + 'd sql_param" where
  "param_of_uint64 v =
     (if uint v > 2 ^ 63 - 1 then Inl (SqlError ''SqlParam uint64 value exceeds int64 range'' SK_invalid_argument)
      else Inr (SP_int64 v))"

definition sql_is_null :: "'d sql_param \<Rightarrow> bool" where
  "sql_is_null p \<longleftrightarrow> p = SP_null"

primrec sql_as_text :: "('d \<Rightarrow> string) \<Rightarrow> 'd sql_param \<Rightarrow> string" where
  "sql_as_text dtext SP_null = []"
| "sql_as_text dtext (SP_text s) = s"
| "sql_as_text dtext (SP_int64 i) = dec_of_int (sint i)"
| "sql_as_text dtext (SP_float64 d) = dtext d"
| "sql_as_text dtext (SP_boolean b) = (if b then ''1'' else ''0'')"

text \<open>What a C function sees of a string that is passed by \<open>c_str\<close>.\<close>

definition c_str :: "string \<Rightarrow> string" where
  "c_str s = takeWhile (\<lambda>c. c \<noteq> CHR 0x00) s"

fun parse_u64_digits :: "64 word \<Rightarrow> string \<Rightarrow> 64 word" where
  "parse_u64_digits v [] = v"
| "parse_u64_digits v (c # cs) = (if \<not> isdigit c then 0 else parse_u64_digits (v * 10 + of_nat (of_char c - 48)) cs)"

definition parse_u64 :: "string \<Rightarrow> 64 word" where
  "parse_u64 text = (if text = [] then 0 else parse_u64_digits 0 text)"

section \<open>The connection string\<close>

primrec postgres_ssl_mode_to_string :: "postgres_ssl_mode \<Rightarrow> string" where
  "postgres_ssl_mode_to_string Ssl_disable = ''disable''"
| "postgres_ssl_mode_to_string Ssl_allow = ''allow''"
| "postgres_ssl_mode_to_string Ssl_prefer = ''prefer''"
| "postgres_ssl_mode_to_string Ssl_require = ''require''"
| "postgres_ssl_mode_to_string Ssl_verify_ca = ''verify-ca''"
| "postgres_ssl_mode_to_string Ssl_verify_full = ''verify-full''"

abbreviation SQUOTE :: char where "SQUOTE \<equiv> CHR 0x27"

definition pg_quote_char :: "char \<Rightarrow> string" where
  "pg_quote_char c = (if c = SQUOTE \<or> c = BSLASH then [BSLASH, c] else [c])"

definition pg_quote :: "string \<Rightarrow> string" where
  "pg_quote value = escape_with pg_quote_char value"

definition conn_item :: "string \<Rightarrow> string \<Rightarrow> string" where
  "conn_item key value = key @ ''='' @ SQUOTE # value @ [SQUOTE]"

definition conn_optional :: "string \<Rightarrow> string \<Rightarrow> string" where
  "conn_optional key value = (if value \<noteq> [] then CHR '' '' # conn_item key (pg_quote value) else [])"

definition make_conninfo :: "sql_options \<Rightarrow> string" where
  "make_conninfo o' =
     conn_item ''host'' (pg_quote (so_host o')) @ '' '' @ conn_item ''port'' (dec_of_int (default_port o')) @ '' ''
     @ conn_item ''dbname'' (pg_quote (so_database o'))
     @ conn_optional ''user'' (so_user o') @ conn_optional ''password'' (so_password o')
     @ '' '' @ conn_item ''sslmode'' (postgres_ssl_mode_to_string (so_ssl_mode o'))
     @ conn_optional ''sslrootcert'' (so_ssl_root_cert_file o') @ conn_optional ''sslcert'' (so_ssl_cert_file o')
     @ conn_optional ''sslkey'' (so_ssl_key_file o') @ conn_optional ''sslcrl'' (so_ssl_crl_file o')
     @ conn_optional ''ssl_min_protocol_version'' (so_ssl_min_protocol o')
     @ (if so_connect_timeout_ms o' > 0
        then '' '' @ conn_item ''connect_timeout'' (dec_of_int (max 1 (so_connect_timeout_ms o' div 1000))) else [])"

section \<open>Question marks\<close>

fun rewrite_loop :: "bool \<Rightarrow> bool \<Rightarrow> bool \<Rightarrow> nat \<Rightarrow> string \<Rightarrow> string" where
  "rewrite_loop in_single in_double escape index [] = []"
| "rewrite_loop in_single in_double escape index (ch # sql) =
     (if escape then ch # rewrite_loop in_single in_double False index sql
      else if ch = BSLASH \<and> in_single then ch # rewrite_loop in_single in_double True index sql
      else if ch = SQUOTE \<and> \<not> in_double then ch # rewrite_loop (\<not> in_single) in_double False index sql
      else if ch = DQUOTE \<and> \<not> in_single then ch # rewrite_loop in_single (\<not> in_double) False index sql
      else if ch = CHR ''?'' \<and> \<not> in_single \<and> \<not> in_double then
        CHR ''$'' # dec_of_nat index @ rewrite_loop in_single in_double False (index + 1) sql
      else ch # rewrite_loop in_single in_double False index sql)"

definition rewrite_qmark_to_dollar :: "string \<Rightarrow> string" where
  "rewrite_qmark_to_dollar sql = rewrite_loop False False False 1 sql"

fun count_loop :: "bool \<Rightarrow> bool \<Rightarrow> bool \<Rightarrow> bool \<Rightarrow> nat \<Rightarrow> string \<Rightarrow> nat" where
  "count_loop in_single in_double in_backtick escape count [] = count"
| "count_loop in_single in_double in_backtick escape count (ch # sql) =
     (if escape then count_loop in_single in_double in_backtick False count sql
      else if ch = BSLASH \<and> (in_single \<or> in_double) then count_loop in_single in_double in_backtick True count sql
      else if ch = SQUOTE \<and> \<not> in_double \<and> \<not> in_backtick then count_loop (\<not> in_single) in_double in_backtick False count sql
      else if ch = DQUOTE \<and> \<not> in_single \<and> \<not> in_backtick then count_loop in_single (\<not> in_double) in_backtick False count sql
      else if ch = CHR 0x60 \<and> \<not> in_single \<and> \<not> in_double then count_loop in_single in_double (\<not> in_backtick) False count sql
      else if ch = CHR ''?'' \<and> \<not> in_single \<and> \<not> in_double \<and> \<not> in_backtick then
        count_loop in_single in_double in_backtick False (count + 1) sql
      else count_loop in_single in_double in_backtick False count sql)"

definition count_placeholders :: "string \<Rightarrow> nat" where
  "count_placeholders sql = count_loop False False False False 0 sql"

text \<open>What \<open>query_postgres_sender\<close> sends: the statement, and a value or null per parameter.\<close>

definition postgres_statement ::
  "('d \<Rightarrow> string) \<Rightarrow> string \<Rightarrow> 'd sql_param list \<Rightarrow> sql_error + string \<times> string option list" where
  "postgres_statement dtext sql params =
     (let rewritten = (if params \<noteq> [] \<and> CHR ''?'' \<in> set sql then rewrite_qmark_to_dollar sql else sql) in
      if count_placeholders sql \<noteq> length params then
        Inl (SqlError ''postgres parameter count does not match placeholders'' SK_invalid_argument)
      else Inr (c_str rewritten, map (\<lambda>p. if sql_is_null p then None else Some (c_str (sql_as_text dtext p))) params))"

section \<open>The connection string reads back\<close>

text \<open>The documented syntax of libpq's connection strings: pairs \<open>keyword = value\<close> with blanks between and around;
  a value is quoted, or ends at a blank; a backslash takes the next character as it is.\<close>

fun read_escaped :: "string \<Rightarrow> (char \<times> string) option" where
  "read_escaped [] = None"
| "read_escaped (c # s) = (if c = BSLASH then (case s of [] \<Rightarrow> None | d # s' \<Rightarrow> Some (d, s')) else Some (c, s))"

fun read_unquoted :: "string \<Rightarrow> string \<times> string" where
  "read_unquoted [] = ([], [])"
| "read_unquoted (c # s) =
     (if isspace c then ([], s)
      else if c = BSLASH then (case s of [] \<Rightarrow> ([], []) | d # s' \<Rightarrow> apfst (Cons d) (read_unquoted s'))
      else apfst (Cons c) (read_unquoted s))"

definition read_value :: "string \<Rightarrow> (string \<times> string) option" where
  "read_value s =
     (case s of [] \<Rightarrow> Some ([], [])
      | c # s' \<Rightarrow> if c = SQUOTE then scan_quoted read_escaped SQUOTE (Suc (length s')) s' else Some (read_unquoted s))"

fun read_pairs :: "nat \<Rightarrow> string \<Rightarrow> (string \<times> string) list option" where
  "read_pairs 0 s = None"
| "read_pairs (Suc k) s =
     (let s1 = dropWhile isspace s in
      if s1 = [] then Some []
      else let key = takeWhile (\<lambda>c. c \<noteq> CHR ''='' \<and> \<not> isspace c) s1;
               s2 = dropWhile isspace (dropWhile (\<lambda>c. c \<noteq> CHR ''='' \<and> \<not> isspace c) s1) in
           case s2 of [] \<Rightarrow> None
           | c # s3 \<Rightarrow>
               if c \<noteq> CHR ''='' then None
               else case read_value (dropWhile isspace s3) of
                      None \<Rightarrow> None
                    | Some (v, s4) \<Rightarrow> map_option (Cons (key, v)) (read_pairs k s4))"

definition read_conninfo :: "string \<Rightarrow> (string \<times> string) list option" where
  "read_conninfo s = read_pairs (Suc (length s)) s"

definition optional_pair :: "string \<Rightarrow> string \<Rightarrow> (string \<times> string) list" where
  "optional_pair key value = (if value \<noteq> [] then [(key, value)] else [])"

definition conninfo_pairs :: "sql_options \<Rightarrow> (string \<times> string) list" where
  "conninfo_pairs o' =
     [(''host'', so_host o'), (''port'', dec_of_int (default_port o')), (''dbname'', so_database o')]
     @ optional_pair ''user'' (so_user o') @ optional_pair ''password'' (so_password o')
     @ [(''sslmode'', postgres_ssl_mode_to_string (so_ssl_mode o'))]
     @ optional_pair ''sslrootcert'' (so_ssl_root_cert_file o') @ optional_pair ''sslcert'' (so_ssl_cert_file o')
     @ optional_pair ''sslkey'' (so_ssl_key_file o') @ optional_pair ''sslcrl'' (so_ssl_crl_file o')
     @ optional_pair ''ssl_min_protocol_version'' (so_ssl_min_protocol o')
     @ (if so_connect_timeout_ms o' > 0
        then [(''connect_timeout'', dec_of_int (max 1 (so_connect_timeout_ms o' div 1000)))] else [])"

interpretation pg: char_escape pg_quote_char read_escaped SQUOTE
  by unfold_locales (auto simp: pg_quote_char_def)

text \<open>The string is the list of its items, each behind a blank but the first.\<close>

fun conn_items :: "(string \<times> string) list \<Rightarrow> string" where
  "conn_items [] = []"
| "conn_items ((k, v) # kvs) = CHR '' '' # conn_item k (pg_quote v) @ conn_items kvs"

lemma conn_items_append: "conn_items (xs @ ys) = conn_items xs @ conn_items ys"
  by (induction xs rule: conn_items.induct) simp_all

lemma conn_optional_items: "conn_optional k v = conn_items (optional_pair k v)"
  by (simp add: conn_optional_def optional_pair_def)

lemma pg_quote_plain: "SQUOTE \<notin> set s \<Longrightarrow> BSLASH \<notin> set s \<Longrightarrow> pg_quote s = s"
  by (induction s) (auto simp: pg_quote_def escape_with_def pg_quote_char_def)

lemma pg_quote_int: "pg_quote (dec_of_int i) = dec_of_int i"
proof (rule pg_quote_plain)
  have "c \<notin> set (dec_of_nat n)" if "c = SQUOTE \<or> c = BSLASH" for c n
    using that dec_of_nat_digits [of c n] by (auto simp: isdigit_def)
  then show "SQUOTE \<notin> set (dec_of_int i)" "BSLASH \<notin> set (dec_of_int i)" by (auto simp: dec_of_int_def)
qed

lemma pg_quote_mode: "pg_quote (postgres_ssl_mode_to_string m) = postgres_ssl_mode_to_string m"
  by (rule pg_quote_plain) (cases m; simp)+

lemma make_conninfo_items: "CHR '' '' # make_conninfo o' = conn_items (conninfo_pairs o')"
  by (simp add: make_conninfo_def conninfo_pairs_def conn_items_append conn_optional_items pg_quote_int pg_quote_mode)

definition plain_key :: "string \<Rightarrow> bool" where
  "plain_key k \<longleftrightarrow> k \<noteq> [] \<and> CHR ''='' \<notin> set k \<and> list_all (\<lambda>c. \<not> isspace c) k"

lemma read_item:
  assumes "plain_key k"
  shows "read_pairs (Suc n) (conn_item k (pg_quote v) @ rest) = map_option (Cons (k, v)) (read_pairs n rest)"
    and "read_pairs (Suc n) (CHR '' '' # conn_item k (pg_quote v) @ rest) = map_option (Cons (k, v)) (read_pairs n rest)"
proof -
  have k: "\<forall>c \<in> set k. c \<noteq> CHR ''='' \<and> \<not> isspace c" "k \<noteq> []" "\<not> isspace (hd k)"
    using assms by (auto simp: plain_key_def list_all_iff)
  have sp: "isspace CHR '' ''" "\<not> isspace CHR ''=''" "\<not> isspace SQUOTE" by (simp_all add: isspace_def)
  let ?t = "SQUOTE # pg_quote v @ SQUOTE # rest"
  have "length v < Suc (length (pg_quote v @ SQUOTE # rest))"
    by (induction v) (simp_all add: pg_quote_def escape_with_def pg_quote_char_def)
  then have v: "read_value ?t = Some (v, rest)" unfolding read_value_def by (simp add: pg.scan_escaped pg_quote_def del: scan_quoted.simps)
  have tw: "takeWhile (\<lambda>c. c \<noteq> CHR ''='' \<and> \<not> isspace c) (k @ CHR ''='' # ?t) = k"
    "dropWhile (\<lambda>c. c \<noteq> CHR ''='' \<and> \<not> isspace c) (k @ CHR ''='' # ?t) = CHR ''='' # ?t"
    using k(1) by (simp_all add: takeWhile_append2 dropWhile_append2)
  have dw: "dropWhile isspace (k @ CHR ''='' # ?t) = k @ CHR ''='' # ?t" using k(2,3) by (cases k) simp_all
  show "read_pairs (Suc n) (conn_item k (pg_quote v) @ rest) = map_option (Cons (k, v)) (read_pairs n rest)"
    using k(2) sp v by (simp add: conn_item_def dw tw Let_def)
  show "read_pairs (Suc n) (CHR '' '' # conn_item k (pg_quote v) @ rest) = map_option (Cons (k, v)) (read_pairs n rest)"
    using k(2) sp v by (simp add: conn_item_def dw tw Let_def)
qed

lemma read_items:
  "list_all (plain_key \<circ> fst) kvs \<Longrightarrow> length kvs < n \<Longrightarrow> read_pairs n (conn_items kvs) = Some kvs"
proof (induction kvs arbitrary: n rule: conn_items.induct)
  case 1
  then show ?case by (cases n) simp_all
next
  case (2 k v kvs)
  then obtain m where "n = Suc m" "length kvs < m" by (cases n) auto
  with 2 show ?case by (simp add: read_item(2) del: read_pairs.simps)
qed

lemma conn_items_length: "length kvs \<le> length (conn_items kvs)"
  by (induction kvs rule: conn_items.induct) simp_all

lemma optional_plain: "list_all (plain_key \<circ> fst) (optional_pair k v) \<longleftrightarrow> plain_key k \<or> v = []"
  by (simp add: optional_pair_def)

lemma pairs_plain: "list_all (plain_key \<circ> fst) (conninfo_pairs o')"
  by (simp add: conninfo_pairs_def optional_plain plain_key_def isspace_def)


section \<open>Placeholders\<close>

text \<open>The statements without the characters on which the two scanners differ: plain characters, literals in single quotes
  with backslash escapes, identifiers in double quotes, and placeholders.\<close>

datatype literal_item = Lit_char char | Lit_escape char

datatype sql_piece = Piece_char char | Piece_literal "literal_item list" | Piece_ident string | Piece_param

primrec item_text :: "literal_item \<Rightarrow> string" where
  "item_text (Lit_char c) = [c]"
| "item_text (Lit_escape c) = [BSLASH, c]"

primrec piece_text :: "sql_piece \<Rightarrow> string" where
  "piece_text (Piece_char c) = [c]"
| "piece_text (Piece_literal items) = SQUOTE # concat (map item_text items) @ [SQUOTE]"
| "piece_text (Piece_ident s) = DQUOTE # s @ [DQUOTE]"
| "piece_text Piece_param = ''?''"

primrec item_ok :: "literal_item \<Rightarrow> bool" where
  "item_ok (Lit_char c) \<longleftrightarrow> c \<noteq> SQUOTE \<and> c \<noteq> BSLASH"
| "item_ok (Lit_escape c) \<longleftrightarrow> True"

primrec piece_ok :: "sql_piece \<Rightarrow> bool" where
  "piece_ok (Piece_char c) \<longleftrightarrow> c \<notin> {SQUOTE, DQUOTE, CHR 0x60, CHR ''?''}"
| "piece_ok (Piece_literal items) \<longleftrightarrow> list_all item_ok items"
| "piece_ok (Piece_ident s) \<longleftrightarrow> DQUOTE \<notin> set s \<and> BSLASH \<notin> set s"
| "piece_ok Piece_param \<longleftrightarrow> True"

text \<open>The same statement with numbered placeholders, from number \<open>i\<close> on.\<close>

fun numbered :: "nat \<Rightarrow> sql_piece list \<Rightarrow> string" where
  "numbered i [] = []"
| "numbered i (Piece_param # ps) = CHR ''$'' # dec_of_nat i @ numbered (i + 1) ps"
| "numbered i (p # ps) = piece_text p @ numbered i ps"

lemma rewrite_literal:
  "list_all item_ok items \<Longrightarrow>
     rewrite_loop True False False i (concat (map item_text items) @ SQUOTE # s)
       = concat (map item_text items) @ SQUOTE # rewrite_loop False False False i s
   \<and> count_loop True False False False n (concat (map item_text items) @ SQUOTE # s) = count_loop False False False False n s"
proof (induction items)
  case (Cons a items)
  then show ?case by (cases a) auto
qed simp

lemma rewrite_ident:
  "DQUOTE \<notin> set t \<Longrightarrow> BSLASH \<notin> set t \<Longrightarrow>
     rewrite_loop False True False i (t @ DQUOTE # s) = t @ DQUOTE # rewrite_loop False False False i s
   \<and> count_loop False True False False n (t @ DQUOTE # s) = count_loop False False False False n s"
  by (induction t) auto

lemma rewrite_pieces:
  "list_all piece_ok ps \<Longrightarrow> rewrite_loop False False False i (concat (map piece_text ps)) = numbered i ps
     \<and> count_loop False False False False n (concat (map piece_text ps)) = n + length (filter (\<lambda>p. p = Piece_param) ps)"
proof (induction ps arbitrary: i n)
  case (Cons p ps)
  show ?case
  proof (cases p)
    case (Piece_literal items)
    then show ?thesis using Cons rewrite_literal [of items i "concat (map piece_text ps)" n] by simp
  next
    case (Piece_ident s)
    then show ?thesis using Cons rewrite_ident [of s i "concat (map piece_text ps)" n] by simp
  qed (use Cons in auto)
qed simp

lemma c_str_id: "CHR 0x00 \<notin> set s \<Longrightarrow> c_str s = s"
  by (induction s) (auto simp: c_str_def)

lemma numbered_chars: "c \<in> set (numbered i ps) \<Longrightarrow> c \<in> set (concat (map piece_text ps)) \<or> c = CHR ''$'' \<or> isdigit c"
  by (induction i ps rule: numbered.induct) (auto dest: dec_of_nat_digits)

lemma numbered_plain: "filter (\<lambda>p. p = Piece_param) ps = [] \<Longrightarrow> numbered i ps = concat (map piece_text ps)"
  by (induction i ps rule: numbered.induct) auto



text \<open>The two scanners disagree on backslashes in identifiers and on backquotes, neither of which PostgreSQL treats
  specially: a correct statement is then refused.\<close>

theorem placeholder_counts_differ:
  "rewrite_qmark_to_dollar [DQUOTE, BSLASH, DQUOTE, CHR ''?''] = [DQUOTE, BSLASH, DQUOTE, CHR ''$'', CHR ''1'']
   \<and> count_placeholders [DQUOTE, BSLASH, DQUOTE, CHR ''?''] = 0
   \<and> rewrite_qmark_to_dollar [CHR 0x60, CHR ''?''] = [CHR 0x60, CHR ''$'', CHR ''1''] \<and> count_placeholders [CHR 0x60, CHR ''?''] = 0"
  by code_simp

end
