(* ===== verification/Sql.thy ===== *)
theory Sql
  imports Sql_Text "HOL-Library.Monad_Syntax" "HOL-Library.Multiset"
begin

text \<open>
  Connections of the SQL library (\<open>layer2/src/sql.cpp\<close>) with its three drivers built in: opening, closing, queries,
  one-shot queries, and the health check of a pooled connection (the pool's free list is the theory \<open>Pool\<close>).
  The client libraries are the parameter record \<open>sql_lib\<close> over a world \<open>'w\<close>. A loop that waits for the server may
  run for ever: it is a partial function, and \<open>None\<close> is an operation that does not return. An operation that
  returns is done, fails, or is stopped, by its timer or by its caller.
\<close>

section \<open>The client libraries\<close>

type_synonym cell = "string option"

record query_result =
  qr_columns :: "string list"
  qr_rows :: "cell list list"
  qr_affected_rows :: "64 word"
  qr_last_insert_id :: "64 word"

definition no_result :: query_result where
  "no_result = \<lparr>qr_columns = [], qr_rows = [], qr_affected_rows = 0, qr_last_insert_id = 0\<rparr>"

datatype sqlite_open_result = Sqlite_opened | Sqlite_no_handle | Sqlite_open_error string

datatype 'd bound_value = Bind_null | Bind_text string | Bind_int64 "64 word" | Bind_double 'd | Bind_int int

datatype sqlite_step_result = Sqlite_done | Sqlite_row "cell list" | Sqlite_step_error string

datatype poll_status = Poll_ok | Poll_failed | Poll_reading | Poll_writing | Poll_other

datatype wait_result = Wait_ready | Wait_bad_fd | Wait_error string | Wait_stopped

datatype pg_status = Pg_tuples | Pg_command_ok | Pg_error

record pg_result =
  pg_status :: pg_status
  pg_columns :: "string list"
  pg_rows :: "cell list list"
  pg_cmd_tuples :: "string option"
  pg_oid :: nat
  pg_message :: "string option"

text \<open>A MySQL value; floating-point numbers, dates and times of day carry the text the stream library gives them.\<close>

datatype mysql_field =
  Field_null | Field_string string | Field_blob string | Field_int64 "64 word" | Field_uint64 "64 word"
  | Field_printed string | Field_time int | Field_unknown

record mysql_results =
  my_affected_rows :: "64 word"
  my_last_insert_id :: "64 word"
  my_columns :: "string list"
  my_rows :: "mysql_field list list"

datatype mysql_error = Mysql_error (me_message: string) (me_server: string)

record ('d, 'w) sql_lib =
  sl_double_text :: "'d \<Rightarrow> string"
  sl_stod :: "string \<Rightarrow> 'd option"
  sl_expired :: "int \<Rightarrow> 'w \<Rightarrow> 'w \<Rightarrow> bool"
  sl_now :: "'w \<Rightarrow> int"
  sl_sqlite_open :: "string \<Rightarrow> 'w \<Rightarrow> sqlite_open_result \<times> 'w"
  sl_sqlite_close :: "'w \<Rightarrow> 'w"
  sl_sqlite_prepare :: "string \<Rightarrow> 'w \<Rightarrow> (string + nat \<times> string list) \<times> 'w"
  sl_sqlite_bind :: "nat \<Rightarrow> 'd bound_value \<Rightarrow> 'w \<Rightarrow> string option \<times> 'w"
  sl_sqlite_step :: "'w \<Rightarrow> sqlite_step_result \<times> 'w"
  sl_sqlite_finalize :: "'w \<Rightarrow> 'w"
  sl_sqlite_changes :: "'w \<Rightarrow> 64 word"
  sl_sqlite_last_rowid :: "'w \<Rightarrow> 64 word"
  sl_sqlite_interrupt :: "'w \<Rightarrow> 'w"
  sl_pg_start :: "string \<Rightarrow> 'w \<Rightarrow> bool \<times> 'w"
  sl_pg_set_nonblocking :: "'w \<Rightarrow> bool \<times> 'w"
  sl_pg_poll :: "'w \<Rightarrow> poll_status \<times> 'w"
  sl_pg_error :: "'w \<Rightarrow> string option"
  sl_pg_wait :: "bool \<Rightarrow> bool \<Rightarrow> 'w \<Rightarrow> wait_result \<times> 'w"
  sl_pg_send :: "string \<Rightarrow> string option list \<Rightarrow> 'w \<Rightarrow> bool \<times> 'w"
  sl_pg_flush :: "'w \<Rightarrow> int \<times> 'w"
  sl_pg_busy :: "'w \<Rightarrow> bool"
  sl_pg_consume :: "'w \<Rightarrow> bool \<times> 'w"
  sl_pg_get_result :: "'w \<Rightarrow> pg_result option \<times> 'w"
  sl_pg_finish :: "'w \<Rightarrow> 'w"
  sl_pg_cancel :: "'w \<Rightarrow> string option \<times> 'w"
  sl_mysql_connect :: "sql_options \<Rightarrow> 'w \<Rightarrow> mysql_error option \<times> 'w"
  sl_mysql_close :: "'w \<Rightarrow> 'w"
  sl_mysql_execute :: "string \<Rightarrow> 'w \<Rightarrow> (mysql_error + mysql_results) \<times> 'w"
  sl_mysql_prepare :: "string \<Rightarrow> 'w \<Rightarrow> (mysql_error + nat) \<times> 'w"
  sl_mysql_run :: "'d bound_value list \<Rightarrow> 'w \<Rightarrow> (mysql_error + mysql_results) \<times> 'w"
  sl_mysql_close_statement :: "'w \<Rightarrow> 'w"

text \<open>How an operation ends; \<open>Std_error\<close> is an exception of the standard library.\<close>

datatype sql_failure = Sql_error sql_error | Std_error

datatype 'a outcome = Done 'a | Fail sql_failure | Stopped

abbreviation fail_with :: "string \<Rightarrow> sql_error_kind \<Rightarrow> 'a outcome" where
  "fail_with m k \<equiv> Fail (Sql_error (SqlError m k))"

text \<open>The world of a connection: that of the libraries, and the prepared statements that are still allocated.\<close>

record 'w sql_world =
  qw_lib :: 'w
  qw_statements :: nat
  qw_mysql_statements :: nat

record sql_conn =
  sn_options :: sql_options
  sn_busy :: bool
  sn_pg :: bool
  sn_mysql :: bool
  sn_sqlite :: bool

definition new_conn :: sql_conn where
  "new_conn = \<lparr>sn_options = default_sql_options, sn_busy = False, sn_pg = False, sn_mysql = False, sn_sqlite = False\<rparr>"

definition sql_is_open :: "sql_conn \<Rightarrow> bool" where
  "sql_is_open c = (case so_driver (sn_options c) of Driver_postgres \<Rightarrow> sn_pg c | Driver_mysql \<Rightarrow> sn_mysql c | Driver_sqlite \<Rightarrow> sn_sqlite c)"

definition close_sync :: "('d, 'w) sql_lib \<Rightarrow> sql_conn \<Rightarrow> 'w sql_world \<Rightarrow> sql_conn \<times> 'w sql_world" where
  "close_sync lib c w =
     (let w1 = (if sn_pg c then sl_pg_finish lib (qw_lib w) else qw_lib w);
          w2 = (if sn_mysql c then sl_mysql_close lib w1 else w1);
          w3 = (if sn_sqlite c then sl_sqlite_close lib w2 else w2) in
      (c\<lparr>sn_pg := False, sn_mysql := False, sn_sqlite := False\<rparr>, w\<lparr>qw_lib := w3\<rparr>))"

section \<open>SQLite\<close>

definition open_sqlite_blocking ::
  "('d, 'w) sql_lib \<Rightarrow> sql_options \<Rightarrow> sql_conn \<Rightarrow> 'w sql_world \<Rightarrow> unit outcome \<times> sql_conn \<times> 'w sql_world" where
  "open_sqlite_blocking lib o' c w =
     (case close_sync lib c w of
        (c1, w1) \<Rightarrow>
          (case sl_sqlite_open lib (c_str (default_sqlite_file o')) (qw_lib w1) of
             (Sqlite_opened, x) \<Rightarrow> (Done (), c1\<lparr>sn_sqlite := True\<rparr>, w1\<lparr>qw_lib := x\<rparr>)
           | (Sqlite_no_handle, x) \<Rightarrow> (fail_with ''sqlite open failed'' SK_connect_failed, c1, w1\<lparr>qw_lib := x\<rparr>)
           | (Sqlite_open_error m, x) \<Rightarrow>
               (case close_sync lib (c1\<lparr>sn_sqlite := True\<rparr>) (w1\<lparr>qw_lib := x\<rparr>) of
                  (c2, w2) \<Rightarrow> (fail_with m SK_connect_failed, c2, w2))))"

text \<open>Reading a double back from its text may throw, as \<open>stod\<close> does for subnormal numbers.\<close>

definition sqlite_bound_value :: "('d, 'w) sql_lib \<Rightarrow> 'd sql_param \<Rightarrow> 'd bound_value option" where
  "sqlite_bound_value lib p =
     (case p of
        SP_null \<Rightarrow> Some Bind_null
      | SP_text s \<Rightarrow> Some (Bind_text s)
      | SP_int64 i \<Rightarrow> Some (Bind_int64 i)
      | SP_float64 d \<Rightarrow> map_option Bind_double (sl_stod lib (sl_double_text lib d))
      | SP_boolean b \<Rightarrow> Some (Bind_int (if sql_as_text (sl_double_text lib) p = ''1'' then 1 else 0)))"

definition sqlite_finalize :: "('d, 'w) sql_lib \<Rightarrow> 'w sql_world \<Rightarrow> 'w sql_world" where
  "sqlite_finalize lib w = w\<lparr>qw_lib := sl_sqlite_finalize lib (qw_lib w), qw_statements := qw_statements w - 1\<rparr>"

fun sqlite_bind_all ::
  "('d, 'w) sql_lib \<Rightarrow> nat \<Rightarrow> 'd sql_param list \<Rightarrow> 'w sql_world \<Rightarrow> unit outcome \<times> 'w sql_world" where
  "sqlite_bind_all lib i [] w = (Done (), w)"
| "sqlite_bind_all lib i (p # ps) w =
     (case sqlite_bound_value lib p of
        None \<Rightarrow> (Fail Std_error, w)
      | Some v \<Rightarrow>
          (case sl_sqlite_bind lib i v (qw_lib w) of
             (Some m, x) \<Rightarrow> (fail_with m SK_query_failed, sqlite_finalize lib (w\<lparr>qw_lib := x\<rparr>))
           | (None, x) \<Rightarrow> sqlite_bind_all lib (i + 1) ps (w\<lparr>qw_lib := x\<rparr>)))"

partial_function (option) sqlite_step_loop ::
  "('d, 'w) sql_lib \<Rightarrow> cell list list \<Rightarrow> 'w \<Rightarrow> ((string + cell list list) \<times> 'w) option" where
  "sqlite_step_loop lib rows x =
     (case sl_sqlite_step lib x of
        (r, x') \<Rightarrow>
          (case r of
             Sqlite_done \<Rightarrow> Some (Inr rows, x')
           | Sqlite_row row \<Rightarrow> sqlite_step_loop lib (rows @ [row]) x'
           | Sqlite_step_error m \<Rightarrow> Some (Inl m, x')))"

definition query_sqlite_blocking ::
  "('d, 'w) sql_lib \<Rightarrow> string \<Rightarrow> 'd sql_param list \<Rightarrow> sql_conn \<Rightarrow> 'w sql_world \<Rightarrow> (query_result outcome \<times> 'w sql_world) option" where
  "query_sqlite_blocking lib sql params c w =
     (if \<not> sn_sqlite c then Some (fail_with ''sqlite connection is not open'' SK_not_connected, w)
      else case sl_sqlite_prepare lib (c_str sql) (qw_lib w) of
             (Inl m, x) \<Rightarrow> Some (fail_with m SK_query_failed, w\<lparr>qw_lib := x\<rparr>)
           | (Inr (expected, columns), x) \<Rightarrow>
               let w1 = w\<lparr>qw_lib := x, qw_statements := qw_statements w + 1\<rparr> in
               if expected \<noteq> length params then
                 Some (fail_with ''sqlite parameter count does not match placeholders'' SK_invalid_argument, sqlite_finalize lib w1)
               else case sqlite_bind_all lib 1 params w1 of
                      (Fail e, w2) \<Rightarrow> Some (Fail e, w2)
                    | (Stopped, w2) \<Rightarrow> Some (Stopped, w2)
                    | (Done _, w2) \<Rightarrow>
                        do {
                          (r, x) \<leftarrow> sqlite_step_loop lib [] (qw_lib w2);
                          let w3 = sqlite_finalize lib (w2\<lparr>qw_lib := x\<rparr>);
                          Some (case r of
                            Inl m \<Rightarrow> fail_with m SK_query_failed
                          | Inr rows \<Rightarrow> Done \<lparr>qr_columns = columns, qr_rows = rows,
                              qr_affected_rows = sl_sqlite_changes lib (qw_lib w3),
                              qr_last_insert_id = sl_sqlite_last_rowid lib (qw_lib w3)\<rparr>, w3)
                        })"

section \<open>PostgreSQL\<close>

definition pg_error_or :: "('d, 'w) sql_lib \<Rightarrow> string \<Rightarrow> 'w \<Rightarrow> string" where
  "pg_error_or lib d x = (case sl_pg_error lib x of Some m \<Rightarrow> m | None \<Rightarrow> d)"

text \<open>Waiting for the socket, then going on.\<close>

definition wait_outcome :: "wait_result \<Rightarrow> unit outcome" where
  "wait_outcome r =
     (case r of
        Wait_ready \<Rightarrow> Done ()
      | Wait_bad_fd \<Rightarrow> fail_with ''invalid database socket fd'' SK_internal_error
      | Wait_error m \<Rightarrow> fail_with m SK_query_failed
      | Wait_stopped \<Rightarrow> Stopped)"

partial_function (option) pg_connect_loop :: "('d, 'w) sql_lib \<Rightarrow> 'w \<Rightarrow> (unit outcome \<times> 'w) option" where
  "pg_connect_loop lib x =
     (case sl_pg_poll lib x of
        (poll, x1) \<Rightarrow>
          (case poll of
             Poll_ok \<Rightarrow> Some (Done (), x1)
           | Poll_failed \<Rightarrow> Some (fail_with (pg_error_or lib ''postgres connect failed'' x1) SK_connect_failed, x1)
           | Poll_other \<Rightarrow> Some (fail_with ''postgres connect returned unexpected polling status'' SK_connect_failed, x1)
           | _ \<Rightarrow>
               (case sl_pg_wait lib (poll = Poll_reading) (poll = Poll_writing) x1 of
                  (r, x2) \<Rightarrow>
                    (case wait_outcome r of
                       Done _ \<Rightarrow> pg_connect_loop lib x2
                     | Fail e \<Rightarrow> Some (Fail e, x2)
                     | Stopped \<Rightarrow> Some (Stopped, x2)))))"

text \<open>The start of the connection; what follows it is run by \<open>let_value\<close>, and every error, but not a stop, closes the
  connection again.\<close>

definition pg_connect_start ::
  "('d, 'w) sql_lib \<Rightarrow> sql_options \<Rightarrow> sql_conn \<Rightarrow> 'w sql_world \<Rightarrow> unit outcome \<times> sql_conn \<times> 'w sql_world" where
  "pg_connect_start lib o' c w =
     (if so_database o' = [] then (fail_with ''postgres requires database name'' SK_invalid_argument, c, w)
      else case sl_pg_start lib (c_str (make_conninfo o')) (qw_lib w) of
             (False, x) \<Rightarrow> (fail_with ''postgres connection start failed'' SK_connect_failed, c, w\<lparr>qw_lib := x\<rparr>)
           | (True, x) \<Rightarrow>
               (case sl_pg_set_nonblocking lib x of
                  (True, x1) \<Rightarrow> (Done (), c\<lparr>sn_pg := True\<rparr>, w\<lparr>qw_lib := x1\<rparr>)
                | (False, x1) \<Rightarrow>
                    (case close_sync lib (c\<lparr>sn_pg := True\<rparr>) (w\<lparr>qw_lib := x1\<rparr>) of
                       (c1, w1) \<Rightarrow> (fail_with (pg_error_or lib ''postgres connection failed'' x1) SK_connect_failed, c1, w1))))"

definition open_postgres ::
  "('d, 'w) sql_lib \<Rightarrow> sql_options \<Rightarrow> sql_conn \<Rightarrow> 'w sql_world \<Rightarrow> (unit outcome \<times> sql_conn \<times> 'w sql_world) option" where
  "open_postgres lib o' c w =
     (case close_sync lib c w of
        (c0, w0) \<Rightarrow>
          (case pg_connect_start lib o' c0 w0 of
             (Done _, c1, w1) \<Rightarrow>
               do {
                 (r, x) \<leftarrow> pg_connect_loop lib (qw_lib w1);
                 let w2 = w1\<lparr>qw_lib := x\<rparr>;
                 Some (case r of
                   Fail e \<Rightarrow> (case close_sync lib c1 w2 of (c2, w3) \<Rightarrow> (Fail e, c2, w3))
                 | _ \<Rightarrow> (r, c1, w2))
               }
           | (Fail e, c1, w1) \<Rightarrow> (case close_sync lib c1 w1 of (c2, w2) \<Rightarrow> Some (Fail e, c2, w2))
           | (Stopped, c1, w1) \<Rightarrow> Some (Stopped, c1, w1)))"

definition parse_postgres_result :: "pg_result \<Rightarrow> query_result \<Rightarrow> sql_error + query_result" where
  "parse_postgres_result r out =
     (let finish = (\<lambda>out. if pg_oid r \<noteq> 0 then out\<lparr>qr_last_insert_id := of_nat (pg_oid r)\<rparr> else out) in
      case pg_status r of
        Pg_tuples \<Rightarrow> Inr (finish (out\<lparr>qr_columns := (if qr_columns out = [] then pg_columns r else qr_columns out),
                                  qr_rows := qr_rows out @ pg_rows r\<rparr>))
      | Pg_command_ok \<Rightarrow>
          Inr (finish (out\<lparr>qr_affected_rows := qr_affected_rows out
             + parse_u64 (case pg_cmd_tuples r of None \<Rightarrow> [] | Some t \<Rightarrow> t)\<rparr>))
      | Pg_error \<Rightarrow> Inl (SqlError (case pg_message r of None \<Rightarrow> ''postgres query failed'' | Some m \<Rightarrow> m) SK_query_failed))"

partial_function (option) pg_flush_loop :: "('d, 'w) sql_lib \<Rightarrow> 'w \<Rightarrow> (unit outcome \<times> 'w) option" where
  "pg_flush_loop lib x =
     (case sl_pg_flush lib x of
        (flush, x1) \<Rightarrow>
          if flush = 0 then Some (Done (), x1)
          else if flush < 0 then Some (fail_with (pg_error_or lib ''postgres flush failed'' x1) SK_query_failed, x1)
          else (case sl_pg_wait lib False True x1 of
                  (r, x2) \<Rightarrow>
                    (case wait_outcome r of
                       Done _ \<Rightarrow> pg_flush_loop lib x2
                     | Fail e \<Rightarrow> Some (Fail e, x2)
                     | Stopped \<Rightarrow> Some (Stopped, x2))))"

partial_function (option) pg_busy_loop :: "('d, 'w) sql_lib \<Rightarrow> 'w \<Rightarrow> (unit outcome \<times> 'w) option" where
  "pg_busy_loop lib x =
     (if \<not> sl_pg_busy lib x then Some (Done (), x)
      else (case sl_pg_wait lib True False x of
              (r, x1) \<Rightarrow>
                (case wait_outcome r of
                   Done _ \<Rightarrow>
                     (case sl_pg_consume lib x1 of
                        (ok, x2) \<Rightarrow>
                          if ok then pg_busy_loop lib x2
                          else Some (fail_with (pg_error_or lib ''postgres consume input failed'' x2) SK_query_failed, x2))
                 | Fail e \<Rightarrow> Some (Fail e, x1)
                 | Stopped \<Rightarrow> Some (Stopped, x1))))"

partial_function (option) pg_drain_loop ::
  "('d, 'w) sql_lib \<Rightarrow> query_result \<Rightarrow> 'w \<Rightarrow> (query_result outcome \<times> 'w) option" where
  "pg_drain_loop lib out x =
     Option.bind (pg_busy_loop lib x) (\<lambda>(r, x1).
       (case r of
          Done _ \<Rightarrow>
            (case sl_pg_get_result lib x1 of
               (res, x2) \<Rightarrow>
                 (case res of
                    None \<Rightarrow> Some (Done out, x2)
                  | Some pr \<Rightarrow>
                      (case parse_postgres_result pr out of
                         Inl e \<Rightarrow> Some (Fail (Sql_error e), x2)
                       | Inr out' \<Rightarrow> pg_drain_loop lib out' x2)))
        | Fail e \<Rightarrow> Some (Fail e, x1)
        | Stopped \<Rightarrow> Some (Stopped, x1)))"

definition query_postgres ::
  "('d, 'w) sql_lib \<Rightarrow> string \<Rightarrow> 'd sql_param list \<Rightarrow> sql_conn \<Rightarrow> 'w \<Rightarrow> (query_result outcome \<times> 'w) option" where
  "query_postgres lib sql params c x =
     (if \<not> sn_pg c then Some (fail_with ''postgres connection is not open'' SK_not_connected, x)
      else case postgres_statement (sl_double_text lib) sql params of
             Inl e \<Rightarrow> Some (Fail (Sql_error e), x)
           | Inr (statement, values) \<Rightarrow>
               (case sl_pg_send lib statement values x of
                  (False, x1) \<Rightarrow> Some (fail_with (pg_error_or lib ''postgres query failed'' x1) SK_query_failed, x1)
                | (True, x1) \<Rightarrow>
                    do {
                      (r, x2) \<leftarrow> pg_flush_loop lib x1;
                      (case r of
                         Done _ \<Rightarrow> pg_drain_loop lib no_result x2
                       | Fail e \<Rightarrow> Some (Fail e, x2)
                       | Stopped \<Rightarrow> Some (Stopped, x2))
                    }))"

section \<open>MySQL\<close>

definition mysql_error_message :: "mysql_error \<Rightarrow> string" where
  "mysql_error_message e =
     (let m = me_message e @ (if me_server e \<noteq> [] then (if me_message e \<noteq> [] then '': '' else []) @ me_server e else []) in
      if m \<noteq> [] then m else ''mysql operation failed'')"

definition mysql_param_to_field :: "('d, 'w) sql_lib \<Rightarrow> 'd sql_param \<Rightarrow> 'd bound_value option" where
  "mysql_param_to_field lib p =
     (case p of
        SP_null \<Rightarrow> Some Bind_null
      | SP_text s \<Rightarrow> Some (Bind_text s)
      | SP_int64 i \<Rightarrow> Some (Bind_int64 i)
      | SP_float64 d \<Rightarrow> map_option Bind_double (sl_stod lib (sl_double_text lib d))
      | SP_boolean b \<Rightarrow> Some (Bind_int (if sql_as_text (sl_double_text lib) p = ''1'' then 1 else 0)))"

primrec mysql_field_to_cell :: "mysql_field \<Rightarrow> cell" where
  "mysql_field_to_cell Field_null = None"
| "mysql_field_to_cell (Field_string s) = Some s"
| "mysql_field_to_cell (Field_blob s) = Some s"
| "mysql_field_to_cell (Field_int64 i) = Some (dec_of_int (sint i))"
| "mysql_field_to_cell (Field_uint64 i) = Some (dec_of_int (uint i))"
| "mysql_field_to_cell (Field_printed s) = Some s"
| "mysql_field_to_cell (Field_time t) = Some (dec_of_int t)"
| "mysql_field_to_cell Field_unknown = Some []"

definition mysql_results_to_query_result :: "mysql_results \<Rightarrow> query_result" where
  "mysql_results_to_query_result r = \<lparr>qr_columns = my_columns r, qr_rows = map (map mysql_field_to_cell) (my_rows r),
     qr_affected_rows = my_affected_rows r, qr_last_insert_id = my_last_insert_id r\<rparr>"

definition open_mysql ::
  "('d, 'w) sql_lib \<Rightarrow> sql_options \<Rightarrow> sql_conn \<Rightarrow> 'w sql_world \<Rightarrow> unit outcome \<times> sql_conn \<times> 'w sql_world" where
  "open_mysql lib o' c w =
     (case close_sync lib c w of
        (c0, w0) \<Rightarrow>
          let c1 = c0\<lparr>sn_mysql := True\<rparr> in
          (case sl_mysql_connect lib o' (qw_lib w0) of
             (None, x) \<Rightarrow> (Done (), c1, w0\<lparr>qw_lib := x\<rparr>)
           | (Some e, x) \<Rightarrow>
               (case close_sync lib c1 (w0\<lparr>qw_lib := x\<rparr>) of
                  (c2, w2) \<Rightarrow> (fail_with (mysql_error_message e) SK_connect_failed, c2, w2))))"

definition close_mysql :: "('d, 'w) sql_lib \<Rightarrow> sql_conn \<Rightarrow> 'w sql_world \<Rightarrow> sql_conn \<times> 'w sql_world" where
  "close_mysql lib c w =
     (c\<lparr>sn_mysql := False\<rparr>, if sn_mysql c then w\<lparr>qw_lib := sl_mysql_close lib (qw_lib w)\<rparr> else w)"

definition open_mysql_checked ::
  "('d, 'w) sql_lib \<Rightarrow> sql_options \<Rightarrow> sql_conn \<Rightarrow> 'w sql_world \<Rightarrow> unit outcome \<times> sql_conn \<times> 'w sql_world" where
  "open_mysql_checked lib o' c w =
     (case open_mysql lib o' c w of
        (Fail e, c1, w1) \<Rightarrow> (case close_mysql lib c1 w1 of (c2, w2) \<Rightarrow> (Fail e, c2, w2))
      | r \<Rightarrow> r)"

definition query_mysql ::
  "('d, 'w) sql_lib \<Rightarrow> string \<Rightarrow> 'd sql_param list \<Rightarrow> sql_conn \<Rightarrow> 'w sql_world \<Rightarrow> query_result outcome \<times> 'w sql_world" where
  "query_mysql lib sql params c w =
     (if \<not> sn_mysql c then (fail_with ''mysql connection is not open'' SK_not_connected, w)
      else if params = [] then
        (case sl_mysql_execute lib sql (qw_lib w) of
           (Inl e, x) \<Rightarrow> (fail_with (mysql_error_message e) SK_query_failed, w\<lparr>qw_lib := x\<rparr>)
         | (Inr r, x) \<Rightarrow> (Done (mysql_results_to_query_result r), w\<lparr>qw_lib := x\<rparr>))
      else if \<exists>p \<in> set params. mysql_param_to_field lib p = None then (Fail Std_error, w)
      else
        (case sl_mysql_prepare lib sql (qw_lib w) of
           (Inl e, x) \<Rightarrow> (fail_with (mysql_error_message e) SK_query_failed, w\<lparr>qw_lib := x\<rparr>)
         | (Inr num_params, x) \<Rightarrow>
             let w1 = w\<lparr>qw_lib := x, qw_mysql_statements := qw_mysql_statements w + 1\<rparr> in
             if num_params \<noteq> length params then
               (fail_with ''mysql parameter count does not match placeholders'' SK_invalid_argument, w1)
             else
               (case sl_mysql_run lib (List.map_filter (mysql_param_to_field lib) params) (qw_lib w1) of
                  (Inl e, x) \<Rightarrow> (fail_with (mysql_error_message e) SK_query_failed, w1\<lparr>qw_lib := x\<rparr>)
                | (Inr r, x) \<Rightarrow>
                    (Done (mysql_results_to_query_result r),
                     w1\<lparr>qw_lib := sl_mysql_close_statement lib x, qw_mysql_statements := qw_mysql_statements w1 - 1\<rparr>))))"

section \<open>Connections\<close>

text \<open>\<open>OperationGuard\<close>.\<close>

definition sql_guarded ::
  "(sql_conn \<Rightarrow> 'w sql_world \<Rightarrow> ('a outcome \<times> sql_conn \<times> 'w sql_world) option)
     \<Rightarrow> sql_conn \<Rightarrow> 'w sql_world \<Rightarrow> ('a outcome \<times> sql_conn \<times> 'w sql_world) option" where
  "sql_guarded f c w =
     (if sn_busy c then Some (fail_with ''sql connection is busy with another operation'' SK_internal_error, c, w)
      else map_option (\<lambda>(r, c', w'). (r, c'\<lparr>sn_busy := False\<rparr>, w')) (f (c\<lparr>sn_busy := True\<rparr>) w))"

text \<open>\<open>when_any\<close> with a timer. A stop reaches the waits of the PostgreSQL driver; the other two drivers run to their end, and
  their result is dropped when the timer was first.\<close>

definition timed ::
  "('d, 'w) sql_lib \<Rightarrow> int option \<Rightarrow> sql_driver \<Rightarrow> sql_error \<Rightarrow> 'w \<Rightarrow> 'a outcome \<Rightarrow> 'w \<Rightarrow> 'a outcome" where
  "timed lib timeout driver err x r x' =
     (case timeout of
        None \<Rightarrow> r
      | Some t \<Rightarrow>
          if driver = Driver_postgres then (case r of Stopped \<Rightarrow> Fail (Sql_error err) | _ \<Rightarrow> r)
          else if sl_expired lib t x x' then Fail (Sql_error err) else r)"

definition run_open ::
  "('d, 'w) sql_lib \<Rightarrow> sql_options \<Rightarrow> sql_conn \<Rightarrow> 'w sql_world \<Rightarrow> (unit outcome \<times> sql_conn \<times> 'w sql_world) option" where
  "run_open lib o' c w =
     (case so_driver o' of
        Driver_sqlite \<Rightarrow> Some (open_sqlite_blocking lib o' c w)
      | Driver_postgres \<Rightarrow> open_postgres lib o' c w
      | Driver_mysql \<Rightarrow> Some (open_mysql_checked lib o' c w))"

definition conn_open ::
  "('d, 'w) sql_lib \<Rightarrow> bool \<Rightarrow> sql_options \<Rightarrow> sql_conn \<Rightarrow> 'w sql_world \<Rightarrow> (unit outcome \<times> sql_conn \<times> 'w sql_world) option" where
  "conn_open lib runtime o' = sql_guarded (\<lambda>c w.
     if \<not> runtime then Some (fail_with ''sql::Connection::open requires current runtime'' SK_runtime_missing, c, w)
     else do {
       (r, c1, w1) \<leftarrow> run_open lib o' c w;
       let r' = timed lib (if so_connect_timeout_ms o' > 0 then Some (so_connect_timeout_ms o') else None) (so_driver o')
                  (SqlError ''sql connect timeout'' SK_connect_failed) (qw_lib w) r (qw_lib w1);
       Some (r', (case r' of Done _ \<Rightarrow> c1\<lparr>sn_options := o'\<rparr> | _ \<Rightarrow> c1), w1)
     })"

definition conn_close ::
  "('d, 'w) sql_lib \<Rightarrow> bool \<Rightarrow> sql_conn \<Rightarrow> 'w sql_world \<Rightarrow> (unit outcome \<times> sql_conn \<times> 'w sql_world) option" where
  "conn_close lib runtime = sql_guarded (\<lambda>c w.
     if \<not> runtime then Some (fail_with ''sql::Connection::close requires current runtime'' SK_runtime_missing, c, w)
     else Some (Done (), if so_driver (sn_options c) = Driver_mysql then close_mysql lib c w else close_sync lib c w))"

definition run_query ::
  "('d, 'w) sql_lib \<Rightarrow> string \<Rightarrow> 'd sql_param list \<Rightarrow> sql_conn \<Rightarrow> 'w sql_world \<Rightarrow> (query_result outcome \<times> 'w sql_world) option" where
  "run_query lib sql params c w =
     (case so_driver (sn_options c) of
        Driver_sqlite \<Rightarrow> query_sqlite_blocking lib sql params c w
      | Driver_postgres \<Rightarrow> map_option (\<lambda>(r, x). (r, w\<lparr>qw_lib := x\<rparr>)) (query_postgres lib sql params c (qw_lib w))
      | Driver_mysql \<Rightarrow> Some (query_mysql lib sql params c w))"

definition conn_query ::
  "('d, 'w) sql_lib \<Rightarrow> bool \<Rightarrow> string \<Rightarrow> 'd sql_param list \<Rightarrow> int \<Rightarrow> sql_conn \<Rightarrow> 'w sql_world
     \<Rightarrow> (query_result outcome \<times> sql_conn \<times> 'w sql_world) option" where
  "conn_query lib runtime sql params timeout_ms = sql_guarded (\<lambda>c w.
     if \<not> runtime then Some (fail_with ''sql::Connection::query requires current runtime'' SK_runtime_missing, c, w)
     else do {
       (r, w1) \<leftarrow> run_query lib sql params c w;
       Some (timed lib (sql_choose_timeout_ms (sn_options c) timeout_ms) (so_driver (sn_options c))
               (SqlError ''sql query timeout'' SK_query_failed) (qw_lib w) r (qw_lib w1), c, w1)
     })"

primrec drop_result :: "'a outcome \<Rightarrow> unit outcome" where
  "drop_result (Done r) = Done ()"
| "drop_result (Fail e) = Fail e"
| "drop_result Stopped = Stopped"

definition conn_command ::
  "string \<Rightarrow> ('d, 'w) sql_lib \<Rightarrow> bool \<Rightarrow> sql_conn \<Rightarrow> 'w sql_world \<Rightarrow> (unit outcome \<times> sql_conn \<times> 'w sql_world) option" where
  "conn_command sql lib runtime c w = map_option (\<lambda>(r, c', w'). (drop_result r, c', w')) (conn_query lib runtime sql [] 0 c w)"

definition conn_begin :: "('d, 'w) sql_lib \<Rightarrow> bool \<Rightarrow> sql_conn \<Rightarrow> 'w sql_world \<Rightarrow> (unit outcome \<times> sql_conn \<times> 'w sql_world) option" where
  "conn_begin = conn_command ''BEGIN''"

definition conn_commit :: "('d, 'w) sql_lib \<Rightarrow> bool \<Rightarrow> sql_conn \<Rightarrow> 'w sql_world \<Rightarrow> (unit outcome \<times> sql_conn \<times> 'w sql_world) option" where
  "conn_commit = conn_command ''COMMIT''"

definition conn_rollback :: "('d, 'w) sql_lib \<Rightarrow> bool \<Rightarrow> sql_conn \<Rightarrow> 'w sql_world \<Rightarrow> (unit outcome \<times> sql_conn \<times> 'w sql_world) option" where
  "conn_rollback = conn_command ''ROLLBACK''"

definition conn_cancel :: "('d, 'w) sql_lib \<Rightarrow> sql_conn \<Rightarrow> 'w sql_world \<Rightarrow> unit outcome \<times> sql_conn \<times> 'w sql_world" where
  "conn_cancel lib c w =
     (case so_driver (sn_options c) of
        Driver_sqlite \<Rightarrow> (Done (), c, if sn_sqlite c then w\<lparr>qw_lib := sl_sqlite_interrupt lib (qw_lib w)\<rparr> else w)
      | Driver_postgres \<Rightarrow>
          if \<not> sn_pg c then (Done (), c, w)
          else (case sl_pg_cancel lib (qw_lib w) of
                  (None, x) \<Rightarrow> (Done (), c, w\<lparr>qw_lib := x\<rparr>)
                | (Some m, x) \<Rightarrow> (fail_with (if m = [] then ''postgres cancel failed'' else m) SK_query_failed, c, w\<lparr>qw_lib := x\<rparr>))
      | Driver_mysql \<Rightarrow> if sn_busy c then (Done (), c, w) else (Done (), close_mysql lib c w))"

text \<open>A one-shot query: the connection is opened, used and closed, and its destructor runs at the end.\<close>

definition one_shot_query ::
  "('d, 'w) sql_lib \<Rightarrow> bool \<Rightarrow> sql_options \<Rightarrow> string \<Rightarrow> 'd sql_param list \<Rightarrow> int \<Rightarrow> 'w sql_world
     \<Rightarrow> (query_result outcome \<times> 'w sql_world) option" where
  "one_shot_query lib runtime o' sql params timeout_ms w =
     do {
       (r0, c1, w1) \<leftarrow> conn_open lib runtime o' new_conn w;
       (case r0 of
          Fail e \<Rightarrow> Some (Fail e, snd (close_sync lib c1 w1))
        | Stopped \<Rightarrow> Some (Stopped, snd (close_sync lib c1 w1))
        | Done _ \<Rightarrow>
            do {
              (r, c2, w2) \<leftarrow> conn_query lib runtime sql params timeout_ms c1 w1;
              (case r of
                 Stopped \<Rightarrow> Some (Stopped, snd (close_sync lib c2 w2))
               | _ \<Rightarrow>
                   do {
                     (_, c3, w3) \<leftarrow> conn_close lib runtime c2 w2;
                     Some (r, snd (close_sync lib c3 w3))
                   })
            })
     }"

section \<open>Pooled connections\<close>

record sql_pool_options =
  sp_connection :: sql_options
  sp_max_connections :: nat
  sp_preconnect :: bool
  sp_acquire_timeout_ms :: int
  sp_max_lifetime_ms :: int
  sp_health_check_sql :: string

record sql_slots =
  ss_conns :: "sql_conn list"
  ss_born :: "int list"

definition set_conn :: "nat \<Rightarrow> sql_conn \<Rightarrow> sql_slots \<Rightarrow> sql_slots" where
  "set_conn i c s = s\<lparr>ss_conns := (ss_conns s)[i := c]\<rparr>"

definition sql_open_slot ::
  "('d, 'w) sql_lib \<Rightarrow> bool \<Rightarrow> sql_pool_options \<Rightarrow> nat \<Rightarrow> sql_slots \<Rightarrow> 'w sql_world
     \<Rightarrow> (unit outcome \<times> sql_slots \<times> 'w sql_world) option" where
  "sql_open_slot lib runtime po i s w =
     do {
       (r, c, w') \<leftarrow> conn_open lib runtime (sp_connection po) (ss_conns s ! i) w;
       let s' = set_conn i c s;
       Some (r, (case r of Done _ \<Rightarrow> s'\<lparr>ss_born := (ss_born s')[i := sl_now lib (qw_lib w')]\<rparr> | _ \<Rightarrow> s'), w')
     }"

definition sql_reopen_slot ::
  "('d, 'w) sql_lib \<Rightarrow> bool \<Rightarrow> sql_pool_options \<Rightarrow> nat \<Rightarrow> sql_slots \<Rightarrow> 'w sql_world
     \<Rightarrow> (unit outcome \<times> sql_slots \<times> 'w sql_world) option" where
  "sql_reopen_slot lib runtime po i s w =
     do {
       (_, c, w') \<leftarrow> conn_close lib runtime (ss_conns s ! i) w;
       sql_open_slot lib runtime po i (set_conn i c s) w'
     }"

definition sql_ensure_healthy ::
  "('d, 'w) sql_lib \<Rightarrow> bool \<Rightarrow> sql_pool_options \<Rightarrow> nat \<Rightarrow> sql_slots \<Rightarrow> 'w sql_world
     \<Rightarrow> (unit outcome \<times> sql_slots \<times> 'w sql_world) option" where
  "sql_ensure_healthy lib runtime po i s w =
     (if \<not> sql_is_open (ss_conns s ! i)
         \<or> (sp_max_lifetime_ms po > 0 \<and> sl_now lib (qw_lib w) - ss_born s ! i \<ge> sp_max_lifetime_ms po)
      then sql_reopen_slot lib runtime po i s w
      else if sp_health_check_sql po = [] then Some (Done (), s, w)
      else do {
             (r, c, w') \<leftarrow> conn_query lib runtime (sp_health_check_sql po) [] 0 (ss_conns s ! i) w;
             (case r of
                Done _ \<Rightarrow> Some (Done (), set_conn i c s, w')
              | Fail _ \<Rightarrow> sql_reopen_slot lib runtime po i (set_conn i c s) w'
              | Stopped \<Rightarrow> Some (Stopped, set_conn i c s, w'))
           })"

fun sql_preconnect_loop ::
  "('d, 'w) sql_lib \<Rightarrow> bool \<Rightarrow> sql_pool_options \<Rightarrow> nat list \<Rightarrow> nat list \<Rightarrow> sql_slots \<Rightarrow> 'w sql_world
     \<Rightarrow> (nat list outcome \<times> sql_slots \<times> 'w sql_world) option" where
  "sql_preconnect_loop lib runtime po [] available s w = Some (Done available, s, w)"
| "sql_preconnect_loop lib runtime po (i # is) available s w =
     do {
       (r, s', w') \<leftarrow> sql_open_slot lib runtime po i s w;
       (case r of
          Done _ \<Rightarrow> sql_preconnect_loop lib runtime po is (available @ [i]) s' w'
        | Fail e \<Rightarrow> Some (Fail e, s', w')
        | Stopped \<Rightarrow> Some (Stopped, s', w'))
     }"

definition sql_pool_init ::
  "('d, 'w) sql_lib \<Rightarrow> bool \<Rightarrow> sql_pool_options \<Rightarrow> 'w sql_world \<Rightarrow> (nat list outcome \<times> sql_slots \<times> 'w sql_world) option" where
  "sql_pool_init lib runtime po w =
     (let n = sp_max_connections po;
          s = \<lparr>ss_conns = replicate n new_conn, ss_born = replicate n (sl_now lib (qw_lib w))\<rparr> in
      if n = 0 then
        Some (fail_with ''connection pool max_connections must be > 0'' SK_invalid_argument, \<lparr>ss_conns = [], ss_born = []\<rparr>, w)
      else if \<not> sp_preconnect po then Some (Done [0..<n], s, w)
      else sql_preconnect_loop lib runtime po [0..<n] [] s w)"

fun sql_pool_close ::
  "('d, 'w) sql_lib \<Rightarrow> bool \<Rightarrow> nat list \<Rightarrow> sql_slots \<Rightarrow> 'w sql_world \<Rightarrow> (sql_slots \<times> 'w sql_world) option" where
  "sql_pool_close lib runtime [] s w = Some (s, w)"
| "sql_pool_close lib runtime (i # is) s w =
     do {
       (_, c, w') \<leftarrow> conn_close lib runtime (ss_conns s ! i) w;
       sql_pool_close lib runtime is (set_conn i c s) w'
     }"

text \<open>\<open>PooledConnection\<close>, the lease of an index: the objects of a program by number, and the indices given back so far.\<close>

record lease =
  le_impl :: bool
  le_index :: nat
  le_held :: bool

definition lease_valid :: "lease \<Rightarrow> bool" where
  "lease_valid l \<longleftrightarrow> le_held l \<and> le_impl l"

definition new_lease :: "nat \<Rightarrow> lease" where
  "new_lease i = \<lparr>le_impl = True, le_index = i, le_held = True\<rparr>"

definition moved_lease :: lease where
  "moved_lease = \<lparr>le_impl = False, le_index = 0, le_held = False\<rparr>"

record lease_state =
  ls_objects :: "lease list"
  ls_released :: "nat list"

definition lease_release :: "nat \<Rightarrow> lease_state \<Rightarrow> lease_state" where
  "lease_release i s =
     (let l = ls_objects s ! i in
      if \<not> le_held l \<or> \<not> le_impl l then s
      else s\<lparr>ls_objects := (ls_objects s)[i := l\<lparr>le_held := False\<rparr>], ls_released := ls_released s @ [le_index l]\<rparr>)"

definition lease_move_construct :: "nat \<Rightarrow> lease_state \<Rightarrow> lease_state" where
  "lease_move_construct j s = s\<lparr>ls_objects := (ls_objects s)[j := moved_lease] @ [ls_objects s ! j]\<rparr>"

definition lease_move_assign :: "nat \<Rightarrow> nat \<Rightarrow> lease_state \<Rightarrow> lease_state" where
  "lease_move_assign i j s =
     (if i = j then s
      else let s1 = lease_release i s in
           s1\<lparr>ls_objects := (ls_objects s1)[i := ls_objects s1 ! j, j := moved_lease]\<rparr>)"

text \<open>The destructor.\<close>

definition lease_destroy :: "nat \<Rightarrow> lease_state \<Rightarrow> lease_state" where
  "lease_destroy i s = (let s1 = lease_release i s in s1\<lparr>ls_objects := take i (ls_objects s1) @ drop (Suc i) (ls_objects s1)\<rparr>)"

section \<open>Leases\<close>

text \<open>What a program does with its lease objects; \<open>Lease_acquire\<close> is a lease from \<open>acquire\<close>, whose index is logged.\<close>

datatype lease_op = Lease_acquire nat | Lease_release nat | Lease_construct nat | Lease_assign nat nat | Lease_destroy nat

fun lease_step :: "nat list \<times> lease_state \<Rightarrow> lease_op \<Rightarrow> nat list \<times> lease_state" where
  "lease_step (log, s) (Lease_acquire k) = (log @ [k], s\<lparr>ls_objects := ls_objects s @ [new_lease k]\<rparr>)"
| "lease_step (log, s) (Lease_release i) = (log, if i < length (ls_objects s) then lease_release i s else s)"
| "lease_step (log, s) (Lease_construct i) = (log, if i < length (ls_objects s) then lease_move_construct i s else s)"
| "lease_step (log, s) (Lease_assign i j) =
     (log, if i < length (ls_objects s) \<and> j < length (ls_objects s) then lease_move_assign i j s else s)"
| "lease_step (log, s) (Lease_destroy i) = (log, if i < length (ls_objects s) then lease_destroy i s else s)"

definition held_indices :: "lease list \<Rightarrow> nat multiset" where
  "held_indices ls = image_mset le_index (filter_mset lease_valid (mset ls))"

fun leases_accounted :: "nat list \<times> lease_state \<Rightarrow> bool" where
  "leases_accounted (log, s) \<longleftrightarrow> mset log = held_indices (ls_objects s) + mset (ls_released s)"

lemma held_split:
  assumes "i < length ls"
  shows "held_indices ls = held_indices (take i ls @ drop (Suc i) ls) + (if lease_valid (ls ! i) then {#le_index (ls ! i)#} else {#})"
proof -
  have "ls = take i ls @ ls ! i # drop (Suc i) ls" using assms by (simp add: id_take_nth_drop)
  then have "mset ls = mset (take i ls @ ls ! i # drop (Suc i) ls)" by simp
  then show ?thesis by (simp add: held_indices_def)
qed

lemma held_update:
  assumes "i < length ls"
  shows "held_indices (ls[i := l]) + (if lease_valid (ls ! i) then {#le_index (ls ! i)#} else {#})
    = held_indices ls + (if lease_valid l then {#le_index l#} else {#})"
  using held_split [of i "ls[i := l]"] held_split [of i ls] assms by (simp add: ac_simps)

lemma held_append: "held_indices (xs @ ys) = held_indices xs + held_indices ys"
  by (simp add: held_indices_def)

lemma held_single: "held_indices [l] = (if lease_valid l then {#le_index l#} else {#})"
  by (simp add: held_indices_def)

lemma release_accounted:
  assumes "i < length (ls_objects s)"
  shows "held_indices (ls_objects (lease_release i s)) + mset (ls_released (lease_release i s))
       = held_indices (ls_objects s) + mset (ls_released s)"
    and "length (ls_objects (lease_release i s)) = length (ls_objects s)"
    and "\<not> lease_valid (ls_objects (lease_release i s) ! i)"
    and "j \<noteq> i \<Longrightarrow> ls_objects (lease_release i s) ! j = ls_objects s ! j"
  using assms held_update [OF assms, of "(ls_objects s ! i)\<lparr>le_held := False\<rparr>"]
  by (auto simp: lease_release_def lease_valid_def Let_def ac_simps)

interpretation leases: invariant_machine lease_step leases_accounted
proof
  fix s e
  assume inv: "leases_accounted s"
  obtain log t where s: "s = (log, t)" by fastforce
  let ?m = "\<lambda>t. held_indices (ls_objects t) + mset (ls_released t)"
  have "?m (snd (lease_step s e)) = (if \<exists>k. e = Lease_acquire k then add_mset (case e of Lease_acquire k \<Rightarrow> k) (?m t) else ?m t)"
  proof (cases e)
    case (Lease_acquire k)
    then show ?thesis by (simp add: s held_append held_single new_lease_def lease_valid_def)
  next
    case (Lease_release i)
    then show ?thesis using release_accounted(1) [of i t] by (simp add: s)
  next
    case (Lease_construct i)
    then show ?thesis using held_update [of i "ls_objects t" moved_lease]
      by (auto simp: s lease_move_construct_def held_append held_single moved_lease_def lease_valid_def ac_simps)
  next
    case (Lease_assign i j)
    show ?thesis
    proof (cases "i < length (ls_objects t) \<and> j < length (ls_objects t) \<and> i \<noteq> j")
      case True
      let ?t = "lease_release i t"
      note r = release_accounted [of i t]
      have ij: "i < length (ls_objects ?t)" "j < length (ls_objects ?t)" using True r(2) by auto
      let ?o = "(ls_objects ?t)[i := ls_objects ?t ! j]"
      have "held_indices (?o[j := moved_lease]) + (if lease_valid (?o ! j) then {#le_index (?o ! j)#} else {#}) = held_indices ?o"
        using held_update [of j ?o moved_lease] ij by (simp add: moved_lease_def lease_valid_def)
      moreover have "held_indices ?o = held_indices (ls_objects ?t)
          + (if lease_valid (ls_objects ?t ! j) then {#le_index (ls_objects ?t ! j)#} else {#})"
        using held_update [OF ij(1), of "ls_objects ?t ! j"] r(3) True by simp
      moreover have "?o ! j = ls_objects ?t ! j" using True ij by simp
      ultimately have "held_indices (?o[j := moved_lease]) = held_indices (ls_objects ?t)" by (metis add_right_cancel)
      then show ?thesis using True r(1) Lease_assign by (simp add: s lease_move_assign_def Let_def)
    next
      case False
      then show ?thesis using Lease_assign by (auto simp: s lease_move_assign_def)
    qed
  next
    case (Lease_destroy i)
    then show ?thesis using release_accounted [of i t] held_split [of i "ls_objects (lease_release i t)"]
      by (auto simp: s lease_destroy_def Let_def)
  qed
  moreover have "fst (lease_step s e) = log @ (case e of Lease_acquire k \<Rightarrow> [k] | _ \<Rightarrow> [])" by (cases e) (simp_all add: s)
  ultimately show "leases_accounted (lease_step s e)"
    using inv s by (cases "lease_step s e"; cases e) auto
qed

text \<open>
  C10: A leased connection is given back exactly once. Whatever a program does with its lease objects, moving them into new
  ones, assigning them to others or to themselves, releasing and destroying them, the indices leased so
  far are, with multiplicity, those that objects hold and those given back; and when no object is left, all
  have been given back, none twice.\<close>

theorem leases_returned_once:
  assumes "foldl lease_step ([], \<lparr>ls_objects = [], ls_released = []\<rparr>) ops = (log, s)"
  shows "mset log = held_indices (ls_objects s) + mset (ls_released s)
    \<and> (ls_objects s = [] \<longrightarrow> mset (ls_released s) = mset log)"
proof -
  have "leases_accounted ([], \<lparr>ls_objects = [], ls_released = []\<rparr>)" by (simp add: held_indices_def)
  from leases.inv_run [OF this, of ops] assms show ?thesis by (simp add: held_indices_def)
qed

definition lease_program :: "lease_op list" where
  "lease_program = [Lease_acquire 3, Lease_acquire 5, Lease_assign 0 0, Lease_assign 0 1, Lease_construct 0, Lease_destroy 0,
     Lease_destroy 0, Lease_destroy 0]"

theorem leases_returned_once_witness:
  "\<exists>s. foldl lease_step ([], \<lparr>ls_objects = [], ls_released = []\<rparr>) lease_program = ([3, 5], s) \<and> mset (ls_released s) = {#3, 5#}"
proof -
  obtain log s where s: "foldl lease_step ([], \<lparr>ls_objects = [], ls_released = []\<rparr>) lease_program = (log, s)" by (rule prod.exhaust)
  have "fst (foldl lease_step ([], \<lparr>ls_objects = [], ls_released = []\<rparr>) lease_program) = [3, 5]"
    "ls_objects (snd (foldl lease_step ([], \<lparr>ls_objects = [], ls_released = []\<rparr>) lease_program)) = []"
    by (simp_all add: lease_program_def lease_move_assign_def lease_move_construct_def lease_destroy_def lease_release_def
        new_lease_def moved_lease_def Let_def)
  then have "log = [3, 5]" "ls_objects s = []" unfolding s by simp_all
  moreover from this have "mset (ls_released s) = mset log" using leases_returned_once [OF s] by blast
  ultimately show ?thesis using s by simp
qed

section \<open>The life of a connection\<close>

definition no_handle :: "sql_conn \<Rightarrow> bool" where
  "no_handle c \<longleftrightarrow> \<not> sn_pg c \<and> \<not> sn_mysql c \<and> \<not> sn_sqlite c"

text \<open>An idle connection whose handle, if any, is that of its options' driver.\<close>

definition conn_ok :: "sql_conn \<Rightarrow> bool" where
  "conn_ok c \<longleftrightarrow> \<not> sn_busy c \<and> (sn_pg c \<longrightarrow> so_driver (sn_options c) = Driver_postgres)
     \<and> (sn_mysql c \<longrightarrow> so_driver (sn_options c) = Driver_mysql) \<and> (sn_sqlite c \<longrightarrow> so_driver (sn_options c) = Driver_sqlite)"

text \<open>No timer fires and nobody stops an operation.\<close>

definition calm :: "('d, 'w) sql_lib \<Rightarrow> bool" where
  "calm lib \<longleftrightarrow> (\<forall>r w x. fst (sl_pg_wait lib r w x) \<noteq> Wait_stopped) \<and> (\<forall>t x y. \<not> sl_expired lib t x y)"

lemma close_sync_handles:
  "close_sync lib c w = (c', w') \<Longrightarrow> no_handle c' \<and> sn_options c' = sn_options c \<and> sn_busy c' = sn_busy c
     \<and> c' = c\<lparr>sn_pg := False, sn_mysql := False, sn_sqlite := False\<rparr>"
  by (auto simp: close_sync_def no_handle_def Let_def)

lemma calm_wait: "calm lib \<Longrightarrow> sl_pg_wait lib a b x = (r, x') \<Longrightarrow> wait_outcome r \<noteq> Stopped"
  by (auto simp: calm_def wait_outcome_def split: wait_result.splits) (metis fst_conv)

lemma connect_loop_calm:
  assumes "pg_connect_loop lib x = Some y" and "calm lib"
  shows "fst y \<noteq> Stopped"
proof -
  have "calm lib \<longrightarrow> fst y \<noteq> Stopped"
    by (rule pg_connect_loop.raw_induct [where xa = "(lib, x)" and P = "\<lambda>lib x y. calm lib \<longrightarrow> fst y \<noteq> Stopped", unfolded prod.case, OF _ assms(1)])
      (auto split: prod.splits poll_status.splits outcome.splits dest: calm_wait)
  with assms(2) show ?thesis by simp
qed

lemma open_sqlite_handles:
  "open_sqlite_blocking lib o' c w = (r, c', w') \<Longrightarrow>
     sn_options c' = sn_options c \<and> sn_busy c' = sn_busy c \<and> r \<noteq> Stopped
     \<and> (case r of Done _ \<Rightarrow> c' = c\<lparr>sn_pg := False, sn_mysql := False, sn_sqlite := True\<rparr> | _ \<Rightarrow> no_handle c')"
  by (auto simp: open_sqlite_blocking_def no_handle_def dest!: close_sync_handles
      split: prod.splits sqlite_open_result.splits outcome.splits)

lemma open_mysql_handles:
  "open_mysql_checked lib o' c w = (r, c', w') \<Longrightarrow>
     sn_options c' = sn_options c \<and> sn_busy c' = sn_busy c \<and> r \<noteq> Stopped
     \<and> (case r of Done _ \<Rightarrow> c' = c\<lparr>sn_pg := False, sn_mysql := True, sn_sqlite := False\<rparr> | _ \<Rightarrow> no_handle c')"
  by (auto simp: open_mysql_checked_def open_mysql_def close_mysql_def no_handle_def Let_def dest!: close_sync_handles
      split: prod.splits option.splits outcome.splits)

lemma pg_connect_start_handles:
  "pg_connect_start lib o' c w = (r, c', w') \<Longrightarrow> no_handle c \<Longrightarrow>
     sn_options c' = sn_options c \<and> sn_busy c' = sn_busy c \<and> r \<noteq> Stopped
     \<and> (case r of Done _ \<Rightarrow> c' = c\<lparr>sn_pg := True\<rparr> | _ \<Rightarrow> no_handle c')"
  by (auto simp: pg_connect_start_def no_handle_def dest!: close_sync_handles split: prod.splits if_splits bool.splits)

lemma open_postgres_handles:
  assumes "open_postgres lib o' c w = Some (r, c', w')"
  shows "sn_options c' = sn_options c \<and> sn_busy c' = sn_busy c
     \<and> (case r of Fail _ \<Rightarrow> no_handle c' | _ \<Rightarrow> c' = c\<lparr>sn_pg := True, sn_mysql := False, sn_sqlite := False\<rparr>)
     \<and> (calm lib \<longrightarrow> r \<noteq> Stopped)"
proof -
  obtain c0 w0 where c0: "close_sync lib c w = (c0, w0)" by fastforce
  obtain r1 c1 w1 where c1: "pg_connect_start lib o' c0 w0 = (r1, c1, w1)" by (metis prod_cases3)
  note h0 = close_sync_handles [OF c0]
  note h1 = pg_connect_start_handles [OF c1 h0 [THEN conjunct1]]
  show ?thesis
  proof (cases r1)
    case (Done u)
    with assms c0 c1 obtain r2 x where l: "pg_connect_loop lib (qw_lib w1) = Some (r2, x)"
      and eq: "(case r2 of Fail e \<Rightarrow> (case close_sync lib c1 (w1\<lparr>qw_lib := x\<rparr>) of (c2, w3) \<Rightarrow> (Fail e, c2, w3))
         | _ \<Rightarrow> (r2, c1, w1\<lparr>qw_lib := x\<rparr>)) = (r, c', w')"
      by (auto simp: open_postgres_def Let_def split: bind_splits)
    have "calm lib \<longrightarrow> r2 \<noteq> Stopped" using connect_loop_calm [OF l] by simp
    moreover obtain c2 w2 where c2: "close_sync lib c1 (w1\<lparr>qw_lib := x\<rparr>) = (c2, w2)" by fastforce
    ultimately show ?thesis using eq Done h0 h1 close_sync_handles [OF c2] by (cases r2) auto
  next
    case (Fail e)
    with assms c0 c1 obtain c2 w2 where "close_sync lib c1 w1 = (c2, w2)" "r = Fail e" "c' = c2"
      by (auto simp: open_postgres_def split: prod.splits)
    with h0 h1 close_sync_handles [OF this(1)] show ?thesis by (simp add: no_handle_def)
  next
    case Stopped
    with h1 show ?thesis by simp
  qed
qed

lemma run_open_handles:
  assumes "run_open lib o' c w = Some (r, c', w')"
  shows "sn_options c' = sn_options c \<and> sn_busy c' = sn_busy c \<and> (calm lib \<longrightarrow> r \<noteq> Stopped)
     \<and> (case r of Done _ \<Rightarrow> c' = c\<lparr>sn_pg := so_driver o' = Driver_postgres, sn_mysql := so_driver o' = Driver_mysql,
           sn_sqlite := so_driver o' = Driver_sqlite\<rparr> | Fail _ \<Rightarrow> no_handle c' | Stopped \<Rightarrow> True)"
  using assms open_sqlite_handles [of lib o' c w r c' w'] open_mysql_handles [of lib o' c w r c' w']
    open_postgres_handles [of lib o' c w r c' w']
  by (auto simp: run_open_def split: sql_driver.splits outcome.splits)

lemma timed_calm: "calm lib \<Longrightarrow> r \<noteq> Stopped \<Longrightarrow> timed lib t d e x r x' = r"
  by (auto simp: timed_def calm_def split: option.splits outcome.splits)

lemma conn_open_cases:
  assumes "calm lib" "conn_ok c" "conn_open lib True o' c w = Some (r, c', w')"
  shows "conn_ok c' \<and> (r = Done () \<and> sn_options c' = o' \<and> sql_is_open c' \<or> (\<exists>e. r = Fail e) \<and> no_handle c')"
proof -
  from assms obtain r1 c1 where "run_open lib o' (c\<lparr>sn_busy := True\<rparr>) w = Some (r1, c1, w')"
    and c': "r = r1" "c' = (case r1 of Done _ \<Rightarrow> c1\<lparr>sn_options := o'\<rparr> | _ \<Rightarrow> c1)\<lparr>sn_busy := False\<rparr>"
    by (auto simp: conn_open_def sql_guarded_def conn_ok_def Let_def timed_calm dest: run_open_handles split: bind_splits)
  from run_open_handles [OF this(1)] assms(1,2) c' show ?thesis
    by (cases r1) (auto simp: conn_ok_def sql_is_open_def no_handle_def split: sql_driver.splits)
qed

lemma conn_close_cases:
  assumes "conn_ok c" "conn_close lib True c w = Some (r, c', w')"
  shows "conn_ok c' \<and> r = Done () \<and> no_handle c' \<and> sn_options c' = sn_options c"
  using assms close_sync_handles [of lib "c\<lparr>sn_busy := True\<rparr>" w]
  by (auto simp: conn_close_def sql_guarded_def conn_ok_def no_handle_def close_mysql_def split: if_splits prod.splits)

lemma conn_query_cases:
  assumes "conn_ok c" "conn_query lib True sql params t c w = Some (r, c', w')"
  shows "c' = c \<and> (calm lib \<longrightarrow> \<not> sql_is_open c \<longrightarrow> w' = w \<and> (\<exists>m. r = fail_with m SK_not_connected))"
proof -
  from assms obtain r1 where "run_query lib sql params (c\<lparr>sn_busy := True\<rparr>) w = Some (r1, w')"
    and c': "c' = c" "r = timed lib (sql_choose_timeout_ms (sn_options c) t) (so_driver (sn_options c))
      (SqlError ''sql query timeout'' SK_query_failed) (qw_lib w) r1 (qw_lib w')"
    by (auto simp: conn_query_def sql_guarded_def conn_ok_def split: bind_splits)
  then have "w' = w \<and> (\<exists>m. r1 = fail_with m SK_not_connected)" if "\<not> sql_is_open c"
    using that by (auto simp: run_query_def sql_is_open_def query_sqlite_blocking_def query_postgres_def query_mysql_def
        split: sql_driver.splits)
  then show ?thesis using c' timed_calm [of lib r1] by auto
qed

text \<open>A sequence of calls on one connection; \<open>None\<close> once a call does not return.\<close>

datatype 'd sql_call = Call_open sql_options | Call_close | Call_query string "'d sql_param list" int | Call_cancel

definition sql_call ::
  "('d, 'w) sql_lib \<Rightarrow> (sql_conn \<times> 'w sql_world) option \<Rightarrow> 'd sql_call \<Rightarrow> (sql_conn \<times> 'w sql_world) option" where
  "sql_call lib s call =
     do {
       (c, w) \<leftarrow> s;
       (case call of
          Call_open o' \<Rightarrow> map_option snd (conn_open lib True o' c w)
        | Call_close \<Rightarrow> map_option snd (conn_close lib True c w)
        | Call_query sql params t \<Rightarrow> map_option snd (conn_query lib True sql params t c w)
        | Call_cancel \<Rightarrow> Some (snd (conn_cancel lib c w)))
     }"

definition calls_ok :: "('d, 'w) sql_lib \<Rightarrow> (sql_conn \<times> 'w sql_world) option \<Rightarrow> bool" where
  "calls_ok lib s \<longleftrightarrow> calm lib \<longrightarrow> (\<forall>c w. s = Some (c, w) \<longrightarrow> conn_ok c)"

lemma cancel_ok: "conn_ok c \<Longrightarrow> conn_ok (fst (snd (conn_cancel lib c w)))"
  by (auto simp: conn_cancel_def conn_ok_def close_mysql_def split: sql_driver.splits prod.splits option.splits)

interpretation sql_calls: invariant_machine "sql_call lib" "calls_ok lib" for lib
proof
  fix s e
  assume "calls_ok lib s"
  then have s: "conn_ok c" if "s = Some (c, w)" "calm lib" for c w using that by (simp add: calls_ok_def)
  show "calls_ok lib (sql_call lib s e)"
    unfolding calls_ok_def
  proof (intro impI allI)
    fix c' w'
    assume calm: "calm lib" and r: "sql_call lib s e = Some (c', w')"
    then obtain c w where cw: "s = Some (c, w)" by (cases s) (auto simp: sql_call_def)
    note ok = s [OF cw calm]
    show "conn_ok c'"
    proof (cases e)
      case (Call_open o')
      with r cw obtain q where "conn_open lib True o' c w = Some (q, c', w')" by (auto simp: sql_call_def)
      from conn_open_cases [OF calm ok this] show ?thesis by simp
    next
      case Call_close
      with r cw obtain q where "conn_close lib True c w = Some (q, c', w')" by (auto simp: sql_call_def)
      from conn_close_cases [OF ok this] show ?thesis by simp
    next
      case (Call_query sql params t)
      with r cw obtain q where "conn_query lib True sql params t c w = Some (q, c', w')" by (auto simp: sql_call_def)
      from conn_query_cases [OF ok this] ok show ?thesis by simp
    next
      case Call_cancel
      with r cw have "c' = fst (snd (conn_cancel lib c w))" by (simp add: sql_call_def)
      with cancel_ok [OF ok, of lib w] show ?thesis by simp
    qed
  qed
qed


text \<open>
  A connect timeout leaves a PostgreSQL connection half open. When a connection that already has PostgreSQL options
  is opened again and the timer fires while the handshake waits for the server, the call fails with a
  timeout but the connection still counts as open; a pool without health check then hands it out
  again without reconnecting.\<close>

theorem timed_out_connection_reused:
  assumes "\<not> sn_busy c" "so_driver (sn_options c) = Driver_postgres" "so_driver o' = Driver_postgres" "so_connect_timeout_ms o' > 0"
    and "open_postgres lib o' (c\<lparr>sn_busy := True\<rparr>) w = Some (Stopped, c1, w1)"
    and "ss_conns s ! i = c1\<lparr>sn_busy := False\<rparr>" "sp_health_check_sql po = []" "sp_max_lifetime_ms po = 0"
  shows "conn_open lib True o' c w = Some (fail_with ''sql connect timeout'' SK_connect_failed, c1\<lparr>sn_busy := False\<rparr>, w1)
    \<and> sql_is_open (c1\<lparr>sn_busy := False\<rparr>)
    \<and> sql_ensure_healthy lib True po i s w1 = Some (Done (), s, w1)"
proof -
  note h = open_postgres_handles [OF assms(5)]
  then have o: "sql_is_open (c1\<lparr>sn_busy := False\<rparr>)" using assms(2) by (simp add: sql_is_open_def)
  moreover have "conn_open lib True o' c w = Some (fail_with ''sql connect timeout'' SK_connect_failed, c1\<lparr>sn_busy := False\<rparr>, w1)"
    using assms(1,3,4,5) by (simp add: conn_open_def sql_guarded_def run_open_def timed_def Let_def)
  moreover have "sql_ensure_healthy lib True po i s w1 = Some (Done (), s, w1)"
    using assms(6,7,8) o by (simp add: sql_ensure_healthy_def)
  ultimately show ?thesis by blast
qed

section \<open>Results and statements\<close>

text \<open>The results that the server delivers for one query, the last followed by null.\<close>

fun delivers :: "('d, 'w) sql_lib \<Rightarrow> 'w \<Rightarrow> pg_result list \<Rightarrow> 'w \<Rightarrow> bool" where
  "delivers lib x [] x' \<longleftrightarrow> \<not> sl_pg_busy lib x \<and> sl_pg_get_result lib x = (None, x')"
| "delivers lib x (r # rs) x' \<longleftrightarrow>
     \<not> sl_pg_busy lib x \<and> fst (sl_pg_get_result lib x) = Some r \<and> delivers lib (snd (sl_pg_get_result lib x)) rs x'"

definition first_columns :: "string list \<Rightarrow> pg_result list \<Rightarrow> string list" where
  "first_columns cols rs = (if cols \<noteq> [] then cols
     else case filter (\<lambda>r. pg_status r = Pg_tuples \<and> pg_columns r \<noteq> []) rs of [] \<Rightarrow> [] | r # _ \<Rightarrow> pg_columns r)"

definition tuple_rows :: "pg_result list \<Rightarrow> cell list list" where
  "tuple_rows rs = concat (map pg_rows (filter (\<lambda>r. pg_status r = Pg_tuples) rs))"

definition command_tuples :: "pg_result \<Rightarrow> 64 word" where
  "command_tuples r = (if pg_status r = Pg_command_ok then parse_u64 (case pg_cmd_tuples r of None \<Rightarrow> [] | Some t \<Rightarrow> t) else 0)"

lemma busy_loop_free: "\<not> sl_pg_busy lib x \<Longrightarrow> pg_busy_loop lib x = Some (Done (), x)"
  by (simp add: pg_busy_loop.simps)

lemma drain_collects:
  assumes "delivers lib x rs x'" and "\<forall>r \<in> set rs. pg_status r \<noteq> Pg_error"
  shows "\<exists>i. pg_drain_loop lib out x = Some (Done \<lparr>qr_columns = first_columns (qr_columns out) rs,
      qr_rows = qr_rows out @ tuple_rows rs,
      qr_affected_rows = qr_affected_rows out + sum_list (map command_tuples rs), qr_last_insert_id = i\<rparr>, x')"
  using assms
proof (induction rs arbitrary: x out)
  case Nil
  then show ?case by (cases out) (simp add: pg_drain_loop.simps busy_loop_free first_columns_def tuple_rows_def)
next
  case (Cons r rs)
  obtain y where y: "sl_pg_get_result lib x = (Some r, y)" "delivers lib y rs x'" using Cons.prems by (cases "sl_pg_get_result lib x") auto
  obtain out' where out': "parse_postgres_result r out = Inr out'"
    using Cons.prems by (cases "pg_status r") (auto simp: parse_postgres_result_def Let_def)
  have "pg_drain_loop lib out x = pg_drain_loop lib out' y"
    using Cons.prems(1) y out' by (subst pg_drain_loop.simps) (simp add: busy_loop_free)
  moreover have "qr_columns out' = first_columns (qr_columns out) [r]" "qr_rows out' = qr_rows out @ tuple_rows [r]"
    "qr_affected_rows out' = qr_affected_rows out + command_tuples r"
    using out' Cons.prems(2)
    by (auto simp: parse_postgres_result_def first_columns_def tuple_rows_def command_tuples_def Let_def split: pg_status.splits if_splits)
  moreover have "first_columns (first_columns (qr_columns out) [r]) rs = first_columns (qr_columns out) (r # rs)"
    by (auto simp: first_columns_def)
  ultimately show ?case using Cons.IH [OF y(2), of out'] Cons.prems(2) by (auto simp: tuple_rows_def add.assoc)
qed


text \<open>
  After an error of the server a PostgreSQL connection is unusable. By libpq's documentation a new
  query is refused until \<open>PQgetResult\<close> has returned null for the previous one. The query loop stops at the
  first error result, so under that rule every later query on the connection, \<open>ROLLBACK\<close>
  and the health check included, fails without being sent.\<close>

theorem pg_error_blocks_connection:
  assumes "\<And>x r x'. sl_pg_get_result lib x = (Some r, x') \<Longrightarrow> pending x'"
    and "\<And>x st vs. pending x \<Longrightarrow> sl_pg_send lib st vs x = (False, x)"
    and "sn_pg c" and "postgres_statement (sl_double_text lib) sql params = Inr (st, vs)"
    and "sl_pg_send lib st vs x = (True, x1)" "sl_pg_flush lib x1 = (0, x2)" "\<not> sl_pg_busy lib x2"
    and "sl_pg_get_result lib x2 = (Some r, x3)" "pg_status r = Pg_error"
  shows "query_postgres lib sql params c x =
      Some (fail_with (case pg_message r of None \<Rightarrow> ''postgres query failed'' | Some m \<Rightarrow> m) SK_query_failed, x3)
    \<and> (\<forall>sql' params'. \<exists>e. query_postgres lib sql' params' c x3 = Some (Fail e, x3))"
proof -
  have "query_postgres lib sql' params' c x3 = Some (case postgres_statement (sl_double_text lib) sql' params' of
      Inl e \<Rightarrow> Fail (Sql_error e) | Inr _ \<Rightarrow> fail_with (pg_error_or lib ''postgres query failed'' x3) SK_query_failed, x3)" for sql' params'
    using assms(1) [OF assms(8)] assms(2,3) by (auto simp: query_postgres_def split: sum.splits)
  moreover have "query_postgres lib sql params c x =
      Some (fail_with (case pg_message r of None \<Rightarrow> ''postgres query failed'' | Some m \<Rightarrow> m) SK_query_failed, x3)"
    using assms(3-9) by (simp add: query_postgres_def pg_flush_loop.simps [of lib x1] pg_drain_loop.simps busy_loop_free parse_postgres_result_def Let_def)
  ultimately show ?thesis by (auto split: sum.splits)
qed

lemma bind_all_statements:
  "sqlite_bind_all lib i ps w = (r, w') \<Longrightarrow> qw_statements w > 0 \<Longrightarrow>
     qw_mysql_statements w' = qw_mysql_statements w \<and> r \<noteq> Stopped
     \<and> qw_statements w' = (case r of Fail e \<Rightarrow> if e = Std_error then qw_statements w else qw_statements w - 1 | _ \<Rightarrow> qw_statements w)"
  by (induction lib i ps w rule: sqlite_bind_all.induct)
    (auto simp: sqlite_finalize_def split: option.splits prod.splits outcome.splits)

text \<open>
  Prepared statements are freed. A SQLite query leaves as many prepared statements allocated as there were before,
  on every path through it: not prepared, wrong number of parameters, a bind that fails, a step that fails, or
  all rows read; with one exception, a floating-point parameter whose text cannot be
  read back as a number, where the exception of \<open>std::stod\<close> leaves one statement behind.\<close>

theorem sqlite_statements_freed:
  assumes "query_sqlite_blocking lib sql params c w = Some (r, w')"
  shows "qw_statements w' = qw_statements w + (if r = Fail Std_error then 1 else 0)
    \<and> (r = Fail Std_error \<longrightarrow> (\<exists>d. SP_float64 d \<in> set params \<and> sl_stod lib (sl_double_text lib d) = None))"
proof -
  have f: "qw_statements (sqlite_finalize lib v) = qw_statements v - 1" for v by (simp add: sqlite_finalize_def)
  have e: "\<exists>p \<in> set ps. sqlite_bound_value lib p = None" if "sqlite_bind_all lib i ps v = (Fail Std_error, v')" for i ps v v'
    using that by (induction lib i ps v rule: sqlite_bind_all.induct) (auto split: option.splits prod.splits)
  have "\<exists>d. p = SP_float64 d \<and> sl_stod lib (sl_double_text lib d) = None" if "sqlite_bound_value lib p = None" for p
    using that by (cases p) (auto simp: sqlite_bound_value_def)
  then have n: "\<exists>d. SP_float64 d \<in> set ps \<and> sl_stod lib (sl_double_text lib d) = None"
    if "sqlite_bind_all lib i ps v = (Fail Std_error, v')" for i ps v v'
    using e [OF that] by blast
  consider "\<not> sn_sqlite c" | m x where "sn_sqlite c" "sl_sqlite_prepare lib (c_str sql) (qw_lib w) = (Inl m, x)"
    | k cols x where "sn_sqlite c" "sl_sqlite_prepare lib (c_str sql) (qw_lib w) = (Inr (k, cols), x)"
    by (metis old.prod.exhaust sum.exhaust)
  then show ?thesis
  proof cases
    case 3
    let ?w = "w\<lparr>qw_lib := x, qw_statements := qw_statements w + 1\<rparr>"
    obtain r1 w1 where b: "sqlite_bind_all lib 1 params ?w = (r1, w1)" by fastforce
    note s = bind_all_statements [OF b]
    show ?thesis
    proof (cases "k = length params")
      case True
      note q = assms [unfolded query_sqlite_blocking_def 3 Let_def, simplified 3 True b if_True if_False simp_thms prod.case sum.case]
      show ?thesis
      proof (cases r1)
        case (Done u)
        with q s f show ?thesis by (auto split: bind_splits sum.splits)
      next
        case (Fail e)
        with q s n [of 1 params ?w w1] b show ?thesis by auto
      next
        case Stopped
        with s show ?thesis by simp
      qed
    next
      case False
      with assms 3 f show ?thesis by (auto simp: query_sqlite_blocking_def Let_def)
    qed
  qed (use assms in \<open>auto simp: query_sqlite_blocking_def\<close>)
qed

text \<open>
  MySQL statements are freed only on success: a query with parameters that was prepared and then fails, because the
  number of parameters is wrong or the execution fails, leaves its statement allocated on the server.\<close>

theorem mysql_statements_leak:
  assumes "sn_mysql c" "params \<noteq> []" "\<forall>p \<in> set params. mysql_param_to_field lib p \<noteq> None"
    and "sl_mysql_prepare lib sql (qw_lib w) = (Inr n, x)" "query_mysql lib sql params c w = (r, w')"
  shows "qw_mysql_statements w' = qw_mysql_statements w + (case r of Done _ \<Rightarrow> 0 | _ \<Rightarrow> 1)
    \<and> (n \<noteq> length params \<longrightarrow> r = fail_with ''mysql parameter count does not match placeholders'' SK_invalid_argument)"
  using assms by (auto simp: query_mysql_def Let_def split: if_splits prod.splits sum.splits)

section \<open>A small database\<close>

text \<open>The state of the small server: whether a query is under way, and its results still to come. A statement \<open>bad\<close> is answered with
  an error, any other with one row. Doubles are numbers below 10, of which 9 cannot be read back; a wait ends as given.\<close>

definition small_row :: pg_result where
  "small_row = \<lparr>pg_status = Pg_tuples, pg_columns = [''n''], pg_rows = [[Some ''1'']], pg_cmd_tuples = None, pg_oid = 0, pg_message = None\<rparr>"

definition small_error :: pg_result where
  "small_error = \<lparr>pg_status = Pg_error, pg_columns = [], pg_rows = [], pg_cmd_tuples = None, pg_oid = 0, pg_message = Some ''no''\<rparr>"

definition small_sql :: "poll_status \<Rightarrow> wait_result \<Rightarrow> (nat, bool \<times> pg_result list) sql_lib" where
  "small_sql poll wait = \<lparr>sl_double_text = dec_of_nat, sl_stod = (\<lambda>t. if t = ''9'' then None else Some 0), sl_expired = (\<lambda>_ _ _. False),
     sl_now = (\<lambda>_. 0), sl_sqlite_open = (\<lambda>_ x. (Sqlite_opened, x)), sl_sqlite_close = id,
     sl_sqlite_prepare = (\<lambda>_ x. (Inr (1, [''n'']), x)), sl_sqlite_bind = (\<lambda>_ _ x. (None, x)), sl_sqlite_step = (\<lambda>x. (Sqlite_done, x)),
     sl_sqlite_finalize = id, sl_sqlite_changes = (\<lambda>_. 0), sl_sqlite_last_rowid = (\<lambda>_. 0), sl_sqlite_interrupt = id,
     sl_pg_start = (\<lambda>_ x. (True, x)), sl_pg_set_nonblocking = (\<lambda>x. (True, x)), sl_pg_poll = (\<lambda>x. (poll, x)), sl_pg_error = (\<lambda>_. None),
     sl_pg_wait = (\<lambda>_ _ x. (wait, x)),
     sl_pg_send = (\<lambda>st _ (p, rs). if p then (False, (p, rs)) else (True, (True, [if st = ''bad'' then small_error else small_row]))),
     sl_pg_flush = (\<lambda>x. (0, x)), sl_pg_busy = (\<lambda>_. False), sl_pg_consume = (\<lambda>x. (True, x)),
     sl_pg_get_result = (\<lambda>(p, rs). case rs of [] \<Rightarrow> (None, (False, [])) | r # rs' \<Rightarrow> (Some r, (True, rs'))),
     sl_pg_finish = (\<lambda>_. (False, [])), sl_pg_cancel = (\<lambda>x. (None, x)),
     sl_mysql_connect = (\<lambda>_ x. (None, x)), sl_mysql_close = id, sl_mysql_execute = (\<lambda>_ x. (Inl (Mysql_error [] []), x)),
     sl_mysql_prepare = (\<lambda>_ x. (Inr 2, x)), sl_mysql_run = (\<lambda>_ x. (Inl (Mysql_error [] []), x)), sl_mysql_close_statement = id\<rparr>"

definition pg_options :: sql_options where
  "pg_options = default_sql_options\<lparr>so_driver := Driver_postgres, so_database := ''db'', so_connect_timeout_ms := 5\<rparr>"

definition pg_conn :: sql_conn where
  "pg_conn = \<lparr>sn_options = pg_options, sn_busy = False, sn_pg = True, sn_mysql = False, sn_sqlite = False\<rparr>"

definition idle_world :: "(bool \<times> pg_result list) sql_world" where
  "idle_world = \<lparr>qw_lib = (False, []), qw_statements = 0, qw_mysql_statements = 0\<rparr>"

lemma pg_options_fields: "so_driver pg_options = Driver_postgres" "so_connect_timeout_ms pg_options = 5"
  by (simp_all add: pg_options_def)

lemma small_connect:
  "open_postgres (small_sql poll wait) pg_options c w =
     map_option (\<lambda>(r, x). case r of
         Fail e \<Rightarrow> (Fail e, c\<lparr>sn_pg := False, sn_mysql := False, sn_sqlite := False\<rparr>, w\<lparr>qw_lib := (False, [])\<rparr>)
       | _ \<Rightarrow> (r, c\<lparr>sn_pg := True, sn_mysql := False, sn_sqlite := False\<rparr>, w\<lparr>qw_lib := x\<rparr>))
     (pg_connect_loop (small_sql poll wait) (if sn_pg c then (False, []) else qw_lib w))"
  by (auto simp: open_postgres_def close_sync_def pg_connect_start_def small_sql_def pg_options_def Let_def
      split: bind_splits outcome.splits)


theorem timed_out_connection_reused_witness:
  "\<exists>c w. conn_open (small_sql Poll_reading Wait_stopped) True pg_options pg_conn idle_world
       = Some (fail_with ''sql connect timeout'' SK_connect_failed, c, w) \<and> sql_is_open c"
proof -
  let ?lib = "small_sql Poll_reading Wait_stopped"
  have "pg_connect_loop ?lib x = Some (Stopped, x)" for x
    by (subst pg_connect_loop.simps) (simp add: small_sql_def wait_outcome_def)
  then obtain c1 w1 where "open_postgres ?lib pg_options (pg_conn\<lparr>sn_busy := True\<rparr>) idle_world = Some (Stopped, c1, w1)"
    by (simp add: small_connect)
  from timed_out_connection_reused [OF _ _ _ _ this, of "\<lparr>ss_conns = [c1\<lparr>sn_busy := False\<rparr>], ss_born = [0]\<rparr>" 0
      "\<lparr>sp_connection = pg_options, sp_max_connections = 1, sp_preconnect = False, sp_acquire_timeout_ms = 0, sp_max_lifetime_ms = 0,
        sp_health_check_sql = []\<rparr>"]
  show ?thesis by (simp add: pg_conn_def pg_options_fields)
qed


theorem pg_error_blocks_connection_witness:
  "(\<exists>e. query_postgres (small_sql Poll_ok Wait_ready) ''ROLLBACK'' [] pg_conn (True, []) = Some (Fail e, (True, [])))
   \<and> query_postgres (small_sql Poll_ok Wait_ready) ''bad'' [] pg_conn (False, []) = Some (fail_with ''no'' SK_query_failed, (True, []))"
proof -
  have b: "postgres_statement dec_of_nat ''bad'' [] = Inr (''bad'', [])" by code_simp
  let ?lib = "small_sql Poll_ok Wait_ready"
  have "fst x'" if "sl_pg_get_result ?lib x = (Some r, x')" for x r x'
    using that by (auto simp: small_sql_def split: prod.splits list.splits)
  moreover have "sl_pg_send ?lib st vs x = (False, x)" if "fst x" for x st vs
    using that by (auto simp: small_sql_def split: prod.splits)
  moreover have "sn_pg pg_conn" "postgres_statement (sl_double_text ?lib) ''bad'' [] = Inr (''bad'', [])"
    "sl_pg_send ?lib ''bad'' [] (False, []) = (True, (True, [small_error]))"
    "sl_pg_flush ?lib (True, [small_error]) = (0, (True, [small_error]))" "\<not> sl_pg_busy ?lib (True, [small_error])"
    "sl_pg_get_result ?lib (True, [small_error]) = (Some small_error, (True, []))" "pg_status small_error = Pg_error"
    using b by (simp_all add: pg_conn_def small_sql_def small_error_def)
  ultimately have "query_postgres ?lib ''bad'' [] pg_conn (False, []) =
      Some (fail_with (case pg_message small_error of None \<Rightarrow> ''postgres query failed'' | Some m \<Rightarrow> m) SK_query_failed, (True, []))
    \<and> (\<forall>sql' params'. \<exists>e. query_postgres ?lib sql' params' pg_conn (True, []) = Some (Fail e, (True, [])))"
    by (rule pg_error_blocks_connection [where pending = fst])
  moreover have "pg_message small_error = Some ''no''" by (simp add: small_error_def)
  ultimately show ?thesis by auto
qed

theorem sqlite_statements_freed_witness:
  "\<exists>w'. query_sqlite_blocking (small_sql Poll_ok Wait_ready) ''SELECT ?'' [SP_float64 9] (pg_conn\<lparr>sn_sqlite := True\<rparr>) idle_world
       = Some (Fail Std_error, w') \<and> qw_statements w' = 1"
proof -
  have "dec_of_nat 9 = ''9''" by code_simp
  then have "\<exists>w'. query_sqlite_blocking (small_sql Poll_ok Wait_ready) ''SELECT ?'' [SP_float64 9] (pg_conn\<lparr>sn_sqlite := True\<rparr>) idle_world
       = Some (Fail Std_error, w')"
    by (simp add: query_sqlite_blocking_def small_sql_def sqlite_bound_value_def Let_def)
  then show ?thesis using sqlite_statements_freed by (fastforce simp: idle_world_def)
qed

end
