(* ===== verification/Threads.thy ===== *)
theory Threads
  imports Prelude
begin

text \<open>
  Pools of threads, for the components whose threads share state (\<open>Ws\<close>, \<open>Ws_Client\<close>, \<open>Message_Bus\<close>). A thread is the list of the
  atomic actions it has still to do; an action changes the shared state, may put further actions in front of the thread and may
  start threads. The interface is the step relation that lets any thread go on; what it gives is that an
  executable schedule is a run of it.
\<close>

text \<open>A schedule of a pool: a call that starts a thread, or the number of the thread that does its next action and what the world
  answers.\<close>

fun pool_run :: "('io \<Rightarrow> 'a \<Rightarrow> 's \<Rightarrow> ('a list \<times> 'a list list \<times> 's) option) \<Rightarrow> ('a \<Rightarrow> bool) \<Rightarrow> ('a + nat \<times> 'io) list
    \<Rightarrow> 's \<times> 'a list list \<Rightarrow> ('s \<times> 'a list list) option" where
  "pool_run exec calls [] x = Some x"
| "pool_run exec calls (Inl a # sched) (s, ts) = (if calls a then pool_run exec calls sched (s, ts @ [[a]]) else None)"
| "pool_run exec calls (Inr (i, io) # sched) (s, ts) =
     (if i < length ts \<and> ts ! i \<noteq> [] then
        (case exec io (hd (ts ! i)) s of
           None \<Rightarrow> None
         | Some (acts, spawned, s') \<Rightarrow> pool_run exec calls sched (s', ts[i := acts @ tl (ts ! i)] @ spawned))
      else None)"

text \<open>A property of the state that a schedule reaches.\<close>

definition if_run :: "('s \<times> 'a list list) option \<Rightarrow> ('s \<Rightarrow> 'a list list \<Rightarrow> bool) \<Rightarrow> bool" where
  "if_run x P = (case x of None \<Rightarrow> False | Some y \<Rightarrow> P (fst y) (snd y))"

locale thread_pool =
  fixes exec :: "'io \<Rightarrow> 'a \<Rightarrow> 's \<Rightarrow> ('a list \<times> 'a list list \<times> 's) option"
    and calls :: "'a \<Rightarrow> bool"
    and step :: "'s \<times> 'a list list \<Rightarrow> 's \<times> 'a list list \<Rightarrow> bool"
  assumes step_act: "exec io a s = Some (acts, spawned, s') \<Longrightarrow>
      step (s, ts1 @ (a # rest) # ts2) (s', ts1 @ (acts @ rest) # ts2 @ spawned)"
    and step_call: "calls a \<Longrightarrow> step (s, ts) (s, ts @ [[a]])"
begin

lemma step_nth:
  assumes "i < length ts" "ts ! i \<noteq> []" "exec io (hd (ts ! i)) s = Some (acts, spawned, s')"
  shows "step (s, ts) (s', ts[i := acts @ tl (ts ! i)] @ spawned)"
proof -
  have "ts = take i ts @ (hd (ts ! i) # tl (ts ! i)) # drop (Suc i) ts" using assms(1,2) by (simp add: id_take_nth_drop [symmetric])
  with step_act [OF assms(3), of "take i ts" "tl (ts ! i)" "drop (Suc i) ts"] show ?thesis
    using assms(1) by (simp add: upd_conv_take_nth_drop)
qed

lemma run_steps: "pool_run exec calls sched x = Some y \<Longrightarrow> step\<^sup>*\<^sup>* x y"
proof (induction sched arbitrary: x)
  case (Cons m sched)
  obtain s ts where x: "x = (s, ts)" by fastforce
  show ?case
  proof (cases m)
    case (Inl a)
    with Cons x show ?thesis by (auto split: if_splits intro: converse_rtranclp_into_rtranclp step_call)
  next
    case (Inr io)
    with Cons x show ?thesis
      by (cases io) (auto split: if_splits option.splits intro: converse_rtranclp_into_rtranclp step_nth)
  qed
qed simp

lemma run_reaches:
  assumes "if_run (pool_run exec calls sched x) P"
  obtains s ts where "step\<^sup>*\<^sup>* x (s, ts)" "P s ts"
  using assms run_steps [of sched x] by (auto simp: if_run_def split: option.splits)

end

end
