(* ===== verification/Ws.thy ===== *)
theory Ws
  imports Threads "HOL-Library.Multiset"
begin

text \<open>
  WebSocket sessions, server and client (\<open>layer2/src/ws.cpp\<close>). A session is shared by the thread that reads from it and by
  the calls that send and close; the server adds a thread that accepts. A thread is the list of atomic
  actions it has still to do: an access to an atomic flag, a critical section, or one call of the
  WebSocket stream, whose outcome the network decides. Any interleaving of these actions is a run. The
  effect of \<open>write_some\<close> on the session is only seen under the write mutex, so it is one action with the check of the
  flag before it. Connection numbers do not wrap.
\<close>

section \<open>Messages, events and the event queue\<close>

datatype message_type = Msg_text | Msg_binary

text \<open>\<open>Message\<close> and \<open>StreamChunk\<close> have the same fields.\<close>

record ws_message =
  wm_type :: message_type
  wm_payload :: string
  wm_first :: bool
  wm_final :: bool

datatype event_kind = Ev_open | Ev_message ws_message | Ev_close int string

record server_event =
  se_id :: nat
  se_kind :: event_kind

record 'a event_queue =
  eq_queue :: "'a list"
  eq_closed :: bool

definition new_queue :: "'a event_queue" where
  "new_queue = \<lparr>eq_queue = [], eq_closed = False\<rparr>"

definition eq_push :: "'a \<Rightarrow> 'a event_queue \<Rightarrow> 'a event_queue" where
  "eq_push v q = (if eq_closed q then q else q\<lparr>eq_queue := eq_queue q @ [v]\<rparr>)"

definition eq_close :: "'a event_queue \<Rightarrow> 'a event_queue" where
  "eq_close q = q\<lparr>eq_closed := True\<rparr>"

text \<open>\<open>pop\<close> polls: each element of the list is what the others do to the queue while it sleeps. \<open>None\<close>: it is still
  waiting after these.\<close>

fun eq_pop :: "('a event_queue \<Rightarrow> 'a event_queue) list \<Rightarrow> 'a event_queue \<Rightarrow> ('a option \<times> 'a event_queue) option" where
  "eq_pop others q =
     (case eq_queue q of
        v # rest \<Rightarrow> Some (Some v, q\<lparr>eq_queue := rest\<rparr>)
      | [] \<Rightarrow>
          if eq_closed q then Some (None, q)
          else case others of [] \<Rightarrow> None | f # fs \<Rightarrow> eq_pop fs (f q))"

declare eq_pop.simps [simp del]

section \<open>Configuration\<close>

text \<open>The fields that the code reads: \<open>pattern\<close>, \<open>listen_options\<close>, \<open>max_payload_length\<close> and \<open>origin\<close> are never read.\<close>

definition ensure_path :: "string \<Rightarrow> string" where
  "ensure_path value = (if value = [] then ''/'' else if hd value \<noteq> CHR ''/'' then CHR ''/'' # value else value)"

record ws_server_config =
  sc_runtime :: bool
  sc_host :: string
  sc_port :: int
  sc_use_tls :: bool
  sc_tls_cert_file :: string
  sc_tls_private_key_file :: string
  sc_tls_ca_file :: string

record ws_client_config =
  cc_runtime :: bool
  cc_address :: string
  cc_port :: int
  cc_path :: string
  cc_host :: string
  cc_use_tls :: bool
  cc_tls_ca_file :: string
  cc_tls_allow_insecure :: bool

text \<open>The outcomes of the library's calls: the message of an error, or \<open>None\<close>.\<close>

record tls_io =
  ti_cert :: "string option"
  ti_key :: "string option"
  ti_ca :: "string option"
  ti_verify_mode :: "string option"
  ti_default_paths :: "string option"

definition create_server_tls_context :: "tls_io \<Rightarrow> ws_server_config \<Rightarrow> string option" where
  "create_server_tls_context io cfg =
     (if sc_tls_cert_file cfg = [] \<or> sc_tls_private_key_file cfg = [] then Some ''websocket tls server requires cert and private key file''
      else case ti_cert io of
        Some m \<Rightarrow> Some (''failed to load websocket tls cert: '' @ m)
      | None \<Rightarrow>
          (case ti_key io of
             Some m \<Rightarrow> Some (''failed to load websocket tls key: '' @ m)
           | None \<Rightarrow>
               if sc_tls_ca_file cfg \<noteq> [] then map_option ((@) ''failed to load websocket tls CA file: '') (ti_ca io)
               else None))"

definition create_client_tls_context :: "tls_io \<Rightarrow> ws_client_config \<Rightarrow> string option" where
  "create_client_tls_context io cfg =
     (if cc_tls_allow_insecure cfg then None
      else case ti_verify_mode io of
        Some m \<Rightarrow> Some (''failed to set websocket tls verify mode: '' @ m)
      | None \<Rightarrow>
          if cc_tls_ca_file cfg \<noteq> [] then map_option ((@) ''failed to load websocket client CA file: '') (ti_ca io)
          else map_option ((@) ''failed to load default websocket TLS verify paths: '') (ti_default_paths io))"

text \<open>The address parser of the library decides whether the host is an address.\<close>

definition parse_listen_endpoint :: "(string \<Rightarrow> 'a option) \<Rightarrow> string \<Rightarrow> int \<Rightarrow> ('a \<times> int) option" where
  "parse_listen_endpoint make_address host port =
     (if port < 0 \<or> port > 65535 then None else map_option (\<lambda>a. (a, port)) (make_address host))"

section \<open>Sessions\<close>

text \<open>\<open>ss_wire\<close> is what has been written: the type set for the message, whether the frame ends it, and its payload.\<close>

record session =
  ss_stopped :: bool
  ss_close_reported :: bool
  ss_outbound_active :: bool
  ss_next_first :: bool
  ss_type :: message_type
  ss_wire :: "(message_type \<times> bool \<times> string) list"

definition new_session :: session where
  "new_session = \<lparr>ss_stopped = False, ss_close_reported = False, ss_outbound_active = False, ss_next_first = True,
     ss_type = Msg_text, ss_wire = []\<rparr>"

text \<open>What the network answers to a read or a write.\<close>

datatype net_io = Net_ok message_type string bool | Net_closed int string | Net_error string

text \<open>The actions of a session. \<open>On_message\<close> and \<open>On_close\<close> are the callbacks of its owner; \<open>Return\<close> ends a call.\<close>

datatype session_act =
  Read_check | Read_some
| Send_check ws_message | Send_write ws_message
| Close_call int string | Report_close int string | Transport_stop
| On_message ws_message | On_close int string
| Return bool

definition close_report :: "net_io \<Rightarrow> session_act" where
  "close_report io =
     (case io of
        Net_closed code reason \<Rightarrow> Report_close code reason
      | Net_error m \<Rightarrow> Report_close 1006 m
      | Net_ok _ _ _ \<Rightarrow> Return True)"

definition received :: "message_type \<Rightarrow> string \<Rightarrow> bool \<Rightarrow> session \<Rightarrow> ws_message" where
  "received ty payload fin s = \<lparr>wm_type = ty, wm_payload = payload, wm_first = ss_next_first s, wm_final = fin\<rparr>"

definition start_message :: "ws_message \<Rightarrow> session \<Rightarrow> session" where
  "start_message m s =
     (if wm_first m \<or> \<not> ss_outbound_active s then s\<lparr>ss_type := wm_type m, ss_outbound_active := True\<rparr> else s)"

text \<open>One action: the actions that follow and the new state of the session. What a callback does to the owner is added by the owner.\<close>

primrec session_exec :: "session_act \<Rightarrow> net_io \<Rightarrow> session \<Rightarrow> session_act list \<times> session" where
  "session_exec Read_check io s = (if ss_stopped s then ([], s) else ([Read_some], s))"
| "session_exec Read_some io s =
     (case io of
        Net_ok ty payload fin \<Rightarrow> ([On_message (received ty payload fin s)], s\<lparr>ss_next_first := fin\<rparr>)
      | _ \<Rightarrow> ([close_report io, Transport_stop], s))"
| "session_exec (Send_check m) io s = (if ss_stopped s then ([Return False], s) else ([Send_write m], s))"
| "session_exec (Send_write m) io s =
     (if ss_stopped s then ([Return False], s)
      else
        let s1 = start_message m s
        in case io of
             Net_ok _ _ _ \<Rightarrow>
               ([Return True], s1\<lparr>ss_wire := ss_wire s1 @ [(ss_type s1, wm_final m, wm_payload m)], ss_outbound_active := \<not> wm_final m\<rparr>)
           | _ \<Rightarrow> ([Transport_stop, close_report io, Return False], s1\<lparr>ss_outbound_active := False\<rparr>))"
| "session_exec (Close_call code reason) io s =
     (if ss_stopped s then ([Return False], s) else ([Report_close code reason, Transport_stop, Return True], s))"
| "session_exec (Report_close code reason) io s =
     (if ss_close_reported s then ([], s) else ([On_close code reason], s\<lparr>ss_close_reported := True\<rparr>))"
| "session_exec Transport_stop io s = ([], s\<lparr>ss_stopped := True\<rparr>)"
| "session_exec (On_message m) io s = ([Read_check], s)"
| "session_exec (On_close code reason) io s = ([], s)"
| "session_exec (Return b) io s = ([], s)"

section \<open>The server\<close>

text \<open>Sessions are numbered by their connections; a number that is not in use yet is a new session. \<open>sv_acceptor\<close> says that there is
  an acceptor with its context, \<open>sv_accept_thread\<close> is the joinable thread, \<open>sv_terminated\<close> the end of the program
  by \<open>std::terminate\<close>, \<open>sv_taken\<close> what \<open>next\<close> has returned so far.\<close>

record ws_server =
  sv_config :: ws_server_config
  sv_sessions :: "nat \<Rightarrow> session"
  sv_connections :: "nat set"
  sv_next_id :: nat
  sv_bound_port :: int
  sv_started :: bool
  sv_stopping :: bool
  sv_acceptor :: bool
  sv_tls_ctx :: bool
  sv_accept_thread :: "nat option"
  sv_threads_made :: nat
  sv_exited :: "nat set"
  sv_terminated :: bool
  sv_events :: "server_event event_queue"
  sv_taken :: "server_event list"

definition new_ws_server :: "ws_server_config \<Rightarrow> ws_server" where
  "new_ws_server cfg = \<lparr>sv_config = cfg, sv_sessions = (\<lambda>_. new_session), sv_connections = {}, sv_next_id = 1, sv_bound_port = 0,
     sv_started = False, sv_stopping = False, sv_acceptor = False, sv_tls_ctx = False, sv_accept_thread = None,
     sv_threads_made = 0, sv_exited = {}, sv_terminated = False, sv_events = new_queue, sv_taken = []\<rparr>"

datatype accept_result = Acc_ok | Acc_would_block | Acc_gone | Acc_error

record ws_io =
  io_net :: net_io
  io_accept :: accept_result
  io_tls_handshake :: bool
  io_ws_accept :: bool
  io_open :: "string option"
  io_reuse :: "string option"
  io_bind :: "string option"
  io_listen :: "string option"
  io_non_blocking :: "string option"
  io_port :: int
  io_tls :: tls_io
  io_order :: "nat list"

text \<open>The actions of the server. The first four are its calls.\<close>

datatype server_act =
  Start_call | Stop_call | Send_call nat ws_message | Server_close nat int string
| On_session nat session_act
| Spawn_accept | Accept_check | Accept_socket bool bool | Accept_register bool bool
| Accept_session nat bool bool | Accept_insert nat | Push_open nat | Start_session nat | Accept_exit nat
| Push_close nat int string
| Stop_join "nat option" | Stop_sessions "nat list" | Stop_reset | Stop_events
| Server_return bool | Server_throw string

definition push_event :: "nat \<Rightarrow> event_kind \<Rightarrow> ws_server \<Rightarrow> ws_server" where
  "push_event cid k s = s\<lparr>sv_events := eq_push \<lparr>se_id = cid, se_kind = k\<rparr> (sv_events s)\<rparr>"

definition emit_server_message :: "nat \<Rightarrow> ws_message \<Rightarrow> ws_server \<Rightarrow> ws_server" where
  "emit_server_message cid m s = push_event cid (Ev_message m) s"

definition emit_server_close :: "nat \<Rightarrow> int \<Rightarrow> string \<Rightarrow> ws_server \<Rightarrow> ws_server" where
  "emit_server_close cid code reason s = push_event cid (Ev_close code reason) s"

definition remove_server_connection :: "nat \<Rightarrow> int \<Rightarrow> string \<Rightarrow> ws_server \<Rightarrow> server_act list \<times> ws_server" where
  "remove_server_connection cid code reason s =
     (if cid \<in> sv_connections s then ([Push_close cid code reason], s\<lparr>sv_connections := sv_connections s - {cid}\<rparr>) else ([], s))"

text \<open>The handshake of a new connection; \<open>False\<close> if there is no session.\<close>

definition make_server_plain_session :: "ws_io \<Rightarrow> bool" where
  "make_server_plain_session io = io_ws_accept io"

definition make_server_tls_session :: "ws_io \<Rightarrow> bool \<Rightarrow> bool" where
  "make_server_tls_session io tls_ctx = (tls_ctx \<and> io_tls_handshake io \<and> io_ws_accept io)"

text \<open>The critical section of \<open>start\<close>; the calls of the acceptor in order, the first error is thrown.\<close>

definition first_error :: "(string \<times> string option) list \<Rightarrow> string option" where
  "first_error es = (case filter (\<lambda>(t, e). e \<noteq> None) es of (t, e) # _ \<Rightarrow> map_option ((@) t) e | [] \<Rightarrow> None)"

definition server_start :: "(string \<Rightarrow> 'a option) \<Rightarrow> ws_io \<Rightarrow> ws_server \<Rightarrow> server_act list \<times> ws_server" where
  "server_start make_address io s =
     (let cfg = sv_config s
      in if \<not> sc_runtime cfg then ([Server_throw ''websocket server requires runtime''], s)
         else if parse_listen_endpoint make_address (sc_host cfg) (sc_port cfg) = None
         then ([Server_throw ''invalid websocket server host or port''], s)
         else if sv_started s then ([Server_return True], s)
         else
           let s1 = s\<lparr>sv_acceptor := True\<rparr>
           in case first_error
                  [(''websocket acceptor open failed: '', io_open io), (''websocket acceptor reuse_address failed: '', io_reuse io),
                   (''websocket acceptor bind failed: '', io_bind io), (''websocket acceptor listen failed: '', io_listen io),
                   (''websocket acceptor non_blocking failed: '', io_non_blocking io)] of
                Some e \<Rightarrow> ([Server_throw e], s1)
              | None \<Rightarrow>
                  (let s2 = s1\<lparr>sv_bound_port := io_port io, sv_stopping := False, sv_started := True\<rparr>
                   in if sc_use_tls cfg
                      then case create_server_tls_context (io_tls io) cfg of
                             Some e \<Rightarrow> ([Server_throw e], s2)
                           | None \<Rightarrow> ([Spawn_accept, Server_return True], s2\<lparr>sv_tls_ctx := True\<rparr>)
                      else ([Spawn_accept, Server_return True], s2\<lparr>sv_tls_ctx := False\<rparr>)))"

text \<open>The critical section of \<open>stop\<close>; the order of the sessions is that of the map.\<close>

definition server_stop :: "ws_io \<Rightarrow> ws_server \<Rightarrow> (server_act list \<times> ws_server) option" where
  "server_stop io s =
     (if \<not> sv_started s then Some ([Server_return True], s\<lparr>sv_events := eq_close (sv_events s)\<rparr>)
      else if set (io_order io) \<noteq> sv_connections s \<or> \<not> distinct (io_order io) then None
      else Some ([Stop_join (sv_accept_thread s), Stop_sessions (io_order io), Stop_reset, Stop_events, Server_return True],
             s\<lparr>sv_started := False, sv_stopping := True, sv_bound_port := 0, sv_connections := {}, sv_accept_thread := None\<rparr>))"

text \<open>The lookups of \<open>send_stream\<close> and \<open>close\<close>, and the chunk of \<open>send_text\<close> and \<open>send_binary\<close>.\<close>

definition server_send_stream :: "nat \<Rightarrow> ws_message \<Rightarrow> ws_server \<Rightarrow> server_act list" where
  "server_send_stream cid m s =
     (if sv_started s \<and> cid \<in> sv_connections s then [On_session cid (Send_check m)] else [Server_return False])"

definition server_close :: "nat \<Rightarrow> int \<Rightarrow> string \<Rightarrow> ws_server \<Rightarrow> server_act list" where
  "server_close cid code reason s =
     (if cid \<in> sv_connections s then [On_session cid (Close_call code reason)] else [Server_return False])"

definition server_send_text :: "nat \<Rightarrow> string \<Rightarrow> server_act" where
  "server_send_text cid payload = Send_call cid \<lparr>wm_type = Msg_text, wm_payload = payload, wm_first = True, wm_final = True\<rparr>"

definition server_send_binary :: "nat \<Rightarrow> string \<Rightarrow> server_act" where
  "server_send_binary cid payload = Send_call cid \<lparr>wm_type = Msg_binary, wm_payload = payload, wm_first = True, wm_final = True\<rparr>"

definition server_port :: "ws_server \<Rightarrow> int" where
  "server_port s = sv_bound_port s"

text \<open>One action of the server: what follows in this thread, the threads it starts, the new state; \<open>None\<close> while it has to wait.\<close>

primrec server_exec ::
  "(string \<Rightarrow> 'a option) \<Rightarrow> ws_io \<Rightarrow> server_act \<Rightarrow> ws_server \<Rightarrow> (server_act list \<times> server_act list list \<times> ws_server) option" where
  "server_exec mk io Start_call s = (case server_start mk io s of (acts, s') \<Rightarrow> Some (acts, [], s'))"
| "server_exec mk io Stop_call s = (case server_stop io s of None \<Rightarrow> None | Some (acts, s') \<Rightarrow> Some (acts, [], s'))"
| "server_exec mk io (Send_call cid m) s =
     Some (server_send_stream cid m s, [], s)"
| "server_exec mk io (Server_close cid code reason) s =
     Some (server_close cid code reason s, [], s)"
| "server_exec mk io (On_session cid a) s =
     (case session_exec a (io_net io) (sv_sessions s cid) of
        (acts, ss) \<Rightarrow>
          (let s1 = s\<lparr>sv_sessions := (sv_sessions s)(cid := ss)\<rparr>; follow = map (On_session cid) acts
           in case a of
                On_message m \<Rightarrow> Some (follow, [], emit_server_message cid m s1)
              | On_close code reason \<Rightarrow>
                  (case remove_server_connection cid code reason s1 of (acts', s2) \<Rightarrow> Some (acts' @ follow, [], s2))
              | _ \<Rightarrow> Some (follow, [], s1)))"
| "server_exec mk io Spawn_accept s =
     (if sv_accept_thread s \<noteq> None then Some ([], [], s\<lparr>sv_terminated := True\<rparr>)
      else Some ([], [[Accept_check, Accept_exit (sv_threads_made s)]],
             s\<lparr>sv_accept_thread := Some (sv_threads_made s), sv_threads_made := sv_threads_made s + 1\<rparr>))"
| "server_exec mk io Accept_check s =
     Some (if \<not> sv_started s \<or> sv_stopping s \<or> \<not> sv_acceptor s then [] else [Accept_socket (sc_use_tls (sv_config s)) (sv_tls_ctx s)], [], s)"
| "server_exec mk io (Accept_socket tls ctx) s =
     Some (case io_accept io of
             Acc_ok \<Rightarrow> [Accept_register tls ctx]
           | Acc_would_block \<Rightarrow> [Accept_check]
           | Acc_gone \<Rightarrow> []
           | Acc_error \<Rightarrow> if sv_stopping s \<or> \<not> sv_started s then [] else [Accept_check], [], s)"
| "server_exec mk io (Accept_register tls ctx) s =
     (if \<not> sv_started s \<or> sv_stopping s then Some ([], [], s)
      else Some ([Accept_session (sv_next_id s) tls ctx], [], s\<lparr>sv_next_id := sv_next_id s + 1\<rparr>))"
| "server_exec mk io (Accept_session cid tls ctx) s =
     Some (if (if tls then make_server_tls_session io ctx else make_server_plain_session io) then [Accept_insert cid] else [Accept_check], [], s)"
| "server_exec mk io (Accept_insert cid) s =
     (if \<not> sv_started s \<or> sv_stopping s then Some ([On_session cid Transport_stop], [], s)
      else Some ([Push_open cid], [], s\<lparr>sv_connections := insert cid (sv_connections s)\<rparr>))"
| "server_exec mk io (Push_open cid) s = Some ([Start_session cid], [], push_event cid Ev_open s)"
| "server_exec mk io (Start_session cid) s = Some ([Accept_check], [[On_session cid Read_check]], s)"
| "server_exec mk io (Accept_exit n) s = Some ([], [], s\<lparr>sv_exited := insert n (sv_exited s)\<rparr>)"
| "server_exec mk io (Push_close cid code reason) s = Some ([], [], emit_server_close cid code reason s)"
| "server_exec mk io (Stop_join t) s =
     (case t of None \<Rightarrow> Some ([], [], s) | Some n \<Rightarrow> if n \<in> sv_exited s then Some ([], [], s) else None)"
| "server_exec mk io (Stop_sessions ids) s =
     Some (case ids of [] \<Rightarrow> []
           | cid # rest \<Rightarrow> [On_session cid (Close_call 1001 ''server stopped''), On_session cid Transport_stop, Stop_sessions rest], [], s)"
| "server_exec mk io Stop_reset s = Some ([], [], s\<lparr>sv_acceptor := False, sv_tls_ctx := False\<rparr>)"
| "server_exec mk io Stop_events s = Some ([], [], s\<lparr>sv_events := eq_close (sv_events s)\<rparr>)"
| "server_exec mk io (Server_return b) s = Some ([], [], s)"
| "server_exec mk io (Server_throw e) s = Some ([], [], s)"

primrec is_call :: "server_act \<Rightarrow> bool" where
  "is_call Start_call = True"
| "is_call Stop_call = True"
| "is_call (Send_call _ _) = True"
| "is_call (Server_close _ _ _) = True"
| "is_call (On_session _ _) = False"
| "is_call Spawn_accept = False"
| "is_call Accept_check = False"
| "is_call (Accept_socket _ _) = False"
| "is_call (Accept_register _ _) = False"
| "is_call (Accept_session _ _ _) = False"
| "is_call (Accept_insert _) = False"
| "is_call (Push_open _) = False"
| "is_call (Start_session _) = False"
| "is_call (Accept_exit _) = False"
| "is_call (Push_close _ _ _) = False"
| "is_call (Stop_join _) = False"
| "is_call (Stop_sessions _) = False"
| "is_call Stop_reset = False"
| "is_call Stop_events = False"
| "is_call (Server_return _) = False"
| "is_call (Server_throw _) = False"

type_synonym server_state = "ws_server \<times> server_act list list"

text \<open>A run of the server: one thread does one action, the program makes a call, or \<open>next\<close> takes an event.\<close>

inductive server_step :: "(string \<Rightarrow> 'a option) \<Rightarrow> server_state \<Rightarrow> server_state \<Rightarrow> bool" for mk where
  act: "server_exec mk io a s = Some (acts, spawned, s') \<Longrightarrow>
          server_step mk (s, ts1 @ (a # rest) # ts2) (s', ts1 @ (acts @ rest) # ts2 @ spawned)"
| call: "is_call a \<Longrightarrow> server_step mk (s, ts) (s, ts @ [[a]])"
| take: "eq_queue (sv_events s) = e # es \<Longrightarrow>
          server_step mk (s, ts) (s\<lparr>sv_events := (sv_events s)\<lparr>eq_queue := es\<rparr>, sv_taken := sv_taken s @ [e]\<rparr>, ts)"

inductive_cases server_stepE: "server_step mk (s, ts) (s', ts')"

section \<open>What the server reports\<close>

definition trace :: "ws_server \<Rightarrow> server_event list" where
  "trace s = sv_taken s @ eq_queue (sv_events s)"

primrec is_close :: "event_kind \<Rightarrow> bool" where
  "is_close Ev_open = False"
| "is_close (Ev_message m) = False"
| "is_close (Ev_close code reason) = True"

definition closes :: "nat \<Rightarrow> server_event list \<Rightarrow> nat" where
  "closes c tr = length (filter (\<lambda>e. se_id e = c \<and> is_close (se_kind e)) tr)"

definition story :: "nat \<Rightarrow> server_event list \<Rightarrow> event_kind list" where
  "story c tr = map se_kind (filter (\<lambda>e. se_id e = c \<and> \<not> is_close (se_kind e)) tr)"

text \<open>What the open and message events of a connection have to look like: first the open event, then fragments, of which one
  is a first fragment exactly if the one before it was final. The state is \<open>None\<close> before the open event, then
  whether a first fragment is next.\<close>

fun story_next :: "bool option \<Rightarrow> event_kind \<Rightarrow> bool option option" where
  "story_next None Ev_open = Some (Some True)"
| "story_next (Some b) (Ev_message m) = (if wm_first m = b then Some (Some (wm_final m)) else None)"
| "story_next st k = None"

definition story_run :: "event_kind list \<Rightarrow> bool option option" where
  "story_run ks = foldl (\<lambda>st k. Option.bind st (\<lambda>b. story_next b k)) (Some None) ks"

lemma story_run_append [simp]: "story_run (ks @ [k]) = Option.bind (story_run ks) (\<lambda>b. story_next b k)"
  by (simp add: story_run_def)

lemma story_run_Nil [simp]: "story_run [] = Some None"
  by (simp add: story_run_def)

text \<open>The actions that the invariants count.\<close>

definition tally :: "('a \<Rightarrow> bool) \<Rightarrow> 'a list \<Rightarrow> nat" where
  "tally P xs = length (filter P xs)"

lemma tally_simps [simp]:
  "tally P [] = 0" "tally P (x # xs) = (if P x then 1 else 0) + tally P xs" "tally P (xs @ ys) = tally P xs + tally P ys"
  by (simp_all add: tally_def)

lemma tally_0: "tally P xs = 0 \<longleftrightarrow> (\<forall>x \<in> set xs. \<not> P x)"
  by (induction xs) auto

lemma tally_mset: "mset xs = mset ys \<Longrightarrow> tally P xs = tally P ys"
  unfolding tally_def by (metis mset_filter size_mset)

definition is_acc :: "nat \<Rightarrow> server_act \<Rightarrow> bool" where
  "is_acc c a = (case a of Accept_session i _ _ \<Rightarrow> i = c | Accept_insert i \<Rightarrow> i = c | _ \<Rightarrow> False)"

definition is_open :: "nat \<Rightarrow> server_act \<Rightarrow> bool" where
  "is_open c a = (case a of Push_open i \<Rightarrow> i = c | _ \<Rightarrow> False)"

definition reads :: "session_act \<Rightarrow> bool" where
  "reads a = (case a of Read_check \<Rightarrow> True | Read_some \<Rightarrow> True | On_message _ \<Rightarrow> True | _ \<Rightarrow> False)"

definition is_reader :: "nat \<Rightarrow> server_act \<Rightarrow> bool" where
  "is_reader c a = (case a of Start_session i \<Rightarrow> i = c | On_session i b \<Rightarrow> i = c \<and> reads b | _ \<Rightarrow> False)"

definition is_on_close :: "nat \<Rightarrow> server_act \<Rightarrow> bool" where
  "is_on_close c a = (case a of On_session i b \<Rightarrow> i = c \<and> (case b of On_close _ _ \<Rightarrow> True | _ \<Rightarrow> False) | _ \<Rightarrow> False)"

definition is_push_close :: "nat \<Rightarrow> server_act \<Rightarrow> bool" where
  "is_push_close c a = (case a of Push_close i _ _ \<Rightarrow> i = c | _ \<Rightarrow> False)"

lemmas act_kinds = is_acc_def is_open_def reads_def is_reader_def is_on_close_def is_push_close_def

text \<open>For connection \<open>c\<close> and the actions \<open>p\<close> still to be done: its number is given to one acceptor; it is removed and its end
  reported once; a connection in the map has not ended.\<close>

definition id_inv :: "nat \<Rightarrow> ws_server \<Rightarrow> server_act list \<Rightarrow> bool" where
  "id_inv c s p \<longleftrightarrow> tally (is_acc c) p \<le> 1 \<and> (0 < tally (is_acc c) p \<longrightarrow> c < sv_next_id s)
     \<and> (0 < tally (is_acc c) p \<or> sv_next_id s \<le> c \<longrightarrow>
          c \<notin> sv_connections s \<and> closes c (trace s) = 0 \<and> tally (is_push_close c) p = 0)"

definition close_inv :: "nat \<Rightarrow> ws_server \<Rightarrow> server_act list \<Rightarrow> bool" where
  "close_inv c s p \<longleftrightarrow>
     closes c (trace s) + tally (is_on_close c) p + tally (is_push_close c) p \<le> (if ss_close_reported (sv_sessions s c) then 1 else 0)
     \<and> (c \<in> sv_connections s \<longrightarrow> closes c (trace s) + tally (is_push_close c) p = 0)"

text \<open>Its number is announced and read by one thread; before that there is no event of it; what is read next continues what has been
  reported.\<close>

definition token_inv :: "nat \<Rightarrow> ws_server \<Rightarrow> server_act list \<Rightarrow> bool" where
  "token_inv c s p \<longleftrightarrow> tally (is_open c) p + tally (is_reader c) p \<le> 1
     \<and> (0 < tally (is_acc c) p \<or> sv_next_id s \<le> c \<longrightarrow> tally (is_open c) p + tally (is_reader c) p = 0)"

definition early_inv :: "nat \<Rightarrow> ws_server \<Rightarrow> server_act list \<Rightarrow> bool" where
  "early_inv c s p \<longleftrightarrow> (0 < tally (is_acc c) p \<or> sv_next_id s \<le> c \<or> 0 < tally (is_open c) p \<longrightarrow>
     story_run (story c (trace s)) = Some None \<and> ss_next_first (sv_sessions s c))"

definition run_inv :: "nat \<Rightarrow> ws_server \<Rightarrow> server_act list \<Rightarrow> bool" where
  "run_inv c s p \<longleftrightarrow> story_run (story c (trace s)) \<noteq> None
     \<and> (0 < tally (is_reader c) p \<longrightarrow> eq_closed (sv_events s) \<or> story_run (story c (trace s)) \<noteq> Some None)"

definition message_inv :: "nat \<Rightarrow> ws_server \<Rightarrow> server_act list \<Rightarrow> bool" where
  "message_inv c s p \<longleftrightarrow> eq_closed (sv_events s) \<or> (\<forall>b. story_run (story c (trace s)) = Some (Some b) \<longrightarrow>
     (\<forall>m. On_session c (On_message m) \<in> set p \<longrightarrow> b = wm_first m \<and> ss_next_first (sv_sessions s c) = wm_final m)
     \<and> ((\<forall>m. On_session c (On_message m) \<notin> set p) \<longrightarrow> b = ss_next_first (sv_sessions s c)))"

lemma trace_simps [simp]:
  "trace (s\<lparr>sv_sessions := x\<rparr>) = trace s" "trace (s\<lparr>sv_connections := y\<rparr>) = trace s" "trace (s\<lparr>sv_next_id := n\<rparr>) = trace s"
  "trace (s\<lparr>sv_bound_port := i\<rparr>) = trace s" "trace (s\<lparr>sv_started := b\<rparr>) = trace s" "trace (s\<lparr>sv_stopping := b\<rparr>) = trace s"
  "trace (s\<lparr>sv_acceptor := b\<rparr>) = trace s" "trace (s\<lparr>sv_tls_ctx := b\<rparr>) = trace s" "trace (s\<lparr>sv_accept_thread := t\<rparr>) = trace s"
  "trace (s\<lparr>sv_threads_made := n\<rparr>) = trace s" "trace (s\<lparr>sv_exited := e\<rparr>) = trace s" "trace (s\<lparr>sv_terminated := b\<rparr>) = trace s"
  "trace (s\<lparr>sv_events := eq_close (sv_events s)\<rparr>) = trace s"
  by (simp_all add: trace_def eq_close_def)

lemma eq_closed_close [simp]: "eq_closed (eq_close q)"
  by (simp add: eq_close_def)

lemma trace_push [simp]:
  "trace (push_event c k s) = trace s @ (if eq_closed (sv_events s) then [] else [\<lparr>se_id = c, se_kind = k\<rparr>])"
  by (simp add: trace_def push_event_def eq_push_def)

lemma push_event_simps [simp]:
  "sv_sessions (push_event c k s) = sv_sessions s" "sv_connections (push_event c k s) = sv_connections s"
  "sv_next_id (push_event c k s) = sv_next_id s" "eq_closed (sv_events (push_event c k s)) = eq_closed (sv_events s)"
  by (simp_all add: push_event_def eq_push_def)

lemma closes_append [simp]: "closes c (tr @ tr') = closes c tr + closes c tr'"
  by (simp add: closes_def)

lemma closes_single [simp]: "closes c [\<lparr>se_id = i, se_kind = k\<rparr>] = (if i = c \<and> is_close k then 1 else 0)" "closes c [] = 0"
  by (simp_all add: closes_def)

lemma story_append [simp]: "story c (tr @ tr') = story c tr @ story c tr'"
  by (simp add: story_def)

lemma story_single [simp]: "story c [\<lparr>se_id = i, se_kind = k\<rparr>] = (if i = c \<and> \<not> is_close k then [k] else [])" "story c [] = []"
  by (simp_all add: story_def)

text \<open>Actions that none of the invariants counts, and states that agree in what they look at.\<close>

definition neutral :: "server_act \<Rightarrow> bool" where
  "neutral a = (case a of Accept_session _ _ _ \<Rightarrow> False | Accept_insert _ \<Rightarrow> False | Push_open _ \<Rightarrow> False | Start_session _ \<Rightarrow> False
     | Push_close _ _ _ \<Rightarrow> False | On_session _ b \<Rightarrow> \<not> reads b \<and> (case b of On_close _ _ \<Rightarrow> False | _ \<Rightarrow> True) | _ \<Rightarrow> True)"

definition quiet_change :: "ws_server \<Rightarrow> ws_server \<Rightarrow> bool" where
  "quiet_change s s' \<longleftrightarrow> sv_sessions s' = sv_sessions s \<and> sv_connections s' \<subseteq> sv_connections s \<and> sv_next_id s' = sv_next_id s
     \<and> trace s' = trace s \<and> (eq_closed (sv_events s) \<longrightarrow> eq_closed (sv_events s'))"

lemma neutral_tally:
  assumes "\<forall>x \<in> set xs. neutral x"
  shows "tally (is_acc c) xs = 0" "tally (is_open c) xs = 0" "tally (is_reader c) xs = 0" "tally (is_on_close c) xs = 0"
    "tally (is_push_close c) xs = 0" "On_session c (On_message m) \<notin> set xs"
  using assms unfolding tally_0 by (fastforce simp: act_kinds neutral_def split: server_act.splits session_act.splits)+

lemma quiet_changes [simp]:
  "quiet_change s s" "quiet_change s (s\<lparr>sv_events := eq_close (sv_events s)\<rparr>)" "quiet_change s (s\<lparr>sv_exited := e\<rparr>)"
  "quiet_change s (s\<lparr>sv_started := False, sv_stopping := True, sv_bound_port := 0, sv_connections := {}, sv_accept_thread := None\<rparr>)"
  "quiet_change s (s\<lparr>sv_terminated := True\<rparr>)" "quiet_change s (s\<lparr>sv_accept_thread := t, sv_threads_made := n\<rparr>)"
  "quiet_change s (s\<lparr>sv_acceptor := False, sv_tls_ctx := False\<rparr>)"
  by (simp_all add: quiet_change_def)

lemma server_start_quiet:
  assumes "server_start mk io s = (acts, s')"
  shows "(\<forall>x \<in> set acts. neutral x) \<and> quiet_change s s'"
  using assms by (auto simp: server_start_def Let_def neutral_def quiet_change_def split: if_splits option.splits)

lemma server_stop_quiet:
  assumes "server_stop io s = Some (acts, s')"
  shows "(\<forall>x \<in> set acts. neutral x) \<and> quiet_change s s'"
  using assms by (auto simp: server_stop_def neutral_def split: if_splits)

lemma server_exec_cases:
  assumes "server_exec mk io a s = Some (acts, spawned, s')"
  obtains (quiet) "\<forall>x \<in> set (acts @ concat spawned). neutral x" "quiet_change s s'" "\<forall>i b. a \<noteq> On_session i b"
  | (register) tls ctx where "a = Accept_register tls ctx" "acts = [Accept_session (sv_next_id s) tls ctx]" "spawned = []"
      "s' = s\<lparr>sv_next_id := sv_next_id s + 1\<rparr>"
  | (accepted) i tls ctx where "a = Accept_session i tls ctx" "acts = [Accept_insert i]" "spawned = []" "s' = s"
  | (inserted) i where "a = Accept_insert i" "acts = [Push_open i]" "spawned = []" "s' = s\<lparr>sv_connections := insert i (sv_connections s)\<rparr>"
  | (opened) i where "a = Push_open i" "acts = [Start_session i]" "spawned = []" "s' = push_event i Ev_open s"
  | (started) i where "a = Start_session i" "acts = [Accept_check]" "spawned = [[On_session i Read_check]]" "s' = s"
  | (ended) i code reason where "a = Push_close i code reason" "acts = []" "spawned = []" "s' = push_event i (Ev_close code reason) s"
  | (session) i b where "a = On_session i b"
proof (cases a)
  case Start_call
  then show thesis using assms server_start_quiet [of mk io s] by (auto split: prod.splits intro!: quiet)
next
  case Stop_call
  then show thesis using assms server_stop_quiet [of io s] by (auto split: prod.splits option.splits intro!: quiet)
next
  case (Stop_sessions ids)
  then show thesis using assms by (cases ids) (auto simp: neutral_def reads_def intro!: quiet)
next
  case (Accept_socket tls ctx)
  then show thesis using assms by (auto simp: neutral_def split: accept_result.splits if_splits intro!: quiet)
next
  case (On_session i b)
  then show thesis by (rule session)
next
  case (Accept_register tls ctx)
  then show thesis using assms by (auto simp: neutral_def split: if_splits intro: quiet register)
next
  case (Accept_session i tls ctx)
  then show thesis using assms by (auto simp: neutral_def split: if_splits intro: quiet accepted)
next
  case (Accept_insert i)
  then show thesis using assms by (auto simp: neutral_def reads_def split: if_splits intro: quiet inserted)
next
  case (Push_open i)
  then show thesis using assms by (auto intro: opened)
next
  case (Start_session i)
  then show thesis using assms by (auto intro: started)
next
  case (Push_close i code reason)
  then show thesis using assms by (auto simp: emit_server_close_def intro: ended)
qed (use assms in \<open>auto simp: neutral_def reads_def server_send_stream_def server_close_def split: if_splits option.splits intro!: quiet\<close>)

lemma server_session_exec:
  assumes "server_exec mk io (On_session i b) s = Some (acts, spawned, s')"
  obtains sacts ss where "session_exec b (io_net io) (sv_sessions s i) = (sacts, ss)" "spawned = []"
    "sv_sessions s' = (sv_sessions s)(i := ss)" "sv_next_id s' = sv_next_id s" "eq_closed (sv_events s') = eq_closed (sv_events s)"
    "acts = (case b of On_close code reason \<Rightarrow> if i \<in> sv_connections s then [Push_close i code reason] else [] | _ \<Rightarrow> []) @ map (On_session i) sacts"
    "sv_connections s' = (case b of On_close code reason \<Rightarrow> sv_connections s - {i} | _ \<Rightarrow> sv_connections s)"
    "trace s' = trace s @ (case b of On_message m \<Rightarrow> if eq_closed (sv_events s) then [] else [\<lparr>se_id = i, se_kind = Ev_message m\<rparr>] | _ \<Rightarrow> [])"
proof -
  obtain sacts ss where e: "session_exec b (io_net io) (sv_sessions s i) = (sacts, ss)" by fastforce
  note x = assms [unfolded server_exec.simps e prod.case Let_def emit_server_message_def remove_server_connection_def]
  show thesis
    by (rule that [OF e]; insert x; cases b) (simp_all split: if_splits, (elim conjE; hypsubst; simp)+)
qed

text \<open>A session's own actions: which counted actions they lead to.\<close>

lemma session_exec_kinds:
  assumes "session_exec b io ss = (sacts, ss')"
  shows "tally (is_acc c) (map (On_session i) sacts) = 0" "tally (is_open c) (map (On_session i) sacts) = 0"
    "tally (is_push_close c) (map (On_session i) sacts) = 0"
    "tally (is_on_close c) (map (On_session i) sacts) \<le> (if i = c \<and> \<not> ss_close_reported ss \<and> ss_close_reported ss' then 1 else 0)"
    "tally (is_reader c) (map (On_session i) sacts) \<le> (if i = c \<and> reads b then 1 else 0)"
  using assms by (cases b; auto simp: act_kinds close_report_def start_message_def Let_def split: if_splits net_io.splits)+

lemma session_exec_reported: "session_exec b io ss = (sacts, ss') \<Longrightarrow> ss_close_reported ss \<Longrightarrow> ss_close_reported ss'"
  by (cases b; auto simp: start_message_def Let_def split: if_splits net_io.splits)

lemma id_inv_exec:
  assumes "server_exec mk io a s = Some (acts, spawned, s')" and inv: "id_inv c s (a # q)"
  shows "id_inv c s' (acts @ concat spawned @ q)"
  using assms(1)
proof (cases rule: server_exec_cases)
  case quiet
  with neutral_tally [of "acts @ concat spawned" c] inv show ?thesis by (auto simp: id_inv_def quiet_change_def split: if_splits)
next
  case (session i b)
  from assms(1) [unfolded session] show ?thesis
  proof (cases rule: server_session_exec)
    case (1 sacts ss)
    note k = session_exec_kinds [OF 1(1), of c i]
    from 1(2-) k(1-3) inv session show ?thesis by (cases b) (auto simp: id_inv_def act_kinds split: if_splits)
  qed
qed (use inv in \<open>auto simp: id_inv_def act_kinds\<close>)

lemma close_inv_exec:
  assumes "server_exec mk io a s = Some (acts, spawned, s')" and inv: "close_inv c s (a # q)" and fresh: "id_inv c s (a # q)"
  shows "close_inv c s' (acts @ concat spawned @ q)"
  using assms(1)
proof (cases rule: server_exec_cases)
  case quiet
  with neutral_tally [of "acts @ concat spawned" c] inv show ?thesis by (auto simp: close_inv_def quiet_change_def split: if_splits)
next
  case (session i b)
  from assms(1) [unfolded session] show ?thesis
  proof (cases rule: server_session_exec)
    case (1 sacts ss)
    note k = session_exec_kinds(3,4) [OF 1(1), of c i] session_exec_reported [OF 1(1)]
    note f = 1(2-) inv [unfolded close_inv_def session]
    show ?thesis
    proof (cases "\<exists>code reason. b = On_close code reason")
      case True
      then show ?thesis using f 1(1) by (auto simp: close_inv_def act_kinds split: if_splits)
    next
      case False
      then have "acts = map (On_session i) sacts" "sv_connections s' = sv_connections s" "\<not> is_on_close c (On_session i b)"
        using f by (auto simp: is_on_close_def split: session_act.splits)
      moreover have "closes c (trace s') = closes c (trace s)" using f by (cases b) auto
      moreover have "\<not> is_push_close c (On_session i b)" by (simp add: is_push_close_def)
      ultimately show ?thesis using f k by (cases "i = c") (auto simp: close_inv_def split: if_splits)
    qed
  qed
qed (use inv fresh in \<open>auto simp: close_inv_def id_inv_def act_kinds split: if_splits\<close>)

lemma session_exec_silent:
  assumes "session_exec b io ss = (sacts, ss')" "b \<noteq> Read_some"
  shows "ss_next_first ss' = ss_next_first ss" "On_session c (On_message m) \<notin> set (map (On_session i) sacts)"
  using assms by (cases b; auto simp: close_report_def start_message_def Let_def split: if_splits net_io.splits)+

lemma token_inv_exec:
  assumes "server_exec mk io a s = Some (acts, spawned, s')" and inv: "token_inv c s (a # q)" and fresh: "id_inv c s (a # q)"
  shows "token_inv c s' (acts @ concat spawned @ q)"
  using assms(1)
proof (cases rule: server_exec_cases)
  case quiet
  with neutral_tally [of "acts @ concat spawned" c] inv show ?thesis by (auto simp: token_inv_def quiet_change_def split: if_splits)
next
  case (session i b)
  from assms(1) [unfolded session] show ?thesis
  proof (cases rule: server_session_exec)
    case (1 sacts ss)
    note k = session_exec_kinds(1,2,5) [OF 1(1), of c i]
    have "tally (is_acc c) acts = 0" "tally (is_open c) acts = 0"
      "tally (is_reader c) acts \<le> (if is_reader c (On_session i b) then 1 else 0)"
      using k 1(6) by (auto simp: is_acc_def is_open_def is_reader_def split: session_act.splits if_splits)
    then show ?thesis using 1(2,4) inv session by (auto simp: token_inv_def is_acc_def is_open_def split: if_splits)
  qed
qed (use inv fresh in \<open>auto simp: token_inv_def id_inv_def act_kinds split: if_splits\<close>)

lemma early_inv_exec:
  assumes "server_exec mk io a s = Some (acts, spawned, s')" and inv: "early_inv c s (a # q)"
    and fresh: "id_inv c s (a # q)" "token_inv c s (a # q)"
  shows "early_inv c s' (acts @ concat spawned @ q)"
  using assms(1)
proof (cases rule: server_exec_cases)
  case quiet
  with neutral_tally [of "acts @ concat spawned" c] inv show ?thesis by (auto simp: early_inv_def quiet_change_def split: if_splits)
next
  case (session i b)
  from assms(1) [unfolded session] show ?thesis
  proof (cases rule: server_session_exec)
    case (1 sacts ss)
    note k = session_exec_kinds(1,2) [OF 1(1), of c i]
    have t: "tally (is_acc c) acts = 0" "tally (is_open c) acts = 0"
      using k 1(6) by (auto simp: is_acc_def is_open_def split: session_act.splits if_splits)
    show ?thesis
    proof (cases "is_reader c (On_session i b)")
      case True
      then show ?thesis using t fresh session 1(2,4) by (auto simp: early_inv_def token_inv_def is_acc_def is_open_def split: if_splits)
    next
      case False
      then have "story c (trace s') = story c (trace s)" "ss_next_first (sv_sessions s' c) = ss_next_first (sv_sessions s c)"
        using 1(3,8) session_exec_silent(1) [OF 1(1)] by (auto simp: is_reader_def reads_def split: session_act.splits)
      then show ?thesis using t inv session 1(2,4) by (auto simp: early_inv_def is_acc_def is_open_def split: if_splits)
    qed
  qed
qed (use inv fresh in \<open>auto simp: early_inv_def token_inv_def id_inv_def act_kinds split: if_splits\<close>)

lemma run_inv_exec:
  assumes "server_exec mk io a s = Some (acts, spawned, s')" and inv: "run_inv c s (a # q)"
    and fresh: "id_inv c s (a # q)" "token_inv c s (a # q)" "early_inv c s (a # q)" "message_inv c s (a # q)"
  shows "run_inv c s' (acts @ concat spawned @ q)"
  using assms(1)
proof (cases rule: server_exec_cases)
  case quiet
  with neutral_tally [of "acts @ concat spawned" c] inv show ?thesis by (auto simp: run_inv_def quiet_change_def split: if_splits)
next
  case (session i b)
  from assms(1) [unfolded session] show ?thesis
  proof (cases rule: server_session_exec)
    case (1 sacts ss)
    have t: "tally (is_reader c) acts \<le> (if is_reader c (On_session i b) then 1 else 0)"
      using session_exec_kinds(5) [OF 1(1), of c i] 1(6) by (auto simp: is_reader_def split: session_act.splits if_splits)
    show ?thesis
    proof (cases "\<exists>m. On_session i b = On_session c (On_message m) \<and> \<not> eq_closed (sv_events s)")
      case True
      then obtain m where m: "i = c" "b = On_message m" "\<not> eq_closed (sv_events s)" by auto
      with inv session obtain st where "story_run (story c (trace s)) = Some (Some st)" by (auto simp: run_inv_def is_reader_def reads_def)
      with m fresh(4) session show ?thesis using 1 t by (auto simp: run_inv_def message_inv_def)
    next
      case False
      then have "story c (trace s') = story c (trace s)" using 1(8) by (auto split: session_act.splits)
      then show ?thesis using t 1(2,5) inv session by (auto simp: run_inv_def split: if_splits)
    qed
  qed
qed (use inv fresh(1-3) in \<open>auto simp: run_inv_def token_inv_def early_inv_def id_inv_def act_kinds split: if_splits\<close>)

lemma no_reader_no_message: "tally (is_reader c) q = 0 \<Longrightarrow> On_session c (On_message m) \<notin> set q"
  by (auto simp: tally_0 is_reader_def reads_def)

lemma message_inv_exec:
  assumes "server_exec mk io a s = Some (acts, spawned, s')" and inv: "message_inv c s (a # q)"
    and fresh: "run_inv c s (a # q)" "token_inv c s (a # q)" "early_inv c s (a # q)"
  shows "message_inv c s' (acts @ concat spawned @ q)"
  using assms(1)
proof (cases rule: server_exec_cases)
  case quiet
  note n = neutral_tally(6) [OF quiet(1), of c]
  have "On_session c (On_message m) \<in> set (acts @ concat spawned @ q) \<longleftrightarrow> On_session c (On_message m) \<in> set (a # q)" for m
    using n [of m] quiet(3) by auto
  with inv quiet(2) show ?thesis by (simp only: message_inv_def quiet_change_def) blast
next
  case (session i b)
  from assms(1) [unfolded session] show ?thesis
  proof (cases rule: server_session_exec)
    case (1 sacts ss)
    show ?thesis
    proof (cases "is_reader c (On_session i b)")
      case True
      then have none: "On_session c (On_message m) \<notin> set q" for m
        using fresh(2) session no_reader_no_message by (simp add: token_inv_def)
      have "i = c" using True by (auto simp: is_reader_def)
      with True inv none session show ?thesis using 1
        by (cases b) (auto simp: is_reader_def reads_def message_inv_def received_def close_report_def bind_eq_Some_conv
            split: if_splits net_io.splits elim: story_next.elims)
    next
      case False
      then have same: "story c (trace s') = story c (trace s)" "ss_next_first (sv_sessions s' c) = ss_next_first (sv_sessions s c)"
        and no: "On_session c (On_message m) \<notin> set acts" for m
        using 1(3,6,8) session_exec_silent [OF 1(1)] by (auto simp: is_reader_def reads_def split: session_act.splits if_splits)
      have "On_session c (On_message m) \<in> set (acts @ concat spawned @ q) \<longleftrightarrow> On_session c (On_message m) \<in> set (a # q)" for m
        using no [of m] 1(2) False session by (auto simp: is_reader_def reads_def)
      then show ?thesis using inv unfolding message_inv_def same 1(5) by blast
    qed
  qed
qed (use inv fresh in \<open>auto simp: message_inv_def early_inv_def token_inv_def act_kinds bind_eq_Some_conv
      split: if_splits elim: story_next.elims dest: no_reader_no_message [of c q]\<close>)

definition conn_inv :: "nat \<Rightarrow> ws_server \<Rightarrow> server_act list \<Rightarrow> bool" where
  "conn_inv c s p \<longleftrightarrow> id_inv c s p \<and> close_inv c s p \<and> token_inv c s p \<and> early_inv c s p \<and> run_inv c s p \<and> message_inv c s p"

lemmas conn_inv_defs = conn_inv_def id_inv_def close_inv_def token_inv_def early_inv_def run_inv_def message_inv_def

lemma conn_inv_exec:
  "server_exec mk io a s = Some (acts, spawned, s') \<Longrightarrow> conn_inv c s (a # q) \<Longrightarrow> conn_inv c s' (acts @ concat spawned @ q)"
  unfolding conn_inv_def
  by (elim conjE, intro conjI)
    (rule id_inv_exec close_inv_exec token_inv_exec early_inv_exec run_inv_exec message_inv_exec; assumption)+

text \<open>Only the collection of actions matters, not their order.\<close>

lemma conn_inv_mset: "mset p = mset p' \<Longrightarrow> conn_inv c s p = conn_inv c s p'"
  using tally_mset [of p p'] mset_eq_setD [of p p'] unfolding conn_inv_defs by simp

definition server_inv :: "server_state \<Rightarrow> bool" where
  "server_inv x \<longleftrightarrow> (\<forall>c. conn_inv c (fst x) (concat (snd x)))"

lemma server_inv_init: "server_inv (new_ws_server cfg, [])"
  by (simp add: server_inv_def conn_inv_defs new_ws_server_def new_queue_def new_session_def trace_def story_def closes_def)

lemma server_inv_step:
  assumes "server_step mk x y" "server_inv x"
  shows "server_inv y"
  using assms
proof (induction rule: server_step.induct)
  case (act io a s acts spawned s' ts1 rest ts2)
  let ?q = "concat ts1 @ rest @ concat ts2"
  have "conn_inv c s (a # ?q)" for c
    using act.prems conn_inv_mset [of "concat (ts1 @ (a # rest) # ts2)" "a # ?q" c s] by (simp add: server_inv_def)
  from conn_inv_exec [OF act.hyps this]
  have "conn_inv c s' (acts @ concat spawned @ ?q)" for c .
  then show ?case
    using conn_inv_mset [of "concat (ts1 @ (acts @ rest) # ts2 @ spawned)" "acts @ concat spawned @ ?q" _ s']
    by (simp add: server_inv_def ac_simps)
next
  case (call a s ts)
  then have "neutral a" by (cases a) (auto simp: neutral_def)
  then have "tally (is_acc c) [a] = 0" "tally (is_open c) [a] = 0" "tally (is_reader c) [a] = 0" "tally (is_on_close c) [a] = 0"
    "tally (is_push_close c) [a] = 0" "On_session c (On_message m) \<noteq> a" for c m
    using neutral_tally [of "[a]" c] by auto
  with call.prems show ?case by (simp add: server_inv_def conn_inv_defs)
next
  case (take s e es ts)
  have "trace (s\<lparr>sv_events := (sv_events s)\<lparr>eq_queue := es\<rparr>, sv_taken := sv_taken s @ [e]\<rparr>) = trace s"
    using take.hyps by (simp add: trace_def)
  with take.prems show ?case by (simp add: server_inv_def conn_inv_defs)
qed

interpretation ws: invariant_system "\<lambda>x. \<exists>cfg. x = (new_ws_server cfg, [])" "server_step mk" server_inv for mk
  by unfold_locales (use server_inv_init server_inv_step in blast)+

interpretation wsp: thread_pool "server_exec mk" is_call "server_step mk" for mk
  by unfold_locales (auto intro: server_step.intros)

text \<open>
  C25: The end of a connection is reported at most once, whoever notices it first: the reader, a failed write, a call of \<open>close\<close>, or several at the same time.
  As long as the connection is in the server's map, so that it can be sent to, its end has not been
  reported.\<close>

theorem close_reported_once:
  assumes "(server_step mk)\<^sup>*\<^sup>* (new_ws_server cfg, []) (s, ts)"
  shows "closes c (trace s) \<le> 1 \<and> (c \<in> sv_connections s \<longrightarrow> closes c (trace s) = 0)"
proof -
  have "close_inv c s (concat ts)" using ws.reachable_inv [OF _ assms] by (auto simp: server_inv_def conn_inv_def)
  then show ?thesis by (auto simp: close_inv_def split: if_splits)
qed

text \<open>
  C26: The messages of a connection are reported in order and after its open event: in every run, the events of a connection other than its end are
  the open event followed by fragments, the first of which starts a message, and each of the others starts one
  exactly if the fragment before it was final.\<close>

theorem messages_in_order:
  assumes "(server_step mk)\<^sup>*\<^sup>* (new_ws_server cfg, []) (s, ts)"
  shows "story_run (story c (trace s)) \<noteq> None"
  using ws.reachable_inv [OF _ assms] by (auto simp: server_inv_def conn_inv_def run_inv_def)

text \<open>A connection that has left the map, with nothing about its end on the way: it stays unreported.\<close>

definition gone :: "nat \<Rightarrow> server_state \<Rightarrow> bool" where
  "gone c x \<longleftrightarrow> c \<notin> sv_connections (fst x) \<and> c < sv_next_id (fst x) \<and> closes c (trace (fst x)) = 0
     \<and> tally (is_acc c) (concat (snd x)) = 0 \<and> tally (is_push_close c) (concat (snd x)) = 0"

lemma gone_exec:
  assumes "server_exec mk io a s = Some (acts, spawned, s')" "gone c (s, [a # q])"
  shows "gone c (s', [acts @ concat spawned @ q])"
  using assms(1)
proof (cases rule: server_exec_cases)
  case quiet
  with neutral_tally [of "acts @ concat spawned" c] assms(2) show ?thesis by (auto simp: gone_def quiet_change_def split: if_splits)
next
  case (session i b)
  from assms(1) [unfolded session] show ?thesis
  proof (cases rule: server_session_exec)
    case (1 sacts ss)
    note k = session_exec_kinds(1,3) [OF 1(1), of c i]
    from 1(2-) k assms(2) session show ?thesis by (cases b) (auto simp: gone_def act_kinds split: if_splits)
  qed
qed (use assms(2) in \<open>auto simp: gone_def act_kinds split: if_splits\<close>)

lemma gone_step:
  assumes "server_step mk x y" "gone c x"
  shows "gone c y"
  using assms
proof (induction rule: server_step.induct)
  case (act io a s acts spawned s' ts1 rest ts2)
  then have "gone c (s, [a # concat ts1 @ rest @ concat ts2])" by (simp add: gone_def split: if_splits)
  from gone_exec [OF act.hyps this] show ?case by (simp add: gone_def)
next
  case (call a s ts)
  then show ?case by (cases a) (auto simp: gone_def act_kinds)
next
  case (take s e es ts)
  then show ?case by (simp add: gone_def trace_def)
qed

lemma gone_steps: "(server_step mk)\<^sup>*\<^sup>* x y \<Longrightarrow> gone c x \<Longrightarrow> gone c y"
  by (induction rule: rtranclp_induct) (auto intro: gone_step)

text \<open>
  Stopping the server loses the end of every connection: \<open>stop\<close> empties the map before it closes the sessions, and a session that closes
  reports its end only if it is still in the map. So the connections that are open when \<open>stop\<close> is
  called never get a close event, in no continuation.\<close>

theorem stop_reports_no_close:
  assumes "(server_step mk)\<^sup>*\<^sup>* (new_ws_server cfg, []) (s, ts1 @ (Stop_call # rest) # ts2)" and "sv_started s" and "c \<in> sv_connections s"
    and "server_exec mk io Stop_call s = Some (acts, spawned, s1)"
    and "(server_step mk)\<^sup>*\<^sup>* (s1, ts1 @ (acts @ rest) # ts2 @ spawned) (s2, ts)"
  shows "closes c (trace s2) = 0"
proof -
  let ?q = "concat ts1 @ rest @ concat ts2"
  have "conn_inv c s (Stop_call # ?q)"
    using ws.reachable_inv [OF _ assms(1)] conn_inv_mset [of "concat (ts1 @ (Stop_call # rest) # ts2)" "Stop_call # ?q" c s]
    by (auto simp: server_inv_def)
  then have i: "tally (is_acc c) ?q = 0" "c < sv_next_id s" "closes c (trace s) = 0" "tally (is_push_close c) ?q = 0"
    using assms(3) unfolding conn_inv_def id_inv_def close_inv_def by (simp_all add: act_kinds)
  from assms(2,4) have s1: "sv_connections s1 = {}" "sv_next_id s1 = sv_next_id s" "trace s1 = trace s" "spawned = []"
    "acts = [Stop_join (sv_accept_thread s), Stop_sessions (io_order io), Stop_reset, Stop_events, Server_return True]"
    by (auto simp: server_stop_def split: if_splits)
  have "gone c (s1, ts1 @ (acts @ rest) # ts2 @ spawned)" using i s1 by (simp add: gone_def act_kinds)
  from gone_steps [OF assms(5) this] show ?thesis by (simp add: gone_def)
qed

lemma closed_step:
  assumes "server_step mk x y" "eq_closed (sv_events (fst x))"
  shows "eq_closed (sv_events (fst y)) \<and> trace (fst y) = trace (fst x)"
  using assms
proof (induction rule: server_step.induct)
  case (act io a s acts spawned s' ts1 rest ts2)
  from act.hyps show ?case
  proof (cases rule: server_exec_cases)
    case (session i b)
    from act.hyps [unfolded session] show ?thesis
      by (cases rule: server_session_exec) (use act.prems in \<open>cases b; simp\<close>)
  qed (use act.prems in \<open>auto simp: quiet_change_def\<close>)
qed (auto simp: trace_def)

text \<open>
  A server that has been stopped is mute for good: once the event queue is closed, which \<open>stop\<close> does even on a server that was
  never started, no run adds an event to those reported before, whether the server is started again
  or not.\<close>

theorem closed_queue_stays_mute:
  assumes "(server_step mk)\<^sup>*\<^sup>* (s, ts) (s', ts')" and "eq_closed (sv_events s)"
  shows "eq_closed (sv_events s') \<and> trace s' = trace s"
proof -
  have "eq_closed (sv_events (fst y)) \<and> trace (fst y) = trace s" if "(server_step mk)\<^sup>*\<^sup>* (s, ts) y" for y
    using that
  proof (induction rule: rtranclp_induct)
    case (step y z)
    with closed_step [OF step.hyps(2)] show ?case by simp
  qed (simp add: assms(2))
  from this [OF assms(1)] show ?thesis by simp
qed

text \<open>
  A failed TLS start looks like a started server: when the certificate cannot be loaded, \<open>start\<close> throws but leaves the server marked as
  started, without an accepting thread, and the next call of \<open>start\<close> returns normally and changes nothing.\<close>

theorem tls_start_failure_hidden:
  assumes "sc_runtime (sv_config s)" and "parse_listen_endpoint mk (sc_host (sv_config s)) (sc_port (sv_config s)) \<noteq> None"
    and "\<not> sv_started s" and "sc_use_tls (sv_config s)" and "create_server_tls_context (io_tls io) (sv_config s) = Some e"
    and "io_open io = None" "io_reuse io = None" "io_bind io = None" "io_listen io = None" "io_non_blocking io = None"
  shows "\<exists>s'. server_start mk io s = ([Server_throw e], s') \<and> sv_started s' \<and> sv_accept_thread s' = sv_accept_thread s
    \<and> server_start mk io' s' = ([Server_return True], s')"
  using assms by (auto simp: server_start_def first_error_def Let_def)

lemma pop_cases:
  "eq_pop others q = (if eq_queue q \<noteq> [] then Some (Some (hd (eq_queue q)), q\<lparr>eq_queue := tl (eq_queue q)\<rparr>)
     else if eq_closed q then Some (None, q) else case others of [] \<Rightarrow> None | f # fs \<Rightarrow> eq_pop fs (f q))"
  by (subst eq_pop.simps) (simp split: list.splits)

lemma pop_None: "eq_pop others q = Some (None, q') \<Longrightarrow> eq_closed q' \<and> eq_queue q' = []"
proof (induction others arbitrary: q)
  case Nil
  with pop_cases [of "[]" q] show ?case by (auto split: if_splits)
next
  case (Cons f fs)
  with pop_cases [of "f # fs" q] show ?case by (auto split: if_splits)
qed

lemma pop_Some:
  "eq_pop others q = Some (Some v, q') \<Longrightarrow> \<exists>k \<le> length others. eq_queue (fold (\<lambda>f q. f q) (take k others) q) = v # eq_queue q'"
proof (induction others arbitrary: q)
  case (Cons f fs)
  show ?case
  proof (cases "eq_queue q = []")
    case True
    with Cons.prems have "eq_pop fs (f q) = Some (Some v, q')" by (subst (asm) pop_cases) (auto split: if_splits)
    from Cons.IH [OF this] obtain k where "k \<le> length fs" "eq_queue (fold (\<lambda>f q. f q) (take k fs) (f q)) = v # eq_queue q'" by blast
    then show ?thesis by (intro exI [of _ "Suc k"]) simp
  next
    case False
    with Cons.prems show ?thesis by (intro exI [of _ 0]) (subst (asm) pop_cases, auto)
  qed
qed (subst (asm) pop_cases, auto split: if_splits)

lemma pop_returns: "eq_queue (fold (\<lambda>f q. f q) (take k others) q) \<noteq> [] \<Longrightarrow> eq_pop others q \<noteq> None"
proof (induction others arbitrary: q k)
  case (Cons f fs)
  then show ?case by (subst pop_cases) (cases k; auto)
qed (subst pop_cases, auto)

text \<open>
  \<open>next\<close> returns nothing only at the end: when a poll of the queue returns no event, the queue is closed and everything pushed before has been
  returned; an event it returns is the oldest one at the poll that finds it; and it does return if some poll finds an event.\<close>

theorem pop_exact:
  "(eq_pop others q = Some (None, q') \<longrightarrow> eq_closed q' \<and> eq_queue q' = [])
   \<and> (eq_pop others q = Some (Some v, q') \<longrightarrow> (\<exists>k \<le> length others. eq_queue (fold (\<lambda>f q. f q) (take k others) q) = v # eq_queue q'))
   \<and> (eq_queue (fold (\<lambda>f q. f q) (take k others) q) \<noteq> [] \<longrightarrow> eq_pop others q \<noteq> None)"
  using pop_None [of others q q'] pop_Some [of others q v q'] pop_returns [of k others q] by simp

section \<open>Examples\<close>

text \<open>A server on the loopback address; every call of the network succeeds, and reads deliver one text fragment that starts a longer message.\<close>

definition sample_config :: ws_server_config where
  "sample_config = \<lparr>sc_runtime = True, sc_host = ''127.0.0.1'', sc_port = 0, sc_use_tls = False, sc_tls_cert_file = [],
     sc_tls_private_key_file = [], sc_tls_ca_file = []\<rparr>"

definition good_tls :: tls_io where
  "good_tls = \<lparr>ti_cert = None, ti_key = None, ti_ca = None, ti_verify_mode = None, ti_default_paths = None\<rparr>"

definition good_io :: ws_io where
  "good_io = \<lparr>io_net = Net_ok Msg_text ''hi'' False, io_accept = Acc_ok, io_tls_handshake = True, io_ws_accept = True, io_open = None,
     io_reuse = None, io_bind = None, io_listen = None, io_non_blocking = None, io_port = 9000, io_tls = good_tls, io_order = [1]\<rparr>"

text \<open>The program starts the server; a client connects, and its reader gets a fragment; then the program calls \<open>stop\<close>, and has it run or not.\<close>

definition first_run :: "(server_act + nat \<times> ws_io) list" where
  "first_run = Inl Start_call # replicate 3 (Inr (0, good_io)) @ replicate 7 (Inr (1, good_io)) @ replicate 3 (Inr (2, good_io)) @ [Inl Stop_call]"

definition fragment :: ws_message where
  "fragment = \<lparr>wm_type = Msg_text, wm_payload = ''hi'', wm_first = True, wm_final = False\<rparr>"

lemma first_run_reaches:
  "if_run (pool_run (server_exec Some) is_call first_run (new_ws_server sample_config, []))
     (\<lambda>s ts. trace s = [\<lparr>se_id = 1, se_kind = Ev_open\<rparr>, \<lparr>se_id = 1, se_kind = Ev_message fragment\<rparr>]
       \<and> 1 \<in> sv_connections s \<and> sv_started s \<and> length ts = 4 \<and> ts ! 3 = [Stop_call] \<and> sv_connections s = {1})"
  by code_simp

lemma first_run_state:
  obtains s ts where "(server_step Some)\<^sup>*\<^sup>* (new_ws_server sample_config, []) (s, ts)"
    "trace s = [\<lparr>se_id = 1, se_kind = Ev_open\<rparr>, \<lparr>se_id = 1, se_kind = Ev_message fragment\<rparr>]"
    "sv_started s" "sv_connections s = {1}" "ts = take 3 ts @ [[Stop_call]]"
proof (rule wsp.run_reaches [OF first_run_reaches])
  fix s ts
  assume r: "(server_step Some)\<^sup>*\<^sup>* (new_ws_server sample_config, []) (s, ts)"
    and p: "trace s = [\<lparr>se_id = 1, se_kind = Ev_open\<rparr>, \<lparr>se_id = 1, se_kind = Ev_message fragment\<rparr>]
       \<and> 1 \<in> sv_connections s \<and> sv_started s \<and> length ts = 4 \<and> ts ! 3 = [Stop_call] \<and> sv_connections s = {1}"
  then have "ts = take 3 ts @ [[Stop_call]]" using id_take_nth_drop [of 3 ts] by simp
  with r p show thesis by (intro that [of s ts]) simp_all
qed

theorem close_reported_once_witness:
  "\<exists>s ts. (server_step Some)\<^sup>*\<^sup>* (new_ws_server sample_config, []) (s, ts) \<and> 1 \<in> sv_connections s \<and> closes 1 (trace s) = 0"
proof -
  obtain s ts where r: "(server_step Some)\<^sup>*\<^sup>* (new_ws_server sample_config, []) (s, ts)" "sv_connections s = {1}" by (rule first_run_state)
  with close_reported_once [OF r(1), of 1] show ?thesis by auto
qed

theorem messages_in_order_witness:
  "\<exists>s ts. (server_step Some)\<^sup>*\<^sup>* (new_ws_server sample_config, []) (s, ts) \<and> story 1 (trace s) = [Ev_open, Ev_message fragment]
     \<and> story_run (story 1 (trace s)) \<noteq> None"
proof -
  obtain s ts where r: "(server_step Some)\<^sup>*\<^sup>* (new_ws_server sample_config, []) (s, ts)"
    "trace s = [\<lparr>se_id = 1, se_kind = Ev_open\<rparr>, \<lparr>se_id = 1, se_kind = Ev_message fragment\<rparr>]" by (rule first_run_state)
  moreover from r(2) have "story 1 (trace s) = [Ev_open, Ev_message fragment]" by (simp add: story_def)
  ultimately show ?thesis using messages_in_order [OF r(1), of 1] by blast
qed

theorem stop_reports_no_close_witness:
  "\<exists>s ts s1 acts spawned. (server_step Some)\<^sup>*\<^sup>* (new_ws_server sample_config, []) (s, ts @ [[Stop_call]]) \<and> 1 \<in> sv_connections s
     \<and> server_exec Some good_io Stop_call s = Some (acts, spawned, s1) \<and> closes 1 (trace s1) = 0"
proof -
  obtain s ts where r: "(server_step Some)\<^sup>*\<^sup>* (new_ws_server sample_config, []) (s, ts)" and c: "sv_started s" "sv_connections s = {1}"
    and ts: "ts = take 3 ts @ [[Stop_call]]" by (rule first_run_state)
  from r ts have r': "(server_step Some)\<^sup>*\<^sup>* (new_ws_server sample_config, []) (s, take 3 ts @ (Stop_call # []) # [])" by simp
  obtain acts spawned s1 where e: "server_exec Some good_io Stop_call s = Some (acts, spawned, s1)"
    using c by (simp add: server_stop_def good_io_def)
  from stop_reports_no_close [OF r' c(1) _ e rtranclp.rtrancl_refl, of 1] c r' e show ?thesis by auto
qed

theorem closed_queue_stays_mute_witness:
  "\<exists>s ts s' ts'. (server_step Some)\<^sup>*\<^sup>* (new_ws_server sample_config, []) (s, ts) \<and> (server_step Some)\<^sup>*\<^sup>* (s, ts) (s', ts')
     \<and> sv_connections s' = {1} \<and> trace s' = []"
proof -
  have "if_run (pool_run (server_exec Some) is_call [Inl Stop_call, Inr (0, good_io)] (new_ws_server sample_config, []))
      (\<lambda>s ts. eq_closed (sv_events s) \<and> trace s = []
        \<and> if_run (pool_run (server_exec Some) is_call
             (Inl Start_call # replicate 3 (Inr (1, good_io)) @ replicate 7 (Inr (2, good_io))) (s, ts)) (\<lambda>s' ts'. sv_connections s' = {1}))"
    by code_simp
  then obtain s ts s' ts' where s: "(server_step Some)\<^sup>*\<^sup>* (new_ws_server sample_config, []) (s, ts)" "(server_step Some)\<^sup>*\<^sup>* (s, ts) (s', ts')"
      "eq_closed (sv_events s)" "trace s = []" "sv_connections s' = {1}"
    by (elim wsp.run_reaches conjE) blast
  with closed_queue_stays_mute [OF s(2,3)] show ?thesis by auto
qed

definition tls_config :: ws_server_config where
  "tls_config = sample_config\<lparr>sc_use_tls := True\<rparr>"

theorem tls_start_failure_hidden_witness:
  "\<exists>s'. server_start Some good_io (new_ws_server tls_config) = ([Server_throw ''websocket tls server requires cert and private key file''], s')
     \<and> sv_started s' \<and> sv_accept_thread s' = None \<and> server_start Some good_io s' = ([Server_return True], s')"
  using tls_start_failure_hidden [of "new_ws_server tls_config" Some good_io "''websocket tls server requires cert and private key file''" good_io]
  by (simp add: new_ws_server_def tls_config_def sample_config_def good_io_def parse_listen_endpoint_def create_server_tls_context_def)

definition one_event :: "nat event_queue \<Rightarrow> nat event_queue" where
  "one_event q = eq_push 7 q"

theorem pop_exact_witness:
  "eq_pop [id, one_event] new_queue = Some (Some 7, new_queue) \<and> eq_pop [id, one_event] new_queue \<noteq> None"
  using pop_exact [of "[id, one_event]" new_queue new_queue 7 2]
  by (simp add: eq_pop.simps new_queue_def one_event_def eq_push_def)

end
