(* ===== verification/Ws_Client.thy ===== *)
theory Ws_Client
  imports Ws
begin

text \<open>
  The WebSocket client (\<open>Client\<close> of \<open>layer2/src/ws.cpp\<close>). Every attempt to connect has its number, the generation, and makes at most one
  session, so sessions are numbered by their generations. Threads and actions are as for the server.
\<close>

section \<open>Connecting\<close>

text \<open>The outcomes of the library's calls on the way to a session.\<close>

record dial_io =
  d_resolve :: "string option"
  d_connect :: "string option"
  d_sni :: bool
  d_tls_handshake :: "string option"
  d_handshake :: "string option"
  d_tls :: tls_io
  d_net :: net_io

text \<open>The host and the path of the handshake.\<close>

definition handshake_target :: "ws_client_config \<Rightarrow> string \<times> string" where
  "handshake_target cfg = (if cc_host cfg = [] then cc_address cfg else cc_host cfg, ensure_path (cc_path cfg))"

definition make_client_plain_session :: "dial_io \<Rightarrow> ws_client_config \<Rightarrow> string + string \<times> string" where
  "make_client_plain_session io cfg =
     (case first_error [(''websocket resolve failed: '', d_resolve io), (''websocket connect failed: '', d_connect io),
            (''websocket handshake failed: '', d_handshake io)] of
        Some e \<Rightarrow> Inl e
      | None \<Rightarrow> Inr (handshake_target cfg))"

definition make_client_tls_session :: "dial_io \<Rightarrow> ws_client_config \<Rightarrow> string + string \<times> string" where
  "make_client_tls_session io cfg =
     (case first_error [(''websocket resolve failed: '', d_resolve io), ([], create_client_tls_context (d_tls io) cfg),
            (''websocket connect failed: '', d_connect io),
            (''failed to set websocket TLS SNI host'', if d_sni io then None else Some []),
            (''websocket TLS handshake failed: '', d_tls_handshake io), (''websocket handshake failed: '', d_handshake io)] of
        Some e \<Rightarrow> Inl e
      | None \<Rightarrow> Inr (handshake_target cfg))"

section \<open>The client\<close>

record ws_client =
  cl_config :: ws_client_config
  cl_sessions :: "nat \<Rightarrow> session"
  cl_session :: "nat option"
  cl_connected :: bool
  cl_generation :: nat
  cl_events :: "event_kind event_queue"
  cl_taken :: "event_kind list"

definition new_ws_client :: "ws_client_config \<Rightarrow> ws_client" where
  "new_ws_client cfg = \<lparr>cl_config = cfg, cl_sessions = (\<lambda>_. new_session), cl_session = None, cl_connected = False, cl_generation = 0,
     cl_events = new_queue, cl_taken = []\<rparr>"

text \<open>The actions of the client. The first three are its calls.\<close>

datatype client_act =
  Connect_call | Disconnect_call int string | Post_call ws_message
| On_client nat session_act
| Connect_dial nat | Connect_install nat | Client_open nat | Client_start nat
| Client_ended int string
| Client_return bool | Client_throw string

definition push_client :: "event_kind \<Rightarrow> ws_client \<Rightarrow> ws_client" where
  "push_client k c = c\<lparr>cl_events := eq_push k (cl_events c)\<rparr>"

text \<open>The close callback of the session of generation \<open>g\<close>.\<close>

definition session_ended :: "nat \<Rightarrow> int \<Rightarrow> string \<Rightarrow> ws_client \<Rightarrow> client_act list \<times> ws_client" where
  "session_ended g code reason c =
     (if cl_generation c \<noteq> g then ([], c)
      else ([Client_ended code reason], c\<lparr>cl_connected := False, cl_session := None\<rparr>))"

text \<open>\<open>connect\<close> in three parts: the check, the blocking dial, and the installation of the session.\<close>

definition ws_client_connect :: "ws_client \<Rightarrow> client_act list \<times> ws_client" where
  "ws_client_connect c =
     (if \<not> cc_runtime (cl_config c) then ([Client_throw ''websocket client requires runtime''], c)
      else if cl_connected c then ([Client_return True], c)
      else ([Connect_dial (cl_generation c + 1)], c\<lparr>cl_generation := cl_generation c + 1\<rparr>))"

definition client_dial :: "dial_io \<Rightarrow> nat \<Rightarrow> ws_client \<Rightarrow> client_act list" where
  "client_dial io g c =
     (if cc_port (cl_config c) \<le> 0 \<or> cc_port (cl_config c) > 65535 then [Client_throw ''invalid websocket client port'']
      else case (if cc_use_tls (cl_config c) then make_client_tls_session io (cl_config c) else make_client_plain_session io (cl_config c)) of
             Inl e \<Rightarrow> [Client_throw e]
           | Inr _ \<Rightarrow> [Connect_install g])"

definition client_install :: "nat \<Rightarrow> ws_client \<Rightarrow> client_act list \<times> ws_client" where
  "client_install g c =
     (if cl_generation c \<noteq> g
      then ([On_client g Transport_stop, Client_throw ''websocket client connect interrupted by a newer connect attempt''], c)
      else ([Client_open g], c\<lparr>cl_session := Some g, cl_connected := True\<rparr>))"

definition ws_client_close :: "int \<Rightarrow> string \<Rightarrow> ws_client \<Rightarrow> client_act list \<times> ws_client" where
  "ws_client_close code reason c =
     (if \<not> cc_runtime (cl_config c) then ([Client_throw ''websocket client requires runtime''], c)
      else if \<not> cl_connected c \<or> cl_session c = None then ([Client_return True], c)
      else ([On_client (the (cl_session c)) (Close_call code reason), On_client (the (cl_session c)) Transport_stop, Client_return True],
            c\<lparr>cl_connected := False, cl_session := None\<rparr>))"

definition client_send_stream :: "ws_message \<Rightarrow> ws_client \<Rightarrow> client_act list" where
  "client_send_stream m c =
     (if \<not> cc_runtime (cl_config c) then [Client_throw ''websocket client requires runtime'']
      else if \<not> cl_connected c \<or> cl_session c = None then [Client_return False]
      else [On_client (the (cl_session c)) (Send_check m)])"

definition client_send_text :: "string \<Rightarrow> client_act" where
  "client_send_text payload = Post_call \<lparr>wm_type = Msg_text, wm_payload = payload, wm_first = True, wm_final = True\<rparr>"

definition client_send_binary :: "string \<Rightarrow> client_act" where
  "client_send_binary payload = Post_call \<lparr>wm_type = Msg_binary, wm_payload = payload, wm_first = True, wm_final = True\<rparr>"

primrec client_exec :: "dial_io \<Rightarrow> client_act \<Rightarrow> ws_client \<Rightarrow> client_act list \<times> client_act list list \<times> ws_client" where
  "client_exec io Connect_call c = (case ws_client_connect c of (acts, c') \<Rightarrow> (acts, [], c'))"
| "client_exec io (Disconnect_call code reason) c = (case ws_client_close code reason c of (acts, c') \<Rightarrow> (acts, [], c'))"
| "client_exec io (Post_call m) c = (client_send_stream m c, [], c)"
| "client_exec io (On_client g a) c =
     (case session_exec a (d_net io) (cl_sessions c g) of
        (acts, ss) \<Rightarrow>
          (let c1 = c\<lparr>cl_sessions := (cl_sessions c)(g := ss)\<rparr>; follow = map (On_client g) acts
           in case a of
                On_message m \<Rightarrow> (follow, [], push_client (Ev_message m) c1)
              | On_close code reason \<Rightarrow> (case session_ended g code reason c1 of (acts', c2) \<Rightarrow> (acts' @ follow, [], c2))
              | _ \<Rightarrow> (follow, [], c1)))"
| "client_exec io (Connect_dial g) c = (client_dial io g c, [], c)"
| "client_exec io (Connect_install g) c = (case client_install g c of (acts, c') \<Rightarrow> (acts, [], c'))"
| "client_exec io (Client_open g) c = ([Client_start g, Client_return True], [], push_client Ev_open c)"
| "client_exec io (Client_start g) c = ([], [[On_client g Read_check]], c)"
| "client_exec io (Client_ended code reason) c = ([], [], push_client (Ev_close code reason) c)"
| "client_exec io (Client_return b) c = ([], [], c)"
| "client_exec io (Client_throw e) c = ([], [], c)"

definition is_client_call :: "client_act \<Rightarrow> bool" where
  "is_client_call a = (case a of Connect_call \<Rightarrow> True | Disconnect_call _ _ \<Rightarrow> True | Post_call _ \<Rightarrow> True | _ \<Rightarrow> False)"

type_synonym client_state = "ws_client \<times> client_act list list"

inductive client_step :: "client_state \<Rightarrow> client_state \<Rightarrow> bool" where
  act: "client_exec io a c = (acts, spawned, c') \<Longrightarrow>
          client_step (c, ts1 @ (a # rest) # ts2) (c', ts1 @ (acts @ rest) # ts2 @ spawned)"
| call: "is_client_call a \<Longrightarrow> client_step (c, ts) (c, ts @ [[a]])"
| take: "eq_queue (cl_events c) = e # es \<Longrightarrow>
          client_step (c, ts) (c\<lparr>cl_events := (cl_events c)\<lparr>eq_queue := es\<rparr>, cl_taken := cl_taken c @ [e]\<rparr>, ts)"

section \<open>What the client keeps\<close>

text \<open>Generations of attempts under way are not in the future, and no event queue is ever closed.\<close>

definition client_inv :: "client_state \<Rightarrow> bool" where
  "client_inv x \<longleftrightarrow> (cl_connected (fst x) \<longleftrightarrow> cl_session (fst x) \<noteq> None)
     \<and> (\<forall>g. cl_session (fst x) = Some g \<longrightarrow> g = cl_generation (fst x))
     \<and> \<not> eq_closed (cl_events (fst x))"

lemma push_client_simps [simp]:
  "cl_connected (push_client k c) = cl_connected c" "cl_session (push_client k c) = cl_session c"
  "cl_generation (push_client k c) = cl_generation c" "eq_closed (cl_events (push_client k c)) = eq_closed (cl_events c)"
  by (simp_all add: push_client_def eq_push_def)

lemma client_exec_keeps:
  assumes "client_exec io a c = (acts, spawned, c')" "client_inv (c, ts)"
  shows "client_inv (c', ts')"
proof (cases a)
  case (On_client g b)
  obtain sacts ss where e: "session_exec b (d_net io) (cl_sessions c g) = (sacts, ss)" by fastforce
  note x = assms(1) [unfolded On_client client_exec.simps e prod.case Let_def session_ended_def]
  show ?thesis using x assms(2) by (cases b) (auto simp: client_inv_def split: if_splits)
qed (use assms in \<open>auto simp: client_inv_def ws_client_connect_def ws_client_close_def client_install_def split: if_splits\<close>)

lemma client_inv_step: "client_step x y \<Longrightarrow> client_inv x \<Longrightarrow> client_inv y"
proof (induction rule: client_step.induct)
  case (act io a c acts spawned c' ts1 rest ts2)
  then show ?case by (rule client_exec_keeps)
qed (simp_all add: client_inv_def)

interpretation wsc: invariant_system "\<lambda>x. \<exists>cfg. x = (new_ws_client cfg, [])" client_step client_inv
proof
  show "\<exists>cfg. x = (new_ws_client cfg, []) \<Longrightarrow> client_inv x" for x by (auto simp: client_inv_def new_ws_client_def new_queue_def)
qed (rule client_inv_step)

interpretation wscp: thread_pool "\<lambda>io a c. Some (client_exec io a c)" is_client_call client_step
  by unfold_locales (auto intro: client_step.intros)

text \<open>
  The client's session is always the current one: in every run, the client is connected exactly if it has a session, and the session
  is that of the latest attempt to connect, so an older attempt that finishes late never replaces it and the end of an older
  session never disconnects a newer one. The event queue is never closed, so \<open>next\<close> on a
  closed client waits for ever.\<close>

theorem client_session_current:
  assumes "client_step\<^sup>*\<^sup>* (new_ws_client cfg, []) (c, ts)"
  shows "(cl_connected c \<longleftrightarrow> cl_session c \<noteq> None) \<and> (\<forall>g. cl_session c = Some g \<longrightarrow> g = cl_generation c) \<and> \<not> eq_closed (cl_events c)
    \<and> (eq_queue (cl_events c) = [] \<longrightarrow> eq_pop [] (cl_events c) = None)"
proof -
  have "client_inv (c, ts)" using wsc.reachable_inv [OF _ assms] by blast
  then show ?thesis by (auto simp: client_inv_def pop_cases)
qed

section \<open>Examples\<close>

definition sample_client :: ws_client_config where
  "sample_client = \<lparr>cc_runtime = True, cc_address = ''127.0.0.1'', cc_port = 9000, cc_path = ''chat'', cc_host = [], cc_use_tls = False,
     cc_tls_ca_file = [], cc_tls_allow_insecure = False\<rparr>"

definition good_dial :: dial_io where
  "good_dial = \<lparr>d_resolve = None, d_connect = None, d_sni = True, d_tls_handshake = None, d_handshake = None, d_tls = good_tls,
     d_net = Net_ok Msg_text ''hi'' False\<rparr>"

text \<open>The client connects, its reader has a fragment in hand; the client closes and connects again, and only then the reader goes on.\<close>

definition reconnect_run :: "(client_act + nat \<times> dial_io) list" where
  "reconnect_run = Inl Connect_call # replicate 5 (Inr (0, good_dial)) @ replicate 2 (Inr (1, good_dial))
     @ Inl (Disconnect_call 1000 ''bye'') # replicate 5 (Inr (2, good_dial))
     @ Inl Connect_call # replicate 5 (Inr (3, good_dial)) @ [Inr (1, good_dial)]"

definition client_trace :: "ws_client \<Rightarrow> event_kind list" where
  "client_trace c = cl_taken c @ eq_queue (cl_events c)"

lemma reconnect_run_reaches:
  "(case pool_run (\<lambda>io a c. Some (client_exec io a c)) is_client_call reconnect_run (new_ws_client sample_client, []) of
      None \<Rightarrow> False
    | Some y \<Rightarrow> client_trace (fst y) = [Ev_open, Ev_close 1000 ''bye'', Ev_open, Ev_message fragment] \<and> cl_session (fst y) = Some 2
        \<and> cl_sessions (fst y) 2 = new_session)"
  by code_simp

text \<open>
  Messages of a closed session can be reported in a new one: there is a run in which the client was closed and connected again, and after the
  open event of the new session comes a message that was read by the old one, though the new session
  has not read anything yet; the events do not say which session they come from.\<close>

theorem stale_message_after_reconnect:
  "\<exists>c ts. client_step\<^sup>*\<^sup>* (new_ws_client sample_client, []) (c, ts)
     \<and> client_trace c = [Ev_open, Ev_close 1000 ''bye'', Ev_open, Ev_message fragment] \<and> cl_session c = Some 2 \<and> cl_sessions c 2 = new_session"
proof -
  obtain y where "pool_run (\<lambda>io a c. Some (client_exec io a c)) is_client_call reconnect_run (new_ws_client sample_client, []) = Some y"
    and y: "client_trace (fst y) = [Ev_open, Ev_close 1000 ''bye'', Ev_open, Ev_message fragment] \<and> cl_session (fst y) = Some 2
      \<and> cl_sessions (fst y) 2 = new_session"
    using reconnect_run_reaches by (auto split: option.splits)
  from wscp.run_steps [OF this(1)] y show ?thesis by (cases y) auto
qed

theorem client_session_current_witness:
  "\<exists>c ts. client_step\<^sup>*\<^sup>* (new_ws_client sample_client, []) (c, ts) \<and> cl_connected c \<and> cl_session c = Some (cl_generation c)"
proof -
  obtain y where "pool_run (\<lambda>io a c. Some (client_exec io a c)) is_client_call reconnect_run (new_ws_client sample_client, []) = Some y"
    and y: "cl_session (fst y) = Some 2" using reconnect_run_reaches by (auto split: option.splits)
  from wscp.run_steps [OF this(1)] have r: "client_step\<^sup>*\<^sup>* (new_ws_client sample_client, []) (fst y, snd y)" by simp
  from client_session_current [OF r] y have "cl_connected (fst y)" "cl_session (fst y) = Some (cl_generation (fst y))" by auto
  with r show ?thesis by blast
qed

end
