(* ===== verification/Mailbox.thy ===== *)
theory Mailbox
  imports Prelude
begin

text \<open>
  \<open>flux::Mailbox\<close> (\<open>include/flux/message.h\<close>), a bounded queue whose \<open>closed\<close> flag is an
  atomic that \<open>close\<close> writes without taking the mutex, and \<open>flux::Stream\<close>
  (\<open>include/flux/stream.h\<close>), a pull interface that allows one \<open>next()\<close> at a time.
  The operations are functions on the shared state; the interleavings of senders, receivers
  and \<open>close\<close> are step relations in which the window between a sender's checks and its
  \<open>push_back\<close> under the mutex is visible, because \<open>close\<close> can fall into it.
\<close>

section \<open>Operations of the mailbox\<close>

record 'a mailbox =
  mb_queue :: "'a list"
  mb_capacity :: nat
  mb_closed :: bool

definition mailbox_create :: "nat \<Rightarrow> 'a mailbox" where
  "mailbox_create capacity =
     \<lparr>mb_queue = [], mb_capacity = (if capacity = 0 then 1 else capacity), mb_closed = False\<rparr>"

text \<open>The test that \<open>try_send\<close> and \<open>send_for\<close> make under the mutex.\<close>

definition can_push :: "'a mailbox \<Rightarrow> bool" where
  "can_push m \<longleftrightarrow> \<not> mb_closed m \<and> length (mb_queue m) < mb_capacity m"

definition push_back :: "'a \<Rightarrow> 'a mailbox \<Rightarrow> 'a mailbox" where
  "push_back v m = m\<lparr>mb_queue := mb_queue m @ [v]\<rparr>"

text \<open>A handle is empty (\<open>state_ == nullptr\<close>) when it was default constructed.\<close>

definition try_send :: "'a \<Rightarrow> 'a mailbox option \<Rightarrow> bool \<times> 'a mailbox option" where
  "try_send v h =
     (case h of
        None \<Rightarrow> (False, None)
      | Some m \<Rightarrow>
          if mb_closed m then (False, h)
          else if length (mb_queue m) \<ge> mb_capacity m then (False, h)
          else (True, Some (push_back v m)))"

text \<open>
  The polling loop of \<open>send_for\<close>: \<open>clock k\<close> is the time read before the \<open>k\<close>-th poll and
  \<open>env k\<close> what other tasks do to the mailbox during the sleep after it. \<open>None\<close> is a loop
  that has not returned after the given number of polls.
\<close>

fun send_for_loop ::
  "(nat \<Rightarrow> int) \<Rightarrow> (nat \<Rightarrow> 'a mailbox \<Rightarrow> 'a mailbox) \<Rightarrow> int \<Rightarrow> 'a \<Rightarrow> nat \<Rightarrow> nat \<Rightarrow> 'a mailbox
     \<Rightarrow> (bool \<times> 'a mailbox) option" where
  "send_for_loop clock env deadline v 0 k m = None"
| "send_for_loop clock env deadline v (Suc polls) k m =
     (if clock k < deadline then
        (if can_push m then Some (True, push_back v m)
         else send_for_loop clock env deadline v polls (Suc k) (env k m))
      else Some (False, m))"

definition send_for ::
  "(nat \<Rightarrow> int) \<Rightarrow> (nat \<Rightarrow> 'a mailbox \<Rightarrow> 'a mailbox) \<Rightarrow> int \<Rightarrow> 'a \<Rightarrow> nat \<Rightarrow> 'a mailbox option
     \<Rightarrow> (bool \<times> 'a mailbox option) option" where
  "send_for clock env deadline v polls h =
     (case h of
        None \<Rightarrow> Some (False, None)
      | Some m \<Rightarrow>
          if mb_closed m then Some (False, h)
          else map_option (\<lambda>(b, m'). (b, Some m')) (send_for_loop clock env deadline v polls 0 m))"

text \<open>One critical section of \<open>recv\<close>: a value, the end, or nothing yet (sleep and retry).\<close>

datatype 'a recv_result = Received 'a | End_of_queue | Retry

definition recv_poll :: "'a mailbox \<Rightarrow> 'a recv_result \<times> 'a mailbox" where
  "recv_poll m =
     (case mb_queue m of
        v # vs \<Rightarrow> (Received v, m\<lparr>mb_queue := vs\<rparr>)
      | [] \<Rightarrow> if mb_closed m then (End_of_queue, m) else (Retry, m))"

fun recv ::
  "(nat \<Rightarrow> 'a mailbox \<Rightarrow> 'a mailbox) \<Rightarrow> nat \<Rightarrow> nat \<Rightarrow> 'a mailbox \<Rightarrow> ('a option \<times> 'a mailbox) option" where
  "recv env 0 k m = None"
| "recv env (Suc polls) k m =
     (case recv_poll m of
        (Received v, m') \<Rightarrow> Some (Some v, m')
      | (End_of_queue, m') \<Rightarrow> Some (None, m')
      | (Retry, m') \<Rightarrow> recv env polls (Suc k) (env k m'))"

definition mailbox_close :: "'a mailbox \<Rightarrow> 'a mailbox" where
  "mailbox_close m = m\<lparr>mb_closed := True\<rparr>"

section \<open>Senders, receivers and close interleaved\<close>

text \<open>
  \<open>mbs_sending\<close> is the value of the sender that holds the mutex between its checks and its
  \<open>push_back\<close>. The last three fields are the history: what senders were told is accepted,
  what receivers were given, and whether a receiver was told that the queue ended.
\<close>

record 'a mailbox_sys =
  mbs_box :: "'a mailbox"
  mbs_sending :: "'a option"
  mbs_accepted :: "'a list"
  mbs_received :: "'a list"
  mbs_ended :: bool

definition mailbox_start :: "nat \<Rightarrow> 'a mailbox_sys" where
  "mailbox_start n = \<lparr>mbs_box = mailbox_create n, mbs_sending = None, mbs_accepted = [],
     mbs_received = [], mbs_ended = False\<rparr>"

inductive mailbox_step :: "'a mailbox_sys \<Rightarrow> 'a mailbox_sys \<Rightarrow> bool" where
  mailbox_send_check:
    "mbs_sending s = None \<Longrightarrow> can_push (mbs_box s) \<Longrightarrow> mailbox_step s (s\<lparr>mbs_sending := Some v\<rparr>)"
| mailbox_send_push:
    "mbs_sending s = Some v \<Longrightarrow>
     mailbox_step s (s\<lparr>mbs_box := push_back v (mbs_box s), mbs_sending := None,
                       mbs_accepted := mbs_accepted s @ [v]\<rparr>)"
| mailbox_recv_value:
    "mbs_sending s = None \<Longrightarrow> recv_poll (mbs_box s) = (Received v, m) \<Longrightarrow>
     mailbox_step s (s\<lparr>mbs_box := m, mbs_received := mbs_received s @ [v]\<rparr>)"
| mailbox_recv_end:
    "mbs_sending s = None \<Longrightarrow> recv_poll (mbs_box s) = (End_of_queue, m) \<Longrightarrow>
     mailbox_step s (s\<lparr>mbs_box := m, mbs_ended := True\<rparr>)"
| mailbox_do_close: "mailbox_step s (s\<lparr>mbs_box := mailbox_close (mbs_box s)\<rparr>)"

definition mailbox_inv :: "'a mailbox_sys \<Rightarrow> bool" where
  "mailbox_inv s \<longleftrightarrow>
     mbs_received s @ mb_queue (mbs_box s) = mbs_accepted s
     \<and> length (mb_queue (mbs_box s)) + (if mbs_sending s = None then 0 else 1)
         \<le> mb_capacity (mbs_box s)
     \<and> (mbs_ended s \<longrightarrow>
          mb_closed (mbs_box s) \<and> mb_queue (mbs_box s) = [] \<and> mbs_sending s = None)"

section \<open>The stream\<close>

record stream_state =
  st_in_flight :: bool
  st_ended :: bool

definition new_stream :: stream_state where
  "new_stream = \<lparr>st_in_flight = False, st_ended = False\<rparr>"

datatype next_begin = NextEnded | NextInProgress | NextCall

text \<open>\<open>next()\<close> up to the call of \<open>next_fn\<close>; an empty handle or function ends at once.\<close>

definition stream_next_begin :: "stream_state option \<Rightarrow> next_begin \<times> stream_state option" where
  "stream_next_begin h =
     (case h of
        None \<Rightarrow> (NextEnded, None)
      | Some s \<Rightarrow>
          if st_ended s then (NextEnded, h)
          else if st_in_flight s then (NextInProgress, h)
          else (NextCall, Some (s\<lparr>st_in_flight := True\<rparr>)))"

text \<open>\<open>next()\<close> after \<open>next_fn\<close> returned a value or nothing, or threw.\<close>

definition stream_next_return :: "'a option \<Rightarrow> stream_state \<Rightarrow> stream_state" where
  "stream_next_return v s = s\<lparr>st_in_flight := False, st_ended := st_ended s \<or> v = None\<rparr>"

definition stream_next_throw :: "stream_state \<Rightarrow> stream_state" where
  "stream_next_throw s = s\<lparr>st_in_flight := False\<rparr>"

text \<open>Concurrent callers: how many are inside \<open>next_fn\<close>, and the values it returned so far.\<close>

record 'a stream_sys =
  ss_state :: stream_state
  ss_active :: nat
  ss_returned :: "'a option list"

inductive stream_step :: "'a stream_sys \<Rightarrow> 'a stream_sys \<Rightarrow> bool" where
  stream_begin:
    "stream_next_begin (Some (ss_state s)) = (r, Some st) \<Longrightarrow>
     stream_step s (s\<lparr>ss_state := st, ss_active := ss_active s + (if r = NextCall then 1 else 0)\<rparr>)"
| stream_return:
    "0 < ss_active s \<Longrightarrow>
     stream_step s (s\<lparr>ss_state := stream_next_return v (ss_state s), ss_active := ss_active s - 1,
                      ss_returned := ss_returned s @ [v]\<rparr>)"
| stream_throw:
    "0 < ss_active s \<Longrightarrow>
     stream_step s (s\<lparr>ss_state := stream_next_throw (ss_state s), ss_active := ss_active s - 1\<rparr>)"

definition stream_start :: "'a stream_sys" where
  "stream_start = \<lparr>ss_state = new_stream, ss_active = 0, ss_returned = []\<rparr>"

definition stream_inv :: "'a stream_sys \<Rightarrow> bool" where
  "stream_inv s \<longleftrightarrow>
     ss_active s = (if st_in_flight (ss_state s) then 1 else 0)
     \<and> (st_ended (ss_state s) \<longrightarrow> ss_active s = 0)
     \<and> (if st_ended (ss_state s)
        then ss_returned s \<noteq> [] \<and> last (ss_returned s) = None \<and> None \<notin> set (butlast (ss_returned s))
        else None \<notin> set (ss_returned s))"

section \<open>Invariants\<close>

lemma mailbox_start_inv: "mailbox_inv (mailbox_start n)"
  by (simp add: mailbox_inv_def mailbox_start_def mailbox_create_def)

lemma recv_poll_cases:
  "recv_poll m = (Received v, m') \<longleftrightarrow> (\<exists>vs. mb_queue m = v # vs \<and> m' = m\<lparr>mb_queue := vs\<rparr>)"
  "recv_poll m = (End_of_queue, m') \<longleftrightarrow> mb_queue m = [] \<and> mb_closed m \<and> m' = m"
  "recv_poll m = (Retry, m') \<longleftrightarrow> mb_queue m = [] \<and> \<not> mb_closed m \<and> m' = m"
  by (auto simp: recv_poll_def split: list.splits if_splits)

lemma mailbox_step_inv: "mailbox_step s t \<Longrightarrow> mailbox_inv s \<Longrightarrow> mailbox_inv t"
  by (induction rule: mailbox_step.induct)
     (auto simp: mailbox_inv_def can_push_def push_back_def recv_poll_cases mailbox_close_def)

interpretation mailbox: invariant_system "\<lambda>s. \<exists>n. s = mailbox_start n" mailbox_step mailbox_inv
  by unfold_locales (auto simp: mailbox_start_inv intro: mailbox_step_inv)

lemma stream_start_inv: "stream_inv stream_start"
  by (simp add: stream_inv_def stream_start_def new_stream_def)

lemma stream_step_inv: "stream_step s t \<Longrightarrow> stream_inv s \<Longrightarrow> stream_inv t"
  by (induction rule: stream_step.induct)
     (auto simp: stream_inv_def stream_next_begin_def stream_next_return_def stream_next_throw_def
       split: if_splits)

interpretation stream: invariant_system "\<lambda>s. s = stream_start" stream_step stream_inv
  by unfold_locales (auto simp: stream_start_inv intro: stream_step_inv)

section \<open>Properties\<close>

text \<open>
  C18: the mailbox is a bounded FIFO channel under every interleaving of senders, receivers and
  \<open>close\<close>. What receivers got, followed by what is still queued, is exactly what senders
  were told was accepted, in order; the queue never exceeds its capacity; and once a
  receiver has been told that the queue ended, every accepted message had been received.
\<close>

theorem mailbox_fifo:
  assumes "mailbox_step\<^sup>*\<^sup>* (mailbox_start n) s"
  shows "mbs_received s @ mb_queue (mbs_box s) = mbs_accepted s
         \<and> length (mb_queue (mbs_box s)) \<le> mb_capacity (mbs_box s)
         \<and> (mbs_ended s \<longrightarrow> mbs_received s = mbs_accepted s)"
proof -
  have "mailbox_inv s" using mailbox.reachable_inv assms by blast
  then show ?thesis by (auto simp: mailbox_inv_def split: if_splits)
qed

theorem mailbox_fifo_witness:
  "\<exists>s :: nat mailbox_sys. mailbox_step\<^sup>*\<^sup>* (mailbox_start 1) s
     \<and> mbs_received s @ mb_queue (mbs_box s) = [5] \<and> mbs_accepted s = [5]"
proof -
  let ?s0 = "mailbox_start 1 :: nat mailbox_sys"
  let ?s1 = "?s0\<lparr>mbs_sending := Some 5\<rparr>"
  let ?s2 = "?s1\<lparr>mbs_box := mailbox_close (mbs_box ?s1)\<rparr>"
  let ?s3 = "?s2\<lparr>mbs_box := push_back 5 (mbs_box ?s2), mbs_sending := None,
                mbs_accepted := mbs_accepted ?s2 @ [5]\<rparr>"
  have "mailbox_step ?s0 ?s1"
    by (rule mailbox_send_check) (simp_all add: mailbox_start_def mailbox_create_def can_push_def)
  moreover have "mailbox_step ?s1 ?s2" by (rule mailbox_do_close)
  moreover have "mailbox_step ?s2 ?s3" by (rule mailbox_send_push) simp
  ultimately have r: "mailbox_step\<^sup>*\<^sup>* ?s0 ?s3" by (rule rtranclp_steps3)
  moreover have "mbs_accepted ?s3 = [5]" by (simp add: mailbox_start_def)
  ultimately show ?thesis using mailbox_fifo [OF r] by metis
qed

lemma send_for_loop_returns:
  assumes "deadline \<le> clock (k + j)"
  shows "\<exists>b m'. send_for_loop clock env deadline v (Suc j) k m = Some (b, m')
           \<and> (b \<longrightarrow> (\<exists>m''. can_push m'' \<and> m' = push_back v m''))"
  using assms
proof (induction j arbitrary: k m)
  case 0
  then show ?case by auto
next
  case (Suc j)
  show ?case
  proof (cases "clock k < deadline \<and> \<not> can_push m")
    case True
    with Suc.IH [of "Suc k" "env k m"] Suc.prems show ?thesis by simp
  next
    case False
    then show ?thesis by auto
  qed
qed

text \<open>
  \<open>send_for\<close> returns. If the clock has reached the deadline by the \<open>n\<close>-th poll then the
  call ends after at most \<open>n + 1\<close> polls, whatever other tasks do to the mailbox in between.
  Success means that the value was appended to a mailbox that was open and had room; a
  mailbox that is closed at the start is refused untouched; and a mailbox that is open with
  room before the deadline takes the value at once.
\<close>

theorem send_for_returns:
  assumes "deadline \<le> clock n"
  shows "\<exists>b m'. send_for clock env deadline v (Suc n) (Some m) = Some (b, Some m')
           \<and> (b \<longrightarrow> (\<exists>m''. can_push m'' \<and> m' = push_back v m''))
           \<and> (mb_closed m \<longrightarrow> \<not> b \<and> m' = m)
           \<and> (clock 0 < deadline \<and> can_push m \<longrightarrow> b \<and> m' = push_back v m)"
proof (cases "mb_closed m")
  case True
  then show ?thesis
    by (intro exI [of _ False] exI [of _ m]) (simp add: send_for_def can_push_def)
next
  case False
  from send_for_loop_returns [of deadline clock 0 n env v m] assms obtain b m' where
    r: "send_for_loop clock env deadline v (Suc n) 0 m = Some (b, m')"
    "b \<longrightarrow> (\<exists>m''. can_push m'' \<and> m' = push_back v m'')" by auto
  moreover from r(1) have "b \<and> m' = push_back v m" if "clock 0 < deadline" "can_push m"
    using that by simp
  ultimately show ?thesis
    using False by (auto simp: send_for_def simp del: send_for_loop.simps)
qed

theorem send_for_returns_witness:
  "\<exists>b m'. send_for (\<lambda>k. int k) (\<lambda>k m. m) 2 (7 :: nat) (Suc 2)
            (Some (mailbox_create 1 \<lparr>mb_queue := [1]\<rparr>)) = Some (b, Some m')"
  using send_for_returns [of 2 "\<lambda>k. int k" 2] by fastforce

text \<open>
  a stream never runs two \<open>next_fn\<close> calls at once, however many tasks call \<open>next()\<close>, and
  it ends for good: at most one call has returned the end marker, it is the last one that
  returned, and none is running after it.
\<close>

theorem stream_exclusive:
  assumes "stream_step\<^sup>*\<^sup>* stream_start s"
  shows "ss_active s \<le> 1
         \<and> (None \<in> set (ss_returned s) \<longrightarrow>
              ss_active s = 0 \<and> last (ss_returned s) = None \<and> None \<notin> set (butlast (ss_returned s))
              \<and> fst (stream_next_begin (Some (ss_state s))) = NextEnded)"
proof -
  have "stream_inv s" using stream.reachable_inv assms by blast
  then show ?thesis by (auto simp: stream_inv_def stream_next_begin_def split: if_splits)
qed

theorem stream_exclusive_witness:
  "\<exists>s :: nat stream_sys. stream_step\<^sup>*\<^sup>* stream_start s \<and> None \<in> set (ss_returned s)
     \<and> fst (stream_next_begin (Some (ss_state s))) = NextEnded"
proof -
  let ?s0 = "stream_start :: nat stream_sys"
  let ?s1 = "?s0\<lparr>ss_state := new_stream\<lparr>st_in_flight := True\<rparr>, ss_active := ss_active ?s0 + 1\<rparr>"
  let ?s2 = "?s1\<lparr>ss_state := stream_next_return (None :: nat option) (ss_state ?s1),
                ss_active := ss_active ?s1 - 1, ss_returned := ss_returned ?s1 @ [None]\<rparr>"
  have "stream_step ?s0 ?s1"
    using stream_begin [of ?s0 NextCall "new_stream\<lparr>st_in_flight := True\<rparr>"]
    by (simp add: stream_next_begin_def stream_start_def new_stream_def)
  moreover have "stream_step ?s1 ?s2" by (rule stream_return) simp
  ultimately have r: "stream_step\<^sup>*\<^sup>* ?s0 ?s2"
    by (meson converse_rtranclp_into_rtranclp rtranclp.rtrancl_refl)
  moreover have "None \<in> set (ss_returned ?s2)" by simp
  ultimately show ?thesis using stream_exclusive [OF r] by blast
qed

end
