(* ===== verification/Body_File.thy ===== *)
theory Body_File
  imports Http_Types
begin

text \<open>
  The temporary file of a large message body (\<open>HttpMessage::BodyFileState\<close>,
  \<open>move_body_file_to\<close>, \<open>dispose_body_file\<close> in \<open>layer2/src/parser.cpp\<close>): a reference-counted
  guard that removes the file when the last owner goes away, unless the file was moved or
  disposed of. The file system is a map from paths to contents; \<open>create_directories\<close> may fail.
\<close>

record body_file_state =
  bf_path :: string
  bf_cleanup :: bool

record body_file =
  bfm_path :: "string option"
  bfm_state :: "body_file_state option"

definition attach_file :: "string \<Rightarrow> body_file" where
  "attach_file path = \<lparr>bfm_path = Some path, bfm_state = Some \<lparr>bf_path = path, bf_cleanup = True\<rparr>\<rparr>"

definition has_parent_path :: "string \<Rightarrow> bool" where
  "has_parent_path p \<longleftrightarrow> CHR ''/'' \<in> set p"

definition move_body_file_to ::
  "(string \<Rightarrow> bool) \<Rightarrow> string \<Rightarrow> bool \<Rightarrow> body_file \<times> (string \<rightharpoonup> string)
     \<Rightarrow> bool \<times> body_file \<times> (string \<rightharpoonup> string)" where
  "move_body_file_to mkdir_ok target overwrite = (\<lambda>(b, files).
     if bfm_state b = None then (False, b, files)
     else if has_parent_path target \<and> \<not> mkdir_ok target then (False, b, files)
     else if target \<in> dom files \<and> \<not> overwrite then (False, b, files)
     else
       let files1 = files(target := None)
       in case bfm_path b of
            None \<Rightarrow> (False, b, files1)
          | Some p \<Rightarrow>
              (case files1 p of
                 None \<Rightarrow> (False, b, files1)
               | Some content \<Rightarrow>
                   (True, \<lparr>bfm_path = Some target,
                           bfm_state = Some \<lparr>bf_path = target, bf_cleanup = False\<rparr>\<rparr>,
                    files1(p := None, target \<mapsto> content))))"

definition dispose_body_file ::
  "body_file \<times> (string \<rightharpoonup> string) \<Rightarrow> bool \<times> body_file \<times> (string \<rightharpoonup> string)" where
  "dispose_body_file = (\<lambda>(b, files).
     case bfm_path b of
       None \<Rightarrow> (False, b, files)
     | Some p \<Rightarrow>
         if bfm_state b = None then (False, b, files)
         else (True, \<lparr>bfm_path = None, bfm_state = None\<rparr>, files(p := None)))"

text \<open>The destructor of the last owner.\<close>

definition drop_body_file :: "body_file \<times> (string \<rightharpoonup> string) \<Rightarrow> (string \<rightharpoonup> string)" where
  "drop_body_file = (\<lambda>(b, files).
     case bfm_state b of
       None \<Rightarrow> files
     | Some s \<Rightarrow> if bf_cleanup s then files(bf_path s := None) else files)"

section \<open>Properties\<close>

text \<open>
  A body file has one fate. Left alone or disposed of, it is gone once the message is; moved,
  its content is at the target, the temporary file is gone and dropping the message keeps the
  moved file; a move that would overwrite without permission changes nothing. No other path is
  touched in any case.\<close>

theorem body_file_fate:
  assumes "files p = Some content" and "target \<noteq> p" and "mkdir_ok target \<or> \<not> has_parent_path target"
  shows "drop_body_file (attach_file p, files) = files(p := None)
    \<and> dispose_body_file (attach_file p, files) = (True, \<lparr>bfm_path = None, bfm_state = None\<rparr>, files(p := None))
    \<and> (case move_body_file_to mkdir_ok target overwrite (attach_file p, files) of
         (ok, b, files') \<Rightarrow>
           if overwrite \<or> target \<notin> dom files
           then ok \<and> drop_body_file (b, files') = files(p := None, target \<mapsto> content)
           else \<not> ok \<and> b = attach_file p \<and> files' = files)"
  using assms
  by (auto simp: drop_body_file_def attach_file_def dispose_body_file_def move_body_file_to_def Let_def)

text \<open>
  Moving a body file onto its own path with \<open>overwrite\<close> reports failure and loses the body:
  the target is removed before the rename.\<close>

theorem move_onto_itself_loses_body:
  assumes "files p = Some content" and "mkdir_ok p \<or> \<not> has_parent_path p"
  shows "move_body_file_to mkdir_ok p True (attach_file p, files) = (False, attach_file p, files(p := None))"
  using assms by (auto simp: move_body_file_to_def attach_file_def Let_def)

section \<open>Witnesses\<close>

theorem body_file_fate_witness:
  "drop_body_file (attach_file ''t'', [''t'' \<mapsto> ''x'']) = Map.empty
   \<and> (case move_body_file_to (\<lambda>_. True) ''u'' False (attach_file ''t'', [''t'' \<mapsto> ''x'']) of
        (ok, b, files') \<Rightarrow> ok \<and> drop_body_file (b, files') = [''u'' \<mapsto> ''x''])"
  using body_file_fate [of "[''t'' \<mapsto> ''x'']" "''t''" "''x''" "''u''" "\<lambda>_. True" False] by simp

theorem move_onto_itself_loses_body_witness:
  "move_body_file_to (\<lambda>_. True) ''t'' True (attach_file ''t'', [''t'' \<mapsto> ''x''])
     = (False, attach_file ''t'', [''t'' \<mapsto> ''x''](''t'' := None))"
  by (rule move_onto_itself_loses_body) simp_all

end
