(* ===== verification/Di.thy ===== *)
theory Di
  imports Prelude
begin

text \<open>
  The dependency injection container (\<open>layer3/include/async_uv_layer3/di.hpp\<close>). The C++ types of a program are a parameter: \<open>env\<close> says
  of every type whether it can be default constructed, whether it is an injectable aggregate, and what its members are, as
  the templates see them through reflection. A factory of the program is the list of the services it resolves from the container
  before it returns an object, returns null or throws. Instances are numbered in the order of their construction.
\<close>

section \<open>Types, bindings and the container\<close>

type_synonym ty = nat
type_synonym service = "string \<times> ty"

text \<open>A member: constant ones are skipped; \<open>Mem_class\<close> says whether the class is copy-assignable; \<open>Mem_plain\<close> is a
  member of no class type.\<close>

datatype member = Mem_const | Mem_shared ty | Mem_pointer ty | Mem_class ty bool | Mem_plain

record type_desc =
  td_default_constructible :: bool
  td_aggregate :: bool
  td_members :: "member list"

type_synonym type_env = "ty \<Rightarrow> type_desc"

datatype di_lifetime = Singleton | Transient

datatype user_dep = Dep_shared service | Dep_ref service

datatype user_result = User_makes | User_null | User_throws string

datatype factory = Fac_cached | Fac_auto ty | Fac_user "user_dep list" user_result

record binding =
  bd_lifetime :: di_lifetime
  bd_factory :: factory
  bd_cached :: "nat option"

text \<open>What a member of an instance holds: nothing yet, another instance, or a copy of one.\<close>

datatype slot = Slot_unset | Slot_ref nat | Slot_copy nat

record di_container =
  dc_bindings :: "service \<rightharpoonup> binding"
  dc_resolving :: "service set"
  dc_objects :: "slot list list"

datatype di_error =
  Di_cyclic service | Di_null service | Di_transient_ref service | Di_not_constructible ty | Di_not_assignable ty
  | Di_null_instance ty | Di_internal | Di_user string

text \<open>The texts of the errors; \<open>type_name\<close> is the implementation's \<open>typeid(T).name()\<close>. An exception of a factory passes through.\<close>

definition key_name :: "string \<Rightarrow> string" where
  "key_name key = (if key = [] then ''<default>'' else key)"

primrec di_what :: "(ty \<Rightarrow> string) \<Rightarrow> di_error \<Rightarrow> string" where
  "di_what type_name (Di_cyclic s) = ''DI cyclic dependency detected for type '' @ type_name (snd s) @ '' key='' @ key_name (fst s)"
| "di_what type_name (Di_null s) = ''DI factory returned null for type '' @ type_name (snd s)"
| "di_what type_name (Di_transient_ref s) =
     ''resolve<T>() cannot return reference for transient binding: '' @ type_name (snd s) @ '' key='' @ key_name (fst s) @ ''. Use resolve_shared<T>() instead.''"
| "di_what type_name (Di_not_constructible t) = ''DI type is not registered and not default constructible: '' @ type_name t"
| "di_what type_name (Di_not_assignable t) =
     ''DI cannot assign field type, please use std::shared_ptr<T> or make it copy-assignable: '' @ type_name t"
| "di_what type_name (Di_null_instance t) = ''DI singleton instance is null for type '' @ type_name t"
| "di_what type_name Di_internal = ''DI internal error: singleton factory should not be called when cached instance exists''"
| "di_what type_name (Di_user msg) = msg"

definition new_container :: di_container where
  "new_container = \<lparr>dc_bindings = Map.empty, dc_resolving = {}, dc_objects = []\<rparr>"

definition bind_service :: "service \<Rightarrow> binding \<Rightarrow> di_container \<Rightarrow> di_container" where
  "bind_service s b c = c\<lparr>dc_bindings := (dc_bindings c)(s \<mapsto> b)\<rparr>"

text \<open>Registration: a ready instance (which may be a null pointer), a factory for a singleton, a factory for a transient.\<close>

definition singleton_impl :: "service \<Rightarrow> nat option \<Rightarrow> di_container \<Rightarrow> (di_error + unit) \<times> di_container" where
  "singleton_impl s instance' c =
     (case instance' of
        None \<Rightarrow> (Inl (Di_null_instance (snd s)), c)
      | Some i \<Rightarrow> (Inr (), bind_service s \<lparr>bd_lifetime = Singleton, bd_factory = Fac_cached, bd_cached = Some i\<rparr> c))"

definition singleton_factory_impl :: "service \<Rightarrow> factory \<Rightarrow> di_container \<Rightarrow> di_container" where
  "singleton_factory_impl s f c = bind_service s \<lparr>bd_lifetime = Singleton, bd_factory = f, bd_cached = None\<rparr> c"

definition transient_impl :: "service \<Rightarrow> factory \<Rightarrow> di_container \<Rightarrow> di_container" where
  "transient_impl s f c = bind_service s \<lparr>bd_lifetime = Transient, bd_factory = f, bd_cached = None\<rparr> c"

definition has_binding :: "service \<Rightarrow> di_container \<Rightarrow> bool" where
  "has_binding s c \<longleftrightarrow> dc_bindings c s \<noteq> None"

definition has_binding_prefer :: "string \<Rightarrow> ty \<Rightarrow> di_container \<Rightarrow> bool" where
  "has_binding_prefer key t c \<longleftrightarrow> key \<noteq> [] \<and> has_binding (key, t) c \<or> has_binding ([], t) c"

text \<open>The key a member is resolved with: the given one if it has a binding, the default otherwise.\<close>

definition member_service :: "string \<Rightarrow> ty \<Rightarrow> di_container \<Rightarrow> service" where
  "member_service key t c = (if key \<noteq> [] \<and> has_binding (key, t) c then (key, t) else ([], t))"

section \<open>Resolution\<close>

text \<open>An action on the container returns an instance or throws; \<open>None\<close> is a recursion that is cut off. \<open>rs\<close> is the recursive call of
  \<open>resolve_shared_impl\<close>.\<close>

type_synonym 'a di = "di_container \<Rightarrow> ((di_error + 'a) \<times> di_container) option"

definition make_auto_binding :: "ty \<Rightarrow> binding" where
  "make_auto_binding t = \<lparr>bd_lifetime = Singleton, bd_factory = Fac_auto t, bd_cached = None\<rparr>"

definition ensure_binding :: "service \<Rightarrow> di_container \<Rightarrow> di_container" where
  "ensure_binding s c = (if dc_bindings c s = None then bind_service s (make_auto_binding (snd s)) c else c)"

definition binding_of :: "service \<Rightarrow> di_container \<Rightarrow> binding" where
  "binding_of s c = (case dc_bindings c s of Some b \<Rightarrow> b | None \<Rightarrow> make_auto_binding (snd s))"

definition resolve_ref_impl :: "(service \<Rightarrow> nat di) \<Rightarrow> service \<Rightarrow> nat di" where
  "resolve_ref_impl rs s c0 =
     (let c = ensure_binding s c0 in
      if bd_lifetime (binding_of s c) = Transient then Some (Inl (Di_transient_ref s), c)
      else case bd_cached (binding_of s c) of
             Some i \<Rightarrow> Some (Inr i, c)
           | None \<Rightarrow>
               (case rs s c of
                  None \<Rightarrow> None
                | Some (Inl e, c1) \<Rightarrow> Some (Inl e, c1)
                | Some (Inr _, c1) \<Rightarrow>
                    Some (case bd_cached (binding_of s c1) of Some i \<Rightarrow> (Inr i, c1) | None \<Rightarrow> (Inl Di_internal, c1))))"

text \<open>What a member is assigned; \<open>None\<close> inside the result leaves it as it is.\<close>

definition resolve_member :: "type_env \<Rightarrow> (service \<Rightarrow> nat di) \<Rightarrow> string \<Rightarrow> member \<Rightarrow> slot option di" where
  "resolve_member env rs key m c =
     (case m of
        Mem_const \<Rightarrow> Some (Inr None, c)
      | Mem_plain \<Rightarrow> Some (Inr None, c)
      | Mem_shared t \<Rightarrow> map_option (apfst (map_sum id (Some \<circ> Slot_ref))) (rs (member_service key t c) c)
      | Mem_pointer t \<Rightarrow> map_option (apfst (map_sum id (Some \<circ> Slot_ref))) (resolve_ref_impl rs (member_service key t c) c)
      | Mem_class t copyable \<Rightarrow>
          if has_binding_prefer key t c \<or> td_aggregate (env t) then
            (if copyable then map_option (apfst (map_sum id (Some \<circ> Slot_copy))) (resolve_ref_impl rs (member_service key t c) c)
             else Some (Inl (Di_not_assignable t), c))
          else Some (Inr None, c))"

definition set_slot :: "nat \<Rightarrow> nat \<Rightarrow> slot \<Rightarrow> di_container \<Rightarrow> di_container" where
  "set_slot i k v c = c\<lparr>dc_objects := (dc_objects c)[i := (dc_objects c ! i)[k := v]]\<rparr>"

fun inject_members ::
  "type_env \<Rightarrow> (service \<Rightarrow> nat di) \<Rightarrow> string \<Rightarrow> nat \<Rightarrow> nat \<Rightarrow> member list \<Rightarrow> unit di" where
  "inject_members env rs key i k [] c = Some (Inr (), c)"
| "inject_members env rs key i k (m # ms) c =
     (case resolve_member env rs key m c of
        None \<Rightarrow> None
      | Some (Inl e, c1) \<Rightarrow> Some (Inl e, c1)
      | Some (Inr None, c1) \<Rightarrow> inject_members env rs key i (k + 1) ms c1
      | Some (Inr (Some v), c1) \<Rightarrow> inject_members env rs key i (k + 1) ms (set_slot i k v c1))"

definition inject_impl :: "type_env \<Rightarrow> (service \<Rightarrow> nat di) \<Rightarrow> string \<Rightarrow> ty \<Rightarrow> nat \<Rightarrow> unit di" where
  "inject_impl env rs key t i c =
     (if \<not> td_aggregate (env t) then Some (Inr (), c) else inject_members env rs key i 0 (td_members (env t)) c)"

definition allocate :: "nat \<Rightarrow> di_container \<Rightarrow> nat \<times> di_container" where
  "allocate n c = (length (dc_objects c), c\<lparr>dc_objects := dc_objects c @ [replicate n Slot_unset]\<rparr>)"

text \<open>A new instance is injected with the default key, whatever key it is resolved with.\<close>

definition construct_default :: "type_env \<Rightarrow> (service \<Rightarrow> nat di) \<Rightarrow> ty \<Rightarrow> nat di" where
  "construct_default env rs t c =
     (if \<not> td_default_constructible (env t) then Some (Inl (Di_not_constructible t), c)
      else case allocate (length (td_members (env t))) c of
             (i, c1) \<Rightarrow> map_option (apfst (map_sum id (\<lambda>_. i))) (inject_impl env rs [] t i c1))"

fun run_deps :: "(service \<Rightarrow> nat di) \<Rightarrow> user_dep list \<Rightarrow> unit di" where
  "run_deps rs [] c = Some (Inr (), c)"
| "run_deps rs (d # ds) c =
     (case (case d of Dep_shared s \<Rightarrow> rs s c | Dep_ref s \<Rightarrow> resolve_ref_impl rs s c) of
        None \<Rightarrow> None
      | Some (Inl e, c1) \<Rightarrow> Some (Inl e, c1)
      | Some (Inr _, c1) \<Rightarrow> run_deps rs ds c1)"

definition user_outcome :: "user_result \<Rightarrow> di_container \<Rightarrow> (di_error + nat option) \<times> di_container" where
  "user_outcome r c =
     (case r of
        User_makes \<Rightarrow> (case allocate 0 c of (i, c1) \<Rightarrow> (Inr (Some i), c1))
      | User_null \<Rightarrow> (Inr None, c)
      | User_throws msg \<Rightarrow> (Inl (Di_user msg), c))"

definition run_factory :: "type_env \<Rightarrow> (service \<Rightarrow> nat di) \<Rightarrow> factory \<Rightarrow> nat option di" where
  "run_factory env rs f c =
     (case f of
        Fac_cached \<Rightarrow> Some (Inl Di_internal, c)
      | Fac_auto t \<Rightarrow> map_option (apfst (map_sum id Some)) (construct_default env rs t c)
      | Fac_user ds r \<Rightarrow>
          (case run_deps rs ds c of
             None \<Rightarrow> None
           | Some (Inl e, c1) \<Rightarrow> Some (Inl e, c1)
           | Some (Inr _, c1) \<Rightarrow> Some (user_outcome r c1)))"

definition resolve_step :: "type_env \<Rightarrow> (service \<Rightarrow> nat di) \<Rightarrow> service \<Rightarrow> nat di" where
  "resolve_step env rs s c0 =
     (let c = ensure_binding s c0; b = binding_of s c in
      if bd_lifetime b = Singleton \<and> bd_cached b \<noteq> None then Some (Inr (the (bd_cached b)), c)
      else if s \<in> dc_resolving c then Some (Inl (Di_cyclic s), c)
      else case run_factory env rs (bd_factory b) (c\<lparr>dc_resolving := insert s (dc_resolving c)\<rparr>) of
             None \<Rightarrow> None
           | Some (r, c1) \<Rightarrow>
               let c2 = c1\<lparr>dc_resolving := dc_resolving c1 - {s}\<rparr> in
               Some (case r of
                       Inl e \<Rightarrow> (Inl e, c2)
                     | Inr None \<Rightarrow> (Inl (Di_null s), c2)
                     | Inr (Some i) \<Rightarrow>
                         (Inr i, if bd_lifetime b = Singleton then bind_service s ((binding_of s c2)\<lparr>bd_cached := Some i\<rparr>) c2 else c2)))"

text \<open>The recursion, to a depth of \<open>n\<close> nested resolutions.\<close>

fun resolve_shared_impl :: "nat \<Rightarrow> type_env \<Rightarrow> service \<Rightarrow> nat di" where
  "resolve_shared_impl 0 env s c = None"
| "resolve_shared_impl (Suc n) env s c = resolve_step env (resolve_shared_impl n env) s c"

text \<open>The controller of a route handler: the one bound under the binder's key if there is one.\<close>

definition handler_controller :: "nat \<Rightarrow> type_env \<Rightarrow> string \<Rightarrow> ty \<Rightarrow> nat di" where
  "handler_controller n env key t c = resolve_shared_impl n env (member_service key t c) c"

section \<open>Mounting controllers\<close>

fun collapse_slashes :: "bool \<Rightarrow> string \<Rightarrow> string" where
  "collapse_slashes prev [] = []"
| "collapse_slashes prev (ch # s) =
     (if ch = CHR ''/'' then (if \<not> prev then ch # collapse_slashes True s else collapse_slashes prev s)
      else ch # collapse_slashes False s)"

definition normalize_mount_prefix :: "string \<Rightarrow> string" where
  "normalize_mount_prefix input =
     (if input = [] then []
      else let normalized = (if hd input \<noteq> CHR ''/'' then CHR ''/'' # collapse_slashes True input else collapse_slashes False input) in
           if normalized = ''/'' then []
           else if normalized \<noteq> [] \<and> last normalized = CHR ''/'' then butlast normalized else normalized)"

definition resolve_mount_prefix :: "string \<Rightarrow> string option \<Rightarrow> string" where
  "resolve_mount_prefix own controller_prefix =
     (if own \<noteq> [] then normalize_mount_prefix own
      else case controller_prefix of Some p \<Rightarrow> normalize_mount_prefix p | None \<Rightarrow> [])"

section \<open>What resolution does to a container\<close>

declare split_paired_All [simp del] split_paired_Ex [simp del]

definition keeps :: "(di_container \<Rightarrow> di_container \<Rightarrow> bool) \<Rightarrow> 'a di \<Rightarrow> bool" where
  "keeps rel f \<longleftrightarrow> (\<forall>c r c'. f c = Some (r, c') \<longrightarrow> rel c c')"

definition keeps_all :: "(di_container \<Rightarrow> di_container \<Rightarrow> bool) \<Rightarrow> (service \<Rightarrow> nat di) \<Rightarrow> bool" where
  "keeps_all rel rs \<longleftrightarrow> (\<forall>s. keeps rel (rs s))"

lemma keepsD: "keeps rel f \<Longrightarrow> f c = Some (r, c') \<Longrightarrow> rel c c'"
  by (auto simp: keeps_def)

lemma keeps_allD: "keeps_all rel rs \<Longrightarrow> rs s c = Some (r, c') \<Longrightarrow> rel c c'"
  by (cases s) (auto simp: keeps_all_def keeps_def)

lemma keepsI: "(\<And>c r c'. f c = Some (r, c') \<Longrightarrow> rel c c') \<Longrightarrow> keeps rel f"
  by (simp add: keeps_def)

text \<open>A relation between the container before and after that holds of every elementary change holds of everything a
  factory does, if it holds of the nested resolutions.\<close>

locale container_relation =
  fixes rel :: "di_container \<Rightarrow> di_container \<Rightarrow> bool"
  assumes rel_refl: "rel c c"
    and rel_trans: "rel c d \<Longrightarrow> rel d e \<Longrightarrow> rel c e"
    and rel_ensure: "rel c (ensure_binding s c)"
    and rel_objects: "length (dc_objects c) \<le> length os \<Longrightarrow> rel c (c\<lparr>dc_objects := os\<rparr>)"
begin

lemma keeps_ref:
  assumes "keeps_all rel rs"
  shows "keeps rel (resolve_ref_impl rs s)"
proof (rule keepsI)
  fix c r c'
  assume r: "resolve_ref_impl rs s c = Some (r, c')"
  note e = rel_ensure [of c s]
  have "rel (ensure_binding s c) c1" if "rs s (ensure_binding s c) = Some (q, c1)" for q c1
    using keeps_allD [OF assms that] .
  then show "rel c c'"
    using r e rel_trans [OF e] by (auto simp: resolve_ref_impl_def Let_def split: if_splits option.splits sum.splits)
qed

lemma keeps_member: "keeps_all rel rs \<Longrightarrow> keeps rel (resolve_member env rs key m)"
  by (rule keepsI) (auto simp: resolve_member_def rel_refl split: member.splits if_splits
      dest: keepsD [OF keeps_ref] keeps_allD)

lemma rel_set_slot: "rel c (set_slot i k v c)"
  by (simp add: set_slot_def rel_objects)

lemma keeps_inject: "keeps_all rel rs \<Longrightarrow> inject_members env rs key i k ms c = Some (r, c') \<Longrightarrow> rel c c'"
proof (induction ms arbitrary: k c)
  case (Cons m ms)
  obtain r1 c1 where m: "resolve_member env rs key m c = Some (r1, c1)"
    using Cons.prems(2) by (auto split: option.splits)
  note c1 = keepsD [OF keeps_member [OF Cons.prems(1)] m]
  consider "c' = c1" | c2 where "rel c1 c2" "inject_members env rs key i (k + 1) ms c2 = Some (r, c')"
  proof (cases r1)
    case (Inl e)
    then show thesis using Cons.prems(2) m that(1) by simp
  next
    case (Inr v)
    then show thesis using Cons.prems(2) m that(2) [of "case v of None \<Rightarrow> c1 | Some v \<Rightarrow> set_slot i k v c1"] rel_refl rel_set_slot
      by (cases v) simp_all
  qed
  then show ?case using c1 Cons.IH [OF Cons.prems(1)] rel_trans by cases blast+
qed (simp add: rel_refl)

lemma keeps_construct: "keeps_all rel rs \<Longrightarrow> keeps rel (construct_default env rs t)"
proof (rule keepsI)
  fix c r c'
  assume rs: "keeps_all rel rs" and r: "construct_default env rs t c = Some (r, c')"
  let ?c = "c\<lparr>dc_objects := dc_objects c @ [replicate (length (td_members (env t))) Slot_unset]\<rparr>"
  have "rel c ?c" by (rule rel_objects) simp
  then show "rel c c'"
    using r rel_refl rel_trans keeps_inject [OF rs]
    by (auto simp: construct_default_def allocate_def inject_impl_def split: if_splits)
qed

lemma keeps_deps: "keeps_all rel rs \<Longrightarrow> run_deps rs ds c = Some (r, c') \<Longrightarrow> rel c c'"
proof (induction ds arbitrary: c)
  case (Cons d ds)
  let ?f = "case d of Dep_shared s \<Rightarrow> rs s c | Dep_ref s \<Rightarrow> resolve_ref_impl rs s c"
  obtain r1 c1 where m: "?f = Some (r1, c1)" using Cons.prems(2) by (auto split: option.splits)
  then have c1: "rel c c1"
    using Cons.prems(1) by (cases d) (auto dest: keeps_allD keepsD [OF keeps_ref])
  consider "c' = c1" | "run_deps rs ds c1 = Some (r, c')" using Cons.prems(2) m by (auto split: sum.splits)
  then show ?case using c1 Cons.IH [OF Cons.prems(1)] rel_trans by cases blast+
qed (simp add: rel_refl)

lemma keeps_factory: "keeps_all rel rs \<Longrightarrow> keeps rel (run_factory env rs f)"
proof (rule keepsI)
  fix c r c'
  assume rs: "keeps_all rel rs" and r: "run_factory env rs f c = Some (r, c')"
  show "rel c c'"
  proof (cases f)
    case (Fac_user ds u)
    then obtain q c1 where d: "run_deps rs ds c = Some (q, c1)" using r by (auto simp: run_factory_def split: option.splits)
    have "rel c1 c'"
      using r Fac_user d rel_refl rel_objects
      by (auto simp: run_factory_def user_outcome_def allocate_def split: sum.splits user_result.splits)
    with keeps_deps [OF rs d] show ?thesis by (rule rel_trans)
  qed (use r rel_refl keepsD [OF keeps_construct [OF rs]] in \<open>auto simp: run_factory_def\<close>)
qed

end

text \<open>What every resolution keeps: no binding is lost or replaced, a cached instance stays, what is new is an automatic
  singleton, and instances only come in addition.\<close>

definition binding_extends :: "binding \<Rightarrow> binding \<Rightarrow> bool" where
  "binding_extends b b' \<longleftrightarrow> bd_lifetime b' = bd_lifetime b \<and> bd_factory b' = bd_factory b
     \<and> (bd_cached b \<noteq> None \<longrightarrow> bd_cached b' = bd_cached b) \<and> (bd_lifetime b = Transient \<longrightarrow> b' = b)"

definition extends :: "di_container \<Rightarrow> di_container \<Rightarrow> bool" where
  "extends c c' \<longleftrightarrow> dc_resolving c' = dc_resolving c \<and> length (dc_objects c) \<le> length (dc_objects c')
     \<and> (\<forall>s. binding_extends (binding_of s c) (binding_of s c')) \<and> (\<forall>s. dc_bindings c s \<noteq> None \<longrightarrow> dc_bindings c' s \<noteq> None)"

lemma binding_of_simps [simp]:
  "binding_of s (ensure_binding s' c) = binding_of s c" "binding_of s (c\<lparr>dc_objects := os\<rparr>) = binding_of s c"
  "binding_of s (c\<lparr>dc_resolving := R\<rparr>) = binding_of s c" "binding_of s (bind_service s b c) = b"
  "s \<noteq> s' \<Longrightarrow> binding_of s (bind_service s' b c) = binding_of s c"
  by (auto simp: binding_of_def ensure_binding_def bind_service_def split: option.splits)

lemma ensure_binding_simps [simp]:
  "dc_resolving (ensure_binding s c) = dc_resolving c" "dc_objects (ensure_binding s c) = dc_objects c"
  "dc_resolving (bind_service s b c) = dc_resolving c" "dc_objects (bind_service s b c) = dc_objects c"
  by (simp_all add: ensure_binding_def bind_service_def)

lemma binding_extends_refl: "binding_extends b b"
  by (simp add: binding_extends_def)

interpretation ext: container_relation extends
proof
  show "extends c d \<Longrightarrow> extends d e \<Longrightarrow> extends c e" for c d e
    unfolding extends_def binding_extends_def by (metis le_trans)
qed (auto simp: extends_def binding_extends_refl, auto simp: ensure_binding_def bind_service_def)

text \<open>The container with the guard of \<open>s\<close> set and removed, and with an instance stored for \<open>s\<close>.\<close>

definition guard_on :: "service \<Rightarrow> di_container \<Rightarrow> di_container" where
  "guard_on s c = (ensure_binding s c)\<lparr>dc_resolving := insert s (dc_resolving c)\<rparr>"

definition guard_off :: "service \<Rightarrow> di_container \<Rightarrow> di_container" where
  "guard_off s c = c\<lparr>dc_resolving := dc_resolving c - {s}\<rparr>"

definition store :: "service \<Rightarrow> nat \<Rightarrow> di_container \<Rightarrow> di_container" where
  "store s i c = bind_service s ((binding_of s c)\<lparr>bd_cached := Some i\<rparr>) c"

lemma resolve_step_cases:
  assumes "resolve_step env rs s c = Some (r, c')"
  obtains (cached) i where "bd_lifetime (binding_of s c) = Singleton" "bd_cached (binding_of s c) = Some i" "r = Inr i" "c' = ensure_binding s c"
  | (cyclic) "s \<in> dc_resolving c" "r = Inl (Di_cyclic s)" "c' = ensure_binding s c"
  | (failed) q c1 where "s \<notin> dc_resolving c" "bd_lifetime (binding_of s c) = Singleton \<Longrightarrow> bd_cached (binding_of s c) = None"
      "run_factory env rs (bd_factory (binding_of s c)) (guard_on s c) = Some (q, c1)" "\<exists>e. r = Inl e" "c' = guard_off s c1"
  | (made) i c1 where "s \<notin> dc_resolving c" "bd_lifetime (binding_of s c) = Singleton \<Longrightarrow> bd_cached (binding_of s c) = None"
      "run_factory env rs (bd_factory (binding_of s c)) (guard_on s c) = Some (Inr (Some i), c1)" "r = Inr i"
      "c' = (if bd_lifetime (binding_of s c) = Singleton then store s i (guard_off s c1) else guard_off s c1)"
proof (cases "bd_lifetime (binding_of s c) = Singleton \<and> bd_cached (binding_of s c) \<noteq> None \<or> s \<in> dc_resolving c")
  case True
  then show thesis using assms cached cyclic by (auto simp: resolve_step_def Let_def split: if_splits)
next
  case False
  then obtain q c1 where q: "run_factory env rs (bd_factory (binding_of s c)) (guard_on s c) = Some (q, c1)"
    using assms by (auto simp: resolve_step_def guard_on_def Let_def split: if_splits option.splits)
  have f: "s \<notin> dc_resolving c" "bd_lifetime (binding_of s c) = Singleton \<Longrightarrow> bd_cached (binding_of s c) = None" using False by auto
  note r = assms [unfolded resolve_step_def Let_def] False q [unfolded guard_on_def]
  show thesis
  proof (cases q)
    case (Inl e)
    then show thesis using r by (intro failed [OF f q]) (auto simp: guard_off_def split: if_splits)
  next
    case (Inr v)
    show thesis
    proof (cases v)
      case None
      then show thesis using r Inr by (intro failed [OF f q]) (auto simp: guard_off_def split: if_splits)
    next
      case (Some i)
      then show thesis using r Inr q by (intro made [OF f, of i c1]) (auto simp: guard_off_def store_def split: if_splits)
    qed
  qed
qed

lemma ensure_kept: "dc_bindings c t \<noteq> None \<Longrightarrow> dc_bindings (ensure_binding s c) t \<noteq> None"
  by (simp add: ensure_binding_def bind_service_def)

lemma guard_extends: "extends (guard_on s c) c1 \<Longrightarrow> s \<notin> dc_resolving c \<Longrightarrow> extends c (guard_off s c1)"
  using ensure_kept [of c _ s] by (auto simp: extends_def guard_on_def guard_off_def)

lemma store_extends:
  assumes "extends c c1" "bd_lifetime (binding_of s c) = Singleton" "bd_cached (binding_of s c) = None"
  shows "extends c (store s i c1)"
proof -
  have "binding_extends (binding_of t c) (binding_of t (store s i c1))" for t
  proof -
    have "binding_extends (binding_of t c) (binding_of t c1)" using assms(1) by (simp add: extends_def)
    then show ?thesis using assms(2,3) by (cases "t = s") (auto simp: binding_extends_def store_def)
  qed
  then show ?thesis using assms(1) by (auto simp: extends_def store_def bind_service_def)
qed

lemma resolve_step_extends:
  assumes "keeps_all extends rs"
  shows "keeps extends (resolve_step env rs s)"
proof (rule keepsI)
  fix c r c'
  assume "resolve_step env rs s c = Some (r, c')"
  then show "extends c c'"
  proof (cases rule: resolve_step_cases)
    case (failed q c1)
    with guard_extends [OF keepsD [OF ext.keeps_factory [OF assms] failed(3)]] show ?thesis by simp
  next
    case (made i c1)
    note g = guard_extends [OF keepsD [OF ext.keeps_factory [OF assms] made(3)] made(1)]
    with made store_extends [OF g] show ?thesis by simp
  qed (simp_all add: ext.rel_ensure)
qed

lemma resolve_extends: "keeps_all extends (resolve_shared_impl n env)"
proof (induction n)
  case 0
  then show ?case by (simp add: keeps_all_def keeps_def)
next
  case (Suc n)
  have "resolve_shared_impl (Suc n) env s = resolve_step env (resolve_shared_impl n env) s" for s by (rule ext) simp
  with Suc show ?case unfolding keeps_all_def [of _ "resolve_shared_impl (Suc n) env"] by (simp add: resolve_step_extends)
qed

section \<open>Lifetimes\<close>

lemma ensure_bound: "dc_bindings c s \<noteq> None \<Longrightarrow> ensure_binding s c = c"
  by (auto simp: ensure_binding_def)

lemma cached_resolves:
  "bd_lifetime (binding_of s c) = Singleton \<Longrightarrow> bd_cached (binding_of s c) = Some i \<Longrightarrow> dc_bindings c s \<noteq> None \<Longrightarrow>
     resolve_shared_impl (Suc n) env s c = Some (Inr i, c)"
  using ensure_bound [of c s] by (simp add: resolve_step_def Let_def)

text \<open>Any number of further resolutions, whatever they return.\<close>

fun resolve_all :: "nat \<Rightarrow> type_env \<Rightarrow> service list \<Rightarrow> di_container \<Rightarrow> di_container option" where
  "resolve_all n env [] c = Some c"
| "resolve_all n env (s # ss) c = (case resolve_shared_impl n env s c of None \<Rightarrow> None | Some (r, c') \<Rightarrow> resolve_all n env ss c')"

lemma resolve_all_extends: "resolve_all n env ss c = Some c' \<Longrightarrow> extends c c'"
  by (induction ss arbitrary: c)
    (auto simp: ext.rel_refl split: option.splits dest: keeps_allD [OF resolve_extends] intro: ext.rel_trans)

lemma singleton_stays:
  assumes "resolve_shared_impl n env s c = Some (Inr i, c')" and "bd_lifetime (binding_of s c) = Singleton"
    and "resolve_all m env ss c' = Some c''"
  shows "resolve_shared_impl (Suc k) env s c'' = Some (Inr i, c'')"
proof -
  obtain n' where n: "n = Suc n'" using assms(1) by (cases n) auto
  from assms(1) have "resolve_step env (resolve_shared_impl n' env) s c = Some (Inr i, c')" by (simp add: n)
  then have "bd_cached (binding_of s c') = Some i \<and> dc_bindings c' s \<noteq> None"
    using assms(2) by (cases rule: resolve_step_cases) (auto simp: store_def bind_service_def ensure_binding_def binding_of_def)
  moreover have "bd_lifetime (binding_of s c') = Singleton"
    using assms(2) keeps_allD [OF resolve_extends assms(1)] by (simp add: extends_def binding_extends_def)
  ultimately show ?thesis
    using resolve_all_extends [OF assms(3)] cached_resolves [of s c'' i k env] by (auto simp: extends_def binding_extends_def)
qed

text \<open>
  A singleton is one instance. When a service that is registered as a singleton, or not registered at all,
  has been resolved once, then after any further resolutions, failed ones included, it
  resolves to the same instance at once and without constructing anything.\<close>

theorem singleton_resolved_once:
  assumes "resolve_shared_impl n env s c = Some (Inr i, c')" and "bd_lifetime (binding_of s c) = Singleton"
    and "resolve_all m env ss c' = Some c''"
  shows "resolve_shared_impl (Suc k) env s c'' = Some (Inr i, c'')"
  using assms by (rule singleton_stays)

text \<open>
  A transient service is a new instance each time: whatever its factory resolves, a successful resolution
  returns an instance that did not exist before, so two resolutions never return the
  same one.\<close>

theorem transient_always_new:
  assumes "binding_of s c = \<lparr>bd_lifetime = Transient, bd_factory = Fac_user ds r, bd_cached = None\<rparr>"
    and "resolve_shared_impl n env s c = Some (Inr i, c1)" and "resolve_all m env ss c1 = Some c2"
    and "resolve_shared_impl k env s c2 = Some (Inr j, c3)"
  shows "length (dc_objects c) \<le> i \<and> i < length (dc_objects c1) \<and> i \<noteq> j"
proof -
  have new: "length (dc_objects c) \<le> i \<and> i < length (dc_objects c1)"
    if b: "binding_of s c = \<lparr>bd_lifetime = Transient, bd_factory = Fac_user ds r, bd_cached = None\<rparr>"
      and r: "resolve_shared_impl n env s c = Some (Inr i, c1)" for n c i c1
  proof -
    obtain n' where n: "n = Suc n'" using r by (cases n) auto
    from r have "resolve_step env (resolve_shared_impl n' env) s c = Some (Inr i, c1)" by (simp add: n)
    then show ?thesis
    proof (cases rule: resolve_step_cases)
      case (made i' c2)
      obtain c3 where d: "run_deps (resolve_shared_impl n' env) ds (guard_on s c) = Some (Inr (), c3)"
        and u: "user_outcome r c3 = (Inr (Some i'), c2)"
        using made(3) b by (auto simp: run_factory_def split: option.splits sum.splits)
      from ext.keeps_deps [OF resolve_extends d] have "length (dc_objects c) \<le> length (dc_objects c3)"
        by (simp add: extends_def guard_on_def)
      with u made b show ?thesis by (auto simp: user_outcome_def allocate_def guard_off_def split: user_result.splits)
    qed (use b in simp_all)
  qed
  have e: "extends c c2" using keeps_allD [OF resolve_extends assms(2)] resolve_all_extends [OF assms(3)] by (rule ext.rel_trans)
  then have "binding_of s c2 = binding_of s c" using assms(1) by (simp add: extends_def binding_extends_def)
  then have "length (dc_objects c2) \<le> j" using new [OF _ assms(4)] assms(1) by simp
  moreover have "length (dc_objects c1) \<le> length (dc_objects c2)" using resolve_all_extends [OF assms(3)] by (simp add: extends_def)
  ultimately show ?thesis using new [OF assms(1,2)] by simp
qed

section \<open>Termination and cycles\<close>

text \<open>A finite set of services that contains all that its members need, by their members or by their factories.\<close>

primrec member_types :: "member \<Rightarrow> ty set" where
  "member_types Mem_const = {}"
| "member_types (Mem_shared t) = {t}"
| "member_types (Mem_pointer t) = {t}"
| "member_types (Mem_class t copyable) = {t}"
| "member_types Mem_plain = {}"

primrec dep_service :: "user_dep \<Rightarrow> service" where
  "dep_service (Dep_shared s) = s"
| "dep_service (Dep_ref s) = s"

definition needs :: "type_env \<Rightarrow> factory \<Rightarrow> service set" where
  "needs env f = (case f of Fac_cached \<Rightarrow> {} | Fac_auto t \<Rightarrow> {[]} \<times> (\<Union>m \<in> set (td_members (env t)). member_types m)
     | Fac_user ds r \<Rightarrow> dep_service ` set ds)"

definition closed_services :: "type_env \<Rightarrow> service set \<Rightarrow> di_container \<Rightarrow> bool" where
  "closed_services env U c \<longleftrightarrow> (\<forall>s \<in> U. needs env (bd_factory (binding_of s c)) \<subseteq> U)"

lemma closed_extends: "extends c c' \<Longrightarrow> closed_services env U c \<Longrightarrow> closed_services env U c'"
  unfolding extends_def binding_extends_def closed_services_def by simp

definition returns_on :: "service set \<Rightarrow> (di_container \<Rightarrow> bool) \<Rightarrow> (service \<Rightarrow> nat di) \<Rightarrow> bool" where
  "returns_on U I rs \<longleftrightarrow> (\<forall>s \<in> U. \<forall>c. I c \<longrightarrow> rs s c \<noteq> None)"

text \<open>\<open>I\<close> is a condition on the container that all resolutions keep.\<close>

definition kept :: "(di_container \<Rightarrow> bool) \<Rightarrow> bool" where
  "kept I \<longleftrightarrow> (\<forall>c c'. extends c c' \<longrightarrow> I c \<longrightarrow> I c')"

lemma keptD: "kept I \<Longrightarrow> extends c c' \<Longrightarrow> I c \<Longrightarrow> I c'"
  by (simp add: kept_def)

lemma ref_returns:
  assumes "returns_on U I rs" "kept I" "s \<in> U" "I c"
  shows "resolve_ref_impl rs s c \<noteq> None"
proof -
  have "I (ensure_binding s c)" using keptD [OF assms(2) ext.rel_ensure assms(4)] .
  then obtain r c1 where "rs s (ensure_binding s c) = Some (r, c1)" using assms(1,3) by (fastforce simp: returns_on_def)
  then show ?thesis by (auto simp: resolve_ref_impl_def Let_def split: option.splits sum.splits)
qed

lemma member_returns:
  "returns_on U I rs \<Longrightarrow> kept I \<Longrightarrow> I c \<Longrightarrow> {[]} \<times> member_types m \<subseteq> U \<Longrightarrow> resolve_member env rs [] m c \<noteq> None"
  using ref_returns [of U I rs]
  by (cases m) (auto simp: resolve_member_def member_service_def returns_on_def)

lemma inject_returns:
  "returns_on U I rs \<Longrightarrow> kept I \<Longrightarrow> keeps_all extends rs \<Longrightarrow> I c \<Longrightarrow> \<forall>m \<in> set ms. {[]} \<times> member_types m \<subseteq> U \<Longrightarrow>
     inject_members env rs [] i k ms c \<noteq> None"
proof (induction ms arbitrary: k c)
  case (Cons m ms)
  obtain r c1 where m: "resolve_member env rs [] m c = Some (r, c1)"
    using member_returns [OF Cons.prems(1,2,4), of m env] Cons.prems(5) by auto
  have "I c1" using keptD [OF Cons.prems(2) keepsD [OF ext.keeps_member [OF Cons.prems(3)] m] Cons.prems(4)] .
  moreover from this have "I (set_slot i k v c1)" for v using keptD [OF Cons.prems(2) ext.rel_set_slot] by blast
  ultimately show ?case using Cons.IH [OF Cons.prems(1-3)] Cons.prems(5) m by (auto split: sum.splits option.splits)
qed simp

lemma deps_return:
  "returns_on U I rs \<Longrightarrow> kept I \<Longrightarrow> keeps_all extends rs \<Longrightarrow> I c \<Longrightarrow> dep_service ` set ds \<subseteq> U \<Longrightarrow> run_deps rs ds c \<noteq> None"
proof (induction ds arbitrary: c)
  case (Cons d ds)
  let ?f = "case d of Dep_shared s \<Rightarrow> rs s c | Dep_ref s \<Rightarrow> resolve_ref_impl rs s c"
  have "?f \<noteq> None" using Cons.prems ref_returns [OF Cons.prems(1,2)] by (cases d) (auto simp: returns_on_def)
  then obtain r c1 where d: "?f = Some (r, c1)" by fastforce
  then have "extends c c1" using Cons.prems(3) by (cases d) (auto dest: keeps_allD keepsD [OF ext.keeps_ref])
  then have "I c1" using keptD Cons.prems(2,4) by blast
  then show ?case using Cons.IH [OF Cons.prems(1-3)] Cons.prems(5) d by (auto split: sum.splits)
qed simp

lemma factory_returns:
  assumes "returns_on U I rs" "kept I" "keeps_all extends rs" "I c" "needs env f \<subseteq> U"
  shows "run_factory env rs f c \<noteq> None"
proof (cases f)
  case (Fac_auto t)
  have "I (c\<lparr>dc_objects := dc_objects c @ xs\<rparr>)" for xs by (rule keptD [OF assms(2) ext.rel_objects assms(4)]) simp
  moreover have "\<forall>m \<in> set (td_members (env t)). {[]} \<times> member_types m \<subseteq> U" using assms(5) Fac_auto by (auto simp: needs_def)
  ultimately show ?thesis
    using inject_returns [OF assms(1-3)] Fac_auto by (simp add: run_factory_def construct_default_def allocate_def inject_impl_def)
next
  case (Fac_user ds r)
  then show ?thesis using deps_return [OF assms(1-4), of ds] assms(5) by (auto simp: run_factory_def needs_def split: option.splits sum.splits)
qed (simp add: run_factory_def)

lemma enough_depth:
  assumes "finite U" and "s \<in> U" and "closed_services env U c" and "dc_resolving c = {}"
  shows "\<exists>r c'. resolve_shared_impl (card U + 1) env s c = Some (r, c') \<and> dc_resolving c' = {}"
proof -
  have "resolve_shared_impl n env s c \<noteq> None"
    if "s \<in> U" "closed_services env U c" "dc_resolving c \<subseteq> U" "card (U - dc_resolving c) < n" for n s c
    using that
  proof (induction n arbitrary: s c)
    case (Suc n)
    let ?R = "insert s (dc_resolving c)"
    let ?I = "\<lambda>d. closed_services env U d \<and> dc_resolving d = ?R"
    have k: "kept ?I" using closed_extends by (auto simp: kept_def extends_def)
    show ?case
    proof (cases "s \<in> dc_resolving c")
      case False
      then have "card (U - ?R) < card (U - dc_resolving c)"
        using assms(1) Suc.prems(1) by (intro psubset_card_mono) auto
      then have rs: "returns_on U ?I (resolve_shared_impl n env)"
        using Suc.IH Suc.prems by (auto simp: returns_on_def)
      have "?I (guard_on s c)" using Suc.prems(2) by (simp add: guard_on_def closed_services_def)
      moreover have "needs env (bd_factory (binding_of s c)) \<subseteq> U" using Suc.prems(1,2) by (simp add: closed_services_def)
      ultimately have "run_factory env (resolve_shared_impl n env) (bd_factory (binding_of s c)) (guard_on s c) \<noteq> None"
        using factory_returns [OF rs k resolve_extends] by blast
      with False show ?thesis by (auto simp: resolve_step_def guard_on_def Let_def split: option.splits sum.splits)
    qed (simp add: resolve_step_def Let_def)
  qed simp
  from this [of s c "card U + 1"] assms obtain r c' where r: "resolve_shared_impl (card U + 1) env s c = Some (r, c')" by fastforce
  with keeps_allD [OF resolve_extends r] assms(4) show ?thesis by (auto simp: extends_def)
qed

text \<open>
  Resolution returns. When the services that can be needed are finitely many, a depth of nested
  resolutions of their number is enough: the call returns an instance or an error whatever the
  factories and members refer to, cycles included, and it leaves no service marked as being
  resolved.\<close>

theorem resolution_returns:
  assumes "finite U" and "s \<in> U" and "closed_services env U c" and "dc_resolving c = {}"
  shows "\<exists>r c'. resolve_shared_impl (card U + 1) env s c = Some (r, c') \<and> dc_resolving c' = {}"
  using assms by (rule enough_depth)

text \<open>The types of \<open>S\<close> have no instance yet and are left to automatic construction.\<close>

definition unbuilt :: "ty set \<Rightarrow> di_container \<Rightarrow> bool" where
  "unbuilt S c \<longleftrightarrow> (\<forall>t \<in> S. binding_of ([], t) c = make_auto_binding t)"

text \<open>Every type of \<open>S\<close> has a shared or plain pointer to a type of \<open>S\<close> as a member.\<close>

definition cyclic_types :: "type_env \<Rightarrow> ty set \<Rightarrow> bool" where
  "cyclic_types env S \<longleftrightarrow> (\<forall>t \<in> S. td_aggregate (env t)
     \<and> (\<exists>t' \<in> S. Mem_shared t' \<in> set (td_members (env t)) \<or> Mem_pointer t' \<in> set (td_members (env t))))"

interpretation unb: container_relation "\<lambda>c c'. unbuilt S c \<longrightarrow> unbuilt S c'" for S
  by unfold_locales (auto simp: unbuilt_def)

definition never_built :: "ty set \<Rightarrow> (service \<Rightarrow> nat di) \<Rightarrow> bool" where
  "never_built S rs \<longleftrightarrow> (\<forall>t c c' i. t \<in> S \<longrightarrow> unbuilt S c \<longrightarrow> rs ([], t) c \<noteq> Some (Inr i, c'))"

lemma mapped_instance:
  "map_option (apfst (map_sum id f)) x = Some (Inr v, c') \<Longrightarrow> \<exists>i. x = Some (Inr i, c')"
  by (cases x) (auto simp: map_sum_def split: sum.splits)

lemma member_never_built:
  assumes "never_built S rs" "unbuilt S c" "t \<in> S"
  shows "resolve_member env rs [] (Mem_shared t) c \<noteq> Some (Inr v, c')" "resolve_member env rs [] (Mem_pointer t) c \<noteq> Some (Inr v, c')"
proof -
  have n: "\<nexists>i d'. rs ([], t) d = Some (Inr i, d')" if "unbuilt S d" for d using assms(1,3) that by (simp add: never_built_def)
  have "unbuilt S (ensure_binding ([], t) c)" using assms(2) by (simp add: unbuilt_def)
  note ns = n [OF this] n [OF assms(2)]
  have "binding_of ([], t) c = make_auto_binding t" using assms(2,3) by (simp add: unbuilt_def)
  then have "\<nexists>i. resolve_ref_impl rs ([], t) c = Some (Inr i, c')"
    using ns(1) by (auto simp: resolve_ref_impl_def Let_def make_auto_binding_def split: option.splits sum.splits)
  then show "resolve_member env rs [] (Mem_shared t) c \<noteq> Some (Inr v, c')" "resolve_member env rs [] (Mem_pointer t) c \<noteq> Some (Inr v, c')"
    using ns(2) by (simp_all only: resolve_member_def member.simps member_service_def) (auto simp only: simp_thms if_False dest!: mapped_instance)
qed

lemma inject_never_built:
  assumes "never_built S rs" "keeps_all (\<lambda>c c'. unbuilt S c \<longrightarrow> unbuilt S c') rs" "t \<in> S"
  shows "unbuilt S c \<Longrightarrow> Mem_shared t \<in> set ms \<or> Mem_pointer t \<in> set ms \<Longrightarrow> inject_members env rs [] i k ms c \<noteq> Some (Inr u, c')"
proof (induction ms arbitrary: k c)
  case (Cons m ms)
  show ?case
  proof (cases "resolve_member env rs [] m c")
    case (Some rc)
    obtain r c1 where rc: "rc = (r, c1)" by fastforce
    have u1: "unbuilt S c1" using keepsD [OF unb.keeps_member [OF assms(2)] Some [unfolded rc]] Cons.prems(1) by blast
    then have u2: "unbuilt S (set_slot i k v c1)" for v by (simp add: unbuilt_def set_slot_def)
    show ?thesis
    proof (cases "m = Mem_shared t \<or> m = Mem_pointer t")
      case True
      then show ?thesis using member_never_built [OF assms(1) Cons.prems(1) assms(3)] Some rc by (cases r) auto
    next
      case False
      then have "Mem_shared t \<in> set ms \<or> Mem_pointer t \<in> set ms" using Cons.prems(2) by auto
      then show ?thesis using Cons.IH [OF u1] Cons.IH [OF u2] Some rc by (auto split: sum.splits option.splits)
    qed
  qed simp
qed simp

lemma cyclic_resolution:
  assumes "cyclic_types env S"
  shows "never_built S (resolve_shared_impl n env) \<and> keeps_all (\<lambda>c c'. unbuilt S c \<longrightarrow> unbuilt S c') (resolve_shared_impl n env)"
proof (induction n)
  case 0
  then show ?case by (simp add: never_built_def keeps_all_def keeps_def)
next
  case (Suc n)
  let ?rs = "resolve_shared_impl n env"
  have never: "resolve_step env ?rs ([], t) c \<noteq> Some (Inr i, c')" if t: "t \<in> S" and u: "unbuilt S c" for t c i c'
  proof
    assume "resolve_step env ?rs ([], t) c = Some (Inr i, c')"
    moreover have b: "binding_of ([], t) c = make_auto_binding t" using t u by (simp add: unbuilt_def)
    ultimately obtain c1 where r: "run_factory env ?rs (Fac_auto t) (guard_on ([], t) c) = Some (Inr (Some i), c1)"
      by (cases rule: resolve_step_cases) (auto simp: make_auto_binding_def)
    obtain t' where t': "t' \<in> S" "Mem_shared t' \<in> set (td_members (env t)) \<or> Mem_pointer t' \<in> set (td_members (env t))" "td_aggregate (env t)"
      using assms t by (auto simp: cyclic_types_def)
    let ?c = "(guard_on ([], t) c)\<lparr>dc_objects := dc_objects c @ [replicate (length (td_members (env t))) Slot_unset]\<rparr>"
    have "unbuilt S ?c" using u by (simp add: unbuilt_def guard_on_def)
    from inject_never_built [OF Suc [THEN conjunct1] Suc [THEN conjunct2] t'(1) this t'(2)]
    show False using r t'(3) by (auto simp: run_factory_def construct_default_def allocate_def inject_impl_def guard_on_def map_sum_def split: if_splits sum.splits)
  qed
  have "unbuilt S c'" if r: "resolve_step env ?rs s c = Some (r, c')" and u: "unbuilt S c" for s c r c'
    using r
  proof (cases rule: resolve_step_cases)
    case (made i c1)
    have "unbuilt S (guard_on s c)" using u by (simp add: unbuilt_def guard_on_def)
    then have u1: "unbuilt S c1" using keepsD [OF unb.keeps_factory [OF Suc [THEN conjunct2]] made(3)] by blast
    have "([], t) \<noteq> s" if "t \<in> S" for t using never [OF that u, of i c'] r made(4) by auto
    then show ?thesis using u1 made(5) by (auto simp: unbuilt_def guard_off_def store_def)
  next
    case (failed q c1)
    have "unbuilt S (guard_on s c)" using u by (simp add: unbuilt_def guard_on_def)
    then have "unbuilt S c1" using keepsD [OF unb.keeps_factory [OF Suc [THEN conjunct2]] failed(3)] by blast
    then show ?thesis using failed(5) by (simp add: unbuilt_def guard_off_def)
  qed (use u in \<open>simp_all add: unbuilt_def\<close>)
  with never show ?case by (auto simp: never_built_def keeps_all_def keeps_def)
qed

text \<open>
  Cycles are reported. When every type of a set has a pointer member to a type of the set and they are left to automatic
  construction, resolving any of them, whatever was resolved before, returns an error and never an instance:
  with a depth of the number of services, the recursion is cut off by the guard and not by the
  stack.\<close>

theorem cyclic_dependency_reported:
  assumes "cyclic_types env S" "t \<in> S" "unbuilt S c" "resolve_all m env ss c = Some c1"
    and "finite U" "([], t) \<in> U" "closed_services env U c1" "dc_resolving c = {}"
  shows "\<exists>e c'. resolve_shared_impl (card U + 1) env ([], t) c1 = Some (Inl e, c')"
proof -
  have "dc_resolving c1 = {}" using resolve_all_extends [OF assms(4)] assms(8) by (simp add: extends_def)
  from enough_depth [OF assms(5,6,7) this] obtain r c' where
    r: "resolve_shared_impl (card U + 1) env ([], t) c1 = Some (r, c')" by blast
  have "unbuilt S c1"
    using assms(4,3)
  proof (induction ss arbitrary: c)
    case (Cons s ss)
    then obtain q b where q: "resolve_shared_impl m env s c = Some (q, b)" "resolve_all m env ss b = Some c1"
      by (auto split: option.splits)
    with keeps_allD [OF cyclic_resolution [OF assms(1), THEN conjunct2] q(1)] Cons.prems(2) show ?case by (intro Cons.IH [OF q(2)]) simp
  qed simp
  then have "r \<noteq> Inr i" for i using cyclic_resolution [OF assms(1), of "card U + 1"] assms(2) r by (auto simp: never_built_def)
  then show ?thesis using r by (cases r) auto
qed

section \<open>Mount prefixes\<close>

text \<open>A prefix as the router is given it: nothing, or a path that starts with a slash, does not end with one and has no two in
  a row.\<close>

definition canonical_prefix :: "string \<Rightarrow> bool" where
  "canonical_prefix p \<longleftrightarrow> p = [] \<or> hd p = CHR ''/'' \<and> last p \<noteq> CHR ''/'' \<and> no_double_slash p"

lemma collapse_no_double:
  "no_double_slash (collapse_slashes prev s) \<and> (prev \<longrightarrow> collapse_slashes prev s = [] \<or> hd (collapse_slashes prev s) \<noteq> CHR ''/'')"
  by (induction prev s rule: collapse_slashes.induct) (auto simp: no_double_slash_Cons)

lemma collapse_id: "no_double_slash s \<Longrightarrow> prev \<longrightarrow> s = [] \<or> hd s \<noteq> CHR ''/'' \<Longrightarrow> collapse_slashes prev s = s"
  by (induction prev s rule: collapse_slashes.induct) (auto simp: no_double_slash_Cons)

lemma butlast_ends:
  "no_double_slash s \<Longrightarrow> s \<noteq> [] \<Longrightarrow> last s = CHR ''/'' \<Longrightarrow> s \<noteq> ''/'' \<Longrightarrow> butlast s \<noteq> [] \<and> last (butlast s) \<noteq> CHR ''/'' \<and> hd (butlast s) = hd s"
  by (induction s rule: no_double_slash.induct) (auto split: if_splits)

lemma canonical_kept: "canonical_prefix p \<Longrightarrow> normalize_mount_prefix p = p"
  using collapse_id [of p False] by (auto simp: canonical_prefix_def normalize_mount_prefix_def Let_def)

lemma collapse_head: "s \<noteq> [] \<Longrightarrow> hd s = CHR ''/'' \<Longrightarrow> collapse_slashes False s \<noteq> [] \<and> hd (collapse_slashes False s) = CHR ''/''"
  by (cases s) auto

text \<open>
  A controller is mounted under a canonical prefix, whatever the option or the controller's own prefix look like: nothing for the root, or a
  path with one leading slash, none at the end and no two in a row; and a prefix that is already in
  this form is used as it is, so normalising twice changes nothing.\<close>

theorem mount_prefix_canonical:
  "canonical_prefix (resolve_mount_prefix own given)
   \<and> normalize_mount_prefix (normalize_mount_prefix p) = normalize_mount_prefix p
   \<and> (canonical_prefix q \<longrightarrow> normalize_mount_prefix q = q)"
proof -
  have c: "canonical_prefix (normalize_mount_prefix p)" for p
  proof (cases "p = []")
    case False
    define n where "n = (if hd p \<noteq> CHR ''/'' then CHR ''/'' # collapse_slashes True p else collapse_slashes False p)"
    have n: "no_double_slash n" "n \<noteq> []" "hd n = CHR ''/''"
      using collapse_no_double [of True p] collapse_no_double [of False p] collapse_head [OF False]
      by (auto simp: n_def no_double_slash_Cons)
    have "normalize_mount_prefix p = (if n = ''/'' then [] else if last n = CHR ''/'' then butlast n else n)"
      using False n(2) by (simp add: normalize_mount_prefix_def n_def)
    then show ?thesis using n butlast_ends [OF n(1,2)] no_double_slash_butlast [OF n(1)] by (auto simp: canonical_prefix_def)
  qed (simp add: normalize_mount_prefix_def canonical_prefix_def)
  have "canonical_prefix (resolve_mount_prefix own given)"
    using c by (auto simp: resolve_mount_prefix_def canonical_prefix_def [of "[]"] split: option.splits)
  with c canonical_kept show ?thesis by blast
qed

section \<open>Examples\<close>

text \<open>Type 0 has no members, type 1 a shared pointer to it; 2 and 3 point to each other.\<close>

definition sample_env :: type_env where
  "sample_env t = \<lparr>td_default_constructible = True, td_aggregate = True,
     td_members = (if t = 1 then [Mem_shared 0, Mem_plain] else if t = 2 then [Mem_shared 3] else if t = 3 then [Mem_plain, Mem_pointer 2] else [])\<rparr>"

definition sample_transient :: di_container where
  "sample_transient = transient_impl ([], 7) (Fac_user [Dep_shared ([], 1)] User_makes) new_container"

definition with_instance :: "(di_error + nat) \<times> di_container \<Rightarrow> (nat \<Rightarrow> di_container \<Rightarrow> bool) \<Rightarrow> bool" where
  "with_instance r P = (case fst r of Inl e \<Rightarrow> False | Inr i \<Rightarrow> P i (snd r))"

definition if_instance :: "((di_error + nat) \<times> di_container) option \<Rightarrow> (nat \<Rightarrow> di_container \<Rightarrow> bool) \<Rightarrow> bool" where
  "if_instance x P = (case x of None \<Rightarrow> False | Some r \<Rightarrow> with_instance r P)"

lemma if_instanceE: "if_instance x P \<Longrightarrow> (\<And>i c. x = Some (Inr i, c) \<Longrightarrow> P i c \<Longrightarrow> thesis) \<Longrightarrow> thesis"
  by (cases x; cases "fst (the x)"; cases "the x") (auto simp: if_instance_def with_instance_def)

lemma sample_resolves:
  obtains c' c'' where "resolve_shared_impl 3 sample_env ([], 1) new_container = Some (Inr 0, c')"
    "resolve_all 3 sample_env [([], 0), ([], 2)] c' = Some c''"
proof -
  have "if_instance (resolve_shared_impl 3 sample_env ([], 1) new_container)
      (\<lambda>i c'. i = 0 \<and> \<not> Option.is_none (resolve_all 3 sample_env [([], 0), ([], 2)] c'))" by code_simp
  then show thesis by (elim if_instanceE conjE) (simp only: Option.is_none_def, metis not_None_eq that)
qed

theorem singleton_resolved_once_witness:
  "\<exists>c' c''. resolve_shared_impl 3 sample_env ([], 1) new_container = Some (Inr 0, c')
     \<and> resolve_all 3 sample_env [([], 0), ([], 2)] c' = Some c''
     \<and> resolve_shared_impl 1 sample_env ([], 1) c'' = Some (Inr 0, c'')"
proof -
  obtain c' c'' where c: "resolve_shared_impl 3 sample_env ([], 1) new_container = Some (Inr 0, c')"
      "resolve_all 3 sample_env [([], 0), ([], 2)] c' = Some c''"
    by (rule sample_resolves)
  have "bd_lifetime (binding_of ([], 1) new_container) = Singleton" by code_simp
  from singleton_resolved_once [OF c(1) this c(2), of 0] c show ?thesis by auto
qed

theorem transient_always_new_witness:
  "\<exists>c1 c3. resolve_shared_impl 3 sample_env ([], 7) sample_transient = Some (Inr 2, c1)
     \<and> resolve_shared_impl 3 sample_env ([], 7) c1 = Some (Inr 3, c3) \<and> (2::nat) \<noteq> 3"
proof -
  have "if_instance (resolve_shared_impl 3 sample_env ([], 7) sample_transient)
      (\<lambda>i c1. i = 2 \<and> if_instance (resolve_shared_impl 3 sample_env ([], 7) c1) (\<lambda>j c3. j = 3))" by code_simp
  then obtain c1 c3 where c: "resolve_shared_impl 3 sample_env ([], 7) sample_transient = Some (Inr 2, c1)"
      "resolve_shared_impl 3 sample_env ([], 7) c1 = Some (Inr 3, c3)"
    by (elim if_instanceE conjE) blast
  have "binding_of ([], 7) sample_transient = \<lparr>bd_lifetime = Transient, bd_factory = Fac_user [Dep_shared ([], 1)] User_makes, bd_cached = None\<rparr>"
    by code_simp
  from transient_always_new [OF this c(1) _ c(2), of 1 "[]"] c show ?thesis by auto
qed

theorem resolution_returns_witness:
  "\<exists>r c'. resolve_shared_impl 3 sample_env ([], 2) new_container = Some (r, c') \<and> dc_resolving c' = {}"
proof -
  have "closed_services sample_env {([], 2), ([], 3)} new_container"
    by (auto simp: closed_services_def needs_def binding_of_def new_container_def make_auto_binding_def sample_env_def)
  from resolution_returns [OF _ _ this, of "([], 2)"] show ?thesis by (simp add: new_container_def numeral_eq_Suc)
qed

theorem cyclic_dependency_reported_witness:
  "\<exists>e c'. resolve_shared_impl 3 sample_env ([], 3) (the (resolve_all 3 sample_env [([], 1), ([], 2)] new_container)) = Some (Inl e, c')"
proof -
  have "\<not> Option.is_none (resolve_all 3 sample_env [([], 1), ([], 2)] new_container)" by code_simp
  then obtain c1 where c1: "resolve_all 3 sample_env [([], 1), ([], 2)] new_container = Some c1" by (auto simp: Option.is_none_def)
  have "cyclic_types sample_env {2, 3}" by (simp add: cyclic_types_def sample_env_def)
  moreover have "unbuilt {2, 3} new_container" by (simp add: unbuilt_def new_container_def binding_of_def)
  moreover have "closed_services sample_env {([], 2), ([], 3)} new_container"
    by (auto simp: closed_services_def needs_def binding_of_def new_container_def make_auto_binding_def sample_env_def)
  then have "closed_services sample_env {([], 2), ([], 3)} c1" by (rule closed_extends [OF resolve_all_extends [OF c1]])
  ultimately show ?thesis
    using cyclic_dependency_reported [of sample_env "{2, 3}" 3 new_container 3 "[([], 1), ([], 2)]" c1 "{([], 2), ([], 3)}"] c1
    by (simp add: new_container_def numeral_eq_Suc)
qed

theorem mount_prefix_canonical_witness:
  "resolve_mount_prefix [] (Some ''api//v1/'') = ''/api/v1'' \<and> canonical_prefix ''/api/v1'' \<and> normalize_mount_prefix ''/api/v1'' = ''/api/v1''"
  using mount_prefix_canonical [of "[]" "Some ''api//v1/''" "''//''" "''/api/v1''"]
  by (simp add: canonical_prefix_def resolve_mount_prefix_def normalize_mount_prefix_def)

declare split_paired_All [simp] split_paired_Ex [simp]

end
