(* ===== verification/Router_Node.thy ===== *)
theory Router_Node
  imports Prelude
begin

text \<open>
  The prefix tree behind the router (\<open>layer3/include/async_uv_layer3/router_node.hpp\<close>): segment
  classification, insertion of a child with splitting of static prefixes, and the two greedy
  walks \<open>match\<close> and \<open>match_node\<close>. A node owns its children, so the tree is a datatype;
  \<open>add_child\<close> returns the updated children and the index of the node it yields. The handler map
  is an association list with one entry per key.
\<close>

datatype node_type = STATIC | PARAM | WILDCARD

datatype (node_handler: 'h) router_node =
  Node (node_prefix: string) (node_type: node_type) (param_name: string)
    (children: "'h router_node list") (handlers: "(string \<times> 'h) list")

definition root_node :: "'h router_node" where
  "root_node = Node [] STATIC [] [] []"

definition classify :: "string \<Rightarrow> node_type" where
  "classify segment =
     (if segment = [] then STATIC
      else if hd segment \<noteq> CHR ''{'' then STATIC
      else if length segment \<ge> 2 \<and> last segment = CHR ''}'' then
        (let inner = substr segment 1 (length segment - 2)
         in if inner \<noteq> [] \<and> last inner = CHR ''*'' then WILDCARD else PARAM)
      else if length segment > 1 \<and> last segment = CHR ''*'' then WILDCARD
      else PARAM)"

definition parse_param_segment :: "string \<Rightarrow> string \<times> string" where
  "parse_param_segment segment =
     (if segment = [] \<or> hd segment \<noteq> CHR ''{'' then (segment, [])
      else if length segment \<ge> 2 \<and> last segment = CHR ''}'' then
        (let inner = substr segment 1 (length segment - 2)
         in ([], if inner \<noteq> [] \<and> last inner = CHR ''*'' then butlast inner else inner))
      else if length segment > 1 \<and> last segment = CHR ''*'' then
        ([], substr segment 1 (length segment - 2))
      else case find_char CHR ''}'' segment of
             None \<Rightarrow> (segment, [])
           | Some e \<Rightarrow> ([], substr segment 1 (e - 1)))"

fun common_prefix :: "string \<Rightarrow> string \<Rightarrow> nat" where
  "common_prefix (a # as) (b # bs) = (if a = b then Suc (common_prefix as bs) else 0)"
| "common_prefix _ _ = 0"

text \<open>A static child whose prefix is longer than the common part is split in two.\<close>

definition split_child :: "nat \<Rightarrow> 'h router_node \<Rightarrow> 'h router_node" where
  "split_child common c =
     (if common < length (node_prefix c)
      then Node (take common (node_prefix c)) STATIC []
             [Node (drop common (node_prefix c)) (node_type c) (param_name c) (children c) (handlers c)] []
      else c)"

definition name_child :: "string \<Rightarrow> 'h router_node \<Rightarrow> 'h router_node" where
  "name_child name c =
     (if param_name c = [] \<and> name \<noteq> [] then Node (node_prefix c) (node_type c) name (children c) (handlers c)
      else c)"

text \<open>The loop over the children; \<open>seen\<close> are those already passed, updated.\<close>

fun add_child_loop ::
  "string \<Rightarrow> node_type \<Rightarrow> string \<Rightarrow> 'h router_node list \<Rightarrow> 'h router_node list
     \<Rightarrow> 'h router_node list \<times> nat" where
  "add_child_loop path t name seen [] = (seen @ [Node path t name [] []], length seen)"
| "add_child_loop path t name seen (c # cs) =
     (if node_type c \<noteq> t then add_child_loop path t name (seen @ [c]) cs
      else if t = PARAM \<or> t = WILDCARD then (seen @ name_child name c # cs, length seen)
      else
        let common = common_prefix (node_prefix c) path
        in if common > 0 then
             (let path' = drop common path; c' = split_child common c
              in if path' = [] then (seen @ c' # cs, length seen)
                 else add_child_loop path' t name (seen @ [c']) cs)
           else add_child_loop path t name (seen @ [c]) cs)"

definition add_child ::
  "string \<Rightarrow> node_type \<Rightarrow> string \<Rightarrow> 'h router_node list \<Rightarrow> 'h router_node list \<times> nat" where
  "add_child path t name cs = add_child_loop path t name [] cs"

section \<open>Matching\<close>

definition is_child :: "node_type \<Rightarrow> 'h router_node \<Rightarrow> bool" where
  "is_child t c \<longleftrightarrow> node_type c = t"

text \<open>\<open>try_match\<close> for each kind: the child taken, the rest of the path, the captured parameters.\<close>

definition match_static ::
  "'h router_node \<Rightarrow> string \<Rightarrow> ('h router_node \<times> string \<times> (string \<times> string) list) option" where
  "match_static node remaining =
     map_option (\<lambda>c. (c, drop (length (node_prefix c)) remaining, []))
       (List.find (\<lambda>c. is_child STATIC c \<and> prefix (node_prefix c) remaining) (children node))"

definition match_param ::
  "'h router_node \<Rightarrow> string \<Rightarrow> ('h router_node \<times> string \<times> (string \<times> string) list) option" where
  "match_param node remaining =
     (let value = (case find_char CHR ''/'' remaining of None \<Rightarrow> remaining | Some i \<Rightarrow> take i remaining)
      in map_option (\<lambda>c. (c, case find_char CHR ''/'' remaining of None \<Rightarrow> [] | Some i \<Rightarrow> drop i remaining,
                          [(param_name c, value)]))
           (List.find (\<lambda>c. is_child PARAM c \<and> value \<noteq> []) (children node)))"

definition match_wildcard ::
  "'h router_node \<Rightarrow> string \<Rightarrow> ('h router_node \<times> string \<times> (string \<times> string) list) option" where
  "match_wildcard node remaining =
     map_option (\<lambda>c. (c, [], [(param_name c, remaining)])) (List.find (is_child WILDCARD) (children node))"

definition match_step ::
  "'h router_node \<Rightarrow> string \<Rightarrow> ('h router_node \<times> string \<times> (string \<times> string) list) option" where
  "match_step node remaining =
     (case match_static node remaining of
        Some r \<Rightarrow> Some r
      | None \<Rightarrow> (case match_param node remaining of
                   Some r \<Rightarrow> Some r
                 | None \<Rightarrow> match_wildcard node remaining))"

lemma find_child_size:
  "List.find P (children n) = Some c \<Longrightarrow> size c < size n"
  by (cases n) (auto simp: find_Some_iff dest!: nth_mem size_list_estimation' [where f = size and y = "size c"]
      intro: le_imp_less_Suc)

lemma match_step_child:
  assumes "match_step node remaining = Some (c, r, ps)"
  shows "size c < size node"
  using assms find_child_size
  by (auto simp: match_step_def match_static_def match_param_def match_wildcard_def Let_def split: option.splits)

function match_walk ::
  "'h router_node \<Rightarrow> string \<Rightarrow> (string \<times> string) list \<Rightarrow> 'h router_node \<times> string \<times> (string \<times> string) list" where
  "match_walk node remaining params =
     (if remaining = [] then (node, remaining, params)
      else if hd remaining = CHR ''/'' then match_walk node (tl remaining) params
      else case match_step node remaining of
             None \<Rightarrow> (node, remaining, params)
           | Some (c, r, ps) \<Rightarrow> match_walk c r (params @ ps))"
  by pat_completeness auto
termination
  by (relation "measures [\<lambda>(n, r, p). size n, \<lambda>(n, r, p). length r]") (auto dest: match_step_child)

declare match_walk.simps [simp del]

definition node_match ::
  "string \<Rightarrow> string \<Rightarrow> 'h router_node \<Rightarrow> ('h \<times> (string \<times> string) list) option" where
  "node_match method path root =
     (case match_walk root path [] of
        (node, remaining, params) \<Rightarrow>
          if remaining = [] then
            (case map_of (handlers node) method of
               Some h \<Rightarrow> Some (h, params)
             | None \<Rightarrow> (case map_of (handlers node) ''*'' of Some h \<Rightarrow> Some (h, params) | None \<Rightarrow> None))
          else None)"

text \<open>\<open>match_node\<close> repeats the walk without parameters and returns the node.\<close>

function match_node :: "'h router_node \<Rightarrow> string \<Rightarrow> 'h router_node option" where
  "match_node node remaining =
     (if remaining = [] then Some node
      else if hd remaining = CHR ''/'' then match_node node (tl remaining)
      else
        case List.find (\<lambda>c. is_child STATIC c \<and> prefix (node_prefix c) remaining) (children node) of
          Some c \<Rightarrow> match_node c (drop (length (node_prefix c)) remaining)
        | None \<Rightarrow>
            (let slash_pos = find_char CHR ''/'' remaining;
                 value = (case slash_pos of None \<Rightarrow> remaining | Some i \<Rightarrow> take i remaining)
             in case List.find (\<lambda>c. is_child PARAM c \<and> value \<noteq> []) (children node) of
                  Some c \<Rightarrow> match_node c (case slash_pos of None \<Rightarrow> [] | Some i \<Rightarrow> drop i remaining)
                | None \<Rightarrow>
                    (case List.find (is_child WILDCARD) (children node) of
                       Some c \<Rightarrow> match_node c []
                     | None \<Rightarrow> None)))"
  by pat_completeness auto
termination
  by (relation "measures [\<lambda>(n, r). size n, \<lambda>(n, r). length r]") (auto dest: find_child_size)

declare match_node.simps [simp del]

section \<open>The two walks agree\<close>

lemma match_walk_node:
  "match_node node remaining =
     (case match_walk node remaining params of (n, r, _) \<Rightarrow> if r = [] then Some n else None)"
proof (induction node remaining params rule: match_walk.induct)
  case (1 node remaining params)
  show ?case
  proof (cases "remaining = [] \<or> hd remaining = CHR ''/''")
    case True
    with 1 show ?thesis
      by (auto simp: match_walk.simps [of node remaining] match_node.simps [of node remaining])
  next
    case False
    show ?thesis
    proof (cases "match_step node remaining")
      case None
      with False show ?thesis
        by (simp add: match_walk.simps [of node remaining] match_node.simps [of node remaining] match_step_def
            match_static_def match_param_def match_wildcard_def Let_def split: option.splits)
    next
      case (Some t)
      obtain c r ps where t: "t = (c, r, ps)" by (cases t)
      from False Some t have walk: "match_walk node remaining params = match_walk c r (params @ ps)"
        by (simp add: match_walk.simps [of node remaining])
      have "match_node node remaining = match_node c r"
        using False Some t
        by (auto simp: match_node.simps [of node remaining] match_step_def match_static_def match_param_def
            match_wildcard_def Let_def split: option.splits)
      with "1.IH"(2) False Some t walk show ?thesis by simp
    qed
  qed
qed

definition has_method :: "string \<Rightarrow> 'h router_node \<Rightarrow> bool" where
  "has_method m n \<longleftrightarrow> m \<in> fst ` set (handlers n)"

lemma node_match_iff:
  "node_match m path root \<noteq> None \<longleftrightarrow>
     (\<exists>n. match_node root path = Some n \<and> (has_method m n \<or> has_method ''*'' n))"
proof -
  obtain n r ps where w: "match_walk root path [] = (n, r, ps)" by (cases "match_walk root path []")
  have "match_node root path = (if r = [] then Some n else None)"
    using match_walk_node [of root path "[]"] by (simp add: w)
  moreover have "has_method k n \<longleftrightarrow> map_of (handlers n) k \<noteq> None" for k
    by (simp add: has_method_def map_of_eq_None_iff)
  ultimately show ?thesis by (auto simp: node_match_def w split: option.splits)
qed

section \<open>Inserting twice\<close>

lemma common_prefix_le: "common_prefix a b \<le> length a" "common_prefix a b \<le> length b"
  by (induction a b rule: common_prefix.induct) auto

lemma common_prefix_take: "common_prefix (take (common_prefix a b) a) b = common_prefix a b"
  by (induction a b rule: common_prefix.induct) auto

lemma common_prefix_self: "common_prefix a a = length a"
  by (induction a) auto

definition same_shape :: "'h router_node \<Rightarrow> 'h router_node \<Rightarrow> bool" where
  "same_shape a b \<longleftrightarrow> node_prefix a = node_prefix b \<and> node_type a = node_type b \<and> param_name a = param_name b"

text \<open>A second insertion of the same segment finds the child the first one made and changes
  nothing, even after that child's own subtree and handlers have changed.\<close>

lemma add_child_loop_bound:
  "add_child_loop path t name seen cs = (cs', i) \<Longrightarrow> length seen \<le> i \<and> i < length cs' \<and> take (length seen) cs' = seen"
proof (induction path t name seen cs rule: add_child_loop.induct)
  case (1 path t name seen)
  then show ?case by auto
next
  case (2 path t name seen c cs)
  let ?k = "common_prefix (node_prefix c) path"
  consider (other) "node_type c \<noteq> t" | (named) "node_type c = t" "t = PARAM \<or> t = WILDCARD"
    | (none) "node_type c = t" "\<not> (t = PARAM \<or> t = WILDCARD)" "?k = 0"
    | (hit) "node_type c = t" "\<not> (t = PARAM \<or> t = WILDCARD)" "0 < ?k" "drop ?k path = []"
    | (on) "node_type c = t" "\<not> (t = PARAM \<or> t = WILDCARD)" "0 < ?k" "drop ?k path \<noteq> []" by fastforce
  then show ?case
  proof cases
    case other
    with 2 show ?thesis by (fastforce dest: arg_cong [where f = "take (length seen)"])
  next
    case named
    with 2 show ?thesis by (auto simp del: add_child_loop.simps simp: add_child_loop.simps(2))
  next
    case none
    with 2 show ?thesis by (fastforce simp: Let_def dest: arg_cong [where f = "take (length seen)"])
  next
    case hit
    with 2 show ?thesis by (auto simp: Let_def)
  next
    case on
    with 2 show ?thesis by (fastforce simp: Let_def dest: arg_cong [where f = "take (length seen)"])
  qed
qed

lemma split_child_shape:
  assumes "k = common_prefix (node_prefix c) path" and "node_type c = STATIC"
    and "same_shape n (split_child k c)"
  shows "node_type n = STATIC" "common_prefix (node_prefix n) path = k" "split_child k n = n"
  using assms common_prefix_take [of "node_prefix c" path] common_prefix_le(1) [of "node_prefix c" path]
  by (auto simp: same_shape_def split_child_def split: if_splits)

lemma same_shape_refl [simp]: "same_shape n n"
  by (simp add: same_shape_def)

lemma drop_list_update_Cons:
  assumes "Suc k \<le> i" and "i < length xs" and "take (Suc k) xs = ys @ [y]" and "length ys = k"
  shows "drop k (xs[i := n]) = y # drop (Suc k) (xs[i := n])"
proof -
  have "xs ! k = y" using assms by (metis append_eq_conv_conj lessI nth_append_length nth_take)
  then show ?thesis using assms by (simp add: Cons_nth_drop_Suc [symmetric])
qed

lemma add_child_loop_again:
  assumes "add_child_loop path t name seen cs = (cs', i)" and "same_shape n (cs' ! i)"
    and "length seen' = length seen" and "t = STATIC \<Longrightarrow> path \<noteq> []"
  shows "add_child_loop path t name seen' (drop (length seen) (cs'[i := n]))
         = (seen' @ drop (length seen) (cs'[i := n]), i)"
  using assms
proof (induction path t name seen cs arbitrary: seen' rule: add_child_loop.induct)
  case (1 path t name seen)
  from "1.prems"(1) have i: "cs' = seen @ [Node path t name [] []]" "i = length seen" by auto
  from "1.prems"(2) have "drop (length seen) (cs'[i := n]) = [n]" "same_shape n (Node path t name [] [])"
    by (simp_all add: i)
  with "1.prems"(3,4) i(2) show ?case
    by (cases t) (simp_all add: same_shape_def name_child_def common_prefix_self split_child_def Let_def)
next
  case (2 path t name seen c cs)
  let ?k = "common_prefix (node_prefix c) path"
  have pass: "drop (length seen) (cs'[i := n]) = d # drop (Suc (length seen)) (cs'[i := n])"
    if "add_child_loop p t name (seen @ [d]) cs = (cs', i)" for p d
    using add_child_loop_bound [OF that] by (intro drop_list_update_Cons [where ys = seen]) auto
  consider (other) "node_type c \<noteq> t" | (named) "node_type c = t" "t = PARAM \<or> t = WILDCARD"
    | (none) "node_type c = t" "t = STATIC" "?k = 0"
    | (hit) "node_type c = t" "t = STATIC" "0 < ?k" "drop ?k path = []"
    | (on) "node_type c = t" "t = STATIC" "0 < ?k" "drop ?k path \<noteq> []" by (cases t) fastforce+
  then show ?case
  proof cases
    case other
    with "2.prems"(1) have eq: "add_child_loop path t name (seen @ [c]) cs = (cs', i)" by simp
    from "2.IH"(1) [OF other eq "2.prems"(2), of "seen' @ [c]"] "2.prems"(3,4) other pass [OF eq]
    show ?thesis by simp
  next
    case named
    with "2.prems" have "cs' = seen @ name_child name c # cs" "i = length seen" by auto
    moreover from this "2.prems"(2) have "name_child name n = n" "node_type n = t"
      using named by (auto simp: same_shape_def name_child_def split: if_splits)
    ultimately show ?thesis using named "2.prems"(3) by auto
  next
    case none
    with "2.prems"(1) have eq: "add_child_loop path t name (seen @ [c]) cs = (cs', i)" by (simp add: Let_def)
    from "2.IH"(3) [OF _ _ refl _ eq "2.prems"(2), of "seen' @ [c]"] "2.prems"(3,4) none pass [OF eq]
    show ?thesis by (simp add: Let_def)
  next
    case hit
    with "2.prems" have cs': "cs' = seen @ split_child ?k c # cs" "i = length seen" by (auto simp: Let_def)
    with "2.prems"(2) have "same_shape n (split_child ?k c)" by simp
    from split_child_shape [OF refl _ this] hit cs' "2.prems"(3) show ?thesis by (simp add: Let_def)
  next
    case on
    let ?c = "split_child ?k c"
    from on "2.prems"(1) have eq: "add_child_loop (drop ?k path) t name (seen @ [?c]) cs = (cs', i)"
      by (simp add: Let_def)
    from "2.IH"(2) [OF _ _ refl _ refl refl _ eq "2.prems"(2), of "seen' @ [?c]"] "2.prems"(3,4) on
    have "add_child_loop (drop ?k path) t name (seen' @ [?c]) (drop (Suc (length seen)) (cs'[i := n]))
      = ((seen' @ [?c]) @ drop (Suc (length seen)) (cs'[i := n]), i)" by simp
    with split_child_shape [OF refl _ same_shape_refl, of c path] on pass [OF eq] show ?thesis
      by (simp add: Let_def)
  qed
qed

lemma add_child_again:
  assumes "add_child path t name cs = (cs', i)" and "same_shape n (cs' ! i)"
    and "t = STATIC \<Longrightarrow> path \<noteq> []"
  shows "add_child path t name (cs'[i := n]) = (cs'[i := n], i)" and "i < length cs'"
  using add_child_loop_again [of path t name "[]" cs cs' i n "[]"] add_child_loop_bound [of path t name "[]" cs cs' i] assms
  by (simp_all add: add_child_def)

end
