(* ===== verification/Http_Parser.thy ===== *)
theory Http_Parser
  imports Http_Types
begin

text \<open>
  \<open>flux::http::HttpParser\<close> (\<open>layer2/src/parser.cpp\<close>): an incremental parser around Boost.Beast.
  The repository's own part finds the head, enforces the limits, splits the header fields and
  the chunk trailers, spills large bodies to temporary files and queues finished messages.
  Beast itself is the parameter \<open>beast\<close>: what \<open>parser.put\<close> reports on a buffer.
  File writes go to a map of paths to contents and are assumed to succeed. The counter that
  numbers the temporary files is a static variable of the process; the model keeps it with the
  files in the parser's state.
\<close>

section \<open>Options and errors\<close>

datatype parse_mode = Mode_request | Mode_response | Mode_both

datatype parse_error_kind =
  PK_unknown | PK_runtime_missing | PK_protocol | PK_header_count_exceeded
  | PK_header_line_too_long | PK_start_line_too_long

text \<open>What \<open>feed\<close> can throw: a \<open>ParseError\<close>, or \<open>std::out_of_range\<close> from \<open>substr\<close>.\<close>

datatype parser_exn = ParseError string int parse_error_kind | OutOfRange

record parser_options =
  po_max_body_in_memory :: nat
  po_temp_directory :: "string option"
  po_max_header_count :: nat
  po_max_header_line_size :: nat
  po_max_start_line_size :: nat

definition default_parser_options :: parser_options where
  "default_parser_options = \<lparr>po_max_body_in_memory = 4 * 1024 * 1024, po_temp_directory = None,
     po_max_header_count = 512, po_max_header_line_size = 16 * 1024,
     po_max_start_line_size = 8 * 1024\<rparr>"

definition protocol_error :: "string \<Rightarrow> parse_error_kind \<Rightarrow> parser_exn" where
  "protocol_error msg kind = ParseError msg (- 1) kind"

definition trim_copy :: "string \<Rightarrow> string" where
  "trim_copy = strip_by isspace"

definition exceeds_limit :: "nat \<Rightarrow> nat \<Rightarrow> bool" where
  "exceeds_limit limit value \<longleftrightarrow> limit > 0 \<and> value > limit"

section \<open>Header lookup in a message\<close>

fun message_header :: "headers \<Rightarrow> string \<Rightarrow> string option" where
  "message_header [] name = None"
| "message_header (h # hs) name =
     (if to_upper (h_name h) = to_upper name then Some (h_value h) else message_header hs name)"

definition header_values :: "headers \<Rightarrow> string \<Rightarrow> string list" where
  "header_values hs name = map h_value (filter (\<lambda>h. to_upper (h_name h) = to_upper name) hs)"

definition message_trailer :: "http_message \<Rightarrow> string \<Rightarrow> string option" where
  "message_trailer m name = message_header (hm_trailers m) name"

definition trailer_values :: "http_message \<Rightarrow> string \<Rightarrow> string list" where
  "trailer_values m name = header_values (hm_trailers m) name"

interpretation message: header_lookup message_header
  by unfold_locales (auto simp: same_name_def to_upper_eq_iff_to_lower_eq)

lemma message_header_hd_values:
  "message_header hs n = (case header_values hs n of [] \<Rightarrow> None | v # _ \<Rightarrow> Some v)"
  by (induction hs) (auto simp: header_values_def)

section \<open>Header fields\<close>

definition parse_header_line ::
  "parser_options \<Rightarrow> string \<Rightarrow> parse_error_kind \<Rightarrow> parser_exn + http_header" where
  "parse_header_line opts line kind =
     (if exceeds_limit (po_max_header_line_size opts) (length line) then
        Inl (protocol_error ''header line exceeds parser max_header_line_size'' kind)
      else case find_char CHR '':'' line of
             None \<Rightarrow> Inl (protocol_error ''invalid header line'' PK_protocol)
           | Some colon \<Rightarrow>
               if colon = 0 then Inl (protocol_error ''invalid header line'' PK_protocol)
               else
                 let name = trim_copy (take colon line);
                     value = trim_copy (drop (Suc colon) line)
                 in if name = [] then Inl (protocol_error ''invalid header name'' PK_protocol)
                    else Inr (mk_header name value))"

definition validate_start_line ::
  "parser_options \<Rightarrow> parse_mode \<Rightarrow> string \<Rightarrow> bool \<Rightarrow> parser_exn option" where
  "validate_start_line opts mode line is_response =
     (if exceeds_limit (po_max_start_line_size opts) (length line) then
        Some (protocol_error ''start line exceeds parser max_start_line_size'' PK_start_line_too_long)
      else if mode = Mode_request \<and> is_response then
        Some (protocol_error ''response message is not allowed in request mode'' PK_protocol)
      else if mode = Mode_response \<and> \<not> is_response then
        Some (protocol_error ''request message is not allowed in response mode'' PK_protocol)
      else None)"

text \<open>One header line added to the output, with the running count of fields.\<close>

definition add_header_line ::
  "parser_options \<Rightarrow> string \<Rightarrow> headers \<Rightarrow> nat \<Rightarrow> parser_exn + (headers \<times> nat)" where
  "add_header_line opts line out count =
     (if exceeds_limit (po_max_header_count opts) (count + 1) then
        Inl (protocol_error ''header count exceeds parser max_header_count'' PK_header_count_exceeded)
      else case parse_header_line opts line PK_header_line_too_long of
             Inl e \<Rightarrow> Inl e
           | Inr h \<Rightarrow> Inr (out @ [h], count + 1))"

function parse_initial_headers ::
  "parser_options \<Rightarrow> string \<Rightarrow> headers \<Rightarrow> nat \<Rightarrow> parser_exn + (headers \<times> nat)" where
  "parse_initial_headers opts block out count =
     (if block = [] then Inr (out, count)
      else case find_str CRLF block of
             None \<Rightarrow> add_header_line opts block out count
           | Some e \<Rightarrow>
               (case (if e = 0 then Inr (out, count) else add_header_line opts (take e block) out count) of
                  Inl err \<Rightarrow> Inl err
                | Inr (out', count') \<Rightarrow> parse_initial_headers opts (drop (e + 2) block) out' count'))"
  by pat_completeness auto
termination
  by (relation "measure (\<lambda>(opts, block, out, count). length block)")
     (auto dest!: find_str_bound)

declare parse_initial_headers.simps [simp del]

definition headers_indicate_chunked :: "headers \<Rightarrow> bool" where
  "headers_indicate_chunked hs \<longleftrightarrow>
     (\<exists>h \<in> set hs. to_lower (h_name h) = ''transfer-encoding''
        \<and> find_str ''chunked'' (to_lower (h_value h)) \<noteq> None)"

section \<open>Chunk trailers\<close>

text \<open>\<open>std::stoull(text, nullptr, 16)\<close>: white space, a sign, \<open>0x\<close>, then as many hexadecimal
  digits as there are; \<open>None\<close> for either exception. A minus sign negates modulo \<open>2\<^sup>6\<^sup>4\<close>.\<close>

definition strip_0x :: "string \<Rightarrow> string" where
  "strip_0x s =
     (case s of
        a # x # c # r \<Rightarrow>
          if a = CHR ''0'' \<and> (x = CHR ''x'' \<or> x = CHR ''X'') \<and> digit_value c \<noteq> None then c # r else s
      | _ \<Rightarrow> s)"

definition stoull16 :: "string \<Rightarrow> nat option" where
  "stoull16 text =
     (let s1 = dropWhile isspace text;
          neg = (s1 \<noteq> [] \<and> hd s1 = CHR ''-'');
          s2 = (if s1 \<noteq> [] \<and> (hd s1 = CHR ''-'' \<or> hd s1 = CHR ''+'') then tl s1 else s1);
          ds = takeWhile (\<lambda>c. digit_value c \<noteq> None) (strip_0x s2);
          v = digits_value 16 ds
      in if ds = [] \<or> 2 ^ 64 \<le> v then None
         else Some (if neg then (2 ^ 64 - v) mod 2 ^ 64 else v))"

function parse_trailers ::
  "parser_options \<Rightarrow> string \<Rightarrow> nat \<Rightarrow> headers \<Rightarrow> nat \<Rightarrow> parser_exn + (headers \<times> nat)" where
  "parse_trailers opts raw pos out count =
     (case find_str_from CRLF raw pos of
        None \<Rightarrow> Inl (protocol_error ''invalid trailer line'' PK_protocol)
      | Some e \<Rightarrow>
          if e = pos then Inr (out, count)
          else case add_header_line opts (substr raw pos (e - pos)) out count of
                 Inl err \<Rightarrow> Inl err
               | Inr (out', count') \<Rightarrow> parse_trailers opts raw (e + 2) out' count')"
  by pat_completeness auto
termination
  by (relation "measure (\<lambda>(opts, raw, pos, out, count). Suc (length raw) - pos)")
     (auto dest!: find_str_from_bound)

declare parse_trailers.simps [simp del]

text \<open>The chunk size of a size line, with the checks on that line.\<close>

definition parse_chunk_size :: "parser_options \<Rightarrow> string \<Rightarrow> parser_exn + nat" where
  "parse_chunk_size opts size_line =
     (if exceeds_limit (po_max_header_line_size opts) (length size_line) then
        Inl (protocol_error ''header line exceeds parser max_header_line_size'' PK_header_line_too_long)
      else
        let hex_text = trim_copy (case find_char CHR '';'' size_line of
                                    None \<Rightarrow> size_line | Some i \<Rightarrow> take i size_line)
        in if hex_text = [] then Inl (protocol_error ''invalid chunk size line'' PK_protocol)
           else case stoull16 hex_text of
                  None \<Rightarrow> Inl (protocol_error ''invalid chunk size'' PK_protocol)
                | Some n \<Rightarrow> Inr n)"

text \<open>Positions are \<open>std::size_t\<close>: the additions wrap at \<open>2\<^sup>6\<^sup>4\<close>. \<open>None\<close> is a loop that does
  not end.\<close>

partial_function (option) parse_chunked_trailers ::
  "parser_options \<Rightarrow> string \<Rightarrow> nat \<Rightarrow> nat \<Rightarrow> (parser_exn + (headers \<times> nat)) option" where
  "parse_chunked_trailers opts raw pos count =
     (case find_str_from CRLF raw pos of
        None \<Rightarrow> Some (Inl (protocol_error ''invalid chunk size line'' PK_protocol))
      | Some e \<Rightarrow>
          (case parse_chunk_size opts (substr raw pos (e - pos)) of
             Inl err \<Rightarrow> Some (Inl err)
           | Inr n \<Rightarrow>
               if n = 0 then Some (parse_trailers opts raw (e + 2) [] count)
               else if length raw < (e + 2 + n + 2) mod 2 ^ 64 then
                 Some (Inl (protocol_error ''incomplete chunk data'' PK_protocol))
               else
                 (let pos' = (e + 2 + n) mod 2 ^ 64 in
                  if length raw < pos' then Some (Inl OutOfRange)
                  else if substr raw pos' 2 \<noteq> CRLF then
                    Some (Inl (protocol_error ''invalid chunk delimiter'' PK_protocol))
                  else parse_chunked_trailers opts raw (pos' + 2) count)))"

section \<open>Messages\<close>

datatype beast_ec = Ec_none | Ec_need_more | Ec_other int

record beast_message =
  bm_version :: int
  bm_method :: string
  bm_target :: string
  bm_status :: int
  bm_reason :: string
  bm_body :: string

record beast_result =
  br_consumed :: nat
  br_ec :: beast_ec
  br_done :: bool
  br_message :: beast_message

text \<open>\<open>parser<IsRequest>::put\<close> on a whole buffer, with \<open>eager(true)\<close>.\<close>

type_synonym beast = "bool \<Rightarrow> string \<Rightarrow> beast_result"

record parser_state =
  ps_mode :: parse_mode
  ps_options :: parser_options
  ps_ready :: "http_message list"
  ps_pending :: string
  ps_temp_dir :: string
  ps_temp_dir_ready :: bool
  ps_seq :: nat
  ps_files :: "string \<rightharpoonup> string"

definition new_parser :: "parse_mode \<Rightarrow> parser_options \<Rightarrow> parser_state" where
  "new_parser mode opts = \<lparr>ps_mode = mode, ps_options = opts, ps_ready = [], ps_pending = [],
     ps_temp_dir = ''.'', ps_temp_dir_ready = False, ps_seq = 0, ps_files = Map.empty\<rparr>"

definition path_join :: "string \<Rightarrow> string \<Rightarrow> string" where
  "path_join dir file =
     (if dir = [] \<or> last dir = CHR ''/'' then dir @ file else dir @ CHR ''/'' # file)"

definition create_temp_file_path :: "parser_state \<Rightarrow> string \<times> parser_state" where
  "create_temp_file_path st =
     (path_join (ps_temp_dir st) (''flux_http_parser_'' @ dec_of_nat (ps_seq st) @ ''.tmp''),
      st\<lparr>ps_seq := ps_seq st + 1\<rparr>)"

definition attach_body ::
  "http_message \<Rightarrow> string \<Rightarrow> parser_state \<Rightarrow> http_message \<times> parser_state" where
  "attach_body m body st =
     (let m1 = m\<lparr>hm_body_size := length body\<rparr> in
      if \<not> exceeds_limit (po_max_body_in_memory (ps_options st)) (length body) then
        (m1\<lparr>hm_body := body\<rparr>, st)
      else
        let (path, st1) = create_temp_file_path st
        in (m1\<lparr>hm_body := [], hm_body_file := Some path\<rparr>,
            st1\<lparr>ps_files := (ps_files st1)(path \<mapsto> body)\<rparr>))"

definition fill_message :: "bool \<Rightarrow> headers \<Rightarrow> beast_message \<Rightarrow> http_message" where
  "fill_message is_request hs bm =
     empty_message\<lparr>hm_is_request := is_request,
       hm_major := bm_version bm div 10, hm_minor := bm_version bm mod 10,
       hm_method := (if is_request then bm_method bm else []),
       hm_url := (if is_request then bm_target bm else []),
       hm_status_code := (if is_request then 0 else bm_status bm),
       hm_reason := (if is_request then [] else bm_reason bm),
       hm_headers := hs\<rparr>"

definition message_trailers ::
  "parser_options \<Rightarrow> headers \<Rightarrow> string \<Rightarrow> nat \<Rightarrow> nat
     \<Rightarrow> (parser_exn + (headers \<times> nat)) option" where
  "message_trailers opts hs raw body_offset count =
     (if headers_indicate_chunked hs then parse_chunked_trailers opts raw body_offset count
      else Some (Inr ([], count)))"

definition parse_with_beast ::
  "beast \<Rightarrow> bool \<Rightarrow> nat \<Rightarrow> headers \<Rightarrow> nat \<Rightarrow> parser_state
     \<Rightarrow> ((parser_exn + http_message option) \<times> parser_state) option" where
  "parse_with_beast beast is_request count hs body_offset st =
     (let r = beast is_request (ps_pending st) in
      if br_ec r = Ec_need_more \<or> \<not> br_done r then Some (Inr None, st)
      else case br_ec r of
             Ec_other code \<Rightarrow> Some (Inl (ParseError ''invalid HTTP message'' code PK_protocol), st)
           | _ \<Rightarrow>
               (case message_trailers (ps_options st) hs (take (br_consumed r) (ps_pending st))
                       body_offset count of
                  None \<Rightarrow> None
                | Some (Inl e) \<Rightarrow> Some (Inl e, st)
                | Some (Inr (trailers, _)) \<Rightarrow>
                    (let (m, st1) =
                       attach_body ((fill_message is_request hs (br_message r))\<lparr>hm_trailers := trailers\<rparr>)
                         (bm_body (br_message r)) st
                     in Some (Inr (Some m),
                              st1\<lparr>ps_pending := drop (br_consumed r) (ps_pending st1)\<rparr>))))"

definition try_parse_message ::
  "beast \<Rightarrow> parser_state \<Rightarrow> ((parser_exn + http_message option) \<times> parser_state) option" where
  "try_parse_message beast st =
     (case find_str (CRLF @ CRLF) (ps_pending st) of
        None \<Rightarrow>
          if ps_mode st = Mode_response \<and> length (ps_pending st) \<ge> 5
             \<and> take 5 (ps_pending st) \<noteq> ''HTTP/''
          then Some (Inl (protocol_error ''invalid response start line'' PK_protocol), st)
          else Some (Inr None, st)
      | Some header_end \<Rightarrow>
          (let head = take header_end (ps_pending st);
               first = find_str CRLF head;
               start_line = (case first of None \<Rightarrow> head | Some i \<Rightarrow> take i head);
               is_response = prefix ''HTTP/'' start_line
           in case validate_start_line (ps_options st) (ps_mode st) start_line is_response of
                Some e \<Rightarrow> Some (Inl e, st)
              | None \<Rightarrow>
                  (case (case first of
                           None \<Rightarrow> Inr ([], 0)
                         | Some i \<Rightarrow> parse_initial_headers (ps_options st) (drop (i + 2) head) [] 0) of
                     Inl e \<Rightarrow> Some (Inl e, st)
                   | Inr (hs, count) \<Rightarrow>
                       parse_with_beast beast (\<not> is_response) count hs (header_end + 4) st)))"

partial_function (option) feed_loop ::
  "beast \<Rightarrow> parser_state \<Rightarrow> ((parser_exn + unit) \<times> parser_state) option" where
  "feed_loop beast st =
     (case try_parse_message beast st of
        None \<Rightarrow> None
      | Some (Inl e, st') \<Rightarrow> Some (Inl e, st')
      | Some (Inr None, st') \<Rightarrow> Some (Inr (), st')
      | Some (Inr (Some m), st') \<Rightarrow> feed_loop beast (st'\<lparr>ps_ready := ps_ready st' @ [m]\<rparr>))"

text \<open>\<open>Fs::temp_directory\<close> and \<open>Fs::current_directory\<close>: \<open>None\<close> when the call throws.\<close>

record fs_env =
  fe_temp_directory :: "string option"
  fe_current_directory :: "string option"

definition ensure_temp_dir_ready :: "fs_env \<Rightarrow> parser_state \<Rightarrow> parser_state" where
  "ensure_temp_dir_ready env st =
     (if ps_temp_dir_ready st then st
      else st\<lparr>ps_temp_dir_ready := True,
              ps_temp_dir :=
                (case po_temp_directory (ps_options st) of
                   Some d \<Rightarrow> d
                 | None \<Rightarrow> (case fe_temp_directory env of
                              Some d \<Rightarrow> d
                            | None \<Rightarrow> (case fe_current_directory env of
                                         Some d \<Rightarrow> d | None \<Rightarrow> ''.'')))\<rparr>)"

definition feed ::
  "beast \<Rightarrow> fs_env \<Rightarrow> bool \<Rightarrow> string \<Rightarrow> parser_state
     \<Rightarrow> ((parser_exn + unit) \<times> parser_state) option" where
  "feed beast env has_runtime chunk st =
     (if \<not> has_runtime then
        Some (Inl (ParseError ''http parser feed requires current runtime'' (- 10) PK_runtime_missing), st)
      else
        let st1 = ensure_temp_dir_ready env st
        in feed_loop beast (st1\<lparr>ps_pending := ps_pending st1 @ chunk\<rparr>))"

definition has_message :: "parser_state \<Rightarrow> bool" where
  "has_message st \<longleftrightarrow> ps_ready st \<noteq> []"

definition next_message :: "parser_state \<Rightarrow> http_message option \<times> parser_state" where
  "next_message st =
     (case ps_ready st of [] \<Rightarrow> (None, st) | m # ms \<Rightarrow> (Some m, st\<lparr>ps_ready := ms\<rparr>))"

definition parser_reset :: "parser_state \<Rightarrow> parser_state" where
  "parser_reset st = st\<lparr>ps_ready := [], ps_pending := [], ps_temp_dir_ready := False,
     ps_temp_dir := ''.''\<rparr>"

fun drain_messages :: "nat \<Rightarrow> parser_state \<Rightarrow> http_message list \<times> parser_state" where
  "drain_messages 0 st = ([], st)"
| "drain_messages (Suc n) st =
     (case next_message st of
        (None, st') \<Rightarrow> ([], st')
      | (Some m, st') \<Rightarrow> let (ms, st'') = drain_messages n st' in (m # ms, st''))"

definition parse_first_message ::
  "beast \<Rightarrow> fs_env \<Rightarrow> string \<Rightarrow> parse_mode \<Rightarrow> (parser_exn + http_message option) option" where
  "parse_first_message beast env raw mode =
     (case feed beast env True raw (new_parser mode default_parser_options) of
        None \<Rightarrow> None
      | Some (Inl e, _) \<Rightarrow> Some (Inl e)
      | Some (Inr _, st) \<Rightarrow> Some (Inr (fst (next_message st))))"

definition parse_all_messages ::
  "beast \<Rightarrow> fs_env \<Rightarrow> string \<Rightarrow> parse_mode \<Rightarrow> (parser_exn + http_message list) option" where
  "parse_all_messages beast env raw mode =
     (case feed beast env True raw (new_parser mode default_parser_options) of
        None \<Rightarrow> None
      | Some (Inl e, _) \<Rightarrow> Some (Inl e)
      | Some (Inr _, st) \<Rightarrow> Some (Inr (fst (drain_messages (length (ps_ready st)) st))))"

section \<open>Reading back numbers and lines\<close>

lemma stoull16_digits:
  assumes "s \<noteq> []" and "\<forall>c \<in> set s. digit_value c \<noteq> None" and "digits_value 16 s < 2 ^ 64"
  shows "stoull16 s = Some (digits_value 16 s)"
proof -
  from assms(1,2) obtain a r where s: "s = a # r" and a: "digit_value a \<noteq> None" by (cases s) auto
  have "dropWhile isspace s = s" using digit_value_class(1) [OF a] by (simp add: s)
  moreover have "hd s \<noteq> CHR ''-''" "hd s \<noteq> CHR ''+''" using digit_value_class [OF a] by (auto simp: s)
  moreover have "strip_0x s = s"
    using assms(2) digit_value_class(4,5) unfolding strip_0x_def by (fastforce split: list.splits)
  moreover have "takeWhile (\<lambda>c. digit_value c \<noteq> None) s = s" using assms(2) by simp
  ultimately show ?thesis
    using assms(1,3) unfolding stoull16_def Let_def by (simp only: simp_thms if_False not_less [symmetric])
qed

lemma stoull16_hex: "n < 2 ^ 64 \<Longrightarrow> stoull16 (hex_of_nat n) = Some n"
  using stoull16_digits [of "hex_of_nat n"] render_base_hex_digits [of 16]
  by (simp add: digits_value_render_base)

lemma parse_chunk_size_hex:
  assumes "n < 2 ^ 64"
    and "po_max_header_line_size opts = 0 \<or> 16 \<le> po_max_header_line_size opts"
  shows "parse_chunk_size opts (hex_of_nat n) = Inr n"
proof -
  have dv: "\<forall>c \<in> set (hex_of_nat n). digit_value c \<noteq> None" using render_base_hex_digits [of 16] by simp
  have "length (hex_of_nat n) \<le> 16" using length_render_base [of 16 16 n] assms(1) by simp
  then have "\<not> exceeds_limit (po_max_header_line_size opts) (length (hex_of_nat n))"
    using assms(2) by (auto simp: exceeds_limit_def)
  moreover have "find_char CHR '';'' (hex_of_nat n) = None"
    using dv digit_value_class(6) by (auto simp: find_char_None)
  moreover have "trim_copy (hex_of_nat n) = hex_of_nat n"
    using dv digit_value_class(1) by (auto simp: trim_copy_def intro: strip_by_unchanged)
  ultimately show ?thesis
    using stoull16_hex [OF assms(1)] by (simp add: parse_chunk_size_def Let_def)
qed

lemma find_crlf: "CR \<notin> set xs \<Longrightarrow> find_str CRLF (xs @ CRLF @ ys) = Some (length xs)"
  using find_str_append [of CR xs "[LF]" ys] by simp

lemma find_crlf_from:
  assumes "CR \<notin> set xs"
  shows "find_str_from CRLF (pre @ xs @ CRLF @ ys) (length pre) = Some (length pre + length xs)"
  using find_crlf [OF assms, of ys] by (simp add: find_str_from_def)

section \<open>Limits\<close>

definition within_limits :: "parser_options \<Rightarrow> headers \<Rightarrow> bool" where
  "within_limits opts hs \<longleftrightarrow>
     (po_max_header_count opts > 0 \<longrightarrow> length hs \<le> po_max_header_count opts)
     \<and> (\<forall>h \<in> set hs. h_name h \<noteq> [] \<and> trim_copy (h_name h) = h_name h
          \<and> trim_copy (h_value h) = h_value h \<and> CHR '':'' \<notin> set (h_name h)
          \<and> (po_max_header_line_size opts > 0 \<longrightarrow>
               length (h_name h) + length (h_value h) < po_max_header_line_size opts))"

lemma set_strip_by: "set (strip_by P s) \<subseteq> set s"
  unfolding strip_by_def by (metis set_dropWhileD set_rev subsetI)

lemma parse_header_line_ok:
  assumes "parse_header_line opts line kind = Inr h"
  shows "h_name h \<noteq> []" "trim_copy (h_name h) = h_name h" "trim_copy (h_value h) = h_value h"
    "CHR '':'' \<notin> set (h_name h)"
    "po_max_header_line_size opts > 0 \<Longrightarrow>
       length (h_name h) + length (h_value h) < po_max_header_line_size opts"
proof -
  from assms obtain colon where c: "find_char CHR '':'' line = Some colon"
    and h: "h = mk_header (trim_copy (take colon line)) (trim_copy (drop (Suc colon) line))"
    and ne: "trim_copy (take colon line) \<noteq> []"
    and lim: "\<not> exceeds_limit (po_max_header_line_size opts) (length line)"
    by (auto simp: parse_header_line_def Let_def split: if_splits option.splits)
  show "h_name h \<noteq> []" "trim_copy (h_name h) = h_name h" "trim_copy (h_value h) = h_value h"
    using h ne by (simp_all add: trim_copy_def strip_by_idem)
  show "CHR '':'' \<notin> set (h_name h)"
    using c h set_strip_by [of isspace "take colon line"] by (auto simp: find_char_Some trim_copy_def)
  assume pos: "po_max_header_line_size opts > 0"
  have "length (h_name h) \<le> colon" "length (h_value h) \<le> length line - Suc colon"
    using h length_strip_by [of isspace "take colon line"]
      length_strip_by [of isspace "drop (Suc colon) line"] by (auto simp: trim_copy_def)
  moreover have "colon < length line" using c by (simp add: find_char_Some)
  ultimately show "length (h_name h) + length (h_value h) < po_max_header_line_size opts"
    using lim pos by (auto simp: exceeds_limit_def)
qed

lemma add_header_line_ok:
  assumes "add_header_line opts line out count = Inr (out', count')"
    and "within_limits opts out" and "length out \<le> count"
  shows "within_limits opts out' \<and> length out' \<le> count' \<and> count' = Suc count
         \<and> (po_max_header_count opts > 0 \<longrightarrow> count' \<le> po_max_header_count opts)"
  using assms parse_header_line_ok
  by (auto simp: add_header_line_def within_limits_def exceeds_limit_def
      split: if_splits sum.splits)

lemma parse_initial_headers_ok:
  assumes "parse_initial_headers opts block out count = Inr (hs, n)"
    and "within_limits opts out" and "length out \<le> count"
  shows "within_limits opts hs \<and> length hs \<le> n"
  using assms
proof (induction opts block out count rule: parse_initial_headers.induct)
  case (1 opts block out count)
  show ?case
  proof (cases "block = []")
    case True
    with "1.prems" show ?thesis by (simp add: parse_initial_headers.simps)
  next
    case ne: False
    show ?thesis
    proof (cases "find_str CRLF block")
      case None
      with ne "1.prems" show ?thesis
        by (auto simp: parse_initial_headers.simps [of opts block] dest: add_header_line_ok)
    next
      case (Some e)
      from ne Some "1.prems"(1) obtain out' count' where
        step: "(if e = 0 then Inr (out, count) else add_header_line opts (take e block) out count)
          = Inr (out', count')"
        and rec: "parse_initial_headers opts (drop (e + 2) block) out' count' = Inr (hs, n)"
        by (auto simp: parse_initial_headers.simps [of opts block] split: sum.splits if_splits)
      have "within_limits opts out' \<and> length out' \<le> count'"
        using step "1.prems"(2,3) by (auto split: if_splits dest: add_header_line_ok)
      with "1.IH" [OF ne Some step refl rec] show ?thesis by blast
    qed
  qed
qed

lemma parse_trailers_ok:
  assumes "parse_trailers opts raw pos out count = Inr (hs, n)"
    and "within_limits opts out" and "length out \<le> count"
  shows "within_limits opts hs"
  using assms
proof (induction opts raw pos out count rule: parse_trailers.induct)
  case (1 opts raw pos out count)
  then obtain e where e: "find_str_from CRLF raw pos = Some e"
    by (auto simp: parse_trailers.simps [of opts raw pos] split: option.splits)
  show ?case
  proof (cases "e = pos")
    case True
    with e "1.prems" show ?thesis by (simp add: parse_trailers.simps [of opts raw pos])
  next
    case False
    with e "1.prems"(1) obtain out' count' where
      step: "add_header_line opts (substr raw pos (e - pos)) out count = Inr (out', count')"
      and rec: "parse_trailers opts raw (e + 2) out' count' = Inr (hs, n)"
      by (auto simp: parse_trailers.simps [of opts raw pos] split: sum.splits)
    from add_header_line_ok [OF step "1.prems"(2,3)] "1.IH" [OF e False step refl rec]
    show ?thesis by blast
  qed
qed

lemma parse_chunked_trailers_ok:
  assumes "parse_chunked_trailers opts raw pos count = Some (Inr (hs, n))"
  shows "within_limits opts hs"
proof -
  have "\<forall>hs n. r = Inr (hs, n) \<longrightarrow> within_limits opts hs"
    if "parse_chunked_trailers opts raw pos count = Some r" for r
  proof (rule parse_chunked_trailers.raw_induct
      [where P = "\<lambda>opts raw pos count r. \<forall>hs n. r = Inr (hs, n) \<longrightarrow> within_limits opts hs", OF _ that])
    fix f opts raw pos count r
    assume IH: "\<And>opts raw pos count r. f opts raw pos count = Some r \<Longrightarrow>
        \<forall>hs n. r = Inr (hs, n) \<longrightarrow> within_limits opts hs"
      and eq: "(case find_str_from CRLF raw pos of
        None \<Rightarrow> Some (Inl (protocol_error ''invalid chunk size line'' PK_protocol))
      | Some e \<Rightarrow>
          (case parse_chunk_size opts (substr raw pos (e - pos)) of
             Inl err \<Rightarrow> Some (Inl err)
           | Inr n \<Rightarrow>
               if n = 0 then Some (parse_trailers opts raw (e + 2) [] count)
               else if length raw < (e + 2 + n + 2) mod 2 ^ 64 then
                 Some (Inl (protocol_error ''incomplete chunk data'' PK_protocol))
               else
                 (let pos' = (e + 2 + n) mod 2 ^ 64 in
                  if length raw < pos' then Some (Inl OutOfRange)
                  else if substr raw pos' 2 \<noteq> CRLF then
                    Some (Inl (protocol_error ''invalid chunk delimiter'' PK_protocol))
                  else f opts raw (pos' + 2) count))) = Some r"
    have "within_limits opts []" by (simp add: within_limits_def)
    then show "\<forall>hs n. r = Inr (hs, n) \<longrightarrow> within_limits opts hs"
      using eq IH by (fastforce simp: Let_def split: option.splits sum.splits if_splits
          dest: parse_trailers_ok)
  qed
  with assms show ?thesis by blast
qed

section \<open>The invariant of a parser\<close>

text \<open>Every queued message obeys the limits, and its body is where its size says it is.\<close>

definition body_ok :: "parser_options \<Rightarrow> (string \<rightharpoonup> string) \<Rightarrow> http_message \<Rightarrow> bool" where
  "body_ok opts files m \<longleftrightarrow>
     (case hm_body_file m of
        None \<Rightarrow> hm_body_size m = length (hm_body m)
                \<and> \<not> exceeds_limit (po_max_body_in_memory opts) (length (hm_body m))
      | Some p \<Rightarrow> hm_body m = [] \<and> exceeds_limit (po_max_body_in_memory opts) (hm_body_size m)
                \<and> (\<exists>body. files p = Some body \<and> length body = hm_body_size m))"

definition message_ok :: "parser_state \<Rightarrow> http_message \<Rightarrow> bool" where
  "message_ok st m \<longleftrightarrow> within_limits (ps_options st) (hm_headers m)
     \<and> within_limits (ps_options st) (hm_trailers m) \<and> body_ok (ps_options st) (ps_files st) m
     \<and> (ps_mode st = Mode_request \<longrightarrow> hm_is_request m)
     \<and> (ps_mode st = Mode_response \<longrightarrow> \<not> hm_is_request m)"

text \<open>Temporary files that were created carry a sequence number below the counter.\<close>

definition temp_path :: "string \<Rightarrow> nat \<Rightarrow> string" where
  "temp_path dir k = path_join dir (''flux_http_parser_'' @ dec_of_nat k @ ''.tmp'')"

definition temp_digits :: "string \<Rightarrow> string" where
  "temp_digits p = rev (takeWhile (\<lambda>c. digit_value c \<noteq> None) (drop 4 (rev p)))"

lemma temp_digits_temp_path: "temp_digits (temp_path dir k) = dec_of_nat k"
proof -
  obtain pre where p: "temp_path dir k = pre @ ''flux_http_parser'' @ ''_'' @ dec_of_nat k @ ''.tmp''"
    unfolding temp_path_def path_join_def
    by (cases "dir = [] \<or> last dir = CHR ''/''") (auto intro: that [of dir] that [of "dir @ ''/''"])
  have "drop 4 (rev (temp_path dir k)) = rev (dec_of_nat k) @ CHR ''_'' # rev (pre @ ''flux_http_parser'')"
    by (simp add: p)
  moreover have "takeWhile (\<lambda>c. digit_value c \<noteq> None)
      (rev (dec_of_nat k) @ CHR ''_'' # rev (pre @ ''flux_http_parser'')) = rev (dec_of_nat k)"
  proof (rule takeWhile_until)
    show "\<forall>c \<in> set (rev (dec_of_nat k)). digit_value c \<noteq> None"
      using render_base_hex_digits [of 10] by simp
    show "\<not> digit_value CHR ''_'' \<noteq> None" by (simp add: digit_value_def Let_def)
  qed
  ultimately show ?thesis unfolding temp_digits_def by (simp only: rev_rev_ident)
qed

lemma temp_path_inject: "temp_path dir j = temp_path dir' k \<Longrightarrow> j = k"
  using temp_digits_temp_path [of dir j] temp_digits_temp_path [of dir' k] render_base_inject [of 10 j k]
  by simp

definition files_ok :: "parser_state \<Rightarrow> bool" where
  "files_ok st \<longleftrightarrow> (\<forall>p \<in> dom (ps_files st). \<exists>k < ps_seq st. \<exists>dir. p = temp_path dir k)"

definition parser_ok :: "parser_state \<Rightarrow> bool" where
  "parser_ok st \<longleftrightarrow> (\<forall>m \<in> set (ps_ready st). message_ok st m) \<and> files_ok st"

lemma attach_body_ok:
  assumes ok: "parser_ok st" and res: "attach_body m body st = (m', st')"
    and m: "within_limits (ps_options st) (hm_headers m)" "within_limits (ps_options st) (hm_trailers m)"
      "hm_body_file m = None" "hm_body m = []"
      "ps_mode st = Mode_request \<longrightarrow> hm_is_request m" "ps_mode st = Mode_response \<longrightarrow> \<not> hm_is_request m"
  shows "parser_ok st' \<and> message_ok st' m' \<and> ps_options st' = ps_options st \<and> ps_mode st' = ps_mode st
         \<and> ps_ready st' = ps_ready st \<and> ps_pending st' = ps_pending st
         \<and> ps_temp_dir_ready st' = ps_temp_dir_ready st"
proof (cases "exceeds_limit (po_max_body_in_memory (ps_options st)) (length body)")
  case False
  with res m ok show ?thesis
    by (auto simp: attach_body_def Let_def message_ok_def body_ok_def)
next
  case True
  let ?p = "temp_path (ps_temp_dir st) (ps_seq st)"
  from True res have m': "m' = m\<lparr>hm_body_size := length body, hm_body := [], hm_body_file := Some ?p\<rparr>"
    and st': "st' = st\<lparr>ps_seq := ps_seq st + 1, ps_files := (ps_files st)(?p \<mapsto> body)\<rparr>"
    by (auto simp: attach_body_def Let_def create_temp_file_path_def temp_path_def)
  have fresh: "?p \<notin> dom (ps_files st)"
    using ok temp_path_inject unfolding parser_ok_def files_ok_def by (metis less_irrefl)
  have "message_ok st' x" if "message_ok st x" for x
    using that fresh by (auto simp: message_ok_def body_ok_def st' split: option.splits)
  moreover have "files_ok st'"
    using ok unfolding parser_ok_def files_ok_def st' by auto (metis domI less_SucI)
  moreover have "message_ok st' m'"
    using True m by (simp add: m' st' message_ok_def body_ok_def)
  ultimately show ?thesis using ok by (auto simp: parser_ok_def st')
qed

lemma parse_with_beast_ok:
  assumes ok: "parser_ok st" and hs: "within_limits (ps_options st) hs"
    and mode: "ps_mode st = Mode_request \<longrightarrow> is_request" "ps_mode st = Mode_response \<longrightarrow> \<not> is_request"
    and res: "parse_with_beast beast is_request count hs off st = Some (r, st')"
  shows "parser_ok st' \<and> (\<forall>m. r = Inr (Some m) \<longrightarrow> message_ok st' m)
         \<and> ps_ready st' = ps_ready st \<and> ps_options st' = ps_options st \<and> ps_mode st' = ps_mode st
         \<and> ps_temp_dir_ready st' = ps_temp_dir_ready st"
proof (cases "\<exists>m. r = Inr (Some m)")
  case False
  with res have "st' = st"
    by (auto simp: parse_with_beast_def Let_def split: if_splits option.splits sum.splits
        beast_ec.splits prod.splits)
  with False ok show ?thesis by auto
next
  case True
  then obtain m where r: "r = Inr (Some m)" by blast
  let ?b = "beast is_request (ps_pending st)"
  let ?m0 = "fill_message is_request hs (br_message ?b)"
  let ?tr = "message_trailers (ps_options st) hs (take (br_consumed ?b) (ps_pending st)) off count"
  have ec: "br_ec ?b = Ec_none" "br_done ?b"
    using res r by (cases "br_ec ?b"; auto simp: parse_with_beast_def Let_def split: if_splits)+
  then have eq: "parse_with_beast beast is_request count hs off st =
    (case ?tr of None \<Rightarrow> None | Some (Inl e) \<Rightarrow> Some (Inl e, st)
     | Some (Inr (trailers, _)) \<Rightarrow>
         (let (m, st1) = attach_body (?m0\<lparr>hm_trailers := trailers\<rparr>) (bm_body (br_message ?b)) st
          in Some (Inr (Some m), st1\<lparr>ps_pending := drop (br_consumed ?b) (ps_pending st1)\<rparr>)))"
    by (simp add: parse_with_beast_def Let_def)
  with res r obtain trailers n where tr: "?tr = Some (Inr (trailers, n))"
    by (auto split: option.splits sum.splits)
  obtain m1 st1 where att: "attach_body (?m0\<lparr>hm_trailers := trailers\<rparr>) (bm_body (br_message ?b)) st = (m1, st1)"
    by fastforce
  with res eq tr r have st': "st' = st1\<lparr>ps_pending := drop (br_consumed ?b) (ps_pending st1)\<rparr>" and "m1 = m"
    by simp_all
  note att = att [unfolded \<open>m1 = m\<close>]
  have m0: "hm_headers (fill_message q hs x) = hs" "hm_body_file (fill_message q hs x) = None"
    "hm_body (fill_message q hs x) = []" "hm_is_request (fill_message q hs x) = q" for q x
    by (simp_all add: fill_message_def empty_message_def)
  have "within_limits (ps_options st) trailers"
    using tr parse_chunked_trailers_ok
    by (auto simp: message_trailers_def within_limits_def split: if_splits)
  with attach_body_ok [OF ok att] hs m0 mode have
    "parser_ok st1 \<and> message_ok st1 m \<and> ps_options st1 = ps_options st \<and> ps_mode st1 = ps_mode st
     \<and> ps_ready st1 = ps_ready st \<and> ps_temp_dir_ready st1 = ps_temp_dir_ready st" by simp
  then show ?thesis
    by (auto simp: r st' parser_ok_def message_ok_def files_ok_def)
qed

lemma try_parse_message_ok:
  assumes ok: "parser_ok st" and res: "try_parse_message beast st = Some (r, st')"
  shows "parser_ok st' \<and> (\<forall>m. r = Inr (Some m) \<longrightarrow> message_ok st' m)
         \<and> ps_ready st' = ps_ready st \<and> ps_options st' = ps_options st \<and> ps_mode st' = ps_mode st
         \<and> ps_temp_dir_ready st' = ps_temp_dir_ready st"
proof (cases "st' = st \<and> (\<forall>m. r \<noteq> Inr (Some m))")
  case True
  with ok show ?thesis by auto
next
  case False
  then obtain off where off: "find_str (CRLF @ CRLF) (ps_pending st) = Some off"
    using res by (auto simp: try_parse_message_def split: option.splits if_splits)
  define head where "head = take off (ps_pending st)"
  define line where "line = (case find_str CRLF head of None \<Rightarrow> head | Some i \<Rightarrow> take i head)"
  define is_response where "is_response = prefix ''HTTP/'' line"
  define hp where "hp = (case find_str CRLF head of None \<Rightarrow> Inr ([], 0)
    | Some i \<Rightarrow> parse_initial_headers (ps_options st) (drop (i + 2) head) [] 0)"
  have eq: "try_parse_message beast st =
    (case validate_start_line (ps_options st) (ps_mode st) line is_response of
       Some e \<Rightarrow> Some (Inl e, st)
     | None \<Rightarrow> (case hp of Inl e \<Rightarrow> Some (Inl e, st)
         | Inr (hs, count) \<Rightarrow> parse_with_beast beast (\<not> is_response) count hs (off + 4) st))"
    unfolding try_parse_message_def off option.case Let_def line_def is_response_def hp_def head_def ..
  with res False have v: "validate_start_line (ps_options st) (ps_mode st) line is_response = None"
    by (auto split: option.splits)
  with res False eq obtain hs count where hp: "hp = Inr (hs, count)"
    and b: "parse_with_beast beast (\<not> is_response) count hs (off + 4) st = Some (r, st')"
    by (auto split: sum.splits)
  then have hs: "(count, hs) = (0, []) \<or> (\<exists>blk. parse_initial_headers (ps_options st) blk [] 0 = Inr (hs, count))"
    by (auto simp: hp_def split: option.splits)
  have "within_limits (ps_options st) []" by (simp add: within_limits_def)
  with hs have "within_limits (ps_options st) hs" using parse_initial_headers_ok by fastforce
  moreover from v have "ps_mode st = Mode_request \<longrightarrow> \<not> is_response" "ps_mode st = Mode_response \<longrightarrow> \<not> \<not> is_response"
    by (auto simp: validate_start_line_def split: if_splits)
  ultimately show ?thesis using parse_with_beast_ok [OF ok _ _ _ b] by blast
qed

lemma parser_ok_ready:
  "parser_ok st \<Longrightarrow> message_ok st m \<Longrightarrow> parser_ok (st\<lparr>ps_ready := ps_ready st @ [m]\<rparr>)"
  by (auto simp: parser_ok_def message_ok_def files_ok_def)

lemma feed_loop_ok:
  assumes "feed_loop beast st = Some r" and "parser_ok st"
  shows "parser_ok (snd r) \<and> ps_options (snd r) = ps_options st \<and> ps_mode (snd r) = ps_mode st
         \<and> prefix (ps_ready st) (ps_ready (snd r)) \<and> ps_temp_dir_ready (snd r) = ps_temp_dir_ready st"
proof -
  let ?P = "\<lambda>beast st r. parser_ok st \<longrightarrow> parser_ok (snd r) \<and> ps_options (snd r) = ps_options st
    \<and> ps_mode (snd r) = ps_mode st \<and> prefix (ps_ready st) (ps_ready (snd r))
    \<and> ps_temp_dir_ready (snd r) = ps_temp_dir_ready st"
  have "?P beast st r"
  proof (rule feed_loop.raw_induct [where P = ?P, OF _ assms(1)], rule impI)
    fix f beast st r
    assume IH: "\<And>beast st r. f beast st = Some r \<Longrightarrow> ?P beast st r" and ok: "parser_ok st"
      and eq: "(case try_parse_message beast st of
        None \<Rightarrow> None
      | Some (Inl e, st') \<Rightarrow> Some (Inl e, st')
      | Some (Inr None, st') \<Rightarrow> Some (Inr (), st')
      | Some (Inr (Some m), st') \<Rightarrow> f beast (st'\<lparr>ps_ready := ps_ready st' @ [m]\<rparr>)) = Some r"
    from eq obtain q st' where q: "try_parse_message beast st = Some (q, st')"
      by (auto split: option.splits)
    note t = try_parse_message_ok [OF ok q]
    show "parser_ok (snd r) \<and> ps_options (snd r) = ps_options st
      \<and> ps_mode (snd r) = ps_mode st \<and> prefix (ps_ready st) (ps_ready (snd r))
    \<and> ps_temp_dir_ready (snd r) = ps_temp_dir_ready st"
    proof (cases "\<exists>m. q = Inr (Some m)")
      case True
      then obtain m where m: "q = Inr (Some m)" by blast
      from eq q m have "f beast (st'\<lparr>ps_ready := ps_ready st' @ [m]\<rparr>) = Some r" by simp
      from IH [OF this] parser_ok_ready [of st' m] t m show ?thesis
        by (auto simp: prefix_def)
    next
      case False
      with eq q t show ?thesis by (auto split: sum.splits option.splits)
    qed
  qed
  with assms(2) show ?thesis by blast
qed

section \<open>Incremental parsing\<close>

text \<open>What the code relies on of Beast: once a message is complete its size is fixed, positive
  and inside the buffer, and bytes that follow it do not change the result.\<close>

definition beast_stable :: "beast \<Rightarrow> bool" where
  "beast_stable beast \<longleftrightarrow>
     (\<forall>q buf. br_done (beast q buf) \<longrightarrow>
        0 < br_consumed (beast q buf) \<and> br_consumed (beast q buf) \<le> length buf
        \<and> (\<forall>more. beast q (buf @ more) = beast q buf))"

definition more_input :: "string \<Rightarrow> parser_state \<Rightarrow> parser_state" where
  "more_input x st = st\<lparr>ps_pending := ps_pending st @ x\<rparr>"

lemma more_input_simps [simp]:
  "ps_pending (more_input x st) = ps_pending st @ x" "ps_options (more_input x st) = ps_options st"
  "ps_mode (more_input x st) = ps_mode st" "ps_ready (more_input x st) = ps_ready st"
  by (simp_all add: more_input_def)

lemma more_input_ready: "(more_input x st)\<lparr>ps_ready := r\<rparr> = more_input x (st\<lparr>ps_ready := r\<rparr>)"
  by (cases st) (simp add: more_input_def)

lemma attach_body_more:
  "attach_body m body (more_input x st) = apsnd (more_input x) (attach_body m body st)"
  by (simp add: attach_body_def create_temp_file_path_def more_input_def Let_def)

lemma attach_body_pending: "ps_pending (snd (attach_body m body st)) = ps_pending st"
  by (simp add: attach_body_def create_temp_file_path_def Let_def)

lemma parse_with_beast_more:
  assumes stable: "beast_stable beast"
    and res: "parse_with_beast beast q count hs off st = Some (Inr (Some m), st')"
  shows "parse_with_beast beast q count hs off (more_input x st) = Some (Inr (Some m), more_input x st')
         \<and> length (ps_pending st') < length (ps_pending st)"
proof -
  let ?b = "beast q (ps_pending st)"
  have ec: "br_ec ?b = Ec_none" "br_done ?b"
    using res by (cases "br_ec ?b"; auto simp: parse_with_beast_def Let_def split: if_splits)+
  with stable have b: "beast q (ps_pending st @ x) = ?b" "0 < br_consumed ?b"
    "br_consumed ?b \<le> length (ps_pending st)" by (auto simp: beast_stable_def)
  from res ec obtain trailers n where tr: "message_trailers (ps_options st) hs
      (take (br_consumed ?b) (ps_pending st)) off count = Some (Inr (trailers, n))"
    by (auto simp: parse_with_beast_def Let_def split: option.splits sum.splits)
  obtain m1 st1 where att: "attach_body ((fill_message q hs (br_message ?b))\<lparr>hm_trailers := trailers\<rparr>)
      (bm_body (br_message ?b)) st = (m1, st1)" by fastforce
  have st1: "ps_pending st1 = ps_pending st"
    using attach_body_pending [of "(fill_message q hs (br_message ?b))\<lparr>hm_trailers := trailers\<rparr>"
        "bm_body (br_message ?b)" st] by (simp add: att)
  from res ec tr att have "m1 = m"
    and st': "st' = st1\<lparr>ps_pending := drop (br_consumed ?b) (ps_pending st1)\<rparr>"
    by (simp_all add: parse_with_beast_def Let_def)
  then show ?thesis using b ec tr att st1
    by (simp add: parse_with_beast_def Let_def attach_body_more) (simp add: more_input_def)
qed

lemma try_parse_message_more:
  assumes stable: "beast_stable beast"
    and res: "try_parse_message beast st = Some (Inr (Some m), st')"
  shows "try_parse_message beast (more_input x st) = Some (Inr (Some m), more_input x st')
         \<and> length (ps_pending st') < length (ps_pending st)"
proof -
  from res obtain off where off: "find_str (CRLF @ CRLF) (ps_pending st) = Some off"
    by (auto simp: try_parse_message_def split: option.splits if_splits)
  have "find_str (CRLF @ CRLF) (ps_pending st @ x) = Some off" by (rule find_str_stable [OF off])
  moreover have "off \<le> length (ps_pending st)" using find_str_bound [OF off] by simp
  ultimately have more: "try_parse_message beast (more_input x st) = Some (Inr (Some m), more_input x st')
      \<and> length (ps_pending st') < length (ps_pending st)"
    if "\<And>q count hs. parse_with_beast beast q count hs (off + 4) st = Some (Inr (Some m), st') \<Longrightarrow>
      parse_with_beast beast q count hs (off + 4) (more_input x st) = Some (Inr (Some m), more_input x st')
      \<and> length (ps_pending st') < length (ps_pending st)"
    using res off that
    by (auto simp: try_parse_message_def Let_def split: option.splits sum.splits if_splits)
  then show ?thesis using parse_with_beast_more [OF stable] by blast
qed

lemma try_parse_message_None:
  assumes "try_parse_message beast st = Some (Inr None, st')"
  shows "st' = st"
  using assms by (auto simp: try_parse_message_def parse_with_beast_def Let_def
      split: option.splits sum.splits if_splits beast_ec.splits prod.splits)

lemma feed_loop_more:
  assumes stable: "beast_stable beast" and res: "feed_loop beast st = Some (Inr (), st')"
  shows "feed_loop beast (more_input x st) = feed_loop beast (more_input x st')"
proof -
  let ?P = "\<lambda>b st r. b = beast \<longrightarrow> fst r = Inr () \<longrightarrow>
    feed_loop beast (more_input x st) = feed_loop beast (more_input x (snd r))"
  have "?P beast st r" if "feed_loop beast st = Some r" for r
  proof (rule feed_loop.raw_induct [where P = ?P, OF _ that], intro impI)
    fix f b st r
    assume IH: "\<And>b st r. f b st = Some r \<Longrightarrow> ?P b st r" and b: "b = beast" and r: "fst r = Inr ()"
      and eq: "(case try_parse_message b st of
        None \<Rightarrow> None
      | Some (Inl e, st') \<Rightarrow> Some (Inl e, st')
      | Some (Inr None, st') \<Rightarrow> Some (Inr (), st')
      | Some (Inr (Some m), st') \<Rightarrow> f b (st'\<lparr>ps_ready := ps_ready st' @ [m]\<rparr>)) = Some r"
    from eq obtain q st' where q: "try_parse_message b st = Some (q, st')"
      by (auto split: option.splits)
    show "feed_loop beast (more_input x st) = feed_loop beast (more_input x (snd r))"
    proof (cases "\<exists>m. q = Inr (Some m)")
      case True
      then obtain m where m: "q = Inr (Some m)" by blast
      let ?st = "st'\<lparr>ps_ready := ps_ready st' @ [m]\<rparr>"
      have "try_parse_message beast (more_input x st) = Some (Inr (Some m), more_input x st')"
        using try_parse_message_more [OF stable] q m b by blast
      then have "feed_loop beast (more_input x st) = feed_loop beast (more_input x ?st)"
        by (subst feed_loop.simps) (simp add: more_input_ready)
      moreover from eq q m have "f b ?st = Some r" by simp
      ultimately show ?thesis using IH b r by simp
    next
      case False
      with eq q r have "q = Inr None" "r = (Inr (), st')"
        by (auto split: sum.splits option.splits)
      with q try_parse_message_None show ?thesis by auto
    qed
  qed
  from this [OF res] show ?thesis by simp
qed

section \<open>The loops end\<close>

text \<open>The positions at which the trailer scan reads a chunk-size line.\<close>

inductive chunk_start :: "parser_options \<Rightarrow> string \<Rightarrow> nat \<Rightarrow> nat \<Rightarrow> bool" for opts raw where
  here: "chunk_start opts raw p p"
| next_chunk: "find_str_from CRLF raw p = Some e \<Longrightarrow> parse_chunk_size opts (substr raw p (e - p)) = Inr n \<Longrightarrow>
     n \<noteq> 0 \<Longrightarrow> chunk_start opts raw ((e + 2 + n) mod 2 ^ 64 + 2) q \<Longrightarrow> chunk_start opts raw p q"

definition chunks_bounded :: "parser_options \<Rightarrow> string \<Rightarrow> nat \<Rightarrow> bool" where
  "chunks_bounded opts raw p0 \<longleftrightarrow>
     (\<forall>p e n. chunk_start opts raw p0 p \<longrightarrow> find_str_from CRLF raw p = Some e \<longrightarrow>
        parse_chunk_size opts (substr raw p (e - p)) = Inr n \<longrightarrow> length raw + n + 4 < 2 ^ 64)"

lemma parse_chunked_trailers_returns:
  "chunks_bounded opts raw pos \<Longrightarrow> \<exists>r. parse_chunked_trailers opts raw pos count = Some r"
proof (induction "length raw - pos" arbitrary: pos rule: less_induct)
  case less
  show ?case
  proof (cases "find_str_from CRLF raw pos")
    case None
    then show ?thesis by (subst parse_chunked_trailers.simps) simp
  next
    case (Some e)
    note e = find_str_from_bound [OF Some]
    show ?thesis
    proof (cases "parse_chunk_size opts (substr raw pos (e - pos))")
      case (Inl err)
      with Some show ?thesis by (subst parse_chunked_trailers.simps) simp
    next
      case (Inr n)
      let ?p = "(e + 2 + n) mod 2 ^ 64 + 2"
      have "length raw + n + 4 < 2 ^ 64"
        using less.prems Some Inr unfolding chunks_bounded_def by (blast intro: chunk_start.here)
      with e have small: "(e + 2 + n) mod 2 ^ 64 = e + 2 + n" by simp
      have "\<exists>r. parse_chunked_trailers opts raw ?p count = Some r" if "n \<noteq> 0" and "?p \<le> length raw"
      proof (rule less.hyps)
        show "length raw - ?p < length raw - pos" using e that small by simp
        show "chunks_bounded opts raw ?p"
          using less.prems that Some Inr unfolding chunks_bounded_def by (blast intro: chunk_start.next_chunk)
      qed
      moreover have "?p \<le> length raw" if "length raw \<ge> (e + 2 + n) mod 2 ^ 64"
        "substr raw ((e + 2 + n) mod 2 ^ 64) 2 = CRLF"
        using substr_bound [OF that(2)] by simp
      ultimately show ?thesis using Some Inr
        by (subst parse_chunked_trailers.simps) (auto simp: Let_def)
    qed
  qed
qed

text \<open>Beast only completes a chunked message whose chunk sizes are plain hexadecimal numbers
  that fit the buffer.\<close>

definition beast_checks_chunks :: "parser_options \<Rightarrow> beast \<Rightarrow> bool" where
  "beast_checks_chunks opts beast \<longleftrightarrow>
     (\<forall>q buf h i hs count. br_done (beast q buf) \<longrightarrow> find_str (CRLF @ CRLF) buf = Some h \<longrightarrow>
        find_str CRLF (take h buf) = Some i \<longrightarrow>
        parse_initial_headers opts (drop (i + 2) (take h buf)) [] 0 = Inr (hs, count) \<longrightarrow>
        headers_indicate_chunked hs \<longrightarrow>
        chunks_bounded opts (take (br_consumed (beast q buf)) buf) (h + 4))"

lemma parse_with_beast_returns:
  assumes "br_done (beast q (ps_pending st)) \<Longrightarrow> headers_indicate_chunked hs \<Longrightarrow>
    chunks_bounded (ps_options st) (take (br_consumed (beast q (ps_pending st))) (ps_pending st)) off"
  shows "\<exists>r. parse_with_beast beast q count hs off st = Some r"
proof (cases "br_done (beast q (ps_pending st))")
  case True
  let ?b = "beast q (ps_pending st)"
  have "\<exists>r. message_trailers (ps_options st) hs (take (br_consumed ?b) (ps_pending st)) off count = Some r"
    using parse_chunked_trailers_returns assms [OF True] by (simp add: message_trailers_def)
  then show ?thesis
    by (auto simp: parse_with_beast_def Let_def split: beast_ec.splits sum.splits prod.splits)
qed (simp add: parse_with_beast_def Let_def)

lemma try_parse_message_returns:
  assumes "beast_checks_chunks (ps_options st) beast"
  shows "\<exists>r. try_parse_message beast st = Some r"
proof (cases "find_str (CRLF @ CRLF) (ps_pending st)")
  case None
  then show ?thesis by (simp add: try_parse_message_def)
next
  case (Some h)
  have chunks: "chunks_bounded (ps_options st) (take (br_consumed (beast q (ps_pending st))) (ps_pending st)) (h + 4)"
    if "br_done (beast q (ps_pending st))" "find_str CRLF (take h (ps_pending st)) = Some i"
      "parse_initial_headers (ps_options st) (drop (i + 2) (take h (ps_pending st))) [] 0 = Inr (hs, count)"
      "headers_indicate_chunked hs" for q i hs count
    using assms Some that unfolding beast_checks_chunks_def by blast
  have "\<exists>r. parse_with_beast beast q 0 [] (h + 4) st = Some r" for q
    by (rule parse_with_beast_returns) (simp add: headers_indicate_chunked_def)
  moreover have "\<exists>r. parse_with_beast beast q count hs (h + 4) st = Some r"
    if "find_str CRLF (take h (ps_pending st)) = Some i"
      "parse_initial_headers (ps_options st) (drop (i + 2) (take h (ps_pending st))) [] 0 = Inr (hs, count)"
    for q i hs count by (rule parse_with_beast_returns) (rule chunks [OF _ that])
  ultimately show ?thesis using Some
    by (auto simp: try_parse_message_def Let_def split: option.splits sum.splits)
qed

lemma feed_loop_returns:
  "beast_stable beast \<Longrightarrow> beast_checks_chunks (ps_options st) beast \<Longrightarrow> parser_ok st \<Longrightarrow>
     \<exists>r. feed_loop beast st = Some r"
proof (induction "length (ps_pending st)" arbitrary: st rule: less_induct)
  case less
  from try_parse_message_returns [OF less.prems(2)] obtain q st' where
    q: "try_parse_message beast st = Some (q, st')" by auto
  note ok = try_parse_message_ok [OF less.prems(3) q]
  show ?case
  proof (cases "\<exists>m. q = Inr (Some m)")
    case True
    then obtain m where m: "q = Inr (Some m)" by blast
    have "length (ps_pending st') < length (ps_pending st)"
      using try_parse_message_more [OF less.prems(1)] q m by blast
    then have "\<exists>r. feed_loop beast (st'\<lparr>ps_ready := ps_ready st' @ [m]\<rparr>) = Some r"
      using less.prems ok m parser_ok_ready [of st' m] by (intro less.hyps) auto
    with q m show ?thesis by (subst feed_loop.simps) simp
  next
    case False
    with q show ?thesis by (subst feed_loop.simps) (auto split: sum.splits option.splits)
  qed
qed

text \<open>A signed chunk size sends the scan back to where it came from.\<close>

lemma parse_chunk_size_minus_6:
  assumes "po_max_header_line_size opts = 0 \<or> 2 \<le> po_max_header_line_size opts"
  shows "parse_chunk_size opts ''-6'' = Inr (2 ^ 64 - 6)"
proof -
  have "stoull16 ''-6'' = Some (2 ^ 64 - 6)"
    by (simp add: stoull16_def strip_0x_def digits_value_def digit_value_def isspace_def Let_def)
  moreover have "trim_copy ''-6'' = ''-6''" by (simp add: trim_copy_def strip_by_def isspace_def)
  ultimately show ?thesis using assms by (auto simp: parse_chunk_size_def exceeds_limit_def Let_def)
qed

section \<open>An instance of the Beast contract\<close>

text \<open>Messages without a body: complete at the end of the head.\<close>

definition bodiless_beast :: beast where
  "bodiless_beast q buf =
     (let bm = \<lparr>bm_version = 11, bm_method = ''GET'', bm_target = ''/'', bm_status = 200,
                bm_reason = ''OK'', bm_body = []\<rparr>
      in case find_str (CRLF @ CRLF) buf of
           None \<Rightarrow> \<lparr>br_consumed = 0, br_ec = Ec_need_more, br_done = False, br_message = bm\<rparr>
         | Some h \<Rightarrow> \<lparr>br_consumed = h + 4, br_ec = Ec_none, br_done = True, br_message = bm\<rparr>)"

lemma bodiless_beast_stable: "beast_stable bodiless_beast"
proof -
  have "0 < br_consumed (bodiless_beast q buf) \<and> br_consumed (bodiless_beast q buf) \<le> length buf
        \<and> (\<forall>more. bodiless_beast q (buf @ more) = bodiless_beast q buf)"
    if "br_done (bodiless_beast q buf)" for q buf
  proof -
    from that obtain h where h: "find_str (CRLF @ CRLF) buf = Some h"
      by (auto simp: bodiless_beast_def Let_def split: option.splits)
    then have more: "find_str (CRLF @ CRLF) (buf @ more) = Some h" for more by (rule find_str_stable)
    show ?thesis using find_str_bound [OF h] h more by (simp add: bodiless_beast_def Let_def)
  qed
  then show ?thesis by (auto simp: beast_stable_def)
qed

lemma bodiless_beast_checks_chunks: "beast_checks_chunks opts bodiless_beast"
proof -
  have "chunks_bounded opts (take (br_consumed (bodiless_beast q buf)) buf) (h + 4)"
    if h: "find_str (CRLF @ CRLF) buf = Some h" for q buf h
  proof -
    have len: "length (take (h + 4) buf) = h + 4" using find_str_bound [OF h] by simp
    have none: "find_str_from CRLF (take (h + 4) buf) (h + 4) = None"
      by (simp add: find_str_from_def)
    have "find_str_from CRLF (take (h + 4) buf) p = None"
      if "chunk_start opts (take (h + 4) buf) (h + 4) p" for p
      using that none by (cases rule: chunk_start.cases) auto
    then show ?thesis using h by (auto simp: chunks_bounded_def bodiless_beast_def Let_def)
  qed
  then show ?thesis by (auto simp: beast_checks_chunks_def)
qed

section \<open>Properties\<close>

text \<open>A parser and the calls made on it, in any order. A \<open>feed\<close> that does not return leaves no
  state behind; the model keeps the old one.\<close>

datatype parser_call = Call_feed bool string | Call_next | Call_reset

definition parser_event :: "beast \<Rightarrow> fs_env \<Rightarrow> parser_state \<Rightarrow> parser_call \<Rightarrow> parser_state" where
  "parser_event beast env st call =
     (case call of
        Call_feed has_runtime chunk \<Rightarrow>
          (case feed beast env has_runtime chunk st of None \<Rightarrow> st | Some (_, st') \<Rightarrow> st')
      | Call_next \<Rightarrow> snd (next_message st)
      | Call_reset \<Rightarrow> parser_reset st)"

definition parser_inv :: "parse_mode \<Rightarrow> parser_options \<Rightarrow> parser_state \<Rightarrow> bool" where
  "parser_inv mode opts st \<longleftrightarrow> parser_ok st \<and> ps_mode st = mode \<and> ps_options st = opts"

lemma parser_ok_cong:
  "parser_ok st \<Longrightarrow> ps_options st' = ps_options st \<Longrightarrow> ps_mode st' = ps_mode st \<Longrightarrow>
   ps_files st' = ps_files st \<Longrightarrow> ps_seq st' = ps_seq st \<Longrightarrow> set (ps_ready st') \<subseteq> set (ps_ready st) \<Longrightarrow>
   parser_ok st'"
  by (auto simp: parser_ok_def message_ok_def files_ok_def)

lemma feed_ok:
  assumes "feed beast env rt chunk st = Some (r, st')" and "parser_ok st"
  shows "parser_ok st' \<and> ps_options st' = ps_options st \<and> ps_mode st' = ps_mode st
         \<and> prefix (ps_ready st) (ps_ready st') \<and> (rt \<longrightarrow> ps_temp_dir_ready st')"
proof (cases rt)
  case True
  define st1 where "st1 = (ensure_temp_dir_ready env st)\<lparr>ps_pending := ps_pending (ensure_temp_dir_ready env st) @ chunk\<rparr>"
  have st1: "ps_options st1 = ps_options st" "ps_mode st1 = ps_mode st" "ps_ready st1 = ps_ready st"
    "ps_files st1 = ps_files st" "ps_seq st1 = ps_seq st" "ps_temp_dir_ready st1"
    by (simp_all add: st1_def ensure_temp_dir_ready_def)
  with assms(2) have "parser_ok st1" by (intro parser_ok_cong [OF assms(2)]) simp_all
  moreover from assms(1) True have "feed_loop beast st1 = Some (r, st')"
    by (simp add: feed_def st1_def Let_def)
  ultimately show ?thesis using feed_loop_ok [of beast st1 "(r, st')"] st1 by simp
next
  case False
  with assms show ?thesis by (simp add: feed_def)
qed

interpretation parser: invariant_machine "parser_event beast env" "parser_inv mode opts"
  for beast env mode opts
proof unfold_locales
  fix st call
  assume inv: "parser_inv mode opts st"
  show "parser_inv mode opts (parser_event beast env st call)"
  proof (cases call)
    case (Call_feed rt chunk)
    with inv show ?thesis
      by (auto simp: parser_inv_def parser_event_def dest: feed_ok split: option.splits)
  next
    case Call_next
    with inv show ?thesis
      by (auto simp: parser_inv_def parser_event_def next_message_def split: list.splits
          intro: parser_ok_cong)
  next
    case Call_reset
    with inv show ?thesis
      by (auto simp: parser_inv_def parser_event_def parser_reset_def intro: parser_ok_cong)
  qed
qed

text \<open>
  C27: Whatever calls are made on a parser, with whatever data, each message it has queued obeys
  the configured header limits (count and line size, fields and trailers alike), has the kind
  its mode asks for, and keeps its body in memory up to the limit and in a temporary file of
  exactly its size beyond it, which no later message overwrites.\<close>

theorem parser_messages_ok:
  assumes "st = foldl (parser_event beast env) (new_parser mode opts) calls" and "m \<in> set (ps_ready st)"
  shows "within_limits opts (hm_headers m) \<and> within_limits opts (hm_trailers m)
    \<and> body_ok opts (ps_files st) m
    \<and> (mode = Mode_request \<longrightarrow> hm_is_request m) \<and> (mode = Mode_response \<longrightarrow> \<not> hm_is_request m)"
proof -
  have "parser_inv mode opts (new_parser mode opts)"
    by (simp add: parser_inv_def parser_ok_def files_ok_def new_parser_def)
  from parser.inv_run [OF this] assms(1) have "parser_inv mode opts st" by simp
  with assms(2) show ?thesis by (auto simp: parser_inv_def parser_ok_def message_ok_def)
qed

text \<open>
  C29: The parser is incremental: when one buffer has been fed, feeding the next gives the same
  outcome and the same parser as feeding both at once would have, so where the network splits
  the bytes does not matter. Of Beast this uses that a complete message stays complete.\<close>

theorem feed_split:
  assumes "beast_stable beast" and "parser_ok st" and "feed beast env True c1 st = Some (Inr (), st1)"
  shows "feed beast env True c2 st1 = feed beast env True (c1 @ c2) st"
proof -
  let ?st = "ensure_temp_dir_ready env st"
  have "feed_loop beast (more_input c1 ?st) = Some (Inr (), st1)"
    using assms(3) by (simp add: feed_def more_input_def Let_def)
  from feed_loop_more [OF assms(1) this, of c2]
  have "feed_loop beast (more_input c2 (more_input c1 ?st)) = feed_loop beast (more_input c2 st1)" .
  moreover have "ensure_temp_dir_ready env st1 = st1"
    using feed_ok [OF assms(3,2)] by (simp add: ensure_temp_dir_ready_def)
  moreover have "more_input c2 (more_input c1 ?st) = more_input (c1 @ c2) ?st"
    by (simp add: more_input_def)
  ultimately show ?thesis by (simp add: feed_def more_input_def Let_def)
qed

lemma feed_total:
  assumes "beast_stable beast" and "beast_checks_chunks (ps_options st) beast" and "parser_ok st"
  shows "\<exists>r. feed beast env rt chunk st = Some r"
proof -
  define st1 where "st1 = (ensure_temp_dir_ready env st)\<lparr>ps_pending := ps_pending (ensure_temp_dir_ready env st) @ chunk\<rparr>"
  have st1: "ps_options st1 = ps_options st" "ps_mode st1 = ps_mode st" "ps_ready st1 = ps_ready st"
    "ps_files st1 = ps_files st" "ps_seq st1 = ps_seq st"
    by (simp_all add: st1_def ensure_temp_dir_ready_def)
  then have "parser_ok st1" by (intro parser_ok_cong [OF assms(3)]) simp_all
  with feed_loop_returns [OF assms(1), of st1] assms(2) st1 show ?thesis
    by (auto simp: feed_def st1_def Let_def)
qed


text \<open>
  Why the scan needs Beast's check: the repository's own chunk-size reader accepts a sign
  (\<open>std::stoull\<close>), and a size of \<open>-6\<close> moves the position back to the start of the same line, so
  the scan of such a body never ends, whatever precedes and follows it.\<close>

theorem chunk_scan_diverges:
  assumes "po_max_header_line_size opts = 0 \<or> 2 \<le> po_max_header_line_size opts"
    and "raw = head @ CRLF @ ''-6'' @ CRLF @ rest" and "length raw < 2 ^ 64"
  shows "parse_chunked_trailers opts raw (length head + 2) count = None"
proof (rule ccontr)
  let ?p = "length head + 2"
  let ?P = "\<lambda>op r p c x. \<not> (op = opts \<and> r = raw \<and> p = ?p)"
  have line: "find_str_from CRLF raw ?p = Some (?p + 2)"
    using find_crlf_from [of "''-6''" "head @ CRLF" rest] by (simp add: assms(2))
  have size: "parse_chunk_size opts (substr raw ?p 2) = Inr (2 ^ 64 - 6)"
    using parse_chunk_size_minus_6 [OF assms(1)] by (simp add: assms(2) substr_def)
  have "?p + 2 + 2 + (2 ^ 64 - 6) = length head + 2 ^ 64" "?p + 2 + 2 + (2 ^ 64 - 6) + 2 = ?p + 2 ^ 64"
    by simp_all
  moreover have "length head < 2 ^ 64" "?p < 2 ^ 64" using assms(3) by (simp_all add: assms(2))
  ultimately have wrap: "(?p + 2 + 2 + (2 ^ 64 - 6)) mod 2 ^ 64 = length head"
    "(?p + 2 + 2 + (2 ^ 64 - 6) + 2) mod 2 ^ 64 = ?p"
    by (simp_all only: mod_add_self2 mod_less)
  have len: "?p \<le> length raw" "length head \<le> length raw" "substr raw (length head) 2 = CRLF"
    by (simp_all add: assms(2) substr_def)
  assume "parse_chunked_trailers opts raw ?p count \<noteq> None"
  then obtain r where r: "parse_chunked_trailers opts raw ?p count = Some r" by blast
  have "?P opts raw ?p count r"
  proof (rule parse_chunked_trailers.raw_induct [where P = ?P, OF _ r], rule notI, elim conjE)
    fix f o' raw' pos c x
    assume IH: "\<And>op r p c x. f op r p c = Some x \<Longrightarrow> ?P op r p c x"
      and here: "o' = opts" "raw' = raw" "pos = ?p"
      and eq: "(case find_str_from CRLF raw' pos of
        None \<Rightarrow> Some (Inl (protocol_error ''invalid chunk size line'' PK_protocol))
      | Some e \<Rightarrow>
          (case parse_chunk_size o' (substr raw' pos (e - pos)) of
             Inl err \<Rightarrow> Some (Inl err)
           | Inr n \<Rightarrow>
               if n = 0 then Some (parse_trailers o' raw' (e + 2) [] c)
               else if length raw' < (e + 2 + n + 2) mod 2 ^ 64 then
                 Some (Inl (protocol_error ''incomplete chunk data'' PK_protocol))
               else
                 (let pos' = (e + 2 + n) mod 2 ^ 64 in
                  if length raw' < pos' then Some (Inl OutOfRange)
                  else if substr raw' pos' 2 \<noteq> CRLF then
                    Some (Inl (protocol_error ''invalid chunk delimiter'' PK_protocol))
                  else f o' raw' (pos' + 2) c))) = Some x"
    have "f opts raw ?p c = Some x"
      using eq line size wrap len unfolding here by (simp add: Let_def)
    then show False using IH by blast
  qed
  then show False by simp
qed

section \<open>Witnesses\<close>

definition get_slash :: string where
  "get_slash = ''GET / HTTP/1.1'' @ CRLF @ ''Host: a'' @ CRLF @ CRLF"

definition tmp_env :: fs_env where
  "tmp_env = \<lparr>fe_temp_directory = Some ''/tmp'', fe_current_directory = Some ''/''\<rparr>"

abbreviation fresh_parser :: parser_state where
  "fresh_parser \<equiv> new_parser Mode_request default_parser_options"

lemma fresh_parser_ok: "parser_ok fresh_parser"
  by (simp add: parser_ok_def files_ok_def new_parser_def)

lemmas parse_eval = feed_def ensure_temp_dir_ready_def new_parser_def tmp_env_def get_slash_def
  try_parse_message_def find_str.simps validate_start_line_def exceeds_limit_def
  default_parser_options_def parse_initial_headers.simps add_header_line_def parse_header_line_def
  trim_copy_def strip_by_def isspace_def parse_with_beast_def bodiless_beast_def
  message_trailers_def headers_indicate_chunked_def fill_message_def attach_body_def Let_def

lemma feed_get_slash:
  "\<exists>st. feed bodiless_beast tmp_env True get_slash fresh_parser = Some (Inr (), st)
        \<and> map hm_headers (ps_ready st) = [[mk_header ''Host'' ''a'']] \<and> ps_pending st = []"
  by (simp add: parse_eval feed_loop.simps)

theorem parser_messages_ok_witness:
  "\<exists>m st. st = foldl (parser_event bodiless_beast tmp_env) fresh_parser [Call_feed True get_slash]
     \<and> m \<in> set (ps_ready st) \<and> within_limits default_parser_options (hm_headers m)
     \<and> body_ok default_parser_options (ps_files st) m"
proof -
  define st where "st = foldl (parser_event bodiless_beast tmp_env) fresh_parser [Call_feed True get_slash]"
  have "ps_ready st \<noteq> []" using feed_get_slash by (auto simp: st_def parser_event_def)
  then obtain m where "m \<in> set (ps_ready st)" by (meson hd_in_set)
  with parser_messages_ok [OF st_def this] st_def show ?thesis by blast
qed

lemma feed_part: "\<exists>st. feed bodiless_beast tmp_env True ''GET / '' fresh_parser = Some (Inr (), st)"
  by (simp add: parse_eval feed_loop.simps)

theorem feed_split_witness:
  "\<exists>st1. feed bodiless_beast tmp_env True ''GET / '' fresh_parser = Some (Inr (), st1)
     \<and> feed bodiless_beast tmp_env True (drop 6 get_slash) st1
       = feed bodiless_beast tmp_env True (''GET / '' @ drop 6 get_slash) fresh_parser"
  using feed_part feed_split [OF bodiless_beast_stable fresh_parser_ok] by blast


theorem chunk_scan_diverges_witness:
  "parse_chunked_trailers default_parser_options (''x'' @ CRLF @ ''-6'' @ CRLF @ []) 3 0 = None"
proof -
  have "length (''x'' @ CRLF @ ''-6'' @ CRLF @ []) < 2 ^ 64" by simp
  with chunk_scan_diverges [of default_parser_options _ "''x''" "[]" 0] show ?thesis
    by (simp add: default_parser_options_def numeral_3_eq_3)
qed

end
