(* ===== verification/Http_Server.thy ===== *)
theory Http_Server
  imports Http_Parser
begin

text \<open>
  The HTTP server primitives of \<open>layer2/src/server.cpp\<close>: request targets, validation against
  limits, the keep-alive decision, response and chunk serialisation, body readers and
  writers, the read loop of a connection and the layer-2 middleware chain.
  Boost.URL is the parameter record \<open>url_lib\<close>. A socket is the list of results its
  \<open>read_some\<close> calls return (the empty string is end of file) and the text written to it.
\<close>

section \<open>Status lines\<close>

definition status_reason :: "int \<Rightarrow> string" where
  "status_reason code =
     (if code = 100 then ''Continue'' else if code = 200 then ''OK''
      else if code = 201 then ''Created'' else if code = 204 then ''No Content''
      else if code = 301 then ''Moved Permanently'' else if code = 302 then ''Found''
      else if code = 304 then ''Not Modified'' else if code = 400 then ''Bad Request''
      else if code = 401 then ''Unauthorized'' else if code = 403 then ''Forbidden''
      else if code = 404 then ''Not Found'' else if code = 405 then ''Method Not Allowed''
      else if code = 408 then ''Request Timeout'' else if code = 409 then ''Conflict''
      else if code = 413 then ''Payload Too Large'' else if code = 414 then ''URI Too Long''
      else if code = 429 then ''Too Many Requests'' else if code = 500 then ''Internal Server Error''
      else if code = 502 then ''Bad Gateway'' else if code = 503 then ''Service Unavailable''
      else if code = 504 then ''Gateway Timeout'' else ''Unknown'')"

section \<open>Request targets\<close>

text \<open>What \<open>boost::urls::parse_uri_reference\<close> yields: the encoded path, the decoded fragment,
  the decoded query parameters with their optional values.\<close>

record parsed_url =
  pu_encoded_path :: string
  pu_fragment :: "string option"
  pu_params :: "(string \<times> string option) list"

record url_lib =
  ul_parse_uri_reference :: "string \<Rightarrow> parsed_url option"
  ul_pct_decode :: "bool \<Rightarrow> string \<Rightarrow> string option" \<comment> \<open>\<open>None\<close>: \<open>make_pct_string_view\<close> fails\<close>

definition decode_component :: "url_lib \<Rightarrow> string \<Rightarrow> bool \<Rightarrow> string" where
  "decode_component lib text plus_as_space =
     (case ul_pct_decode lib plus_as_space text of
        None \<Rightarrow> (if plus_as_space then map (\<lambda>c. if c = CHR ''+'' then CHR '' '' else c) text else text)
      | Some s \<Rightarrow> s)"

definition query_item :: "url_lib \<Rightarrow> string \<Rightarrow> (string \<times> string) list" where
  "query_item lib item =
     (if item = [] then []
      else case find_char CHR ''='' item of
             None \<Rightarrow> [(decode_component lib item True, [])]
           | Some eq \<Rightarrow> [(decode_component lib (take eq item) True,
                         decode_component lib (drop (Suc eq) item) True)])"

function parse_query :: "url_lib \<Rightarrow> string \<Rightarrow> (string \<times> string) list" where
  "parse_query lib query =
     (case find_char CHR ''&'' query of
        None \<Rightarrow> query_item lib query
      | Some amp \<Rightarrow> query_item lib (take amp query) @ parse_query lib (drop (Suc amp) query))"
  by pat_completeness auto
termination
  by (relation "measure (\<lambda>(lib, query). length query)") (auto simp: find_char_Some)

declare parse_query.simps [simp del]

definition parse_request_target :: "url_lib \<Rightarrow> string \<Rightarrow> request_target" where
  "parse_request_target lib target =
     (if target = [] then \<lparr>rt_path = ''/'', rt_query_items = [], rt_fragment = None\<rparr>
      else case ul_parse_uri_reference lib target of
        Some url \<Rightarrow>
          \<lparr>rt_path = (if pu_encoded_path url = [] then ''/'' else pu_encoded_path url),
           rt_query_items = map (\<lambda>(k, v). (k, case v of None \<Rightarrow> [] | Some s \<Rightarrow> s)) (pu_params url),
           rt_fragment = pu_fragment url\<rparr>
      | None \<Rightarrow>
          (let (rest, fragment) =
             (case find_char CHR ''#'' target of
                None \<Rightarrow> (target, None)
              | Some i \<Rightarrow> (take i target, Some (decode_component lib (drop (Suc i) target) False)))
           in case find_char CHR ''?'' rest of
                None \<Rightarrow> \<lparr>rt_path = (if rest = [] then ''/'' else rest), rt_query_items = [],
                          rt_fragment = fragment\<rparr>
              | Some q \<Rightarrow> \<lparr>rt_path = (if q = 0 then ''/'' else take q rest),
                          rt_query_items = parse_query lib (drop (Suc q) rest),
                          rt_fragment = fragment\<rparr>))"

section \<open>Requests\<close>

fun request_header :: "headers \<Rightarrow> string \<Rightarrow> string option" where
  "request_header [] name = None"
| "request_header (h # hs) name =
     (if to_lower (h_name h) = to_lower name then Some (h_value h) else request_header hs name)"

definition has_header_ci :: "headers \<Rightarrow> string \<Rightarrow> bool" where
  "has_header_ci hs name \<longleftrightarrow> (\<exists>h \<in> set hs. to_lower (h_name h) = to_lower name)"

definition meta_expired :: "int \<Rightarrow> request_meta \<Rightarrow> bool" where
  "meta_expired now m = (case rm_deadline m of None \<Rightarrow> False | Some d \<Rightarrow> now \<ge> d)"

definition from_message :: "url_lib \<Rightarrow> http_message \<Rightarrow> request_meta \<Rightarrow> server_request" where
  "from_message lib m meta =
     \<lparr>rq_method = hm_method m, rq_raw_target = hm_url m,
      rq_target = parse_request_target lib (hm_url m), rq_headers = hm_headers m,
      rq_body = hm_body m, rq_body_size = hm_body_size m, rq_major = hm_major m,
      rq_minor = hm_minor m, rq_meta = meta, rq_body_file = hm_body_file m\<rparr>"

definition validation_ok :: validation_result where
  "validation_ok = \<lparr>vr_ok = True, vr_status_code = 200, vr_close_connection = False, vr_message = []\<rparr>"

definition reject :: "int \<Rightarrow> string \<Rightarrow> validation_result" where
  "reject code msg = \<lparr>vr_ok = False, vr_status_code = code, vr_close_connection = True, vr_message = msg\<rparr>"

text \<open>The running sum of header bytes, stopping at the first field that exceeds the limit.\<close>

fun headers_too_large :: "nat \<Rightarrow> nat \<Rightarrow> headers \<Rightarrow> bool" where
  "headers_too_large limit bytes [] = False"
| "headers_too_large limit bytes (h # hs) =
     (let b = bytes + length (h_name h) + length (h_value h) + 4
      in if b > limit then True else headers_too_large limit b hs)"

definition validate_request :: "int \<Rightarrow> server_request \<Rightarrow> server_limits \<Rightarrow> validation_result" where
  "validate_request now r l =
     (if rm_cancelled (rq_meta r) \<or> meta_expired now (rq_meta r) then
        reject 408 ''request timeout or cancelled''
      else if rq_method r = [] \<or> length (rq_method r) > sl_max_method_bytes l then
        reject 400 ''invalid request method''
      else if length (rq_raw_target r) > sl_max_target_bytes l then
        reject 414 ''request target too long''
      else if length (rq_headers r) > sl_max_header_count l then
        reject 431 ''too many headers''
      else if headers_too_large (sl_max_header_bytes l) 0 (rq_headers r) then
        reject 431 ''headers too large''
      else if rq_body_size r > sl_max_body_bytes l then
        reject 413 ''payload too large''
      else validation_ok)"

section \<open>Responses\<close>

definition serialize_chunk :: "string \<Rightarrow> string" where
  "serialize_chunk chunk = hex_of_nat (length chunk) @ CRLF @ chunk @ CRLF"

definition serialize_chunk_end :: string where
  "serialize_chunk_end = ''0'' @ CRLF @ CRLF"

definition header_line :: "http_header \<Rightarrow> string" where
  "header_line h = h_name h @ '': '' @ h_value h"

text \<open>The fields on the wire: the response's own, then those that are missing.\<close>

definition response_fields :: "server_response \<Rightarrow> headers" where
  "response_fields r =
     rs_headers r
     @ (if has_header_ci (rs_headers r) ''Connection'' then []
        else [mk_header ''Connection'' (if rs_keep_alive r then ''keep-alive'' else ''close'')])
     @ (if rs_chunked r \<and> \<not> has_header_ci (rs_headers r) ''Transfer-Encoding''
        then [mk_header ''Transfer-Encoding'' ''chunked''] else [])
     @ (if \<not> rs_chunked r \<and> \<not> has_header_ci (rs_headers r) ''Content-Length''
        then [mk_header ''Content-Length'' (dec_of_nat (length (rs_body r)))] else [])
     @ (if has_header_ci (rs_headers r) ''Content-Type'' then []
        else [mk_header ''Content-Type'' ''text/plain; charset=utf-8''])"

definition status_line :: "server_response \<Rightarrow> string" where
  "status_line r =
     ''HTTP/1.1 '' @ dec_of_int (rs_status_code r) @ '' ''
     @ (if rs_reason r = [] then status_reason (rs_status_code r) else rs_reason r)"

definition response_payload :: "server_response \<Rightarrow> string" where
  "response_payload r =
     (if rs_chunked r
      then (if rs_body r = [] then [] else serialize_chunk (rs_body r)) @ serialize_chunk_end
      else rs_body r)"

definition serialize_response :: "server_response \<Rightarrow> string" where
  "serialize_response r =
     status_line r @ CRLF @ concat (map (\<lambda>h. header_line h @ CRLF) (response_fields r)) @ CRLF
     @ response_payload r"

section \<open>Connections\<close>

definition should_keep_alive ::
  "server_request \<Rightarrow> server_response \<Rightarrow> connection_policy \<Rightarrow> connection_state \<Rightarrow> bool" where
  "should_keep_alive rq rs policy st =
     (if \<not> cp_keep_alive_enabled policy \<or> \<not> rs_keep_alive rs then False
      else if cs_handled_requests st + 1 \<ge> cp_max_keep_alive_requests policy then False
      else
        let conn = (case request_header (rq_headers rq) ''Connection'' of
                      None \<Rightarrow> [] | Some v \<Rightarrow> to_lower v)
        in if rq_major rq > 1 \<or> (rq_major rq = 1 \<and> rq_minor rq = 1) then conn \<noteq> ''close''
           else conn = ''keep-alive'')"

datatype read_exn = ReadParse parser_exn | RuntimeError string

text \<open>
  The loop of \<open>read_request_from_socket\<close> over the chunks that the socket delivers. It returns
  the outcome, the parser and the chunks not yet read; the outer \<open>None\<close> is a \<open>feed\<close> that
  does not return.
\<close>

fun read_request_from_socket ::
  "beast \<Rightarrow> fs_env \<Rightarrow> url_lib \<Rightarrow> int \<Rightarrow> server_limits \<Rightarrow> request_meta \<Rightarrow> nat
     \<Rightarrow> string list \<Rightarrow> parser_state
     \<Rightarrow> ((read_exn + server_request option) \<times> parser_state \<times> string list) option" where
  "read_request_from_socket beast env lib now limits meta consumed chunks st =
     (case next_message st of
        (Some m, st1) \<Rightarrow>
          (let rq = from_message lib m meta; check = validate_request now rq limits
           in if \<not> vr_ok check
              then Some (Inl (RuntimeError (if vr_message check = [] then ''invalid http request''
                                            else vr_message check)), st1, chunks)
              else Some (Inr (Some rq), st1, chunks))
      | (None, st1) \<Rightarrow>
          (case chunks of
             [] \<Rightarrow> Some (Inr None, st1, [])
           | chunk # rest \<Rightarrow>
               if chunk = [] then Some (Inr None, st1, rest)
               else if consumed + length chunk > sl_max_body_bytes limits + sl_max_header_bytes limits
               then Some (Inl (RuntimeError ''http request exceeds configured read limits''), st1, rest)
               else case feed beast env True chunk st1 of
                      None \<Rightarrow> None
                    | Some (Inl e, st2) \<Rightarrow> Some (Inl (ReadParse e), st2, rest)
                    | Some (Inr _, st2) \<Rightarrow>
                        read_request_from_socket beast env lib now limits meta
                          (consumed + length chunk) rest st2))"

declare read_request_from_socket.simps [simp del]

section \<open>Body readers and writers\<close>

record memory_reader =
  mr_chunks :: "string list"
  mr_index :: nat

definition memory_next_chunk :: "memory_reader \<Rightarrow> string option \<times> memory_reader" where
  "memory_next_chunk r =
     (if mr_index r \<ge> length (mr_chunks r) then (None, r)
      else (Some (mr_chunks r ! mr_index r), r\<lparr>mr_index := mr_index r + 1\<rparr>))"

record memory_writer =
  mw_buffer :: string
  mw_closed :: bool

definition memory_write_chunk :: "string \<Rightarrow> memory_writer \<Rightarrow> memory_writer" where
  "memory_write_chunk chunk w =
     (if mw_closed w then w else w\<lparr>mw_buffer := mw_buffer w @ chunk\<rparr>)"

definition memory_close :: "memory_writer \<Rightarrow> memory_writer" where
  "memory_close w = w\<lparr>mw_closed := True\<rparr>"

text \<open>A socket as the writers see it: whether it is valid, and what was written to it.\<close>

record socket =
  so_valid :: bool
  so_written :: string

record socket_writer =
  sw_socket :: socket
  sw_closed :: bool

definition socket_write_chunk :: "string \<Rightarrow> socket_writer \<Rightarrow> socket_writer" where
  "socket_write_chunk chunk w =
     (if sw_closed w \<or> \<not> so_valid (sw_socket w) then w
      else if chunk = [] then w
      else w\<lparr>sw_socket := (sw_socket w)\<lparr>so_written := so_written (sw_socket w) @ chunk\<rparr>\<rparr>)"

definition socket_close :: "socket_writer \<Rightarrow> socket_writer" where
  "socket_close w =
     (if sw_closed w then w
      else w\<lparr>sw_closed := True,
             sw_socket := (if so_valid (sw_socket w) then (sw_socket w)\<lparr>so_valid := False\<rparr>
                           else sw_socket w)\<rparr>)"

definition socket_next_chunk :: "bool \<Rightarrow> string list \<Rightarrow> string option \<times> string list" where
  "socket_next_chunk valid reads =
     (if \<not> valid then (None, reads)
      else case reads of
             [] \<Rightarrow> (None, [])
           | chunk # rest \<Rightarrow> (if chunk = [] then (None, rest) else (Some chunk, rest)))"

definition write_response_to_socket :: "server_response \<Rightarrow> socket \<Rightarrow> socket" where
  "write_response_to_socket r s = s\<lparr>so_written := so_written s @ serialize_response r\<rparr>"

text \<open>\<open>TlsSocketAdapter\<close> passes plain bytes through; \<open>write_all\<close> also returns the count.\<close>

definition tls_write_all :: "string \<Rightarrow> socket \<Rightarrow> nat \<times> socket" where
  "tls_write_all plain s =
     (if \<not> so_valid s then (0, s) else (length plain, s\<lparr>so_written := so_written s @ plain\<rparr>))"

definition tls_read_some :: "nat \<Rightarrow> bool \<Rightarrow> string list \<Rightarrow> string \<times> string list" where
  "tls_read_some max_bytes valid reads =
     (if \<not> valid then ([], reads)
      else case reads of
             [] \<Rightarrow> ([], [])
           | chunk # rest \<Rightarrow>
               (take max_bytes chunk,
                if drop max_bytes chunk = [] then rest else drop max_bytes chunk # rest))"

definition tls_close :: "socket \<Rightarrow> socket" where
  "tls_close s = (if so_valid s then s\<lparr>so_valid := False\<rparr> else s)"

section \<open>The layer-2 middleware chain\<close>

text \<open>A handler turns a request and a world state into a result (an exception or a response)
  and a new world state; a middleware also gets the next handler.\<close>

type_synonym ('e, 'w) server_handler = "server_request \<Rightarrow> 'w \<Rightarrow> ('e + server_response) \<times> 'w"
type_synonym ('e, 'w) server_middleware = "server_request \<Rightarrow> ('e, 'w) server_handler \<Rightarrow> 'w \<Rightarrow> ('e + server_response) \<times> 'w"

record ('e, 'w) middleware_chain =
  mc_middlewares :: "('e, 'w) server_middleware list"
  mc_endpoint :: "('e, 'w) server_handler option"

definition chain_use :: "('e, 'w) server_middleware \<Rightarrow> ('e, 'w) middleware_chain \<Rightarrow> ('e, 'w) middleware_chain" where
  "chain_use m c = c\<lparr>mc_middlewares := mc_middlewares c @ [m]\<rparr>"

definition chain_endpoint :: "('e, 'w) server_handler \<Rightarrow> ('e, 'w) middleware_chain \<Rightarrow> ('e, 'w) middleware_chain" where
  "chain_endpoint h c = c\<lparr>mc_endpoint := Some h\<rparr>"

text \<open>The loop of \<open>run\<close> wraps the handler in the middlewares from the last to the first;
  \<open>unset\<close> is the \<open>std::runtime_error\<close> of a chain without an endpoint.\<close>

definition chain_run :: "'e \<Rightarrow> ('e, 'w) middleware_chain \<Rightarrow> ('e, 'w) server_handler" where
  "chain_run unset c =
     (case mc_endpoint c of
        None \<Rightarrow> (\<lambda>rq w. (Inl unset, w))
      | Some endpoint \<Rightarrow>
          foldl (\<lambda>handler middleware. \<lambda>rq. middleware rq handler) endpoint (rev (mc_middlewares c)))"

interpretation request: header_lookup request_header
  by unfold_locales (auto simp: same_name_def)

lemma has_header_ci_lookup: "has_header_ci hs n \<longleftrightarrow> request_header hs n \<noteq> None"
  by (auto simp: has_header_ci_def request.get_None_iff same_name_def)

section \<open>Reading back what was written\<close>

text \<open>Fields that survive the wire: no line breaks, no outer white space, no colon in the name.\<close>

definition wire_header :: "http_header \<Rightarrow> bool" where
  "wire_header h \<longleftrightarrow> h_name h \<noteq> [] \<and> CHR '':'' \<notin> set (h_name h) \<and> CR \<notin> set (h_name h)
     \<and> CR \<notin> set (h_value h) \<and> trim_copy (h_name h) = h_name h \<and> trim_copy (h_value h) = h_value h"

definition line_fits :: "parser_options \<Rightarrow> string \<Rightarrow> bool" where
  "line_fits opts line \<longleftrightarrow> \<not> exceeds_limit (po_max_header_line_size opts) (length line)"

lemma header_line_class:
  assumes "wire_header h"
  shows "header_line h \<noteq> []" "CR \<notin> set (header_line h)"
  using assms by (auto simp: wire_header_def header_line_def)

lemma parse_header_line_read:
  assumes "wire_header h" and "line_fits opts (header_line h)"
  shows "parse_header_line opts (header_line h) kind = Inr h"
proof -
  have "find_char CHR '':'' (h_name h @ CHR '':'' # CHR '' '' # h_value h) = Some (length (h_name h))"
    using assms(1) by (intro find_char_append) (simp add: wire_header_def)
  moreover have "trim_copy (CHR '' '' # h_value h) = h_value h"
    using assms(1) by (simp add: trim_copy_def strip_by_Cons isspace_def wire_header_def)
  ultimately show ?thesis using assms
    by (simp add: parse_header_line_def header_line_def line_fits_def wire_header_def Let_def)
qed

lemma add_header_line_read:
  assumes "wire_header h" and "line_fits opts (header_line h)"
    and "\<not> exceeds_limit (po_max_header_count opts) (count + 1)"
  shows "add_header_line opts (header_line h) out count = Inr (out @ [h], count + 1)"
  using assms by (simp add: add_header_line_def parse_header_line_read)

abbreviation crlf_lines :: "headers \<Rightarrow> string" where
  "crlf_lines hs \<equiv> concat (map (\<lambda>h. CRLF @ header_line h) hs)"

lemma lines_crlf: "CRLF @ concat (map (\<lambda>h. header_line h @ CRLF) hs) = crlf_lines hs @ CRLF"
  by (induction hs) auto

lemma find_head_end:
  assumes "CR \<notin> set x" and "\<forall>h \<in> set hs. wire_header h"
  shows "find_str (CRLF @ CRLF) (x @ crlf_lines hs @ CRLF @ CRLF @ rest) = Some (length x + length (crlf_lines hs))"
  using assms
proof (induction hs arbitrary: x)
  case Nil
  then show ?case using find_str_append [of CR x "[LF, CR, LF]" rest] by simp
next
  case (Cons h hs)
  obtain c l where line: "header_line h = c # l" and c: "c \<noteq> CR"
    using header_line_class [of h] Cons.prems(2) by (cases "header_line h") auto
  have "CR \<notin> set (LF # header_line h)" using header_line_class [of h] Cons.prems(2) by simp
  from Cons.IH [OF this] Cons.prems(2)
  have rec: "find_str (CRLF @ CRLF) ((LF # header_line h) @ crlf_lines hs @ CRLF @ CRLF @ rest)
    = Some (Suc (length (header_line h)) + length (crlf_lines hs))" by simp
  have "find_str (CRLF @ CRLF) (CR # (LF # header_line h) @ crlf_lines hs @ CRLF @ CRLF @ rest)
    = Some (Suc (Suc (length (header_line h)) + length (crlf_lines hs)))"
    using rec c by (subst find_str.simps) (simp add: line)
  with find_str_skip [OF Cons.prems(1), of "[LF, CR, LF]"
      "CR # (LF # header_line h) @ crlf_lines hs @ CRLF @ CRLF @ rest"]
  show ?case by simp
qed

lemma parse_initial_headers_read:
  assumes "\<forall>h \<in> set (h # hs). wire_header h \<and> line_fits opts (header_line h)"
    and "\<not> exceeds_limit (po_max_header_count opts) (count + length (h # hs))"
  shows "parse_initial_headers opts (header_line h @ crlf_lines hs) out count
         = Inr (out @ h # hs, count + length (h # hs))"
  using assms
proof (induction hs arbitrary: h out count)
  case Nil
  then have "find_str CRLF (header_line h) = None" "header_line h \<noteq> []"
    using header_line_class [of h] by (auto intro: find_str_absent)
  with Nil show ?case
    by (simp add: parse_initial_headers.simps [of opts "header_line h"] add_header_line_read)
next
  case (Cons k hs)
  let ?block = "header_line h @ crlf_lines (k # hs)"
  have h: "header_line h \<noteq> []" "CR \<notin> set (header_line h)"
    using header_line_class [of h] Cons.prems(1) by auto
  have "find_str CRLF ?block = Some (length (header_line h))"
    using find_crlf [OF h(2), of "header_line k @ crlf_lines hs"] by simp
  moreover have "add_header_line opts (header_line h) out count = Inr (out @ [h], count + 1)"
    using Cons.prems by (intro add_header_line_read) (auto simp: exceeds_limit_def)
  moreover have "parse_initial_headers opts (header_line k @ crlf_lines hs) (out @ [h]) (count + 1)
    = Inr (out @ h # k # hs, count + length (h # k # hs))"
    using Cons.IH [of k "count + 1" "out @ [h]"] Cons.prems by simp
  ultimately show ?case using h(1)
    by (subst parse_initial_headers.simps) simp
qed

lemma substr_middle: "substr (pre @ xs @ ys) (length pre) (length xs) = xs"
  by (simp add: substr_def)

lemma hex_no_CR: "CR \<notin> set (hex_of_nat n)"
  using render_base_hex_digits [of 16 CR n] digit_value_class(8) by auto

lemma chunk_end_read:
  assumes "po_max_header_line_size opts = 0 \<or> 16 \<le> po_max_header_line_size opts"
  shows "parse_chunked_trailers opts (pre @ serialize_chunk_end @ rest) (length pre) count
         = Some (Inr ([], count))"
proof -
  have zero: "hex_of_nat 0 = ''0''" by (simp add: render_base.simps digit_char_0)
  have "find_str_from CRLF (pre @ ''0'' @ CRLF @ CRLF @ rest) (length pre) = Some (length pre + 1)"
    using find_crlf_from [of "''0''" pre "CRLF @ rest"] by simp
  moreover have "substr (pre @ ''0'' @ CRLF @ CRLF @ rest) (length pre) 1 = ''0''"
    by (simp add: substr_def)
  moreover have "parse_chunk_size opts ''0'' = Inr 0"
    using parse_chunk_size_hex [of 0 opts] assms zero by simp
  moreover have "find_str_from CRLF (pre @ ''0'' @ CRLF @ CRLF @ rest) (length pre + 3) = Some (length pre + 3)"
    using find_crlf_from [of "[]" "pre @ ''0'' @ CRLF" rest] by (simp add: numeral_3_eq_3)
  then have "parse_trailers opts (pre @ ''0'' @ CRLF @ CRLF @ rest) (length pre + 3) [] count = Inr ([], count)"
    by (subst parse_trailers.simps) simp
  ultimately show ?thesis
    by (subst parse_chunked_trailers.simps) (simp add: serialize_chunk_end_def numeral_3_eq_3)
qed

lemma chunks_read:
  assumes "po_max_header_line_size opts = 0 \<or> 16 \<le> po_max_header_line_size opts"
    and "\<forall>c \<in> set cs. c \<noteq> []"
    and "length (pre @ concat (map serialize_chunk cs) @ serialize_chunk_end @ rest) < 2 ^ 64"
  shows "parse_chunked_trailers opts (pre @ concat (map serialize_chunk cs) @ serialize_chunk_end @ rest)
           (length pre) count = Some (Inr ([], count))"
  using assms(2,3)
proof (induction cs arbitrary: pre)
  case Nil
  show ?case using chunk_end_read [OF assms(1)] by simp
next
  case (Cons c cs)
  let ?n = "length c" and ?h = "hex_of_nat (length c)"
  let ?tl = "concat (map serialize_chunk cs) @ serialize_chunk_end @ rest"
  let ?raw = "pre @ ?h @ CRLF @ c @ CRLF @ ?tl"
  have len: "length ?raw < 2 ^ 64" using Cons.prems(2) by (simp add: serialize_chunk_def [of c])
  have find: "find_str_from CRLF ?raw (length pre) = Some (length pre + length ?h)"
    by (rule find_crlf_from [OF hex_no_CR])
  have "parse_chunk_size opts ?h = Inr ?n"
    using len by (intro parse_chunk_size_hex [OF _ assms(1)]) simp
  with substr_middle [of pre ?h "CRLF @ c @ CRLF @ ?tl"]
  have size: "parse_chunk_size opts (substr ?raw (length pre) (length ?h)) = Inr ?n" by simp
  have pos: "(length pre + length ?h + 2 + ?n + 2) mod 2 ^ 64 = length pre + length ?h + 2 + ?n + 2"
    "(length pre + length ?h + 2 + ?n) mod 2 ^ 64 = length pre + length ?h + 2 + ?n"
    using len by simp_all
  have delim: "substr ?raw (length pre + length ?h + 2 + ?n) 2 = CRLF"
    using substr_middle [of "pre @ ?h @ CRLF @ c" CRLF ?tl]
    by (simp add: add.commute add.left_commute numeral_2_eq_2)
  have "parse_chunked_trailers opts ((pre @ serialize_chunk c) @ ?tl) (length (pre @ serialize_chunk c)) count
    = Some (Inr ([], count))"
    using Cons.prems by (intro Cons.IH) simp_all
  then have rec: "parse_chunked_trailers opts ?raw (length pre + length ?h + 2 + ?n + 2) count = Some (Inr ([], count))"
    by (simp add: serialize_chunk_def [of c] add.commute add.left_commute)
  have "parse_chunked_trailers opts ?raw (length pre) count = Some (Inr ([], count))"
    using find size pos delim rec len Cons.prems(1)
    by (subst parse_chunked_trailers.simps) (simp add: Let_def)
  then show ?case by (simp add: serialize_chunk_def [of c])
qed

text \<open>A response whose own fields and reason survive the wire.\<close>

definition wire_response :: "parser_options \<Rightarrow> server_response \<Rightarrow> bool" where
  "wire_response opts r \<longleftrightarrow> (\<forall>h \<in> set (rs_headers r). wire_header h) \<and> CR \<notin> set (rs_reason r)
     \<and> (\<forall>h \<in> set (response_fields r). line_fits opts (header_line h))
     \<and> \<not> exceeds_limit (po_max_header_count opts) (length (response_fields r))
     \<and> \<not> exceeds_limit (po_max_start_line_size opts) (length (status_line r))
     \<and> (po_max_header_line_size opts = 0 \<or> 16 \<le> po_max_header_line_size opts)"

lemma response_fields_nonempty: "response_fields r \<noteq> []"
  by (auto simp: response_fields_def has_header_ci_def)

lemma dec_of_nat_class:
  "CR \<notin> set (dec_of_nat n)" "trim_copy (dec_of_nat n) = dec_of_nat n"
proof -
  have dv: "digit_value c \<noteq> None" if "c \<in> set (dec_of_nat n)" for c
    using render_base_hex_digits [of 10 c n] that by simp
  show "CR \<notin> set (dec_of_nat n)" using dv digit_value_class(8) by blast
  show "trim_copy (dec_of_nat n) = dec_of_nat n"
    unfolding trim_copy_def using dv digit_value_class(1) by (intro strip_by_unchanged) blast
qed

lemma response_fields_wire:
  assumes "\<forall>h \<in> set (rs_headers r). wire_header h"
  shows "\<forall>h \<in> set (response_fields r). wire_header h"
proof -
  have "wire_header (mk_header ''Content-Length'' (dec_of_nat n))" for n
    using dec_of_nat_class by (simp add: wire_header_def) (simp add: trim_copy_def strip_by_def isspace_def)
  then show ?thesis using assms
    by (auto simp: response_fields_def wire_header_def trim_copy_def strip_by_def isspace_def)
qed

lemma status_reason_no_CR: "CR \<notin> set (status_reason code)"
  by (simp add: status_reason_def)

lemma status_line_no_CR: "CR \<notin> set (rs_reason r) \<Longrightarrow> CR \<notin> set (status_line r)"
  using status_reason_no_CR dec_of_nat_class(1) by (auto simp: status_line_def dec_of_int_def)

lemma serialize_response_head:
  "serialize_response r = status_line r @ crlf_lines (response_fields r) @ CRLF @ CRLF @ response_payload r"
  using lines_crlf [of "response_fields r"] by (simp add: serialize_response_def)

lemma try_parse_response:
  assumes wire: "wire_response (ps_options st) r" and mode: "ps_mode st \<noteq> Mode_request"
    and pending: "ps_pending st = serialize_response r @ extra"
  shows "try_parse_message beast st =
    parse_with_beast beast False (length (response_fields r)) (response_fields r)
      (length (serialize_response r) - length (response_payload r)) st"
proof -
  let ?fs = "response_fields r" and ?head = "status_line r @ crlf_lines (response_fields r)"
  have cr: "CR \<notin> set (status_line r)" using wire status_line_no_CR by (simp add: wire_response_def)
  have fs: "\<forall>h \<in> set ?fs. wire_header h"
    using wire response_fields_wire unfolding wire_response_def by blast
  obtain h hs where hs: "?fs = h # hs" using response_fields_nonempty [of r] by (cases ?fs) auto
  have head_end: "find_str (CRLF @ CRLF) (ps_pending st) = Some (length ?head)"
    using find_head_end [OF cr fs, of "response_payload r @ extra"] by (simp add: pending serialize_response_head)
  have head: "take (length ?head) (ps_pending st) = ?head"
    by (simp add: pending serialize_response_head)
  have first: "find_str CRLF ?head = Some (length (status_line r))"
    using find_crlf [OF cr, of "header_line h @ crlf_lines hs"] by (simp add: hs)
  have block: "drop (length (status_line r) + 2) ?head = header_line h @ crlf_lines hs" by (simp add: hs)
  have line: "take (length (status_line r)) ?head = status_line r" by simp
  have resp: "prefix ''HTTP/'' (status_line r)" by (simp add: status_line_def)
  have valid: "validate_start_line (ps_options st) (ps_mode st) (status_line r) True = None"
    using wire mode by (auto simp: validate_start_line_def wire_response_def)
  have parsed: "parse_initial_headers (ps_options st) (header_line h @ crlf_lines hs) [] 0 = Inr (?fs, length ?fs)"
    using parse_initial_headers_read [of h hs "ps_options st" 0 "[]"] wire fs by (simp add: hs wire_response_def)
  have "length ?head + 4 = length (serialize_response r) - length (response_payload r)"
    by (simp add: serialize_response_head)
  then show ?thesis
    unfolding try_parse_message_def head_end option.case Let_def head first block line
    using resp valid parsed by simp
qed

lemma response_payload_chunks:
  "rs_chunked r \<Longrightarrow> \<exists>cs. (\<forall>c \<in> set cs. c \<noteq> []) \<and>
     response_payload r = concat (map serialize_chunk cs) @ serialize_chunk_end"
  by (rule exI [of _ "if rs_body r = [] then [] else [rs_body r]"]) (simp add: response_payload_def)

lemma message_trailers_response:
  assumes "wire_response opts r" and "length (serialize_response r) < 2 ^ 64"
    and "headers_indicate_chunked (response_fields r) \<longrightarrow> rs_chunked r"
  shows "message_trailers opts (response_fields r) (serialize_response r)
           (length (serialize_response r) - length (response_payload r)) count = Some (Inr ([], count))"
proof (cases "headers_indicate_chunked (response_fields r)")
  case True
  let ?pre = "status_line r @ crlf_lines (response_fields r) @ CRLF @ CRLF"
  from True assms(3) response_payload_chunks obtain cs where cs: "\<forall>c \<in> set cs. c \<noteq> []"
    and payload: "response_payload r = concat (map serialize_chunk cs) @ serialize_chunk_end" by blast
  have whole: "serialize_response r = ?pre @ concat (map serialize_chunk cs) @ serialize_chunk_end @ []"
    by (simp add: serialize_response_head payload)
  have "length (serialize_response r) - length (response_payload r) = length ?pre"
    by (simp add: serialize_response_head)
  with chunks_read [OF _ cs, of opts ?pre "[]" count] assms(1,2) True show ?thesis
    by (simp add: message_trailers_def whole wire_response_def)
qed (simp add: message_trailers_def)

section \<open>What validation guarantees\<close>

definition header_bytes :: "headers \<Rightarrow> nat" where
  "header_bytes hs = sum_list (map (\<lambda>h. length (h_name h) + length (h_value h) + 4) hs)"

lemma headers_too_large_iff: "bytes \<le> limit \<Longrightarrow>
  headers_too_large limit bytes hs \<longleftrightarrow> limit < bytes + header_bytes hs"
  by (induction hs arbitrary: bytes) (auto simp: header_bytes_def Let_def)

definition request_within :: "int \<Rightarrow> server_limits \<Rightarrow> server_request \<Rightarrow> bool" where
  "request_within now l r \<longleftrightarrow> \<not> rm_cancelled (rq_meta r)
     \<and> (\<forall>d. rm_deadline (rq_meta r) = Some d \<longrightarrow> now < d)
     \<and> rq_method r \<noteq> [] \<and> length (rq_method r) \<le> sl_max_method_bytes l
     \<and> length (rq_raw_target r) \<le> sl_max_target_bytes l
     \<and> length (rq_headers r) \<le> sl_max_header_count l
     \<and> header_bytes (rq_headers r) \<le> sl_max_header_bytes l \<and> rq_body_size r \<le> sl_max_body_bytes l"

lemma validate_request_ok: "vr_ok (validate_request now r l) \<longleftrightarrow> request_within now l r"
  using headers_too_large_iff [of 0 "sl_max_header_bytes l" "rq_headers r"]
  by (auto simp: validate_request_def request_within_def reject_def validation_ok_def meta_expired_def
      not_le not_less split: option.splits)

lemma read_request_step:
  assumes "read_request_from_socket beast env lib now limits meta consumed chunks st = Some (Inr (Some rq), st', rest)"
  shows "\<exists>used. chunks = used @ rest \<and> request_within now limits rq \<and> rq_meta rq = meta
    \<and> (used \<noteq> [] \<longrightarrow> consumed + length (concat used) \<le> sl_max_body_bytes limits + sl_max_header_bytes limits)"
  using assms
proof (induction beast env lib now limits meta consumed chunks st rule: read_request_from_socket.induct)
  case (1 beast env lib now limits meta consumed chunks st)
  obtain mo st1 where nm: "next_message st = (mo, st1)" by fastforce
  show ?case
  proof (cases mo)
    case (Some m)
    with "1.prems" nm have "rq = from_message lib m meta" "rest = chunks" "vr_ok (validate_request now rq limits)"
      by (auto simp: read_request_from_socket.simps [of _ _ _ _ _ _ _ chunks] Let_def split: if_splits)
    then show ?thesis by (auto simp: validate_request_ok from_message_def)
  next
    case None
    with "1.prems" nm obtain chunk ch where chunks: "chunks = chunk # ch"
      and fits: "chunk \<noteq> []" "\<not> consumed + length chunk > sl_max_body_bytes limits + sl_max_header_bytes limits"
      by (auto simp: read_request_from_socket.simps [of _ _ _ _ _ _ _ chunks] split: list.splits if_splits)
    with "1.prems" nm None obtain u st2 where fd: "feed beast env True chunk st1 = Some (Inr u, st2)"
      and rec: "read_request_from_socket beast env lib now limits meta (consumed + length chunk) ch st2
        = Some (Inr (Some rq), st', rest)"
      by (auto simp: read_request_from_socket.simps [of _ _ _ _ _ _ _ "chunk # ch"]
          split: option.splits sum.splits)
    from "1.IH" [OF nm [symmetric] None chunks fits fd refl refl rec]
    obtain used where "ch = used @ rest" "request_within now limits rq" "rq_meta rq = meta"
      "used \<noteq> [] \<longrightarrow> consumed + length chunk + length (concat used) \<le> sl_max_body_bytes limits + sl_max_header_bytes limits"
      by blast
    with fits chunks show ?thesis by (intro exI [of _ "chunk # used"]) auto
  qed
qed

section \<open>Properties\<close>

text \<open>
  A chunked body reads back: the parser's trailer scan over any sequence of non-empty chunks
  written by \<open>serialize_chunk\<close> and closed by \<open>serialize_chunk_end\<close> returns, consumes them in
  step with the writer and finds no trailers, wherever in the message the body starts.\<close>

theorem chunk_roundtrip:
  assumes "po_max_header_line_size opts = 0 \<or> 16 \<le> po_max_header_line_size opts"
    and "\<forall>c \<in> set cs. c \<noteq> []"
    and "raw = pre @ concat (map serialize_chunk cs) @ serialize_chunk_end @ rest" and "length raw < 2 ^ 64"
  shows "parse_chunked_trailers opts raw (length pre) count = Some (Inr ([], count))"
  using chunks_read [OF assms(1,2)] assms(3,4) by simp

text \<open>What the round trip uses of Beast: it reads the serialised response as one complete message
  with the status, version and body that the response has.\<close>

definition beast_reads :: "beast \<Rightarrow> server_response \<Rightarrow> bool" where
  "beast_reads beast r \<longleftrightarrow>
     (let b = beast False (serialize_response r) in
      br_consumed b = length (serialize_response r) \<and> br_done b \<and> br_ec b = Ec_none
      \<and> bm_status (br_message b) = rs_status_code r \<and> bm_version (br_message b) = 11
      \<and> bm_body (br_message b) = rs_body r)"


text \<open>
  C36: A request that \<open>read_request_from_socket\<close> returns is within every configured limit (method,
  target, header count and bytes, body), is neither cancelled nor past its deadline, and the
  bytes read from the socket to get it are within the sum of the body and header limits.\<close>

theorem read_request_within:
  assumes "read_request_from_socket beast env lib now limits meta 0 chunks st = Some (Inr (Some rq), st', rest)"
  shows "request_within now limits rq \<and> rq_meta rq = meta \<and>
    (\<exists>used. chunks = used @ rest
       \<and> length (concat used) \<le> sl_max_body_bytes limits + sl_max_header_bytes limits)"
  using read_request_step [OF assms] by auto

text \<open>
  Middlewares run in the order they were registered, the first outermost and the endpoint
  innermost; without an endpoint no middleware runs and the error is raised.\<close>

theorem chain_run_order:
  "chain_run unset (foldl (\<lambda>c m. chain_use m c) (chain_endpoint h \<lparr>mc_middlewares = [], mc_endpoint = None\<rparr>) ms)
     = foldr (\<lambda>m next rq. m rq next) ms h
   \<and> chain_run unset \<lparr>mc_middlewares = ms, mc_endpoint = None\<rparr> rq w = (Inl unset, w)"
proof -
  have "foldl (\<lambda>c m. chain_use m c) c ms = c\<lparr>mc_middlewares := mc_middlewares c @ ms\<rparr>" for c
    by (induction ms arbitrary: c) (simp_all add: chain_use_def)
  then show ?thesis by (simp add: chain_endpoint_def chain_run_def foldr_conv_foldl)
qed

section \<open>Witnesses\<close>

theorem chunk_roundtrip_witness:
  "parse_chunked_trailers default_parser_options
     (''H'' @ concat (map serialize_chunk [''abc'', ''d'']) @ serialize_chunk_end @ []) 1 0 = Some (Inr ([], 0))"
proof -
  have hex: "hex_of_nat (Suc (Suc (Suc 0))) = [digit_char 3]" "hex_of_nat (Suc 0) = [digit_char 1]"
    by (simp_all add: render_base.simps numeral_3_eq_3)
  show ?thesis
    using chunk_roundtrip [of default_parser_options "[''abc'', ''d'']" _ "''H''" "[]" 0]
    by (simp add: default_parser_options_def serialize_chunk_def serialize_chunk_end_def hex)
qed

definition hi_response :: server_response where
  "hi_response = default_response\<lparr>rs_headers := [mk_header ''X-A'' ''b c''], rs_body := ''hi''\<rparr>"

definition hi_beast :: beast where
  "hi_beast q buf = \<lparr>br_consumed = length buf, br_ec = Ec_none, br_done = True,
     br_message = \<lparr>bm_version = 11, bm_method = [], bm_target = [], bm_status = 200, bm_reason = ''OK'',
                   bm_body = ''hi''\<rparr>\<rparr>"

definition hi_parser :: parser_state where
  "hi_parser = (new_parser Mode_response default_parser_options)\<lparr>ps_pending := serialize_response hi_response\<rparr>"

lemma hi_fields:
  "response_fields hi_response = [mk_header ''X-A'' ''b c'', mk_header ''Connection'' ''keep-alive'',
     mk_header ''Content-Length'' [digit_char 2], mk_header ''Content-Type'' ''text/plain; charset=utf-8'']"
proof -
  have "tolower CHR ''X'' = CHR ''x''" "tolower CHR ''C'' = CHR ''c''" "tolower CHR ''T'' = CHR ''t''"
    by code_simp+
  then show ?thesis
    by (simp add: response_fields_def hi_response_def default_response_def has_header_ci_def
        render_base.simps numeral_2_eq_2)
qed

lemma hi_wire: "wire_response default_parser_options hi_response"
proof -
  have "wire_header (mk_header ''X-A'' ''b c'')"
    by (simp add: wire_header_def trim_copy_def strip_by_def isspace_def)
  moreover have "length (status_line hi_response) = 15"
    by (simp add: status_line_def hi_response_def default_response_def dec_of_int_def render_base.simps
        status_reason_def)
  ultimately show ?thesis
    unfolding wire_response_def hi_fields
    by (simp add: hi_response_def default_response_def line_fits_def exceeds_limit_def
        default_parser_options_def header_line_def)
qed


definition plain_url_lib :: url_lib where
  "plain_url_lib = \<lparr>ul_parse_uri_reference = (\<lambda>_. None), ul_pct_decode = (\<lambda>_ s. Some s)\<rparr>"

lemma read_get_slash:
  "\<exists>rq st' rest. read_request_from_socket bodiless_beast tmp_env plain_url_lib 0 default_limits default_meta 0
       [get_slash] fresh_parser = Some (Inr (Some rq), st', rest)"
  by (simp add: read_request_from_socket.simps next_message_def parse_eval feed_loop.simps
      from_message_def validate_request_def default_limits_def default_meta_def meta_expired_def
      validation_ok_def empty_message_def)

theorem read_request_within_witness:
  "\<exists>rq st' rest. read_request_from_socket bodiless_beast tmp_env plain_url_lib 0 default_limits default_meta 0
       [get_slash] fresh_parser = Some (Inr (Some rq), st', rest) \<and> request_within 0 default_limits rq"
  using read_get_slash read_request_within [of bodiless_beast tmp_env plain_url_lib 0 default_limits default_meta]
  by blast

end
