(* ===== verification/Router.thy ===== *)
theory Router
  imports Router_Node Http_Server "HOL-Library.Char_ord" "HOL-Library.List_Lexorder"
begin

text \<open>
  The router of \<open>layer3/src/router.cpp\<close>: path normalisation, route registration, matching through
  sub-routers, the list of allowed methods and the list of routes. A route handler is an
  arbitrary value \<open>'h\<close>. \<open>add_route\<close> returns what it throws next to the router, since the tree
  keeps the nodes it grew before the duplicate was noticed.
\<close>

section \<open>Paths\<close>

fun squash_slashes :: "bool \<Rightarrow> string \<Rightarrow> string" where
  "squash_slashes prev [] = []"
| "squash_slashes prev (c # cs) =
     (if c = CHR ''/'' then (if prev then squash_slashes prev cs else c # squash_slashes True cs)
      else c # squash_slashes False cs)"

definition normalize_path :: "url_lib \<Rightarrow> string \<Rightarrow> string" where
  "normalize_path lib raw_path =
     (let path = rt_path (parse_request_target lib raw_path);
          start = (if path = [] \<or> hd path \<noteq> CHR ''/'' then ''/'' else []);
          n1 = start @ squash_slashes (start \<noteq> []) path;
          n2 = (if n1 = [] then ''/'' else n1)
      in if length n2 > 1 \<and> last n2 = CHR ''/'' then butlast n2 else n2)"

definition to_storage_path :: "url_lib \<Rightarrow> string \<Rightarrow> string" where
  "to_storage_path lib raw_path =
     (let normalized = normalize_path lib raw_path in if normalized = ''/'' then [] else tl normalized)"

definition prefix_matches :: "string \<Rightarrow> string \<Rightarrow> bool" where
  "prefix_matches path pre \<longleftrightarrow>
     pre = [] \<or> (prefix pre path \<and> (length path = length pre \<or> path ! length pre = CHR ''/''))"

definition wildcard_methods :: "string list" where
  "wildcard_methods = [''DELETE'', ''GET'', ''HEAD'', ''OPTIONS'', ''PATCH'', ''POST'', ''PUT'']"

text \<open>The loop over the segments of a path; empty segments are skipped.\<close>

function path_segments :: "string \<Rightarrow> string list" where
  "path_segments path =
     (if path = [] then []
      else case find_char CHR ''/'' path of
             None \<Rightarrow> [path]
           | Some i \<Rightarrow> (if i = 0 then [] else [take i path]) @ path_segments (drop (Suc i) path))"
  by pat_completeness auto
termination
  by (relation "measure length") auto

declare path_segments.simps [simp del]

definition extract_param_names :: "url_lib \<Rightarrow> string \<Rightarrow> string list" where
  "extract_param_names lib pattern =
     filter (\<lambda>n. n \<noteq> [])
       (map (\<lambda>s. snd (parse_param_segment s))
          (filter (\<lambda>s. classify s = PARAM \<or> classify s = WILDCARD)
             (path_segments (to_storage_path lib pattern))))"

definition join_prefix_pattern :: "url_lib \<Rightarrow> string \<Rightarrow> string \<Rightarrow> string" where
  "join_prefix_pattern lib pre pattern =
     (let out = ''/'' @ pre
      in if pattern = [] \<or> pattern = ''/'' then out
         else
           let rest = (if hd pattern = CHR ''/'' then tl pattern else pattern);
               out' = (if last out \<noteq> CHR ''/'' \<and> rest \<noteq> [] then out @ ''/'' else out)
           in normalize_path lib (out' @ rest))"

section \<open>Routers\<close>

record route_meta =
  rmeta_name :: string
  rmeta_description :: string
  rmeta_tags :: "string list"
  rmeta_require_auth :: bool

definition default_route_meta :: route_meta where
  "default_route_meta = \<lparr>rmeta_name = [], rmeta_description = [], rmeta_tags = [], rmeta_require_auth = False\<rparr>"

record route_info =
  ri_method :: string
  ri_pattern :: string
  ri_param_names :: "string list"
  ri_meta :: route_meta

datatype (router_handler: 'h) router =
  Router (root: "'h router_node") (sub_routers: "(string \<times> 'h router) list") (route_infos: "route_info list")

definition new_router :: "'h router" where
  "new_router = Router root_node [] []"

datatype route_error = EmptyMethod | DuplicateRoute string string

text \<open>The child a segment asks for, and the descent along the segments to the node whose
  handlers are updated.\<close>

definition segment_child :: "string \<Rightarrow> string \<times> node_type \<times> string" where
  "segment_child segment =
     (case classify segment of
        STATIC \<Rightarrow> (segment, STATIC, [])
      | t \<Rightarrow> ([], t, snd (parse_param_segment segment)))"

type_synonym 'h handler_update = "(string \<times> 'h) list \<Rightarrow> route_error option \<times> (string \<times> 'h) list"

fun add_segments ::
  "string list \<Rightarrow> 'h handler_update \<Rightarrow> 'h router_node \<Rightarrow> route_error option \<times> 'h router_node" where
  "add_segments [] f (Node p t n cs hs) = (let (e, hs') = f hs in (e, Node p t n cs hs'))"
| "add_segments (s # segs) f (Node p t n cs hs) =
     (let (path, ty, name) = segment_child s;
          (cs', i) = add_child path ty name cs;
          (e, c') = add_segments segs f (cs' ! i)
      in (e, Node p t n (cs'[i := c']) hs))"

definition set_handler :: "string \<Rightarrow> string \<Rightarrow> 'h \<Rightarrow> 'h handler_update" where
  "set_handler key pattern h hs =
     (if (if key = ''*'' then hs \<noteq> [] else key \<in> fst ` set hs \<or> ''*'' \<in> fst ` set hs)
      then (Some (DuplicateRoute key pattern), hs)
      else (None, AList.update key h hs))"

definition add_route ::
  "url_lib \<Rightarrow> string \<Rightarrow> string \<Rightarrow> 'h \<Rightarrow> route_meta option \<Rightarrow> 'h router \<Rightarrow> route_error option \<times> 'h router" where
  "add_route lib method pattern h meta r =
     (let key = (if method = ''*'' then ''*'' else to_upper method)
      in if key = [] then (Some EmptyMethod, r)
         else
           let normalized = normalize_path lib pattern;
               (e, root') = add_segments (path_segments (to_storage_path lib normalized))
                              (set_handler key normalized h) (root r)
           in (e, Router root' (sub_routers r)
                    (if e = None
                     then route_infos r @ [\<lparr>ri_method = key, ri_pattern = normalized,
                            ri_param_names = extract_param_names lib normalized,
                            ri_meta = (case meta of None \<Rightarrow> default_route_meta | Some m \<Rightarrow> m)\<rparr>]
                     else route_infos r)))"

text \<open>The registration functions of the class, one method each.\<close>

datatype verb = Verb_get | Verb_post | Verb_put | Verb_del | Verb_patch | Verb_all

primrec verb_method :: "verb \<Rightarrow> string" where
  "verb_method Verb_get = ''GET''"
| "verb_method Verb_post = ''POST''"
| "verb_method Verb_put = ''PUT''"
| "verb_method Verb_del = ''DELETE''"
| "verb_method Verb_patch = ''PATCH''"
| "verb_method Verb_all = ''*''"

definition router_verb ::
  "url_lib \<Rightarrow> verb \<Rightarrow> string \<Rightarrow> 'h \<Rightarrow> route_meta option \<Rightarrow> 'h router \<Rightarrow> route_error option \<times> 'h router" where
  "router_verb lib v pattern h meta r = add_route lib (verb_method v) pattern h meta r"

definition mount :: "url_lib \<Rightarrow> string \<Rightarrow> 'h router \<Rightarrow> 'h router \<Rightarrow> 'h router" where
  "mount lib pre sub r = Router (root r) (sub_routers r @ [(to_storage_path lib pre, sub)]) (route_infos r)"

definition params_map :: "(string \<times> string) list \<Rightarrow> (string \<rightharpoonup> string)" where
  "params_map ps = foldl (\<lambda>m (k, v). m(k \<mapsto> v)) Map.empty ps"

fun router_match :: "url_lib \<Rightarrow> string \<Rightarrow> string \<Rightarrow> 'h router \<Rightarrow> ('h \<times> (string \<rightharpoonup> string)) option"
  and subs_match :: "url_lib \<Rightarrow> string \<Rightarrow> string \<Rightarrow> (string \<times> 'h router) list \<Rightarrow> ('h \<times> (string \<rightharpoonup> string)) option" where
  "router_match lib method path (Router rt subs infos) =
     (let m = to_upper method; p = to_storage_path lib path
      in case subs_match lib m p subs of
           Some r \<Rightarrow> Some r
         | None \<Rightarrow> map_option (\<lambda>(h, ps). (h, params_map ps)) (node_match m p rt))"
| "subs_match lib m p [] = None"
| "subs_match lib m p ((pre, sub) # rest) =
     (case (if prefix_matches p pre then router_match lib m (drop (length pre) p) sub else None) of
        Some r \<Rightarrow> Some r
      | None \<Rightarrow> subs_match lib m p rest)"

definition node_methods :: "'h router_node \<Rightarrow> string list" where
  "node_methods n =
     (let keys = map fst (handlers n)
      in if ''*'' \<in> set keys then wildcard_methods
         else remdups_adj (sort (if ''GET'' \<in> set keys \<and> ''HEAD'' \<notin> set keys then keys @ [''HEAD''] else keys)))"

fun allowed_methods :: "url_lib \<Rightarrow> string \<Rightarrow> 'h router \<Rightarrow> string list"
  and subs_allowed :: "url_lib \<Rightarrow> string \<Rightarrow> (string \<times> 'h router) list \<Rightarrow> string list" where
  "allowed_methods lib path (Router rt subs infos) =
     (let p = to_storage_path lib path
      in case subs_allowed lib p subs of
           [] \<Rightarrow> (case match_node rt p of None \<Rightarrow> [] | Some n \<Rightarrow> node_methods n)
         | ms \<Rightarrow> ms)"
| "subs_allowed lib p [] = []"
| "subs_allowed lib p ((pre, sub) # rest) =
     (case (if prefix_matches p pre then allowed_methods lib (drop (length pre) p) sub else []) of
        [] \<Rightarrow> subs_allowed lib p rest
      | ms \<Rightarrow> ms)"

fun routes :: "url_lib \<Rightarrow> 'h router \<Rightarrow> route_info list"
  and subs_routes :: "url_lib \<Rightarrow> (string \<times> 'h router) list \<Rightarrow> route_info list" where
  "routes lib (Router rt subs infos) = infos @ subs_routes lib subs"
| "subs_routes lib [] = []"
| "subs_routes lib ((pre, sub) # rest) =
     map (\<lambda>i. i\<lparr>ri_pattern := join_prefix_pattern lib pre (ri_pattern i)\<rparr>) (routes lib sub) @ subs_routes lib rest"

section \<open>Normal paths\<close>

definition normal_path :: "string \<Rightarrow> bool" where
  "normal_path p \<longleftrightarrow> p = ''/'' \<or> (length p > 1 \<and> hd p = CHR ''/'' \<and> last p \<noteq> CHR ''/'' \<and> no_double_slash p)"

lemma squash_slashes_normal:
  "no_double_slash (squash_slashes prev s) \<and>
   (prev \<longrightarrow> squash_slashes prev s = [] \<or> hd (squash_slashes prev s) \<noteq> CHR ''/'')"
  by (induction prev s rule: squash_slashes.induct) (auto simp: no_double_slash_Cons)

lemma squash_slashes_id:
  "no_double_slash s \<Longrightarrow> \<not> (prev \<and> s \<noteq> [] \<and> hd s = CHR ''/'') \<Longrightarrow> squash_slashes prev s = s"
  by (induction prev s rule: squash_slashes.induct) (auto simp: no_double_slash_Cons)

lemma last_butlast_slash:
  "no_double_slash s \<Longrightarrow> length s > 1 \<Longrightarrow> last s = CHR ''/'' \<Longrightarrow> last (butlast s) \<noteq> CHR ''/''"
  by (induction s rule: no_double_slash.induct) (auto simp: no_double_slash_Cons split: if_splits)

lemma normalize_path_normal: "normal_path (normalize_path lib raw)"
proof -
  define path where "path = rt_path (parse_request_target lib raw)"
  define start where "start = (if path = [] \<or> hd path \<noteq> CHR ''/'' then ''/'' else [])"
  define n1 where "n1 = start @ squash_slashes (start \<noteq> []) path"
  have n1: "n1 \<noteq> []" "hd n1 = CHR ''/''"
    by (cases path; auto simp: n1_def start_def)+
  have nds: "no_double_slash n1"
    using squash_slashes_normal [of "start \<noteq> []" path]
    by (auto simp: n1_def start_def no_double_slash_Cons)
  have norm: "normalize_path lib raw = (if length n1 > 1 \<and> last n1 = CHR ''/'' then butlast n1 else n1)"
    unfolding normalize_path_def Let_def path_def [symmetric] start_def [symmetric] n1_def [symmetric]
    using n1(1) by simp
  obtain t where t: "n1 = CHR ''/'' # t" using n1 by (cases n1) auto
  show ?thesis
  proof (cases "length n1 > 1 \<and> last n1 = CHR ''/''")
    case True
    with nds t have "length t > 1" "last (butlast n1) \<noteq> CHR ''/''"
      using last_butlast_slash [OF nds] by (cases t; cases "tl t"; auto)+
    with True nds t show ?thesis
      by (auto simp: norm normal_path_def dest: no_double_slash_butlast)
  next
    case False
    with nds t show ?thesis by (cases t) (auto simp: norm normal_path_def)
  qed
qed

lemma normalize_path_id:
  assumes "normal_path p" and "rt_path (parse_request_target lib p) = p"
  shows "normalize_path lib p = p"
  using assms squash_slashes_id [of p False]
  by (auto simp: normalize_path_def Let_def normal_path_def)

section \<open>Registering twice\<close>

lemma path_segments_nonempty: "s \<in> set (path_segments path) \<Longrightarrow> s \<noteq> []"
proof (induction path rule: path_segments.induct)
  case (1 path)
  then show ?case
    by (subst (asm) path_segments.simps) (auto split: if_splits option.splits)
qed

lemma segment_child_static: "segment_child s = (path, STATIC, name) \<Longrightarrow> s \<noteq> [] \<Longrightarrow> path \<noteq> []"
  by (auto simp: segment_child_def split: node_type.splits)

lemma add_segments_shape: "same_shape (snd (add_segments segs f n)) n"
  by (cases n; cases segs) (auto simp: same_shape_def Let_def split: prod.splits)

text \<open>The same segments lead to the same node again, whatever is done there.\<close>

lemma add_segments_again:
  "\<forall>s \<in> set segs. s \<noteq> [] \<Longrightarrow> add_segments segs f n = (e, n') \<Longrightarrow>
     \<exists>hs. e = fst (f hs) \<and> (\<forall>g. fst (add_segments segs g n') = fst (g (snd (f hs))))"
proof (induction segs f n arbitrary: e n' rule: add_segments.induct)
  case (1 f p t n cs hs)
  then show ?case by (auto simp: Let_def split: prod.splits intro!: exI [of _ hs])
next
  case (2 s segs f p t n cs hs)
  obtain path ty name where sc: "segment_child s = (path, ty, name)" by (cases "segment_child s")
  obtain cs' i where ac: "add_child path ty name cs = (cs', i)" by fastforce
  obtain e' c' where rec: "add_segments segs f (cs' ! i) = (e', c')" by fastforce
  from "2.prems"(2) sc ac rec have e: "e = e'" and n': "n' = Node p t n (cs'[i := c']) hs" by auto
  from "2.IH" [OF sc [symmetric] refl refl ac [symmetric] refl _ rec] "2.prems"(1)
  obtain hs0 where hs0: "e' = fst (f hs0)" "\<forall>g. fst (add_segments segs g c') = fst (g (snd (f hs0)))"
    by auto
  have "same_shape c' (cs' ! i)" using add_segments_shape [of segs f "cs' ! i"] rec by simp
  moreover have "ty = STATIC \<Longrightarrow> path \<noteq> []" using segment_child_static sc "2.prems"(1) by auto
  ultimately have again: "add_child path ty name (cs'[i := c']) = (cs'[i := c'], i)" "i < length cs'"
    using add_child_again [OF ac] by blast+
  have "fst (add_segments (s # segs) g n') = fst (add_segments segs g c')" for g
    using again by (simp add: n' sc Let_def split: prod.splits)
  with hs0 e show ?case by auto
qed

lemma set_handler_twice:
  assumes "set_handler key pat h hs = (None, hs')"
  shows "fst (set_handler key pat' h' hs') = Some (DuplicateRoute key pat')"
  using assms by (auto simp: set_handler_def update_conv' dom_update split: if_splits)

section \<open>Allowed methods\<close>

lemma wildcard_methods_sorted: "sorted wildcard_methods \<and> distinct wildcard_methods"
  by code_simp

lemma distinct_unique_sorted: "sorted xs \<Longrightarrow> distinct (remdups_adj xs)"
  by (induction xs rule: remdups_adj.induct) (auto simp: dest: order.antisym)

lemma node_methods_sorted: "sorted (node_methods n) \<and> distinct (node_methods n)"
  using wildcard_methods_sorted by (auto simp: node_methods_def Let_def intro: sorted_remdups_adj distinct_unique_sorted)

lemma set_node_methods:
  "k \<in> set (node_methods n) \<Longrightarrow> k \<noteq> ''HEAD'' \<Longrightarrow> has_method k n \<or> has_method ''*'' n"
  by (auto simp: node_methods_def has_method_def Let_def split: if_splits)

lemma node_methods_nonempty: "has_method k n \<Longrightarrow> node_methods n \<noteq> []"
proof -
  assume k: "has_method k n"
  have "k \<in> set (node_methods n)" if "\<not> has_method ''*'' n"
    using k that by (auto simp: node_methods_def has_method_def Let_def)
  then show ?thesis by (cases "has_method ''*'' n") (auto simp: node_methods_def has_method_def wildcard_methods_def)
qed

lemma match_allowed:
  fixes r :: "'h router" and subs :: "(string \<times> 'h router) list"
  shows "to_upper m \<in> set (allowed_methods lib path r) \<Longrightarrow> to_upper m \<noteq> ''HEAD'' \<Longrightarrow> router_match lib m path r \<noteq> None"
    and "to_upper m \<in> set (subs_allowed lib p subs) \<Longrightarrow> to_upper m \<noteq> ''HEAD'' \<Longrightarrow> subs_match lib (to_upper m) p subs \<noteq> None"
proof (induction lib path r and lib p subs arbitrary: m and m rule: allowed_methods_subs_allowed.induct)
  case (1 lib path rt subs infos)
  let ?p = "to_storage_path lib path"
  show ?case
  proof (cases "subs_allowed lib ?p subs = []")
    case True
    with "1.prems" obtain n where n: "match_node rt ?p = Some n" "to_upper m \<in> set (node_methods n)"
      by (cases "match_node rt ?p") (auto simp: Let_def)
    then have "node_match (to_upper m) ?p rt \<noteq> None"
      using set_node_methods [OF n(2) "1.prems"(2)] node_match_iff [of "to_upper m" ?p rt] by blast
    then show ?thesis by (auto simp: Let_def split: option.splits)
  next
    case False
    with "1.prems" have "to_upper m \<in> set (subs_allowed lib ?p subs)"
      by (auto simp: Let_def split: list.splits)
    with "1.IH" [OF refl this "1.prems"(2)] show ?thesis by (auto simp: Let_def split: option.splits)
  qed
next
  case (3 lib p pre sub rest)
  show ?case
  proof (cases "prefix_matches p pre \<and> allowed_methods lib (drop (length pre) p) sub \<noteq> []")
    case True
    with "3.prems" have "to_upper m \<in> set (allowed_methods lib (drop (length pre) p) sub)"
      by (auto split: list.splits)
    then have "to_upper (to_upper m) \<in> set (allowed_methods lib (drop (length pre) p) sub)"
      by (simp add: comp_def)
    moreover have "to_upper (to_upper m) \<noteq> ''HEAD''" using "3.prems"(2) by (simp add: comp_def)
    ultimately have "router_match lib (to_upper m) (drop (length pre) p) sub \<noteq> None"
      using "3.IH"(1) True by blast
    with True show ?thesis by (auto split: option.splits)
  next
    case False
    with "3.prems" have "to_upper m \<in> set (subs_allowed lib p rest)" by (auto split: if_splits)
    moreover have "(if prefix_matches p pre then allowed_methods lib (drop (length pre) p) sub else []) = []"
      using False by auto
    ultimately have "subs_match lib (to_upper m) p rest \<noteq> None" using "3.IH"(2) "3.prems"(2) by blast
    then show ?thesis by (auto split: option.splits)
  qed
qed simp

lemma allowed_match:
  fixes r :: "'h router" and subs :: "(string \<times> 'h router) list"
  shows "router_match lib m path r \<noteq> None \<Longrightarrow> allowed_methods lib path r \<noteq> []"
    and "subs_match lib m p subs \<noteq> None \<Longrightarrow> subs_allowed lib p subs \<noteq> []"
proof (induction lib m path r and lib m p subs rule: router_match_subs_match.induct)
  case (1 lib m path rt subs infos)
  let ?p = "to_storage_path lib path"
  show ?case
  proof (cases "subs_match lib (to_upper m) ?p subs")
    case None
    with "1.prems" have "node_match (to_upper m) ?p rt \<noteq> None" by (auto simp: Let_def)
    then obtain n k where "match_node rt ?p = Some n" "has_method k n" using node_match_iff by blast
    then show ?thesis using node_methods_nonempty by (auto simp: Let_def split: list.splits)
  next
    case (Some x)
    with "1.IH" [OF refl refl] show ?thesis by (auto simp: Let_def split: list.splits)
  qed
next
  case (3 lib m p pre sub rest)
  then show ?case by (auto split: option.splits list.splits if_splits)
qed simp

lemma allowed_sorted:
  fixes r :: "'h router" and subs :: "(string \<times> 'h router) list"
  shows "sorted (allowed_methods lib path r) \<and> distinct (allowed_methods lib path r)"
    and "sorted (subs_allowed lib p subs) \<and> distinct (subs_allowed lib p subs)"
  by (induction lib path r and lib p subs rule: allowed_methods_subs_allowed.induct)
    (auto simp: Let_def node_methods_sorted split: list.splits option.splits)

section \<open>Finding a route\<close>

text \<open>What a pattern means, segment by segment, and the parameters it captures.\<close>

fun join_slash :: "string list \<Rightarrow> string" where
  "join_slash [] = []"
| "join_slash [v] = v"
| "join_slash (v # w # vs) = v @ CHR ''/'' # join_slash (w # vs)"

fun pattern_params :: "string list \<Rightarrow> string list \<Rightarrow> (string \<times> string) list option" where
  "pattern_params [] [] = Some []"
| "pattern_params (s # segs) (v # vs) =
     (case classify s of
        STATIC \<Rightarrow> if v = s then pattern_params segs vs else None
      | PARAM \<Rightarrow> map_option (Cons (snd (parse_param_segment s), v)) (pattern_params segs vs)
      | WILDCARD \<Rightarrow> if segs = [] then Some [(snd (parse_param_segment s), join_slash (v # vs))] else None)"
| "pattern_params _ _ = None"

definition plain_segment :: "string \<Rightarrow> bool" where
  "plain_segment s \<longleftrightarrow> s \<noteq> [] \<and> CHR ''/'' \<notin> set s"

lemma path_segments_plain: "s \<in> set (path_segments path) \<Longrightarrow> plain_segment s"
proof (induction path rule: path_segments.induct)
  case (1 path)
  show ?case
  proof (cases "find_char CHR ''/'' path")
    case None
    moreover from None have "CHR ''/'' \<notin> set path" by (simp add: find_char_None)
    ultimately show ?thesis using "1.prems"
      by (auto simp: path_segments.simps [of path] plain_segment_def split: if_splits)
  next
    case (Some i)
    then have "path \<noteq> []" "i < length path" "CHR ''/'' \<notin> set (take i path)" by (auto simp: find_char_Some)
    with Some "1.prems" have "(i \<noteq> 0 \<and> s = take i path) \<or> s \<in> set (path_segments (drop (Suc i) path))"
      by (auto simp: path_segments.simps [of path] split: if_splits)
    with "1.IH" [OF \<open>path \<noteq> []\<close> Some] \<open>path \<noteq> []\<close> \<open>CHR ''/'' \<notin> set (take i path)\<close> show ?thesis
      by (auto simp: plain_segment_def)
  qed
qed

lemma join_path_segments:
  "no_double_slash p \<Longrightarrow> p \<noteq> [] \<Longrightarrow> hd p \<noteq> CHR ''/'' \<Longrightarrow> last p \<noteq> CHR ''/'' \<Longrightarrow>
     join_slash (path_segments p) = p \<and> path_segments p \<noteq> []"
proof (induction p rule: path_segments.induct)
  case (1 p)
  show ?case
  proof (cases "find_char CHR ''/'' p")
    case None
    with "1.prems" show ?thesis by (simp add: path_segments.simps [of p])
  next
    case (Some i)
    note split = find_char_split [OF Some]
    have i: "i \<noteq> 0"
    proof
      assume "i = 0"
      with Some "1.prems"(2,3) show False by (simp add: find_char_Some hd_conv_nth)
    qed
    let ?r = "drop (Suc i) p"
    have r: "?r \<noteq> []" using "1.prems"(4) split by (metis last_snoc)
    moreover have "no_double_slash (CHR ''/'' # ?r)"
    proof -
      have "no_double_slash (xs @ ys) \<Longrightarrow> no_double_slash ys" for xs ys
        by (induction xs) (auto simp: no_double_slash_Cons)
      then show ?thesis using "1.prems"(1) split by metis
    qed
    ultimately have IH: "join_slash (path_segments ?r) = ?r \<and> path_segments ?r \<noteq> []"
      using "1.IH" [OF "1.prems"(2) Some] "1.prems"(4) by (auto simp: no_double_slash_Cons)
    obtain w ws where "path_segments ?r = w # ws" using IH by (cases "path_segments ?r") auto
    with IH have "join_slash (take i p # path_segments ?r) = take i p @ CHR ''/'' # ?r" by simp
    with Some i "1.prems"(2) IH split show ?thesis by (simp add: path_segments.simps [of p])
  qed
qed

lemma storage_path_segments: "join_slash (path_segments (to_storage_path lib path)) = to_storage_path lib path"
proof (cases "normalize_path lib path = ''/''")
  case True
  then show ?thesis by (simp add: to_storage_path_def path_segments.simps)
next
  case False
  with normalize_path_normal [of lib path] obtain t where t: "normalize_path lib path = CHR ''/'' # t"
    "t \<noteq> []" "last t \<noteq> CHR ''/''" "no_double_slash (CHR ''/'' # t)"
    by (cases "normalize_path lib path") (auto simp: normal_path_def)
  with join_path_segments [of t] show ?thesis by (simp add: to_storage_path_def no_double_slash_Cons)
qed

lemma add_child_empty: "add_child path t name [] = ([Node path t name [] []], 0)"
  by (simp add: add_child_def)

lemma add_segments_fresh:
  "add_segments (s # segs) f (Node p t n [] hs) =
     (case segment_child s of (path, ty, name) \<Rightarrow>
        (case add_segments segs f (Node path ty name [] []) of (e, c) \<Rightarrow> (e, Node p t n [c] hs)))"
  by (auto simp: add_child_empty Let_def split: prod.splits)

lemma match_walk_slash: "match_walk n (CHR ''/'' # r) ps = match_walk n r ps"
  by (subst match_walk.simps) simp

lemma match_walk_step:
  "match_step n r = Some (c, r', ps') \<Longrightarrow> r \<noteq> [] \<Longrightarrow> hd r \<noteq> CHR ''/'' \<Longrightarrow> match_walk n r ps = match_walk c r' (ps @ ps')"
  by (subst match_walk.simps) simp

definition rest_path :: "string list \<Rightarrow> string" where
  "rest_path vs = (if vs = [] then [] else CHR ''/'' # join_slash vs)"

lemma join_slash_Cons: "join_slash (v # vs) = v @ rest_path vs"
  by (cases vs) (auto simp: rest_path_def)

lemma match_walk_rest: "match_walk n (rest_path vs) ps = match_walk n (join_slash vs) ps"
  by (cases vs) (auto simp: rest_path_def match_walk_slash)

lemma find_slash_value:
  assumes "plain_segment v"
  shows "(case find_char CHR ''/'' (v @ rest_path vs) of None \<Rightarrow> v @ rest_path vs | Some i \<Rightarrow> take i (v @ rest_path vs)) = v"
    "(case find_char CHR ''/'' (v @ rest_path vs) of None \<Rightarrow> [] | Some i \<Rightarrow> drop i (v @ rest_path vs)) = rest_path vs"
proof -
  have "find_char CHR ''/'' (v @ rest_path vs) = (if vs = [] then None else Some (length v))"
    using assms find_char_append [of "CHR ''/''" v "join_slash vs"]
    by (auto simp: plain_segment_def rest_path_def find_char_None)
  then show "(case find_char CHR ''/'' (v @ rest_path vs) of None \<Rightarrow> v @ rest_path vs | Some i \<Rightarrow> take i (v @ rest_path vs)) = v"
    "(case find_char CHR ''/'' (v @ rest_path vs) of None \<Rightarrow> [] | Some i \<Rightarrow> drop i (v @ rest_path vs)) = rest_path vs"
    by (auto simp: rest_path_def)
qed

lemma chain_walk:
  assumes "pattern_params segs vs = Some ps" and "\<forall>v \<in> set vs. plain_segment v"
  shows "\<exists>n. match_walk (snd (add_segments segs f (Node p t nm [] hs))) (join_slash vs) acc = (n, [], acc @ ps)
             \<and> handlers n = snd (f (if segs = [] then hs else []))"
  using assms
proof (induction segs vs arbitrary: ps p t nm hs acc rule: pattern_params.induct)
  case 1
  then show ?case by (simp add: match_walk.simps Let_def split: prod.splits)
next
  case (2 s segs v vs)
  obtain path ty name where sc: "segment_child s = (path, ty, name)" by (cases "segment_child s")
  let ?c = "snd (add_segments segs f (Node path ty name [] []))"
  let ?n = "snd (add_segments (s # segs) f (Node p t nm [] hs))"
  have n: "?n = Node p t nm [?c] hs" by (simp add: add_segments_fresh sc split: prod.splits del: add_segments.simps)
  have c: "node_prefix ?c = path" "node_type ?c = ty" "param_name ?c = name"
    using add_segments_shape [of segs f "Node path ty name [] []"] by (simp_all add: same_shape_def)
  have v: "v \<noteq> []" "hd (v @ rest_path vs) \<noteq> CHR ''/''" "plain_segment v"
    using "2.prems"(2) by (cases v; auto simp: plain_segment_def)+
  have step: ?case if "match_step ?n (v @ rest_path vs) = Some (?c, rest_path vs, ps1)"
    and "ps = ps1 @ ps2" and "pattern_params segs vs = Some ps2"
    and "classify s = STATIC \<and> v = s \<or> classify s = PARAM" for ps1 ps2
  proof -
    have "\<exists>n. match_walk ?c (join_slash vs) (acc @ ps1) = (n, [], (acc @ ps1) @ ps2) \<and> handlers n = snd (f [])"
      using that(4)
    proof
      assume "classify s = STATIC \<and> v = s"
      then show ?thesis using "2.IH"(1) [OF _ _ that(3), of path ty name "[]" "acc @ ps1"] "2.prems"(2) by simp
    next
      assume "classify s = PARAM"
      then show ?thesis using "2.IH"(2) [OF _ that(3), of path ty name "[]" "acc @ ps1"] "2.prems"(2) by simp
    qed
    with that v show ?thesis
      by (simp add: join_slash_Cons match_walk_step match_walk_rest del: add_segments.simps)
  qed
  show ?case
  proof (cases "classify s")
    case STATIC
    with "2.prems"(1) sc have "v = s" "path = s" "ty = STATIC" "pattern_params segs vs = Some ps"
      by (auto simp: segment_child_def split: if_splits)
    with STATIC show ?thesis
      using c by (intro step [of "[]"]) (simp_all add: match_step_def match_static_def is_child_def n del: add_segments.simps)
  next
    case PARAM
    with "2.prems"(1) sc obtain ps2 where "ty = PARAM" "ps = [(name, v)] @ ps2" "pattern_params segs vs = Some ps2"
      by (auto simp: segment_child_def)
    with PARAM show ?thesis using c v find_slash_value [OF v(3), of vs]
      by (intro step [of "[(name, v)]"])
        (simp_all add: match_step_def match_static_def match_param_def is_child_def n Let_def del: add_segments.simps)
  next
    case WILDCARD
    with "2.prems"(1) sc have w: "ty = WILDCARD" "ps = [(name, v @ rest_path vs)]" "segs = []"
      by (auto simp: segment_child_def join_slash_Cons split: if_splits)
    have "match_step ?n (v @ rest_path vs) = Some (?c, [], ps)"
      unfolding n using c w
      by (simp add: match_step_def match_static_def match_param_def match_wildcard_def is_child_def Let_def
          del: add_segments.simps)
    then have "match_walk ?n (v @ rest_path vs) acc = (?c, [], acc @ ps)"
      using v by (simp add: match_walk_step match_walk.simps [of _ "[]"] del: add_segments.simps)
    moreover have "handlers ?c = snd (f [])" using w(3) by (simp add: Let_def split: prod.splits)
    ultimately show ?thesis by (simp add: join_slash_Cons del: add_segments.simps)
  qed
qed simp_all

section \<open>Properties\<close>

text \<open>
  Registering a method and pattern a second time is refused with the duplicate-route error,
  whatever the first registration did to the tree, and for any later handler; a refused
  registration adds no entry to the list of routes.\<close>

theorem duplicate_route_refused:
  assumes "add_route lib method pattern h meta r = (None, r')"
  shows "\<exists>key pat. fst (add_route lib method pattern h' meta' r') = Some (DuplicateRoute key pat)
    \<and> route_infos (snd (add_route lib method pattern h' meta' r')) = route_infos r'"
proof -
  define key where "key = (if method = ''*'' then ''*'' else to_upper method)"
  define pat where "pat = normalize_path lib pattern"
  define segs where "segs = path_segments (to_storage_path lib pat)"
  obtain e rt where a: "add_segments segs (set_handler key pat h) (root r) = (e, rt)" by fastforce
  from assms a have key: "key \<noteq> []" and e: "e = None" and r': "root r' = rt"
    by (auto simp: add_route_def Let_def key_def [symmetric] pat_def [symmetric] segs_def [symmetric] split: if_splits)
  have "\<forall>s \<in> set segs. s \<noteq> []" using path_segments_nonempty segs_def by blast
  from add_segments_again [OF this a] obtain hs where "None = fst (set_handler key pat h hs)"
    and again: "\<And>g. fst (add_segments segs g rt) = fst (g (snd (set_handler key pat h hs)))" using e by auto
  then have "fst (add_segments segs (set_handler key pat h') rt) = Some (DuplicateRoute key pat)"
    using set_handler_twice [of key pat h hs] by (simp add: prod_eq_iff)
  with key show ?thesis
    by (auto simp: add_route_def Let_def key_def [symmetric] pat_def [symmetric] segs_def [symmetric] r'
        split: prod.splits)
qed

text \<open>
  C38: The two questions the application asks agree. A method that \<open>allowed_methods\<close> lists for a
  path is served by \<open>match\<close> (only \<open>HEAD\<close> is listed on behalf of \<open>GET\<close>), a path that some method
  matches has allowed methods, and the list is sorted without duplicates; sub-routers included.\<close>

theorem allowed_methods_correct:
  "(to_upper m \<in> set (allowed_methods lib path r) \<longrightarrow> to_upper m \<noteq> ''HEAD'' \<longrightarrow> router_match lib m path r \<noteq> None)
   \<and> (router_match lib m path r \<noteq> None \<longrightarrow> allowed_methods lib path r \<noteq> [])
   \<and> sorted (allowed_methods lib path r) \<and> distinct (allowed_methods lib path r)"
  using match_allowed(1) allowed_match(1) allowed_sorted(1) by blast


text \<open>
  Normalised paths are canonical: one leading slash, no doubled and no trailing one, and
  normalising again changes nothing when the URL parser reads the path as it is.\<close>

theorem normalize_path_canonical:
  "normal_path (normalize_path lib raw)
   \<and> (rt_path (parse_request_target lib (normalize_path lib raw)) = normalize_path lib raw \<longrightarrow>
        normalize_path lib (normalize_path lib raw) = normalize_path lib raw)"
  using normalize_path_normal normalize_path_id by blast

section \<open>Witnesses and two defects\<close>


lemmas router_eval = normalize_path_def to_storage_path_def parse_request_target_def plain_url_lib_def
  path_segments.simps add_route_def new_router_def root_node_def set_handler_def segment_child_def
  classify_def parse_param_segment_def substr_def add_child_def split_child_def name_child_def
  default_route_meta_def extract_param_names_def Let_def

lemma upper_get [simp]: "to_upper ''GET'' = ''GET''"
  by code_simp

theorem duplicate_route_refused_witness:
  "\<exists>key pat. fst (add_route plain_url_lib ''GET'' ''/a'' (2::nat) None
      (snd (add_route plain_url_lib ''GET'' ''/a'' 1 None new_router))) = Some (DuplicateRoute key pat)"
proof -
  have "fst (add_route plain_url_lib ''GET'' ''/a'' (1::nat) None new_router) = None"
    by (simp add: router_eval del: list.map)
  then have "add_route plain_url_lib ''GET'' ''/a'' (1::nat) None new_router
      = (None, snd (add_route plain_url_lib ''GET'' ''/a'' 1 None new_router))" by (simp add: prod_eq_iff)
  from duplicate_route_refused [OF this, of 2 None] show ?thesis by blast
qed

theorem allowed_methods_correct_witness:
  "to_upper ''GET'' \<in> set (allowed_methods plain_url_lib ''/a'' (snd (add_route plain_url_lib ''GET'' ''/a'' (1::nat) None new_router)))
   \<and> router_match plain_url_lib ''GET'' ''/a'' (snd (add_route plain_url_lib ''GET'' ''/a'' (1::nat) None new_router)) \<noteq> None"
proof -
  let ?r = "snd (add_route plain_url_lib ''GET'' ''/a'' (1::nat) None new_router)"
  have "to_upper ''GET'' \<in> set (allowed_methods plain_url_lib ''/a'' ?r)"
    by (simp add: router_eval match_node.simps is_child_def node_methods_def del: list.map)
  moreover have "to_upper ''GET'' \<noteq> ''HEAD''" by (simp del: list.map)
  ultimately show ?thesis using allowed_methods_correct [of "''GET''" plain_url_lib "''/a''" ?r] by blast
qed


theorem normalize_path_canonical_witness:
  "normalize_path plain_url_lib ''a//b/'' = ''/a/b''
   \<and> normalize_path plain_url_lib (normalize_path plain_url_lib ''a//b/'') = normalize_path plain_url_lib ''a//b/''"
proof -
  have n: "normalize_path plain_url_lib ''a//b/'' = ''/a/b''" by (simp add: router_eval)
  moreover have "rt_path (parse_request_target plain_url_lib ''/a/b'') = ''/a/b''" by (simp add: router_eval)
  ultimately show ?thesis using normalize_path_canonical [of plain_url_lib "''a//b/''"] by simp
qed

text \<open>
  A route whose first segment extends an earlier static segment is lost: after \<open>/users\<close> and
  \<open>/users2\<close> are registered, a request for \<open>/users2\<close> has no match, and a request for \<open>/2\<close>
  reaches its handler. (The loop of \<open>add_child\<close> goes on among the siblings with the rest of the
  segment instead of descending into the child.)\<close>

theorem longer_sibling_lost:
  "case add_route plain_url_lib ''GET'' ''/users'' (1::nat) None new_router of
     (e1, r1) \<Rightarrow> (case add_route plain_url_lib ''GET'' ''/users2'' 2 None r1 of
       (e2, r2) \<Rightarrow> e1 = None \<and> e2 = None
         \<and> router_match plain_url_lib ''GET'' ''/users2'' r2 = None
         \<and> map_option fst (router_match plain_url_lib ''GET'' ''/2'' r2) = Some 2)"
  by (simp add: router_eval node_match_def match_walk.simps match_step_def match_static_def match_param_def
      match_wildcard_def is_child_def del: list.map)

text \<open>
  Static segments match without a segment boundary: with only \<open>/a/b\<close> registered, a request
  for \<open>/ab\<close> is served by its handler.\<close>

theorem boundary_not_required:
  "map_option fst (router_match plain_url_lib ''GET'' ''/ab''
     (snd (add_route plain_url_lib ''GET'' ''/a/b'' (1::nat) None new_router))) = Some 1"
  by (simp add: router_eval node_match_def match_walk.simps match_step_def match_static_def match_param_def
      match_wildcard_def is_child_def del: list.map)

end
