(* ===== verification/Layer3_Error.thy ===== *)
theory Layer3_Error
  imports Prelude
begin

text \<open>
  The error values of the framework (\<open>layer3/include/async_uv_layer3/error.hpp\<close>), their JSON form,
  and the exceptions that handlers and middlewares throw. The JSON escaping is the one that
  \<open>error.hpp\<close>, \<open>middleware.hpp\<close> and \<open>app.cpp\<close> each spell out.
\<close>

datatype error_code =
  Ok | BadRequest | Unauthorized | Forbidden | NotFound | MethodNotAllowed | Conflict
  | PayloadTooLarge | UnsupportedMediaType | UnprocessableEntity | TooManyRequests
  | InternalServerError | NotImplemented | ServiceUnavailable | GatewayTimeout

fun error_code_value :: "error_code \<Rightarrow> int" where
  "error_code_value Ok = 0"
| "error_code_value BadRequest = 400"
| "error_code_value Unauthorized = 401"
| "error_code_value Forbidden = 403"
| "error_code_value NotFound = 404"
| "error_code_value MethodNotAllowed = 405"
| "error_code_value Conflict = 409"
| "error_code_value PayloadTooLarge = 413"
| "error_code_value UnsupportedMediaType = 415"
| "error_code_value UnprocessableEntity = 422"
| "error_code_value TooManyRequests = 429"
| "error_code_value InternalServerError = 500"
| "error_code_value NotImplemented = 501"
| "error_code_value ServiceUnavailable = 503"
| "error_code_value GatewayTimeout = 504"

datatype biz_error =
  InvalidJson | MissingField | InvalidField | InvalidToken | TokenExpired | ResourceNotFound
  | DatabaseError | ExternalServiceError

fun biz_error_value :: "biz_error \<Rightarrow> int" where
  "biz_error_value InvalidJson = 10001"
| "biz_error_value MissingField = 10002"
| "biz_error_value InvalidField = 10003"
| "biz_error_value InvalidToken = 11001"
| "biz_error_value TokenExpired = 11002"
| "biz_error_value ResourceNotFound = 14001"
| "biz_error_value DatabaseError = 15001"
| "biz_error_value ExternalServiceError = 15002"

text \<open>\<open>HttpError\<close>, an enumeration over \<open>int\<close>.\<close>

datatype http_error =
  HE_BadRequest | HE_Unauthorized | HE_Forbidden | HE_NotFound | HE_MethodNotAllowed
  | HE_PayloadTooLarge | HE_UnsupportedMediaType | HE_TooManyRequests | HE_InternalServerError

fun http_error_value :: "http_error \<Rightarrow> int" where
  "http_error_value HE_BadRequest = 400"
| "http_error_value HE_Unauthorized = 401"
| "http_error_value HE_Forbidden = 403"
| "http_error_value HE_NotFound = 404"
| "http_error_value HE_MethodNotAllowed = 405"
| "http_error_value HE_PayloadTooLarge = 413"
| "http_error_value HE_UnsupportedMediaType = 415"
| "http_error_value HE_TooManyRequests = 429"
| "http_error_value HE_InternalServerError = 500"

record error =
  er_code :: error_code
  er_message :: string
  er_details :: string

abbreviation mk_error :: "error_code \<Rightarrow> string \<Rightarrow> string \<Rightarrow> error" where
  "mk_error c m d \<equiv> \<lparr>er_code = c, er_message = m, er_details = d\<rparr>"

definition is_error :: "error \<Rightarrow> bool" where
  "is_error e \<longleftrightarrow> er_code e \<noteq> Ok"

definition error_status_code :: "error \<Rightarrow> int" where
  "error_status_code e = error_code_value (er_code e)"

definition status_text :: "error \<Rightarrow> string" where
  "status_text e =
     (case er_code e of
        BadRequest \<Rightarrow> ''Bad Request'' | Unauthorized \<Rightarrow> ''Unauthorized'' | Forbidden \<Rightarrow> ''Forbidden''
      | NotFound \<Rightarrow> ''Not Found'' | MethodNotAllowed \<Rightarrow> ''Method Not Allowed'' | Conflict \<Rightarrow> ''Conflict''
      | PayloadTooLarge \<Rightarrow> ''Payload Too Large'' | UnsupportedMediaType \<Rightarrow> ''Unsupported Media Type''
      | UnprocessableEntity \<Rightarrow> ''Unprocessable Entity'' | TooManyRequests \<Rightarrow> ''Too Many Requests''
      | InternalServerError \<Rightarrow> ''Internal Server Error'' | NotImplemented \<Rightarrow> ''Not Implemented''
      | ServiceUnavailable \<Rightarrow> ''Service Unavailable'' | GatewayTimeout \<Rightarrow> ''Gateway Timeout''
      | Ok \<Rightarrow> ''OK'')"

definition error_code_name :: "error_code \<Rightarrow> string" where
  "error_code_name c =
     (case c of
        Ok \<Rightarrow> ''OK'' | BadRequest \<Rightarrow> ''BAD_REQUEST'' | Unauthorized \<Rightarrow> ''UNAUTHORIZED''
      | Forbidden \<Rightarrow> ''FORBIDDEN'' | NotFound \<Rightarrow> ''ROUTE_NOT_FOUND''
      | MethodNotAllowed \<Rightarrow> ''METHOD_NOT_ALLOWED'' | Conflict \<Rightarrow> ''CONFLICT''
      | PayloadTooLarge \<Rightarrow> ''PAYLOAD_TOO_LARGE'' | UnsupportedMediaType \<Rightarrow> ''UNSUPPORTED_MEDIA_TYPE''
      | UnprocessableEntity \<Rightarrow> ''INVALID_FIELD'' | TooManyRequests \<Rightarrow> ''TOO_MANY_REQUESTS''
      | InternalServerError \<Rightarrow> ''INTERNAL_ERROR'' | NotImplemented \<Rightarrow> ''NOT_IMPLEMENTED''
      | ServiceUnavailable \<Rightarrow> ''SERVICE_UNAVAILABLE'' | GatewayTimeout \<Rightarrow> ''GATEWAY_TIMEOUT'')"

definition error_biz_code :: "error_code \<Rightarrow> int option" where
  "error_biz_code c =
     (case c of
        BadRequest \<Rightarrow> Some (biz_error_value InvalidJson)
      | UnprocessableEntity \<Rightarrow> Some (biz_error_value InvalidField)
      | Unauthorized \<Rightarrow> Some (biz_error_value InvalidToken)
      | _ \<Rightarrow> None)"

record app_error =
  ae_http_error :: http_error
  ae_code :: string
  ae_biz_error :: "biz_error option"
  ae_message :: string
  ae_detail :: "string option"

datatype exn = AppErrorException app_error | FrameworkError error | StdException string | OtherException

section \<open>JSON strings\<close>

definition json_esc :: "char \<Rightarrow> string" where
  "json_esc c =
     (if c = BSLASH then [BSLASH, BSLASH]
      else if c = DQUOTE then [BSLASH, DQUOTE]
      else if c = LF then [BSLASH, CHR ''n'']
      else if c = CR then [BSLASH, CHR ''r'']
      else if c = TAB then [BSLASH, CHR ''t'']
      else [c])"

definition json_escape :: "string \<Rightarrow> string" where
  "json_escape = escape_with json_esc"

definition json_string :: "string \<Rightarrow> string" where
  "json_string s = DQUOTE # json_escape s @ [DQUOTE]"

text \<open>How a JSON reader takes one character off the front of a string body.\<close>

definition json_unesc :: "string \<Rightarrow> (char \<times> string) option" where
  "json_unesc s =
     (case s of
        [] \<Rightarrow> None
      | c # r \<Rightarrow>
          if c \<noteq> BSLASH then Some (c, r)
          else case r of
                 [] \<Rightarrow> None
               | d # r' \<Rightarrow>
                   if d = BSLASH \<or> d = DQUOTE then Some (d, r')
                   else if d = CHR ''n'' then Some (LF, r')
                   else if d = CHR ''r'' then Some (CR, r')
                   else if d = CHR ''t'' then Some (TAB, r')
                   else None)"

interpretation json: char_escape json_esc json_unesc DQUOTE
  by unfold_locales (auto simp: json_esc_def json_unesc_def)

definition error_to_json :: "error \<Rightarrow> string" where
  "error_to_json e =
     ''{'' @ json_string ''code'' @ '':'' @ dec_of_int (error_status_code e)
     @ '','' @ json_string ''message'' @ '':'' @ json_string (er_message e)
     @ (if er_details e = [] then [] else '','' @ json_string ''details'' @ '':'' @ json_string (er_details e))
     @ ''}''"

section \<open>Properties\<close>

text \<open>
  No error text can break out of its JSON string: a reader that starts behind the opening quote
  of the message recovers exactly the message and stops at the quote the writer added, and the
  same holds for the details; distinct messages have distinct encodings.\<close>

theorem error_json_reads_back:
  "\<exists>head tail. error_to_json e = head @ DQUOTE # json_escape (er_message e) @ DQUOTE # tail
     \<and> scan_quoted json_unesc DQUOTE (Suc (length (er_message e))) (json_escape (er_message e) @ DQUOTE # tail)
         = Some (er_message e, tail)
     \<and> (er_details e \<noteq> [] \<longrightarrow>
          (\<exists>pre. tail = pre @ DQUOTE # json_escape (er_details e) @ DQUOTE # ''}''
             \<and> scan_quoted json_unesc DQUOTE (Suc (length (er_details e))) (json_escape (er_details e) @ DQUOTE # ''}'')
                 = Some (er_details e, ''}'')))
     \<and> (json_escape (er_message e) = json_escape m \<longrightarrow> er_message e = m)"
proof -
  let ?head = "''{'' @ json_string ''code'' @ '':'' @ dec_of_int (error_status_code e) @ '','' @ json_string ''message'' @ '':''"
  let ?pre = "'','' @ json_string ''details'' @ '':''"
  let ?tail = "(if er_details e = [] then [] else ?pre @ json_string (er_details e)) @ ''}''"
  have "error_to_json e = ?head @ DQUOTE # json_escape (er_message e) @ DQUOTE # ?tail"
    by (simp add: error_to_json_def json_string_def [of "er_message e"])
  moreover have "er_details e \<noteq> [] \<longrightarrow> ?tail = ?pre @ DQUOTE # json_escape (er_details e) @ DQUOTE # ''}''"
    by (simp add: json_string_def [of "er_details e"])
  ultimately show ?thesis
    using json.scan_escaped [OF lessI] json.escape_inject unfolding json_escape_def by blast
qed

text \<open>A message full of special characters.\<close>

theorem error_json_reads_back_witness:
  "\<exists>head tail. error_to_json (mk_error BadRequest [DQUOTE, BSLASH, LF] ''d'')
       = head @ DQUOTE # json_escape [DQUOTE, BSLASH, LF] @ DQUOTE # tail
     \<and> scan_quoted json_unesc DQUOTE 4 (json_escape [DQUOTE, BSLASH, LF] @ DQUOTE # tail)
       = Some ([DQUOTE, BSLASH, LF], tail)"
  using error_json_reads_back [of "mk_error BadRequest [DQUOTE, BSLASH, LF] ''d''" "[]"]
  by (auto simp del: scan_quoted.simps simp: eval_nat_numeral)

end
