(* ===== verification/Request_Context.thy ===== *)
theory Request_Context
  imports Http_Server Layer3_Error
begin

text \<open>
  The request context that handlers and middlewares share
  (\<open>layer3/include/async_uv_layer3/context.hpp\<close>) and the stream writer of \<open>stream.hpp\<close>. A \<open>Context\<close> is a
  \<open>ServerRequest\<close> with a response, path parameters and typed locals. \<open>std::any\<close> is a tagged union
  of the types the framework itself stores. Files are a map from paths to contents.
\<close>

section \<open>Streaming\<close>

record stream_writer =
  stw_socket :: socket
  stw_closed :: bool

definition stream_write :: "string \<Rightarrow> stream_writer \<Rightarrow> stream_writer" where
  "stream_write chunk w =
     (if stw_closed w \<or> chunk = [] \<or> \<not> so_valid (stw_socket w) then w
      else w\<lparr>stw_socket := (stw_socket w)\<lparr>so_written := so_written (stw_socket w) @ serialize_chunk chunk\<rparr>\<rparr>)"

definition stream_close :: "stream_writer \<Rightarrow> stream_writer" where
  "stream_close w =
     (if stw_closed w \<or> \<not> so_valid (stw_socket w) then w\<lparr>stw_closed := True\<rparr>
      else w\<lparr>stw_closed := True,
             stw_socket := (stw_socket w)\<lparr>so_written := so_written (stw_socket w) @ serialize_chunk_end\<rparr>\<rparr>)"

type_synonym stream_handler = "stream_writer \<Rightarrow> exn option \<times> stream_writer"

section \<open>The context\<close>

record multipart_field =
  mf_name :: string
  mf_filename :: string
  mf_content_type :: string
  mf_data :: string

type_synonym form_data = "string \<rightharpoonup> string"
type_synonym multipart_data = "string \<rightharpoonup> multipart_field list"

datatype any_value =
  Any_string string | Any_size nat | Any_form form_data | Any_multipart multipart_data | Any_other nat

record request_context =
  cx_request :: server_request
  cx_response :: server_response
  cx_params :: "string \<rightharpoonup> string"
  cx_locals :: "string \<rightharpoonup> any_value"
  cx_stream_handler :: "stream_handler option"

definition make_context :: "server_request \<Rightarrow> request_context" where
  "make_context rq = \<lparr>cx_request = rq, cx_response = default_response, cx_params = Map.empty,
     cx_locals = Map.empty, cx_stream_handler = None\<rparr>"

definition iequals_ascii :: "string \<Rightarrow> string \<Rightarrow> bool" where
  "iequals_ascii a b \<longleftrightarrow> length a = length b \<and> list_all2 (\<lambda>x y. tolower x = tolower y) a b"

fun fields_header :: "headers \<Rightarrow> string \<Rightarrow> string option" where
  "fields_header [] name = None"
| "fields_header (h # hs) name = (if iequals_ascii (h_name h) name then Some (h_value h) else fields_header hs name)"

definition context_header :: "request_context \<Rightarrow> string \<Rightarrow> string option" where
  "context_header ctx name = fields_header (rq_headers (cx_request ctx)) name"

definition has_response_header :: "request_context \<Rightarrow> string \<Rightarrow> bool" where
  "has_response_header ctx name \<longleftrightarrow> (\<exists>h \<in> set (rs_headers (cx_response ctx)). iequals_ascii (h_name h) name)"

definition param :: "request_context \<Rightarrow> string \<Rightarrow> string" where
  "param ctx name = (case cx_params ctx name of None \<Rightarrow> [] | Some v \<Rightarrow> v)"

text \<open>\<open>local<T>\<close>: present and of the asked type; \<open>set_local\<close> is \<open>emplace\<close>, which keeps an
  existing entry.\<close>

definition local_string :: "request_context \<Rightarrow> string \<Rightarrow> string option" where
  "local_string ctx name = (case cx_locals ctx name of Some (Any_string s) \<Rightarrow> Some s | _ \<Rightarrow> None)"

definition local_size :: "request_context \<Rightarrow> string \<Rightarrow> nat option" where
  "local_size ctx name = (case cx_locals ctx name of Some (Any_size n) \<Rightarrow> Some n | _ \<Rightarrow> None)"

definition local_form :: "request_context \<Rightarrow> string \<Rightarrow> form_data option" where
  "local_form ctx name = (case cx_locals ctx name of Some (Any_form f) \<Rightarrow> Some f | _ \<Rightarrow> None)"

definition local_multipart :: "request_context \<Rightarrow> string \<Rightarrow> multipart_data option" where
  "local_multipart ctx name = (case cx_locals ctx name of Some (Any_multipart f) \<Rightarrow> Some f | _ \<Rightarrow> None)"

definition set_local :: "string \<Rightarrow> any_value \<Rightarrow> request_context \<Rightarrow> request_context" where
  "set_local name v ctx =
     (case cx_locals ctx name of
        None \<Rightarrow> ctx\<lparr>cx_locals := (cx_locals ctx)(name \<mapsto> v)\<rparr>
      | Some _ \<Rightarrow> ctx)"

definition set_response :: "(server_response \<Rightarrow> server_response) \<Rightarrow> request_context \<Rightarrow> request_context" where
  "set_response f ctx = ctx\<lparr>cx_response := f (cx_response ctx)\<rparr>"

definition set_status :: "int \<Rightarrow> request_context \<Rightarrow> request_context" where
  "set_status code = set_response (\<lambda>r. r\<lparr>rs_status_code := code\<rparr>)"

definition set_body :: "string \<Rightarrow> request_context \<Rightarrow> request_context" where
  "set_body b = set_response (\<lambda>r. r\<lparr>rs_body := b\<rparr>)"

fun set_field :: "string \<Rightarrow> string \<Rightarrow> headers \<Rightarrow> headers" where
  "set_field name v [] = [mk_header name v]"
| "set_field name v (h # hs) =
     (if iequals_ascii (h_name h) name then h\<lparr>h_value := v\<rparr> # hs else h # set_field name v hs)"

definition set_header :: "string \<Rightarrow> string \<Rightarrow> request_context \<Rightarrow> request_context" where
  "set_header name v = set_response (\<lambda>r. r\<lparr>rs_headers := set_field name v (rs_headers r)\<rparr>)"

definition push_header :: "string \<Rightarrow> string \<Rightarrow> request_context \<Rightarrow> request_context" where
  "push_header name v = set_response (\<lambda>r. r\<lparr>rs_headers := rs_headers r @ [mk_header name v]\<rparr>)"

definition json_raw :: "string \<Rightarrow> request_context \<Rightarrow> request_context" where
  "json_raw b ctx = set_body b (set_header ''Content-Type'' ''application/json'' ctx)"

definition redirect :: "string \<Rightarrow> int \<Rightarrow> request_context \<Rightarrow> request_context" where
  "redirect url code ctx = set_body [] (push_header ''Location'' url (set_status code ctx))"

definition redirect_permanent :: "string \<Rightarrow> request_context \<Rightarrow> request_context" where
  "redirect_permanent url = redirect url 301"

definition redirect_temporary :: "string \<Rightarrow> request_context \<Rightarrow> request_context" where
  "redirect_temporary url = redirect url 307"

definition attachment :: "string \<Rightarrow> request_context \<Rightarrow> request_context" where
  "attachment filename =
     push_header ''Content-Disposition''
       (if filename = [] then ''attachment''
        else ''attachment; filename='' @ [DQUOTE] @ filename @ [DQUOTE])"

definition attachment_inline :: "string \<Rightarrow> request_context \<Rightarrow> request_context" where
  "attachment_inline filename ctx =
     (if filename = [] then ctx
      else push_header ''Content-Disposition'' (''inline; filename='' @ [DQUOTE] @ filename @ [DQUOTE]) ctx)"

definition content_type :: "string \<Rightarrow> request_context \<Rightarrow> request_context" where
  "content_type t = set_header ''Content-Type'' t"

definition send :: "string \<Rightarrow> int \<Rightarrow> request_context \<Rightarrow> request_context" where
  "send b code ctx = set_body b (set_status code ctx)"

definition send_status :: "int \<Rightarrow> request_context \<Rightarrow> request_context" where
  "send_status code ctx = set_body [] (set_status code ctx)"

definition mime_table :: "(string \<times> string) list" where
  "mime_table =
     [(''.html'', ''text/html''), (''.htm'', ''text/html''), (''.css'', ''text/css''),
      (''.js'', ''application/javascript''), (''.json'', ''application/json''), (''.txt'', ''text/plain''),
      (''.xml'', ''application/xml''), (''.csv'', ''text/csv''), (''.pdf'', ''application/pdf''),
      (''.png'', ''image/png''), (''.jpg'', ''image/jpeg''), (''.jpeg'', ''image/jpeg''),
      (''.gif'', ''image/gif''), (''.svg'', ''image/svg+xml''), (''.webp'', ''image/webp''),
      (''.ico'', ''image/x-icon''), (''.mp4'', ''video/mp4''), (''.mp3'', ''audio/mpeg''),
      (''.wav'', ''audio/wav''), (''.woff'', ''font/woff''), (''.woff2'', ''font/woff2'')]"

text \<open>\<open>find_last_of('.')\<close> and the extension from there.\<close>

definition mime_type :: "string \<Rightarrow> string" where
  "mime_type path =
     (case find_char CHR ''.'' (rev path) of
        None \<Rightarrow> ''application/octet-stream''
      | Some i \<Rightarrow>
          (case map_of mime_table (to_lower (drop (length path - Suc i) path)) of
             None \<Rightarrow> ''application/octet-stream''
           | Some t \<Rightarrow> t))"

definition send_file :: "(string \<rightharpoonup> string) \<Rightarrow> string \<Rightarrow> request_context \<Rightarrow> request_context" where
  "send_file files path ctx =
     (case files path of
        None \<Rightarrow> json_raw (''{'' @ json_string ''error'' @ '':'' @ json_string ''Not Found'' @ ''}'') (set_status 404 ctx)
      | Some content \<Rightarrow>
          (let ctx1 = set_body content ctx
           in if has_response_header ctx1 ''Content-Type'' then ctx1 else content_type (mime_type path) ctx1))"

definition path_filename :: "string \<Rightarrow> string" where
  "path_filename path = rev (takeWhile (\<lambda>c. c \<noteq> CHR ''/'') (rev path))"

definition download :: "(string \<rightharpoonup> string) \<Rightarrow> string \<Rightarrow> string \<Rightarrow> request_context \<Rightarrow> request_context" where
  "download files path filename ctx =
     (let ctx1 = send_file files path ctx
      in if rs_status_code (cx_response ctx1) \<ge> 400 then ctx1
         else set_header ''Content-Disposition''
                (''attachment; filename='' @ [DQUOTE] @ (if filename = [] then path_filename path else filename) @ [DQUOTE])
                ctx1)"

definition stream :: "stream_handler \<Rightarrow> request_context \<Rightarrow> request_context" where
  "stream h ctx = set_response (\<lambda>r. r\<lparr>rs_chunked := True\<rparr>) (ctx\<lparr>cx_stream_handler := Some h\<rparr>)"

definition is_streaming :: "request_context \<Rightarrow> bool" where
  "is_streaming ctx \<longleftrightarrow> cx_stream_handler ctx \<noteq> None"

text \<open>Body access through the file system; \<open>Inl\<close> is the exception of a missing file.\<close>

definition save_body_to ::
  "string \<Rightarrow> request_context \<times> (string \<rightharpoonup> string) \<Rightarrow> exn option \<times> request_context \<times> (string \<rightharpoonup> string)" where
  "save_body_to target = (\<lambda>(ctx, files).
     case rq_body_file (cx_request ctx) of
       Some p \<Rightarrow>
         (case files p of
            None \<Rightarrow> (Some (StdException ''rename''), ctx, files)
          | Some content \<Rightarrow>
              (None, ctx\<lparr>cx_request := (cx_request ctx)\<lparr>rq_body_file := Some target\<rparr>\<rparr>,
               files(p := None, target \<mapsto> content)))
     | None \<Rightarrow> (None, ctx, files(target \<mapsto> rq_body (cx_request ctx))))"

definition read_body :: "(string \<rightharpoonup> string) \<Rightarrow> request_context \<Rightarrow> exn + string" where
  "read_body files ctx =
     (case rq_body_file (cx_request ctx) of
        Some p \<Rightarrow> (case files p of None \<Rightarrow> Inl (StdException ''open'') | Some c \<Rightarrow> Inr c)
      | None \<Rightarrow> Inr (rq_body (cx_request ctx)))"

section \<open>Header access\<close>

lemma iequals_ascii_same_name: "iequals_ascii a b \<longleftrightarrow> same_name a b"
  by (auto simp: iequals_ascii_def same_name_def list_all2_conv_all_nth list_eq_iff_nth_eq)

interpretation fields: header_lookup fields_header
  by unfold_locales (auto simp: iequals_ascii_same_name)

lemma fields_header_set_same: "iequals_ascii n m \<Longrightarrow> fields_header (set_field n v hs) m = Some v"
  by (induction hs) (auto simp: iequals_ascii_same_name same_name_def)

lemma fields_header_set_other: "\<not> iequals_ascii n m \<Longrightarrow> fields_header (set_field n v hs) m = fields_header hs m"
  by (induction hs) (auto simp: iequals_ascii_same_name same_name_def)

definition names_distinct :: "headers \<Rightarrow> bool" where
  "names_distinct hs \<longleftrightarrow> distinct (map (\<lambda>h. to_lower (h_name h)) hs)"

lemma set_field_names: "set (map (\<lambda>h. to_lower (h_name h)) (set_field n v hs)) =
  insert (to_lower n) (set (map (\<lambda>h. to_lower (h_name h)) hs))"
  by (induction hs) (auto simp: iequals_ascii_same_name same_name_def)

lemma set_field_distinct: "names_distinct hs \<Longrightarrow> names_distinct (set_field n v hs)"
proof (induction hs)
  case (Cons h hs)
  then show ?case
    using set_field_names [of n v hs] by (auto simp: names_distinct_def iequals_ascii_same_name same_name_def)
qed (simp add: names_distinct_def)

section \<open>Properties\<close>

text \<open>
  \<open>Context::set\<close> behaves as a map update on case-insensitive names: the header reads back under
  any spelling with the new value, every other header is unchanged, the list stays free of
  duplicate names, and it grows by one exactly when the name was absent.\<close>

theorem set_header_map_update:
  "fields_header (rs_headers (cx_response (set_header n v ctx))) m =
     (if same_name n m then Some v else fields_header (rs_headers (cx_response ctx)) m)
   \<and> (names_distinct (rs_headers (cx_response ctx)) \<longrightarrow> names_distinct (rs_headers (cx_response (set_header n v ctx))))
   \<and> length (rs_headers (cx_response (set_header n v ctx))) =
       length (rs_headers (cx_response ctx)) + (if has_response_header ctx n then 0 else 1)"
proof -
  have "length (set_field n v hs) = length hs + (if \<exists>h \<in> set hs. iequals_ascii (h_name h) n then 0 else 1)" for hs
    by (induction hs) auto
  then show ?thesis
    using fields_header_set_same fields_header_set_other set_field_distinct
    by (auto simp: set_header_def set_response_def has_response_header_def iequals_ascii_same_name)
qed

theorem set_header_map_update_witness:
  "fields_header (rs_headers (cx_response (set_header ''A'' ''2'' (set_header ''a'' ''1'' (make_context default_request))))) ''A'' = Some ''2''
   \<and> names_distinct (rs_headers (cx_response (set_header ''A'' ''2'' (make_context default_request))))"
  using set_header_map_update [of "''A''" "''2''" "set_header ''a'' ''1'' (make_context default_request)" "''A''"]
    set_header_map_update [of "''A''" "''2''" "make_context default_request" "''A''"]
  by (simp add: same_name_def names_distinct_def make_context_def default_response_def)

text \<open>
  \<open>set_local\<close> never overwrites: the first value stored under a name stays, whatever is stored
  later and whatever its type, although the name promises an assignment.\<close>

theorem set_local_keeps_first:
  "cx_locals (set_local n v2 (set_local n v1 ctx)) n =
     (case cx_locals ctx n of None \<Rightarrow> Some v1 | Some v0 \<Rightarrow> Some v0)
   \<and> (m \<noteq> n \<longrightarrow> cx_locals (set_local n v1 ctx) m = cx_locals ctx m)"
  by (auto simp: set_local_def split: option.splits)

theorem set_local_keeps_first_witness:
  "cx_locals (set_local ''k'' (Any_size 2) (set_local ''k'' (Any_size 1) (make_context default_request))) ''k'' = Some (Any_size 1)"
  using set_local_keeps_first [of "''k''" "Any_size 2" "Any_size 1" "make_context default_request" "''j''"]
  by (simp add: make_context_def)

end
