(* ===== verification/Middleware.thy ===== *)
theory Middleware
  imports Request_Context
begin

text \<open>
  The framework's middlewares (\<open>middleware.hpp\<close>, \<open>cors.hpp\<close>, \<open>body_limit.hpp\<close> of
  \<open>layer3/include/async_uv_layer3\<close>). An action runs on a context and a world \<open>'w\<close> (whatever else a handler
  touches) and returns the exception it throws, if any, with what it left behind; a
  middleware turns the action \<open>next\<close> into an action. \<open>std::hash\<close>, zlib and the JSON reader are
  parameters.
\<close>

type_synonym 'w action = "request_context \<times> 'w \<Rightarrow> exn option \<times> request_context \<times> 'w"
type_synonym 'w middleware = "'w action \<Rightarrow> 'w action"

section \<open>Error responses\<close>

definition json_field :: "string \<Rightarrow> string \<Rightarrow> string" where
  "json_field name v = '','' @ json_string name @ '':'' @ v"

definition json_opt_string :: "string option \<Rightarrow> string" where
  "json_opt_string v = (case v of None \<Rightarrow> ''null'' | Some s \<Rightarrow> json_string s)"

definition error_body_json :: "int \<Rightarrow> string \<Rightarrow> string \<Rightarrow> int option \<Rightarrow> request_context \<Rightarrow> string" where
  "error_body_json status err code biz_code ctx =
     (let path = rt_path (rq_target (cx_request ctx)) in
      ''{'' @ json_string ''status'' @ '':'' @ dec_of_int status
      @ json_field ''error'' (json_string err) @ json_field ''code'' (json_string code)
      @ json_field ''biz_code'' (case biz_code of None \<Rightarrow> ''null'' | Some n \<Rightarrow> dec_of_int n)
      @ json_field ''path'' (json_string (if path = [] then ''/'' else path))
      @ json_field ''method'' (json_string (rq_method (cx_request ctx)))
      @ json_field ''request_id'' (json_opt_string (local_string ctx ''request_id''))
      @ json_field ''trace_id'' (json_opt_string (local_string ctx ''trace_id''))
      @ ''}'')"

definition write_error_json ::
  "int \<Rightarrow> string \<Rightarrow> string \<Rightarrow> int option \<Rightarrow> request_context \<Rightarrow> request_context" where
  "write_error_json status err code biz_code ctx =
     (let ctx1 = set_status status ctx in json_raw (error_body_json status err code biz_code ctx1) ctx1)"

fun handle_exn :: "exn \<Rightarrow> request_context \<Rightarrow> request_context" where
  "handle_exn (AppErrorException e) =
     write_error_json (http_error_value (ae_http_error e))
       (if ae_message e = [] then ''Internal Server Error'' else ae_message e)
       (ae_code e) (map_option biz_error_value (ae_biz_error e))"
| "handle_exn (FrameworkError e) =
     write_error_json (error_status_code e) (if er_message e = [] then status_text e else er_message e)
       (error_code_name (er_code e)) (error_biz_code (er_code e))"
| "handle_exn (StdException _) = write_error_json 500 ''Internal Server Error'' ''INTERNAL_ERROR'' None"
| "handle_exn OtherException = write_error_json 500 ''Internal Server Error'' ''INTERNAL_ERROR'' None"

definition error_handler :: "'w middleware" where
  "error_handler next s =
     (case next s of
        (None, r) \<Rightarrow> (None, r)
      | (Some e, ctx, w) \<Rightarrow> (None, handle_exn e ctx, w))"

section \<open>Headers, validation\<close>

definition security_headers :: "'w middleware" where
  "security_headers next = (\<lambda>(ctx, w).
     next (set_header ''Strict-Transport-Security'' ''max-age=31536000; includeSubDomains''
       (set_header ''Content-Security-Policy'' (''default-src '' @ [CHR 0x27] @ ''self'' @ [CHR 0x27])
         (set_header ''Referrer-Policy'' ''strict-origin-when-cross-origin''
           (set_header ''X-Frame-Options'' ''DENY''
             (set_header ''X-Content-Type-Options'' ''nosniff'' ctx)))), w))"

definition validate ::
  "(string \<Rightarrow> 'a option) \<Rightarrow> ('a \<Rightarrow> bool) \<Rightarrow> ('a \<Rightarrow> any_value) \<Rightarrow> 'w middleware" where
  "validate parse validator any next = (\<lambda>(ctx, w).
     case parse (rq_body (cx_request ctx)) of
       None \<Rightarrow>
         (Some (FrameworkError (mk_error BadRequest ''Invalid JSON payload''
            ''Failed to parse request body into target type'')), ctx, w)
     | Some v \<Rightarrow>
         if \<not> validator v then
           (Some (FrameworkError (mk_error UnprocessableEntity ''Validation failed''
              ''Payload does not satisfy validator constraints'')), ctx, w)
         else next (set_local ''validated'' (any v) ctx, w))"

section \<open>Entity tags and compression\<close>

definition weak_etag :: "(string \<Rightarrow> nat) \<Rightarrow> string \<Rightarrow> string" where
  "weak_etag hash body = ''W/'' @ [DQUOTE] @ hex_of_nat (hash body) @ [DQUOTE]"

definition is_success :: "request_context \<Rightarrow> bool" where
  "is_success ctx \<longleftrightarrow> \<not> (rs_status_code (cx_response ctx) < 200 \<or> rs_status_code (cx_response ctx) \<ge> 300)"

definition etag_response :: "(string \<Rightarrow> nat) \<Rightarrow> request_context \<Rightarrow> request_context" where
  "etag_response hash ctx =
     (if rs_chunked (cx_response ctx) \<or> rs_body (cx_response ctx) = [] then ctx
      else if \<not> is_success ctx then ctx
      else
        let tag = weak_etag hash (rs_body (cx_response ctx));
            ctx1 = set_header ''ETag'' tag ctx
        in if context_header ctx1 ''If-None-Match'' = Some tag then set_body [] (set_status 304 ctx1) else ctx1)"

text \<open>After \<open>next\<close> returns; an exception skips it.\<close>

definition after_next :: "(request_context \<Rightarrow> request_context) \<Rightarrow> 'w middleware" where
  "after_next f next s = (case next s of (None, ctx, w) \<Rightarrow> (None, f ctx, w) | r \<Rightarrow> r)"

definition etag :: "(string \<Rightarrow> nat) \<Rightarrow> 'w middleware" where
  "etag hash = after_next (etag_response hash)"

definition same_index_name :: "string \<Rightarrow> string \<Rightarrow> bool" where
  "same_index_name a b \<longleftrightarrow> length a = length b \<and> (\<forall>i < length b. tolower (a ! i) = tolower (b ! i))"

fun find_response_header :: "headers \<Rightarrow> string \<Rightarrow> string option" where
  "find_response_header [] name = None"
| "find_response_header (h # hs) name =
     (if same_index_name (h_name h) name then Some (h_value h) else find_response_header hs name)"

definition response_header_value :: "request_context \<Rightarrow> string \<Rightarrow> string option" where
  "response_header_value ctx name = find_response_header (rs_headers (cx_response ctx)) name"

definition ends_with :: "string \<Rightarrow> string \<Rightarrow> bool" where
  "ends_with s t \<longleftrightarrow> suffix t s"

definition content_type_matches :: "string \<Rightarrow> string list \<Rightarrow> bool" where
  "content_type_matches ct allowed \<longleftrightarrow>
     ct \<noteq> [] \<and>
     (let ct' = (case find_char CHR '';'' ct of None \<Rightarrow> ct | Some i \<Rightarrow> take i ct)
      in \<exists>rule \<in> set allowed. if ends_with rule ''/*'' then prefix (butlast rule) ct' else ct' = rule)"

record compress_options =
  co_level :: int
  co_min_size :: nat
  co_types :: "string list"

definition default_compress_options :: compress_options where
  "default_compress_options = \<lparr>co_level = 6, co_min_size = 1024, co_types = [''text/*'', ''application/json'']\<rparr>"

definition compressible :: "compress_options \<Rightarrow> request_context \<Rightarrow> bool" where
  "compressible opts ctx \<longleftrightarrow>
     \<not> (rs_chunked (cx_response ctx) \<or> length (rs_body (cx_response ctx)) < co_min_size opts)
     \<and> is_success ctx
     \<and> response_header_value ctx ''Content-Encoding'' = None
     \<and> (case context_header ctx ''Accept-Encoding'' of None \<Rightarrow> False | Some a \<Rightarrow> find_str ''gzip'' a \<noteq> None)
     \<and> (case response_header_value ctx ''Content-Type'' of None \<Rightarrow> False | Some t \<Rightarrow> content_type_matches t (co_types opts))"

text \<open>\<open>gzip\<close> is \<open>gzip_compress\<close>, a call into zlib; \<open>None\<close> is its failure.\<close>

definition compress_response ::
  "(string \<Rightarrow> int \<Rightarrow> string option) \<Rightarrow> compress_options \<Rightarrow> request_context \<Rightarrow> request_context" where
  "compress_response gzip opts ctx =
     (if \<not> compressible opts ctx then ctx
      else
        let level = max 1 (min 9 (co_level opts)); body = rs_body (cx_response ctx)
        in case gzip body level of
             None \<Rightarrow> ctx
           | Some z \<Rightarrow>
               if length z \<ge> length body then ctx
               else set_header ''Vary'' ''Accept-Encoding''
                      (set_header ''Content-Encoding'' ''gzip'' (set_body z ctx)))"

definition compress :: "(string \<Rightarrow> int \<Rightarrow> string option) \<Rightarrow> compress_options \<Rightarrow> 'w middleware" where
  "compress gzip opts = after_next (compress_response gzip opts)"

section \<open>Cross-origin requests\<close>

record cors_options =
  allow_origins :: "string list"
  allow_methods :: "string list"
  allow_headers :: "string list"
  expose_headers :: "string list"
  allow_credentials :: bool
  max_age :: int

definition default_cors_options :: cors_options where
  "default_cors_options = \<lparr>allow_origins = [''*''],
     allow_methods = [''GET'', ''POST'', ''PUT'', ''DELETE'', ''PATCH'', ''OPTIONS''],
     allow_headers = [''Content-Type'', ''Authorization'', ''X-Requested-With''],
     expose_headers = [], allow_credentials = False, max_age = 86400\<rparr>"

fun join_strings :: "string list \<Rightarrow> string \<Rightarrow> string" where
  "join_strings [] delim = []"
| "join_strings (s # ss) delim = s @ concat (map (\<lambda>t. delim @ t) ss)"

definition is_origin_allowed :: "string \<Rightarrow> string list \<Rightarrow> bool" where
  "is_origin_allowed origin allowed \<longleftrightarrow> allowed = [''*''] \<or> origin \<in> set allowed"

definition cors_headers :: "cors_options \<Rightarrow> string \<Rightarrow> request_context \<Rightarrow> request_context" where
  "cors_headers opts origin ctx =
     (let ctx1 = set_header ''Vary'' ''Origin'' ctx;
          ctx2 = set_header ''Access-Control-Allow-Origin''
                   (if allow_credentials opts then origin
                    else if allow_origins opts = [''*''] then ''*'' else origin) ctx1
      in if allow_credentials opts then set_header ''Access-Control-Allow-Credentials'' ''true'' ctx2 else ctx2)"

definition cors_preflight :: "cors_options \<Rightarrow> request_context \<Rightarrow> request_context" where
  "cors_preflight opts ctx =
     set_status 204
       (set_header ''Access-Control-Max-Age'' (dec_of_int (max_age opts))
         (set_header ''Access-Control-Allow-Headers'' (join_strings (allow_headers opts) '', '')
           (set_header ''Access-Control-Allow-Methods'' (join_strings (allow_methods opts) '', '')
             (set_header ''Vary'' ''Origin, Access-Control-Request-Method, Access-Control-Request-Headers'' ctx))))"

definition cors :: "cors_options \<Rightarrow> 'w middleware" where
  "cors opts next = (\<lambda>(ctx, w).
     case context_header ctx ''Origin'' of
       None \<Rightarrow> next (ctx, w)
     | Some origin \<Rightarrow>
         if \<not> is_origin_allowed origin (allow_origins opts) then next (ctx, w)
         else
           let ctx1 = cors_headers opts origin ctx
           in if rq_method (cx_request ctx1) = ''OPTIONS'' then (None, cors_preflight opts ctx1, w)
              else next (if expose_headers opts = [] then ctx1
                         else set_header ''Access-Control-Expose-Headers'' (join_strings (expose_headers opts) '', '') ctx1,
                         w))"

section \<open>Body limits\<close>

record body_limit_options =
  bl_max_bytes :: nat
  bl_reject_on_limit :: bool

definition body_limit :: "body_limit_options \<Rightarrow> 'w middleware" where
  "body_limit opts next = (\<lambda>(ctx, w).
     if rq_body_size (cx_request ctx) > bl_max_bytes opts then
       if bl_reject_on_limit opts then
         (Some (FrameworkError (mk_error PayloadTooLarge ''Request body too large''
            (''Maximum allowed: '' @ dec_of_nat (bl_max_bytes opts) @ '' bytes''))), ctx, w)
       else
         (None, json_raw (''{'' @ json_string ''error'' @ '':'' @ json_string ''Payload Too Large'' @ ''}'')
                  (set_status 413 ctx), w)
     else next (ctx, w))"

definition get_body_limit :: "request_context \<Rightarrow> nat option" where
  "get_body_limit ctx = local_size ctx ''body_limit''"

section \<open>Lookups and updates\<close>

interpretation response_header: header_lookup find_response_header
  by unfold_locales (auto simp: same_index_name_def same_name_def list_eq_iff_nth_eq)

lemma response_header_value_fields: "response_header_value ctx n = fields_header (rs_headers (cx_response ctx)) n"
  using header_lookup_unique [OF response_header.header_lookup_axioms fields.header_lookup_axioms]
  by (simp add: response_header_value_def)

lemma response_updates [simp]:
  "cx_request (set_header n v ctx) = cx_request ctx" "cx_request (set_status c ctx) = cx_request ctx"
  "cx_request (set_body b ctx) = cx_request ctx"
  "rs_body (cx_response (set_header n v ctx)) = rs_body (cx_response ctx)"
  "rs_body (cx_response (set_status c ctx)) = rs_body (cx_response ctx)"
  "rs_body (cx_response (set_body b ctx)) = b"
  "rs_status_code (cx_response (set_header n v ctx)) = rs_status_code (cx_response ctx)"
  "rs_status_code (cx_response (set_status c ctx)) = c"
  "rs_status_code (cx_response (set_body b ctx)) = rs_status_code (cx_response ctx)"
  "response_header_value (set_status c ctx) m = response_header_value ctx m"
  "response_header_value (set_body b ctx) m = response_header_value ctx m"
  "response_header_value (set_header n v ctx) m = (if same_name n m then Some v else response_header_value ctx m)"
  "context_header (set_header n v ctx) m = context_header ctx m"
  "context_header (set_status c ctx) m = context_header ctx m"
  "context_header (set_body b ctx) m = context_header ctx m"
  by (simp_all add: set_header_def set_status_def set_body_def set_response_def context_header_def
      response_header_value_fields fields_header_set_same fields_header_set_other iequals_ascii_same_name)

lemma json_raw_updates [simp]:
  "cx_request (json_raw b ctx) = cx_request ctx" "rs_body (cx_response (json_raw b ctx)) = b"
  "rs_status_code (cx_response (json_raw b ctx)) = rs_status_code (cx_response ctx)"
  "response_header_value (json_raw b ctx) ''Content-Type'' = Some ''application/json''"
  by (simp_all add: json_raw_def same_name_def)

text \<open>Past the limit the rest of the chain is not run.\<close>

lemma body_limit_stops:
  "rq_body_size (cx_request ctx) > bl_max_bytes opts \<Longrightarrow>
     body_limit opts next (ctx, w) = body_limit opts next' (ctx, w) \<and> snd (snd (body_limit opts next (ctx, w))) = w"
  by (simp add: body_limit_def)

section \<open>Properties\<close>

definition exn_status :: "exn \<Rightarrow> int" where
  "exn_status e = (case e of AppErrorException a \<Rightarrow> http_error_value (ae_http_error a)
     | FrameworkError r \<Rightarrow> error_status_code r | _ \<Rightarrow> 500)"

definition exn_message :: "exn \<Rightarrow> string" where
  "exn_message e = (case e of
     AppErrorException a \<Rightarrow> (if ae_message a = [] then ''Internal Server Error'' else ae_message a)
   | FrameworkError r \<Rightarrow> (if er_message r = [] then status_text r else er_message r)
   | _ \<Rightarrow> ''Internal Server Error'')"

lemma handle_exn_write:
  "\<exists>code biz. handle_exn e ctx = write_error_json (exn_status e) (exn_message e) code biz ctx"
  by (cases e) (auto simp: exn_status_def exn_message_def)

lemma error_body_message:
  "\<exists>head tail. error_body_json status err code biz ctx = head @ DQUOTE # json_escape err @ DQUOTE # tail"
  by (rule exI [of _ "''{'' @ json_string ''status'' @ '':'' @ dec_of_int status @ '','' @ json_string ''error'' @ '':''"])
    (simp add: error_body_json_def json_field_def json_string_def [of err] Let_def)

lemma exn_status_error:
  "(\<forall>r. e = FrameworkError r \<longrightarrow> is_error r) \<Longrightarrow> 400 \<le> exn_status e \<and> exn_status e < 600"
proof (cases e)
  case (AppErrorException a)
  then show ?thesis by (cases "ae_http_error a") (auto simp: exn_status_def)
next
  case (FrameworkError r)
  moreover assume "\<forall>r. e = FrameworkError r \<longrightarrow> is_error r"
  ultimately show ?thesis by (cases "er_code r") (auto simp: exn_status_def error_status_code_def is_error_def)
qed (auto simp: exn_status_def)

text \<open>
  Nothing escapes \<open>error_handler\<close>: when \<open>next\<close> returns it is transparent, and when \<open>next\<close> throws
  anything it returns normally with the exception's status (a 4xx or 5xx unless a framework error
  carries the code \<open>Ok\<close>), a JSON content type, the request and world as \<open>next\<close> left them, and a
  body from which a JSON reader recovers exactly the error text.\<close>

theorem error_handler_catches:
  "case next s of
     (None, r) \<Rightarrow> error_handler next s = (None, r)
   | (Some e, ctx, w) \<Rightarrow>
       (\<exists>ctx'. error_handler next s = (None, ctx', w) \<and> cx_request ctx' = cx_request ctx
          \<and> rs_status_code (cx_response ctx') = exn_status e
          \<and> ((\<forall>r. e = FrameworkError r \<longrightarrow> is_error r) \<longrightarrow> 400 \<le> exn_status e \<and> exn_status e < 600)
          \<and> response_header_value ctx' ''Content-Type'' = Some ''application/json''
          \<and> (\<exists>head tail. rs_body (cx_response ctx') = head @ DQUOTE # json_escape (exn_message e) @ DQUOTE # tail
               \<and> scan_quoted json_unesc DQUOTE (Suc (length (exn_message e)))
                   (json_escape (exn_message e) @ DQUOTE # tail) = Some (exn_message e, tail)))"
proof (cases "next s")
  case (fields eo ctx w)
  show ?thesis
  proof (cases eo)
    case None
    with fields show ?thesis by (simp add: error_handler_def)
  next
    case (Some e)
    obtain code biz where h: "handle_exn e ctx = write_error_json (exn_status e) (exn_message e) code biz ctx"
      using handle_exn_write by blast
    obtain head tail where b: "rs_body (cx_response (handle_exn e ctx)) = head @ DQUOTE # json_escape (exn_message e) @ DQUOTE # tail"
      using error_body_message h by (fastforce simp: write_error_json_def Let_def)
    have "scan_quoted json_unesc DQUOTE (Suc (length (exn_message e)))
        (json_escape (exn_message e) @ DQUOTE # tail) = Some (exn_message e, tail)"
      unfolding json_escape_def by (rule json.scan_escaped [OF lessI])
    moreover have "error_handler next s = (None, handle_exn e ctx, w)"
      using fields Some by (simp add: error_handler_def)
    ultimately show ?thesis
      using fields Some b h exn_status_error [of e] by (auto simp: write_error_json_def Let_def simp del: scan_quoted.simps)
  qed
qed

text \<open>
  \<open>etag\<close> answers conditional requests: a successful non-empty response gets the tag of its body,
  becomes an empty 304 exactly when the request's \<open>If-None-Match\<close> is that tag, and otherwise keeps
  its status and body; any other response is untouched.\<close>

theorem etag_conditional:
  "(if rs_chunked (cx_response ctx) \<or> rs_body (cx_response ctx) = [] \<or> \<not> is_success ctx
    then etag_response hash ctx = ctx
    else let ctx' = etag_response hash ctx; tag = weak_etag hash (rs_body (cx_response ctx)) in
      response_header_value ctx' ''ETag'' = Some tag
      \<and> (if context_header ctx ''If-None-Match'' = Some tag
         then rs_status_code (cx_response ctx') = 304 \<and> rs_body (cx_response ctx') = []
         else rs_status_code (cx_response ctx') = rs_status_code (cx_response ctx)
              \<and> rs_body (cx_response ctx') = rs_body (cx_response ctx)))"
  by (simp add: etag_response_def Let_def same_name_def)

text \<open>
  Compression is safe: either the response is unchanged, or the client accepts gzip, the new body
  is a strictly shorter result of compressing the old one, it is labelled as such, and status and
  request are kept; and compressing twice is compressing once.\<close>

theorem compress_safe:
  "(compress_response gzip opts ctx = ctx \<or>
     (\<exists>z a. gzip (rs_body (cx_response ctx)) (max 1 (min 9 (co_level opts))) = Some z
        \<and> context_header ctx ''Accept-Encoding'' = Some a \<and> find_str ''gzip'' a \<noteq> None
        \<and> rs_body (cx_response (compress_response gzip opts ctx)) = z
        \<and> length z < length (rs_body (cx_response ctx))
        \<and> response_header_value (compress_response gzip opts ctx) ''Content-Encoding'' = Some ''gzip''
        \<and> response_header_value (compress_response gzip opts ctx) ''Vary'' = Some ''Accept-Encoding''
        \<and> rs_status_code (cx_response (compress_response gzip opts ctx)) = rs_status_code (cx_response ctx)))
   \<and> compress_response gzip opts (compress_response gzip opts ctx) = compress_response gzip opts ctx"
proof (cases "compress_response gzip opts ctx = ctx")
  case False
  then obtain z where z: "compressible opts ctx" "gzip (rs_body (cx_response ctx)) (max 1 (min 9 (co_level opts))) = Some z"
    "length z < length (rs_body (cx_response ctx))"
    by (auto simp: compress_response_def Let_def split: if_splits option.splits)
  let ?c = "set_header ''Vary'' ''Accept-Encoding'' (set_header ''Content-Encoding'' ''gzip'' (set_body z ctx))"
  have c: "compress_response gzip opts ctx = ?c" using z by (simp add: compress_response_def Let_def)
  have "\<not> compressible opts ?c" by (simp add: compressible_def same_name_def)
  then have "compress_response gzip opts ?c = ?c" by (simp add: compress_response_def)
  moreover obtain a where "context_header ctx ''Accept-Encoding'' = Some a" "find_str ''gzip'' a \<noteq> None"
    using z(1) by (auto simp: compressible_def split: option.splits)
  ultimately show ?thesis using z by (auto simp: c same_name_def)
qed simp

text \<open>
  Cross-origin headers only for allowed origins: without an \<open>Origin\<close>, or with one that is not
  allowed, the chain runs on the untouched context. Otherwise the request goes on (or, for a
  preflight, is answered with 204 without running the chain) with the origin echoed, or \<open>*\<close> only
  when every origin is allowed and credentials are not.\<close>

theorem cors_allowed_only:
  "case context_header ctx ''Origin'' of
     None \<Rightarrow> cors opts next (ctx, w) = next (ctx, w)
   | Some origin \<Rightarrow>
       if \<not> is_origin_allowed origin (allow_origins opts) then cors opts next (ctx, w) = next (ctx, w)
       else \<exists>ctx'. cors opts next (ctx, w) = (if rq_method (cx_request ctx) = ''OPTIONS'' then (None, ctx', w) else next (ctx', w))
         \<and> cx_request ctx' = cx_request ctx
         \<and> response_header_value ctx' ''Access-Control-Allow-Origin'' =
             Some (if allow_origins opts = [''*''] \<and> \<not> allow_credentials opts then ''*'' else origin)
         \<and> response_header_value ctx' ''Access-Control-Allow-Credentials'' =
             (if allow_credentials opts then Some ''true'' else response_header_value ctx ''Access-Control-Allow-Credentials'')
         \<and> rs_status_code (cx_response ctx') =
             (if rq_method (cx_request ctx) = ''OPTIONS'' then 204 else rs_status_code (cx_response ctx))"
  by (auto simp: cors_def cors_headers_def cors_preflight_def Let_def same_name_def split: option.splits)

section \<open>Witnesses\<close>

abbreviation blank_context :: request_context where
  "blank_context \<equiv> make_context default_request"

definition throwing :: "exn \<Rightarrow> 'w action" where
  "throwing e = (\<lambda>(ctx, w). (Some e, ctx, w))"

theorem error_handler_catches_witness:
  "\<exists>ctx'. error_handler (throwing (FrameworkError (mk_error NotFound ''gone'' []))) (blank_context, ()) = (None, ctx', ())
     \<and> rs_status_code (cx_response ctx') = 404"
  using error_handler_catches [of "throwing (FrameworkError (mk_error NotFound ''gone'' []))" "(blank_context, ())"]
  by (auto simp: throwing_def exn_status_def error_status_code_def)

definition hello_context :: "headers \<Rightarrow> request_context" where
  "hello_context hs = set_header ''Content-Type'' ''text/html''
     (send ''hello'' 200 (make_context (default_request\<lparr>rq_headers := hs\<rparr>)))"

lemma hello_context_simps [simp]:
  "rs_body (cx_response (hello_context hs)) = ''hello''" "\<not> rs_chunked (cx_response (hello_context hs))"
  "rs_status_code (cx_response (hello_context hs)) = 200" "context_header (hello_context hs) m = fields_header hs m"
  by (simp_all add: hello_context_def send_def)
     (simp_all add: set_header_def set_body_def set_status_def set_response_def make_context_def default_response_def
       context_header_def)

theorem etag_conditional_witness:
  "rs_status_code (cx_response (etag_response (\<lambda>_. 5)
     (hello_context [mk_header ''If-None-Match'' (weak_etag (\<lambda>_. 5) ''hello'')]))) = 304"
proof -
  let ?c = "hello_context [mk_header ''If-None-Match'' (weak_etag (\<lambda>_. 5) ''hello'')]"
  have "is_success ?c" by (simp add: is_success_def)
  moreover have "context_header ?c ''If-None-Match'' = Some (weak_etag (\<lambda>_. 5) ''hello'')"
    by (simp add: iequals_ascii_same_name same_name_def)
  ultimately show ?thesis using etag_conditional [of ?c "\<lambda>_. 5"] by (simp add: Let_def)
qed

theorem compress_safe_witness:
  "let ctx = hello_context [mk_header ''Accept-Encoding'' ''gzip'']; o1 = default_compress_options\<lparr>co_min_size := 1\<rparr>;
       gz = (\<lambda>s level. Some (take 2 s))
   in compress_response gz o1 (compress_response gz o1 ctx) = compress_response gz o1 ctx"
  unfolding Let_def using compress_safe by blast

theorem cors_allowed_only_witness:
  "\<exists>ctx'. cors default_cors_options (\<lambda>s. (None, s)) (hello_context [mk_header ''Origin'' ''http://a''], ()) = (None, ctx', ())
     \<and> response_header_value ctx' ''Access-Control-Allow-Origin'' = Some ''*''"
proof -
  let ?c = "hello_context [mk_header ''Origin'' ''http://a'']"
  have "context_header ?c ''Origin'' = Some ''http://a''" by (simp add: iequals_ascii_same_name same_name_def)
  moreover have "is_origin_allowed ''http://a'' (allow_origins default_cors_options)"
    by (simp add: is_origin_allowed_def default_cors_options_def)
  moreover have "\<not> allow_credentials default_cors_options" "allow_origins default_cors_options = [''*'']"
    by (simp_all add: default_cors_options_def)
  ultimately show ?thesis
    using cors_allowed_only [of default_cors_options "\<lambda>s. (None, s)" ?c "()"] by (auto split: if_splits)
qed

end
