(* ===== verification/Rate_Limit.thy ===== *)
theory Rate_Limit
  imports Middleware
begin

text \<open>
  The fixed-window rate limiter of \<open>layer3/include/async_uv_layer3/rate_limit.hpp\<close>. Every method holds
  the mutex for its whole body, so each is one step. The steady clock is an argument, in
  nanoseconds; a window is given in milliseconds.
\<close>

record rate_limit_options =
  rl_max_requests :: nat
  rl_window :: int
  rl_key_extractor :: string
  rl_include_headers :: bool
  rl_message :: string

definition default_rate_limit_options :: rate_limit_options where
  "default_rate_limit_options = \<lparr>rl_max_requests = 100, rl_window = 60000, rl_key_extractor = ''ip'',
     rl_include_headers = True, rl_message = ''Too many requests, please try again later''\<rparr>"

record rate_entry =
  re_count :: nat
  re_reset_time :: int

record rate_limiter =
  rl_options :: rate_limit_options
  rl_entries :: "string \<rightharpoonup> rate_entry"

definition create_rate_limiter :: "rate_limit_options \<Rightarrow> rate_limiter" where
  "create_rate_limiter opts = \<lparr>rl_options = opts, rl_entries = Map.empty\<rparr>"

definition window_ns :: "rate_limit_options \<Rightarrow> int" where
  "window_ns opts = rl_window opts * 1000000"

definition cleanup_expired :: "int \<Rightarrow> rate_limiter \<Rightarrow> rate_limiter" where
  "cleanup_expired now rl =
     rl\<lparr>rl_entries := (\<lambda>k. case rl_entries rl k of
                              Some e \<Rightarrow> if now \<ge> re_reset_time e then None else Some e
                            | None \<Rightarrow> None)\<rparr>"

definition try_consume :: "int \<Rightarrow> string \<Rightarrow> rate_limiter \<Rightarrow> bool \<times> rate_limiter" where
  "try_consume now key rl0 =
     (let rl = cleanup_expired now rl0;
          fresh = (True, rl\<lparr>rl_entries := (rl_entries rl)
                    (key \<mapsto> \<lparr>re_count = 1, re_reset_time = now + window_ns (rl_options rl)\<rparr>)\<rparr>)
      in case rl_entries rl key of
           None \<Rightarrow> fresh
         | Some e \<Rightarrow>
             if now \<ge> re_reset_time e then fresh
             else if re_count e \<ge> rl_max_requests (rl_options rl) then (False, rl)
             else (True, rl\<lparr>rl_entries := (rl_entries rl)(key \<mapsto> e\<lparr>re_count := re_count e + 1\<rparr>)\<rparr>))"

definition remaining :: "int \<Rightarrow> string \<Rightarrow> rate_limiter \<Rightarrow> nat" where
  "remaining now key rl =
     (case rl_entries rl key of
        None \<Rightarrow> rl_max_requests (rl_options rl)
      | Some e \<Rightarrow>
          if now \<ge> re_reset_time e then rl_max_requests (rl_options rl)
          else if rl_max_requests (rl_options rl) \<le> re_count e then 0
          else rl_max_requests (rl_options rl) - re_count e)"

text \<open>In milliseconds, \<open>duration_cast\<close> rounding towards zero.\<close>

definition reset_after :: "int \<Rightarrow> string \<Rightarrow> rate_limiter \<Rightarrow> int" where
  "reset_after now key rl =
     (case rl_entries rl key of
        None \<Rightarrow> rl_window (rl_options rl)
      | Some e \<Rightarrow> if now \<ge> re_reset_time e then 0 else (re_reset_time e - now) div 1000000)"

definition extract_ip :: "request_context \<Rightarrow> string" where
  "extract_ip ctx =
     (case context_header ctx ''X-Forwarded-For'' of
        Some f \<Rightarrow> (case find_char CHR '','' f of Some i \<Rightarrow> take i f | None \<Rightarrow> f)
      | None \<Rightarrow>
          (case context_header ctx ''X-Real-IP'' of
             Some ip \<Rightarrow> ip
           | None \<Rightarrow> rm_remote_address (rq_meta (cx_request ctx))))"

definition extract_user :: "request_context \<Rightarrow> string" where
  "extract_user ctx = (case local_string ctx ''user_id'' of Some u \<Rightarrow> u | None \<Rightarrow> extract_ip ctx)"

text \<open>The clock readings of one pass through the middleware, in order.\<close>

record clock_readings =
  ck_cleanup :: int
  ck_consume :: int
  ck_remaining :: int
  ck_reset :: int

definition rate_headers :: "clock_readings \<Rightarrow> rate_limit_options \<Rightarrow> string \<Rightarrow> rate_limiter \<Rightarrow> request_context \<Rightarrow> request_context" where
  "rate_headers ck opts key rl ctx =
     set_header ''X-RateLimit-Reset'' (dec_of_int (reset_after (ck_reset ck) key rl div 1000))
       (set_header ''X-RateLimit-Remaining'' (dec_of_nat (remaining (ck_remaining ck) key rl))
         (set_header ''X-RateLimit-Limit'' (dec_of_nat (rl_max_requests opts)) ctx))"

definition rate_limit :: "clock_readings \<Rightarrow> rate_limit_options \<Rightarrow> (rate_limiter \<times> 'w) middleware" where
  "rate_limit ck opts next = (\<lambda>(ctx, rl, w).
     let rl1 = cleanup_expired (ck_cleanup ck) rl;
         key = (if rl_key_extractor opts = ''user'' then extract_user ctx else extract_ip ctx);
         (ok, rl2) = try_consume (ck_consume ck) key rl1
     in if \<not> ok then
          (let ctx1 = (if rl_include_headers opts
                       then set_header ''Retry-After'' (dec_of_int (reset_after (ck_reset ck) key rl2 div 1000))
                              (rate_headers ck opts key rl2 ctx)
                       else ctx)
           in (Some (FrameworkError (mk_error TooManyRequests (rl_message opts) [])), ctx1, rl2, w))
        else
          next (if rl_include_headers opts then rate_headers ck opts key rl2 ctx else ctx, rl2, w))"

section \<open>Counting\<close>

definition budget :: "rate_limiter \<Rightarrow> nat" where
  "budget rl = max 1 (rl_max_requests (rl_options rl))"

definition used :: "rate_limiter \<Rightarrow> string \<Rightarrow> nat" where
  "used rl k = (case rl_entries rl k of None \<Rightarrow> 0 | Some e \<Rightarrow> re_count e)"

definition counts_ok :: "rate_limiter \<Rightarrow> bool" where
  "counts_ok rl \<longleftrightarrow> (\<forall>k e. rl_entries rl k = Some e \<longrightarrow> 1 \<le> re_count e \<and> re_count e \<le> budget rl)"

definition consume_step :: "rate_limiter \<Rightarrow> int \<times> string \<Rightarrow> rate_limiter" where
  "consume_step rl ev = snd (try_consume (fst ev) (snd ev) rl)"

lemma try_consume_options [simp]: "rl_options (snd (try_consume now key rl)) = rl_options rl"
  by (auto simp: try_consume_def cleanup_expired_def Let_def split: option.splits)

lemma budget_consume [simp]: "budget (snd (try_consume now key rl)) = budget rl"
  by (simp add: budget_def)

lemma counts_ok_consume: "counts_ok rl \<Longrightarrow> counts_ok (snd (try_consume now key rl))"
  by (auto simp: counts_ok_def budget_def try_consume_def cleanup_expired_def Let_def
      split: option.splits if_splits)

interpretation limiter: invariant_machine consume_step counts_ok
  by unfold_locales (simp add: consume_step_def counts_ok_consume)

text \<open>No entry expires before \<open>horizon\<close>.\<close>

definition unexpired :: "int \<Rightarrow> rate_limiter \<Rightarrow> bool" where
  "unexpired horizon rl \<longleftrightarrow> (\<forall>k e. rl_entries rl k = Some e \<longrightarrow> horizon \<le> re_reset_time e)"

lemma try_consume_unexpired:
  assumes "unexpired horizon rl" and "now < horizon" and "horizon \<le> now + window_ns (rl_options rl)" and "counts_ok rl"
  shows "unexpired horizon (snd (try_consume now key rl))"
    and "fst (try_consume now key rl) \<longleftrightarrow> used rl key < budget rl"
    and "used (snd (try_consume now key rl)) k =
           used rl k + (if k = key \<and> used rl key < budget rl then 1 else 0)"
proof -
  have "cleanup_expired now rl = rl"
  proof -
    have "(case rl_entries rl k of Some e \<Rightarrow> if now \<ge> re_reset_time e then None else Some e | None \<Rightarrow> None) = rl_entries rl k" for k
      using assms(1,2) unfolding unexpired_def by (cases "rl_entries rl k") fastforce+
    then show ?thesis by (simp add: cleanup_expired_def)
  qed
  then have tc: "try_consume now key rl =
    (case rl_entries rl key of
       None \<Rightarrow> (True, rl\<lparr>rl_entries := (rl_entries rl)(key \<mapsto> \<lparr>re_count = 1, re_reset_time = now + window_ns (rl_options rl)\<rparr>)\<rparr>)
     | Some e \<Rightarrow> if re_count e \<ge> rl_max_requests (rl_options rl) then (False, rl)
         else (True, rl\<lparr>rl_entries := (rl_entries rl)(key \<mapsto> e\<lparr>re_count := re_count e + 1\<rparr>)\<rparr>))"
    using assms(1,2) by (fastforce simp: try_consume_def Let_def unexpired_def split: option.splits)
  show "unexpired horizon (snd (try_consume now key rl))"
    using assms by (auto simp: tc unexpired_def split: option.splits)
  have c: "1 \<le> re_count e" if "rl_entries rl key = Some e" for e using assms(4) that by (auto simp: counts_ok_def)
  show "fst (try_consume now key rl) \<longleftrightarrow> used rl key < budget rl"
    using c by (cases "rl_entries rl key") (auto simp: tc used_def budget_def max_def)
  show "used (snd (try_consume now key rl)) k = used rl k + (if k = key \<and> used rl key < budget rl then 1 else 0)"
    using c by (cases "rl_entries rl key") (auto simp: tc used_def budget_def max_def)
qed

fun accepted :: "string \<Rightarrow> (int \<times> string) list \<Rightarrow> rate_limiter \<Rightarrow> nat" where
  "accepted k [] rl = 0"
| "accepted k ((now, key) # evs) rl =
     (case try_consume now key rl of
        (ok, rl') \<Rightarrow> (if ok \<and> key = k then 1 else 0) + accepted k evs rl')"

definition arrivals :: "string \<Rightarrow> (int \<times> string) list \<Rightarrow> nat" where
  "arrivals k evs = length (filter (\<lambda>ev. snd ev = k) evs)"

lemma accepted_count:
  "counts_ok rl \<Longrightarrow> unexpired horizon rl \<Longrightarrow> used rl k \<le> budget rl \<Longrightarrow>
   \<forall>ev \<in> set evs. fst ev < horizon \<and> horizon \<le> fst ev + window_ns (rl_options rl) \<Longrightarrow>
   accepted k evs rl = min (arrivals k evs) (budget rl - used rl k)"
proof (induction k evs rl rule: accepted.induct)
  case (1 k rl)
  then show ?case by (simp add: arrivals_def)
next
  case (2 k now key evs rl)
  note tc = try_consume_unexpired [OF "2.prems"(2) _ _ "2.prems"(1), of now]
  have rest: "accepted k evs (snd (try_consume now key rl)) =
    min (arrivals k evs) (budget rl - used (snd (try_consume now key rl)) k)"
    using "2.IH" [of "fst (try_consume now key rl)" "snd (try_consume now key rl)"] "2.prems" tc
    by (simp add: counts_ok_consume split: if_splits)
  then show ?case using tc(2,3) "2.prems" by (auto simp: split_beta arrivals_def)
qed

section \<open>Properties\<close>

text \<open>
  Within one window the limiter admits, for every key independently, exactly the first
  \<open>max(1, max_requests)\<close> requests, whatever the interleaving of keys: with all arrivals inside a
  window of length \<open>window\<close>, the number admitted is the smaller of the number of arrivals and that
  budget, and no counter ever leaves the budget.\<close>

theorem rate_limit_exact:
  assumes "\<forall>ev \<in> set evs. start \<le> fst ev \<and> fst ev < start + window_ns opts"
  shows "accepted k evs (create_rate_limiter opts) = min (arrivals k evs) (max 1 (rl_max_requests opts))
    \<and> counts_ok (foldl consume_step (create_rate_limiter opts) evs)"
proof -
  have ok: "counts_ok (create_rate_limiter opts)" by (simp add: counts_ok_def create_rate_limiter_def)
  then have "counts_ok (foldl consume_step (create_rate_limiter opts) evs)" by (rule limiter.inv_run)
  moreover have "accepted k evs (create_rate_limiter opts)
    = min (arrivals k evs) (budget (create_rate_limiter opts) - used (create_rate_limiter opts) k)"
    using assms by (intro accepted_count [OF ok, where horizon = "start + window_ns opts"])
      (auto simp: create_rate_limiter_def unexpired_def used_def)
  ultimately show ?thesis by (simp add: budget_def used_def create_rate_limiter_def)
qed

theorem rate_limit_exact_witness:
  "accepted ''a'' [(0, ''a''), (1, ''b''), (2, ''a''), (3, ''a'')] (create_rate_limiter (default_rate_limit_options\<lparr>rl_max_requests := 2\<rparr>)) = 2"
  using rate_limit_exact [of "[(0, ''a''), (1, ''b''), (2, ''a''), (3, ''a'')]" 0
      "default_rate_limit_options\<lparr>rl_max_requests := 2\<rparr>" "''a''"]
  by (simp add: window_ns_def default_rate_limit_options_def arrivals_def del: accepted.simps)

text \<open>
  A rejected request stops at the limiter: the rest of the chain is not run, the exception is
  \<open>TooManyRequests\<close>, and with headers enabled the client is told to retry; an admitted request
  reaches the chain with the limiter already charged.\<close>

theorem rate_limit_guards:
  "case rate_limit ck opts nxt (ctx, rl, w) of (e, ctx', rl', w') \<Rightarrow>
     let key = (if rl_key_extractor opts = ''user'' then extract_user ctx else extract_ip ctx);
         r = try_consume (ck_consume ck) key (cleanup_expired (ck_cleanup ck) rl)
     in if fst r then \<exists>ctx1. rate_limit ck opts nxt (ctx, rl, w) = nxt (ctx1, snd r, w) \<and> cx_request ctx1 = cx_request ctx
        else e = Some (FrameworkError (mk_error TooManyRequests (rl_message opts) [])) \<and> w' = w \<and> rl' = snd r
          \<and> (rl_include_headers opts \<longrightarrow> response_header_value ctx' ''Retry-After'' \<noteq> None)"
  by (auto simp: rate_limit_def Let_def split_beta rate_headers_def same_name_def)

theorem rate_limit_guards_witness:
  "fst (rate_limit \<lparr>ck_cleanup = 0, ck_consume = 0, ck_remaining = 0, ck_reset = 0\<rparr> default_rate_limit_options
      (\<lambda>s. (None, s)) (blank_context, create_rate_limiter default_rate_limit_options, ())) = None"
proof -
  let ?ck = "\<lparr>ck_cleanup = 0, ck_consume = 0, ck_remaining = 0, ck_reset = 0\<rparr>"
  have "fst (try_consume 0 k (cleanup_expired 0 (create_rate_limiter default_rate_limit_options)))" for k
    by (simp add: try_consume_def cleanup_expired_def create_rate_limiter_def Let_def)
  with rate_limit_guards [where ck = ?ck and opts = default_rate_limit_options and nxt = "\<lambda>s. (None, s)"
      and ctx = blank_context and rl = "create_rate_limiter default_rate_limit_options" and w = "()"]
  show ?thesis by (auto simp: Let_def split_beta split: if_splits)
qed

end
