(* ===== verification/Forms.thy ===== *)
theory Forms
  imports Middleware
begin

text \<open>
  The body parsers \<open>form_parser.hpp\<close> and \<open>multipart_parser.hpp\<close> of \<open>layer3/include/async_uv_layer3\<close>.
  \<open>ada::unicode::percent_decode\<close> is the parameter \<open>ada\<close>. The loop over multipart parts may not
  end, so it is a partial function: \<open>None\<close> is a loop that never returns.
\<close>

section \<open>URL-encoded forms\<close>

definition plus_to_space :: "string \<Rightarrow> string" where
  "plus_to_space = map (\<lambda>c. if c = CHR ''+'' then CHR '' '' else c)"

definition percent_decode_component :: "(string \<Rightarrow> nat \<Rightarrow> string) \<Rightarrow> string \<Rightarrow> string" where
  "percent_decode_component ada text =
     (if find_char CHR ''%'' text = None \<and> find_char CHR ''+'' text = None then text
      else
        let normalized = (if find_char CHR ''+'' text \<noteq> None then plus_to_space text else text)
        in case find_char CHR ''%'' normalized of
             None \<Rightarrow> normalized
           | Some i \<Rightarrow> ada normalized i)"

definition add_form_pair :: "(string \<Rightarrow> nat \<Rightarrow> string) \<Rightarrow> string \<Rightarrow> form_data \<Rightarrow> form_data" where
  "add_form_pair ada pair result =
     (if pair = [] then result
      else case find_char CHR ''='' pair of
             None \<Rightarrow> result(percent_decode_component ada pair \<mapsto> [])
           | Some eq \<Rightarrow> result(percent_decode_component ada (take eq pair)
                             \<mapsto> percent_decode_component ada (drop (Suc eq) pair)))"

function parse_form_loop :: "(string \<Rightarrow> nat \<Rightarrow> string) \<Rightarrow> string \<Rightarrow> form_data \<Rightarrow> form_data" where
  "parse_form_loop ada body result =
     (if body = [] then result
      else case find_char CHR ''&'' body of
             None \<Rightarrow> add_form_pair ada body result
           | Some amp \<Rightarrow> parse_form_loop ada (drop (Suc amp) body) (add_form_pair ada (take amp body) result))"
  by pat_completeness auto
termination
  by (relation "measure (\<lambda>(ada, body, result). length body)") auto

declare parse_form_loop.simps [simp del]

definition parse_form_data :: "(string \<Rightarrow> nat \<Rightarrow> string) \<Rightarrow> string \<Rightarrow> form_data" where
  "parse_form_data ada body = parse_form_loop ada body Map.empty"

definition form_parser :: "(string \<Rightarrow> nat \<Rightarrow> string) \<Rightarrow> 'w middleware" where
  "form_parser ada next = (\<lambda>(ctx, w).
     next ((case context_header ctx ''Content-Type'' of
              None \<Rightarrow> ctx
            | Some ct \<Rightarrow>
                if find_str ''application/x-www-form-urlencoded'' ct \<noteq> None
                then set_local ''form_data'' (Any_form (parse_form_data ada (rq_body (cx_request ctx)))) ctx
                else ctx), w))"

definition form_field :: "request_context \<Rightarrow> string \<Rightarrow> string option" where
  "form_field ctx name = (case local_form ctx ''form_data'' of None \<Rightarrow> None | Some m \<Rightarrow> m name)"

definition has_form_data :: "request_context \<Rightarrow> bool" where
  "has_form_data ctx \<longleftrightarrow> local_form ctx ''form_data'' \<noteq> None"

definition all_form_data :: "request_context \<Rightarrow> form_data option" where
  "all_form_data ctx = local_form ctx ''form_data''"

section \<open>Multipart bodies\<close>

definition is_file :: "multipart_field \<Rightarrow> bool" where
  "is_file f \<longleftrightarrow> mf_filename f \<noteq> []"

definition multipart_get :: "multipart_data \<Rightarrow> string \<Rightarrow> string option" where
  "multipart_get d name = (case d name of Some (f # _) \<Rightarrow> Some (mf_data f) | _ \<Rightarrow> None)"

definition multipart_get_file :: "multipart_data \<Rightarrow> string \<Rightarrow> multipart_field option" where
  "multipart_get_file d name = (case d name of None \<Rightarrow> None | Some fs \<Rightarrow> List.find is_file fs)"

definition multipart_get_all :: "multipart_data \<Rightarrow> string \<Rightarrow> multipart_field list option" where
  "multipart_get_all d name = d name"

definition is_crlf :: "char \<Rightarrow> bool" where
  "is_crlf c \<longleftrightarrow> c = CR \<or> c = LF"

definition is_blank :: "char \<Rightarrow> bool" where
  "is_blank c \<longleftrightarrow> c = CHR '' '' \<or> c = TAB"

definition trim_space :: "string \<Rightarrow> string" where
  "trim_space = strip_by is_blank"

function skip_semicolons :: "string \<Rightarrow> string" where
  "skip_semicolons rest =
     (if rest \<noteq> [] \<and> hd rest = CHR '';'' then skip_semicolons (trim_space (tl rest)) else rest)"
  by pat_completeness auto
termination
proof (relation "measure length")
  fix rest :: string
  assume "rest \<noteq> [] \<and> hd rest = CHR '';''"
  then show "(trim_space (tl rest), rest) \<in> measure length"
    using length_strip_by [of is_blank "tl rest"] by (cases rest) (auto simp: trim_space_def)
qed simp

declare skip_semicolons.simps [simp del]

lemma length_skip_semicolons: "length (skip_semicolons rest) \<le> length rest"
proof (induction rest rule: skip_semicolons.induct)
  case (1 rest)
  show ?case
  proof (cases "rest \<noteq> [] \<and> hd rest = CHR '';''")
    case True
    with 1 length_strip_by [of is_blank "tl rest"] show ?thesis
      by (subst skip_semicolons.simps) (auto simp: trim_space_def)
  next
    case False
    then show ?thesis by (subst skip_semicolons.simps) auto
  qed
qed

text \<open>The value after \<open>key=\<close>, and what follows it.\<close>

definition disposition_value :: "string \<Rightarrow> string \<times> string" where
  "disposition_value rest =
     (if rest \<noteq> [] \<and> hd rest = DQUOTE then
        (case find_char DQUOTE (tl rest) of
           None \<Rightarrow> ([], tl rest)
         | Some i \<Rightarrow> (take i (tl rest), drop (Suc i) (tl rest)))
      else case find_char CHR '';'' rest of
             None \<Rightarrow> (rest, [])
           | Some i \<Rightarrow> (take i rest, drop (Suc i) rest))"

lemma disposition_value_length: "length (snd (disposition_value rest)) \<le> length rest"
  by (auto simp: disposition_value_def split: option.splits)

function disposition_loop :: "string \<Rightarrow> (string \<rightharpoonup> string) \<Rightarrow> (string \<rightharpoonup> string)" where
  "disposition_loop rest params =
     (let r = skip_semicolons (trim_space rest)
      in if rest = [] \<or> r = [] then params
         else case find_char CHR ''='' r of
                None \<Rightarrow> (case find_char CHR '';'' r of
                           None \<Rightarrow> params
                         | Some i \<Rightarrow> disposition_loop (drop (Suc i) r) params)
              | Some i \<Rightarrow>
                  (let (v, rest') = disposition_value (trim_space (drop (Suc i) r))
                   in disposition_loop rest' (params(trim_space (take i r) \<mapsto> v))))"
  by pat_completeness auto
termination
proof (relation "measure (\<lambda>(rest, params). length rest)")
  fix rest :: string and params :: "string \<rightharpoonup> string" and r i v rest'
  have r: "length (skip_semicolons (trim_space rest)) \<le> length rest"
    using length_skip_semicolons [of "trim_space rest"] length_strip_by [of is_blank rest]
    by (simp add: trim_space_def)
  assume r_def: "r = skip_semicolons (trim_space rest)" and ne: "\<not> (rest = [] \<or> r = [])"
  {
    assume "find_char CHR '';'' r = Some i"
    with r r_def show "((drop (Suc i) r, params), rest, params) \<in> measure (\<lambda>(rest, params). length rest)"
      by (auto simp: find_char_Some)
  }
  {
    fix x y
    assume "find_char CHR ''='' r = Some i" and "x = disposition_value (trim_space (drop (Suc i) r))" and "(v, y) = x"
    then have "length y \<le> length (drop (Suc i) r)" "i < length r"
      using disposition_value_length [of "trim_space (drop (Suc i) r)"] length_strip_by [of is_blank "drop (Suc i) r"]
      by (auto simp: trim_space_def find_char_Some dest: sym)
    with r r_def show "((y, params(trim_space (take i r) \<mapsto> v)), rest, params) \<in> measure (\<lambda>(rest, params). length rest)"
      by simp
  }
qed simp

declare disposition_loop.simps [simp del]

definition parse_content_disposition :: "string \<Rightarrow> (string \<rightharpoonup> string)" where
  "parse_content_disposition header =
     (case find_char CHR '';'' header of
        None \<Rightarrow> Map.empty
      | Some i \<Rightarrow> disposition_loop (drop (Suc i) header) Map.empty)"

definition header_line_at :: "string \<Rightarrow> string \<Rightarrow> string option" where
  "header_line_at name hs =
     map_option (\<lambda>p. case find_char_from LF hs p of None \<Rightarrow> drop p hs | Some e \<Rightarrow> substr hs p (e - p))
       (find_str name hs)"

definition part_headers_end :: "string \<Rightarrow> nat option" where
  "part_headers_end part =
     (case find_str (CRLF @ CRLF) part of Some h \<Rightarrow> Some h | None \<Rightarrow> find_str [LF, LF] part)"

definition opt_default :: "string \<Rightarrow> string option \<Rightarrow> string" where
  "opt_default d v = (case v of None \<Rightarrow> d | Some s \<Rightarrow> s)"

definition parse_part :: "string \<Rightarrow> nat \<Rightarrow> multipart_field" where
  "parse_part part header_end =
     (let hs = take header_end part;
          data0 = drop header_end part;
          skip = (if part ! header_end = CR then 4 else 2);
          data1 = (if length data0 \<ge> skip then drop skip data0 else data0);
          data = rev (dropWhile is_crlf (rev data1));
          params = (case header_line_at ''Content-Disposition:'' hs of
                      None \<Rightarrow> Map.empty | Some l \<Rightarrow> parse_content_disposition l);
          ct = (case header_line_at ''Content-Type:'' hs of
                  None \<Rightarrow> []
                | Some l \<Rightarrow> (case find_char CHR '':'' l of None \<Rightarrow> [] | Some i \<Rightarrow> trim_space (drop (Suc i) l)))
      in \<lparr>mf_name = opt_default [] (params ''name''), mf_filename = opt_default [] (params ''filename''),
          mf_content_type = ct, mf_data = data\<rparr>)"

definition add_field :: "multipart_field \<Rightarrow> multipart_data \<Rightarrow> multipart_data" where
  "add_field f d =
     (if mf_name f = [] then d
      else d(mf_name f \<mapsto> (case d (mf_name f) of None \<Rightarrow> [] | Some fs \<Rightarrow> fs) @ [f]))"

definition skip_crlf :: "string \<Rightarrow> nat \<Rightarrow> nat" where
  "skip_crlf body pos = pos + length (takeWhile is_crlf (drop pos body))"

text \<open>Where the part after position \<open>pos\<close> starts and ends; \<open>None\<close> where the loop breaks.\<close>

definition next_part :: "string \<Rightarrow> string \<Rightarrow> nat \<Rightarrow> (nat \<times> nat) option" where
  "next_part body boundary pos =
     (let delimiter = ''--'' @ boundary
      in case find_str_from delimiter body pos of
           None \<Rightarrow> None
         | Some p \<Rightarrow>
             (let part_start = skip_crlf body (p + length delimiter)
              in if part_start \<ge> length body then None
                 else case find_str_from delimiter body part_start of
                        Some e \<Rightarrow> Some (part_start, e)
                      | None \<Rightarrow> map_option (Pair part_start)
                                  (find_str_from (delimiter @ ''--'') body part_start)))"

partial_function (option) multipart_loop ::
  "string \<Rightarrow> string \<Rightarrow> nat \<Rightarrow> multipart_data \<Rightarrow> multipart_data option" where
  "multipart_loop body boundary pos acc =
     (if pos < length body then
        case next_part body boundary pos of
          None \<Rightarrow> Some acc
        | Some (part_start, part_end) \<Rightarrow>
            (let part = substr body part_start (part_end - part_start)
             in case part_headers_end part of
                  None \<Rightarrow> multipart_loop body boundary pos acc
                | Some h \<Rightarrow> multipart_loop body boundary part_end (add_field (parse_part part h) acc))
      else Some acc)"

definition parse_multipart :: "string \<Rightarrow> string \<Rightarrow> multipart_data option" where
  "parse_multipart body boundary = multipart_loop body boundary 0 Map.empty"

definition unquote :: "string \<Rightarrow> string" where
  "unquote s =
     (let s1 = (if s \<noteq> [] \<and> hd s = DQUOTE then tl s else s)
      in if s1 \<noteq> [] \<and> last s1 = DQUOTE then butlast s1 else s1)"

text \<open>\<open>None\<close>: the parser does not return, so neither does the request.\<close>

definition multipart_parser ::
  "'w action \<Rightarrow> request_context \<times> 'w \<Rightarrow> (exn option \<times> request_context \<times> 'w) option" where
  "multipart_parser next = (\<lambda>(ctx, w).
     case context_header ctx ''Content-Type'' of
       None \<Rightarrow> Some (next (ctx, w))
     | Some ct \<Rightarrow>
         (case find_str ''boundary='' ct of
            None \<Rightarrow> Some (next (ctx, w))
          | Some p \<Rightarrow>
              (let start = p + 9;
                   b = unquote (case find_char_from CHR '';'' ct start of
                                  None \<Rightarrow> drop start ct | Some e \<Rightarrow> substr ct start (e - start))
               in case parse_multipart (rq_body (cx_request ctx)) b of
                    None \<Rightarrow> None
                  | Some d \<Rightarrow> Some (next (set_local ''multipart_data'' (Any_multipart d) ctx, w)))))"

section \<open>Forms read back\<close>

definition plain_text :: "string \<Rightarrow> bool" where
  "plain_text s \<longleftrightarrow> (\<forall>c \<in> set s. c \<notin> {CHR ''%'', CHR ''+'', CHR ''&'', CHR ''=''})"

fun form_encode :: "(string \<times> string) list \<Rightarrow> string" where
  "form_encode [] = []"
| "form_encode [(k, v)] = k @ CHR ''='' # v"
| "form_encode ((k, v) # kv # kvs) = (k @ CHR ''='' # v) @ CHR ''&'' # form_encode (kv # kvs)"

lemma percent_decode_plain: "plain_text s \<Longrightarrow> percent_decode_component ada s = s"
proof -
  assume "plain_text s"
  then have "find_char CHR ''%'' s = None" "find_char CHR ''+'' s = None"
    by (auto simp: plain_text_def find_char_None)
  then show ?thesis by (simp add: percent_decode_component_def)
qed

lemma add_form_pair_plain:
  assumes "plain_text k" and "plain_text v"
  shows "add_form_pair ada (k @ CHR ''='' # v) m = m(k \<mapsto> v)"
proof -
  have "find_char CHR ''='' (k @ CHR ''='' # v) = Some (length k)"
    using assms(1) by (intro find_char_append) (auto simp: plain_text_def)
  then show ?thesis using assms by (simp add: add_form_pair_def percent_decode_plain)
qed

lemma parse_form_loop_encode:
  "\<forall>(k, v) \<in> set kvs. plain_text k \<and> plain_text v \<Longrightarrow>
     parse_form_loop ada (form_encode kvs) m = foldl (\<lambda>m (k, v). m(k \<mapsto> v)) m kvs"
proof (induction kvs arbitrary: m rule: form_encode.induct)
  case 1
  show ?case by (simp add: parse_form_loop.simps)
next
  case (2 k v)
  then have "find_char CHR ''&'' (k @ CHR ''='' # v) = None" by (auto simp: find_char_None plain_text_def)
  with 2 show ?case by (simp add: parse_form_loop.simps [of ada "k @ CHR ''='' # v"] add_form_pair_plain)
next
  case (3 k v kv kvs)
  let ?pair = "k @ CHR ''='' # v"
  have kv: "plain_text k" "plain_text v" "\<forall>(k, v) \<in> set (kv # kvs). plain_text k \<and> plain_text v"
    using "3.prems" by simp_all
  from kv(1,2) have "CHR ''&'' \<notin> set ?pair" by (auto simp: plain_text_def)
  then have "find_char CHR ''&'' (?pair @ CHR ''&'' # form_encode (kv # kvs)) = Some (length ?pair)"
    by (rule find_char_append)
  then have "parse_form_loop ada (?pair @ CHR ''&'' # form_encode (kv # kvs)) m
    = parse_form_loop ada (form_encode (kv # kvs)) (add_form_pair ada ?pair m)"
    by (subst parse_form_loop.simps) simp
  also have "\<dots> = foldl (\<lambda>m (k, v). m(k \<mapsto> v)) (m(k \<mapsto> v)) (kv # kvs)"
    unfolding add_form_pair_plain [OF kv(1,2)] by (rule "3.IH" [OF kv(3)])
  finally show ?case by (simp del: fun_upd_apply)
qed

section \<open>When the multipart loop ends\<close>

text \<open>The positions the loop visits.\<close>

inductive part_at :: "string \<Rightarrow> string \<Rightarrow> nat \<Rightarrow> bool" for body boundary where
  first: "part_at body boundary 0"
| after: "part_at body boundary pos \<Longrightarrow> pos < length body \<Longrightarrow> next_part body boundary pos = Some (s, e) \<Longrightarrow>
    part_headers_end (substr body s (e - s)) \<noteq> None \<Longrightarrow> part_at body boundary e"

definition part_complete :: "string \<Rightarrow> string \<Rightarrow> nat \<Rightarrow> bool" where
  "part_complete body boundary pos \<longleftrightarrow>
     (case next_part body boundary pos of
        None \<Rightarrow> True | Some (s, e) \<Rightarrow> part_headers_end (substr body s (e - s)) \<noteq> None)"

lemma next_part_progress: "next_part body boundary pos = Some (s, e) \<Longrightarrow> pos < e"
  by (auto simp: next_part_def skip_crlf_def Let_def split: option.splits if_splits dest!: find_str_from_bound)

lemma multipart_loop_hangs:
  assumes "pos < length body" and "\<not> part_complete body boundary pos"
  shows "multipart_loop body boundary pos acc = None"
proof (rule ccontr)
  assume "multipart_loop body boundary pos acc \<noteq> None"
  then obtain r where r: "multipart_loop body boundary pos acc = Some r" by blast
  let ?P = "\<lambda>b d p a r. \<not> (b = body \<and> d = boundary \<and> p = pos)"
  have "?P body boundary pos acc r"
  proof (rule multipart_loop.raw_induct [where P = ?P, OF _ r], rule notI, elim conjE)
    fix f b d p a x
    assume IH: "\<And>b d p a r. f b d p a = Some r \<Longrightarrow> ?P b d p a r" and here: "b = body" "d = boundary" "p = pos"
      and eq: "(if p < length b then
        case next_part b d p of
          None \<Rightarrow> Some a
        | Some (part_start, part_end) \<Rightarrow>
            (let part = substr b part_start (part_end - part_start)
             in case part_headers_end part of
                  None \<Rightarrow> f b d p a
                | Some h \<Rightarrow> f b d part_end (add_field (parse_part part h) a))
      else Some a) = Some x"
    have "f body boundary pos a = Some x"
      using eq assms unfolding here by (auto simp: part_complete_def Let_def split: option.splits)
    with IH show False by blast
  qed
  then show False by simp
qed

lemma multipart_loop_returns:
  "\<forall>q. part_at body boundary q \<longrightarrow> q < length body \<longrightarrow> part_complete body boundary q \<Longrightarrow> part_at body boundary pos \<Longrightarrow>
     \<exists>d. multipart_loop body boundary pos acc = Some d"
proof (induction "length body - pos" arbitrary: pos acc rule: less_induct)
  case less
  show ?case
  proof (cases "pos < length body \<and> next_part body boundary pos \<noteq> None")
    case True
    then obtain s e where n: "next_part body boundary pos = Some (s, e)" by auto
    with less.prems True obtain h where h: "part_headers_end (substr body s (e - s)) = Some h"
      by (fastforce simp: part_complete_def)
    have "part_at body boundary e" using part_at.after [OF less.prems(2) _ n] True h by simp
    moreover have "length body - e < length body - pos" using next_part_progress [OF n] True by (intro diff_less_mono2) auto
    ultimately have "\<exists>d. multipart_loop body boundary e a = Some d" for a using less.hyps less.prems(1) by blast
    with True n h show ?thesis by (subst multipart_loop.simps) (simp add: Let_def)
  next
    case False
    then show ?thesis by (subst multipart_loop.simps, cases "next_part body boundary pos") auto
  qed
qed

lemma multipart_loop_reaches:
  "part_at body boundary pos \<Longrightarrow> \<exists>acc'. multipart_loop body boundary 0 acc = multipart_loop body boundary pos acc'"
proof (induction rule: part_at.induct)
  case first
  show ?case by blast
next
  case (after pos s e)
  then obtain a h where a: "multipart_loop body boundary 0 acc = multipart_loop body boundary pos a"
    and h: "part_headers_end (substr body s (e - s)) = Some h" by auto
  have "multipart_loop body boundary pos a = multipart_loop body boundary e (add_field (parse_part (substr body s (e - s)) h) a)"
    using after h by (subst multipart_loop.simps) (simp add: Let_def)
  with a show ?case by metis
qed

section \<open>Properties\<close>

text \<open>
  A form reads back: for keys and values free of the four special bytes, parsing their
  URL-encoded form gives the map in which the last value of each key wins, whatever the percent
  decoder does.\<close>

theorem form_roundtrip:
  assumes "\<forall>(k, v) \<in> set kvs. plain_text k \<and> plain_text v"
  shows "parse_form_data ada (form_encode kvs) = foldl (\<lambda>m (k, v). m(k \<mapsto> v)) Map.empty kvs"
  using parse_form_loop_encode [OF assms] by (simp add: parse_form_data_def)

theorem form_roundtrip_witness:
  "parse_form_data (\<lambda>s i. s) ''a=1&b=2&a=3'' = [''a'' \<mapsto> ''3'', ''b'' \<mapsto> ''2'']"
proof -
  have "\<forall>(k, v) \<in> set [(''a'', ''1''), (''b'', ''2''), (''a'', ''3'')]. plain_text k \<and> plain_text v"
    by (simp add: plain_text_def)
  from form_roundtrip [OF this, of "\<lambda>s i. s"] show ?thesis by (auto simp: fun_upd_def)
qed

text \<open>
  Exactly when a multipart body is parsed: \<open>parse_multipart\<close> returns if and only if every part
  it reaches contains a blank line. A part without one sends the loop round without moving its
  position, so a request with such a body occupies the server for ever.\<close>

theorem parse_multipart_returns_iff:
  "(\<exists>d. parse_multipart body boundary = Some d) \<longleftrightarrow>
     (\<forall>pos. part_at body boundary pos \<longrightarrow> pos < length body \<longrightarrow> part_complete body boundary pos)"
proof
  assume ret: "\<exists>d. parse_multipart body boundary = Some d"
  show "\<forall>pos. part_at body boundary pos \<longrightarrow> pos < length body \<longrightarrow> part_complete body boundary pos"
    using ret multipart_loop_reaches multipart_loop_hangs unfolding parse_multipart_def
    by (metis option.distinct(1))
next
  assume "\<forall>pos. part_at body boundary pos \<longrightarrow> pos < length body \<longrightarrow> part_complete body boundary pos"
  from multipart_loop_returns [OF this part_at.first] show "\<exists>d. parse_multipart body boundary = Some d"
    by (simp add: parse_multipart_def)
qed

theorem parse_multipart_returns_iff_witness:
  "parse_multipart (''--b'' @ CRLF @ ''x--b--'') ''b'' = None"
proof -
  let ?body = "''--b'' @ CRLF @ ''x--b--''"
  have "\<not> part_complete ?body ''b'' 0"
    by (simp add: part_complete_def next_part_def skip_crlf_def is_crlf_def find_str_from_def part_headers_end_def
        substr_def Let_def)
  then have "\<not> (\<forall>pos. part_at ?body ''b'' pos \<longrightarrow> pos < length ?body \<longrightarrow> part_complete ?body ''b'' pos)"
    using part_at.first by force
  then have "\<not> (\<exists>d. parse_multipart ?body ''b'' = Some d)" by (simp only: parse_multipart_returns_iff simp_thms)
  then show ?thesis by (cases "parse_multipart ?body ''b''") blast+
qed

end
