(* ===== verification/App.thy ===== *)
theory App
  imports Router Rate_Limit Forms
begin

text \<open>
  The application object (\<open>layer3/src/app.cpp\<close>): registration,
  the middleware chain with its error hook, dispatch to the router, the two kinds of response,
  and the loop that serves one connection. A handler is an action of the theory \<open>Middleware\<close>;
  the socket is the list of chunks it will deliver and the text written to it. Writes succeed.
\<close>

section \<open>The application\<close>

record 'w lifecycle =
  lc_on_start :: "('w \<Rightarrow> exn option \<times> 'w) option"
  lc_on_stop :: "('w \<Rightarrow> exn option \<times> 'w) option"
  lc_on_error :: "'w action option"

record 'w app =
  app_middlewares :: "'w middleware list"
  app_router :: "'w action router"
  app_limits :: server_limits
  app_policy :: connection_policy
  app_lifecycle :: "'w lifecycle option"

definition new_app :: "'w app" where
  "new_app = \<lparr>app_middlewares = [], app_router = new_router, app_limits = default_limits,
     app_policy = default_policy, app_lifecycle = None\<rparr>"

definition app_use :: "'w middleware \<Rightarrow> 'w app \<Rightarrow> 'w app" where
  "app_use m a = a\<lparr>app_middlewares := app_middlewares a @ [m]\<rparr>"

text \<open>\<open>get\<close>, \<open>post\<close>, \<open>put\<close>, \<open>del\<close>, \<open>patch\<close> and \<open>all\<close> differ in the method they pass on.\<close>

definition app_add ::
  "url_lib \<Rightarrow> string \<Rightarrow> string \<Rightarrow> 'w action \<Rightarrow> route_meta option \<Rightarrow> 'w app \<Rightarrow> route_error option \<times> 'w app" where
  "app_add lib method pattern h meta a =
     (case add_route lib method pattern h meta (app_router a) of
        (e, r) \<Rightarrow> (e, a\<lparr>app_router := r\<rparr>))"

definition app_route :: "url_lib \<Rightarrow> string \<Rightarrow> 'w action router \<Rightarrow> 'w app \<Rightarrow> 'w app" where
  "app_route lib pre sub a = a\<lparr>app_router := mount lib pre sub (app_router a)\<rparr>"

definition app_routes :: "url_lib \<Rightarrow> 'w app \<Rightarrow> route_info list" where
  "app_routes lib a = routes lib (app_router a)"

definition with_limits :: "server_limits \<Rightarrow> 'w app \<Rightarrow> 'w app" where
  "with_limits l a = a\<lparr>app_limits := l\<rparr>"

definition with_policy :: "connection_policy \<Rightarrow> 'w app \<Rightarrow> 'w app" where
  "with_policy p a = a\<lparr>app_policy := p\<rparr>"

definition with_lifecycle :: "'w lifecycle \<Rightarrow> 'w app \<Rightarrow> 'w app" where
  "with_lifecycle l a = a\<lparr>app_lifecycle := Some l\<rparr>"

section \<open>Running a request\<close>

definition join_methods :: "string list \<Rightarrow> string" where
  "join_methods ms = join_strings ms '', ''"

definition build_error_payload :: "int \<Rightarrow> string \<Rightarrow> string \<Rightarrow> request_context \<Rightarrow> string" where
  "build_error_payload status err code ctx =
     ''{'' @ json_string ''status'' @ '':'' @ dec_of_int status
     @ json_field ''error'' (json_string err) @ json_field ''code'' (json_string code)
     @ json_field ''biz_code'' ''null''
     @ json_field ''path'' (json_string (rt_path (rq_target (cx_request ctx))))
     @ json_field ''method'' (json_string (rq_method (cx_request ctx)))
     @ json_field ''request_id'' (json_opt_string (local_string ctx ''request_id''))
     @ json_field ''trace_id'' (json_opt_string (local_string ctx ''trace_id''))
     @ ''}''"

definition dispatch :: "url_lib \<Rightarrow> 'w app \<Rightarrow> 'w action" where
  "dispatch lib a = (\<lambda>(ctx, w).
     let method = rq_method (cx_request ctx); path = rt_path (rq_target (cx_request ctx))
     in case router_match lib method path (app_router a) of
          Some (h, ps) \<Rightarrow> h (ctx\<lparr>cx_params := cx_params ctx ++ ps\<rparr>, w)
        | None \<Rightarrow>
            (let allow = allowed_methods lib path (app_router a)
             in if allow \<noteq> [] then
                  (let ctx1 = set_header ''Allow'' (join_methods allow) ctx
                   in if method = ''OPTIONS'' then (None, send_status 204 ctx1, w)
                      else
                        let ctx2 = set_status 405 ctx1
                        in (None, json_raw (build_error_payload 405 ''Method Not Allowed'' ''METHOD_NOT_ALLOWED'' ctx2) ctx2, w))
                else
                  let ctx2 = set_status 404 ctx
                  in (None, json_raw (build_error_payload 404 ''Not Found'' ''ROUTE_NOT_FOUND'' ctx2) ctx2, w)))"

text \<open>The \<open>catch\<close> around each level of the chain: the hook sees the context, its own exceptions are
  dropped, and the exception goes on.\<close>

definition on_throw :: "'w app \<Rightarrow> 'w action \<Rightarrow> 'w action" where
  "on_throw a act s =
     (case act s of
        (None, r) \<Rightarrow> (None, r)
      | (Some e, r) \<Rightarrow>
          (case app_lifecycle a of
             None \<Rightarrow> (Some e, r)
           | Some lc \<Rightarrow> (case lc_on_error lc of None \<Rightarrow> (Some e, r) | Some hook \<Rightarrow> (Some e, snd (hook r)))))"

fun run_chain :: "url_lib \<Rightarrow> 'w app \<Rightarrow> 'w middleware list \<Rightarrow> 'w action" where
  "run_chain lib a [] = on_throw a (dispatch lib a)"
| "run_chain lib a (m # ms) = on_throw a (m (run_chain lib a ms))"

definition run_middleware_chain :: "url_lib \<Rightarrow> 'w app \<Rightarrow> nat \<Rightarrow> 'w action" where
  "run_middleware_chain lib a index = run_chain lib a (drop index (app_middlewares a))"

datatype response = NormalResponse server_response | StreamingResponse server_response stream_handler

primrec response_of :: "response \<Rightarrow> server_response" where
  "response_of (NormalResponse r) = r"
| "response_of (StreamingResponse r h) = r"

primrec set_keep_alive :: "bool \<Rightarrow> response \<Rightarrow> response" where
  "set_keep_alive ka (NormalResponse r) = NormalResponse (r\<lparr>rs_keep_alive := ka\<rparr>)"
| "set_keep_alive ka (StreamingResponse r h) = StreamingResponse (r\<lparr>rs_keep_alive := ka\<rparr>) h"

definition handle_request :: "url_lib \<Rightarrow> 'w app \<Rightarrow> server_request \<Rightarrow> 'w \<Rightarrow> (exn + response) \<times> 'w" where
  "handle_request lib a rq w =
     (case run_middleware_chain lib a 0 (make_context rq, w) of
        (Some e, _, w') \<Rightarrow> (Inl e, w')
      | (None, ctx, w') \<Rightarrow>
          (Inr (case cx_stream_handler ctx of
                  Some h \<Rightarrow> StreamingResponse (cx_response ctx) h
                | None \<Rightarrow> NormalResponse (cx_response ctx)), w'))"

section \<open>Sending a response\<close>

definition stream_status_text :: "int \<Rightarrow> string" where
  "stream_status_text code =
     (if code = 200 then ''OK'' else if code = 201 then ''Created'' else if code = 204 then ''No Content''
      else if code = 301 then ''Moved Permanently'' else if code = 302 then ''Found''
      else if code = 307 then ''Temporary Redirect'' else if code = 308 then ''Permanent Redirect''
      else if code = 400 then ''Bad Request'' else if code = 401 then ''Unauthorized''
      else if code = 403 then ''Forbidden'' else if code = 404 then ''Not Found''
      else if code = 405 then ''Method Not Allowed'' else if code = 409 then ''Conflict''
      else if code = 413 then ''Payload Too Large'' else if code = 415 then ''Unsupported Media Type''
      else if code = 422 then ''Unprocessable Entity'' else if code = 429 then ''Too Many Requests''
      else if code = 500 then ''Internal Server Error'' else if code = 501 then ''Not Implemented''
      else if code = 503 then ''Service Unavailable'' else ''Unknown'')"

definition stream_head :: "server_response \<Rightarrow> string" where
  "stream_head r =
     ''HTTP/1.1 '' @ dec_of_int (rs_status_code r) @ '' ''
     @ (if rs_reason r = [] then stream_status_text (rs_status_code r) else rs_reason r) @ CRLF
     @ ''Transfer-Encoding: chunked'' @ CRLF
     @ (if rs_keep_alive r then ''Connection: keep-alive'' else ''Connection: close'') @ CRLF
     @ concat (map (\<lambda>h. header_line h @ CRLF) (rs_headers r)) @ CRLF"

definition send_response :: "response \<Rightarrow> socket \<Rightarrow> exn option \<times> socket" where
  "send_response resp s =
     (case resp of
        NormalResponse r \<Rightarrow> (None, write_response_to_socket r s)
      | StreamingResponse r h \<Rightarrow>
          (case h \<lparr>stw_socket = s\<lparr>so_written := so_written s @ stream_head r\<rparr>, stw_closed = False\<rparr> of
             (Some e, w) \<Rightarrow> (Some e, stw_socket w)
           | (None, w) \<Rightarrow> (None, stw_socket (stream_close w))))"

section \<open>Serving a connection\<close>

record connection =
  cn_parser :: parser_state
  cn_reads :: "string list"
  cn_socket :: socket
  cn_state :: connection_state

definition internal_error_response :: server_response where
  "internal_error_response = default_response\<lparr>rs_status_code := 500,
     rs_body := ''{'' @ json_string ''error'' @ '':'' @ json_string ''Internal Server Error'' @ ''}'',
     rs_headers := [mk_header ''Content-Type'' ''application/json''], rs_keep_alive := False\<rparr>"

definition send_internal_error :: "connection \<Rightarrow> connection" where
  "send_internal_error c = c\<lparr>cn_socket := write_response_to_socket internal_error_response (cn_socket c)\<rparr>"

definition keep_alive_request :: "server_request \<Rightarrow> server_request" where
  "keep_alive_request rq =
     default_request\<lparr>rq_major := rq_major rq, rq_minor := rq_minor rq,
       rq_headers := (case request_header (rq_headers rq) ''Connection'' of
                        None \<Rightarrow> [] | Some v \<Rightarrow> [mk_header ''Connection'' v])\<rparr>"

text \<open>One pass of the loop: \<open>Done\<close> leaves it, \<open>Again\<close> goes round; \<open>None\<close> is a parser that does not
  return.\<close>

datatype 'a outcome = Done 'a | Again 'a

definition serve_step ::
  "url_lib \<Rightarrow> beast \<Rightarrow> fs_env \<Rightarrow> int \<Rightarrow> 'w app \<Rightarrow> connection \<times> 'w \<Rightarrow> (connection \<times> 'w) outcome option" where
  "serve_step lib beast env now a = (\<lambda>(c, w).
     case read_request_from_socket beast env lib now (app_limits a) default_meta 0 (cn_reads c) (cn_parser c) of
       None \<Rightarrow> None
     | Some (res, p, reads) \<Rightarrow>
         (let c1 = c\<lparr>cn_parser := p, cn_reads := reads\<rparr>
          in Some (case res of
               Inl e \<Rightarrow> Done (send_internal_error c1, w)
             | Inr None \<Rightarrow> Done (c1, w)
             | Inr (Some rq) \<Rightarrow>
                 (case handle_request lib a rq w of
                    (Inl e, w') \<Rightarrow> Done (send_internal_error c1, w')
                  | (Inr resp, w') \<Rightarrow>
                      (let ka = should_keep_alive (keep_alive_request rq) (response_of resp) (app_policy a) (cn_state c1)
                       in case send_response (set_keep_alive ka resp) (cn_socket c1) of
                            (Some e, s) \<Rightarrow> Done (send_internal_error (c1\<lparr>cn_socket := s\<rparr>), w')
                          | (None, s) \<Rightarrow>
                              (let c2 = c1\<lparr>cn_socket := s,
                                           cn_state := \<lparr>cs_handled_requests = cs_handled_requests (cn_state c1) + 1\<rparr>\<rparr>
                               in if ka then Again (c2, w') else Done (c2, w')))))))"

lemma should_keep_alive_bound:
  "should_keep_alive rq rs p st \<Longrightarrow> cs_handled_requests st + 1 < cp_max_keep_alive_requests p"
  by (auto simp: should_keep_alive_def split: if_splits)

lemma serve_step_handled:
  assumes "serve_step lib beast env now a (c, w) = Some (Again (c', w'))"
  shows "cs_handled_requests (cn_state c') = cs_handled_requests (cn_state c) + 1
         \<and> cs_handled_requests (cn_state c') < cp_max_keep_alive_requests (app_policy a)"
  using assms should_keep_alive_bound
  by (fastforce simp: serve_step_def Let_def split: option.splits sum.splits prod.splits if_splits)

text \<open>The loop ends because each pass that goes round has used one of the allowed requests.\<close>

function serve_connection ::
  "url_lib \<Rightarrow> beast \<Rightarrow> fs_env \<Rightarrow> int \<Rightarrow> 'w app \<Rightarrow> connection \<times> 'w \<Rightarrow> (connection \<times> 'w) option" where
  "serve_connection lib beast env now a s =
     (case serve_step lib beast env now a s of
        None \<Rightarrow> None
      | Some (Done r) \<Rightarrow> Some r
      | Some (Again s') \<Rightarrow> serve_connection lib beast env now a s')"
  by pat_completeness auto
termination
proof (relation "measure (\<lambda>(lib, beast, env, now, a, s). cp_max_keep_alive_requests (app_policy a) - cs_handled_requests (cn_state (fst s)))")
  fix lib beast env now and a :: "'w app" and s x s'
  assume "serve_step lib beast env now a s = Some x" and "x = Again s'"
  then show "((lib, beast, env, now, a, s'), lib, beast, env, now, a, s)
      \<in> measure (\<lambda>(lib, beast, env, now, a, s). cp_max_keep_alive_requests (app_policy a) - cs_handled_requests (cn_state (fst s)))"
    using serve_step_handled [of lib beast env now a "fst s" "snd s" "fst s'" "snd s'"] by (auto intro: diff_less_mono2)
qed simp

declare serve_connection.simps [simp del]

definition new_connection :: "string list \<Rightarrow> connection" where
  "new_connection reads = \<lparr>cn_parser = new_parser Mode_request default_parser_options, cn_reads = reads,
     cn_socket = \<lparr>so_valid = True, so_written = []\<rparr>, cn_state = \<lparr>cs_handled_requests = 0\<rparr>\<rparr>"

text \<open>The accept loop: each element is one result of \<open>accept\<close>, \<open>None\<close> an invalid client; the end of the
  list is the exception that leaves the loop. The value is the world and what each client got.\<close>

fun accept_loop ::
  "url_lib \<Rightarrow> beast \<Rightarrow> fs_env \<Rightarrow> int \<Rightarrow> 'w app \<Rightarrow> string list option list \<Rightarrow> 'w \<Rightarrow> (string list \<times> 'w) option" where
  "accept_loop lib beast env now a [] w = Some ([], w)"
| "accept_loop lib beast env now a (None # clients) w = accept_loop lib beast env now a clients w"
| "accept_loop lib beast env now a (Some reads # clients) w =
     (case serve_connection lib beast env now a (new_connection reads, w) of
        None \<Rightarrow> None
      | Some (c, w') \<Rightarrow>
          map_option (apfst (Cons (so_written (cn_socket c)))) (accept_loop lib beast env now a clients w'))"

definition run_hook :: "('w \<Rightarrow> exn option \<times> 'w) option \<Rightarrow> 'w \<Rightarrow> exn option \<times> 'w" where
  "run_hook h w = (case h of None \<Rightarrow> (None, w) | Some f \<Rightarrow> f w)"

definition listen ::
  "url_lib \<Rightarrow> beast \<Rightarrow> fs_env \<Rightarrow> int \<Rightarrow> 'w app \<Rightarrow> bool \<Rightarrow> string list option list \<Rightarrow> exn \<Rightarrow> 'w
     \<Rightarrow> (exn \<times> string list \<times> 'w) option" where
  "listen lib beast env now a bound clients accept_exn w =
     (if \<not> bound then Some (StdException ''Failed to listen'', [], w)
      else
        case run_hook (Option.bind (app_lifecycle a) lc_on_start) w of
          (Some e, w1) \<Rightarrow> Some (e, [], w1)
        | (None, w1) \<Rightarrow>
            (case accept_loop lib beast env now a clients w1 of
               None \<Rightarrow> None
             | Some (out, w2) \<Rightarrow>
                 Some (accept_exn, out, snd (run_hook (Option.bind (app_lifecycle a) lc_on_stop) w2))))"

section \<open>Serving ends\<close>

lemma read_request_total:
  "beast_stable beast \<Longrightarrow> beast_checks_chunks (ps_options st) beast \<Longrightarrow> parser_ok st \<Longrightarrow>
     \<exists>res st' rest. read_request_from_socket beast env lib now limits meta consumed chunks st = Some (res, st', rest)
       \<and> parser_ok st' \<and> ps_options st' = ps_options st"
proof (induction beast env lib now limits meta consumed chunks st rule: read_request_from_socket.induct)
  case (1 beast env lib now limits meta consumed chunks st)
  obtain mo st1 where nm: "next_message st = (mo, st1)" by fastforce
  have ok1: "parser_ok st1" "ps_options st1 = ps_options st"
    using nm "1.prems"(3)
    by (auto simp: next_message_def split: list.splits intro: parser_ok_cong [OF "1.prems"(3)])
  show ?case
  proof (cases "\<exists>chunk rest. mo = None \<and> chunks = chunk # rest \<and> chunk \<noteq> [] \<and>
      \<not> consumed + length chunk > sl_max_body_bytes limits + sl_max_header_bytes limits")
    case False
    then show ?thesis using nm ok1
      by (auto simp: read_request_from_socket.simps [of _ _ _ _ _ _ _ chunks] Let_def split: option.splits list.splits)
  next
    case True
    then obtain chunk rest where c: "mo = None" "chunks = chunk # rest" "chunk \<noteq> []"
      "\<not> consumed + length chunk > sl_max_body_bytes limits + sl_max_header_bytes limits" by blast
    from feed_total [OF "1.prems"(1) _ ok1(1)] "1.prems"(2) ok1(2)
    obtain q st2 where fd: "feed beast env True chunk st1 = Some (q, st2)" by (metis surj_pair)
    have ok2: "parser_ok st2" "ps_options st2 = ps_options st" using feed_ok [OF fd ok1(1)] ok1(2) by simp_all
    show ?thesis
    proof (cases q)
      case (Inl e)
      with c nm fd ok2 show ?thesis
        by (simp add: read_request_from_socket.simps [of _ _ _ _ _ _ _ "chunk # rest"])
    next
      case (Inr u)
      from "1.IH" [OF nm [symmetric] c(1,2,3,4) fd [unfolded Inr] refl refl] "1.prems"(1,2) ok2
      show ?thesis using c nm fd Inr
        by (simp add: read_request_from_socket.simps [of _ _ _ _ _ _ _ "chunk # rest"])
    qed
  qed
qed

primrec outcome_state :: "'a outcome \<Rightarrow> 'a" where
  "outcome_state (Done x) = x"
| "outcome_state (Again x) = x"

lemma serve_step_total:
  assumes "beast_stable beast" and "beast_checks_chunks (ps_options (cn_parser c)) beast" and "parser_ok (cn_parser c)"
  shows "\<exists>oc. serve_step lib beast env now a (c, w) = Some oc
    \<and> parser_ok (cn_parser (fst (outcome_state oc)))
    \<and> ps_options (cn_parser (fst (outcome_state oc))) = ps_options (cn_parser c)
    \<and> cs_handled_requests (cn_state (fst (outcome_state oc))) \<le> cs_handled_requests (cn_state c) + 1"
proof -
  from read_request_total [OF assms] obtain res p reads where
    r: "read_request_from_socket beast env lib now (app_limits a) default_meta 0 (cn_reads c) (cn_parser c) = Some (res, p, reads)"
    and p: "parser_ok p" "ps_options p = ps_options (cn_parser c)" by meson
  show ?thesis
    using r p
    by (auto simp: serve_step_def send_internal_error_def Let_def split: sum.splits option.splits prod.splits)
qed

lemma serve_connection_total:
  "beast_stable beast \<Longrightarrow> beast_checks_chunks (ps_options (cn_parser (fst s))) beast \<Longrightarrow> parser_ok (cn_parser (fst s)) \<Longrightarrow>
   cs_handled_requests (cn_state (fst s)) < max 1 (cp_max_keep_alive_requests (app_policy a)) \<Longrightarrow>
     \<exists>r. serve_connection lib beast env now a s = Some r
       \<and> cs_handled_requests (cn_state (fst r)) \<le> max 1 (cp_max_keep_alive_requests (app_policy a))"
proof (induction lib beast env now a s rule: serve_connection.induct)
  case (1 lib beast env now a s)
  obtain c w where s: "s = (c, w)" by (cases s)
  from serve_step_total [OF "1.prems"(1), of c lib env now a w] "1.prems"(2,3) s
  obtain oc where oc: "serve_step lib beast env now a s = Some oc" "parser_ok (cn_parser (fst (outcome_state oc)))"
    "ps_options (cn_parser (fst (outcome_state oc))) = ps_options (cn_parser c)"
    "cs_handled_requests (cn_state (fst (outcome_state oc))) \<le> cs_handled_requests (cn_state c) + 1" by auto
  show ?case
  proof (cases oc)
    case (Done r)
    with oc "1.prems"(4) s show ?thesis by (subst serve_connection.simps) simp
  next
    case (Again s')
    have "cs_handled_requests (cn_state (fst s')) < cp_max_keep_alive_requests (app_policy a)"
      using serve_step_handled [of lib beast env now a c w "fst s'" "snd s'"] oc(1) Again s by simp
    with "1.IH" [OF oc(1) Again] "1.prems"(1,2) oc(2,3) Again s
    have "\<exists>r. serve_connection lib beast env now a s' = Some r
       \<and> cs_handled_requests (cn_state (fst r)) \<le> max 1 (cp_max_keep_alive_requests (app_policy a))" by simp
    with oc(1) Again show ?thesis by (subst serve_connection.simps) simp
  qed
qed

section \<open>Properties\<close>

text \<open>
  C40: Every request is dispatched to exactly one outcome: the matching handler, run with the captured
  parameters merged into the context; or, when no handler matches, a 404 if no method at all
  serves the path, and otherwise a 405 (204 for \<open>OPTIONS\<close>) whose \<open>Allow\<close> header lists the allowed
  methods. The unmatched cases throw nothing and leave the world and the request alone.\<close>

theorem dispatch_outcome:
  assumes "m = rq_method (cx_request ctx)" and "p = rt_path (rq_target (cx_request ctx))"
  shows "case router_match lib m p (app_router a) of
     Some (h, ps) \<Rightarrow> dispatch lib a (ctx, w) = h (ctx\<lparr>cx_params := cx_params ctx ++ ps\<rparr>, w)
   | None \<Rightarrow>
       (\<exists>ctx'. dispatch lib a (ctx, w) = (None, ctx', w) \<and> cx_request ctx' = cx_request ctx
          \<and> (if allowed_methods lib p (app_router a) = []
             then rs_status_code (cx_response ctx') = 404 \<and> (\<forall>m'. router_match lib m' p (app_router a) = None)
             else response_header_value ctx' ''Allow'' = Some (join_methods (allowed_methods lib p (app_router a)))
               \<and> rs_status_code (cx_response ctx') = (if m = ''OPTIONS'' then 204 else 405)))"
proof -
  have none: "\<forall>m'. router_match lib m' p (app_router a) = None" if "allowed_methods lib p (app_router a) = []"
    using allowed_match(1) that by (metis option.exhaust)
  show ?thesis
    by (cases "router_match lib m p (app_router a)"; cases "allowed_methods lib p (app_router a) = []"; cases "m = ''OPTIONS''")
      (use none in \<open>simp_all add: assms dispatch_def Let_def send_status_def json_raw_def same_name_def split_beta\<close>)
qed


text \<open>
  A handler that throws closes the connection with one internal-error response: if reading
  succeeds and running the request throws, the loop writes exactly the serialised 500 response
  with \<open>Connection: close\<close> after what was written before, and stops.\<close>

theorem exception_answered_500:
  assumes "read_request_from_socket beast env lib now (app_limits a) default_meta 0 (cn_reads c) (cn_parser c)
      = Some (Inr (Some rq), p, reads)"
    and "handle_request lib a rq w = (Inl e, w')"
  shows "\<exists>c'. serve_connection lib beast env now a (c, w) = Some (c', w')
    \<and> so_written (cn_socket c') = so_written (cn_socket c) @ serialize_response internal_error_response
    \<and> mk_header ''Connection'' ''close'' \<in> set (response_fields internal_error_response)"
proof -
  have "tolower CHR ''C'' = CHR ''c''" "tolower CHR ''T'' = CHR ''t''" by code_simp+
  then have "\<not> has_header_ci (rs_headers internal_error_response) ''Connection''"
    by (simp add: has_header_ci_def internal_error_response_def)
  then have "mk_header ''Connection'' ''close'' \<in> set (response_fields internal_error_response)"
    by (simp add: response_fields_def internal_error_response_def)
  moreover have "serve_connection lib beast env now a (c, w)
      = Some (send_internal_error (c\<lparr>cn_parser := p, cn_reads := reads\<rparr>), w')"
    using assms by (subst serve_connection.simps) (simp add: serve_step_def Let_def)
  ultimately show ?thesis by (simp add: send_internal_error_def write_response_to_socket_def)
qed

text \<open>
  The error hook runs once per level of the chain, not once per error: with \<open>n\<close> middlewares that
  only pass the request on, an exception of the endpoint is reported \<open>n + 1\<close> times.\<close>

theorem on_error_once_per_level:
  assumes "app_lifecycle a = Some lc" and "lc_on_error lc = Some (\<lambda>(ctx, k). (None, ctx, Suc k))"
    and "dispatch lib a (ctx, k) = (Some e, ctx, k)"
  shows "run_chain lib a (replicate n (\<lambda>next. next)) (ctx, k) = (Some e, ctx, k + n + 1)"
proof (induction n)
  case 0
  show ?case using assms by (simp add: on_throw_def)
next
  case (Suc n)
  then show ?case using assms(1,2) by (simp add: on_throw_def)
qed

section \<open>Witnesses\<close>

theorem dispatch_outcome_witness:
  "\<exists>ctx'. dispatch plain_url_lib new_app (blank_context, ()) = (None, ctx', ()) \<and> rs_status_code (cx_response ctx') = 404"
proof -
  let ?a = "new_app :: unit app"
  have none: "router_match plain_url_lib [] [] (app_router ?a) = None"
    and allowed: "allowed_methods plain_url_lib [] (app_router ?a) = []"
    by (simp_all add: new_app_def router_eval node_match_def match_walk.simps match_node.simps node_methods_def)
  have "[] = rq_method (cx_request blank_context)" "[] = rt_path (rq_target (cx_request blank_context))"
    by (simp_all add: make_context_def default_request_def)
  from dispatch_outcome [OF this, of plain_url_lib ?a "()"] none allowed show ?thesis by auto
qed


theorem exception_answered_500_witness:
  "\<exists>c'. serve_connection plain_url_lib bodiless_beast tmp_env 0 (app_use (\<lambda>_. throwing OtherException) new_app)
       (new_connection [get_slash], ()) = Some (c', ())
     \<and> so_written (cn_socket c') = serialize_response internal_error_response"
proof -
  let ?a = "app_use (\<lambda>_. throwing OtherException) new_app :: unit app"
  obtain rq p reads where r: "read_request_from_socket bodiless_beast tmp_env plain_url_lib 0 (app_limits ?a) default_meta 0
      (cn_reads (new_connection [get_slash])) (cn_parser (new_connection [get_slash])) = Some (Inr (Some rq), p, reads)"
    using read_get_slash by (auto simp: new_app_def app_use_def new_connection_def)
  moreover have "handle_request plain_url_lib ?a rq () = (Inl OtherException, ())"
    by (simp add: handle_request_def run_middleware_chain_def app_use_def new_app_def on_throw_def throwing_def)
  ultimately show ?thesis
    using exception_answered_500 [of bodiless_beast tmp_env plain_url_lib 0 ?a "new_connection [get_slash]" rq p reads "()"]
    by (auto simp: new_connection_def)
qed

definition counting_app :: "nat app" where
  "counting_app = with_lifecycle \<lparr>lc_on_start = None, lc_on_stop = None, lc_on_error = Some (\<lambda>(ctx, k). (None, ctx, Suc k))\<rparr>
     (snd (app_add plain_url_lib ''GET'' ''/'' (throwing OtherException) None new_app))"

theorem on_error_once_per_level_witness:
  "snd (snd (run_chain plain_url_lib counting_app (replicate 3 (\<lambda>next. next))
     (make_context (default_request\<lparr>rq_method := ''GET''\<rparr>), 0))) = 4"
proof -
  let ?ctx = "make_context (default_request\<lparr>rq_method := ''GET''\<rparr>)"
  have "app_router counting_app = snd (add_route plain_url_lib ''GET'' ''/'' (throwing OtherException) None new_router)"
    by (simp add: counting_app_def with_lifecycle_def app_add_def new_app_def split_beta)
  then have "router_match plain_url_lib ''GET'' [] (app_router counting_app) = Some (throwing OtherException, Map.empty)"
    by (simp add: router_eval node_match_def match_walk.simps params_map_def del: list.map)
  then have "dispatch plain_url_lib counting_app (?ctx, 0) = (Some OtherException, ?ctx, 0)"
    by (simp add: dispatch_def make_context_def default_request_def throwing_def Let_def)
  from on_error_once_per_level [OF _ _ this, where n = 3] show ?thesis
    by (simp add: counting_app_def with_lifecycle_def)
qed

end
