(* ===== verification/Route_Group.thy ===== *)
theory Route_Group
  imports App
begin

text \<open>
  Route groups (\<open>layer3/include/async_uv_layer3/route_group.hpp\<close>): a prefix, middlewares, routes and
  nested groups, flattened into an application (with the handlers wrapped in the middlewares) or
  into a router (without).
\<close>

record 'w route_entry =
  re_method :: string
  re_pattern :: string
  re_handler :: "'w action"
  re_meta :: "route_meta option"

datatype 'w route_group =
  RouteGroup (group_prefix: string) (group_middlewares: "'w middleware list")
    (group_routes: "'w route_entry list") (group_children: "'w route_group list")

definition group_normalize_path :: "string \<Rightarrow> string" where
  "group_normalize_path input =
     (if input = [] then []
      else
        let start = (if hd input \<noteq> CHR ''/'' then ''/'' else []);
            out = start @ squash_slashes (start \<noteq> []) input
        in if length out > 1 \<and> last out = CHR ''/'' then butlast out else out)"

definition join_paths :: "string \<Rightarrow> string \<Rightarrow> string" where
  "join_paths lhs rhs =
     (let left = group_normalize_path lhs; right = group_normalize_path rhs
      in if left = [] then right
         else if right = [] \<or> right = ''/'' then left
         else if left = ''/'' then right
         else left @ right)"

definition new_group :: "string \<Rightarrow> 'w route_group" where
  "new_group pre = RouteGroup (group_normalize_path pre) [] [] []"

definition group_use :: "'w middleware \<Rightarrow> 'w route_group \<Rightarrow> 'w route_group" where
  "group_use m g = RouteGroup (group_prefix g) (group_middlewares g @ [m]) (group_routes g) (group_children g)"

definition group_add ::
  "string \<Rightarrow> string \<Rightarrow> 'w action \<Rightarrow> route_meta option \<Rightarrow> 'w route_group \<Rightarrow> 'w route_group" where
  "group_add method pattern h meta g =
     RouteGroup (group_prefix g) (group_middlewares g)
       (group_routes g @ [\<lparr>re_method = method, re_pattern = group_normalize_path pattern, re_handler = h, re_meta = meta\<rparr>])
       (group_children g)"

definition group_router ::
  "string \<Rightarrow> ('w route_group \<Rightarrow> 'w route_group) \<Rightarrow> 'w route_group \<Rightarrow> 'w route_group" where
  "group_router pre builder g =
     (let child = RouteGroup (group_normalize_path (join_paths (group_prefix g) pre)) (group_middlewares g) [] []
      in RouteGroup (group_prefix g) (group_middlewares g) (group_routes g) (group_children g @ [builder child]))"

text \<open>The recursion over the index of the middlewares.\<close>

fun run_group :: "'w middleware list \<Rightarrow> 'w action \<Rightarrow> 'w action" where
  "run_group [] h = h"
| "run_group (m # ms) h = m (run_group ms h)"

definition wrap_handler :: "'w middleware list \<Rightarrow> 'w action \<Rightarrow> 'w action" where
  "wrap_handler ms h = (if ms = [] then h else run_group ms h)"

definition group_methods :: "string list" where
  "group_methods = [''GET'', ''POST'', ''PUT'', ''DELETE'', ''PATCH'', ''*'']"

definition register_route_to_app ::
  "url_lib \<Rightarrow> string \<Rightarrow> 'w middleware list \<Rightarrow> 'w route_entry \<Rightarrow> 'w app \<Rightarrow> route_error option \<times> 'w app" where
  "register_route_to_app lib pre ms entry a =
     (if re_method entry \<in> set group_methods
      then app_add lib (re_method entry) (join_paths pre (re_pattern entry)) (wrap_handler ms (re_handler entry))
             (re_meta entry) a
      else (None, a))"

definition register_route_to_router ::
  "url_lib \<Rightarrow> string \<Rightarrow> 'w route_entry \<Rightarrow> 'w action router \<Rightarrow> route_error option \<times> 'w action router" where
  "register_route_to_router lib pre entry r =
     (if re_method entry \<in> set group_methods
      then add_route lib (re_method entry) (join_paths pre (re_pattern entry)) (re_handler entry) (re_meta entry) r
      else (None, r))"

text \<open>Registrations in sequence; the first exception ends the sequence.\<close>

fun register_all :: "('s \<Rightarrow> route_error option \<times> 's) list \<Rightarrow> 's \<Rightarrow> route_error option \<times> 's" where
  "register_all [] s = (None, s)"
| "register_all (f # fs) s = (case f s of (Some e, s') \<Rightarrow> (Some e, s') | (None, s') \<Rightarrow> register_all fs s')"

fun materialize_to_app :: "url_lib \<Rightarrow> 'w route_group \<Rightarrow> 'w app \<Rightarrow> route_error option \<times> 'w app" where
  "materialize_to_app lib (RouteGroup pre ms entries kids) a =
     register_all (map (register_route_to_app lib pre ms) entries @ map (materialize_to_app lib) kids) a"

fun materialize_to_router ::
  "url_lib \<Rightarrow> 'w route_group \<Rightarrow> 'w action router \<Rightarrow> route_error option \<times> 'w action router" where
  "materialize_to_router lib (RouteGroup pre ms entries kids) r =
     register_all (map (register_route_to_router lib pre) entries @ map (materialize_to_router lib) kids) r"

definition to_router :: "url_lib \<Rightarrow> 'w route_group \<Rightarrow> route_error option \<times> 'w action router" where
  "to_router lib g = materialize_to_router lib g new_router"

definition app_router_group ::
  "url_lib \<Rightarrow> string \<Rightarrow> ('w route_group \<Rightarrow> 'w route_group) \<Rightarrow> 'w app \<Rightarrow> route_error option \<times> 'w app" where
  "app_router_group lib pre builder a = materialize_to_app lib (builder (new_group pre)) a"

section \<open>Wrapping and flattening\<close>

lemma run_group_foldr: "run_group ms h = foldr (\<lambda>m next. m next) ms h"
  by (induction ms) auto

lemma run_group_append: "run_group (ms @ ns) h = run_group ms (run_group ns h)"
  by (induction ms) auto

text \<open>The handlers of a group with all its middlewares applied.\<close>

fun wrap_group :: "'w route_group \<Rightarrow> 'w route_group" where
  "wrap_group (RouteGroup pre ms entries kids) =
     RouteGroup pre [] (map (\<lambda>e. e\<lparr>re_handler := run_group ms (re_handler e)\<rparr>) entries) (map wrap_group kids)"

fun strip_group :: "'w route_group \<Rightarrow> 'w route_group" where
  "strip_group (RouteGroup pre ms entries kids) = RouteGroup pre [] entries (map strip_group kids)"

lemma register_all_cong:
  "list_all2 (\<lambda>f g. \<forall>s. f s = g s) fs gs \<Longrightarrow> register_all fs s = register_all gs s"
  by (induction fs arbitrary: gs s) (auto simp: list_all2_Cons1 split: prod.splits option.splits)

lemma register_wrapped:
  "register_route_to_app lib pre [] (e\<lparr>re_handler := run_group ms (re_handler e)\<rparr>) a = register_route_to_app lib pre ms e a"
  by (cases ms) (simp_all add: register_route_to_app_def wrap_handler_def)

lemma materialize_wrap: "materialize_to_app lib (wrap_group g) a = materialize_to_app lib g a"
proof (induction g arbitrary: a)
  case (RouteGroup pre ms entries kids)
  show ?case
    by (auto simp: list_all2_append list_all2_map1 list_all2_map2 list.rel_refl_strong register_wrapped RouteGroup
        intro!: register_all_cong list_all2_appendI list.rel_refl_strong)
qed

lemma materialize_strip: "materialize_to_router lib (strip_group g) r = materialize_to_router lib g r"
proof (induction g arbitrary: r)
  case (RouteGroup pre ms entries kids)
  show ?case
    by (auto simp: list_all2_map1 list_all2_map2 RouteGroup
        intro!: register_all_cong list_all2_appendI list.rel_refl_strong)
qed

section \<open>Properties\<close>

text \<open>
  A group registers each route under its middlewares: flattening a group into an application gives
  the same application as flattening the group whose handlers were wrapped by hand, the first
  registered middleware outermost, and a nested group starts with its parent's middlewares
  outside its own.\<close>

theorem group_wraps_handlers:
  "materialize_to_app lib (wrap_group g) a = materialize_to_app lib g a
   \<and> wrap_handler ms h = foldr (\<lambda>m next. m next) ms h
   \<and> (\<forall>c \<in> set (group_children (group_router pre (group_use m) g)).
        c \<in> set (group_children g) \<or>
        (\<forall>h. wrap_handler (group_middlewares c) h = run_group (group_middlewares g) (m h)))"
  using materialize_wrap [of lib g a]
  by (auto simp: wrap_handler_def run_group_foldr [symmetric] run_group_append group_router_def group_use_def Let_def)

theorem group_wraps_handlers_witness:
  "\<exists>c \<in> set (group_children (group_router ''/v1'' (group_use error_handler) (group_use security_headers (new_group ''/api'')))).
     \<forall>h. wrap_handler (group_middlewares c) h = security_headers (error_handler h)"
  using group_wraps_handlers [of plain_url_lib "group_use security_headers (new_group ''/api'')" new_app "[]" "\<lambda>s. (None, s)" "''/v1''" error_handler]
  by (auto simp: group_router_def group_use_def new_group_def Let_def)

text \<open>
  \<open>to_router\<close> drops the middlewares: the router made from a group is the same as the router of the
  group with every middleware removed, so routes mounted this way run without, say, the
  authentication that the group was given.\<close>

theorem to_router_drops_middlewares:
  "to_router lib (strip_group g) = to_router lib g"
  by (simp add: to_router_def materialize_strip)

end
