(* ===== verification/Route_Binder.thy ===== *)
theory Route_Binder
  imports Di Route_Group
begin

text \<open>
  Binding controllers to routes (\<open>layer3/include/async_uv_layer3/di.hpp\<close>): a \<open>RouteBinder\<close> registers handlers that take
  their controller from the container, on an application or on a route group, and mounts whole
  controllers below a prefix. The world of a request is the container together with whatever else the handlers see. What a builder or a
  controller's \<open>map\<close> does with its binder is a list of the calls it makes.
\<close>

section \<open>Handlers\<close>

type_synonym 'v di_world = "di_container \<times> 'v"

record di_setup =
  ds_depth :: nat
  ds_types :: type_env
  ds_names :: "ty \<Rightarrow> string"

text \<open>An operation of a controller, called on an instance. A resolution that exceeds the depth would exhaust the stack; the theorems use depths that
  are enough.\<close>

type_synonym 'v ctrl_method = "nat \<Rightarrow> 'v di_world action"

definition call_controller :: "di_setup \<Rightarrow> 'v ctrl_method \<Rightarrow> ((di_error + nat) \<times> di_container) option \<Rightarrow> request_context \<Rightarrow> 'v \<Rightarrow> di_container
    \<Rightarrow> exn option \<times> request_context \<times> 'v di_world" where
  "call_controller ds meth resolved ctx v c =
     (case resolved of
        None \<Rightarrow> (Some OtherException, ctx, c, v)
      | Some (Inl e, c') \<Rightarrow> (Some (StdException (di_what (ds_names ds) e)), ctx, c', v)
      | Some (Inr i, c') \<Rightarrow> meth i (ctx, c', v))"

definition handler :: "di_setup \<Rightarrow> ty \<Rightarrow> 'v ctrl_method \<Rightarrow> 'v di_world action" where
  "handler ds t meth = (\<lambda>(ctx, c, v). call_controller ds meth (resolve_shared_impl (ds_depth ds) (ds_types ds) ([], t) c) ctx v c)"

definition keyed_handler :: "di_setup \<Rightarrow> string \<Rightarrow> ty \<Rightarrow> 'v ctrl_method \<Rightarrow> 'v di_world action" where
  "keyed_handler ds key t meth = (\<lambda>(ctx, c, v).
     call_controller ds meth
       (if key \<noteq> [] \<and> has_binding (key, t) c then resolve_shared_impl (ds_depth ds) (ds_types ds) (key, t) c
        else resolve_shared_impl (ds_depth ds) (ds_types ds) ([], t) c) ctx v c)"

section \<open>The binder\<close>

datatype 'w bind_target = On_app "'w app" | On_group "'w route_group"

record 'w route_binder =
  rb_target :: "'w bind_target"
  rb_key :: string

definition bind_routes :: "'w app \<Rightarrow> 'w route_binder" where
  "bind_routes a = \<lparr>rb_target = On_app a, rb_key = []\<rparr>"

definition bind_group :: "'w route_group \<Rightarrow> 'w route_binder" where
  "bind_group g = \<lparr>rb_target = On_group g, rb_key = []\<rparr>"

definition with_key :: "string \<Rightarrow> 'w route_binder \<Rightarrow> 'w route_binder" where
  "with_key key b = b\<lparr>rb_key := key\<rparr>"

definition binder_use :: "'w middleware \<Rightarrow> 'w route_binder \<Rightarrow> 'w route_binder" where
  "binder_use m b = b\<lparr>rb_target := (case rb_target b of On_group g \<Rightarrow> On_group (group_use m g) | On_app a \<Rightarrow> On_app (app_use m a))\<rparr>"

definition add_method ::
  "di_setup \<Rightarrow> url_lib \<Rightarrow> string \<Rightarrow> string \<Rightarrow> ty \<Rightarrow> 'v ctrl_method \<Rightarrow> route_meta option \<Rightarrow> 'v di_world route_binder
     \<Rightarrow> route_error option \<times> 'v di_world route_binder" where
  "add_method ds lib verb pattern t meth meta b =
     (let h = (if rb_key b = [] then handler ds t meth else keyed_handler ds (rb_key b) t meth)
      in case rb_target b of
           On_group g \<Rightarrow> (None, b\<lparr>rb_target := On_group (group_add verb pattern h meta g)\<rparr>)
         | On_app a \<Rightarrow> (case app_add lib verb pattern h meta a of (e, a') \<Rightarrow> (e, b\<lparr>rb_target := On_app a'\<rparr>)))"

definition add_get where "add_get ds lib = add_method ds lib ''GET''"

definition add_post where "add_post ds lib = add_method ds lib ''POST''"

definition add_put where "add_put ds lib = add_method ds lib ''PUT''"

definition add_del where "add_del ds lib = add_method ds lib ''DELETE''"

definition add_patch where "add_patch ds lib = add_method ds lib ''PATCH''"

definition add_all where "add_all ds lib = add_method ds lib ''*''"

text \<open>A child binder always stands on a group.\<close>

primrec target_group :: "'w bind_target \<Rightarrow> 'w route_group" where
  "target_group (On_group g) = g"
| "target_group (On_app a) = new_group []"

definition binder_router ::
  "url_lib \<Rightarrow> string \<Rightarrow> ('w route_binder \<Rightarrow> 'w route_binder) \<Rightarrow> 'w route_binder \<Rightarrow> route_error option \<times> 'w route_binder" where
  "binder_router lib pre builder b =
     (let build = (\<lambda>child. target_group (rb_target (builder \<lparr>rb_target = On_group child, rb_key = rb_key b\<rparr>)))
      in case rb_target b of
           On_group g \<Rightarrow> (None, b\<lparr>rb_target := On_group (group_router pre build g)\<rparr>)
         | On_app a \<Rightarrow> (case app_router_group lib pre build a of (e, a') \<Rightarrow> (e, b\<lparr>rb_target := On_app a'\<rparr>)))"

text \<open>The calls on a binder. \<open>Bind_keyed\<close> are calls on the copy that \<open>with_key\<close> returns; \<open>Bind_mount\<close> mounts a controller with its
  options, its own prefix if it has one, and what its \<open>map\<close> does.\<close>

datatype 'v bind_op =
  Bind_use "'v di_world middleware"
| Bind_add verb string ty "'v ctrl_method" "route_meta option"
| Bind_router string "'v bind_op list"
| Bind_keyed string "'v bind_op list"
| Bind_mount string string "string option" "'v bind_op list"

definition add_verb where
  "add_verb ds lib v =
     (case v of Verb_get \<Rightarrow> add_get ds lib | Verb_post \<Rightarrow> add_post ds lib | Verb_put \<Rightarrow> add_put ds lib
      | Verb_del \<Rightarrow> add_del ds lib | Verb_patch \<Rightarrow> add_patch ds lib | Verb_all \<Rightarrow> add_all ds lib)"

text \<open>Only the target of a copy is shared with the binder it was made from.\<close>

definition on_copy :: "('w route_binder \<Rightarrow> route_error option \<times> 'w route_binder) \<Rightarrow> string \<Rightarrow> 'w route_binder
    \<Rightarrow> route_error option \<times> 'w route_binder" where
  "on_copy f key b = (case f (with_key key b) of (e, b') \<Rightarrow> (e, b\<lparr>rb_target := rb_target b'\<rparr>))"

definition mount_with ::
  "url_lib \<Rightarrow> string \<Rightarrow> string \<Rightarrow> string option \<Rightarrow> ('w route_binder \<Rightarrow> route_error option \<times> 'w route_binder)
     \<Rightarrow> 'w route_binder \<Rightarrow> route_error option \<times> 'w route_binder" where
  "mount_with lib option_prefix key own map_controller b =
     (let target = (if key = [] then rb_key b else key); mount_prefix = resolve_mount_prefix option_prefix own
      in on_copy (\<lambda>b'. if mount_prefix = [] then map_controller b' else binder_router lib mount_prefix (snd \<circ> map_controller) b') target b)"

fun run_bind :: "di_setup \<Rightarrow> url_lib \<Rightarrow> 'v bind_op \<Rightarrow> 'v di_world route_binder \<Rightarrow> route_error option \<times> 'v di_world route_binder"
  and run_binds :: "di_setup \<Rightarrow> url_lib \<Rightarrow> 'v bind_op list \<Rightarrow> 'v di_world route_binder \<Rightarrow> route_error option \<times> 'v di_world route_binder"
where
  "run_bind ds lib (Bind_use m) b = (None, binder_use m b)"
| "run_bind ds lib (Bind_add v pattern t meth meta) b = add_verb ds lib v pattern t meth meta b"
| "run_bind ds lib (Bind_router pre ops) b = binder_router lib pre (\<lambda>b'. snd (run_binds ds lib ops b')) b"
| "run_bind ds lib (Bind_keyed key ops) b = on_copy (run_binds ds lib ops) key b"
| "run_bind ds lib (Bind_mount option_prefix key own ops) b = mount_with lib option_prefix key own (run_binds ds lib ops) b"
| "run_binds ds lib [] b = (None, b)"
| "run_binds ds lib (op # ops) b = (case run_bind ds lib op b of (Some e, b') \<Rightarrow> (Some e, b') | (None, b') \<Rightarrow> run_binds ds lib ops b')"

section \<open>What binding amounts to\<close>

text \<open>The calls on a route group that a binder makes, with the keys of the controllers worked out: the key of the innermost \<open>with_key\<close> or mount
  that names one.\<close>

datatype 'w group_op =
  Group_use "'w middleware"
| Group_add string string "'w action" "route_meta option"
| Group_router string "'w group_op list"

fun run_group_op :: "'w group_op \<Rightarrow> 'w route_group \<Rightarrow> 'w route_group"
  and run_group_ops :: "'w group_op list \<Rightarrow> 'w route_group \<Rightarrow> 'w route_group" where
  "run_group_op (Group_use m) g = group_use m g"
| "run_group_op (Group_add verb pattern h meta) g = group_add verb pattern h meta g"
| "run_group_op (Group_router pre ops) g = group_router pre (run_group_ops ops) g"
| "run_group_ops [] g = g"
| "run_group_ops (op # ops) g = run_group_ops ops (run_group_op op g)"

fun expand :: "di_setup \<Rightarrow> string \<Rightarrow> 'v bind_op \<Rightarrow> 'v di_world group_op list"
  and expands :: "di_setup \<Rightarrow> string \<Rightarrow> 'v bind_op list \<Rightarrow> 'v di_world group_op list" where
  "expand ds key (Bind_use m) = [Group_use m]"
| "expand ds key (Bind_add v pattern t meth meta) = [Group_add (verb_method v) pattern (keyed_handler ds key t meth) meta]"
| "expand ds key (Bind_router pre ops) = [Group_router pre (expands ds key ops)]"
| "expand ds key (Bind_keyed key' ops) = expands ds key' ops"
| "expand ds key (Bind_mount option_prefix key' own ops) =
     (let ops' = expands ds (if key' = [] then key else key') ops; pre = resolve_mount_prefix option_prefix own
      in if pre = [] then ops' else [Group_router pre ops'])"
| "expands ds key [] = []"
| "expands ds key (op # ops) = expand ds key op @ expands ds key ops"

lemma run_group_ops_append: "run_group_ops (xs @ ys) g = run_group_ops ys (run_group_ops xs g)"
  by (induction xs arbitrary: g) auto

lemma keyed_default: "keyed_handler ds [] t meth = handler ds t meth"
  by (simp add: keyed_handler_def handler_def)

lemma add_verb_group:
  "add_verb ds lib v pattern t meth meta \<lparr>rb_target = On_group g, rb_key = key\<rparr> =
     (None, \<lparr>rb_target = On_group (group_add (verb_method v) pattern (keyed_handler ds key t meth) meta g), rb_key = key\<rparr>)"
  by (cases v) (simp_all add: add_verb_def add_get_def add_post_def add_put_def add_del_def add_patch_def add_all_def add_method_def keyed_default)

lemma run_bind_group:
  "run_bind ds lib op \<lparr>rb_target = On_group g, rb_key = key\<rparr> = (None, \<lparr>rb_target = On_group (run_group_ops (expand ds key op) g), rb_key = key\<rparr>)"
  "run_binds ds lib ops \<lparr>rb_target = On_group g, rb_key = key\<rparr> = (None, \<lparr>rb_target = On_group (run_group_ops (expands ds key ops) g), rb_key = key\<rparr>)"
proof (induction ds key op and ds key ops arbitrary: g and g rule: expand_expands.induct)
  case (3 ds key pre ops)
  then show ?case by (simp add: binder_router_def comp_def)
next
  case (5 ds key option_prefix key' own ops)
  then show ?case by (cases "key' = []") (simp_all add: mount_with_def on_copy_def with_key_def binder_router_def Let_def comp_def)
qed (simp_all add: binder_use_def add_verb_group on_copy_def with_key_def run_group_ops_append)

text \<open>
  A binder does nothing of its own: what any calls on a binder of a group do, nested routers, keys and mounted controllers
  included, is what the plain calls on the group do that register for each route a handler
  of the innermost key; no call fails, the key of the binder itself is unchanged, and a controller mounted below a prefix on an application is
  the group of its routes flattened into the application.\<close>

theorem binder_is_group_registration:
  "run_binds ds lib ops \<lparr>rb_target = On_group g, rb_key = key\<rparr> =
     (None, \<lparr>rb_target = On_group (run_group_ops (expands ds key ops) g), rb_key = key\<rparr>)
   \<and> (resolve_mount_prefix p own \<noteq> [] \<longrightarrow>
       run_bind ds lib (Bind_mount p key own ops) (bind_routes a) =
         apsnd (\<lambda>a'. \<lparr>rb_target = On_app a', rb_key = []\<rparr>)
           (materialize_to_app lib (run_group_ops (expands ds key ops) (new_group (resolve_mount_prefix p own))) a))"
  by (simp add: run_bind_group mount_with_def on_copy_def with_key_def bind_routes_def binder_router_def app_router_group_def
      Let_def comp_def split: prod.split)

text \<open>
  A bound route keeps its controller. The controller is bound under the key of the route, or the route has no key, and it is not
  registered as transient: once a request has been served by an instance, every later request on the same
  route is served by that instance, whatever has been resolved in the meantime, and none of them constructs anything.\<close>

theorem route_keeps_controller:
  assumes "key = [] \<or> has_binding (key, t) c" and "bd_lifetime (binding_of (key, t) c) = Singleton"
    and "resolve_shared_impl (ds_depth ds) (ds_types ds) (key, t) c = Some (Inr i, c')"
    and "resolve_all m (ds_types ds) ss c' = Some c''"
  shows "keyed_handler ds key t meth (ctx, c, v) = meth i (ctx, c', v)
    \<and> keyed_handler ds key t meth (ctx', c'', v') = meth i (ctx', c'', v')"
proof -
  have "extends c c''" using keeps_allD [OF resolve_extends assms(3)] resolve_all_extends [OF assms(4)] by (rule ext.rel_trans)
  then have "key = [] \<or> has_binding (key, t) c''" using assms(1) by (auto simp: extends_def has_binding_def)
  moreover obtain n where "ds_depth ds = Suc n" using assms(3) by (cases "ds_depth ds") auto
  then have "resolve_shared_impl (ds_depth ds) (ds_types ds) (key, t) c'' = Some (Inr i, c'')"
    using singleton_stays [OF assms(3,2,4), of n] by simp
  ultimately show ?thesis using assms(1,3) by (auto simp: keyed_handler_def call_controller_def)
qed

section \<open>Examples\<close>

text \<open>A controller of type 1 with one route, and the instance it is called on as the result.\<close>

definition sample_setup :: di_setup where
  "sample_setup = \<lparr>ds_depth = 3, ds_types = sample_env, ds_names = (\<lambda>_. ''T'')\<rparr>"

definition record_instance :: "nat list ctrl_method" where
  "record_instance i = (\<lambda>(ctx, c, v). (None, ctx, c, v @ [i]))"

definition sample_binds :: "nat list bind_op list" where
  "sample_binds = [Bind_add Verb_get ''/ping'' 1 record_instance None]"

theorem binder_is_group_registration_witness:
  "run_bind sample_setup plain_url_lib (Bind_mount ''api/'' ''tenant'' None sample_binds) (bind_routes new_app) =
     apsnd (\<lambda>a'. \<lparr>rb_target = On_app a', rb_key = []\<rparr>)
       (materialize_to_app plain_url_lib
          (group_add ''GET'' ''/ping'' (keyed_handler sample_setup ''tenant'' 1 record_instance) None (new_group ''/api'')) new_app)"
proof -
  have "resolve_mount_prefix ''api/'' None = ''/api''" by code_simp
  then show ?thesis
    using binder_is_group_registration [of sample_setup plain_url_lib sample_binds "new_group []" "''tenant''" "''api/''" None new_app]
    by (simp add: sample_binds_def)
qed

theorem route_keeps_controller_witness:
  "\<exists>c' c''. resolve_all 3 sample_env [([], 0), ([], 2)] c' = Some c''
     \<and> keyed_handler sample_setup [] 1 record_instance (blank_context, new_container, []) = record_instance 0 (blank_context, c', [])
     \<and> keyed_handler sample_setup [] 1 record_instance (blank_context, c'', []) = record_instance 0 (blank_context, c'', [])"
proof -
  obtain c' c'' where c: "resolve_shared_impl 3 sample_env ([], 1) new_container = Some (Inr 0, c')"
      "resolve_all 3 sample_env [([], 0), ([], 2)] c' = Some c''"
    by (rule sample_resolves)
  have "bd_lifetime (binding_of ([], 1) new_container) = Singleton" by code_simp
  with route_keeps_controller [of "[]" 1 new_container sample_setup 0 c' 3 "[([], 0), ([], 2)]" c'' record_instance blank_context "[]" blank_context "[]"] c
  show ?thesis unfolding sample_setup_def by auto
qed

end
