(* ===== verification/Orm_Meta.thy ===== *)
theory Orm_Meta
  imports Sql_Text
begin

text \<open>
  The first part of the object mapper (\<open>layer3/include/async_uv_layer3/orm.hpp\<close>): identifiers and their quoting, the
  policy on raw SQL, the values of model members and their way to and from the text of the database, and the table of
  columns that the mapper keeps of a model.

  A member of a model is a value that carries its type (\<open>M_int\<close> its width, \<open>M_optional\<close> the default value of its inner
  type), because the code dispatches on the type of the member. A model is its memory: the member at each offset. The
  JSON reader of the reflection library, \<open>std::stod\<close> and the user's converters are parameters.
\<close>

section \<open>Identifiers\<close>

definition isupper :: "char \<Rightarrow> bool" where
  "isupper c \<longleftrightarrow> 65 \<le> (of_char c :: nat) \<and> (of_char c :: nat) \<le> 90"

definition isalpha :: "char \<Rightarrow> bool" where
  "isalpha c \<longleftrightarrow> isupper c \<or> 97 \<le> (of_char c :: nat) \<and> (of_char c :: nat) \<le> 122"

definition isalnum :: "char \<Rightarrow> bool" where
  "isalnum c \<longleftrightarrow> isalpha c \<or> isdigit c"

text \<open>The loop of \<open>to_snake_case\<close>, with the character before the current one; the output is empty only at the first.\<close>

fun snake_loop :: "char option \<Rightarrow> string \<Rightarrow> string" where
  "snake_loop prev [] = []"
| "snake_loop prev (ch # name) =
     (if isupper ch
      then (case prev of None \<Rightarrow> [] | Some p \<Rightarrow> if \<not> isupper p then ''_'' else []) @ [tolower ch]
      else [tolower ch]) @ snake_loop (Some ch) name"

definition to_snake_case :: "string \<Rightarrow> string" where
  "to_snake_case name = snake_loop None name"

fun quote_chars :: "string \<Rightarrow> string" where
  "quote_chars [] = []"
| "quote_chars (ch # ident) = (if ch = DQUOTE then [DQUOTE, DQUOTE] else [ch]) @ quote_chars ident"

definition quote_ident :: "string \<Rightarrow> string" where
  "quote_ident ident = DQUOTE # quote_chars ident @ [DQUOTE]"

definition is_simple_ident :: "string \<Rightarrow> bool" where
  "is_simple_ident ident =
     (case ident of [] \<Rightarrow> False
      | c # cs \<Rightarrow> (isalpha c \<or> c = CHR ''_'') \<and> list_all (\<lambda>ch. isalnum ch \<or> ch = CHR ''_'') cs)"

text \<open>Both loops over a column reference look at the rest of it: the token is what comes before the next dot, and a
  token with no dot behind it is the last.\<close>

abbreviation ref_token :: "string \<Rightarrow> string" where
  "ref_token ref \<equiv> takeWhile (\<lambda>c. c \<noteq> CHR ''.'') ref"

abbreviation ref_rest :: "string \<Rightarrow> string" where
  "ref_rest ref \<equiv> tl (dropWhile (\<lambda>c. c \<noteq> CHR ''.'') ref)"

lemma ref_rest_shorter: "ref \<noteq> [] \<Longrightarrow> length (dropWhile (\<lambda>c. c \<noteq> CHR ''.'') ref) - Suc 0 < length ref"
  using length_dropWhile_less_eq [of "\<lambda>c. c \<noteq> CHR ''.''" ref] by (cases ref) auto

function simple_ref_loop :: "string \<Rightarrow> bool" where
  "simple_ref_loop ref =
     (if ref = [] then True
      else let token = ref_token ref; last = (CHR ''.'' \<notin> set ref) in
        if token = [] then False
        else if token = ''*'' \<and> \<not> last then False
        else if token \<noteq> ''*'' \<and> \<not> is_simple_ident token then False
        else if last then True else simple_ref_loop (ref_rest ref))"
  by pat_completeness auto
termination by (relation "measure length") (simp_all add: ref_rest_shorter)

definition is_simple_column_ref :: "string \<Rightarrow> bool" where
  "is_simple_column_ref ref = (if ref = [] then False else if ref = ''*'' then True else simple_ref_loop ref)"

function quote_ref_loop :: "bool \<Rightarrow> string \<Rightarrow> string" where
  "quote_ref_loop first ref =
     (if ref = [] then []
      else (if first then [] else ''.'') @ (if ref_token ref = ''*'' then ''*'' else quote_ident (ref_token ref))
           @ (if CHR ''.'' \<notin> set ref then [] else quote_ref_loop False (ref_rest ref)))"
  by pat_completeness auto
termination by (relation "measure (length \<circ> snd)") (simp_all add: ref_rest_shorter)

declare simple_ref_loop.simps [simp del] quote_ref_loop.simps [simp del]

definition quote_column_ref :: "string \<Rightarrow> string" where
  "quote_column_ref ref =
     (if \<not> is_simple_column_ref ref then ref else if ref = ''*'' then ''*'' else quote_ref_loop True ref)"

definition qualify_and_quote_column :: "string \<Rightarrow> string \<Rightarrow> string" where
  "qualify_and_quote_column default_table_ref column_ref =
     (if is_simple_column_ref column_ref \<and> CHR ''.'' \<notin> set column_ref \<and> column_ref \<noteq> ''*'' \<and> default_table_ref \<noteq> []
      then quote_column_ref (default_table_ref @ ''.'' @ column_ref)
      else quote_column_ref column_ref)"

text \<open>The name of a table: one of two static members of the model, or the name of its type behind the last
  \<open>::\<close> (\<open>raw.rfind\<close>).\<close>

fun rfind_colons :: "string \<Rightarrow> nat option" where
  "rfind_colons [] = None"
| "rfind_colons (c # s) =
     (case rfind_colons s of Some k \<Rightarrow> Some (Suc k) | None \<Rightarrow> if prefix ''::'' (c # s) then Some 0 else None)"

definition resolve_table_name :: "string option \<Rightarrow> string option \<Rightarrow> string \<Rightarrow> string" where
  "resolve_table_name table_name table raw =
     (case table_name of Some n \<Rightarrow> n
      | None \<Rightarrow> case table of Some n \<Rightarrow> n
        | None \<Rightarrow> to_snake_case (case rfind_colons raw of None \<Rightarrow> raw | Some pos \<Rightarrow> drop (pos + 2) raw))"

section \<open>The policy on raw SQL\<close>

datatype raw_sql_policy = Permissive | Require_unsafe_marker

text \<open>An audit hook is user code, called with the interface, the fragment and the mark; it may throw.\<close>

type_synonym raw_sql_audit_hook = "string \<Rightarrow> string \<Rightarrow> bool \<Rightarrow> string + unit"

record raw_sql_guard =
  rg_policy :: raw_sql_policy
  rg_hook :: "raw_sql_audit_hook option"

definition initial_raw_sql_guard :: raw_sql_guard where
  "initial_raw_sql_guard = \<lparr>rg_policy = Permissive, rg_hook = None\<rparr>"

definition set_raw_sql_policy :: "raw_sql_policy \<Rightarrow> raw_sql_guard \<Rightarrow> raw_sql_guard" where
  "set_raw_sql_policy p g = g\<lparr>rg_policy := p\<rparr>"

definition set_raw_sql_audit_hook :: "raw_sql_audit_hook \<Rightarrow> raw_sql_guard \<Rightarrow> raw_sql_guard" where
  "set_raw_sql_audit_hook h g = g\<lparr>rg_hook := Some h\<rparr>"

definition clear_raw_sql_audit_hook :: "raw_sql_guard \<Rightarrow> raw_sql_guard" where
  "clear_raw_sql_audit_hook g = g\<lparr>rg_hook := None\<rparr>"

definition validate_raw_sql :: "raw_sql_guard \<Rightarrow> string \<Rightarrow> string \<Rightarrow> bool \<Rightarrow> string + unit" where
  "validate_raw_sql g api sql_fragment unsafe_marked =
     (if sql_fragment = [] then Inl (api @ '' SQL fragment cannot be empty'')
      else if rg_policy g = Require_unsafe_marker \<and> \<not> unsafe_marked then
        Inl (api @ '' requires explicit unsafe marker; wrap SQL with orm::unsafe_sql(...)'')
      else case rg_hook g of Some hook \<Rightarrow> hook api sql_fragment unsafe_marked | None \<Rightarrow> Inr ())"

section \<open>Values of members\<close>

datatype int_type = IntType (it_signed: bool) (it_bits: nat)

definition int_type_ok :: "int_type \<Rightarrow> bool" where
  "int_type_ok t \<longleftrightarrow> it_bits t \<in> {8, 16, 32, 64}"

definition int_in_range :: "int_type \<Rightarrow> int \<Rightarrow> bool" where
  "int_in_range t i \<longleftrightarrow>
     (if it_signed t then - (2 ^ (it_bits t - 1)) \<le> i \<and> i < 2 ^ (it_bits t - 1) else 0 \<le> i \<and> i < 2 ^ it_bits t)"

text \<open>\<open>static_cast\<close> to an integer type.\<close>

definition cast_int :: "int_type \<Rightarrow> int \<Rightarrow> int" where
  "cast_int t i = (if it_signed t then signed_take_bit (it_bits t - 1) i else take_bit (it_bits t) i)"

record ('v, 'd) type_converter =
  tc_to_sql_param :: "'v \<Rightarrow> 'd sql_param"
  tc_from_sql_text :: "string \<Rightarrow> string + 'v"
  tc_sql_type :: string
  tc_is_default :: "'v \<Rightarrow> bool"

datatype member_attr = Attr_id | Attr_auto_id | Attr_unique | Attr_indexed

datatype ('v, 'd) member =
    M_string string
  | M_bool bool
  | M_int int_type int
  | M_double 'd
  | M_enum int_type int
  | M_optional "('v, 'd) member" "('v, 'd) member option"
  | M_attr member_attr "('v, 'd) member"
  | M_as "('v, 'd) type_converter" 'v

record field_traits =
  ft_is_id :: bool
  ft_is_auto_increment :: bool
  ft_is_unique :: bool
  ft_is_indexed :: bool
  ft_is_optional :: bool

definition attr_traits :: "member_attr \<Rightarrow> field_traits \<Rightarrow> field_traits" where
  "attr_traits a inner =
     (case a of Attr_id \<Rightarrow> inner\<lparr>ft_is_id := True\<rparr>
      | Attr_auto_id \<Rightarrow> inner\<lparr>ft_is_id := True, ft_is_auto_increment := True\<rparr>
      | Attr_unique \<Rightarrow> inner\<lparr>ft_is_unique := True\<rparr>
      | Attr_indexed \<Rightarrow> inner\<lparr>ft_is_indexed := True\<rparr>)"

abbreviation plain_traits :: field_traits where
  "plain_traits \<equiv> \<lparr>ft_is_id = False, ft_is_auto_increment = False, ft_is_unique = False, ft_is_indexed = False,
     ft_is_optional = False\<rparr>"

fun member_traits :: "('v, 'd) member \<Rightarrow> field_traits" where
  "member_traits (M_optional dflt v) = (member_traits dflt)\<lparr>ft_is_optional := True\<rparr>"
| "member_traits (M_attr a m) = attr_traits a (member_traits m)"
| "member_traits m = plain_traits"

fun to_sql_param :: "('v, 'd) member \<Rightarrow> 'd sql_param" where
  "to_sql_param (M_as conv v) = tc_to_sql_param conv v"
| "to_sql_param (M_attr a m) = to_sql_param m"
| "to_sql_param (M_optional dflt None) = SP_null"
| "to_sql_param (M_optional dflt (Some m)) = to_sql_param m"
| "to_sql_param (M_string s) = SP_text s"
| "to_sql_param (M_bool b) = SP_boolean b"
| "to_sql_param (M_int t i) = SP_int64 (word_of_int i)"
| "to_sql_param (M_double d) = SP_float64 d"
| "to_sql_param (M_enum t i) = SP_int64 (word_of_int i)"

text \<open>Whether a member equals the default value of its type; \<open>zero\<close> is the test of a double against \<open>0.0\<close>.\<close>

fun is_default_value :: "('d \<Rightarrow> bool) \<Rightarrow> ('v, 'd) member \<Rightarrow> bool" where
  "is_default_value zero (M_attr a m) = is_default_value zero m"
| "is_default_value zero (M_as conv v) = tc_is_default conv v"
| "is_default_value zero (M_optional dflt v) = (v = None)"
| "is_default_value zero (M_string s) = (s = [])"
| "is_default_value zero (M_bool b) = (\<not> b)"
| "is_default_value zero (M_int t i) = (i = 0)"
| "is_default_value zero (M_double d) = zero d"
| "is_default_value zero (M_enum t i) = (i = 0)"

text \<open>\<open>std::stoll\<close> and \<open>std::stoull\<close>: white space, a sign, as many digits as there are, and an exception when there is
  none or the number is out of range; what follows the digits is ignored. A minus sign negates an unsigned number too.\<close>

definition sto_parts :: "string \<Rightarrow> (bool \<times> nat) option" where
  "sto_parts text =
     (let s = dropWhile isspace text;
          neg = (s \<noteq> [] \<and> hd s = CHR ''-'');
          s1 = (if s \<noteq> [] \<and> (hd s = CHR ''-'' \<or> hd s = CHR ''+'') then tl s else s);
          digits = takeWhile isdigit s1 in
      if digits = [] then None else Some (neg, digits_value 10 digits))"

definition stoll :: "string \<Rightarrow> int option" where
  "stoll text =
     (case sto_parts text of None \<Rightarrow> None
      | Some (neg, n) \<Rightarrow>
          let i = (if neg then - int n else int n) in if i < - (2 ^ 63) \<or> 2 ^ 63 \<le> i then None else Some i)"

definition stoull :: "string \<Rightarrow> int option" where
  "stoull text =
     (case sto_parts text of None \<Rightarrow> None
      | Some (neg, n) \<Rightarrow> if 2 ^ 64 \<le> n then None else Some (if neg then (- int n) mod 2 ^ 64 else int n))"

section \<open>From the text of a cell\<close>

record ('v, 'd) cell_reader =
  cr_json :: "string \<Rightarrow> ('v, 'd) member \<Rightarrow> ('v, 'd) member option"
  cr_stod :: "string \<Rightarrow> 'd option"

definition read_int :: "int_type \<Rightarrow> string \<Rightarrow> string + int" where
  "read_int t text =
     (case (if it_signed t then stoll text else stoull text) of
        None \<Rightarrow> Inl (''invalid integral value: '' @ text) | Some i \<Rightarrow> Inr (cast_int t i))"

definition read_json :: "('v, 'd) cell_reader \<Rightarrow> string \<Rightarrow> ('v, 'd) member \<Rightarrow> string + ('v, 'd) member" where
  "read_json cr text out =
     (case cr_json cr text out of None \<Rightarrow> Inl ''failed to parse complex type from JSON cell'' | Some m \<Rightarrow> Inr m)"

text \<open>An attribute or an optional has no branch of its own: like every other type it is read as JSON.\<close>

fun assign_non_null :: "('v, 'd) cell_reader \<Rightarrow> string \<Rightarrow> ('v, 'd) member \<Rightarrow> string + ('v, 'd) member" where
  "assign_non_null cr text (M_as conv v) = map_sum id (M_as conv) (tc_from_sql_text conv text)"
| "assign_non_null cr text (M_string s) = Inr (M_string text)"
| "assign_non_null cr text (M_bool b) =
     (if text \<in> {''1'', ''true'', ''TRUE'', ''True''} then Inr (M_bool True)
      else if text \<in> {''0'', ''false'', ''FALSE'', ''False''} then Inr (M_bool False)
      else Inl (''invalid boolean value: '' @ text))"
| "assign_non_null cr text (M_int t i) = map_sum id (M_int t) (read_int t text)"
| "assign_non_null cr text (M_double d) =
     (case cr_stod cr text of None \<Rightarrow> Inl (''invalid floating value: '' @ text) | Some x \<Rightarrow> Inr (M_double x))"
| "assign_non_null cr text (M_enum t i) = map_sum id (M_enum t) (read_int t text)"
| "assign_non_null cr text (M_optional dflt v) = read_json cr text (M_optional dflt v)"
| "assign_non_null cr text (M_attr a m) = read_json cr text (M_attr a m)"

fun assign_from_cell :: "('v, 'd) cell_reader \<Rightarrow> string option \<Rightarrow> ('v, 'd) member \<Rightarrow> string + ('v, 'd) member" where
  "assign_from_cell cr None (M_optional dflt v) = Inr (M_optional dflt None)"
| "assign_from_cell cr (Some text) (M_optional dflt v) =
     map_sum id (\<lambda>m. M_optional dflt (Some m)) (assign_non_null cr text dflt)"
| "assign_from_cell cr cell (M_attr a m) = map_sum id (M_attr a) (assign_from_cell cr cell m)"
| "assign_from_cell cr None m = Inl ''received NULL for non-null field''"
| "assign_from_cell cr (Some text) m = assign_non_null cr text m"

fun sql_type_name :: "('v, 'd) member \<Rightarrow> string" where
  "sql_type_name (M_as conv v) = tc_sql_type conv"
| "sql_type_name (M_int t i) = ''INTEGER''"
| "sql_type_name (M_bool b) = ''INTEGER''"
| "sql_type_name (M_enum t i) = ''INTEGER''"
| "sql_type_name (M_double d) = ''REAL''"
| "sql_type_name (M_string s) = ''TEXT''"
| "sql_type_name (M_optional dflt v) = sql_type_name dflt"
| "sql_type_name (M_attr a m) = sql_type_name m"

section \<open>The columns of a model\<close>

type_synonym ('v, 'd) model = "nat \<Rightarrow> ('v, 'd) member"

record ('m, 'd) column_meta =
  cm_name :: string
  cm_offset :: nat
  cm_is_id :: bool
  cm_is_auto_increment :: bool
  cm_is_unique :: bool
  cm_is_indexed :: bool
  cm_is_optional :: bool
  cm_sql_type :: string
  cm_read_param :: "'m \<Rightarrow> 'd sql_param"
  cm_write_cell :: "'m \<Rightarrow> string option \<Rightarrow> string + 'm"
  cm_is_default :: "'m \<Rightarrow> bool"

record ('m, 'd) model_meta =
  mm_table :: string
  mm_columns :: "('m, 'd) column_meta list"
  mm_column_index_by_offset :: "nat \<rightharpoonup> nat"
  mm_id_index :: "nat option"
  mm_unique_indexes :: "nat list"

definition column_of ::
  "('v, 'd) cell_reader \<Rightarrow> ('d \<Rightarrow> bool) \<Rightarrow> string \<times> nat \<times> ('v, 'd) member \<Rightarrow> (('v, 'd) model, 'd) column_meta" where
  "column_of cr zero field =
     (case field of (name, offset, slot) \<Rightarrow>
        let traits = member_traits slot in
        \<lparr>cm_name = name, cm_offset = offset, cm_is_id = ft_is_id traits,
         cm_is_auto_increment = ft_is_auto_increment traits, cm_is_unique = ft_is_unique traits,
         cm_is_indexed = ft_is_indexed traits, cm_is_optional = ft_is_optional traits, cm_sql_type = sql_type_name slot,
         cm_read_param = (\<lambda>model. to_sql_param (model offset)),
         cm_write_cell = (\<lambda>model cell.
           case assign_from_cell cr cell (model offset) of
             Inl what \<Rightarrow> Inl (''failed to map column '' @ [CHR 0x27] @ name @ [CHR 0x27] @ '': '' @ what)
           | Inr m \<Rightarrow> Inr (model(offset := m))),
         cm_is_default = (\<lambda>model. is_default_value zero (model offset))\<rparr>)"

text \<open>The body of the loop over the fields, and the table: the fields are those the reflection library reports for a
  default-constructed model, with their offsets.\<close>

definition add_column :: "('m, 'd) model_meta \<Rightarrow> ('m, 'd) column_meta \<Rightarrow> ('m, 'd) model_meta" where
  "add_column out col =
     (let index = length (mm_columns out);
          out1 = out\<lparr>mm_column_index_by_offset := (mm_column_index_by_offset out)(cm_offset col \<mapsto> index)\<rparr>;
          out2 = (if cm_is_id col \<and> mm_id_index out1 = None then out1\<lparr>mm_id_index := Some index\<rparr> else out1);
          out3 = (if cm_is_unique col then out2\<lparr>mm_unique_indexes := mm_unique_indexes out2 @ [index]\<rparr> else out2) in
      out3\<lparr>mm_columns := mm_columns out3 @ [col]\<rparr>)"

definition empty_meta :: "string \<Rightarrow> ('m, 'd) model_meta" where
  "empty_meta table = \<lparr>mm_table = table, mm_columns = [], mm_column_index_by_offset = Map.empty,
     mm_id_index = None, mm_unique_indexes = []\<rparr>"

definition meta_of_columns :: "string \<Rightarrow> ('m, 'd) column_meta list \<Rightarrow> string + ('m, 'd) model_meta" where
  "meta_of_columns table cols =
     (let out = foldl add_column (empty_meta table) cols in
      if mm_columns out = [] then Inl ''ORM model has no fields'' else Inr out)"

definition model_meta_of ::
  "('v, 'd) cell_reader \<Rightarrow> ('d \<Rightarrow> bool) \<Rightarrow> string \<Rightarrow> (string \<times> nat \<times> ('v, 'd) member) list
     \<Rightarrow> string + (('v, 'd) model, 'd) model_meta" where
  "model_meta_of cr zero table flds = meta_of_columns table (map (column_of cr zero) flds)"

definition resolve_column_name :: "('m, 'd) model_meta \<Rightarrow> nat \<Rightarrow> string + string" where
  "resolve_column_name meta offset =
     (case mm_column_index_by_offset meta offset of
        None \<Rightarrow> Inl ''failed to resolve column name from member pointer''
      | Some i \<Rightarrow> Inr (cm_name (mm_columns meta ! i)))"

definition resolve_column_name_from_getter :: "('m, 'd) model_meta \<Rightarrow> nat \<Rightarrow> string + string" where
  "resolve_column_name_from_getter meta offset =
     (case mm_column_index_by_offset meta offset of
        None \<Rightarrow> Inl ''failed to resolve column name from getter''
      | Some i \<Rightarrow> Inr (cm_name (mm_columns meta ! i)))"

section \<open>Decoding rows\<close>

text \<open>\<open>column_pos[name] = i\<close> for each column of the result: a later column of the same name wins.\<close>

definition column_positions :: "string list \<Rightarrow> string \<rightharpoonup> nat" where
  "column_positions names = map_of (rev (zip names [0..<length names]))"

fun decode_row ::
  "(string \<rightharpoonup> nat) \<Rightarrow> string option list \<Rightarrow> ('m, 'd) column_meta list \<Rightarrow> 'm \<Rightarrow> string + 'm" where
  "decode_row pos vals [] model = Inr model"
| "decode_row pos vals (col # cols) model =
     (case pos (cm_name col) of None \<Rightarrow> decode_row pos vals cols model
      | Some k \<Rightarrow>
          if length vals \<le> k then Inl ''row column index out of range while decoding ORM row''
          else case cm_write_cell col model (vals ! k) of
                 Inl e \<Rightarrow> Inl e | Inr model' \<Rightarrow> decode_row pos vals cols model')"

fun decode_loop ::
  "(string \<rightharpoonup> nat) \<Rightarrow> ('m, 'd) column_meta list \<Rightarrow> 'm \<Rightarrow> string option list list \<Rightarrow> string + 'm list" where
  "decode_loop pos cols fresh [] = Inr []"
| "decode_loop pos cols fresh (vals # rows) =
     (case decode_row pos vals cols fresh of Inl e \<Rightarrow> Inl e
      | Inr m \<Rightarrow> map_sum id (Cons m) (decode_loop pos cols fresh rows))"

definition decode_rows ::
  "('m, 'd) model_meta \<Rightarrow> 'm \<Rightarrow> string list \<Rightarrow> string option list list \<Rightarrow> string + 'm list" where
  "decode_rows meta fresh names rows = decode_loop (column_positions names) (mm_columns meta) fresh rows"

section \<open>Quoting\<close>

text \<open>How a database reads a delimited identifier behind its opening quote (the SQL standard): a doubled quote stands
  for one, a single one ends it.\<close>

fun read_ident :: "string \<Rightarrow> (string \<times> string) option" where
  "read_ident [] = None"
| "read_ident (c # s) =
     (if c \<noteq> DQUOTE then map_option (apfst (Cons c)) (read_ident s)
      else case s of [] \<Rightarrow> Some ([], [])
           | d # s' \<Rightarrow> if d = DQUOTE then map_option (apfst (Cons DQUOTE)) (read_ident s') else Some ([], s))"

lemma read_quoted: "(rest = [] \<or> hd rest \<noteq> DQUOTE) \<Longrightarrow> read_ident (quote_chars s @ DQUOTE # rest) = Some (s, rest)"
  by (induction s) (auto split: list.splits)

section \<open>A member survives the way through a column\<close>

fun same_type :: "('v, 'd) member \<Rightarrow> ('v, 'd) member \<Rightarrow> bool" where
  "same_type (M_string _) (M_string _) \<longleftrightarrow> True"
| "same_type (M_bool _) (M_bool _) \<longleftrightarrow> True"
| "same_type (M_int t _) (M_int t' _) \<longleftrightarrow> t = t'"
| "same_type (M_double _) (M_double _) \<longleftrightarrow> True"
| "same_type (M_enum t _) (M_enum t' _) \<longleftrightarrow> t = t'"
| "same_type (M_optional d _) (M_optional d' _) \<longleftrightarrow> d = d'"
| "same_type (M_attr a m) (M_attr a' m') \<longleftrightarrow> a = a' \<and> same_type m m'"
| "same_type (M_as c _) (M_as c' _) \<longleftrightarrow> c = c'"
| "same_type _ _ \<longleftrightarrow> False"

text \<open>The members the mapper can hold: numbers in the range of their type, doubles whose text reads back, converters that
  read what they wrote, and optionals of a type with neither an attribute nor another optional.\<close>

fun simple_member :: "('v, 'd) member \<Rightarrow> bool" where
  "simple_member (M_optional _ _) \<longleftrightarrow> False"
| "simple_member (M_attr _ _) \<longleftrightarrow> False"
| "simple_member _ \<longleftrightarrow> True"

fun storable :: "('v, 'd) cell_reader \<Rightarrow> ('d \<Rightarrow> string) \<Rightarrow> ('v, 'd) member \<Rightarrow> bool" where
  "storable cr dtext (M_int t i) \<longleftrightarrow> int_type_ok t \<and> int_in_range t i"
| "storable cr dtext (M_enum t i) \<longleftrightarrow> int_type_ok t \<and> int_in_range t i"
| "storable cr dtext (M_double d) \<longleftrightarrow> cr_stod cr (dtext d) = Some d"
| "storable cr dtext (M_as c v) \<longleftrightarrow>
     tc_to_sql_param c v \<noteq> SP_null \<and> tc_from_sql_text c (sql_as_text dtext (tc_to_sql_param c v)) = Inr v"
| "storable cr dtext (M_optional dflt None) \<longleftrightarrow> True"
| "storable cr dtext (M_optional dflt (Some m)) \<longleftrightarrow> simple_member m \<and> same_type m dflt \<and> storable cr dtext m"
| "storable cr dtext (M_attr a m) \<longleftrightarrow> storable cr dtext m"
| "storable cr dtext _ \<longleftrightarrow> True"

definition param_cell :: "('d \<Rightarrow> string) \<Rightarrow> 'd sql_param \<Rightarrow> string option" where
  "param_cell dtext p = (if p = SP_null then None else Some (sql_as_text dtext p))"

lemma sto_parts_dec: "sto_parts (dec_of_int i) = Some (i < 0, nat \<bar>i\<bar>)"
proof -
  have d: "takeWhile isdigit (dec_of_nat n) = dec_of_nat n" for n
    using dec_of_nat_digits [of _ n] by (simp add: takeWhile_eq_all_conv)
  have h: "isdigit (hd (dec_of_nat n))" for n using dec_of_nat_digits [of "hd (dec_of_nat n)" n] by simp
  have c: "\<not> isspace (hd (dec_of_nat n))" "hd (dec_of_nat n) \<noteq> CHR ''-''" "hd (dec_of_nat n) \<noteq> CHR ''+''" for n
    using h [of n] by (auto simp: isdigit_def isspace_def)
  have e: "dropWhile isspace (dec_of_nat n) = dec_of_nat n" for n by (rule dropWhile_unchanged) (simp add: c(1))
  have m: "\<not> isspace CHR ''-''" by (simp add: isspace_def)
  show ?thesis by (simp add: sto_parts_def dec_of_int_def d c e m digits_value_render_base Let_def)
qed

lemma sint_stored:
  "- (2 ^ 63) \<le> i \<Longrightarrow> i < 2 ^ 63 \<Longrightarrow> sint (word_of_int i :: 64 word) = i"
  "2 ^ 63 \<le> i \<Longrightarrow> i < 2 ^ 64 \<Longrightarrow> sint (word_of_int i :: 64 word) = i - 2 ^ 64"
proof -
  have s: "sint (word_of_int i :: 64 word) = (i + 2 ^ 63) mod 2 ^ 64 - 2 ^ 63"
    by (simp add: sint_sbintrunc' signed_take_bit_eq_take_bit_shift take_bit_eq_mod)
  show "- (2 ^ 63) \<le> i \<Longrightarrow> i < 2 ^ 63 \<Longrightarrow> sint (word_of_int i :: 64 word) = i" unfolding s by simp
  have "(i + 2 ^ 63) mod 2 ^ 64 = i + 2 ^ 63 - 2 ^ 64" if "2 ^ 63 \<le> i" "i < 2 ^ 64"
  proof -
    have "(i + 2 ^ 63) mod 2 ^ 64 = (i + 2 ^ 63 - 2 ^ 64) mod 2 ^ 64" by (rule minus_mod_self2 [symmetric])
    also have "\<dots> = i + 2 ^ 63 - 2 ^ 64" using that by (intro mod_pos_pos_trivial) auto
    finally show ?thesis .
  qed
  then show "2 ^ 63 \<le> i \<Longrightarrow> i < 2 ^ 64 \<Longrightarrow> sint (word_of_int i :: 64 word) = i - 2 ^ 64" unfolding s by simp
qed

lemma read_int_stored:
  assumes "int_type_ok t" "int_in_range t i"
  shows "read_int t (dec_of_int (sint (word_of_int i :: 64 word))) = Inr i"
proof (cases "it_signed t")
  case True
  with assms have b: "- (2 ^ 63) \<le> i" "i < 2 ^ 63" by (auto simp: int_type_ok_def int_in_range_def)
  then have "stoll (dec_of_int (sint (word_of_int i :: 64 word))) = Some i"
    by (auto simp: stoll_def sto_parts_dec sint_stored(1) Let_def)
  moreover have "signed_take_bit (it_bits t - 1) i = i"
    using assms True by (intro signed_take_bit_int_eq_self) (auto simp: int_in_range_def)
  ultimately show ?thesis using True by (simp add: read_int_def cast_int_def)
next
  case False
  with assms have b: "0 \<le> i" "i < 2 ^ 64" by (auto simp: int_type_ok_def int_in_range_def)
  have "stoull (dec_of_int (sint (word_of_int i :: 64 word))) = Some i"
  proof (cases "i < 2 ^ 63")
    case True
    with b show ?thesis by (auto simp: stoull_def sto_parts_dec sint_stored(1) Let_def)
  next
    case False
    with b have n: "sint (word_of_int i :: 64 word) = i - 2 ^ 64" by (intro sint_stored(2)) auto
    have "(i - 2 ^ 64) mod 2 ^ 64 = i" using b by simp
    with b False show ?thesis by (auto simp: stoull_def sto_parts_dec n Let_def)
  qed
  moreover have "take_bit (it_bits t) i = i"
    using assms False by (intro take_bit_int_eq_self) (auto simp: int_in_range_def)
  ultimately show ?thesis using False by (simp add: read_int_def cast_int_def)
qed

lemma same_type_simple: "same_type m out \<Longrightarrow> simple_member out \<longleftrightarrow> simple_member m"
  by (cases m; cases out; simp)

lemma simple_roundtrip:
  assumes "simple_member m" "storable cr dtext m" "same_type m out"
  shows "to_sql_param m \<noteq> SP_null"
    and "assign_non_null cr (sql_as_text dtext (to_sql_param m)) out = Inr m"
  using assms by (cases m; cases out; auto simp: read_int_stored)+

lemma assign_simple: "simple_member out \<Longrightarrow> assign_from_cell cr (Some text) out = assign_non_null cr text out"
  by (cases out) simp_all

lemma simple_cell:
  assumes "simple_member m" "storable cr dtext m" "same_type m out"
  shows "assign_from_cell cr (param_cell dtext (to_sql_param m)) out = Inr m"
  using simple_roundtrip [OF assms] assms(1) same_type_simple [OF assms(3)] by (simp add: param_cell_def assign_simple)

lemma stored_cell:
  "storable cr dtext m \<Longrightarrow> same_type m out \<Longrightarrow>
     assign_from_cell cr (param_cell dtext (to_sql_param m)) out = Inr m"
proof (induction m arbitrary: out)
  case (M_optional dflt v)
  then obtain v' where out: "out = M_optional dflt v'" by (cases out) auto
  show ?case
  proof (cases v)
    case None
    then show ?thesis by (simp add: out param_cell_def)
  next
    case (Some m)
    with M_optional.prems simple_roundtrip [of m cr dtext dflt] show ?thesis by (simp add: out param_cell_def)
  qed
next
  case (M_attr a m)
  then obtain m' where "out = M_attr a m'" "same_type m m'" by (cases out) auto
  with M_attr.IH [of m'] M_attr.prems show ?case by simp
qed (rule simple_cell; simp)+

section \<open>A model survives the way through a row\<close>

lemma add_column_simps [simp]:
  "mm_columns (add_column out c) = mm_columns out @ [c]"
  "mm_id_index (add_column out c) =
     (if cm_is_id c \<and> mm_id_index out = None then Some (length (mm_columns out)) else mm_id_index out)"
  "mm_unique_indexes (add_column out c) =
     (if cm_is_unique c then mm_unique_indexes out @ [length (mm_columns out)] else mm_unique_indexes out)"
  "mm_column_index_by_offset (add_column out c) = (mm_column_index_by_offset out)(cm_offset c \<mapsto> length (mm_columns out))"
  by (simp_all add: add_column_def Let_def)

lemma empty_meta_simps [simp]:
  "mm_columns (empty_meta table) = []" "mm_id_index (empty_meta table) = None"
  "mm_unique_indexes (empty_meta table) = []" "mm_column_index_by_offset (empty_meta table) = Map.empty"
  by (simp_all add: empty_meta_def)

lemma foldl_add_column [simp]: "mm_columns (foldl add_column out cols) = mm_columns out @ cols"
  by (induction cols arbitrary: out) simp_all

lemma meta_of_columns_Inr:
  "meta_of_columns table cols = Inr meta \<longleftrightarrow> cols \<noteq> [] \<and> meta = foldl add_column (empty_meta table) cols"
  by (auto simp: meta_of_columns_def Let_def)

lemma column_positions_nth:
  assumes "distinct names" "i < length names"
  shows "column_positions names (names ! i) = Some i"
proof -
  have "map_of (rev (zip names [0..<length names])) = map_of (zip names [0..<length names])"
    using assms(1) by (intro map_of_inject_set [THEN iffD2]) (simp_all add: rev_map [symmetric])
  then show ?thesis using assms by (simp add: column_positions_def map_of_zip_nth)
qed

lemma column_of_simps [simp]:
  "cm_name (column_of cr zero (n, off, slot)) = n"
  "cm_read_param (column_of cr zero (n, off, slot)) model = to_sql_param (model off)"
  by (simp_all add: column_of_def Let_def)

lemma column_of_write:
  "storable cr dtext (model off) \<Longrightarrow> same_type (model off) (cur off) \<Longrightarrow>
     cm_write_cell (column_of cr zero (n, off, slot)) cur (param_cell dtext (to_sql_param (model off)))
       = Inr (cur(off := model off))"
  by (simp add: column_of_def Let_def stored_cell)

lemma decode_row_fields:
  assumes "\<forall>(n, off, slot) \<in> set flds. \<exists>k. pos n = Some k \<and> k < length vals
      \<and> vals ! k = param_cell dtext (to_sql_param (model off))
      \<and> storable cr dtext (model off) \<and> same_type (model off) (cur off)"
    and "distinct (map (fst \<circ> snd) flds)"
  shows "decode_row pos vals (map (column_of cr zero) flds) cur
     = Inr (override_on cur model (set (map (fst \<circ> snd) flds)))"
  using assms
proof (induction flds arbitrary: cur)
  case (Cons f flds)
  obtain n off slot where f: "f = (n, off, slot)" by (cases f)
  from Cons.prems(1) obtain k where k: "pos n = Some k" "k < length vals"
    "vals ! k = param_cell dtext (to_sql_param (model off))" "storable cr dtext (model off)" "same_type (model off) (cur off)"
    by (auto simp: f)
  have "decode_row pos vals (map (column_of cr zero) flds) (cur(off := model off))
      = Inr (override_on (cur(off := model off)) model (set (map (fst \<circ> snd) flds)))"
  proof (rule Cons.IH)
    have "off' \<noteq> off" if "(n', off', slot') \<in> set flds" for n' off' slot' using Cons.prems(2) that by (force simp: f)
    with Cons.prems(1) show "\<forall>(n, off', slot) \<in> set flds. \<exists>k. pos n = Some k \<and> k < length vals
      \<and> vals ! k = param_cell dtext (to_sql_param (model off'))
      \<and> storable cr dtext (model off') \<and> same_type (model off') ((cur(off := model off)) off')"
      by (auto simp: f)
  qed (use Cons.prems(2) in simp)
  moreover have "override_on (cur(off := model off)) model X = override_on cur model (insert off X)" for X
    by (auto simp: override_on_def fun_eq_iff)
  ultimately show ?case using k by (simp add: f column_of_write)
qed simp

lemma decode_loop_map:
  "(\<And>m. m \<in> set ms \<Longrightarrow> decode_row pos (row m) cols fresh = Inr (f m)) \<Longrightarrow>
     decode_loop pos cols fresh (map row ms) = Inr (map f ms)"
  by (induction ms) auto



section \<open>What the table of columns says\<close>

definition first_id :: "('m, 'd) column_meta list \<Rightarrow> nat option" where
  "first_id cols = (if \<exists>c \<in> set cols. cm_is_id c then Some (length (takeWhile (\<lambda>c. \<not> cm_is_id c) cols)) else None)"

lemma meta_id_index: "mm_id_index (foldl add_column (empty_meta table) cols) = first_id cols"
proof (induction cols rule: rev_induct)
  case (snoc c cols)
  then show ?case by (auto simp: first_id_def takeWhile_append takeWhile_eq_all_conv)
qed (simp add: first_id_def)

lemma meta_unique_indexes:
  "mm_unique_indexes (foldl add_column (empty_meta table) cols) = filter (\<lambda>i. cm_is_unique (cols ! i)) [0..<length cols]"
proof (induction cols rule: rev_induct)
  case (snoc c cols)
  have "filter (\<lambda>i. cm_is_unique ((cols @ [c]) ! i)) [0..<length cols] = filter (\<lambda>i. cm_is_unique (cols ! i)) [0..<length cols]"
    by (rule filter_cong) (simp_all add: nth_append)
  with snoc show ?case by simp
qed simp

lemma meta_index_by_offset:
  "distinct (map cm_offset cols) \<Longrightarrow> k < length cols \<Longrightarrow>
     mm_column_index_by_offset (foldl add_column (empty_meta table) cols) (cm_offset (cols ! k)) = Some k"
proof (induction cols arbitrary: k rule: rev_induct)
  case (snoc c cols)
  then show ?case by (auto simp: nth_append less_Suc_eq) (metis image_eqI nth_mem)
qed simp

text \<open>The name of a member pointer, or of the field a getter returns, is that of the field at its offset.\<close>

theorem resolve_column_name_exact:
  assumes "model_meta_of cr zero table flds = Inr meta" and "distinct (map (fst \<circ> snd) flds)" and "(n, off, slot) \<in> set flds"
  shows "resolve_column_name meta off = Inr n \<and> resolve_column_name_from_getter meta off = Inr n"
proof -
  have off: "cm_offset (column_of cr zero f) = fst (snd f)" for f by (cases f) (simp add: column_of_def Let_def)
  from assms(3) obtain k where k: "k < length flds" "flds ! k = (n, off, slot)" by (auto simp: in_set_conv_nth)
  with meta_index_by_offset [of "map (column_of cr zero) flds" k table] assms(1,2) show ?thesis
    by (simp add: model_meta_of_def meta_of_columns_Inr resolve_column_name_def resolve_column_name_from_getter_def off comp_def)
qed

end
