(* ===== verification/Orm_Query.thy ===== *)
theory Orm_Query
  imports Orm_Meta
begin

text \<open>
  The query builder of the object mapper (\<open>Query\<close> in \<open>layer3/include/async_uv_layer3/orm.hpp\<close>) and the statement it
  builds. The builder's public methods are the constructors of \<open>query_op\<close>; a chain of calls is a list of them, and the
  consumer of a nested group is the chain it calls on the nested query. A member is named by a selector: the offset of
  a field of the query's own model, or of a joined model. Types are named by strings (\<open>std::type_index\<close>).
\<close>

section \<open>The state of a query\<close>

datatype predicate_kind = PK_binary | PK_in | PK_in_sql | PK_between | PK_null_check | PK_raw | PK_group

datatype join_kind = Join_inner | Join_left

datatype bool_connector = Conn_and | Conn_or

datatype 'd predicate =
  Predicate (p_kind: predicate_kind) (p_connector: bool_connector) (p_column: string) (p_op: string)
    (p_params: "'d sql_param list") (p_raw_sql: string) (p_children: "'d predicate list")

record order_clause =
  or_column :: string
  or_ascending :: bool

record join_clause =
  jn_kind :: join_kind
  jn_table :: string
  jn_alias :: string
  jn_left_ref :: string
  jn_right_ref :: string
  jn_on_raw :: string
  jn_raw_on :: bool

record 'd sql_plan =
  sp_sql :: string
  sp_params :: "'d sql_param list"

record 'd having_clause =
  hv_connector :: bool_connector
  hv_sql :: string
  hv_params :: "'d sql_param list"

record 'd query =
  q_predicates :: "'d predicate list"
  q_next_connector :: bool_connector
  q_joins :: "join_clause list"
  q_orders :: "order_clause list"
  q_group_by_columns :: "string list"
  q_having_clauses :: "'d having_clause list"
  q_joined_ref_by_type :: "string \<rightharpoonup> string"
  q_table_alias :: "string option"
  q_limit :: "nat option"
  q_offset :: "nat option"
  q_sql_tail :: string

definition empty_query :: "'d query" where
  "empty_query = \<lparr>q_predicates = [], q_next_connector = Conn_and, q_joins = [], q_orders = [], q_group_by_columns = [],
     q_having_clauses = [], q_joined_ref_by_type = Map.empty, q_table_alias = None, q_limit = None, q_offset = None,
     q_sql_tail = []\<rparr>"

section \<open>Building blocks\<close>

definition consume_next_connector :: "'d query \<Rightarrow> bool_connector \<times> 'd query" where
  "consume_next_connector q = (q_next_connector q, q\<lparr>q_next_connector := Conn_and\<rparr>)"

definition push_predicate :: "'d predicate \<Rightarrow> 'd query \<Rightarrow> 'd query" where
  "push_predicate p q = q\<lparr>q_predicates := q_predicates q @ [p]\<rparr>"

definition add_binary :: "string \<Rightarrow> string \<Rightarrow> 'd sql_param \<Rightarrow> 'd query \<Rightarrow> 'd query" where
  "add_binary column op value q =
     (let (c, q1) = consume_next_connector q in push_predicate (Predicate PK_binary c column op [value] [] []) q1)"

definition add_in :: "string \<Rightarrow> 'd sql_param list \<Rightarrow> string \<Rightarrow> 'd query \<Rightarrow> 'd query" where
  "add_in column vals op q =
     (let (c, q1) = consume_next_connector q in push_predicate (Predicate PK_in c column op vals [] []) q1)"

definition add_between :: "string \<Rightarrow> 'd sql_param \<Rightarrow> 'd sql_param \<Rightarrow> 'd query \<Rightarrow> 'd query" where
  "add_between column low high q =
     (let (c, q1) = consume_next_connector q in push_predicate (Predicate PK_between c column [] [low, high] [] []) q1)"

definition add_null_check :: "string \<Rightarrow> string \<Rightarrow> 'd query \<Rightarrow> 'd query" where
  "add_null_check column op q =
     (let (c, q1) = consume_next_connector q in push_predicate (Predicate PK_null_check c column op [] [] []) q1)"

definition add_in_sql ::
  "raw_sql_guard \<Rightarrow> string \<Rightarrow> string \<Rightarrow> string \<Rightarrow> bool \<Rightarrow> 'd query \<Rightarrow> string + 'd query" where
  "add_in_sql g column sql_fragment op unsafe_marked q =
     (if sql_fragment = [] then Inr q
      else case validate_raw_sql g ''Query::inSql'' sql_fragment unsafe_marked of
        Inl e \<Rightarrow> Inl e
      | Inr _ \<Rightarrow> let (c, q1) = consume_next_connector q in
                Inr (push_predicate (Predicate PK_in_sql c column op [] sql_fragment []) q1))"

definition where_raw ::
  "raw_sql_guard \<Rightarrow> string \<Rightarrow> 'd sql_param list \<Rightarrow> bool \<Rightarrow> 'd query \<Rightarrow> string + 'd query" where
  "where_raw g sql_fragment params unsafe_marked q =
     (if sql_fragment = [] then Inr q
      else case validate_raw_sql g ''Query::whereRaw'' sql_fragment unsafe_marked of
        Inl e \<Rightarrow> Inl e
      | Inr _ \<Rightarrow> let (c, q1) = consume_next_connector q in
                Inr (push_predicate (Predicate PK_raw c [] [] params sql_fragment []) q1))"

definition having :: "string \<Rightarrow> 'd sql_param list \<Rightarrow> 'd query \<Rightarrow> 'd query" where
  "having sql_fragment params q =
     (if sql_fragment = [] then q
      else let (c, q1) = consume_next_connector q in
        q1\<lparr>q_having_clauses := q_having_clauses q1 @ [\<lparr>hv_connector = c, hv_sql = sql_fragment, hv_params = params\<rparr>]\<rparr>)"

definition add_join ::
  "join_kind \<Rightarrow> string \<Rightarrow> string \<Rightarrow> string \<Rightarrow> string \<Rightarrow> 'd query \<Rightarrow> string + 'd query" where
  "add_join kind table left_ref right_ref alias q =
     (if table = [] then Inl ''join table cannot be empty''
      else if left_ref = [] \<or> right_ref = [] then Inl ''join column references cannot be empty''
      else Inr (q\<lparr>q_joins := q_joins q @ [\<lparr>jn_kind = kind, jn_table = table, jn_alias = alias, jn_left_ref = left_ref,
                  jn_right_ref = right_ref, jn_on_raw = [], jn_raw_on = False\<rparr>]\<rparr>))"

definition add_join_raw ::
  "raw_sql_guard \<Rightarrow> join_kind \<Rightarrow> string \<Rightarrow> string \<Rightarrow> string \<Rightarrow> bool \<Rightarrow> 'd query \<Rightarrow> string + 'd query" where
  "add_join_raw g kind table on_sql alias unsafe_marked q =
     (if table = [] then Inl ''join table cannot be empty''
      else if on_sql = [] then Inl ''join ON SQL cannot be empty''
      else case validate_raw_sql g ''Query::joinRaw'' on_sql unsafe_marked of
        Inl e \<Rightarrow> Inl e
      | Inr _ \<Rightarrow> Inr (q\<lparr>q_joins := q_joins q @ [\<lparr>jn_kind = kind, jn_table = table, jn_alias = alias, jn_left_ref = [],
                         jn_right_ref = [], jn_on_raw = on_sql, jn_raw_on = True\<rparr>]\<rparr>))"

section \<open>Members\<close>

text \<open>What the builder knows of the model types: the name of the table, and the column of a member pointer.\<close>

record model_type =
  mt_table :: string
  mt_column :: "nat \<Rightarrow> string + string"

record model_env =
  me_own :: model_type
  me_joined :: "string \<Rightarrow> model_type"

datatype selector = Sel_own nat | Sel_joined string nat

definition resolve_join_ref :: "model_env \<Rightarrow> string \<Rightarrow> 'd query \<Rightarrow> string" where
  "resolve_join_ref env joined q =
     (case q_joined_ref_by_type q joined of Some ref \<Rightarrow> ref | None \<Rightarrow> mt_table (me_joined env joined))"

definition resolve_member_column_ref_for :: "model_type \<Rightarrow> nat \<Rightarrow> string \<Rightarrow> string + string" where
  "resolve_member_column_ref_for mt member table_or_alias =
     (case mt_column mt member of Inl e \<Rightarrow> Inl e
      | Inr column \<Rightarrow> Inr ((if table_or_alias = [] then mt_table mt else table_or_alias) @ ''.'' @ column))"

definition resolve_selector :: "model_env \<Rightarrow> selector \<Rightarrow> 'd query \<Rightarrow> string + string" where
  "resolve_selector env sel q =
     (case sel of Sel_own member \<Rightarrow> mt_column (me_own env) member
      | Sel_joined joined member \<Rightarrow>
          resolve_member_column_ref_for (me_joined env joined) member (resolve_join_ref env joined q))"

definition add_typed_join ::
  "model_env \<Rightarrow> join_kind \<Rightarrow> string \<Rightarrow> nat \<Rightarrow> nat \<Rightarrow> string \<Rightarrow> 'd query \<Rightarrow> string + 'd query" where
  "add_typed_join env kind joined local_member joined_member alias q =
     (let joined_table = mt_table (me_joined env joined);
          joined_ref = (if alias = [] then joined_table else alias);
          q1 = q\<lparr>q_joined_ref_by_type := (q_joined_ref_by_type q)(joined \<mapsto> joined_ref)\<rparr> in
      case mt_column (me_own env) local_member of Inl e \<Rightarrow> Inl e
      | Inr local_column \<Rightarrow>
          case mt_column (me_joined env joined) joined_member of Inl e \<Rightarrow> Inl e
          | Inr joined_column \<Rightarrow> add_join kind joined_table local_column joined_column alias q1)"

section \<open>The public methods\<close>

datatype 'd query_op =
    Q_eq selector "'d sql_param"
  | Q_ne selector "'d sql_param"
  | Q_gt selector "'d sql_param"
  | Q_ge selector "'d sql_param"
  | Q_lt selector "'d sql_param"
  | Q_le selector "'d sql_param"
  | Q_like selector string
  | Q_like_raw selector string
  | Q_not_like selector string
  | Q_like_left selector string
  | Q_like_right selector string
  | Q_is_null selector
  | Q_is_not_null selector
  | Q_in selector "'d sql_param list"
  | Q_not_in selector "'d sql_param list"
  | Q_between selector "'d sql_param" "'d sql_param"
  | Q_in_sql selector string bool
  | Q_not_in_sql selector string bool
  | Q_from_alias string
  | Q_join_raw join_kind string string string bool
  | Q_join join_kind string nat nat string
  | Q_order_by selector bool
  | Q_group_by selector
  | Q_having string "'d sql_param list"
  | Q_or
  | Q_and
  | Q_and_group "'d query_op list"
  | Q_nested "'d query_op list"
  | Q_last string
  | Q_limit nat
  | Q_offset nat
  | Q_where_raw string "'d sql_param list" bool

definition with_column ::
  "model_env \<Rightarrow> selector \<Rightarrow> 'd query \<Rightarrow> (string \<Rightarrow> string + 'd query) \<Rightarrow> string + 'd query" where
  "with_column env sel q f = (case resolve_selector env sel q of Inl e \<Rightarrow> Inl e | Inr column \<Rightarrow> f column)"

definition nested_start :: "'d query \<Rightarrow> 'd query" where
  "nested_start q = empty_query\<lparr>q_table_alias := q_table_alias q, q_joined_ref_by_type := q_joined_ref_by_type q\<rparr>"

definition append_group_predicate :: "bool_connector \<Rightarrow> 'd query \<Rightarrow> 'd query \<Rightarrow> 'd query" where
  "append_group_predicate connector nested_query q =
     (if q_predicates nested_query = [] then q
      else push_predicate (Predicate PK_group connector [] [] [] [] (q_predicates nested_query)) q)"

fun apply_op :: "raw_sql_guard \<Rightarrow> model_env \<Rightarrow> 'd query_op \<Rightarrow> 'd query \<Rightarrow> string + 'd query"
  and apply_ops :: "raw_sql_guard \<Rightarrow> model_env \<Rightarrow> 'd query_op list \<Rightarrow> 'd query \<Rightarrow> string + 'd query" where
  "apply_op g env (Q_eq sel v) q = with_column env sel q (\<lambda>c. Inr (add_binary c ''='' v q))"
| "apply_op g env (Q_ne sel v) q = with_column env sel q (\<lambda>c. Inr (add_binary c ''!='' v q))"
| "apply_op g env (Q_gt sel v) q = with_column env sel q (\<lambda>c. Inr (add_binary c ''>'' v q))"
| "apply_op g env (Q_ge sel v) q = with_column env sel q (\<lambda>c. Inr (add_binary c ''>='' v q))"
| "apply_op g env (Q_lt sel v) q = with_column env sel q (\<lambda>c. Inr (add_binary c ''<'' v q))"
| "apply_op g env (Q_le sel v) q = with_column env sel q (\<lambda>c. Inr (add_binary c ''<='' v q))"
| "apply_op g env (Q_like sel p) q = with_column env sel q (\<lambda>c. Inr (add_binary c ''LIKE'' (SP_text (''%'' @ p @ ''%'')) q))"
| "apply_op g env (Q_like_raw sel p) q = with_column env sel q (\<lambda>c. Inr (add_binary c ''LIKE'' (SP_text p) q))"
| "apply_op g env (Q_not_like sel p) q =
     with_column env sel q (\<lambda>c. Inr (add_binary c ''NOT LIKE'' (SP_text (''%'' @ p @ ''%'')) q))"
| "apply_op g env (Q_like_left sel p) q = with_column env sel q (\<lambda>c. Inr (add_binary c ''LIKE'' (SP_text (''%'' @ p)) q))"
| "apply_op g env (Q_like_right sel p) q = with_column env sel q (\<lambda>c. Inr (add_binary c ''LIKE'' (SP_text (p @ ''%'')) q))"
| "apply_op g env (Q_is_null sel) q = with_column env sel q (\<lambda>c. Inr (add_null_check c ''IS NULL'' q))"
| "apply_op g env (Q_is_not_null sel) q = with_column env sel q (\<lambda>c. Inr (add_null_check c ''IS NOT NULL'' q))"
| "apply_op g env (Q_in sel vs) q = with_column env sel q (\<lambda>c. Inr (add_in c vs ''IN'' q))"
| "apply_op g env (Q_not_in sel vs) q = with_column env sel q (\<lambda>c. Inr (add_in c vs ''NOT IN'' q))"
| "apply_op g env (Q_between sel low high) q = with_column env sel q (\<lambda>c. Inr (add_between c low high q))"
| "apply_op g env (Q_in_sql sel sql marked) q = with_column env sel q (\<lambda>c. add_in_sql g c sql ''IN'' marked q)"
| "apply_op g env (Q_not_in_sql sel sql marked) q = with_column env sel q (\<lambda>c. add_in_sql g c sql ''NOT IN'' marked q)"
| "apply_op g env (Q_from_alias alias) q = Inr (q\<lparr>q_table_alias := if alias = [] then None else Some alias\<rparr>)"
| "apply_op g env (Q_join_raw kind table on_sql alias marked) q = add_join_raw g kind table on_sql alias marked q"
| "apply_op g env (Q_join kind joined local_member joined_member alias) q =
     add_typed_join env kind joined local_member joined_member alias q"
| "apply_op g env (Q_order_by sel asc) q =
     with_column env sel q (\<lambda>c. Inr (q\<lparr>q_orders := q_orders q @ [\<lparr>or_column = c, or_ascending = asc\<rparr>]\<rparr>))"
| "apply_op g env (Q_group_by sel) q =
     with_column env sel q (\<lambda>c. Inr (q\<lparr>q_group_by_columns := q_group_by_columns q @ [c]\<rparr>))"
| "apply_op g env (Q_having sql params) q = Inr (having sql params q)"
| "apply_op g env Q_or q = Inr (q\<lparr>q_next_connector := Conn_or\<rparr>)"
| "apply_op g env Q_and q = Inr (q\<lparr>q_next_connector := Conn_and\<rparr>)"
| "apply_op g env (Q_and_group ops) q =
     (case apply_ops g env ops (nested_start q) of Inl e \<Rightarrow> Inl e
      | Inr nested_query \<Rightarrow> Inr (append_group_predicate Conn_and nested_query q))"
| "apply_op g env (Q_nested ops) q =
     (let (c, q1) = consume_next_connector q in
      case apply_ops g env ops (nested_start q1) of Inl e \<Rightarrow> Inl e
      | Inr nested_query \<Rightarrow> Inr (append_group_predicate c nested_query q1))"
| "apply_op g env (Q_last sql_tail) q = Inr (q\<lparr>q_sql_tail := sql_tail\<rparr>)"
| "apply_op g env (Q_limit count) q = Inr (q\<lparr>q_limit := Some count\<rparr>)"
| "apply_op g env (Q_offset count) q = Inr (q\<lparr>q_offset := Some count\<rparr>)"
| "apply_op g env (Q_where_raw sql params marked) q = where_raw g sql params marked q"
| "apply_ops g env [] q = Inr q"
| "apply_ops g env (op # ops) q =
     (case apply_op g env op q of Inl e \<Rightarrow> Inl e | Inr q' \<Rightarrow> apply_ops g env ops q')"

definition without_window_clauses :: "'d query \<Rightarrow> 'd query" where
  "without_window_clauses q = q\<lparr>q_orders := [], q_limit := None, q_offset := None, q_sql_tail := []\<rparr>"

definition with_limit_if_absent :: "nat \<Rightarrow> 'd query \<Rightarrow> 'd query" where
  "with_limit_if_absent count q = (if q_limit q = None then q\<lparr>q_limit := Some count\<rparr> else q)"

section \<open>The statement\<close>

text \<open>The loops that put a comma before each element but the first.\<close>

fun comma_list :: "string list \<Rightarrow> string" where
  "comma_list [] = []"
| "comma_list [x] = x"
| "comma_list (x # y # xs) = x @ '', '' @ comma_list (y # xs)"

definition render_column_ref :: "string \<Rightarrow> string \<Rightarrow> string" where
  "render_column_ref column_ref default_table_ref = qualify_and_quote_column default_table_ref column_ref"

definition connector_sql :: "bool_connector \<Rightarrow> string" where
  "connector_sql c = (if c = Conn_or then '' OR '' else '' AND '')"

fun predicate_sql :: "string \<Rightarrow> 'd predicate \<Rightarrow> string \<times> 'd sql_param list"
  and append_predicates_sql :: "string \<Rightarrow> bool \<Rightarrow> 'd predicate list \<Rightarrow> string \<times> 'd sql_param list \<times> bool" where
  "predicate_sql base_ref (Predicate kind connector column op params raw_sql children) =
     (case kind of
        PK_binary \<Rightarrow> (render_column_ref column base_ref @ '' '' @ op @ '' ?'', params)
      | PK_in \<Rightarrow>
          if params = [] then
            (render_column_ref column base_ref @ '' '' @ (if op = [] then ''IN'' else op) @ '' (SELECT 1 WHERE 1=0)'', [])
          else
            (render_column_ref column base_ref @ '' '' @ (if op = [] then ''IN'' else op)
               @ '' ('' @ comma_list (map (\<lambda>_. ''?'') params) @ '')'', params)
      | PK_in_sql \<Rightarrow>
          (render_column_ref column base_ref @ '' '' @ (if op = [] then ''IN'' else op) @ '' ('' @ raw_sql @ '')'', [])
      | PK_between \<Rightarrow>
          (case params of low # high # _ \<Rightarrow> (render_column_ref column base_ref @ '' BETWEEN ? AND ?'', [low, high])
           | _ \<Rightarrow> (''1=0'', []))
      | PK_null_check \<Rightarrow> (render_column_ref column base_ref @ '' '' @ op, [])
      | PK_raw \<Rightarrow> (''('' @ raw_sql @ '')'', params)
      | PK_group \<Rightarrow>
          (case append_predicates_sql base_ref False children of
             (nested_sql, nested_params, has_any) \<Rightarrow>
               if has_any then (''('' @ nested_sql @ '')'', nested_params) else (''1=1'', [])))"
| "append_predicates_sql base_ref has_any [] = ([], [], has_any)"
| "append_predicates_sql base_ref has_any (p # ps) =
     (case predicate_sql base_ref p of
        (s, xs) \<Rightarrow>
          case append_predicates_sql base_ref True ps of
            (s', xs', any) \<Rightarrow> ((if has_any then connector_sql (p_connector p) else []) @ s @ s', xs @ xs', any))"

definition where_clause :: "string \<Rightarrow> 'd query \<Rightarrow> string \<times> 'd sql_param list" where
  "where_clause base_ref q =
     (if q_predicates q = [] then ([], [])
      else case append_predicates_sql base_ref False (q_predicates q) of
             (where_sql, params, has_any) \<Rightarrow> (if has_any then '' WHERE '' @ where_sql else [], params))"

definition join_sql :: "string \<Rightarrow> join_clause \<Rightarrow> string" where
  "join_sql base_ref join =
     '' '' @ (if jn_kind join = Join_inner then ''INNER JOIN '' else ''LEFT JOIN '') @ quote_ident (jn_table join)
     @ (if jn_alias join \<noteq> [] then '' AS '' @ quote_ident (jn_alias join) else []) @ '' ON ''
     @ (if jn_raw_on join then jn_on_raw join
        else let join_ref = (if jn_alias join = [] then jn_table join else jn_alias join) in
          render_column_ref (jn_left_ref join) base_ref @ '' = '' @ render_column_ref (jn_right_ref join) join_ref)"

fun having_sql :: "bool \<Rightarrow> 'd having_clause list \<Rightarrow> string" where
  "having_sql first [] = []"
| "having_sql first (h # hs) =
     (if first then [] else connector_sql (hv_connector h)) @ ''('' @ hv_sql h @ '')'' @ having_sql False hs"

definition build_select_plan :: "string \<Rightarrow> ('m, 'd) column_meta list \<Rightarrow> 'd query \<Rightarrow> 'd sql_plan" where
  "build_select_plan table columns q =
     (let base_ref = (case q_table_alias q of Some a \<Rightarrow> a | None \<Rightarrow> table);
          (where_sql, where_params) = where_clause base_ref q in
      \<lparr>sp_sql =
         ''SELECT '' @ comma_list (map (\<lambda>c. render_column_ref (cm_name c) base_ref @ '' AS '' @ quote_ident (cm_name c)) columns)
         @ '' FROM '' @ quote_ident table
         @ (case q_table_alias q of Some a \<Rightarrow> '' AS '' @ quote_ident a | None \<Rightarrow> [])
         @ concat (map (join_sql base_ref) (q_joins q))
         @ where_sql
         @ (if q_group_by_columns q \<noteq> [] then
              '' GROUP BY '' @ comma_list (map (\<lambda>c. render_column_ref c base_ref) (q_group_by_columns q)) else [])
         @ (if q_having_clauses q \<noteq> [] then '' HAVING '' @ having_sql True (q_having_clauses q) else [])
         @ (if q_orders q \<noteq> [] then
              '' ORDER BY '' @ comma_list (map (\<lambda>o'. render_column_ref (or_column o') base_ref
                                 @ (if or_ascending o' then '' ASC'' else '' DESC'')) (q_orders q)) else [])
         @ (case q_limit q of Some n \<Rightarrow> '' LIMIT '' @ dec_of_nat n | None \<Rightarrow> [])
         @ (case q_offset q of Some n \<Rightarrow> '' OFFSET '' @ dec_of_nat n | None \<Rightarrow> [])
         @ (if q_sql_tail q \<noteq> [] then '' '' @ q_sql_tail q else []),
       sp_params = where_params @ concat (map hv_params (q_having_clauses q))\<rparr>)"

section \<open>Placeholders and parameters\<close>

text \<open>
  The statements on which the scanner that counts placeholders and the database agree: a statement is read from left
  to right, outside of quotes, in a literal (behind a backslash or not), or in an identifier. A backquote outside of
  quotes and a backslash in an identifier are refused. A fragment \<open>fits\<close> \<open>n\<close> when it ends outside of quotes and has
  \<open>n\<close> placeholders, so fragments that fit can be put together in any order.
\<close>

datatype sql_scan = Scan_out | Scan_single | Scan_escape | Scan_double

definition scan_char :: "sql_scan \<Rightarrow> char \<Rightarrow> (sql_scan \<times> nat) option" where
  "scan_char st c =
     (case st of
        Scan_out \<Rightarrow>
          if c = CHR 0x60 then None else if c = SQUOTE then Some (Scan_single, 0) else if c = DQUOTE then Some (Scan_double, 0)
          else if c = CHR ''?'' then Some (Scan_out, 1) else Some (Scan_out, 0)
      | Scan_single \<Rightarrow> if c = BSLASH then Some (Scan_escape, 0) else if c = SQUOTE then Some (Scan_out, 0) else Some (Scan_single, 0)
      | Scan_escape \<Rightarrow> Some (Scan_single, 0)
      | Scan_double \<Rightarrow> if c = BSLASH then None else if c = DQUOTE then Some (Scan_out, 0) else Some (Scan_double, 0))"

fun scan_sql :: "sql_scan \<Rightarrow> string \<Rightarrow> (sql_scan \<times> nat) option" where
  "scan_sql st [] = Some (st, 0)"
| "scan_sql st (c # s) =
     (case scan_char st c of None \<Rightarrow> None | Some (st', n) \<Rightarrow> map_option (apsnd ((+) n)) (scan_sql st' s))"

definition fits :: "string \<Rightarrow> nat \<Rightarrow> bool" where
  "fits s n \<longleftrightarrow> scan_sql Scan_out s = Some (Scan_out, n)"

named_theorems fits_rules \<open>text that fits\<close>

lemma scan_append:
  "scan_sql st (s @ t) = (case scan_sql st s of None \<Rightarrow> None | Some (st', n) \<Rightarrow> map_option (apsnd ((+) n)) (scan_sql st' t))"
proof (induction s arbitrary: st)
  case (Cons c s)
  then show ?case
    by (auto simp: option.map_comp split: option.splits intro!: option.map_cong)
next
  case Nil
  have "apsnd ((+) 0) = (id :: sql_scan \<times> nat \<Rightarrow> _)" by (auto simp: fun_eq_iff)
  then show ?case by (simp add: option.map_id)
qed

lemma fits_append: "fits s m \<Longrightarrow> fits t n \<Longrightarrow> fits (s @ t) (m + n)"
  by (simp add: fits_def scan_append)

lemma fits_skip: "fits s 0 \<Longrightarrow> fits (s @ t) n \<longleftrightarrow> fits t n"
  by (auto simp: fits_def scan_append)

lemma fits_before: "fits s n \<Longrightarrow> fits t 0 \<Longrightarrow> fits (s @ t) n"
  using fits_append [of s n t 0] by simp

definition plain_char :: "char \<Rightarrow> bool" where
  "plain_char c \<longleftrightarrow> c \<notin> {SQUOTE, DQUOTE, BSLASH, CHR 0x60, CHR ''?''}"

abbreviation plain_name :: "string \<Rightarrow> bool" where
  "plain_name s \<equiv> list_all plain_char s"

text \<open>Text is read off from the left: constant text character by character, a part that fits none as a whole.\<close>

lemma fits_Nil [fits_rules]: "fits [] n \<longleftrightarrow> n = 0"
  by (auto simp: fits_def)

lemma fits_plain_Cons: "plain_char c \<Longrightarrow> fits (c # s) n \<longleftrightarrow> fits s n"
  by (auto simp: fits_def scan_char_def plain_char_def)

lemma fits_char [fits_rules]:
  "c \<noteq> SQUOTE \<Longrightarrow> c \<noteq> DQUOTE \<Longrightarrow> c \<noteq> CHR 0x60 \<Longrightarrow> c \<noteq> CHR ''?'' \<Longrightarrow> fits (c # s) n \<longleftrightarrow> fits s n"
  by (auto simp: fits_def scan_char_def)

lemma fits_param [fits_rules]: "fits (CHR ''?'' # s) (Suc n) \<longleftrightarrow> fits s n"
  by (auto simp: fits_def scan_char_def)

lemma fits_plain: "plain_name s \<Longrightarrow> fits s 0"
  by (induction s) (simp_all add: fits_Nil fits_plain_Cons)

lemma plain_dec: "plain_name (dec_of_nat n)"
  by (auto simp: list_all_iff plain_char_def isdigit_def dest: dec_of_nat_digits)

lemma fits_dec: "fits (dec_of_nat n) 0"
  by (rule fits_plain [OF plain_dec])

lemma scan_double: "BSLASH \<notin> set s \<Longrightarrow> scan_sql Scan_double (quote_chars s @ [DQUOTE]) = Some (Scan_out, 0)"
  by (induction s) (auto simp: scan_char_def)

lemma fits_quote_ident: "BSLASH \<notin> set s \<Longrightarrow> fits (quote_ident s) 0"
  by (simp add: fits_def quote_ident_def scan_char_def scan_double)

lemma scan_counts:
  "scan_sql st s = Some (st', n) \<Longrightarrow>
     count_loop (st = Scan_single \<or> st = Scan_escape) (st = Scan_double) False (st = Scan_escape) k s = k + n"
proof (induction s arbitrary: st k n)
  case (Cons c s)
  show ?case
    using Cons.prems Cons.IH [of Scan_out] Cons.IH [of Scan_single] Cons.IH [of Scan_escape] Cons.IH [of Scan_double]
    by (cases st) (auto simp: scan_char_def split: if_splits)
qed simp

lemma fits_count: "fits s n \<Longrightarrow> count_placeholders s = n"
  using scan_counts [of Scan_out s Scan_out n 0] by (simp add: fits_def count_placeholders_def)

lemma plain_no_backslash: "plain_name s \<Longrightarrow> BSLASH \<notin> set s"
  by (auto simp: list_all_iff plain_char_def)

lemma plain_parts: "plain_name ref \<Longrightarrow> plain_name (ref_token ref) \<and> plain_name (ref_rest ref)"
proof (induction ref)
  case (Cons c ref)
  then show ?case by (cases "c = CHR ''.''") simp_all
qed simp

lemma fits_quote_ref: "plain_name ref \<Longrightarrow> fits (quote_ref_loop first ref) 0"
proof (induction first ref rule: quote_ref_loop.induct)
  case (1 first ref)
  have "fits (quote_ident (ref_token ref)) 0"
    using 1 plain_parts [of ref] by (simp add: fits_quote_ident plain_no_backslash)
  with 1 plain_parts [of ref] show ?case
    by (subst quote_ref_loop.simps) (simp add: fits_rules fits_skip)
qed

lemma fits_quote_column: "plain_name ref \<Longrightarrow> fits (quote_column_ref ref) 0"
  by (auto simp: quote_column_ref_def fits_quote_ref fits_plain)

lemma fits_column: "plain_name col \<Longrightarrow> plain_name base \<Longrightarrow> fits (render_column_ref col base) 0"
proof -
  have "plain_char CHR ''.''" by (simp add: plain_char_def)
  then show "plain_name col \<Longrightarrow> plain_name base \<Longrightarrow> fits (render_column_ref col base) 0"
    by (simp add: render_column_ref_def qualify_and_quote_column_def fits_quote_column)
qed

lemmas fits_parts = fits_rules fits_skip fits_column fits_quote_ident fits_plain fits_dec plain_no_backslash

section \<open>Queries whose fragments fit\<close>

fun predicate_ok :: "'d predicate \<Rightarrow> bool" where
  "predicate_ok (Predicate kind connector column op params raw_sql children) \<longleftrightarrow>
     (case kind of
        PK_binary \<Rightarrow> plain_name column \<and> plain_name op \<and> length params = 1
      | PK_in \<Rightarrow> plain_name column \<and> plain_name op
      | PK_in_sql \<Rightarrow> plain_name column \<and> plain_name op \<and> fits raw_sql 0
      | PK_between \<Rightarrow> plain_name column
      | PK_null_check \<Rightarrow> plain_name column \<and> plain_name op
      | PK_raw \<Rightarrow> fits raw_sql (length params)
      | PK_group \<Rightarrow> list_all predicate_ok children)"

definition join_ok :: "join_clause \<Rightarrow> bool" where
  "join_ok join \<longleftrightarrow> plain_name (jn_table join) \<and> plain_name (jn_alias join) \<and> plain_name (jn_left_ref join)
     \<and> plain_name (jn_right_ref join) \<and> fits (jn_on_raw join) 0"

definition query_ok :: "'d query \<Rightarrow> bool" where
  "query_ok q \<longleftrightarrow> list_all predicate_ok (q_predicates q) \<and> list_all join_ok (q_joins q)
     \<and> list_all (\<lambda>o'. plain_name (or_column o')) (q_orders q) \<and> list_all plain_name (q_group_by_columns q)
     \<and> list_all (\<lambda>h. fits (hv_sql h) (length (hv_params h))) (q_having_clauses q)
     \<and> (\<forall>ty ref. q_joined_ref_by_type q ty = Some ref \<longrightarrow> plain_name ref)
     \<and> pred_option plain_name (q_table_alias q) \<and> fits (q_sql_tail q) 0"

lemma fits_qmarks: "fits (comma_list (map (\<lambda>_. ''?'') xs)) (length xs)"
proof (induction xs rule: induct_list012)
  case (3 x y xs)
  then show ?case by (simp add: fits_rules)
qed (simp_all add: fits_rules)

lemma fits_comma_list: "\<forall>x \<in> set xs. fits x 0 \<Longrightarrow> fits (comma_list xs) 0"
  by (induction xs rule: comma_list.induct) (simp_all add: fits_parts)

lemma fits_connector [fits_rules]: "fits (connector_sql c) 0" "fits (connector_sql c @ t) n \<longleftrightarrow> fits t n"
  by (simp_all add: connector_sql_def fits_rules)

lemma predicates_fit:
  "plain_name base \<Longrightarrow> predicate_ok p \<Longrightarrow> predicate_sql base p = (s, xs) \<Longrightarrow> fits s (length xs)"
  "plain_name base \<Longrightarrow> list_all predicate_ok ps \<Longrightarrow> append_predicates_sql base has_any ps = (s, xs, any) \<Longrightarrow> fits s (length xs)"
proof (induction base p and base has_any ps arbitrary: s xs and s xs any rule: predicate_sql_append_predicates_sql.induct)
  case (1 base kind connector column op params raw_sql children)
  show ?case
  proof (cases kind)
    case PK_in
    have "fits (comma_list (map (\<lambda>_. ''?'') params) @ '')'') (length params)"
      by (rule fits_before [OF fits_qmarks]) (simp add: fits_rules)
    with PK_in 1 show ?thesis by (auto simp: fits_parts split: if_splits)
  next
    case PK_raw
    with 1 show ?thesis by (auto simp: fits_parts intro!: fits_before)
  next
    case PK_group
    with 1 show ?thesis by (auto simp: fits_parts split: prod.splits if_splits intro!: fits_before)
  qed (use 1 in \<open>auto simp: fits_parts numeral_2_eq_2 split: list.splits if_splits\<close>)
next
  case (3 base has_any p ps)
  obtain t ys where p: "predicate_sql base p = (t, ys)" by force
  obtain t' ys' any' where ps: "append_predicates_sql base True ps = (t', ys', any')" by (metis prod_cases3)
  have "fits (t @ t') (length ys + length ys')" using 3 p ps by (intro fits_append) auto
  with 3 p ps show ?case by (auto simp: fits_rules)
qed (simp add: fits_rules)

lemma append_predicates_any:
  "append_predicates_sql base has_any ps = (s, xs, any) \<Longrightarrow> any \<longleftrightarrow> has_any \<or> ps \<noteq> []"
proof (induction ps arbitrary: has_any s xs any)
  case (Cons p ps)
  then show ?case by (fastforce split: prod.splits)
qed simp

lemma where_clause_fits:
  assumes "plain_name base" "list_all predicate_ok (q_predicates q)" "where_clause base q = (s, xs)"
  shows "fits s (length xs)"
  using assms predicates_fit(2) [OF assms(1,2), of False] append_predicates_any [of base False "q_predicates q"]
  by (auto simp: where_clause_def fits_parts split: if_splits prod.splits)

lemma having_fits:
  "list_all (\<lambda>h. fits (hv_sql h) (length (hv_params h))) hs \<Longrightarrow> fits (having_sql first hs) (length (concat (map hv_params hs)))"
proof (induction first hs rule: having_sql.induct)
  case (2 first h hs)
  have "fits (hv_sql h @ '')'' @ having_sql False hs) (length (hv_params h) + length (concat (map hv_params hs)))"
    using 2 by (intro fits_append) (simp_all add: fits_rules)
  then show ?case by (simp add: fits_rules)
qed (simp add: fits_rules)

lemma join_fits: "plain_name base \<Longrightarrow> join_ok join \<Longrightarrow> fits (join_sql base join) 0"
  by (simp add: join_ok_def join_sql_def fits_parts Let_def)

lemma fits_concat: "\<forall>x \<in> set xs. fits x 0 \<Longrightarrow> fits (concat xs) 0"
  by (induction xs) (simp_all add: fits_parts)

lemma fits_if: "fits (if b then s else t) n \<longleftrightarrow> (if b then fits s n else fits t n)"
  by simp

lemma select_plan_fits:
  assumes "plain_name table" "list_all (\<lambda>c. plain_name (cm_name c)) columns" "query_ok q"
  shows "fits (sp_sql (build_select_plan table columns q)) (length (sp_params (build_select_plan table columns q)))"
proof -
  define base where "base = (case q_table_alias q of Some a \<Rightarrow> a | None \<Rightarrow> table)"
  have base: "plain_name base" using assms by (cases "q_table_alias q") (auto simp: base_def query_ok_def)
  obtain ws wp where w: "where_clause base q = (ws, wp)" by force
  have q: "list_all predicate_ok (q_predicates q)" "list_all join_ok (q_joins q)"
    "list_all (\<lambda>o'. plain_name (or_column o')) (q_orders q)" "list_all plain_name (q_group_by_columns q)"
    "list_all (\<lambda>h. fits (hv_sql h) (length (hv_params h))) (q_having_clauses q)"
    "pred_option plain_name (q_table_alias q)" "fits (q_sql_tail q) 0"
    using assms(3) by (auto simp: query_ok_def)
  let ?cols = "comma_list (map (\<lambda>c. render_column_ref (cm_name c) base @ '' AS '' @ quote_ident (cm_name c)) columns)"
  let ?as = "case q_table_alias q of Some a \<Rightarrow> '' AS '' @ quote_ident a | None \<Rightarrow> []"
  let ?joins = "concat (map (join_sql base) (q_joins q))"
  let ?group = "if q_group_by_columns q \<noteq> [] then
    '' GROUP BY '' @ comma_list (map (\<lambda>c. render_column_ref c base) (q_group_by_columns q)) else []"
  let ?having = "if q_having_clauses q \<noteq> [] then '' HAVING '' @ having_sql True (q_having_clauses q) else []"
  let ?order = "if q_orders q \<noteq> [] then '' ORDER BY '' @ comma_list (map (\<lambda>o'. render_column_ref (or_column o') base
    @ (if or_ascending o' then '' ASC'' else '' DESC'')) (q_orders q)) else []"
  let ?limit = "case q_limit q of Some n \<Rightarrow> '' LIMIT '' @ dec_of_nat n | None \<Rightarrow> []"
  let ?offset = "case q_offset q of Some n \<Rightarrow> '' OFFSET '' @ dec_of_nat n | None \<Rightarrow> []"
  let ?tail = "if q_sql_tail q \<noteq> [] then '' '' @ q_sql_tail q else []"
  have f: "fits ?cols 0" "fits ?joins 0" "fits ?as 0" "fits ?group 0" "fits ?order 0" "fits ?limit 0" "fits ?offset 0" "fits ?tail 0"
    using assms(2) base q
    by (auto intro!: fits_comma_list fits_concat join_fits simp: fits_parts list_all_iff split: option.splits)
  have rest: "fits (?having @ ?order @ ?limit @ ?offset @ ?tail) (length (concat (map hv_params (q_having_clauses q))))"
    using having_fits [OF q(5), of True] f by (intro fits_before) (auto simp: fits_parts)
  have "fits (ws @ ?group @ ?having @ ?order @ ?limit @ ?offset @ ?tail)
      (length wp + length (concat (map hv_params (q_having_clauses q))))"
    using where_clause_fits [OF base q(1) w] rest f by (intro fits_append) (simp_all only: fits_skip)
  then show ?thesis
    using f assms(1) by (simp add: build_select_plan_def Let_def w fits_parts flip: base_def)
qed

section \<open>Chains whose fragments fit\<close>

definition model_type_ok :: "model_type \<Rightarrow> bool" where
  "model_type_ok mt \<longleftrightarrow> plain_name (mt_table mt) \<and> (\<forall>off c. mt_column mt off = Inr c \<longrightarrow> plain_name c)"

definition env_ok :: "model_env \<Rightarrow> bool" where
  "env_ok env \<longleftrightarrow> model_type_ok (me_own env) \<and> (\<forall>ty. model_type_ok (me_joined env ty))"

fun op_ok :: "'d query_op \<Rightarrow> bool" where
  "op_ok (Q_in_sql sel sql marked) \<longleftrightarrow> fits sql 0"
| "op_ok (Q_not_in_sql sel sql marked) \<longleftrightarrow> fits sql 0"
| "op_ok (Q_from_alias alias) \<longleftrightarrow> plain_name alias"
| "op_ok (Q_join_raw kind table on_sql alias marked) \<longleftrightarrow> plain_name table \<and> plain_name alias \<and> fits on_sql 0"
| "op_ok (Q_join kind joined l r alias) \<longleftrightarrow> plain_name alias"
| "op_ok (Q_having sql params) \<longleftrightarrow> fits sql (length params)"
| "op_ok (Q_and_group ops) \<longleftrightarrow> list_all op_ok ops"
| "op_ok (Q_nested ops) \<longleftrightarrow> list_all op_ok ops"
| "op_ok (Q_last sql_tail) \<longleftrightarrow> fits sql_tail 0"
| "op_ok (Q_where_raw sql params marked) \<longleftrightarrow> fits sql (length params)"
| "op_ok _ \<longleftrightarrow> True"

text \<open>The values a call hands over, for the conditions on rows and for those on groups.\<close>

fun where_values :: "'d query_op \<Rightarrow> 'd sql_param list" where
  "where_values (Q_eq sel v) = [v]"
| "where_values (Q_ne sel v) = [v]"
| "where_values (Q_gt sel v) = [v]"
| "where_values (Q_ge sel v) = [v]"
| "where_values (Q_lt sel v) = [v]"
| "where_values (Q_le sel v) = [v]"
| "where_values (Q_like sel p) = [SP_text (''%'' @ p @ ''%'')]"
| "where_values (Q_like_raw sel p) = [SP_text p]"
| "where_values (Q_not_like sel p) = [SP_text (''%'' @ p @ ''%'')]"
| "where_values (Q_like_left sel p) = [SP_text (''%'' @ p)]"
| "where_values (Q_like_right sel p) = [SP_text (p @ ''%'')]"
| "where_values (Q_in sel vs) = vs"
| "where_values (Q_not_in sel vs) = vs"
| "where_values (Q_between sel low high) = [low, high]"
| "where_values (Q_and_group ops) = concat (map where_values ops)"
| "where_values (Q_nested ops) = concat (map where_values ops)"
| "where_values (Q_where_raw sql params marked) = (if sql = [] then [] else params)"
| "where_values _ = []"

fun having_values :: "'d query_op \<Rightarrow> 'd sql_param list" where
  "having_values (Q_having sql params) = (if sql = [] then [] else params)"
| "having_values _ = []"

fun pred_values :: "'d predicate \<Rightarrow> 'd sql_param list" where
  "pred_values (Predicate kind connector column op params raw_sql children) =
     (case kind of PK_in_sql \<Rightarrow> [] | PK_null_check \<Rightarrow> [] | PK_group \<Rightarrow> concat (map pred_values children)
      | PK_between \<Rightarrow> (case params of low # high # _ \<Rightarrow> [low, high] | _ \<Rightarrow> []) | _ \<Rightarrow> params)"

lemma predicates_values:
  "predicate_sql base p = (s, xs) \<Longrightarrow> xs = pred_values p"
  "append_predicates_sql base has_any ps = (s, xs, any) \<Longrightarrow> xs = concat (map pred_values ps)"
proof (induction base p and base has_any ps arbitrary: s xs and s xs any rule: predicate_sql_append_predicates_sql.induct)
  case (1 base kind connector column op params raw_sql children)
  then show ?case
    by (cases kind) (auto split: if_splits prod.splits list.splits dest: append_predicates_any)
next
  case (3 base has_any p ps)
  then show ?case by (auto split: prod.splits)
qed simp

lemma select_plan_params:
  "sp_params (build_select_plan table columns q) =
     concat (map pred_values (q_predicates q)) @ concat (map hv_params (q_having_clauses q))"
  by (auto simp: build_select_plan_def where_clause_def Let_def split: prod.splits option.splits dest: predicates_values(2))

lemmas query_defs = add_binary_def add_in_def add_between_def add_null_check_def consume_next_connector_def
  push_predicate_def Let_def

lemma with_column_Inr:
  assumes "with_column env sel q f = Inr q'" "env_ok env" "query_ok q"
  obtains c where "plain_name c" "f c = Inr q'"
proof -
  from assms(1) obtain c where c: "resolve_selector env sel q = Inr c" "f c = Inr q'"
    by (auto simp: with_column_def split: sum.splits)
  have "plain_char CHR ''.''" by (simp add: plain_char_def)
  then have "plain_name c" using c(1) assms(2,3)
    by (fastforce simp: resolve_selector_def resolve_member_column_ref_for_def resolve_join_ref_def env_ok_def model_type_ok_def
        query_ok_def split: selector.splits sum.splits option.splits if_splits)
  with c that show ?thesis by blast
qed

text \<open>One call: the query stays well-formed and takes up the call's values.\<close>

definition grows :: "'d query \<Rightarrow> 'd sql_param list \<Rightarrow> 'd sql_param list \<Rightarrow> 'd query \<Rightarrow> bool" where
  "grows q ws hs q' \<longleftrightarrow> query_ok q'
     \<and> concat (map pred_values (q_predicates q')) = concat (map pred_values (q_predicates q)) @ ws
     \<and> concat (map hv_params (q_having_clauses q')) = concat (map hv_params (q_having_clauses q)) @ hs"

lemma grows_trans: "grows q ws hs q1 \<Longrightarrow> grows q1 ws' hs' q2 \<Longrightarrow> grows q (ws @ ws') (hs @ hs') q2"
  by (simp add: grows_def)

lemma grows_predicate:
  "query_ok q \<Longrightarrow> predicate_ok p \<Longrightarrow> grows q (pred_values p) [] (push_predicate p (q\<lparr>q_next_connector := c\<rparr>))"
  by (simp add: grows_def query_ok_def push_predicate_def)

lemma plain_ops:
  "plain_name ''=''" "plain_name ''!=''" "plain_name ''>''" "plain_name ''>=''" "plain_name ''<''" "plain_name ''<=''"
  "plain_name ''LIKE''" "plain_name ''NOT LIKE''" "plain_name ''IS NULL''" "plain_name ''IS NOT NULL''" "plain_name ''IN''"
  "plain_name ''NOT IN''"
  by (simp_all add: plain_char_def)

lemma grows_simple:
  assumes "query_ok q" "plain_name c"
  shows "plain_name op \<Longrightarrow> grows q [v] [] (add_binary c op v q)" "plain_name op \<Longrightarrow> grows q vs [] (add_in c vs op q)"
    "grows q [v, w] [] (add_between c v w q)" "plain_name op \<Longrightarrow> grows q [] [] (add_null_check c op q)"
  using assms grows_predicate [OF assms(1), of "Predicate PK_binary _ c op [v] [] []" Conn_and]
    grows_predicate [OF assms(1), of "Predicate PK_in _ c op vs [] []" Conn_and]
    grows_predicate [OF assms(1), of "Predicate PK_between _ c [] [v, w] [] []" Conn_and]
    grows_predicate [OF assms(1), of "Predicate PK_null_check _ c op [] [] []" Conn_and]
  by (simp_all add: add_binary_def add_in_def add_between_def add_null_check_def consume_next_connector_def)

lemma grows_in_sql:
  assumes "query_ok q" "plain_name c" "plain_name op" "fits sql 0" "add_in_sql g c sql op marked q = Inr q'"
  shows "grows q [] [] q'"
  using assms grows_predicate [OF assms(1), of "Predicate PK_in_sql (q_next_connector q) c op [] sql []" Conn_and]
  by (auto simp: add_in_sql_def consume_next_connector_def grows_def split: if_splits sum.splits)

lemma grows_where_raw:
  assumes "query_ok q" "fits sql (length ps)" "where_raw g sql ps marked q = Inr q'"
  shows "grows q (if sql = [] then [] else ps) [] q'"
  using assms grows_predicate [OF assms(1), of "Predicate PK_raw (q_next_connector q) [] [] ps sql []" Conn_and]
  by (auto simp: where_raw_def consume_next_connector_def grows_def split: if_splits sum.splits)

lemma grows_join:
  assumes "query_ok q" "env_ok env"
  shows "add_join_raw g kind table on_sql alias marked q = Inr q' \<Longrightarrow> plain_name table \<Longrightarrow> plain_name alias \<Longrightarrow> fits on_sql 0
      \<Longrightarrow> grows q [] [] q'"
    and "add_typed_join env kind joined l r alias q = Inr q' \<Longrightarrow> plain_name alias \<Longrightarrow> grows q [] [] q'"
  using assms
  by (auto simp: add_join_raw_def add_typed_join_def add_join_def grows_def query_ok_def join_ok_def env_ok_def model_type_ok_def
      fits_rules Let_def split: if_splits sum.splits)

lemma nested_start_ok: "query_ok q \<Longrightarrow> query_ok (nested_start q)"
  by (simp add: nested_start_def query_ok_def empty_query_def fits_rules)

lemma grows_group:
  assumes "query_ok q" "grows (nested_start q0) ws hs nested_query"
  shows "grows q ws [] (append_group_predicate c nested_query q)"
  using assms grows_predicate [OF assms(1), of "Predicate PK_group c [] [] [] [] (q_predicates nested_query)" "q_next_connector q"]
  by (auto simp: append_group_predicate_def grows_def nested_start_def empty_query_def query_ok_def)

lemma column_case:
  assumes "with_column env sel q f = Inr q'" "env_ok env" "query_ok q"
    and "\<And>c. plain_name c \<Longrightarrow> f c = Inr q' \<Longrightarrow> grows q ws hs q'"
  shows "grows q ws hs q'"
  using assms by (blast elim: with_column_Inr)

lemma query_ok_connector [simp]: "query_ok (q\<lparr>q_next_connector := c\<rparr>) \<longleftrightarrow> query_ok q"
  by (simp add: query_ok_def)

lemma grows_connector [simp]: "grows (q\<lparr>q_next_connector := c\<rparr>) ws hs q' \<longleftrightarrow> grows q ws hs q'"
  by (simp add: grows_def)

lemma grows_order: "query_ok q \<Longrightarrow> plain_name c \<Longrightarrow>
    grows q [] [] (q\<lparr>q_orders := q_orders q @ [\<lparr>or_column = c, or_ascending = asc\<rparr>]\<rparr>)
    \<and> grows q [] [] (q\<lparr>q_group_by_columns := q_group_by_columns q @ [c]\<rparr>)"
  by (simp add: grows_def query_ok_def)

lemma grows_plain:
  "query_ok q \<Longrightarrow> plain_name a \<Longrightarrow> grows q [] [] (q\<lparr>q_table_alias := if a = [] then None else Some a\<rparr>)"
  "query_ok q \<Longrightarrow> grows q [] [] (q\<lparr>q_next_connector := c\<rparr>)"
  "query_ok q \<Longrightarrow> fits t 0 \<Longrightarrow> grows q [] [] (q\<lparr>q_sql_tail := t\<rparr>)"
  "query_ok q \<Longrightarrow> grows q [] [] (q\<lparr>q_limit := l\<rparr>)"
  "query_ok q \<Longrightarrow> grows q [] [] (q\<lparr>q_offset := l\<rparr>)"
  "query_ok q \<Longrightarrow> fits sql (length ps) \<Longrightarrow> grows q [] (if sql = [] then [] else ps) (having sql ps q)"
  by (simp_all add: grows_def query_ok_def having_def consume_next_connector_def)

lemma flat_grows:
  assumes "env_ok env" "op_ok op" "query_ok q" "apply_op g env op q = Inr q'" "\<forall>ops. op \<noteq> Q_and_group ops \<and> op \<noteq> Q_nested ops"
  shows "grows q (where_values op) (having_values op) q'"
proof (cases op)
  case (Q_in_sql sel sql marked)
  with assms have w: "with_column env sel q (\<lambda>c. add_in_sql g c sql ''IN'' marked q) = Inr q'" "fits sql 0" by simp_all
  have "grows q [] [] q'"
    by (rule column_case [OF w(1) assms(1,3)], rule grows_in_sql [OF assms(3) _ _ w(2)], assumption, rule plain_ops, assumption)
  with Q_in_sql show ?thesis by simp
next
  case (Q_not_in_sql sel sql marked)
  with assms have w: "with_column env sel q (\<lambda>c. add_in_sql g c sql ''NOT IN'' marked q) = Inr q'" "fits sql 0" by simp_all
  have "grows q [] [] q'"
    by (rule column_case [OF w(1) assms(1,3)], rule grows_in_sql [OF assms(3) _ _ w(2)], assumption, rule plain_ops, assumption)
  with Q_not_in_sql show ?thesis by simp
next
  case (Q_join_raw kind table on_sql al marked)
  with assms show ?thesis by (auto intro: grows_join(1))
next
  case (Q_join kind joined l r al)
  with assms show ?thesis by (auto intro: grows_join(2))
next
  case (Q_where_raw sql params marked)
  with assms grows_where_raw [of q sql params g marked q'] show ?thesis by simp
next
  case (Q_order_by sel asc)
  with assms show ?thesis by (auto elim!: column_case dest: grows_order)
next
  case (Q_group_by sel)
  with assms show ?thesis by (auto elim!: column_case dest: grows_order)
next
  case (Q_having sql params)
  with assms grows_plain(6) [of q sql params] show ?thesis by simp
qed (use assms in \<open>auto elim!: column_case intro!: grows_simple grows_plain simp: plain_char_def\<close>)

lemma op_grows:
  "env_ok env \<Longrightarrow> op_ok op \<Longrightarrow> query_ok q \<Longrightarrow> apply_op g env op q = Inr q' \<Longrightarrow>
     grows q (where_values op) (having_values op) q'"
  "env_ok env \<Longrightarrow> list_all op_ok ops \<Longrightarrow> query_ok q \<Longrightarrow> apply_ops g env ops q = Inr q' \<Longrightarrow>
     grows q (concat (map where_values ops)) (concat (map having_values ops)) q'"
proof (induction g env op q and g env ops q arbitrary: q' and q' rule: apply_op_apply_ops.induct)
  case (27 g env ops q)
  then obtain nested_query where "apply_ops g env ops (nested_start q) = Inr nested_query"
    "q' = append_group_predicate Conn_and nested_query q" by (auto split: sum.splits)
  with 27 show ?case by (auto intro!: grows_group simp: nested_start_ok)
next
  case (28 g env ops q)
  let ?q = "q\<lparr>q_next_connector := Conn_and\<rparr>"
  from 28 obtain nested_query where n: "apply_ops g env ops (nested_start ?q) = Inr nested_query"
    "q' = append_group_predicate (q_next_connector q) nested_query ?q"
    by (auto simp: consume_next_connector_def split: sum.splits)
  with 28 have "grows (nested_start ?q) (concat (map where_values ops)) (concat (map having_values ops)) nested_query"
    by (auto simp: nested_start_ok consume_next_connector_def)
  with 28 n grows_group [of ?q ?q _ _ nested_query "q_next_connector q"] show ?case by simp
next
  case (34 g env op ops q)
  then obtain q1 where q1: "apply_op g env op q = Inr q1" "apply_ops g env ops q1 = Inr q'" by (auto split: sum.splits)
  with 34 have a: "grows q (where_values op) (having_values op) q1" by simp
  then have "query_ok q1" by (simp add: grows_def)
  with 34 q1 have "grows q1 (concat (map where_values ops)) (concat (map having_values ops)) q'" by simp
  from grows_trans [OF a this] show ?case by simp
qed (rule flat_grows; simp; fail | simp add: grows_def)+



section \<open>The policy on raw fragments\<close>

text \<open>The fragments of a chain that pass through the policy, with their marks; empty ones are dropped before it.\<close>

fun guarded_fragments :: "'d query_op \<Rightarrow> (string \<times> bool) list" where
  "guarded_fragments (Q_in_sql sel sql marked) = (if sql = [] then [] else [(sql, marked)])"
| "guarded_fragments (Q_not_in_sql sel sql marked) = (if sql = [] then [] else [(sql, marked)])"
| "guarded_fragments (Q_join_raw kind table on_sql alias marked) = [(on_sql, marked)]"
| "guarded_fragments (Q_where_raw sql params marked) = (if sql = [] then [] else [(sql, marked)])"
| "guarded_fragments (Q_and_group ops) = concat (map guarded_fragments ops)"
| "guarded_fragments (Q_nested ops) = concat (map guarded_fragments ops)"
| "guarded_fragments _ = []"

lemma marked_ops:
  "rg_policy g = Require_unsafe_marker \<Longrightarrow> apply_op g env op q = Inr q' \<Longrightarrow> list_all snd (guarded_fragments op)"
  "rg_policy g = Require_unsafe_marker \<Longrightarrow> apply_ops g env ops q = Inr q' \<Longrightarrow> list_all snd (concat (map guarded_fragments ops))"
proof (induction g env op q and g env ops q arbitrary: q' and q' rule: apply_op_apply_ops.induct)
  case (34 g env op ops q)
  then show ?case by (auto split: sum.splits)
qed (auto simp: with_column_def add_in_sql_def where_raw_def add_join_raw_def validate_raw_sql_def consume_next_connector_def
     split: sum.splits if_splits)

text \<open>
  Under the strict policy a chain that goes through carries only marked fragments, at any depth of
  nesting, in conditions, subqueries and joins.\<close>

theorem strict_policy_marks_fragments:
  assumes "rg_policy g = Require_unsafe_marker" and "apply_ops g env ops q = Inr q'"
  shows "list_all snd (concat (map guarded_fragments ops))"
  using marked_ops(2) [OF assms] .

theorem strict_policy_marks_fragments_witness:
  "list_all snd (concat (map guarded_fragments [Q_nested [Q_where_raw ''a'' [] True :: nat query_op]]))"
proof -
  let ?g = "set_raw_sql_policy Require_unsafe_marker initial_raw_sql_guard"
  let ?env = "\<lparr>me_own = \<lparr>mt_table = [], mt_column = \<lambda>off. Inr []\<rparr>, me_joined = \<lambda>ty. \<lparr>mt_table = [], mt_column = \<lambda>off. Inr []\<rparr>\<rparr>"
  have "rg_policy ?g = Require_unsafe_marker" by (simp add: set_raw_sql_policy_def)
  moreover obtain q' where "apply_ops ?g ?env [Q_nested [Q_where_raw ''a'' [] True]] (empty_query :: nat query) = Inr q'"
    by (simp add: where_raw_def validate_raw_sql_def set_raw_sql_policy_def initial_raw_sql_guard_def consume_next_connector_def)
  ultimately show ?thesis by (rule strict_policy_marks_fragments)
qed

text \<open>Conditions on groups and the tail of the statement are raw text too, and the policy is not asked.\<close>

theorem having_and_last_unguarded:
  "\<exists>q1. apply_ops g env [Q_having sql params, Q_last sql] q = Inr q1 \<and> q_sql_tail q1 = sql"
  by (auto simp: having_def consume_next_connector_def)

text \<open>A group that follows \<open>or_()\<close> is joined with \<open>AND\<close> when it is made by \<open>and_\<close>, and the pending connector goes to the
  next condition instead; \<open>nested\<close> takes it.\<close>

theorem and_group_leaves_connector:
  assumes "apply_ops g env ops (nested_start q) = Inr nq" "q_predicates nq \<noteq> []"
  shows "\<exists>q1. apply_ops g env [Q_or, Q_and_group ops] q = Inr q1 \<and> p_connector (last (q_predicates q1)) = Conn_and
      \<and> q_next_connector q1 = Conn_or"
    and "\<exists>q2. apply_ops g env [Q_or, Q_nested ops] q = Inr q2 \<and> p_connector (last (q_predicates q2)) = Conn_or
      \<and> q_next_connector q2 = Conn_and"
  using assms
  by (auto simp: append_group_predicate_def push_predicate_def consume_next_connector_def nested_start_def)

end
