(* ===== verification/Orm_Tx.thy ===== *)
theory Orm_Tx
  imports Orm_Query
begin

text \<open>
  Transactions of the object mapper (\<open>Mapper::tx\<close> in \<open>layer3/include/async_uv_layer3/orm.hpp\<close>).

  The connection is a parameter: \<open>te_run\<close> executes one statement with its parameters and an optional timeout, and says
  what became of it. A statement returns, throws, or is stopped: when a deadline passes, \<open>exec::when_any\<close> asks the body
  to stop, and a coroutine (\<open>exec::basic_task\<close>) that awaits something stopped is unwound without running its handlers.
  \<open>Stopped n\<close> is such an unwinding on its way to the deadline that asked for it, with \<open>n\<close> other deadlines before it.
  \<open>te_expires\<close> tells whether a deadline passed before the body was over, even though the body completed.

  The body of a transaction is the list of the operations it performs on the mapper; \<open>T_attempt\<close> is a part whose
  exceptions it catches.
\<close>

section \<open>State\<close>

datatype tx_propagation = Tx_required | Tx_nested | Tx_requires_new

datatype tx_isolation = Iso_default_level | Iso_read_uncommitted | Iso_read_committed | Iso_repeatable_read | Iso_serializable

record tx_options =
  to_propagation :: tx_propagation
  to_isolation :: tx_isolation
  to_read_only :: bool
  to_timeout_ms :: int

definition default_tx_options :: tx_options where
  "default_tx_options = \<lparr>to_propagation = Tx_required, to_isolation = Iso_default_level, to_read_only = False, to_timeout_ms = 0\<rparr>"

record tx_frame =
  tf_savepoint :: "string option"
  tf_rollback_only :: bool
  tf_timeout_ms :: int
  tf_sqlite_query_only_enabled :: bool
  tf_sqlite_read_uncommitted_enabled :: bool

definition new_tx_frame :: "int \<Rightarrow> tx_frame" where
  "new_tx_frame timeout_ms = \<lparr>tf_savepoint = None, tf_rollback_only = False, tf_timeout_ms = timeout_ms,
     tf_sqlite_query_only_enabled = False, tf_sqlite_read_uncommitted_enabled = False\<rparr>"

datatype tx_exn = Orm_error string | Timed_out | Other_error string

datatype tx_out = Ret | Exc tx_exn | Stopped nat

text \<open>The connection with the state the mappers on it share (\<open>TxState\<close>); the innermost frame is the last.\<close>

record 'db tx_world =
  tw_db :: 'db
  tw_frames :: "tx_frame list"
  tw_savepoint_seq :: nat

record ('db, 'd) tx_env =
  te_driver :: sql_driver
  te_file :: string
  te_run :: "'db \<Rightarrow> string \<Rightarrow> 'd sql_param list \<Rightarrow> int option \<Rightarrow> 'db \<times> tx_out"
  te_expires :: "'db \<Rightarrow> int \<Rightarrow> bool"
  te_open :: "'db \<Rightarrow> 'db \<times> tx_out"
  te_close :: "'db \<Rightarrow> 'db \<Rightarrow> 'db \<times> tx_out"

definition in_transaction :: "'db tx_world \<Rightarrow> bool" where
  "in_transaction w \<longleftrightarrow> tw_frames w \<noteq> []"

definition rollback_only :: "'db tx_world \<Rightarrow> bool" where
  "rollback_only w \<longleftrightarrow> in_transaction w \<and> tf_rollback_only (last (tw_frames w))"

definition mark_back :: "'db tx_world \<Rightarrow> 'db tx_world" where
  "mark_back w = w\<lparr>tw_frames := butlast (tw_frames w) @ [(last (tw_frames w))\<lparr>tf_rollback_only := True\<rparr>]\<rparr>"

definition set_rollback_only :: "'db tx_world \<Rightarrow> 'db tx_world \<times> tx_out" where
  "set_rollback_only w =
     (if \<not> in_transaction w then (w, Exc (Orm_error ''set_rollback_only requires an active transaction''))
      else (mark_back w, Ret))"

section \<open>Statements\<close>

definition current_tx_timeout_ms :: "'db tx_world \<Rightarrow> int option" where
  "current_tx_timeout_ms w =
     (if \<not> in_transaction w then None
      else let timeout_ms = tf_timeout_ms (last (tw_frames w)) in if timeout_ms \<le> 0 then None else Some timeout_ms)"

definition run_on :: "('db, 'd) tx_env \<Rightarrow> string \<Rightarrow> 'd sql_param list \<Rightarrow> int option \<Rightarrow> 'db tx_world \<Rightarrow> 'db tx_world \<times> tx_out" where
  "run_on env sql params timeout w = (case te_run env (tw_db w) sql params timeout of (db, r) \<Rightarrow> (w\<lparr>tw_db := db\<rparr>, r))"

definition execute_sql :: "('db, 'd) tx_env \<Rightarrow> string \<Rightarrow> 'd sql_param list \<Rightarrow> 'db tx_world \<Rightarrow> 'db tx_world \<times> tx_out" where
  "execute_sql env sql params w = run_on env sql params (current_tx_timeout_ms w) w"

definition execute_sql_with_timeout :: "('db, 'd) tx_env \<Rightarrow> string \<Rightarrow> int \<Rightarrow> 'db tx_world \<Rightarrow> 'db tx_world \<times> tx_out" where
  "execute_sql_with_timeout env sql timeout_ms w = run_on env sql [] (if timeout_ms > 0 then Some timeout_ms else None) w"

text \<open>One after the other, as long as they return; and a part whose exceptions are swallowed.\<close>

definition and_then :: "'db tx_world \<times> tx_out \<Rightarrow> ('db tx_world \<Rightarrow> 'db tx_world \<times> tx_out) \<Rightarrow> 'db tx_world \<times> tx_out" where
  "and_then r f = (case r of (w, Ret) \<Rightarrow> f w | _ \<Rightarrow> r)"

definition swallow :: "'db tx_world \<times> tx_out \<Rightarrow> 'db tx_world \<times> tx_out" where
  "swallow r = (case r of (w, Exc _) \<Rightarrow> (w, Ret) | _ \<Rightarrow> r)"

section \<open>The options of a root transaction\<close>

primrec isolation_sql :: "tx_isolation \<Rightarrow> string" where
  "isolation_sql Iso_default_level = []"
| "isolation_sql Iso_read_uncommitted = ''READ UNCOMMITTED''"
| "isolation_sql Iso_read_committed = ''READ COMMITTED''"
| "isolation_sql Iso_repeatable_read = ''REPEATABLE READ''"
| "isolation_sql Iso_serializable = ''SERIALIZABLE''"

text \<open>The frame is an output: what was switched on stays recorded in it when a later statement throws.\<close>

definition apply_sqlite_options ::
  "('db, 'd) tx_env \<Rightarrow> tx_options \<Rightarrow> tx_frame \<Rightarrow> 'db tx_world \<Rightarrow> tx_frame \<times> 'db tx_world \<times> tx_out" where
  "apply_sqlite_options env options frame w =
     (let (w1, r1) = (if to_read_only options
                      then execute_sql_with_timeout env ''PRAGMA query_only = ON'' (tf_timeout_ms frame) w else (w, Ret));
          frame1 = (if to_read_only options \<and> r1 = Ret then frame\<lparr>tf_sqlite_query_only_enabled := True\<rparr> else frame) in
      if r1 \<noteq> Ret then (frame1, w1, r1)
      else case to_isolation options of
        Iso_default_level \<Rightarrow> (frame1, w1, Ret)
      | Iso_serializable \<Rightarrow> (frame1, w1, Ret)
      | Iso_read_uncommitted \<Rightarrow>
          let (w2, r2) = execute_sql_with_timeout env ''PRAGMA read_uncommitted = 1'' (tf_timeout_ms frame) w1 in
          (if r2 = Ret then frame1\<lparr>tf_sqlite_read_uncommitted_enabled := True\<rparr> else frame1, w2, r2)
      | _ \<Rightarrow> (frame1, w1, Exc (Orm_error ''sqlite does not support requested transaction isolation level'')))"

definition apply_server_options :: "('db, 'd) tx_env \<Rightarrow> tx_options \<Rightarrow> tx_frame \<Rightarrow> 'db tx_world \<Rightarrow> 'db tx_world \<times> tx_out" where
  "apply_server_options env options frame w =
     and_then
       (if to_isolation options \<noteq> Iso_default_level then
          let iso = isolation_sql (to_isolation options) in
          if iso = [] then (w, Exc (Orm_error ''invalid transaction isolation level''))
          else execute_sql_with_timeout env (''SET TRANSACTION ISOLATION LEVEL '' @ iso) (tf_timeout_ms frame) w
        else (w, Ret))
       (\<lambda>w1. if to_read_only options
             then execute_sql_with_timeout env ''SET TRANSACTION READ ONLY'' (tf_timeout_ms frame) w1 else (w1, Ret))"

definition apply_root_tx_options ::
  "('db, 'd) tx_env \<Rightarrow> tx_options \<Rightarrow> tx_frame \<Rightarrow> 'db tx_world \<Rightarrow> tx_frame \<times> 'db tx_world \<times> tx_out" where
  "apply_root_tx_options env options frame w =
     (if \<not> to_read_only options \<and> to_isolation options = Iso_default_level then (frame, w, Ret)
      else if te_driver env = Driver_sqlite then apply_sqlite_options env options frame w
      else (frame, apply_server_options env options frame w))"

definition restore_root_tx_options :: "('db, 'd) tx_env \<Rightarrow> tx_frame \<Rightarrow> 'db tx_world \<Rightarrow> 'db tx_world \<times> tx_out" where
  "restore_root_tx_options env frame w =
     (if \<not> tf_sqlite_query_only_enabled frame \<and> \<not> tf_sqlite_read_uncommitted_enabled frame then (w, Ret)
      else if te_driver env \<noteq> Driver_sqlite then (w, Ret)
      else and_then
        (if tf_sqlite_query_only_enabled frame
         then execute_sql_with_timeout env ''PRAGMA query_only = OFF'' (tf_timeout_ms frame) w else (w, Ret))
        (\<lambda>w1. if tf_sqlite_read_uncommitted_enabled frame
              then execute_sql_with_timeout env ''PRAGMA read_uncommitted = 0'' (tf_timeout_ms frame) w1 else (w1, Ret)))"

section \<open>A transaction\<close>

definition begin_root :: "('db, 'd) tx_env \<Rightarrow> tx_options \<Rightarrow> int \<Rightarrow> 'db tx_world \<Rightarrow> 'db tx_world \<times> tx_out" where
  "begin_root env options effective_timeout_ms w =
     (let frame = new_tx_frame effective_timeout_ms;
          (w1, r1) = execute_sql_with_timeout env ''BEGIN'' (tf_timeout_ms frame) w in
      case r1 of
        Stopped n \<Rightarrow> (w1, Stopped n)
      | Exc e \<Rightarrow> and_then (swallow (restore_root_tx_options env frame w1)) (\<lambda>w2. (w2, Exc e))
      | Ret \<Rightarrow>
          case apply_root_tx_options env options frame w1 of
            (frame', w2, Ret) \<Rightarrow> (w2\<lparr>tw_frames := tw_frames w2 @ [frame']\<rparr>, Ret)
          | (frame', w2, Exc e) \<Rightarrow>
              and_then (swallow (execute_sql_with_timeout env ''ROLLBACK'' (tf_timeout_ms frame') w2))
                (\<lambda>w3. and_then (swallow (restore_root_tx_options env frame' w3)) (\<lambda>w4. (w4, Exc e)))
          | (frame', w2, Stopped n) \<Rightarrow> (w2, Stopped n))"

definition savepoint_name :: "nat \<Rightarrow> string" where
  "savepoint_name n = ''sp_'' @ dec_of_nat n"

definition open_savepoint :: "('db, 'd) tx_env \<Rightarrow> int \<Rightarrow> 'db tx_world \<Rightarrow> 'db tx_world \<times> tx_out" where
  "open_savepoint env effective_timeout_ms w =
     (let seq = tw_savepoint_seq w + 1;
          frame = (new_tx_frame effective_timeout_ms)\<lparr>tf_savepoint := Some (savepoint_name seq)\<rparr> in
      and_then
        (execute_sql_with_timeout env (''SAVEPOINT '' @ quote_ident (savepoint_name seq)) (tf_timeout_ms frame)
           (w\<lparr>tw_savepoint_seq := seq\<rparr>))
        (\<lambda>w1. (w1\<lparr>tw_frames := tw_frames w1 @ [frame]\<rparr>, Ret)))"

definition finalize_boundary :: "('db, 'd) tx_env \<Rightarrow> tx_frame \<Rightarrow> 'db tx_world \<Rightarrow> 'db tx_world \<times> tx_out" where
  "finalize_boundary env frame w =
     (case tf_savepoint frame of
        None \<Rightarrow>
          and_then (execute_sql_with_timeout env (if tf_rollback_only frame then ''ROLLBACK'' else ''COMMIT'') (tf_timeout_ms frame) w)
            (restore_root_tx_options env frame)
      | Some sp \<Rightarrow>
          if tf_rollback_only frame then
            and_then (execute_sql_with_timeout env (''ROLLBACK TO SAVEPOINT '' @ quote_ident sp) (tf_timeout_ms frame) w)
              (execute_sql_with_timeout env (''RELEASE SAVEPOINT '' @ quote_ident sp) (tf_timeout_ms frame))
          else execute_sql_with_timeout env (''RELEASE SAVEPOINT '' @ quote_ident sp) (tf_timeout_ms frame) w)"

text \<open>\<open>with_timeout\<close> of \<open>flux/cancel.h\<close>, when the timeout is positive.\<close>

definition with_tx_timeout ::
  "('db, 'd) tx_env \<Rightarrow> int \<Rightarrow> ('db tx_world \<Rightarrow> 'db tx_world \<times> tx_out) \<Rightarrow> 'db tx_world \<Rightarrow> 'db tx_world \<times> tx_out" where
  "with_tx_timeout env timeout_ms body w =
     (if timeout_ms \<le> 0 then body w
      else case body w of
        (w', Stopped 0) \<Rightarrow> (w', Exc Timed_out)
      | (w', Stopped (Suc n)) \<Rightarrow> (w', Stopped n)
      | (w', r) \<Rightarrow> if te_expires env (tw_db w') timeout_ms then (w', Exc Timed_out) else (w', r))"

definition body_error :: "tx_exn \<Rightarrow> tx_exn" where
  "body_error e = (if e = Timed_out then Orm_error ''transaction timeout'' else e)"

text \<open>What comes after the body, when it was not stopped: \<open>failure\<close> is its exception.\<close>

definition close_boundary ::
  "('db, 'd) tx_env \<Rightarrow> bool \<Rightarrow> tx_exn option \<Rightarrow> 'db tx_world \<Rightarrow> 'db tx_world \<times> tx_out" where
  "close_boundary env opened failure w =
     (let w1 = (if failure \<noteq> None \<and> tw_frames w \<noteq> [] then mark_back w else w);
          (w2, r2, boundary_rollback) =
            (if opened \<and> tw_frames w1 \<noteq> [] then
               (let frame = last (tw_frames w1);
                    (w', r') = finalize_boundary env frame (w1\<lparr>tw_frames := butlast (tw_frames w1)\<rparr>) in
                (w', r', tf_rollback_only frame))
             else (w1, Ret, False)) in
      case r2 of
        Ret \<Rightarrow>
          (case failure of Some e \<Rightarrow> (w2, Exc (body_error e))
           | None \<Rightarrow> (w2, if boundary_rollback then Exc (Orm_error ''transaction marked rollback_only'') else Ret))
      | _ \<Rightarrow> (w2, r2))"

definition creates_savepoint :: "tx_options \<Rightarrow> 'db tx_world \<Rightarrow> bool" where
  "creates_savepoint options w \<longleftrightarrow> tw_frames w \<noteq> [] \<and> to_propagation options = Tx_nested"

definition effective_timeout :: "tx_options \<Rightarrow> 'db tx_world \<Rightarrow> int" where
  "effective_timeout options w =
     (let inherited_timeout = (if tw_frames w = [] then 0 else tf_timeout_ms (last (tw_frames w))) in
      if to_timeout_ms options > 0 then to_timeout_ms options else if creates_savepoint options w then inherited_timeout else 0)"

definition boundary_opened :: "tx_options \<Rightarrow> 'db tx_world \<Rightarrow> bool" where
  "boundary_opened options w \<longleftrightarrow> tw_frames w = [] \<or> creates_savepoint options w"

definition open_boundary :: "('db, 'd) tx_env \<Rightarrow> tx_options \<Rightarrow> 'db tx_world \<Rightarrow> 'db tx_world \<times> tx_out" where
  "open_boundary env options w =
     (if tw_frames w = [] then begin_root env options (effective_timeout options w) w
      else if creates_savepoint options w then open_savepoint env (effective_timeout options w) w else (w, Ret))"

definition tx_local ::
  "('db, 'd) tx_env \<Rightarrow> tx_options \<Rightarrow> ('db tx_world \<Rightarrow> 'db tx_world \<times> tx_out) \<Rightarrow> 'db tx_world \<Rightarrow> 'db tx_world \<times> tx_out" where
  "tx_local env options body w =
     (if to_propagation options = Tx_requires_new then
        (w, Exc (Orm_error ''requires_new is not allowed in local tx context''))
      else if tw_frames w \<noteq> [] \<and> (to_read_only options \<or> to_isolation options \<noteq> Iso_default_level) then
        (w, Exc (Orm_error ''cannot override isolation/read_only inside existing transaction; use requires_new''))
      else
        let body_timeout_ms = (if boundary_opened options w then effective_timeout options w else to_timeout_ms options) in
        and_then (open_boundary env options w)
          (\<lambda>w1. case with_tx_timeout env body_timeout_ms body w1 of
              (w2, Stopped n) \<Rightarrow> (w2, Stopped n)
            | (w2, Exc e) \<Rightarrow> close_boundary env (boundary_opened options w) (Some e) w2
            | (w2, Ret) \<Rightarrow> close_boundary env (boundary_opened options w) None w2))"

definition tx_requires_new ::
  "('db, 'd) tx_env \<Rightarrow> tx_options \<Rightarrow> ('db tx_world \<Rightarrow> 'db tx_world \<times> tx_out) \<Rightarrow> 'db tx_world \<Rightarrow> 'db tx_world \<times> tx_out" where
  "tx_requires_new env options body w =
     (if te_driver env = Driver_sqlite \<and> (te_file env = [] \<or> te_file env = '':memory:'') then
        (w, Exc (Orm_error ''requires_new needs a file-backed sqlite connection''))
      else case te_open env (tw_db w) of
        (isolated, Ret) \<Rightarrow>
          (case tx_local env (options\<lparr>to_propagation := Tx_required\<rparr>) body
                  \<lparr>tw_db = isolated, tw_frames = [], tw_savepoint_seq = 0\<rparr> of
             (wi, op_result) \<Rightarrow>
               case te_close env (tw_db w) (tw_db wi) of
                 (db, close_result) \<Rightarrow> (w\<lparr>tw_db := db\<rparr>, if op_result = Ret then close_result else op_result))
      | (isolated, r) \<Rightarrow> (w, r))"

definition mapper_tx ::
  "('db, 'd) tx_env \<Rightarrow> tx_options \<Rightarrow> ('db tx_world \<Rightarrow> 'db tx_world \<times> tx_out) \<Rightarrow> 'db tx_world \<Rightarrow> 'db tx_world \<times> tx_out" where
  "mapper_tx env options body w =
     (if to_propagation options = Tx_requires_new then tx_requires_new env options body w else tx_local env options body w)"

section \<open>Programs\<close>

datatype 'd tx_op =
    T_stmt "'d sql_plan"
  | T_mark_rollback
  | T_raise tx_exn
  | T_attempt "'d tx_op list"
  | T_tx tx_options "'d tx_op list"
  | T_ensure_tx "'d tx_op list"

fun exec_op :: "('db, 'd) tx_env \<Rightarrow> 'd tx_op \<Rightarrow> 'db tx_world \<Rightarrow> 'db tx_world \<times> tx_out"
  and exec_ops :: "('db, 'd) tx_env \<Rightarrow> 'd tx_op list \<Rightarrow> 'db tx_world \<Rightarrow> 'db tx_world \<times> tx_out" where
  "exec_op env (T_stmt plan) w = execute_sql env (sp_sql plan) (sp_params plan) w"
| "exec_op env T_mark_rollback w = set_rollback_only w"
| "exec_op env (T_raise e) w = (w, Exc e)"
| "exec_op env (T_attempt ops) w = swallow (exec_ops env ops w)"
| "exec_op env (T_tx options ops) w = mapper_tx env options (\<lambda>w'. exec_ops env ops w') w"
| "exec_op env (T_ensure_tx ops) w =
     (if in_transaction w then exec_ops env ops w
      else mapper_tx env default_tx_options (\<lambda>w'. exec_ops env ops w') w)"
| "exec_ops env [] w = (w, Ret)"
| "exec_ops env (op # ops) w = and_then (exec_op env op w) (\<lambda>w'. exec_ops env ops w')"

section \<open>Frames stay balanced\<close>

text \<open>A connection on which no statement is stopped.\<close>

definition never_stops :: "('db, 'd) tx_env \<Rightarrow> bool" where
  "never_stops env \<longleftrightarrow> (\<forall>db sql params timeout n. snd (te_run env db sql params timeout) \<noteq> Stopped n)"

fun local_op :: "'d tx_op \<Rightarrow> bool" where
  "local_op (T_attempt ops) \<longleftrightarrow> list_all local_op ops"
| "local_op (T_tx options ops) \<longleftrightarrow> to_propagation options \<noteq> Tx_requires_new \<and> list_all local_op ops"
| "local_op (T_ensure_tx ops) \<longleftrightarrow> list_all local_op ops"
| "local_op _ \<longleftrightarrow> True"

abbreviation quiet :: "tx_out \<Rightarrow> bool" where
  "quiet r \<equiv> \<forall>n. r \<noteq> Stopped n"

lemma quiet_cases: "quiet r \<Longrightarrow> (r = Ret \<Longrightarrow> P) \<Longrightarrow> (\<And>e. r = Exc e \<Longrightarrow> P) \<Longrightarrow> P"
  by (cases r) auto

text \<open>What a part leaves alone: the frames and the counter.\<close>

definition calm :: "'db tx_world \<Rightarrow> 'db tx_world \<times> tx_out \<Rightarrow> bool" where
  "calm w r \<longleftrightarrow> tw_frames (fst r) = tw_frames w \<and> tw_savepoint_seq (fst r) = tw_savepoint_seq w \<and> quiet (snd r)"

lemma calm_refl [intro]: "quiet r \<Longrightarrow> calm w (w, r)"
  by (simp add: calm_def)

lemma calm_run: "never_stops env \<Longrightarrow> calm w (execute_sql_with_timeout env sql t w)" "never_stops env \<Longrightarrow> calm w (execute_sql env sql ps w)"
  by (auto simp: calm_def execute_sql_with_timeout_def execute_sql_def run_on_def never_stops_def split: prod.splits) (metis snd_conv)+

lemma calm_run_eq: "never_stops env \<Longrightarrow> execute_sql_with_timeout env sql t w = (w', r) \<Longrightarrow> calm w (w', r)"
  by (metis calm_run(1))

lemma calm_then: "calm w r \<Longrightarrow> (\<And>w1. calm w (w1, Ret) \<Longrightarrow> calm w1 (f w1)) \<Longrightarrow> calm w (and_then r f)"
  by (cases r) (fastforce simp: calm_def and_then_def split: tx_out.splits)

lemma calm_swallow: "calm w r \<Longrightarrow> calm w (swallow r)"
  by (cases r) (auto simp: calm_def swallow_def split: tx_out.splits)

lemma swallow_then: "calm w r \<Longrightarrow> and_then (swallow r) f = f (fst r)"
  by (cases r) (auto simp: calm_def and_then_def swallow_def split: tx_out.splits)

lemma calm_restore: "never_stops env \<Longrightarrow> calm w (restore_root_tx_options env frame w)"
  by (auto simp: restore_root_tx_options_def intro!: calm_then calm_run)

lemma calm_finalize: "never_stops env \<Longrightarrow> calm w (finalize_boundary env frame w)"
  by (auto simp: finalize_boundary_def split: option.splits intro!: calm_then calm_run calm_restore)

lemma calm_server_options: "never_stops env \<Longrightarrow> calm w (apply_server_options env options frame w)"
  by (auto simp: apply_server_options_def Let_def intro!: calm_then calm_run)

lemma calm_sqlite_options:
  assumes "never_stops env" "apply_sqlite_options env options frame w = (frame', w', r)"
  shows "calm w (w', r) \<and> tf_savepoint frame' = tf_savepoint frame \<and> tf_rollback_only frame' = tf_rollback_only frame"
proof -
  obtain w1 r1 where 1: "(if to_read_only options
      then execute_sql_with_timeout env ''PRAGMA query_only = ON'' (tf_timeout_ms frame) w else (w, Ret)) = (w1, r1)" by force
  have c1: "calm w (w1, r1)" using 1 by (auto split: if_splits intro: calm_run_eq [OF assms(1)])
  obtain w2 r2 where 2: "execute_sql_with_timeout env ''PRAGMA read_uncommitted = 1'' (tf_timeout_ms frame) w1 = (w2, r2)" by force
  have "calm w1 (w2, r2)" using 2 by (rule calm_run_eq [OF assms(1)])
  with c1 assms(2) show ?thesis
    unfolding apply_sqlite_options_def 1 by (auto simp: 2 Let_def calm_def split: tx_isolation.splits if_splits)
qed

lemma calm_options:
  assumes "never_stops env" "apply_root_tx_options env options frame w = (frame', w', r)"
  shows "calm w (w', r) \<and> tf_savepoint frame' = tf_savepoint frame \<and> tf_rollback_only frame' = tf_rollback_only frame"
  using assms calm_sqlite_options [of env options frame w frame' w' r] calm_server_options [of env w options frame]
  by (auto simp: apply_root_tx_options_def calm_refl split: if_splits)

text \<open>The frames after a part of a body: the same, except that the innermost may have been marked.\<close>

definition frames_kept :: "'db tx_world \<Rightarrow> 'db tx_world \<Rightarrow> bool" where
  "frames_kept w w' \<longleftrightarrow> (tw_frames w' = tw_frames w \<or> tw_frames w \<noteq> [] \<and> tw_frames w' = tw_frames (mark_back w))
     \<and> tw_savepoint_seq w \<le> tw_savepoint_seq w'"

lemma frames_kept_refl [simp]: "frames_kept w w"
  by (simp add: frames_kept_def)

lemma frames_kept_trans: "frames_kept w w1 \<Longrightarrow> frames_kept w1 w2 \<Longrightarrow> frames_kept w w2"
  by (auto simp: frames_kept_def mark_back_def)

lemma frames_kept_calm: "calm w (w', r) \<Longrightarrow> frames_kept w w'"
  by (simp add: calm_def frames_kept_def)

lemma begin_root_frames:
  assumes "never_stops env" "begin_root env options t w = (w', r)"
  shows "quiet r \<and> tw_savepoint_seq w' = tw_savepoint_seq w
    \<and> (if r = Ret then \<exists>f. tw_frames w' = tw_frames w @ [f] \<and> tf_savepoint f = None \<and> \<not> tf_rollback_only f
       else tw_frames w' = tw_frames w)"
proof -
  let ?f = "new_tx_frame t"
  obtain w1 r1 where 1: "execute_sql_with_timeout env ''BEGIN'' (tf_timeout_ms ?f) w = (w1, r1)" by force
  obtain f2 w2 r2 where 2: "apply_root_tx_options env options ?f w1 = (f2, w2, r2)" by (metis prod_cases3)
  have c: "calm w (w1, r1)" "calm w1 (w2, r2)" "tf_savepoint f2 = None" "\<not> tf_rollback_only f2"
    using calm_run_eq [OF assms(1) 1] calm_options [OF assms(1) 2] by (simp_all add: new_tx_frame_def)
  note sw = swallow_then [OF calm_restore [OF assms(1)]] swallow_then [OF calm_run(1) [OF assms(1)]]
  have k: "tw_frames (fst (restore_root_tx_options env f u)) = tw_frames u"
    "tw_savepoint_seq (fst (restore_root_tx_options env f u)) = tw_savepoint_seq u"
    "tw_frames (fst (execute_sql_with_timeout env sql ms u)) = tw_frames u"
    "tw_savepoint_seq (fst (execute_sql_with_timeout env sql ms u)) = tw_savepoint_seq u" for f u sql ms
    using calm_restore [OF assms(1)] calm_run(1) [OF assms(1)] by (auto simp: calm_def)
  from assms(2) c show ?thesis
    by (auto simp: begin_root_def Let_def 1 2 sw k calm_def split: tx_out.splits)
qed

lemma open_savepoint_frames:
  assumes "never_stops env" "open_savepoint env t w = (w', r)"
  shows "quiet r \<and> tw_savepoint_seq w' = tw_savepoint_seq w + 1
    \<and> (if r = Ret then \<exists>f. tw_frames w' = tw_frames w @ [f] \<and> tf_savepoint f = Some (savepoint_name (tw_savepoint_seq w + 1))
         \<and> \<not> tf_rollback_only f else tw_frames w' = tw_frames w)"
proof -
  let ?w = "w\<lparr>tw_savepoint_seq := tw_savepoint_seq w + 1\<rparr>"
  obtain w1 r1 where 1: "execute_sql_with_timeout env (''SAVEPOINT '' @ quote_ident (savepoint_name (tw_savepoint_seq w + 1))) t ?w
      = (w1, r1)" by force
  from calm_run_eq [OF assms(1) 1] assms(2) show ?thesis
    by (auto simp: open_savepoint_def Let_def new_tx_frame_def 1 [simplified] and_then_def calm_def split: tx_out.splits)
qed

lemma timeout_quiet:
  assumes "quiet (snd (body w))"
  obtains r where "with_tx_timeout env t body w = (fst (body w), r)" "r = snd (body w) \<or> r = Exc Timed_out"
proof -
  obtain w' r' where b: "body w = (w', r')" by force
  with assms show ?thesis
    using that [of "if t \<le> 0 then r' else if te_expires env (tw_db w') t then Exc Timed_out else r'"]
    by (auto simp: with_tx_timeout_def split: tx_out.splits)
qed

lemma close_boundary_frames:
  assumes "never_stops env" "close_boundary env True failure w = (w', r)" "tw_frames w = F @ [f]"
  shows "tw_frames w' = F \<and> tw_savepoint_seq w' = tw_savepoint_seq w \<and> quiet r"
proof -
  define f' where "f' = (if failure = None then f else f\<lparr>tf_rollback_only := True\<rparr>)"
  obtain w2 r2 where 2: "finalize_boundary env f' (w\<lparr>tw_frames := F\<rparr>) = (w2, r2)" by force
  have "calm (w\<lparr>tw_frames := F\<rparr>) (w2, r2)" using calm_finalize [OF assms(1)] 2 by metis
  with assms(2,3) 2 show ?thesis
    by (auto simp: close_boundary_def Let_def mark_back_def f'_def calm_def split: if_splits tx_out.splits option.splits prod.splits)
qed

lemma close_joined_frames:
  assumes "close_boundary env False failure w = (w', r)" "tw_frames w \<noteq> []"
  shows "w' = (if failure = None then w else mark_back w)" "r = (case failure of None \<Rightarrow> Ret | Some e \<Rightarrow> Exc (body_error e))"
  using assms by (auto simp: close_boundary_def Let_def split: option.splits)

definition failure_of :: "tx_out \<Rightarrow> tx_exn option" where
  "failure_of r = (case r of Exc e \<Rightarrow> Some e | _ \<Rightarrow> None)"

lemma tx_local_cases [consumes 2, case_names refused not_opened ran]:
  assumes "tx_local env options body w = (w', r)" "\<forall>u. quiet (snd (body u))"
  obtains (refused) m where "w' = w" "r = Exc (Orm_error m)"
      "to_propagation options = Tx_requires_new \<or> to_read_only options \<or> to_isolation options \<noteq> Iso_default_level"
  | (not_opened) "open_boundary env options w = (w', r)" "r \<noteq> Ret"
  | (ran) w1 rb where "open_boundary env options w = (w1, Ret)" "rb = snd (body w1) \<or> rb = Exc Timed_out" "quiet rb"
      "close_boundary env (boundary_opened options w) (failure_of rb) (fst (body w1)) = (w', r)"
      "to_propagation options \<noteq> Tx_requires_new"
proof -
  let ?t = "if boundary_opened options w then effective_timeout options w else to_timeout_ms options"
  obtain w1 r1 where 1: "open_boundary env options w = (w1, r1)" by force
  obtain rb where rb: "with_tx_timeout env ?t body w1 = (fst (body w1), rb)" "rb = snd (body w1) \<or> rb = Exc Timed_out"
    using timeout_quiet [of body w1 env ?t] assms(2) by metis
  from rb(2) assms(2) have "quiet rb" by (metis tx_out.distinct(5))
  with assms(1) 1 rb refused not_opened [of] ran [of w1 rb] show thesis
    by (auto simp: tx_local_def Let_def and_then_def failure_of_def split: if_splits tx_out.splits)
qed

lemma open_boundary_frames:
  assumes "never_stops env" "open_boundary env options w = (w1, r1)"
  shows "quiet r1 \<and> tw_savepoint_seq w \<le> tw_savepoint_seq w1
    \<and> (if r1 = Ret \<and> boundary_opened options w then \<exists>f. tw_frames w1 = tw_frames w @ [f] else tw_frames w1 = tw_frames w)"
  using assms begin_root_frames [OF assms(1), of options "effective_timeout options w" w w1 r1]
    open_savepoint_frames [OF assms(1), of "effective_timeout options w" w w1 r1]
  by (auto simp: open_boundary_def boundary_opened_def split: if_splits)

lemma tx_local_frames:
  assumes "never_stops env" "tx_local env options body w = (w', r)"
    and body: "\<And>u. frames_kept u (fst (body u)) \<and> quiet (snd (body u))"
  shows "frames_kept w w' \<and> quiet r"
proof -
  have "\<forall>u. quiet (snd (body u))" using body by blast
  with assms(2) show ?thesis
  proof (cases rule: tx_local_cases)
    case (ran w1 rb)
    note o = open_boundary_frames [OF assms(1) ran(1)]
    have k: "frames_kept w1 (fst (body w1))" using body by blast
    show ?thesis
    proof (cases "boundary_opened options w")
      case True
      with o obtain f where "tw_frames w1 = tw_frames w @ [f]" by auto
      with k obtain f' where "tw_frames (fst (body w1)) = tw_frames w @ [f']" by (auto simp: frames_kept_def mark_back_def)
      from close_boundary_frames [OF assms(1) _ this] ran(4) True o k show ?thesis by (auto simp: frames_kept_def)
    next
      case False
      then have "tw_frames w \<noteq> []" by (simp add: boundary_opened_def)
      moreover from False ran(1) have "w1 = w" by (simp add: open_boundary_def boundary_opened_def)
      ultimately have "tw_frames (fst (body w1)) \<noteq> []" using k by (auto simp: frames_kept_def mark_back_def)
      from close_joined_frames [OF ran(4) [unfolded False[THEN Eq_FalseI]] this] k \<open>w1 = w\<close> \<open>tw_frames w \<noteq> []\<close>
      have "frames_kept (fst (body w1)) w'" "quiet r"
        by (auto simp: frames_kept_def mark_back_def split: option.splits)
      with k \<open>w1 = w\<close> show ?thesis by (auto intro: frames_kept_trans)
    qed
  next
    case not_opened
    from open_boundary_frames [OF assms(1) not_opened(1)] not_opened(2) show ?thesis by (auto simp: frames_kept_def)
  qed simp_all
qed

lemma and_then_frames:
  assumes "frames_kept w (fst r) \<and> quiet (snd r)" "\<And>u. frames_kept u (fst (f u)) \<and> quiet (snd (f u))"
  shows "frames_kept w (fst (and_then r f)) \<and> quiet (snd (and_then r f))"
  using assms by (cases r) (auto simp: and_then_def split: tx_out.splits intro: frames_kept_trans)

lemma tx_frames:
  assumes "never_stops env" "to_propagation options \<noteq> Tx_requires_new"
    and "\<And>u. frames_kept u (fst (body u)) \<and> quiet (snd (body u))"
  shows "frames_kept w (fst (mapper_tx env options body w)) \<and> quiet (snd (mapper_tx env options body w))"
  using tx_local_frames [OF assms(1), of options body w] assms(2,3) by (simp add: mapper_tx_def) (metis prod.collapse)

lemma exec_frames:
  "never_stops env \<Longrightarrow> local_op op \<Longrightarrow> frames_kept w (fst (exec_op env op w)) \<and> quiet (snd (exec_op env op w))"
  "never_stops env \<Longrightarrow> list_all local_op ops \<Longrightarrow> frames_kept w (fst (exec_ops env ops w)) \<and> quiet (snd (exec_ops env ops w))"
proof (induction env op w and env ops w rule: exec_op_exec_ops.induct)
  case (1 env plan w)
  then show ?case using calm_run(2) [of env w] by (auto simp: calm_def frames_kept_def)
next
  case (2 env w)
  then show ?case by (auto simp: set_rollback_only_def in_transaction_def frames_kept_def mark_back_def)
next
  case (4 env ops w)
  then show ?case by (cases "exec_ops env ops w") (auto simp: swallow_def split: tx_out.splits)
next
  case (5 env options ops w)
  then show ?case using tx_frames [of env options "\<lambda>w'. exec_ops env ops w'"] by simp
next
  case (6 env ops w)
  then show ?case using tx_frames [of env default_tx_options "\<lambda>w'. exec_ops env ops w'"]
    by (simp add: default_tx_options_def)
next
  case (8 env op ops w)
  then show ?case using and_then_frames [of w "exec_op env op w" "\<lambda>w'. exec_ops env ops w'"] by simp
qed simp_all


section \<open>What the database promises\<close>

text \<open>
  The view of a connection that the documentation of the databases speaks of: the data it sees, the snapshots to which it
  can go back, innermost first (the last one, with no name, is the start of the transaction), and whether an error has
  made the transaction useless until it is rolled back (PostgreSQL). The effect of each statement the mapper issues, and
  what may be left when such a statement fails: nothing happened, or the transaction is over and undone. A statement of
  the program proper leaves the snapshots alone, whatever it does to the data.
\<close>

record 'x tx_view =
  tv_data :: 'x
  tv_stack :: "(string option \<times> 'x) list"
  tv_aborted :: bool

datatype tx_ctl = C_begin | C_commit | C_rollback | C_savepoint string | C_rollback_to string | C_release string | C_setting string

primrec ctl_sql :: "tx_ctl \<Rightarrow> string" where
  "ctl_sql C_begin = ''BEGIN''"
| "ctl_sql C_commit = ''COMMIT''"
| "ctl_sql C_rollback = ''ROLLBACK''"
| "ctl_sql (C_savepoint sp) = ''SAVEPOINT '' @ quote_ident sp"
| "ctl_sql (C_rollback_to sp) = ''ROLLBACK TO SAVEPOINT '' @ quote_ident sp"
| "ctl_sql (C_release sp) = ''RELEASE SAVEPOINT '' @ quote_ident sp"
| "ctl_sql (C_setting sql) = sql"

definition setting_statements :: "string list" where
  "setting_statements = [''PRAGMA query_only = ON'', ''PRAGMA query_only = OFF'', ''PRAGMA read_uncommitted = 1'',
     ''PRAGMA read_uncommitted = 0'', ''SET TRANSACTION READ ONLY'']
     @ map (\<lambda>iso. ''SET TRANSACTION ISOLATION LEVEL '' @ isolation_sql iso)
         [Iso_read_uncommitted, Iso_read_committed, Iso_repeatable_read, Iso_serializable]"

definition rolled_back :: "'x tx_view \<Rightarrow> 'x tx_view" where
  "rolled_back v =
     (if tv_stack v = [] then v else v\<lparr>tv_data := snd (last (tv_stack v)), tv_stack := [], tv_aborted := False\<rparr>)"

primrec ctl_effect :: "tx_ctl \<Rightarrow> 'x tx_view \<Rightarrow> 'x tx_view" where
  "ctl_effect C_begin v = v\<lparr>tv_stack := [(None, tv_data v)], tv_aborted := False\<rparr>"
| "ctl_effect C_rollback v = rolled_back v"
| "ctl_effect C_commit v = (if tv_aborted v then rolled_back v else v\<lparr>tv_stack := []\<rparr>)"
| "ctl_effect (C_savepoint sp) v = v\<lparr>tv_stack := (Some sp, tv_data v) # tv_stack v\<rparr>"
| "ctl_effect (C_rollback_to sp) v =
     (case dropWhile (\<lambda>s. fst s \<noteq> Some sp) (tv_stack v) of [] \<Rightarrow> v
      | s # rest \<Rightarrow> v\<lparr>tv_data := snd s, tv_stack := s # rest, tv_aborted := False\<rparr>)"
| "ctl_effect (C_release sp) v =
     (case dropWhile (\<lambda>s. fst s \<noteq> Some sp) (tv_stack v) of [] \<Rightarrow> v | s # rest \<Rightarrow> v\<lparr>tv_stack := rest\<rparr>)"
| "ctl_effect (C_setting sql) v = v"

definition same_tx :: "'x tx_view \<Rightarrow> 'x tx_view \<Rightarrow> bool" where
  "same_tx v v' \<longleftrightarrow> tv_data v' = tv_data v \<and> tv_stack v' = tv_stack v"

definition ctl_failed :: "tx_ctl \<Rightarrow> 'x tx_view \<Rightarrow> 'x tx_view \<Rightarrow> bool" where
  "ctl_failed c v v' \<longleftrightarrow> same_tx v v' \<or> c \<in> {C_commit, C_rollback} \<and> same_tx (rolled_back v) v'"

definition ctl_applies :: "tx_ctl \<Rightarrow> 'x tx_view \<Rightarrow> bool" where
  "ctl_applies c v \<longleftrightarrow>
     (case c of C_begin \<Rightarrow> tv_stack v = [] | C_setting sql \<Rightarrow> sql \<in> set setting_statements | _ \<Rightarrow> True)"

definition tx_laws :: "('db, 'd) tx_env \<Rightarrow> ('db \<Rightarrow> 'x tx_view) \<Rightarrow> ('d sql_plan \<Rightarrow> bool) \<Rightarrow> bool" where
  "tx_laws env view ordinary \<longleftrightarrow>
     (\<forall>db c t db' r. te_run env db (ctl_sql c) [] t = (db', r) \<and> ctl_applies c (view db) \<longrightarrow>
        (if r = Ret then view db' = ctl_effect c (view db) else ctl_failed c (view db) (view db')))
   \<and> (\<forall>db plan t db' r. te_run env db (sp_sql plan) (sp_params plan) t = (db', r) \<and> ordinary plan \<longrightarrow>
        tv_stack (view db') = tv_stack (view db))"

fun ordinary_op :: "('d sql_plan \<Rightarrow> bool) \<Rightarrow> 'd tx_op \<Rightarrow> bool" where
  "ordinary_op ordinary (T_stmt plan) \<longleftrightarrow> ordinary plan"
| "ordinary_op ordinary (T_attempt ops) \<longleftrightarrow> list_all (ordinary_op ordinary) ops"
| "ordinary_op ordinary (T_tx options ops) \<longleftrightarrow> to_propagation options \<noteq> Tx_requires_new \<and> list_all (ordinary_op ordinary) ops"
| "ordinary_op ordinary (T_ensure_tx ops) \<longleftrightarrow> list_all (ordinary_op ordinary) ops"
| "ordinary_op ordinary _ \<longleftrightarrow> True"

lemma ordinary_local: "ordinary_op ordinary op \<Longrightarrow> local_op op"
proof (induction op)
  case (T_attempt ops)
  then show ?case by (auto simp: list_all_iff)
next
  case (T_tx options ops)
  then show ?case by (auto simp: list_all_iff)
next
  case (T_ensure_tx ops)
  then show ?case by (auto simp: list_all_iff)
qed simp_all

lemma ctl_run:
  assumes "tx_laws env view ordinary" "execute_sql_with_timeout env (ctl_sql c) t w = (w', r)" "ctl_applies c (view (tw_db w))"
  shows "r = Ret \<Longrightarrow> view (tw_db w') = ctl_effect c (view (tw_db w))"
    and "r \<noteq> Ret \<Longrightarrow> ctl_failed c (view (tw_db w)) (view (tw_db w'))"
proof -
  from assms(2) obtain T db' where e: "te_run env (tw_db w) (ctl_sql c) [] T = (db', r)" "w' = w\<lparr>tw_db := db'\<rparr>"
    by (auto simp: execute_sql_with_timeout_def run_on_def split: prod.splits)
  from assms(1,3) e(1) have
    "if r = Ret then view db' = ctl_effect c (view (tw_db w)) else ctl_failed c (view (tw_db w)) (view db')"
    unfolding tx_laws_def by blast
  with e(2) show "r = Ret \<Longrightarrow> view (tw_db w') = ctl_effect c (view (tw_db w))"
    "r \<noteq> Ret \<Longrightarrow> ctl_failed c (view (tw_db w)) (view (tw_db w'))" by simp_all
qed

lemma plan_run:
  assumes "tx_laws env view ordinary" "ordinary plan" "execute_sql env (sp_sql plan) (sp_params plan) w = (w', r)"
  shows "tv_stack (view (tw_db w')) = tv_stack (view (tw_db w))"
proof -
  from assms(3) obtain T db' where "te_run env (tw_db w) (sp_sql plan) (sp_params plan) T = (db', r)" "w' = w\<lparr>tw_db := db'\<rparr>"
    by (auto simp: execute_sql_def run_on_def split: prod.splits)
  with assms(1,2) show ?thesis unfolding tx_laws_def by simp blast
qed

section \<open>Savepoints\<close>

lemma savepoint_name_inject: "savepoint_name i = savepoint_name j \<longleftrightarrow> i = j"
  using render_base_inject [of 10 i j] by (simp add: savepoint_name_def)

definition above :: "nat \<Rightarrow> (string option \<times> 'x) list \<Rightarrow> bool" where
  "above n E \<longleftrightarrow> list_all (\<lambda>s. \<exists>j. n < j \<and> fst s = Some (savepoint_name j)) E"

lemma above_append [simp]: "above n (E @ F) \<longleftrightarrow> above n E \<and> above n F"
  by (simp add: above_def)

lemma above_mono: "above n E \<Longrightarrow> m \<le> n \<Longrightarrow> above m E"
  unfolding above_def list_all_iff by (meson le_less_trans)

lemma above_skip: "above n E \<Longrightarrow> dropWhile (\<lambda>s. fst s \<noteq> Some (savepoint_name n)) (E @ (Some (savepoint_name n), d) # S)
    = (Some (savepoint_name n), d) # S"
proof (induction E)
  case (Cons a E)
  then show ?case by (auto simp: above_def savepoint_name_inject)
qed simp

text \<open>Closing a savepoint: on success its snapshot is gone, on failure it may remain; what was undone is undone up to it.\<close>

lemma finalize_savepoint:
  assumes "tx_laws env view ordinary" "finalize_boundary env f w = (w', r)" "tf_savepoint f = Some (savepoint_name n)"
    and "tv_stack (view (tw_db w)) = E @ (Some (savepoint_name n), d) # S" "above n E"
  shows "r = Ret \<and> tv_stack (view (tw_db w')) = S
      \<and> tv_data (view (tw_db w')) = (if tf_rollback_only f then d else tv_data (view (tw_db w)))
    \<or> r \<noteq> Ret \<and> (\<exists>E'. tv_stack (view (tw_db w')) = E' @ (Some (savepoint_name n), d) # S \<and> above n E')"
proof (cases "tf_rollback_only f")
  case False
  then have "execute_sql_with_timeout env (ctl_sql (C_release (savepoint_name n))) (tf_timeout_ms f) w = (w', r)"
    using assms(2,3) by (simp add: finalize_boundary_def)
  from ctl_run [OF assms(1) this] assms(4,5) False show ?thesis
    by (cases "r = Ret") (auto simp: ctl_applies_def ctl_failed_def same_tx_def above_skip)
next
  case True
  obtain w1 r1 where 1: "execute_sql_with_timeout env (ctl_sql (C_rollback_to (savepoint_name n))) (tf_timeout_ms f) w = (w1, r1)"
    by force
  obtain w2 r2 where 2: "execute_sql_with_timeout env (ctl_sql (C_release (savepoint_name n))) (tf_timeout_ms f) w1 = (w2, r2)"
    by force
  from assms(2,3) True 1 2 have f: "(w', r) = (if r1 = Ret then (w2, r2) else (w1, r1))"
    by (auto simp: finalize_boundary_def and_then_def split: tx_out.splits)
  have above0: "above n []" by (simp add: above_def)
  show ?thesis
  proof (cases "r1 = Ret")
    case False
    with ctl_run(2) [OF assms(1) 1] f assms(4,5) show ?thesis by (auto simp: ctl_applies_def ctl_failed_def same_tx_def)
  next
    case r1: True
    then have v: "tv_stack (view (tw_db w1)) = (Some (savepoint_name n), d) # S" "tv_data (view (tw_db w1)) = d"
      using ctl_run(1) [OF assms(1) 1] assms(4,5) by (simp_all add: ctl_applies_def above_skip)
    show ?thesis
    proof (cases "r2 = Ret")
      case True
      with ctl_run(1) [OF assms(1) 2] v f r1 \<open>tf_rollback_only f\<close> show ?thesis by (simp add: ctl_applies_def)
    next
      case False
      with ctl_run(2) [OF assms(1) 2] v f r1 above0 show ?thesis by (auto simp: ctl_applies_def ctl_failed_def same_tx_def)
    qed
  qed
qed

abbreviation stack_of :: "('db \<Rightarrow> 'x tx_view) \<Rightarrow> 'db tx_world \<Rightarrow> (string option \<times> 'x) list" where
  "stack_of view w \<equiv> tv_stack (view (tw_db w))"

abbreviation data_of :: "('db \<Rightarrow> 'x tx_view) \<Rightarrow> 'db tx_world \<Rightarrow> 'x" where
  "data_of view w \<equiv> tv_data (view (tw_db w))"

definition stack_grows :: "('db \<Rightarrow> 'x tx_view) \<Rightarrow> 'db tx_world \<Rightarrow> 'db tx_world \<Rightarrow> bool" where
  "stack_grows view w w' \<longleftrightarrow> (\<exists>E. stack_of view w' = E @ stack_of view w \<and> above (tw_savepoint_seq w) E)"

lemma stack_grows_refl: "stack_of view w' = stack_of view w \<Longrightarrow> stack_grows view w w'"
  by (auto simp: stack_grows_def above_def)

lemma stack_grows_trans:
  "stack_grows view w w1 \<Longrightarrow> stack_grows view w1 w2 \<Longrightarrow> tw_savepoint_seq w \<le> tw_savepoint_seq w1 \<Longrightarrow> stack_grows view w w2"
  unfolding stack_grows_def by (metis above_append above_mono append.assoc)

lemma kept_snoc:
  assumes "frames_kept w1 w2" "tw_frames w1 = F @ [f]"
  obtains b where "tw_frames w2 = F @ [f\<lparr>tf_rollback_only := b\<rparr>]"
proof (cases "tw_frames w2 = tw_frames w1")
  case True
  with assms(2) have "tw_frames w2 = F @ [f\<lparr>tf_rollback_only := tf_rollback_only f\<rparr>]" by simp
  with that show ?thesis by blast
next
  case False
  with assms have "tw_frames w2 = F @ [f\<lparr>tf_rollback_only := True\<rparr>]" by (simp add: frames_kept_def mark_back_def)
  with that show ?thesis by blast
qed

lemma close_boundary_eq:
  assumes "close_boundary env True failure w = (w', r)" "tw_frames w = F @ [f]"
  obtains r2 b where "finalize_boundary env (f\<lparr>tf_rollback_only := b\<rparr>) (w\<lparr>tw_frames := F\<rparr>) = (w', r2)"
    "b \<longleftrightarrow> failure \<noteq> None \<or> tf_rollback_only f" "r2 \<noteq> Ret \<longrightarrow> r = r2" "r2 = Ret \<longrightarrow> (r \<noteq> Ret \<longleftrightarrow> b)"
proof -
  define b where "b \<longleftrightarrow> failure \<noteq> None \<or> tf_rollback_only f"
  have f': "f\<lparr>tf_rollback_only := b\<rparr> = (if failure = None then f else f\<lparr>tf_rollback_only := True\<rparr>)" by (simp add: b_def)
  obtain w2 r2 where 2: "finalize_boundary env (f\<lparr>tf_rollback_only := b\<rparr>) (w\<lparr>tw_frames := F\<rparr>) = (w2, r2)" by force
  with assms(1,2) have "w2 = w'" "r2 \<noteq> Ret \<longrightarrow> r = r2" "r2 = Ret \<longrightarrow> (r \<noteq> Ret \<longleftrightarrow> b)"
    by (auto simp: close_boundary_def Let_def mark_back_def f' b_def split: if_splits tx_out.splits option.splits prod.splits)
  with 2 that [of b r2] show ?thesis by (simp add: b_def)
qed

lemma close_kept:
  assumes "frames_kept w1 w2" "tw_frames w1 = F @ [f]" "close_boundary env True failure w2 = (w', r)"
  obtains r2 b where "finalize_boundary env (f\<lparr>tf_rollback_only := b\<rparr>) (w2\<lparr>tw_frames := F\<rparr>) = (w', r2)"
    "failure \<noteq> None \<longrightarrow> b" "r2 \<noteq> Ret \<longrightarrow> r = r2" "r2 = Ret \<longrightarrow> (r \<noteq> Ret \<longleftrightarrow> b)"
proof -
  obtain b0 where "tw_frames w2 = F @ [f\<lparr>tf_rollback_only := b0\<rparr>]" using kept_snoc [OF assms(1,2)] .
  from assms(3) this show ?thesis
  proof (rule close_boundary_eq)
    fix r2 b assume "finalize_boundary env (f\<lparr>tf_rollback_only := b0\<rparr>\<lparr>tf_rollback_only := b\<rparr>) (w2\<lparr>tw_frames := F\<rparr>) = (w', r2)"
      "b \<longleftrightarrow> failure \<noteq> None \<or> tf_rollback_only (f\<lparr>tf_rollback_only := b0\<rparr>)" "r2 \<noteq> Ret \<longrightarrow> r = r2" "r2 = Ret \<longrightarrow> (r \<noteq> Ret \<longleftrightarrow> b)"
    then show ?thesis using that [of b r2] by simp
  qed
qed

lemma tx_nested_effect:
  assumes laws: "tx_laws env view ordinary" "never_stops env"
    and tx: "tx_local env options body w = (w', r)" "creates_savepoint options w"
    and body: "\<And>u. frames_kept u (fst (body u)) \<and> quiet (snd (body u))" "\<And>u. tw_frames u \<noteq> [] \<Longrightarrow> stack_grows view u (fst (body u))"
  defines "n \<equiv> tw_savepoint_seq w + 1"
  shows "stack_of view w' = stack_of view w \<and> (r \<noteq> Ret \<longrightarrow> data_of view w' = data_of view w)
    \<or> r \<noteq> Ret \<and> (\<exists>E. stack_of view w' = E @ (Some (savepoint_name n), data_of view w) # stack_of view w \<and> above n E)"
proof -
  have "\<forall>u. quiet (snd (body u))" using body(1) by blast
  with tx(1) show ?thesis
  proof (cases rule: tx_local_cases)
    case not_opened
    obtain w1 r1 where 1: "execute_sql_with_timeout env (ctl_sql (C_savepoint (savepoint_name n))) (effective_timeout options w)
        (w\<lparr>tw_savepoint_seq := n\<rparr>) = (w1, r1)" by force
    with not_opened tx(2) have "r1 \<noteq> Ret" "w' = w1"
      by (auto simp: open_boundary_def open_savepoint_def creates_savepoint_def new_tx_frame_def and_then_def n_def Let_def split: tx_out.splits)
    with ctl_run(2) [OF laws(1) 1] show ?thesis by (simp add: ctl_applies_def ctl_failed_def same_tx_def)
  next
    case (ran w1 rb)
    obtain w0 r0 where 0: "execute_sql_with_timeout env (ctl_sql (C_savepoint (savepoint_name n))) (effective_timeout options w)
        (w\<lparr>tw_savepoint_seq := n\<rparr>) = (w0, r0)" by force
    define f where "f = (new_tx_frame (effective_timeout options w))\<lparr>tf_savepoint := Some (savepoint_name n)\<rparr>"
    from 0 ran(1) tx(2) have o: "r0 = Ret" "w1 = w0\<lparr>tw_frames := tw_frames w0 @ [f]\<rparr>"
      by (auto simp: open_boundary_def open_savepoint_def creates_savepoint_def new_tx_frame_def and_then_def n_def f_def Let_def split: tx_out.splits)
    have seq: "tw_savepoint_seq w1 = n" using calm_run_eq [OF laws(2) 0] o by (simp add: calm_def)
    have v: "stack_of view w1 = (Some (savepoint_name n), data_of view w) # stack_of view w"
      using ctl_run(1) [OF laws(1) 0] o by (simp add: ctl_applies_def)
    obtain E where E: "stack_of view (fst (body w1)) = E @ (Some (savepoint_name n), data_of view w) # stack_of view w" "above n E"
      using body(2) [of w1] v seq o by (auto simp: stack_grows_def)
    have "boundary_opened options w" using tx(2) by (simp add: boundary_opened_def)
    with ran(4) have c: "close_boundary env True (failure_of rb) (fst (body w1)) = (w', r)" by simp
    have k: "frames_kept w1 (fst (body w1))" "tw_frames w1 = tw_frames w0 @ [f]" using body(1) o by simp_all
    obtain r2 b where r2: "finalize_boundary env (f\<lparr>tf_rollback_only := b\<rparr>) ((fst (body w1))\<lparr>tw_frames := tw_frames w0\<rparr>) = (w', r2)"
      "r2 \<noteq> Ret \<longrightarrow> r = r2" "r2 = Ret \<longrightarrow> (r \<noteq> Ret \<longleftrightarrow> b)"
      using close_kept [OF k c] by blast
    from finalize_savepoint [OF laws(1) r2(1), of n E "data_of view w" "stack_of view w"] E r2(2,3) show ?thesis
      by (auto simp: f_def)
  qed simp
qed

lemma tx_inner_stack:
  assumes "tx_laws env view ordinary" "never_stops env" "tw_frames w \<noteq> []"
    and body: "\<And>u. frames_kept u (fst (body u)) \<and> quiet (snd (body u))" "\<And>u. tw_frames u \<noteq> [] \<Longrightarrow> stack_grows view u (fst (body u))"
  shows "stack_grows view w (fst (tx_local env options body w))"
proof -
  obtain w' r where t: "tx_local env options body w = (w', r)" by force
  show ?thesis
  proof (cases "creates_savepoint options w")
    case True
    have one: "above (tw_savepoint_seq w) [(Some (savepoint_name (tw_savepoint_seq w + 1)), d)]" for d
      by (auto simp: above_def)
    have "stack_of view w' = stack_of view w
        \<or> (\<exists>E. stack_of view w' = E @ (Some (savepoint_name (tw_savepoint_seq w + 1)), data_of view w) # stack_of view w
             \<and> above (tw_savepoint_seq w + 1) E)"
      using tx_nested_effect [OF assms(1,2) t True] body by blast
    then show ?thesis
    proof (elim disjE conjE exE)
      fix E assume E: "stack_of view w' = E @ (Some (savepoint_name (tw_savepoint_seq w + 1)), data_of view w) # stack_of view w"
        "above (tw_savepoint_seq w + 1) E"
      then have "above (tw_savepoint_seq w) (E @ [(Some (savepoint_name (tw_savepoint_seq w + 1)), data_of view w)])"
        using one above_mono [OF E(2)] by simp
      with E(1) t show ?thesis unfolding stack_grows_def by (metis append.assoc append_Cons append_Nil fst_conv)
    qed (simp add: t stack_grows_refl)
  next
    case False
    with assms(3) have o: "open_boundary env options w = (w, Ret)" "\<not> boundary_opened options w"
      by (simp_all add: open_boundary_def boundary_opened_def)
    have "\<forall>u. quiet (snd (body u))" using body(1) by blast
    with t show ?thesis
    proof (cases rule: tx_local_cases)
      case (ran w1 rb)
      with o have w1: "w1 = w" by simp
      have "tw_frames (fst (body w)) \<noteq> []" using body(1) [of w] assms(3) by (auto simp: frames_kept_def mark_back_def)
      from close_joined_frames(1) [OF ran(4) [unfolded o(2) [THEN Eq_FalseI] w1] this] have "tw_db w' = tw_db (fst (body w))"
        by (simp add: mark_back_def)
      with body(2) [OF assms(3)] t show ?thesis by (simp add: stack_grows_def)
    qed (simp_all add: o t stack_grows_refl)
  qed
qed

lemma exec_stack:
  "tx_laws env view ordinary \<Longrightarrow> never_stops env \<Longrightarrow> ordinary_op ordinary op \<Longrightarrow> tw_frames w \<noteq> [] \<Longrightarrow>
     stack_grows view w (fst (exec_op env op w))"
  "tx_laws env view ordinary \<Longrightarrow> never_stops env \<Longrightarrow> list_all (ordinary_op ordinary) ops \<Longrightarrow> tw_frames w \<noteq> [] \<Longrightarrow>
     stack_grows view w (fst (exec_ops env ops w))"
proof (induction env op w and env ops w rule: exec_op_exec_ops.induct)
  case (1 env plan w)
  then show ?case by (auto intro!: stack_grows_refl plan_run [OF 1(1)] simp: prod_eq_iff)
next
  case (2 env w)
  then show ?case by (auto simp: set_rollback_only_def mark_back_def intro: stack_grows_refl)
next
  case (4 env ops w)
  then show ?case by (cases "exec_ops env ops w") (auto simp: swallow_def split: tx_out.splits)
next
  case (5 env options ops w)
  have l: "list_all local_op ops" using 5 by (auto simp: list_all_iff intro: ordinary_local)
  show ?case using tx_inner_stack [OF 5(2,3,5), of "\<lambda>w'. exec_ops env ops w'"] exec_frames(2) [OF 5(3) l] 5
    by (simp add: mapper_tx_def)
next
  case (6 env ops w)
  then show ?case by (simp add: in_transaction_def)
next
  case (8 env op ops w)
  obtain w1 r1 where 1: "exec_op env op w = (w1, r1)" by force
  have k: "frames_kept w w1" using exec_frames(1) [OF 8(4), of op w] 8 1 by (auto intro: ordinary_local)
  show ?case
  proof (cases r1)
    case Ret
    have "tw_frames w1 \<noteq> []" using k 8 by (auto simp: frames_kept_def mark_back_def)
    with 8 1 k have "stack_grows view w w1" "stack_grows view w1 (fst (exec_ops env ops w1))" "tw_savepoint_seq w \<le> tw_savepoint_seq w1"
      by (auto simp: frames_kept_def)
    with 1 Ret show ?thesis by (auto simp: and_then_def intro: stack_grows_trans)
  qed (use 8 1 in \<open>auto simp: and_then_def\<close>)
qed (simp_all add: stack_grows_refl)

section \<open>Root transactions\<close>

lemma same_tx_trans: "same_tx u v \<Longrightarrow> same_tx v x \<Longrightarrow> same_tx u x"
  by (simp add: same_tx_def)

lemma same_tx_refl [simp]: "same_tx v v"
  by (simp add: same_tx_def)

definition keeps_tx :: "('db \<Rightarrow> 'x tx_view) \<Rightarrow> 'db tx_world \<Rightarrow> 'db tx_world \<times> tx_out \<Rightarrow> bool" where
  "keeps_tx view w r \<longleftrightarrow> same_tx (view (tw_db w)) (view (tw_db (fst r)))"

lemma setting_keeps:
  assumes "tx_laws env view ordinary" "sql \<in> set setting_statements"
  shows "keeps_tx view w (execute_sql_with_timeout env sql t w)"
proof -
  obtain w' r where r: "execute_sql_with_timeout env sql t w = (w', r)" by force
  then have "execute_sql_with_timeout env (ctl_sql (C_setting sql)) t w = (w', r)" by simp
  from ctl_run [OF assms(1) this] assms(2) r show ?thesis
    by (cases "r = Ret") (simp_all add: keeps_tx_def ctl_applies_def ctl_failed_def)
qed

lemma keeps_then: "keeps_tx view w r \<Longrightarrow> (\<And>u. keeps_tx view u (f u)) \<Longrightarrow> keeps_tx view w (and_then r f)"
  by (cases r) (auto simp: keeps_tx_def and_then_def split: tx_out.splits intro: same_tx_trans)

lemma setting_texts:
  "''PRAGMA query_only = ON'' \<in> set setting_statements" "''PRAGMA query_only = OFF'' \<in> set setting_statements"
  "''PRAGMA read_uncommitted = 1'' \<in> set setting_statements" "''PRAGMA read_uncommitted = 0'' \<in> set setting_statements"
  "''SET TRANSACTION READ ONLY'' \<in> set setting_statements"
  "level \<noteq> Iso_default_level \<Longrightarrow> ''SET TRANSACTION ISOLATION LEVEL '' @ isolation_sql level \<in> set setting_statements"
  by (simp_all add: setting_statements_def) (cases level; simp)

lemma restore_keeps: "tx_laws env view ordinary \<Longrightarrow> keeps_tx view w (restore_root_tx_options env f w)"
  by (auto simp: restore_root_tx_options_def intro!: keeps_then setting_keeps setting_texts) (simp_all add: keeps_tx_def)

lemma server_options_keep: "tx_laws env view ordinary \<Longrightarrow> keeps_tx view w (apply_server_options env options f w)"
  by (auto simp: apply_server_options_def Let_def intro!: keeps_then setting_keeps setting_texts setting_texts(6) [simplified])
    (simp_all add: keeps_tx_def)

definition plain_restore :: "('db, 'd) tx_env \<Rightarrow> tx_options \<Rightarrow> bool" where
  "plain_restore env options \<longleftrightarrow>
     te_driver env = Driver_sqlite \<longrightarrow> \<not> to_read_only options \<and> to_isolation options \<noteq> Iso_read_uncommitted"

lemma options_keep:
  assumes "tx_laws env view ordinary" "apply_root_tx_options env options f w = (f', w', r)" "plain_restore env options"
    and "\<not> tf_sqlite_query_only_enabled f" "\<not> tf_sqlite_read_uncommitted_enabled f"
  shows "keeps_tx view w (w', r) \<and> (\<forall>u b. restore_root_tx_options env (f'\<lparr>tf_rollback_only := b\<rparr>) u = (u, Ret))"
proof (cases "te_driver env = Driver_sqlite")
  case True
  with assms show ?thesis
    by (auto simp: apply_root_tx_options_def apply_sqlite_options_def plain_restore_def restore_root_tx_options_def keeps_tx_def
        Let_def split: tx_isolation.splits if_splits)
next
  case False
  with assms(2) server_options_keep [OF assms(1), of w options f] show ?thesis
    by (auto simp: apply_root_tx_options_def restore_root_tx_options_def keeps_tx_def split: if_splits)
qed

lemma begin_root_effect:
  assumes "tx_laws env view ordinary" "never_stops env" "plain_restore env options"
    and "begin_root env options t w = (w', r)" "stack_of view w = []"
  shows "data_of view w' = data_of view w
    \<and> (if r = Ret then stack_of view w' = [(None, data_of view w)]
         \<and> (\<exists>f. tw_frames w' = tw_frames w @ [f] \<and> tf_savepoint f = None \<and> tf_rollback_only f = False
              \<and> (\<forall>u b. restore_root_tx_options env (f\<lparr>tf_rollback_only := b\<rparr>) u = (u, Ret)))
       else stack_of view w' = [] \<or> stack_of view w' = [(None, data_of view w)])"
proof -
  let ?f = "new_tx_frame t"
  obtain w1 r1 where 1: "execute_sql_with_timeout env (ctl_sql C_begin) (tf_timeout_ms ?f) w = (w1, r1)" by force
  obtain f2 w2 r2 where 2: "apply_root_tx_options env options ?f w1 = (f2, w2, r2)" by (metis prod_cases3)
  obtain w3 r3 where 3: "execute_sql_with_timeout env (ctl_sql C_rollback) (tf_timeout_ms f2) w2 = (w3, r3)" by force
  have c: "calm w (w1, r1)" "calm w1 (w2, r2)" "tf_savepoint f2 = None" "tf_rollback_only f2 = False" "quiet r1" "quiet r2"
    using calm_run_eq [OF assms(2) 1] calm_options [OF assms(2) 2] by (simp_all add: new_tx_frame_def calm_def)
  note sw = swallow_then [OF calm_restore [OF assms(2)]] swallow_then [OF calm_run(1) [OF assms(2)]]
  have k: "same_tx (view (tw_db u)) (view (tw_db (fst (restore_root_tx_options env f u))))" for f u
    using restore_keeps [OF assms(1)] by (simp add: keeps_tx_def)
  have o: "same_tx (view (tw_db w1)) (view (tw_db w2))" "\<forall>u b. restore_root_tx_options env (f2\<lparr>tf_rollback_only := b\<rparr>) u = (u, Ret)"
    using options_keep [OF assms(1) 2 assms(3)] by (simp_all add: new_tx_frame_def keeps_tx_def)
  show ?thesis
  proof (cases "r1 = Ret")
    case False
    with c obtain e where e: "r1 = Exc e" by (auto elim: quiet_cases)
    have "same_tx (view (tw_db w)) (view (tw_db w1))"
      using ctl_run(2) [OF assms(1) 1] False assms(5) by (simp add: ctl_applies_def ctl_failed_def)
    moreover have "w' = fst (restore_root_tx_options env ?f w1)" "r = Exc e"
      using assms(4) 1 e by (simp_all add: begin_root_def sw)
    ultimately show ?thesis using k [of w1 ?f] assms(5) by (simp add: same_tx_def)
  next
    case r1: True
    have v: "stack_of view w1 = [(None, data_of view w)]" "data_of view w1 = data_of view w"
      using ctl_run(1) [OF assms(1) 1 _ r1] assms(5) by (simp_all add: ctl_applies_def)
    show ?thesis
    proof (cases "r2 = Ret")
      case True
      with assms(4) 1 2 r1 have "w' = w2\<lparr>tw_frames := tw_frames w2 @ [f2]\<rparr>" "r = Ret" by (simp_all add: begin_root_def)
      with v o c show ?thesis by (auto simp: same_tx_def calm_def)
    next
      case False
      with c obtain e where e: "r2 = Exc e" by (auto elim: quiet_cases)
      have x: "w' = fst (restore_root_tx_options env f2 w3)" "r = Exc e"
        using assms(4) 1 2 3 e r1 by (simp_all add: begin_root_def sw)
      have "stack_of view w2 = [(None, data_of view w)]" "data_of view w2 = data_of view w" using o(1) v by (simp_all add: same_tx_def)
      with ctl_run [OF assms(1) 3] have "data_of view w3 = data_of view w"
        "stack_of view w3 = [] \<or> stack_of view w3 = [(None, data_of view w)]"
        by (cases "r3 = Ret"; auto simp: ctl_applies_def ctl_failed_def same_tx_def rolled_back_def)+
      with x k [of w3 f2] show ?thesis by (simp add: same_tx_def)
    qed
  qed
qed

lemma finalize_root:
  assumes "tx_laws env view ordinary" "finalize_boundary env f w = (w', r)" "tf_savepoint f = None"
    and "\<forall>u. restore_root_tx_options env f u = (u, Ret)" "stack_of view w = E @ [(None, d)]"
  shows "r \<noteq> Ret \<or> tf_rollback_only f \<Longrightarrow> stack_of view w' \<noteq> [] \<or> data_of view w' = d"
    and "r = Ret \<Longrightarrow> stack_of view w' = []
      \<and> (\<not> tf_rollback_only f \<longrightarrow> data_of view w' = (if tv_aborted (view (tw_db w)) then d else data_of view w))"
proof -
  let ?c = "if tf_rollback_only f then C_rollback else C_commit"
  obtain w1 r1 where 1: "execute_sql_with_timeout env (ctl_sql ?c) (tf_timeout_ms f) w = (w1, r1)" by force
  with assms(2,3,4) have w: "w' = w1" "r = r1" by (auto simp: finalize_boundary_def and_then_def split: if_splits tx_out.splits)
  from ctl_run [OF assms(1) 1] w assms(5)
  show "r \<noteq> Ret \<or> tf_rollback_only f \<Longrightarrow> stack_of view w' \<noteq> [] \<or> data_of view w' = d"
    "r = Ret \<Longrightarrow> stack_of view w' = []
      \<and> (\<not> tf_rollback_only f \<longrightarrow> data_of view w' = (if tv_aborted (view (tw_db w)) then d else data_of view w))"
    by (cases "r = Ret"; auto simp: ctl_applies_def ctl_failed_def same_tx_def rolled_back_def split: if_splits)+
qed

lemma exec_body:
  assumes "tx_laws env view ordinary" "never_stops env" "list_all (ordinary_op ordinary) ops"
  shows "frames_kept u (fst (exec_ops env ops u)) \<and> quiet (snd (exec_ops env ops u))"
    and "tw_frames u \<noteq> [] \<Longrightarrow> stack_grows view u (fst (exec_ops env ops u))"
  using exec_frames(2) [OF assms(2), of ops u] exec_stack(2) [OF assms, of u] assms(3)
  by (auto simp: list_all_iff intro: ordinary_local)

lemma root_tx_effect:
  assumes "tx_laws env view ordinary" and "never_stops env" and "plain_restore env options"
    and "list_all (ordinary_op ordinary) ops"
    and "tw_frames w = []" and "tv_stack (view (tw_db w)) = []"
    and "tx_local env options (\<lambda>u. exec_ops env ops u) w = (w', r)"
  shows "tw_frames w' = []
    \<and> (r \<noteq> Ret \<longrightarrow> tv_stack (view (tw_db w')) \<noteq> [] \<or> tv_data (view (tw_db w')) = tv_data (view (tw_db w)))
    \<and> (r = Ret \<longrightarrow> tv_stack (view (tw_db w')) = []
        \<and> (\<exists>w1 w2. tv_data (view (tw_db w1)) = tv_data (view (tw_db w)) \<and> exec_ops env ops w1 = (w2, Ret)
             \<and> tv_data (view (tw_db w')) =
                 (if tv_aborted (view (tw_db w2)) then tv_data (view (tw_db w)) else tv_data (view (tw_db w2)))))"
proof -
  let ?body = "\<lambda>u. exec_ops env ops u"
  note body = exec_body [OF assms(1,2,4)]
  note t = assms(7)
  have "frames_kept w w'" using tx_local_frames [OF assms(2) t] body(1) by blast
  then have "tw_frames w' = []" using assms(5) by (simp add: frames_kept_def)
  have o: "open_boundary env options w = begin_root env options (effective_timeout options w) w" "boundary_opened options w"
    using assms(5) by (simp_all add: open_boundary_def boundary_opened_def)
  have "\<forall>u. quiet (snd (?body u))" using body(1) by blast
  with t have "(r \<noteq> Ret \<longrightarrow> stack_of view w' \<noteq> [] \<or> data_of view w' = data_of view w)
    \<and> (r = Ret \<longrightarrow> stack_of view w' = [] \<and> (\<exists>w1 w2. data_of view w1 = data_of view w \<and> exec_ops env ops w1 = (w2, Ret)
             \<and> data_of view w' = (if tv_aborted (view (tw_db w2)) then data_of view w else data_of view w2)))"
  proof (cases rule: tx_local_cases)
    case not_opened
    then show ?thesis using begin_root_effect [OF assms(1-3) not_opened(1) [unfolded o] assms(6)] by simp
  next
    case (ran w1 rb)
    from begin_root_effect [OF assms(1-3) ran(1) [unfolded o] assms(6)] obtain f where v: "data_of view w1 = data_of view w"
      "stack_of view w1 = [(None, data_of view w)]" "tw_frames w1 = tw_frames w @ [f]" "tf_savepoint f = None"
      "\<forall>u b. restore_root_tx_options env (f\<lparr>tf_rollback_only := b\<rparr>) u = (u, Ret)" by auto
    obtain E where E: "stack_of view (fst (?body w1)) = E @ [(None, data_of view w)]"
      using body(2) [of w1] v by (auto simp: stack_grows_def)
    have k: "frames_kept w1 (fst (?body w1))" using body(1) by blast
    have c: "close_boundary env True (failure_of rb) (fst (?body w1)) = (w', r)" using ran(4) o by simp
    obtain r2 b where f: "finalize_boundary env (f\<lparr>tf_rollback_only := b\<rparr>) ((fst (?body w1))\<lparr>tw_frames := tw_frames w\<rparr>) = (w', r2)"
      "failure_of rb \<noteq> None \<longrightarrow> b" "r2 \<noteq> Ret \<longrightarrow> r = r2" "r2 = Ret \<longrightarrow> (r \<noteq> Ret \<longleftrightarrow> b)"
      using close_kept [OF k v(3) c] by blast
    note fin = finalize_root [OF assms(1) f(1), of E "data_of view w"]
    show ?thesis
    proof (cases "r = Ret")
      case False
      then have "r2 \<noteq> Ret \<or> b" using f by auto
      with fin(1) v E False show ?thesis by simp
    next
      case True
      then have r2: "r2 = Ret" "\<not> b" using f by auto
      then have "rb = Ret" using f(2) ran(3) by (cases rb) (auto simp: failure_of_def)
      then have "exec_ops env ops w1 = (fst (?body w1), Ret)" using ran(2) by (metis prod.collapse tx_out.distinct(1))
      with fin(2) v E True r2 show ?thesis by auto
    qed
  qed simp
  with \<open>tw_frames w' = []\<close> show ?thesis by simp
qed



section \<open>A failed part dooms the whole\<close>

lemma marked_stays: "frames_kept w w' \<Longrightarrow> rollback_only w \<Longrightarrow> rollback_only w'"
  by (auto simp: frames_kept_def rollback_only_def in_transaction_def mark_back_def)

lemma exec_ops_append: "exec_ops env (xs @ ys) w = and_then (exec_ops env xs w) (\<lambda>u. exec_ops env ys u)"
proof (induction xs arbitrary: w)
  case (Cons x xs)
  obtain w1 r1 where "exec_op env x w = (w1, r1)" by force
  with Cons show ?case by (cases r1) (auto simp: and_then_def)
qed (simp add: and_then_def)

lemma failing_join_marks:
  assumes "never_stops env" "list_all local_op ops" "to_propagation options = Tx_required" "\<not> to_read_only options"
    "to_isolation options = Iso_default_level" "tw_frames w \<noteq> []"
  shows "rollback_only (fst (exec_op env (T_tx options (ops @ [T_raise e])) w))
    \<and> (\<exists>e'. snd (exec_op env (T_tx options (ops @ [T_raise e])) w) = Exc e')"
proof -
  let ?body = "\<lambda>u. exec_ops env (ops @ [T_raise e]) u"
  have body: "frames_kept u (fst (?body u)) \<and> quiet (snd (?body u))" for u using exec_frames(2) [OF assms(1), of "ops @ [T_raise e]" u] assms(2) by simp
  have fails: "snd (?body u) \<noteq> Ret" for u
    by (cases "exec_ops env ops u") (auto simp: exec_ops_append and_then_def split: tx_out.splits)
  obtain w' r where t: "tx_local env options ?body w = (w', r)" by force
  have o: "open_boundary env options w = (w, Ret)" "\<not> boundary_opened options w"
    using assms(3,6) by (simp_all add: open_boundary_def boundary_opened_def creates_savepoint_def)
  have "\<forall>u. quiet (snd (?body u))" using body by blast
  from t this have "rollback_only w' \<and> (\<exists>e'. r = Exc e')"
  proof (cases rule: tx_local_cases)
    case (refused m)
    with assms(3-5) show ?thesis by simp
  next
    case (ran w1 rb)
    with o have w1: "w1 = w" by simp
    have n: "tw_frames (fst (?body w)) \<noteq> []" using body [of w] assms(6) by (auto simp: frames_kept_def mark_back_def)
    have "rb \<noteq> Ret" using ran(2) fails w1 by (metis tx_out.distinct(1))
    with ran(3) obtain e' where e': "rb = Exc e'" by (cases rb) auto
    from close_joined_frames [OF ran(4) [unfolded o(2) [THEN Eq_FalseI] w1] n] e' n show ?thesis
      by (simp add: failure_of_def rollback_only_def in_transaction_def mark_back_def)
  qed (simp add: o)
  with t assms(3) show ?thesis by (simp add: mapper_tx_def)
qed

text \<open>
  C14: When a transaction that joined an enclosing one fails, the enclosing one cannot succeed any more, even if
  the program catches the exception and goes on without further errors: the outermost transaction
  throws.\<close>

theorem failed_join_dooms_outer:
  assumes "never_stops env" and "list_all local_op (before @ inner @ after)"
    and "to_propagation options = Tx_required" and "\<not> to_read_only options" and "to_isolation options = Iso_default_level"
    and "to_propagation outer \<noteq> Tx_requires_new" and "tw_frames w = []"
  shows "snd (exec_op env (T_tx outer (before @ T_attempt [T_tx options (inner @ [T_raise e])] # after)) w) \<noteq> Ret"
proof -
  let ?ops = "before @ T_attempt [T_tx options (inner @ [T_raise e])] # after"
  let ?body = "\<lambda>u. exec_ops env ?ops u"
  have "list_all local_op ?ops" using assms(2,3) by simp
  from exec_frames(2) [OF assms(1) this] have body: "frames_kept u (fst (?body u)) \<and> quiet (snd (?body u))" for u by blast
  have doomed: "rollback_only (fst (?body u))" if ret: "snd (?body u) = Ret" and u: "tw_frames u \<noteq> []" for u
  proof -
    obtain u1 r1 where 1: "exec_ops env before u = (u1, r1)" by force
    with ret have "r1 = Ret" by (auto simp: exec_ops_append and_then_def split: tx_out.splits)
    have "frames_kept u u1" using exec_frames(2) [OF assms(1), of before u] assms(2) 1 by simp
    then have "tw_frames u1 \<noteq> []" using u by (auto simp: frames_kept_def mark_back_def)
    from failing_join_marks [OF assms(1) _ assms(3-5) this, of inner e] assms(2) obtain u2 e' where
      2: "exec_op env (T_tx options (inner @ [T_raise e])) u1 = (u2, Exc e')" "rollback_only u2"
      by (metis list_all_append prod.collapse)
    have "fst (?body u) = fst (exec_ops env after u2)"
      using 1 2 \<open>r1 = Ret\<close> by (simp add: exec_ops_append and_then_def swallow_def del: exec_op.simps(5))
    with 2(2) exec_frames(2) [OF assms(1), of after u2] assms(2) show ?thesis by (auto intro: marked_stays)
  qed
  obtain w' r where t: "tx_local env outer ?body w = (w', r)" by force
  have o: "boundary_opened outer w" using assms(7) by (simp add: boundary_opened_def)
  have "\<forall>u. quiet (snd (?body u))" using body by blast
  from t this have "r \<noteq> Ret"
  proof (cases rule: tx_local_cases)
    case (ran w1 rb)
    from open_boundary_frames [OF assms(1) ran(1)] o obtain f where f: "tw_frames w1 = tw_frames w @ [f]" by auto
    obtain b where b: "tw_frames (fst (?body w1)) = tw_frames w @ [f\<lparr>tf_rollback_only := b\<rparr>]"
      using kept_snoc [of w1 "fst (?body w1)"] body f by blast
    have "failure_of rb \<noteq> None \<or> b"
    proof (cases "rb = Ret")
      case True
      with ran(2) have "snd (?body w1) = Ret" by auto
      from doomed [OF this] f b show ?thesis by (simp add: rollback_only_def)
    qed (use ran(3) in \<open>cases rb; auto simp: failure_of_def\<close>)
    moreover from ran(4) o have "close_boundary env True (failure_of rb) (fst (?body w1)) = (w', r)" by simp
    from this b obtain r2 b' where "b' \<longleftrightarrow> failure_of rb \<noteq> None \<or> b" "r2 \<noteq> Ret \<longrightarrow> r = r2" "r2 = Ret \<longrightarrow> (r \<noteq> Ret \<longleftrightarrow> b')"
      by (rule close_boundary_eq) simp
    ultimately show ?thesis by auto
  qed simp_all
  with t assms(6) show ?thesis by (simp add: mapper_tx_def)
qed

section \<open>A connection that keeps its promises\<close>

text \<open>A database of one number in memory. A statement that is none of the mapper's own adds one to it; the text \<open>FAIL\<close> does
  so and throws.\<close>

definition ctl_of_sql :: "string \<Rightarrow> tx_ctl option" where
  "ctl_of_sql sql =
     (let name = (\<lambda>n. case read_ident (drop (n + 1) sql) of Some (sp, _) \<Rightarrow> sp | None \<Rightarrow> []) in
      if sql = ''BEGIN'' then Some C_begin else if sql = ''COMMIT'' then Some C_commit
      else if sql = ''ROLLBACK'' then Some C_rollback
      else if prefix ''SAVEPOINT '' sql then Some (C_savepoint (name 10))
      else if prefix ''ROLLBACK TO SAVEPOINT '' sql then Some (C_rollback_to (name 22))
      else if prefix ''RELEASE SAVEPOINT '' sql then Some (C_release (name 18))
      else if sql \<in> set setting_statements then Some (C_setting sql) else None)"

definition memory_run :: "int tx_view \<Rightarrow> string \<Rightarrow> int sql_param list \<Rightarrow> int option \<Rightarrow> int tx_view \<times> tx_out" where
  "memory_run db sql params timeout =
     (case ctl_of_sql sql of Some c \<Rightarrow> (ctl_effect c db, Ret)
      | None \<Rightarrow> (db\<lparr>tv_data := tv_data db + 1\<rparr>, if sql = ''FAIL'' then Exc (Other_error sql) else Ret))"

definition memory_env :: "(int tx_view, int) tx_env" where
  "memory_env = \<lparr>te_driver = Driver_postgres, te_file = [], te_run = memory_run, te_expires = \<lambda>db t. False,
     te_open = \<lambda>db. (db, Ret), te_close = \<lambda>db db'. (db, Ret)\<rparr>"

definition memory_ordinary :: "int sql_plan \<Rightarrow> bool" where
  "memory_ordinary plan \<longleftrightarrow> ctl_of_sql (sp_sql plan) = None"

definition memory_start :: "int tx_view tx_world" where
  "memory_start = \<lparr>tw_db = \<lparr>tv_data = 0, tv_stack = [], tv_aborted = False\<rparr>, tw_frames = [], tw_savepoint_seq = 0\<rparr>"

lemma read_quote_ident: "read_ident (quote_chars sp @ [DQUOTE]) = Some (sp, [])"
  using read_quoted [of "[]" sp] by simp

lemma ctl_of_ctl_sql: "ctl_applies c v \<Longrightarrow> ctl_of_sql (ctl_sql c) = Some c"
proof (cases c)
  case (C_setting sql)
  assume "ctl_applies c v"
  with C_setting have "sql \<in> set setting_statements" by (simp add: ctl_applies_def)
  moreover have "\<forall>s \<in> set setting_statements. s \<notin> {''BEGIN'', ''COMMIT'', ''ROLLBACK''} \<and> \<not> prefix ''SAVEPOINT '' s
      \<and> \<not> prefix ''ROLLBACK TO SAVEPOINT '' s \<and> \<not> prefix ''RELEASE SAVEPOINT '' s"
    by (simp add: setting_statements_def)
  ultimately show ?thesis by (auto simp: C_setting ctl_of_sql_def)
qed (simp_all add: ctl_of_sql_def quote_ident_def read_quote_ident)

lemma memory_ctl: "ctl_applies c v \<Longrightarrow> memory_run db (ctl_sql c) params t = (ctl_effect c db, Ret)"
  by (simp add: memory_run_def ctl_of_ctl_sql)

lemma memory_laws: "tx_laws memory_env (\<lambda>db. db) memory_ordinary" "never_stops memory_env"
proof -
  show "tx_laws memory_env (\<lambda>db. db) memory_ordinary"
    unfolding tx_laws_def memory_env_def
    by (auto simp: memory_ctl) (auto simp: memory_run_def memory_ordinary_def)
  show "never_stops memory_env" by (auto simp: never_stops_def memory_env_def memory_run_def split: option.splits)
qed

lemma memory_stmt: "ordinary_op memory_ordinary (T_stmt \<lparr>sp_sql = ''X'', sp_params = []\<rparr>)"
  "ordinary_op memory_ordinary (T_stmt \<lparr>sp_sql = ''FAIL'', sp_params = []\<rparr>)"
  by (simp_all add: memory_ordinary_def ctl_of_sql_def setting_statements_def)




theorem failed_join_dooms_outer_witness:
  "snd (exec_op memory_env (T_tx default_tx_options
     ([T_mark_rollback] @ T_attempt [T_tx default_tx_options ([] @ [T_raise Timed_out])] # [])) memory_start) \<noteq> Ret"
  by (rule failed_join_dooms_outer [OF memory_laws(2)]) (simp_all add: default_tx_options_def memory_start_def)

section \<open>What goes wrong\<close>

text \<open>A connection that only keeps the texts it was given. The statement \<open>X\<close> is stopped by the deadline of the outermost of
  two transactions; \<open>COMMIT\<close> fails.\<close>

definition trace_env :: "(string list, int) tx_env" where
  "trace_env = \<lparr>te_driver = Driver_sqlite, te_file = [],
     te_run = \<lambda>db sql params timeout. (db @ [sql], if sql = ''X'' then Stopped 1 else if sql = ''COMMIT'' then Exc (Other_error ''busy'') else Ret),
     te_expires = \<lambda>db t. False, te_open = \<lambda>db. (db, Ret), te_close = \<lambda>db db'. (db, Ret)\<rparr>"

abbreviation trace_start :: "string list tx_world" where
  "trace_start \<equiv> \<lparr>tw_db = [], tw_frames = [], tw_savepoint_seq = 0\<rparr>"

text \<open>The deadline of a transaction passes in a statement of a nested one. The nested one is unwound without closing its
  savepoint, and its frame, still the innermost, is the one the outer transaction closes: the savepoint is rolled
  back and released, the transaction itself stays open, and the mapper goes on inside of it.\<close>

theorem deadline_in_nested_leaks:
  "case exec_op trace_env (T_tx (default_tx_options\<lparr>to_timeout_ms := 5\<rparr>)
      [T_tx (default_tx_options\<lparr>to_propagation := Tx_nested\<rparr>) [T_stmt \<lparr>sp_sql = ''X'', sp_params = []\<rparr>]]) trace_start of
     (w', r) \<Rightarrow> r = Exc (Orm_error ''transaction timeout'') \<and> in_transaction w' \<and> tf_savepoint (last (tw_frames w')) = None
       \<and> tw_db w' = [''BEGIN'', ctl_sql (C_savepoint ''sp_1''), ''X'', ctl_sql (C_rollback_to ''sp_1''), ctl_sql (C_release ''sp_1'')]"
  by code_simp

text \<open>After a commit that fails, no rollback is sent: a database that keeps the transaction open then (sqlite, when it is busy)
  has it open while the mapper is outside of any.\<close>

theorem failed_commit_not_rolled_back:
  "case exec_op trace_env (T_tx default_tx_options []) trace_start of
     (w', r) \<Rightarrow> r = Exc (Other_error ''busy'') \<and> \<not> in_transaction w' \<and> tw_db w' = [''BEGIN'', ''COMMIT'']"
  by code_simp

end
