(* ===== verification/Orm_Mapper.thy ===== *)
theory Orm_Mapper
  imports Orm_Tx
begin

text \<open>
  The statements of the object mapper (\<open>Mapper\<close>, \<open>UpdateChain\<close> and the relation loaders in
  \<open>layer3/include/async_uv_layer3/orm.hpp\<close>). An operation of one statement is the statement it executes, an exception,
  or nothing at all (\<open>None\<close>) where the code returns zero without asking the database. An operation in batches is the
  program it runs: inside of a transaction, its own if there is none.
\<close>

section \<open>Schema and queries\<close>

definition column_definition :: "('m, 'd) column_meta \<Rightarrow> string" where
  "column_definition col =
     quote_ident (cm_name col) @ '' '' @ cm_sql_type col
     @ (if cm_is_id col then (if cm_is_auto_increment col then '' PRIMARY KEY AUTOINCREMENT'' else '' PRIMARY KEY'') else [])
     @ (if cm_is_unique col \<and> \<not> cm_is_id col then '' UNIQUE'' else [])"

definition sync_schema :: "string \<Rightarrow> ('m, 'd) model_meta \<Rightarrow> 'd sql_plan list" where
  "sync_schema table meta =
     \<lparr>sp_sql = ''CREATE TABLE IF NOT EXISTS '' @ quote_ident table @ '' ('' @ comma_list (map column_definition (mm_columns meta)) @ '')'',
      sp_params = []\<rparr>
     # map (\<lambda>col. \<lparr>sp_sql = ''CREATE INDEX IF NOT EXISTS '' @ quote_ident (''idx_'' @ table @ ''_'' @ cm_name col)
                      @ '' ON '' @ quote_ident table @ ''('' @ quote_ident (cm_name col) @ '')'', sp_params = []\<rparr>)
         (filter (\<lambda>col. \<not> (\<not> cm_is_indexed col \<or> cm_is_unique col \<or> cm_is_id col)) (mm_columns meta))"

definition count_from_query :: "string \<Rightarrow> ('m, 'd) model_meta \<Rightarrow> 'd query \<Rightarrow> 'd sql_plan" where
  "count_from_query table meta q =
     (let plan = build_select_plan table (mm_columns meta) q in
      \<lparr>sp_sql = ''SELECT COUNT(*) AS '' @ quote_ident ''__orm_count'' @ '' FROM ('' @ sp_sql plan @ '') AS ''
                 @ quote_ident ''__orm_count_sub'', sp_params = sp_params plan\<rparr>)"

text \<open>The number in the result: none in the first cell counts as zero.\<close>

definition read_count :: "string option list list \<Rightarrow> string + int" where
  "read_count rows =
     (case rows of (Some text # _) # _ \<Rightarrow>
        (case stoull text of Some n \<Rightarrow> Inr n | None \<Rightarrow> Inl ''failed to parse COUNT(*) result'')
      | _ \<Rightarrow> Inr 0)"

definition count_filtered :: "string \<Rightarrow> ('m, 'd) model_meta \<Rightarrow> 'd query \<Rightarrow> 'd sql_plan" where
  "count_filtered table meta q = count_from_query table meta (without_window_clauses q)"

definition count_window :: "string \<Rightarrow> ('m, 'd) model_meta \<Rightarrow> 'd query \<Rightarrow> 'd sql_plan" where
  "count_window table meta q = count_from_query table meta q"

definition select_one :: "string \<Rightarrow> ('m, 'd) model_meta \<Rightarrow> 'd query \<Rightarrow> 'd sql_plan" where
  "select_one table meta q = build_select_plan table (mm_columns meta) (with_limit_if_absent 1 q)"

definition select_by_id ::
  "raw_sql_guard \<Rightarrow> string \<Rightarrow> ('m, 'd) model_meta \<Rightarrow> 'd sql_param \<Rightarrow> string + 'd sql_plan" where
  "select_by_id g table meta i =
     (case mm_id_index meta of None \<Rightarrow> Inl ''select_by_id requires an id column''
      | Some k \<Rightarrow>
          case where_raw g (quote_ident (cm_name (mm_columns meta ! k)) @ '' = ?'') [i] False empty_query of
            Inl e \<Rightarrow> Inl e
          | Inr q \<Rightarrow> Inr (select_one table meta (q\<lparr>q_limit := Some 1\<rparr>)))"

section \<open>Single rows\<close>

definition skipped :: "'m \<Rightarrow> ('m, 'd) column_meta \<Rightarrow> bool" where
  "skipped model col \<longleftrightarrow> cm_is_auto_increment col \<and> cm_is_default col model"

definition values_sql :: "string \<Rightarrow> ('m, 'd) column_meta list \<Rightarrow> string" where
  "values_sql table cols =
     ''INSERT INTO '' @ quote_ident table @ '' ('' @ comma_list (map (quote_ident \<circ> cm_name) cols)
     @ '') VALUES ('' @ comma_list (map (\<lambda>_. ''?'') cols) @ '')''"

definition insert_model :: "string \<Rightarrow> ('m, 'd) model_meta \<Rightarrow> 'm \<Rightarrow> 'd sql_plan" where
  "insert_model table meta model =
     (let cols = filter (\<lambda>col. \<not> skipped model col) (mm_columns meta) in
      \<lparr>sp_sql = (if cols = [] then ''INSERT INTO '' @ quote_ident table @ '' DEFAULT VALUES'' else values_sql table cols),
       sp_params = map (\<lambda>col. cm_read_param col model) cols\<rparr>)"

record 'd update_assignment =
  ua_column :: string
  ua_sql_expression :: string
  ua_params :: "'d sql_param list"

fun assignments_sql :: "'d update_assignment list \<Rightarrow> string + string list \<times> 'd sql_param list" where
  "assignments_sql [] = Inr ([], [])"
| "assignments_sql (a # as) =
     (if ua_column a = [] then Inl ''update assignment column cannot be empty''
      else if ua_sql_expression a = [] then Inl ''update assignment expression cannot be empty''
      else case assignments_sql as of Inl e \<Rightarrow> Inl e
           | Inr (ts, ps) \<Rightarrow> Inr ((quote_ident (ua_column a) @ '' = '' @ ua_sql_expression a) # ts, ua_params a @ ps))"

definition update_by_query ::
  "string \<Rightarrow> 'd query \<Rightarrow> 'd update_assignment list \<Rightarrow> string + 'd sql_plan option" where
  "update_by_query table q as =
     (if as = [] then Inr None
      else if q_joins q \<noteq> [] \<or> q_group_by_columns q \<noteq> [] \<or> q_having_clauses q \<noteq> [] then
        Inl ''update_by_query does not support join/group/having''
      else if q_limit q \<noteq> None \<or> q_offset q \<noteq> None then Inl ''update_by_query does not support limit/offset''
      else case assignments_sql as of Inl e \<Rightarrow> Inl e
        | Inr (ts, ps) \<Rightarrow>
            let (where_sql, where_params) = where_clause table q in
            Inr (Some \<lparr>sp_sql = ''UPDATE '' @ quote_ident table @ '' SET '' @ comma_list ts @ where_sql,
                       sp_params = ps @ where_params\<rparr>))"

definition other_columns :: "nat \<Rightarrow> ('m, 'd) model_meta \<Rightarrow> ('m, 'd) column_meta list" where
  "other_columns k meta = map (\<lambda>i. mm_columns meta ! i) (filter (\<lambda>i. i \<noteq> k) [0..<length (mm_columns meta)])"

definition update_by_id :: "string \<Rightarrow> ('m, 'd) model_meta \<Rightarrow> 'm \<Rightarrow> string + 'd sql_plan option" where
  "update_by_id table meta model =
     (case mm_id_index meta of None \<Rightarrow> Inl ''update_by_id requires an id column''
      | Some k \<Rightarrow>
          let id_col = mm_columns meta ! k; cols = other_columns k meta in
          if cols = [] then Inr None
          else Inr (Some
            \<lparr>sp_sql = ''UPDATE '' @ quote_ident table @ '' SET '' @ comma_list (map (\<lambda>col. quote_ident (cm_name col) @ '' = ?'') cols)
                       @ '' WHERE '' @ quote_ident (cm_name id_col) @ '' = ?'',
             sp_params = map (\<lambda>col. cm_read_param col model) cols @ [cm_read_param id_col model]\<rparr>))"

definition remove_by_id :: "string \<Rightarrow> ('m, 'd) model_meta \<Rightarrow> 'd sql_param \<Rightarrow> string + 'd sql_plan" where
  "remove_by_id table meta i =
     (case mm_id_index meta of None \<Rightarrow> Inl ''remove_by_id requires an id column''
      | Some k \<Rightarrow> Inr \<lparr>sp_sql = ''DELETE FROM '' @ quote_ident table @ '' WHERE '' @ quote_ident (cm_name (mm_columns meta ! k)) @ '' = ?'',
                      sp_params = [i]\<rparr>)"

definition conflict_index :: "('m, 'd) model_meta \<Rightarrow> nat option" where
  "conflict_index meta =
     (case mm_id_index meta of Some k \<Rightarrow> Some k
      | None \<Rightarrow> case mm_unique_indexes meta of [] \<Rightarrow> None | k # _ \<Rightarrow> Some k)"

definition conflict_sql :: "('m, 'd) column_meta \<Rightarrow> ('m, 'd) model_meta \<Rightarrow> string" where
  "conflict_sql conflict_col meta =
     (let cols = filter (\<lambda>col. \<not> (cm_name col = cm_name conflict_col \<or> cm_is_id col)) (mm_columns meta) in
      '' ON CONFLICT('' @ quote_ident (cm_name conflict_col) @ '') DO ''
      @ (if cols = [] then ''NOTHING''
         else ''UPDATE SET '' @ comma_list (map (\<lambda>col. quote_ident (cm_name col) @ '' = excluded.'' @ quote_ident (cm_name col)) cols)))"

definition upsert :: "string \<Rightarrow> ('m, 'd) model_meta \<Rightarrow> 'm \<Rightarrow> 'd sql_plan" where
  "upsert table meta model =
     (case conflict_index meta of None \<Rightarrow> insert_model table meta model
      | Some k \<Rightarrow>
          let conflict_col = mm_columns meta ! k in
          if skipped model conflict_col then insert_model table meta model
          else let cols = filter (\<lambda>col. \<not> skipped model col) (mm_columns meta) in
            \<lparr>sp_sql = values_sql table cols @ conflict_sql conflict_col meta,
             sp_params = map (\<lambda>col. cm_read_param col model) cols\<rparr>)"

definition delete_by_query :: "string \<Rightarrow> 'd query \<Rightarrow> bool \<Rightarrow> string + 'd sql_plan" where
  "delete_by_query table q allow_full_table =
     (if q_joins q \<noteq> [] \<or> q_group_by_columns q \<noteq> [] \<or> q_having_clauses q \<noteq> [] then
        Inl ''delete_by_query does not support join/group/having''
      else if q_orders q \<noteq> [] \<or> q_limit q \<noteq> None \<or> q_offset q \<noteq> None then
        Inl ''delete_by_query does not support order/limit/offset''
      else if q_sql_tail q \<noteq> [] then Inl ''delete_by_query does not support SQL tail''
      else if q_predicates q = [] \<and> \<not> allow_full_table then
        Inl ''delete_by_query without predicate is blocked; pass allow_full_table=true to delete all rows''
      else let (where_sql, params) = where_clause table q in
        Inr \<lparr>sp_sql = ''DELETE FROM '' @ quote_ident table @ where_sql, sp_params = params\<rparr>)"

section \<open>Batches\<close>

definition max_params :: "sql_driver \<Rightarrow> nat" where
  "max_params driver = (if driver = Driver_sqlite then 900 else 32000)"

definition include_columns :: "('m, 'd) model_meta \<Rightarrow> 'm list \<Rightarrow> ('m, 'd) column_meta list" where
  "include_columns meta models =
     filter (\<lambda>col. \<not> cm_is_auto_increment col \<or> list_ex (\<lambda>m. \<not> cm_is_default col m) models) (mm_columns meta)"

definition row_param_count :: "('m, 'd) column_meta list \<Rightarrow> 'm \<Rightarrow> nat" where
  "row_param_count cols model = length (filter (\<lambda>col. \<not> skipped model col) cols)"

text \<open>The inner loop of a batch: how many of the remaining models the next statement takes, with the number taken and the
  number of their parameters so far.\<close>

fun chunk_end :: "nat \<Rightarrow> nat \<Rightarrow> ('m \<Rightarrow> nat) \<Rightarrow> nat \<Rightarrow> nat \<Rightarrow> 'm list \<Rightarrow> nat" where
  "chunk_end batch_size limit cost taken param_count [] = taken"
| "chunk_end batch_size limit cost taken param_count (m # ms) =
     (if batch_size > 0 \<and> taken \<ge> batch_size then taken
      else if taken > 0 \<and> param_count + cost m > limit then taken
      else chunk_end batch_size limit cost (taken + 1) (param_count + cost m) ms)"

definition chunk_size :: "nat \<Rightarrow> nat \<Rightarrow> ('m \<Rightarrow> nat) \<Rightarrow> 'm list \<Rightarrow> nat" where
  "chunk_size batch_size limit cost models = (let n = chunk_end batch_size limit cost 0 0 models in if n = 0 then 1 else n)"

function batch_chunks :: "nat \<Rightarrow> nat \<Rightarrow> ('m \<Rightarrow> nat) \<Rightarrow> 'm list \<Rightarrow> 'm list list" where
  "batch_chunks batch_size limit cost models =
     (if models = [] then []
      else let n = chunk_size batch_size limit cost models in
        take n models # batch_chunks batch_size limit cost (drop n models))"
  by pat_completeness auto
termination
proof (relation "measure (\<lambda>(_, _, _, ms). length ms)", goal_cases)
  case (2 batch_size limit cost models x)
  then have "0 < x" by (simp add: chunk_size_def Let_def)
  with 2 show ?case by simp
qed simp

declare batch_chunks.simps [simp del]

definition row_sql :: "sql_driver \<Rightarrow> ('m, 'd) column_meta list \<Rightarrow> 'm \<Rightarrow> string" where
  "row_sql driver cols model =
     ''('' @ comma_list (map (\<lambda>col. if skipped model col then (if driver = Driver_sqlite then ''NULL'' else ''DEFAULT'') else ''?'') cols) @ '')''"

definition row_params :: "('m, 'd) column_meta list \<Rightarrow> 'm \<Rightarrow> 'd sql_param list" where
  "row_params cols model = map (\<lambda>col. cm_read_param col model) (filter (\<lambda>col. \<not> skipped model col) cols)"

definition rows_plan ::
  "sql_driver \<Rightarrow> string \<Rightarrow> ('m, 'd) column_meta list \<Rightarrow> string \<Rightarrow> 'm list \<Rightarrow> 'd sql_plan" where
  "rows_plan driver table cols tail chunk =
     \<lparr>sp_sql = ''INSERT INTO '' @ quote_ident table @ '' ('' @ comma_list (map (quote_ident \<circ> cm_name) cols) @ '') VALUES ''
                @ comma_list (map (row_sql driver cols) chunk) @ tail,
      sp_params = concat (map (row_params cols) chunk)\<rparr>"

definition batch_insert_plans ::
  "sql_driver \<Rightarrow> string \<Rightarrow> ('m, 'd) model_meta \<Rightarrow> 'm list \<Rightarrow> nat \<Rightarrow> 'd sql_plan list" where
  "batch_insert_plans driver table meta models batch_size =
     (let cols = include_columns meta models in
      if cols = [] then map (insert_model table meta) models
      else map (rows_plan driver table cols [])
             (batch_chunks batch_size (max_params driver) (row_param_count cols) models))"

definition batch_insert :: "sql_driver \<Rightarrow> string \<Rightarrow> ('m, 'd) model_meta \<Rightarrow> 'm list \<Rightarrow> nat \<Rightarrow> 'd tx_op list" where
  "batch_insert driver table meta models batch_size =
     (if models = [] then [] else [T_ensure_tx (map T_stmt (batch_insert_plans driver table meta models batch_size))])"

definition batch_upsert_plans ::
  "sql_driver \<Rightarrow> string \<Rightarrow> ('m, 'd) model_meta \<Rightarrow> 'm list \<Rightarrow> nat \<Rightarrow> 'd sql_plan list" where
  "batch_upsert_plans driver table meta models batch_size =
     (case conflict_index meta of None \<Rightarrow> batch_insert_plans driver table meta models batch_size
      | Some k \<Rightarrow>
          let conflict_col = mm_columns meta ! k in
          if cm_is_auto_increment conflict_col \<and> list_all (cm_is_default conflict_col) models then
            batch_insert_plans driver table meta models batch_size
          else
            let cols = include_columns meta models in
            if cols = [] then map (upsert table meta) models
            else map (rows_plan driver table cols (conflict_sql conflict_col meta))
                   (batch_chunks batch_size (max_params driver) (row_param_count cols) models))"

definition batch_upsert :: "sql_driver \<Rightarrow> string \<Rightarrow> ('m, 'd) model_meta \<Rightarrow> 'm list \<Rightarrow> nat \<Rightarrow> 'd tx_op list" where
  "batch_upsert driver table meta models batch_size =
     (if models = [] then [] else [T_ensure_tx (map T_stmt (batch_upsert_plans driver table meta models batch_size))])"

definition case_column_sql :: "('m, 'd) column_meta \<Rightarrow> 'm list \<Rightarrow> ('m, 'd) column_meta \<Rightarrow> string" where
  "case_column_sql id_col chunk col =
     quote_ident (cm_name col) @ '' = CASE '' @ quote_ident (cm_name id_col)
     @ concat (map (\<lambda>_. '' WHEN ? THEN ?'') chunk) @ '' ELSE '' @ quote_ident (cm_name col) @ '' END''"

definition case_update_plan ::
  "string \<Rightarrow> ('m, 'd) column_meta \<Rightarrow> ('m, 'd) column_meta list \<Rightarrow> 'm list \<Rightarrow> 'd sql_plan" where
  "case_update_plan table id_col cols chunk =
     \<lparr>sp_sql = ''UPDATE '' @ quote_ident table @ '' SET '' @ comma_list (map (case_column_sql id_col chunk) cols)
                @ '' WHERE '' @ quote_ident (cm_name id_col) @ '' IN ('' @ comma_list (map (\<lambda>_. ''?'') chunk) @ '')'',
      sp_params = concat (map (\<lambda>col. concat (map (\<lambda>m. [cm_read_param id_col m, cm_read_param col m]) chunk)) cols)
                  @ map (cm_read_param id_col) chunk\<rparr>"

text \<open>Slices of a fixed positive size.\<close>

function slices :: "nat \<Rightarrow> 'm list \<Rightarrow> 'm list list" where
  "slices n models = (if models = [] \<or> n = 0 then [] else take n models # slices n (drop n models))"
  by pat_completeness auto
termination by (relation "measure (length \<circ> snd)") auto

declare slices.simps [simp del]

definition update_all_by_id :: "string \<Rightarrow> ('m, 'd) model_meta \<Rightarrow> 'm list \<Rightarrow> 'd sql_plan list" where
  "update_all_by_id table meta models =
     concat (map (\<lambda>m. case update_by_id table meta m of Inr (Some plan) \<Rightarrow> [plan] | _ \<Rightarrow> []) models)"

definition batch_update_plans ::
  "sql_driver \<Rightarrow> string \<Rightarrow> ('m, 'd) model_meta \<Rightarrow> 'm list \<Rightarrow> nat \<Rightarrow> string + 'd sql_plan list" where
  "batch_update_plans driver table meta models batch_size =
     (case mm_id_index meta of None \<Rightarrow> Inl ''batch_update_by_id requires an id column''
      | Some k \<Rightarrow>
          let cols = other_columns k meta; params_per_row = length cols * 2 + 1 in
          if cols = [] then Inr []
          else if params_per_row > max_params driver then Inr (update_all_by_id table meta models)
          else let auto_chunk_size = max 1 (max_params driver div params_per_row);
                   size = (if batch_size > 0 then min auto_chunk_size batch_size else auto_chunk_size) in
            Inr (map (case_update_plan table (mm_columns meta ! k) cols) (slices size models)))"

definition batch_update_by_id :: "sql_driver \<Rightarrow> string \<Rightarrow> ('m, 'd) model_meta \<Rightarrow> 'm list \<Rightarrow> nat \<Rightarrow> 'd tx_op list" where
  "batch_update_by_id driver table meta models batch_size =
     (if models = [] then []
      else [T_ensure_tx (case batch_update_plans driver table meta models batch_size of
              Inl e \<Rightarrow> [T_raise (Orm_error e)] | Inr plans \<Rightarrow> map T_stmt plans)])"

section \<open>Update chains\<close>

record 'd update_chain =
  uc_query :: "'d query"
  uc_assignments :: "'d update_assignment list"
  uc_assigned_columns :: "string set"

datatype 'd update_op =
    U_set nat "'d sql_param"
  | U_set_if bool nat "'d sql_param"
  | U_set_if_absent nat "'d sql_param"
  | U_set_sql nat string "'d sql_param list" bool
  | U_query "'d query_op"

definition chain_start :: "'d update_chain" where
  "chain_start = \<lparr>uc_query = empty_query, uc_assignments = [], uc_assigned_columns = {}\<rparr>"

definition push_assignment :: "string \<Rightarrow> string \<Rightarrow> 'd sql_param list \<Rightarrow> 'd update_chain \<Rightarrow> 'd update_chain" where
  "push_assignment column expr params c =
     c\<lparr>uc_assignments := uc_assignments c @ [\<lparr>ua_column = column, ua_sql_expression = expr, ua_params = params\<rparr>],
       uc_assigned_columns := insert column (uc_assigned_columns c)\<rparr>"

definition chain_set :: "model_env \<Rightarrow> nat \<Rightarrow> 'd sql_param \<Rightarrow> 'd update_chain \<Rightarrow> string + 'd update_chain" where
  "chain_set env member value c =
     (case mt_column (me_own env) member of Inl e \<Rightarrow> Inl e | Inr column \<Rightarrow> Inr (push_assignment column ''?'' [value] c))"

definition chain_set_if_absent :: "model_env \<Rightarrow> nat \<Rightarrow> 'd sql_param \<Rightarrow> 'd update_chain \<Rightarrow> string + 'd update_chain" where
  "chain_set_if_absent env member value c =
     (case mt_column (me_own env) member of Inl e \<Rightarrow> Inl e
      | Inr column \<Rightarrow> if column \<in> uc_assigned_columns c then Inr c else Inr (push_assignment column ''?'' [value] c))"

definition chain_set_sql ::
  "raw_sql_guard \<Rightarrow> model_env \<Rightarrow> nat \<Rightarrow> string \<Rightarrow> 'd sql_param list \<Rightarrow> bool \<Rightarrow> 'd update_chain \<Rightarrow> string + 'd update_chain" where
  "chain_set_sql g env member sql_expression params unsafe_marked c =
     (if sql_expression = [] then Inl ''setSql expression cannot be empty''
      else case validate_raw_sql g ''UpdateChain::setSql'' sql_expression unsafe_marked of Inl e \<Rightarrow> Inl e
      | Inr _ \<Rightarrow> case mt_column (me_own env) member of Inl e \<Rightarrow> Inl e
          | Inr column \<Rightarrow> Inr (push_assignment column sql_expression params c))"

fun chain_op :: "raw_sql_guard \<Rightarrow> model_env \<Rightarrow> 'd update_op \<Rightarrow> 'd update_chain \<Rightarrow> string + 'd update_chain" where
  "chain_op g env (U_set member value) c = chain_set env member value c"
| "chain_op g env (U_set_if condition member value) c = (if condition then chain_set env member value c else Inr c)"
| "chain_op g env (U_set_if_absent member value) c = chain_set_if_absent env member value c"
| "chain_op g env (U_set_sql member sql params marked) c = chain_set_sql g env member sql params marked c"
| "chain_op g env (U_query op) c =
     (case apply_op g env op (uc_query c) of Inl e \<Rightarrow> Inl e | Inr q \<Rightarrow> Inr (c\<lparr>uc_query := q\<rparr>))"

fun chain_ops :: "raw_sql_guard \<Rightarrow> model_env \<Rightarrow> 'd update_op list \<Rightarrow> 'd update_chain \<Rightarrow> string + 'd update_chain" where
  "chain_ops g env [] c = Inr c"
| "chain_ops g env (op # ops) c = (case chain_op g env op c of Inl e \<Rightarrow> Inl e | Inr c' \<Rightarrow> chain_ops g env ops c')"

definition chain_execute :: "string \<Rightarrow> 'd update_chain \<Rightarrow> string + 'd sql_plan option" where
  "chain_execute table c = update_by_query table (uc_query c) (uc_assignments c)"

section \<open>Queries that are run\<close>

text \<open>What the connection returns for a statement: an error, or the names of the columns and the cells of the rows.\<close>

type_synonym 'd query_runner = "'d sql_plan \<Rightarrow> string + string list \<times> string option list list"

definition select_list :: "'d query_runner \<Rightarrow> 'm \<Rightarrow> string \<Rightarrow> ('m, 'd) model_meta \<Rightarrow> 'd query \<Rightarrow> string + 'm list" where
  "select_list run fresh table meta q =
     (case run (build_select_plan table (mm_columns meta) q) of Inl e \<Rightarrow> Inl e
      | Inr (names, rows) \<Rightarrow> decode_rows meta fresh names rows)"

definition select_one_row :: "'d query_runner \<Rightarrow> 'm \<Rightarrow> string \<Rightarrow> ('m, 'd) model_meta \<Rightarrow> 'd query \<Rightarrow> string + 'm option" where
  "select_one_row run fresh table meta q =
     (case select_list run fresh table meta (with_limit_if_absent 1 q) of Inl e \<Rightarrow> Inl e
      | Inr rows \<Rightarrow> Inr (case rows of [] \<Rightarrow> None | m # _ \<Rightarrow> Some m))"

datatype count_mode = Count_filtered | Count_window

definition count_rows :: "'d query_runner \<Rightarrow> string \<Rightarrow> ('m, 'd) model_meta \<Rightarrow> 'd query \<Rightarrow> count_mode \<Rightarrow> string + int" where
  "count_rows run table meta q mode =
     (case run (case mode of Count_filtered \<Rightarrow> count_filtered table meta q | Count_window \<Rightarrow> count_window table meta q) of
        Inl e \<Rightarrow> Inl e | Inr (names, rows) \<Rightarrow> read_count rows)"

text \<open>A query chain: calls that are forwarded to its query, then one that runs it.\<close>

datatype 'm chain_result = R_rows "'m list" | R_row "'m option" | R_count int

datatype chain_end = End_list | End_one | End_count | End_count_filtered | End_count_window

definition query_chain ::
  "raw_sql_guard \<Rightarrow> model_env \<Rightarrow> 'd query_runner \<Rightarrow> 'm \<Rightarrow> string \<Rightarrow> ('m, 'd) model_meta \<Rightarrow> 'd query_op list \<Rightarrow> chain_end
     \<Rightarrow> string + 'm chain_result" where
  "query_chain g env run fresh table meta ops fin =
     (case apply_ops g env ops empty_query of Inl e \<Rightarrow> Inl e
      | Inr q \<Rightarrow>
          case fin of
            End_list \<Rightarrow> map_sum id R_rows (select_list run fresh table meta q)
          | End_one \<Rightarrow> map_sum id R_row (select_one_row run fresh table meta q)
          | End_count \<Rightarrow> map_sum id R_count (count_rows run table meta q Count_filtered)
          | End_count_filtered \<Rightarrow> map_sum id R_count (count_rows run table meta q Count_filtered)
          | End_count_window \<Rightarrow> map_sum id R_count (count_rows run table meta q Count_window))"

section \<open>Chunks\<close>

lemma chunk_end_range: "taken \<le> chunk_end b l c taken pc ms \<and> chunk_end b l c taken pc ms \<le> taken + length ms"
  by (induction b l c taken pc ms rule: chunk_end.induct) auto

lemma chunk_end_batch: "0 < b \<Longrightarrow> taken \<le> b \<Longrightarrow> chunk_end b l c taken pc ms \<le> b"
  by (induction b l c taken pc ms rule: chunk_end.induct) auto

lemma chunk_end_params:
  "0 < taken \<Longrightarrow> pc \<le> l \<or> taken = 1 \<Longrightarrow> n = chunk_end b l c taken pc ms \<Longrightarrow>
     n = 1 \<or> pc + sum_list (map c (take (n - taken) ms)) \<le> l"
proof (induction b l c taken pc ms arbitrary: n rule: chunk_end.induct)
  case (2 b l c taken pc m ms)
  show ?case
  proof (cases "b > 0 \<and> taken \<ge> b \<or> pc + c m > l")
    case True
    with 2 show ?thesis by auto
  next
    case False
    then have n: "n = chunk_end b l c (taken + 1) (pc + c m) ms" unfolding 2(4) by auto
    then have "taken + 1 \<le> n" using chunk_end_range [of "taken + 1" b l c "pc + c m" ms] by simp
    then have "take (n - taken) (m # ms) = m # take (n - (taken + 1)) ms" by (simp add: take_Cons' Suc_diff_le)
    moreover have "n = 1 \<or> pc + c m + sum_list (map c (take (n - (taken + 1)) ms)) \<le> l"
      using False by (intro 2(1) n) auto
    ultimately show ?thesis by (simp add: ac_simps)
  qed
qed auto

lemma chunk_size_bounds:
  assumes "models \<noteq> []" and n_def: "n = chunk_size b l c models"
  shows "0 < n" "n \<le> length models" "0 < b \<Longrightarrow> n \<le> b" "n = 1 \<or> sum_list (map c (take n models)) \<le> l"
proof -
  obtain m ms where ms: "models = m # ms" using assms(1) by (cases models) auto
  have n: "n = chunk_end b l c 1 (c m) ms"
    using chunk_end_range [of 1 b l c "c m" ms] by (simp add: n_def ms chunk_size_def Let_def)
  show "0 < n" "n \<le> length models" using chunk_end_range [of 1 b l c "c m" ms] by (simp_all add: n ms)
  show "n \<le> b" if "0 < b" using chunk_end_batch [OF that, of 1 l c "c m" ms] that by (simp add: n)
  from chunk_end_params [of 1 "c m" l n b c ms] show "n = 1 \<or> sum_list (map c (take n models)) \<le> l"
    using \<open>0 < n\<close> by (cases n) (auto simp: n ms)
qed

lemma batch_chunks_parts:
  "concat (batch_chunks b l c models) = models
   \<and> (\<forall>chunk \<in> set (batch_chunks b l c models). chunk \<noteq> [] \<and> set chunk \<subseteq> set models \<and> (0 < b \<longrightarrow> length chunk \<le> b)
        \<and> (length chunk = 1 \<or> sum_list (map c chunk) \<le> l))"
proof (induction b l c models rule: batch_chunks.induct)
  case (1 b l c models)
  show ?case
  proof (cases "models = []")
    case False
    note s = chunk_size_bounds [OF False refl, of b l c]
    have "batch_chunks b l c models
        = take (chunk_size b l c models) models # batch_chunks b l c (drop (chunk_size b l c models) models)"
      using False by (subst batch_chunks.simps) (simp add: Let_def)
    with 1 [OF False refl] s False show ?thesis
      by (auto dest: in_set_takeD in_set_dropD)
  qed (simp add: batch_chunks.simps)
qed

lemma slices_parts:
  "0 < n \<Longrightarrow> concat (slices n models) = models \<and> (\<forall>chunk \<in> set (slices n models). chunk \<noteq> [] \<and> length chunk \<le> n)"
proof (induction n models rule: slices.induct)
  case (1 n models)
  show ?case
  proof (cases "models = []")
    case False
    have "slices n models = take n models # slices n (drop n models)" using False 1 by (subst slices.simps) simp
    with 1 False show ?thesis by auto
  qed (simp add: slices.simps)
qed

section \<open>Statements and their parameters\<close>

definition columns_ok :: "('m, 'd) column_meta list \<Rightarrow> bool" where
  "columns_ok cols \<longleftrightarrow> list_all (\<lambda>col. plain_name (cm_name col)) cols"

definition accepted :: "'d sql_plan \<Rightarrow> bool" where
  "accepted plan \<longleftrightarrow> fits (sp_sql plan) (length (sp_params plan))"

lemma columns_ok_filter: "columns_ok cols \<Longrightarrow> columns_ok (filter P cols)"
  by (auto simp: columns_ok_def list_all_iff)

lemma columns_ok_nth: "columns_ok cols \<Longrightarrow> k < length cols \<Longrightarrow> BSLASH \<notin> set (cm_name (cols ! k))"
  by (simp add: columns_ok_def list_all_length plain_no_backslash)

lemma fits_names: "columns_ok cols \<Longrightarrow> fits (comma_list (map (quote_ident \<circ> cm_name) cols)) 0"
  by (rule fits_comma_list) (auto simp: columns_ok_def list_all_iff intro!: fits_quote_ident plain_no_backslash)

lemma fits_comma_sum: "\<forall>x \<in> set xs. fits (f x) (n x) \<Longrightarrow> fits (comma_list (map f xs)) (sum_list (map n xs))"
proof (induction xs rule: induct_list012)
  case (3 x y xs)
  then have "fits (f x @ '', '' @ comma_list (map f (y # xs))) (n x + sum_list (map n (y # xs)))"
    by (intro fits_append) (simp_all add: fits_rules)
  then show ?case by simp
qed (simp_all add: fits_rules)

lemma fits_values:
  assumes "plain_name table" "columns_ok cols"
  shows "fits (values_sql table cols) (length cols)"
proof -
  have "fits (comma_list (map (\<lambda>_. ''?'') cols) @ '')'') (length cols)"
    by (rule fits_before [OF fits_qmarks]) (simp add: fits_rules)
  then show ?thesis using assms by (simp add: values_sql_def fits_parts fits_names)
qed

lemma accepted_insert: "plain_name table \<Longrightarrow> columns_ok (mm_columns meta) \<Longrightarrow> accepted (insert_model table meta model)"
  using fits_values [OF _ columns_ok_filter, of table "mm_columns meta" "\<lambda>col. \<not> skipped model col"]
  by (simp add: accepted_def insert_model_def Let_def fits_parts)

lemma fits_conflict:
  assumes "columns_ok (mm_columns meta)" "plain_name (cm_name conflict_col)"
  shows "fits (conflict_sql conflict_col meta) 0"
proof -
  let ?cols = "filter (\<lambda>col. \<not> (cm_name col = cm_name conflict_col \<or> cm_is_id col)) (mm_columns meta)"
  have "fits (comma_list (map (\<lambda>col. quote_ident (cm_name col) @ '' = excluded.'' @ quote_ident (cm_name col)) ?cols)) 0"
    using assms(1) by (intro fits_comma_list) (auto simp: columns_ok_def list_all_iff fits_parts)
  then show ?thesis using assms(2) by (simp add: conflict_sql_def Let_def fits_parts)
qed

lemma fits_row: "fits (row_sql driver cols model) (length (row_params cols model))"
proof -
  have "fits (comma_list (map (\<lambda>col. if skipped model col then (if driver = Driver_sqlite then ''NULL'' else ''DEFAULT'') else ''?'') cols))
      (sum_list (map (\<lambda>col. if skipped model col then 0 else 1) cols))"
    by (rule fits_comma_sum) (auto simp: fits_rules)
  moreover have "sum_list (map (\<lambda>col. if skipped model col then 0 else 1) cols) = length (row_params cols model)"
    by (induction cols) (auto simp: row_params_def)
  ultimately show ?thesis by (simp add: row_sql_def fits_rules fits_before)
qed

lemma accepted_rows:
  assumes "plain_name table" "columns_ok cols" "fits tail 0"
  shows "accepted (rows_plan driver table cols tail chunk)"
proof -
  have "fits (comma_list (map (row_sql driver cols) chunk)) (sum_list (map (\<lambda>m. length (row_params cols m)) chunk))"
    by (rule fits_comma_sum) (simp add: fits_row)
  with assms show ?thesis
    by (simp add: accepted_def rows_plan_def length_concat comp_def fits_parts fits_names [unfolded comp_def] fits_before)
qed

lemma index_bounds:
  assumes "meta_of_columns t cols = Inr meta"
  shows "mm_columns meta = cols" "mm_id_index meta = Some k \<Longrightarrow> k < length (mm_columns meta)"
    "conflict_index meta = Some k \<Longrightarrow> k < length (mm_columns meta)"
proof -
  have f: "k < length cols" if "first_id cols = Some k" for k
  proof -
    from that have "\<exists>c \<in> set cols. cm_is_id c" "k = length (takeWhile (\<lambda>c. \<not> cm_is_id c) cols)"
      by (auto simp: first_id_def split: if_splits)
    then show ?thesis by (metis length_takeWhile_le le_neq_implies_less set_takeWhileD takeWhile_eq_take take_all_iff order_refl)
  qed
  have m: "meta = foldl add_column (empty_meta t) cols" using assms by (simp add: meta_of_columns_Inr)
  then show "mm_columns meta = cols" by simp
  show "mm_id_index meta = Some k \<Longrightarrow> k < length (mm_columns meta)" using f by (simp add: m meta_id_index)
  have u: "k < length cols" if "mm_unique_indexes meta = k # ks" for k ks
  proof -
    from that have "k \<in> set (filter (\<lambda>i. cm_is_unique (cols ! i)) [0..<length cols])" by (simp add: m meta_unique_indexes)
    then show ?thesis by simp
  qed
  show "conflict_index meta = Some k \<Longrightarrow> k < length (mm_columns meta)"
    using f u by (auto simp: m meta_id_index conflict_index_def split: option.splits list.splits)
qed

lemma other_columns_ok:
  "columns_ok (mm_columns meta) \<Longrightarrow> columns_ok (other_columns k meta)"
  by (auto simp: columns_ok_def other_columns_def list_all_iff)

lemma accepted_update_by_id:
  assumes "plain_name table" "columns_ok (mm_columns meta)" "\<And>k. mm_id_index meta = Some k \<Longrightarrow> k < length (mm_columns meta)"
    and "update_by_id table meta model = Inr (Some plan)"
  shows "accepted plan"
proof -
  from assms(4) obtain k where k: "mm_id_index meta = Some k" by (auto simp: update_by_id_def split: option.splits)
  have "fits (comma_list (map (\<lambda>col. quote_ident (cm_name col) @ '' = ?'') (other_columns k meta)))
      (sum_list (map (\<lambda>_. 1) (other_columns k meta)))"
    using other_columns_ok [OF assms(2)] by (intro fits_comma_sum) (auto simp: columns_ok_def list_all_iff fits_parts)
  then have "fits (comma_list (map (\<lambda>col. quote_ident (cm_name col) @ '' = ?'') (other_columns k meta))
      @ '' WHERE '' @ quote_ident (cm_name (mm_columns meta ! k)) @ '' = ?'') (length (other_columns k meta) + 1)"
    using columns_ok_nth [OF assms(2) assms(3) [OF k]]
    by (intro fits_append) (simp_all add: fits_parts sum_list_triv)
  then show ?thesis using assms(1,4) k
    by (auto simp: update_by_id_def accepted_def Let_def fits_parts split: if_splits)
qed

lemma accepted_remove_by_id:
  assumes "plain_name table" "columns_ok (mm_columns meta)" "\<And>k. mm_id_index meta = Some k \<Longrightarrow> k < length (mm_columns meta)"
    and "remove_by_id table meta i = Inr plan"
  shows "accepted plan"
  using assms columns_ok_nth [OF assms(2)] by (auto simp: remove_by_id_def accepted_def fits_parts split: option.splits)

lemma accepted_upsert:
  assumes "plain_name table" "columns_ok (mm_columns meta)" "\<And>k. conflict_index meta = Some k \<Longrightarrow> k < length (mm_columns meta)"
  shows "accepted (upsert table meta model)"
proof -
  have "fits (values_sql table (filter (\<lambda>col. \<not> skipped model col) (mm_columns meta)) @ conflict_sql (mm_columns meta ! k) meta)
      (length (filter (\<lambda>col. \<not> skipped model col) (mm_columns meta)))" if "k < length (mm_columns meta)" for k
    using that assms(1,2) by (intro fits_before fits_values fits_conflict columns_ok_filter) (auto simp: columns_ok_def list_all_length)
  then show ?thesis using assms accepted_insert [OF assms(1,2)]
    by (auto simp: upsert_def accepted_def Let_def split: option.splits)
qed

lemma accepted_delete:
  assumes "plain_name table" "query_ok q" "delete_by_query table q full = Inr plan"
  shows "accepted plan"
proof -
  obtain s ps where w: "where_clause table q = (s, ps)" by force
  have "fits s (length ps)" using where_clause_fits [OF assms(1) _ w] assms(2) by (simp add: query_ok_def)
  with w assms show ?thesis by (auto simp: delete_by_query_def accepted_def Let_def fits_parts split: if_splits)
qed

lemma assignments_fit:
  assumes "assignments_sql as = Inr (ts, ps)"
    and "list_all (\<lambda>a. plain_name (ua_column a) \<and> fits (ua_sql_expression a) (length (ua_params a))) as"
  shows "fits (comma_list ts) (length ps)"
proof -
  have "ts = map (\<lambda>a. quote_ident (ua_column a) @ '' = '' @ ua_sql_expression a) as \<and> ps = concat (map ua_params as)"
    using assms(1) by (induction as arbitrary: ts ps) (auto split: if_splits sum.splits)
  moreover have "fits (comma_list (map (\<lambda>a. quote_ident (ua_column a) @ '' = '' @ ua_sql_expression a) as))
      (sum_list (map (\<lambda>a. length (ua_params a)) as))"
    using assms(2) by (intro fits_comma_sum) (auto simp: list_all_iff fits_parts)
  ultimately show ?thesis by (simp add: length_concat comp_def)
qed

lemma accepted_update:
  assumes "plain_name table" "query_ok q" "update_by_query table q as = Inr (Some plan)"
    and "list_all (\<lambda>a. plain_name (ua_column a) \<and> fits (ua_sql_expression a) (length (ua_params a))) as"
  shows "accepted plan"
proof -
  obtain s ws where w: "where_clause table q = (s, ws)" by force
  have "fits s (length ws)" using where_clause_fits [OF assms(1) _ w] assms(2) by (simp add: query_ok_def)
  moreover obtain ts ps where t: "assignments_sql as = Inr (ts, ps)"
    using assms(3) by (auto simp: update_by_query_def split: if_splits sum.splits)
  ultimately have "fits (comma_list ts @ s) (length ps + length ws)" using assignments_fit [OF _ assms(4)] by (intro fits_append) auto
  with w t assms show ?thesis by (auto simp: update_by_query_def accepted_def Let_def fits_parts split: if_splits)
qed

lemma fits_whens: "fits (concat (map (\<lambda>_. '' WHEN ? THEN ?'') chunk)) (2 * length chunk)"
proof (induction chunk)
  case (Cons m chunk)
  then show ?case by (simp add: fits_rules)
qed (simp add: fits_rules)

lemma accepted_case_update:
  assumes "plain_name table" "columns_ok cols" "BSLASH \<notin> set (cm_name id_col)"
  shows "accepted (case_update_plan table id_col cols chunk)"
    and "length (sp_params (case_update_plan table id_col cols chunk)) = length chunk * (length cols * 2 + 1)"
proof -
  have "fits (case_column_sql id_col chunk col) (2 * length chunk)" if "col \<in> set cols" for col
    using that assms(2,3) fits_whens [of chunk]
    by (auto simp: case_column_sql_def columns_ok_def list_all_iff fits_parts intro!: fits_before)
  then have "fits (comma_list (map (case_column_sql id_col chunk) cols)) (sum_list (map (\<lambda>_. 2 * length chunk) cols))"
    by (intro fits_comma_sum) blast
  moreover have "fits ('' WHERE '' @ quote_ident (cm_name id_col) @ '' IN ('' @ comma_list (map (\<lambda>_. ''?'') chunk) @ '')'') (length chunk)"
    using assms(3) by (simp add: fits_parts fits_before fits_qmarks)
  ultimately have "fits (comma_list (map (case_column_sql id_col chunk) cols)
      @ '' WHERE '' @ quote_ident (cm_name id_col) @ '' IN ('' @ comma_list (map (\<lambda>_. ''?'') chunk) @ '')'')
      (sum_list (map (\<lambda>_. 2 * length chunk) cols) + length chunk)" by (rule fits_append)
  moreover show n: "length (sp_params (case_update_plan table id_col cols chunk)) = length chunk * (length cols * 2 + 1)"
    by (simp add: case_update_plan_def length_concat comp_def sum_list_triv)
  ultimately show "accepted (case_update_plan table id_col cols chunk)"
    using assms(1) unfolding accepted_def n by (simp add: case_update_plan_def fits_parts sum_list_triv ac_simps)
qed

lemma include_ok: "columns_ok (mm_columns meta) \<Longrightarrow> columns_ok (include_columns meta models)"
  by (simp add: include_columns_def columns_ok_filter)

lemma accepted_batch_insert:
  assumes "plain_name table" "columns_ok (mm_columns meta)"
  shows "list_all accepted (batch_insert_plans driver table meta models batch_size)"
  using accepted_insert [OF assms] accepted_rows [OF assms(1) include_ok [OF assms(2)], of "[]"]
  by (auto simp: batch_insert_plans_def list_all_iff Let_def fits_rules)

lemma accepted_batch_upsert:
  assumes "plain_name table" "columns_ok (mm_columns meta)" "\<And>k. conflict_index meta = Some k \<Longrightarrow> k < length (mm_columns meta)"
  shows "list_all accepted (batch_upsert_plans driver table meta models batch_size)"
proof -
  have "fits (conflict_sql (mm_columns meta ! k) meta) 0" if "conflict_index meta = Some k" for k
    using assms(2) assms(3) [OF that] by (intro fits_conflict) (auto simp: columns_ok_def list_all_length)
  then show ?thesis
    using accepted_batch_insert [OF assms(1,2), of driver models batch_size] accepted_upsert [OF assms]
      accepted_rows [OF assms(1) include_ok [OF assms(2)]]
    by (auto simp: batch_upsert_plans_def list_all_iff Let_def split: option.splits)
qed

lemma accepted_batch_update:
  assumes "plain_name table" "columns_ok (mm_columns meta)" "\<And>k. mm_id_index meta = Some k \<Longrightarrow> k < length (mm_columns meta)"
    and "batch_update_plans driver table meta models batch_size = Inr plans"
  shows "list_all accepted plans"
proof -
  obtain k where k: "mm_id_index meta = Some k" using assms(4) by (auto simp: batch_update_plans_def split: option.splits)
  show ?thesis
    using assms(4) k accepted_update_by_id [OF assms(1-3)]
      accepted_case_update(1) [OF assms(1) other_columns_ok [OF assms(2), of k] columns_ok_nth [OF assms(2) assms(3) [OF k]]]
    by (auto simp: batch_update_plans_def update_all_by_id_def list_all_iff Let_def split: if_splits sum.splits option.splits)
qed

text \<open>
  C32: Every statement the mapper writes for a model has one placeholder per parameter it is sent with, in whatever
  state the model is (columns left to the database included) and however a batch is cut: inserts,
  updates, upserts and deletions of one row, updates and deletions by query, and the statements of
  batches.\<close>

theorem mapper_statements_match:
  assumes "meta_of_columns t cols = Inr meta" and "plain_name table" and "list_all (\<lambda>col. plain_name (cm_name col)) cols"
    and "query_ok q" and "list_all (\<lambda>a. plain_name (ua_column a) \<and> fits (ua_sql_expression a) (length (ua_params a))) as"
    and "plan = insert_model table meta model \<or> plan = upsert table meta model
       \<or> update_by_id table meta model = Inr (Some plan) \<or> remove_by_id table meta i = Inr plan
       \<or> update_by_query table q as = Inr (Some plan) \<or> delete_by_query table q full = Inr plan
       \<or> plan \<in> set (batch_insert_plans driver table meta models n) \<or> plan \<in> set (batch_upsert_plans driver table meta models n)
       \<or> (\<exists>plans. batch_update_plans driver table meta models n = Inr plans \<and> plan \<in> set plans)"
  shows "count_placeholders (sp_sql plan) = length (sp_params plan)"
proof -
  note b = index_bounds [OF assms(1)]
  have c: "columns_ok (mm_columns meta)" using assms(3) b(1) by (simp add: columns_ok_def)
  from assms(6) have "accepted plan"
    using accepted_insert [OF assms(2) c] accepted_upsert [OF assms(2) c b(3)] accepted_update_by_id [OF assms(2) c b(2)]
      accepted_remove_by_id [OF assms(2) c b(2)] accepted_update [OF assms(2,4) _ assms(5)] accepted_delete [OF assms(2,4)]
      accepted_batch_insert [OF assms(2) c] accepted_batch_upsert [OF assms(2) c b(3)] accepted_batch_update [OF assms(2) c b(2)]
    by (elim disjE exE conjE) (auto simp: list_all_iff)
  then show ?thesis unfolding accepted_def by (rule fits_count)
qed

text \<open>What a query chain sends: the statement of its query for rows, or the one that counts them.\<close>

definition chain_plan :: "string \<Rightarrow> ('m, 'd) model_meta \<Rightarrow> 'd query \<Rightarrow> chain_end \<Rightarrow> 'd sql_plan" where
  "chain_plan table meta q fin =
     (case fin of End_list \<Rightarrow> build_select_plan table (mm_columns meta) q | End_one \<Rightarrow> select_one table meta q
      | End_count \<Rightarrow> count_filtered table meta q | End_count_filtered \<Rightarrow> count_filtered table meta q
      | End_count_window \<Rightarrow> count_window table meta q)"

lemma query_ok_window:
  "query_ok q \<Longrightarrow> query_ok (with_limit_if_absent n q)" "query_ok q \<Longrightarrow> query_ok (without_window_clauses q)"
  by (auto simp: query_ok_def with_limit_if_absent_def without_window_clauses_def fits_rules)

lemma accepted_count_plan:
  assumes "plain_name table" "columns_ok (mm_columns meta)" "query_ok q"
  shows "accepted (count_from_query table meta q)"
  using select_plan_fits [OF assms(1) _ assms(3), of "mm_columns meta"] assms(2)
  by (auto simp: accepted_def count_from_query_def columns_ok_def Let_def fits_parts intro!: fits_before)

text \<open>
  Whatever calls build a query chain, it sends one statement that has one placeholder per parameter, and the
  parameters are the values of its calls, whether it asks for the rows, for the first of them or for their number.\<close>

theorem query_chain_sends_values:
  assumes "apply_ops g env ops empty_query = Inr q" and "env_ok env" and "list_all op_ok ops"
    and "plain_name table" and "columns_ok (mm_columns meta)"
  shows "sp_params (chain_plan table meta q fin) = concat (map where_values ops) @ concat (map having_values ops)
    \<and> count_placeholders (sp_sql (chain_plan table meta q fin)) = length (sp_params (chain_plan table meta q fin))
    \<and> (\<forall>e. run (chain_plan table meta q fin) = Inl e \<longrightarrow> query_chain g env run fresh table meta ops fin = Inl e)"
proof -
  have "query_ok (empty_query :: 'a query)" by (simp add: query_ok_def empty_query_def fits_rules)
  from op_grows(2) [OF assms(2,3) this assms(1)] have q: "query_ok q"
    "concat (map pred_values (q_predicates q)) = concat (map where_values ops)"
    "concat (map hv_params (q_having_clauses q)) = concat (map having_values ops)"
    by (simp_all add: grows_def empty_query_def)
  have c: "list_all (\<lambda>c. plain_name (cm_name c)) (mm_columns meta)" using assms(5) by (simp add: columns_ok_def)
  have "accepted (chain_plan table meta q fin)"
    using select_plan_fits [OF assms(4) c q(1)] select_plan_fits [OF assms(4) c query_ok_window(1) [OF q(1)]]
      accepted_count_plan [OF assms(4,5) q(1)] accepted_count_plan [OF assms(4,5) query_ok_window(2) [OF q(1)]]
    by (cases fin) (simp_all add: chain_plan_def accepted_def select_one_def count_filtered_def count_window_def)
  moreover have "sp_params (chain_plan table meta q fin) = concat (map where_values ops) @ concat (map having_values ops)"
    by (cases fin) (simp_all add: chain_plan_def select_one_def count_filtered_def count_window_def count_from_query_def Let_def
        select_plan_params with_limit_if_absent_def without_window_clauses_def q)
  moreover have "query_chain g env run fresh table meta ops fin = Inl e" if "run (chain_plan table meta q fin) = Inl e" for e
    using that assms(1)
    by (cases fin) (simp_all add: query_chain_def chain_plan_def select_list_def select_one_row_def select_one_def count_rows_def)
  ultimately show ?thesis using fits_count unfolding accepted_def by blast
qed

lemma concat_map_concat: "concat (map (\<lambda>xs. concat (map f xs)) xss) = concat (map f (concat xss))"
  by (induction xss) simp_all

text \<open>
  A batch insert loses and repeats nothing: the parameters of its statements, one after the other, are those of
  the models in their order, and no statement has more parameters than the driver's limit unless it
  is for a single model.\<close>

theorem batch_insert_exact:
  assumes "include_columns meta models \<noteq> []"
  shows "concat (map sp_params (batch_insert_plans driver table meta models batch_size))
      = concat (map (row_params (include_columns meta models)) models)
    \<and> (\<forall>plan \<in> set (batch_insert_plans driver table meta models batch_size).
         length (sp_params plan) \<le> max_params driver \<or> (\<exists>m \<in> set models. sp_params plan = row_params (include_columns meta models) m))"
proof -
  let ?cols = "include_columns meta models"
  let ?chunks = "batch_chunks batch_size (max_params driver) (row_param_count ?cols) models"
  have n: "length (row_params ?cols m) = row_param_count ?cols m" for m by (simp add: row_params_def row_param_count_def)
  have p: "batch_insert_plans driver table meta models batch_size = map (rows_plan driver table ?cols []) ?chunks"
    using assms by (simp add: batch_insert_plans_def Let_def)
  note c = batch_chunks_parts [of batch_size "max_params driver" "row_param_count ?cols" models]
  have "concat (map (\<lambda>chunk. concat (map (row_params ?cols) chunk)) ?chunks) = concat (map (row_params ?cols) (concat ?chunks))"
    by (rule concat_map_concat)
  then have "concat (map sp_params (map (rows_plan driver table ?cols []) ?chunks)) = concat (map (row_params ?cols) models)"
    using c by (simp add: rows_plan_def comp_def)
  moreover have "length (sp_params (rows_plan driver table ?cols [] chunk)) \<le> max_params driver
      \<or> (\<exists>m \<in> set models. sp_params (rows_plan driver table ?cols [] chunk) = row_params ?cols m)" if "chunk \<in> set ?chunks" for chunk
  proof (cases "length chunk = 1")
    case True
    then obtain m where m: "chunk = [m]" by (auto simp: length_Suc_conv)
    moreover have "set chunk \<subseteq> set models" using c that by blast
    ultimately show ?thesis by (auto simp: rows_plan_def)
  next
    case False
    with c that have "sum_list (map (row_param_count ?cols) chunk) \<le> max_params driver" by blast
    then show ?thesis by (simp add: rows_plan_def length_concat comp_def n)
  qed
  ultimately show ?thesis unfolding p by auto
qed

text \<open>
  An update in batches stays within the driver's limit: every statement of it has at most as many parameters as the
  driver allows, unless a single row of the table is too wide, and together they cover the models once each, in order.\<close>

theorem batch_update_bounded:
  assumes "mm_id_index meta = Some k" and "other_columns k meta \<noteq> []" and "length (other_columns k meta) * 2 + 1 \<le> max_params driver"
  shows "\<exists>chunks. batch_update_plans driver table meta models batch_size
        = Inr (map (case_update_plan table (mm_columns meta ! k) (other_columns k meta)) chunks)
      \<and> concat chunks = models
      \<and> (\<forall>chunk \<in> set chunks. chunk \<noteq> [] \<and> (0 < batch_size \<longrightarrow> length chunk \<le> batch_size)
           \<and> length (sp_params (case_update_plan table (mm_columns meta ! k) (other_columns k meta) chunk)) \<le> max_params driver)"
proof -
  let ?cols = "other_columns k meta"
  let ?p = "length ?cols * 2 + 1"
  define auto_size where "auto_size = max 1 (max_params driver div ?p)"
  define size where "size = (if batch_size > 0 then min auto_size batch_size else auto_size)"
  have "max 1 d * p \<le> M" if "p \<le> M" "d * p \<le> M" for d p M :: nat using that by (cases d) simp_all
  from this [OF assms(3) div_times_less_eq_dividend] have "auto_size * ?p \<le> max_params driver" unfolding auto_size_def .
  moreover have s: "0 < size" "size \<le> auto_size" "0 < batch_size \<longrightarrow> size \<le> batch_size" by (auto simp: size_def auto_size_def)
  ultimately have "size * ?p \<le> max_params driver" by (meson mult_le_mono1 order_trans)
  then have m: "l * ?p \<le> max_params driver" if "l \<le> size" for l using that by (meson mult_le_mono1 order_trans)
  have "batch_update_plans driver table meta models batch_size
      = Inr (map (case_update_plan table (mm_columns meta ! k) ?cols) (slices size models))"
    using assms by (simp add: batch_update_plans_def size_def auto_size_def Let_def)
  moreover have "length (sp_params (case_update_plan table (mm_columns meta ! k) ?cols chunk)) = length chunk * ?p" for chunk
    by (simp add: case_update_plan_def length_concat comp_def sum_list_triv)
  ultimately show ?thesis
    using slices_parts [OF s(1), of models] s m by (intro exI [of _ "slices size models"]) auto
qed

section \<open>Guards\<close>

text \<open>
  Without the explicit permission a deletion by query always has a condition: the statement it sends has a
  \<open>WHERE\<close> clause whose text is that of the query's conditions, and a query with none is refused, as is
  one with joins, groups, an order, a window or a tail, whose effect would be dropped.\<close>

theorem delete_needs_condition:
  assumes "delete_by_query table q full = Inr plan"
  shows "(q_predicates q = [] \<longrightarrow> full)
    \<and> (q_predicates q \<noteq> [] \<longrightarrow> (\<exists>s. append_predicates_sql table False (q_predicates q) = (s, sp_params plan, True)
         \<and> sp_sql plan = ''DELETE FROM '' @ quote_ident table @ '' WHERE '' @ s))
    \<and> q_joins q = [] \<and> q_group_by_columns q = [] \<and> q_having_clauses q = [] \<and> q_orders q = []
    \<and> q_limit q = None \<and> q_offset q = None \<and> q_sql_tail q = []"
proof -
  obtain s ps any where a: "append_predicates_sql table False (q_predicates q) = (s, ps, any)" by (metis prod_cases3)
  with assms append_predicates_any [OF a] show ?thesis
    by (auto simp: delete_by_query_def where_clause_def Let_def split: if_splits)
qed

text \<open>An update by query has no such guard: without conditions it changes all rows, and an order or a tail is silently
  dropped.\<close>

theorem update_all_rows:
  "update_by_query table (empty_query\<lparr>q_orders := os, q_sql_tail := t\<rparr>) [\<lparr>ua_column = ''c'', ua_sql_expression = ''?'', ua_params = [v]\<rparr>]
     = Inr (Some \<lparr>sp_sql = ''UPDATE '' @ quote_ident table @ '' SET '' @ quote_ident ''c'' @ '' = ?'', sp_params = [v]\<rparr>)"
  by (simp add: update_by_query_def where_clause_def empty_query_def)

text \<open>The mapper's own query by key is unmarked raw text, which the strict policy refuses.\<close>

theorem select_by_id_refused:
  "mm_id_index meta = Some k \<Longrightarrow> \<exists>e. select_by_id (set_raw_sql_policy Require_unsafe_marker g) table meta i = Inl e"
  by (simp add: select_by_id_def where_raw_def validate_raw_sql_def set_raw_sql_policy_def quote_ident_def)

lemma chain_op_assigned:
  "chain_op g env op c = Inr c' \<Longrightarrow> uc_assigned_columns c = set (map ua_column (uc_assignments c)) \<Longrightarrow>
     uc_assigned_columns c' = set (map ua_column (uc_assignments c'))"
  by (cases op) (auto simp: chain_set_def chain_set_if_absent_def chain_set_sql_def push_assignment_def split: sum.splits if_splits)

text \<open>
  An update chain knows exactly which columns it assigns, whatever calls built it; so a default set with
  \<open>setIfAbsent\<close> never assigns a column that has a value, and always one that has none.\<close>

theorem chain_assigned_exact:
  assumes "chain_ops g env ops chain_start = Inr c"
  shows "uc_assigned_columns c = set (map ua_column (uc_assignments c))
    \<and> (mt_column (me_own env) member = Inr column \<longrightarrow>
         chain_op g env (U_set_if_absent member value) c
           = Inr (if column \<in> set (map ua_column (uc_assignments c)) then c else push_assignment column ''?'' [value] c))"
proof -
  have "uc_assigned_columns c = set (map ua_column (uc_assignments c))"
    if "chain_ops g env ops c0 = Inr c" "uc_assigned_columns c0 = set (map ua_column (uc_assignments c0))" for c0
    using that by (induction ops arbitrary: c0) (auto split: sum.splits dest: chain_op_assigned)
  from this [OF assms] show ?thesis by (simp add: chain_start_def chain_set_if_absent_def)
qed

text \<open>Setting a column twice writes it twice, which databases other than SQLite and MySQL refuse.\<close>

theorem set_twice_assigns_twice:
  "mt_column (me_own env) member = Inr column \<Longrightarrow>
     \<exists>c. chain_ops g env [U_set member v, U_set member v'] chain_start = Inr c \<and> map ua_column (uc_assignments c) = [column, column]"
  by (simp add: chain_set_def push_assignment_def chain_start_def)

section \<open>Batches are atomic\<close>


section \<open>Instances\<close>

text \<open>A table with a key that the database counts and one text; a model is the pair of them, with key 0 for none.\<close>

definition sample_columns :: "(nat \<times> string, int) column_meta list" where
  "sample_columns =
     [\<lparr>cm_name = ''id'', cm_offset = 0, cm_is_id = True, cm_is_auto_increment = True, cm_is_unique = False, cm_is_indexed = False,
       cm_is_optional = False, cm_sql_type = ''INTEGER'', cm_read_param = (\<lambda>m. SP_int64 (of_nat (fst m))),
       cm_write_cell = (\<lambda>m c. Inr m), cm_is_default = (\<lambda>m. fst m = 0)\<rparr>,
      \<lparr>cm_name = ''note'', cm_offset = 8, cm_is_id = False, cm_is_auto_increment = False, cm_is_unique = False, cm_is_indexed = False,
       cm_is_optional = False, cm_sql_type = ''TEXT'', cm_read_param = (\<lambda>m. SP_text (snd m)),
       cm_write_cell = (\<lambda>m c. Inr m), cm_is_default = (\<lambda>m. snd m = [])\<rparr>]"

definition sample_meta :: "(nat \<times> string, int) model_meta" where
  "sample_meta = foldl add_column (empty_meta ''t'') sample_columns"

lemma sample_facts:
  "meta_of_columns ''t'' sample_columns = Inr sample_meta" "mm_columns sample_meta = sample_columns" "mm_id_index sample_meta = Some 0"
  by (simp_all add: sample_meta_def meta_of_columns_Inr sample_columns_def meta_id_index first_id_def del: foldl_Cons)

theorem mapper_statements_match_witness:
  "count_placeholders (sp_sql (insert_model ''t'' sample_meta (0, ''x''))) = length (sp_params (insert_model ''t'' sample_meta (0, ''x'')))"
proof -
  have "query_ok (empty_query :: int query)" by (simp add: query_ok_def empty_query_def fits_rules)
  then show ?thesis
    using mapper_statements_match [OF sample_facts(1), of "''t''" empty_query "[]" "insert_model ''t'' sample_meta (0, ''x'')" "(0, ''x'')"]
    by (simp add: plain_char_def sample_columns_def)
qed

theorem query_chain_sends_values_witness:
  "\<exists>q. apply_ops initial_raw_sql_guard \<lparr>me_own = \<lparr>mt_table = ''t'', mt_column = \<lambda>off. Inr ''note''\<rparr>, me_joined = \<lambda>ty. \<lparr>mt_table = ''u'', mt_column = \<lambda>off. Inr ''d''\<rparr>\<rparr>
       [Q_eq (Sel_own 8) (SP_text ''v''), Q_limit 3] empty_query = Inr q
   \<and> sp_params (chain_plan ''t'' sample_meta q End_count) = [SP_text ''v'']"
proof -
  let ?env = "\<lparr>me_own = \<lparr>mt_table = ''t'', mt_column = \<lambda>off. Inr ''note''\<rparr>, me_joined = \<lambda>ty. \<lparr>mt_table = ''u'', mt_column = \<lambda>off. Inr ''d''\<rparr>\<rparr>"
  let ?ops = "[Q_eq (Sel_own 8) (SP_text ''v''), Q_limit 3]"
  obtain q where q: "apply_ops initial_raw_sql_guard ?env ?ops (empty_query :: int query) = Inr q"
    by (simp add: with_column_def resolve_selector_def)
  have "env_ok ?env" by (simp add: env_ok_def model_type_ok_def plain_char_def)
  moreover have "list_all op_ok ?ops" by (simp add: fits_rules)
  ultimately show ?thesis
    using query_chain_sends_values [OF q, of "''t''" sample_meta End_count "\<lambda>p. Inl []" "(0, [])"] q
    by (simp add: plain_char_def columns_ok_def sample_facts sample_columns_def)
qed

theorem batch_insert_exact_witness:
  "concat (map sp_params (batch_insert_plans Driver_sqlite ''t'' sample_meta [(0, ''x''), (0, ''y'')] 0)) = [SP_text ''x'', SP_text ''y'']"
proof -
  have "include_columns sample_meta [(0, ''x''), (0, ''y'')] = [sample_columns ! 1]"
    by (simp add: include_columns_def sample_facts sample_columns_def)
  with batch_insert_exact [of sample_meta "[(0, ''x''), (0, ''y'')]" Driver_sqlite "''t''" 0] show ?thesis
    by (simp add: row_params_def skipped_def sample_columns_def)
qed

theorem batch_update_bounded_witness:
  "\<exists>chunks. batch_update_plans Driver_sqlite ''t'' sample_meta [(1, ''x'')] 0
      = Inr (map (case_update_plan ''t'' (mm_columns sample_meta ! 0) (other_columns 0 sample_meta)) chunks) \<and> concat chunks = [(1, ''x'')]"
proof -
  have "other_columns 0 sample_meta = [sample_columns ! 1]" by (simp add: other_columns_def sample_facts) (simp add: sample_columns_def)
  with batch_update_bounded [OF sample_facts(3), of Driver_sqlite "''t''" "[(1, ''x'')]" 0] show ?thesis
    by (auto simp: max_params_def)
qed

theorem delete_needs_condition_witness:
  "delete_by_query ''t'' (empty_query :: int query) True = Inr \<lparr>sp_sql = ''DELETE FROM '' @ quote_ident ''t'', sp_params = []\<rparr>
   \<and> q_joins (empty_query :: int query) = []"
proof -
  have "delete_by_query ''t'' (empty_query :: int query) True = Inr \<lparr>sp_sql = ''DELETE FROM '' @ quote_ident ''t'', sp_params = []\<rparr>"
    by (simp add: delete_by_query_def where_clause_def empty_query_def)
  from delete_needs_condition [OF this] this show ?thesis by simp
qed

theorem chain_assigned_exact_witness:
  "\<exists>c. chain_ops initial_raw_sql_guard \<lparr>me_own = \<lparr>mt_table = ''t'', mt_column = \<lambda>off. Inr ''c''\<rparr>, me_joined = \<lambda>ty. \<lparr>mt_table = [], mt_column = \<lambda>off. Inr []\<rparr>\<rparr>
      [U_set 0 (SP_text ''v'')] (chain_start :: int update_chain) = Inr c \<and> uc_assigned_columns c = {''c''}"
proof -
  let ?env = "\<lparr>me_own = \<lparr>mt_table = ''t'', mt_column = \<lambda>off. Inr ''c''\<rparr>, me_joined = \<lambda>ty. \<lparr>mt_table = [], mt_column = \<lambda>off. Inr []\<rparr>\<rparr>"
  obtain c where c: "chain_ops initial_raw_sql_guard ?env [U_set 0 (SP_text ''v'')] (chain_start :: int update_chain) = Inr c"
    by (simp add: chain_set_def)
  then have "map ua_column (uc_assignments c) = [''c'']" by (auto simp: chain_set_def push_assignment_def chain_start_def)
  with chain_assigned_exact [OF c] c show ?thesis by simp
qed


end
