(* ===== verification/Orm_Relation.thy ===== *)
theory Orm_Relation
  imports Orm_Mapper
begin

text \<open>
  The relation loaders of the object mapper (\<open>load_one_to_many\<close>, \<open>load_many_to_one\<close> and \<open>load_many_to_many\<close> in
  \<open>layer3/include/async_uv_layer3/orm.hpp\<close>): they collect keys, ask for the related rows with one \<open>IN\<close> condition, and
  put the rows back together in memory. The mapper that runs a statement and decodes its rows is a parameter, as are the
  keys of a model (\<open>extract_member_key\<close>: none for an empty optional) and the cast between two key types.
\<close>

section \<open>Keys\<close>

text \<open>The loop of \<open>dedupe_keys\<close>, with the keys already seen.\<close>

fun dedupe_loop :: "'k set \<Rightarrow> 'k list \<Rightarrow> 'k list" where
  "dedupe_loop seen [] = []"
| "dedupe_loop seen (k # ks) = (if k \<in> seen then dedupe_loop seen ks else k # dedupe_loop (insert k seen) ks)"

definition dedupe_keys :: "'k list \<Rightarrow> 'k list" where
  "dedupe_keys keys = dedupe_loop {} keys"

definition collect_keys :: "('m \<Rightarrow> 'k option) \<Rightarrow> 'm list \<Rightarrow> 'k list" where
  "collect_keys key models = dedupe_keys (List.map_filter key models)"

text \<open>A mapper of another model: its table, its columns, the column of the key, how a key becomes a parameter, and what
  \<open>select_list\<close> returns for a statement.\<close>

record ('k, 'm, 'd) key_mapper =
  km_table :: string
  km_columns :: "('m, 'd) column_meta list"
  km_key_column :: string
  km_param :: "'k \<Rightarrow> 'd sql_param"
  km_select :: "'d sql_plan \<Rightarrow> string + 'm list"

definition select_in :: "('k, 'm, 'd) key_mapper \<Rightarrow> 'd query \<Rightarrow> 'k list \<Rightarrow> string + 'm list" where
  "select_in km q keys =
     km_select km (build_select_plan (km_table km) (km_columns km) (add_in (km_key_column km) (map (km_param km) keys) ''IN'' q))"

section \<open>One to many\<close>

definition empty_groups :: "'k list \<Rightarrow> 'k \<rightharpoonup> 'r list" where
  "empty_groups keys k = (if k \<in> set keys then Some [] else None)"

fun group_rows :: "('r \<Rightarrow> 'k option) \<Rightarrow> 'r list \<Rightarrow> ('k \<rightharpoonup> 'r list) \<Rightarrow> 'k \<rightharpoonup> 'r list" where
  "group_rows key [] grouped = grouped"
| "group_rows key (row # rows) grouped =
     (case key row of None \<Rightarrow> group_rows key rows grouped
      | Some k \<Rightarrow>
          (case grouped k of None \<Rightarrow> group_rows key rows grouped
           | Some bucket \<Rightarrow> group_rows key rows (grouped(k \<mapsto> bucket @ [row]))))"

definition load_one_to_many ::
  "('o \<Rightarrow> 'k option) \<Rightarrow> ('r \<Rightarrow> 'f option) \<Rightarrow> ('f \<Rightarrow> 'k) \<Rightarrow> ('k, 'r, 'd) key_mapper \<Rightarrow> 'd query \<Rightarrow> 'o list
     \<Rightarrow> string + ('k \<rightharpoonup> 'r list)" where
  "load_one_to_many local_key foreign_key cast related related_query owners =
     (if owners = [] then Inr Map.empty
      else let keys = collect_keys local_key owners in
        if keys = [] then Inr Map.empty
        else case select_in related related_query keys of Inl e \<Rightarrow> Inl e
          | Inr rows \<Rightarrow> Inr (group_rows (\<lambda>r. map_option cast (foreign_key r)) rows (empty_groups keys)))"

definition load_one_to_many_single ::
  "('o \<Rightarrow> 'k option) \<Rightarrow> ('r \<Rightarrow> 'f option) \<Rightarrow> ('f \<Rightarrow> 'k) \<Rightarrow> ('k, 'r, 'd) key_mapper \<Rightarrow> 'd query \<Rightarrow> 'o \<Rightarrow> string + 'r list" where
  "load_one_to_many_single local_key foreign_key cast related related_query owner =
     (case local_key owner of None \<Rightarrow> Inr []
      | Some k \<Rightarrow>
          case load_one_to_many local_key foreign_key cast related related_query [owner] of Inl e \<Rightarrow> Inl e
          | Inr grouped \<Rightarrow> Inr (case grouped k of None \<Rightarrow> [] | Some rows \<Rightarrow> rows))"

section \<open>Many to one\<close>

fun index_rows :: "('r \<Rightarrow> 'k option) \<Rightarrow> 'r list \<Rightarrow> ('k \<rightharpoonup> 'r) \<Rightarrow> 'k \<rightharpoonup> 'r" where
  "index_rows key [] m = m"
| "index_rows key (row # rows) m = index_rows key rows (case key row of None \<Rightarrow> m | Some k \<Rightarrow> m(k \<mapsto> row))"

definition load_many_to_one ::
  "('c \<Rightarrow> 'k option) \<Rightarrow> ('p \<Rightarrow> 'f option) \<Rightarrow> ('f \<Rightarrow> 'k) \<Rightarrow> ('k, 'p, 'd) key_mapper \<Rightarrow> 'd query \<Rightarrow> 'c list
     \<Rightarrow> string + ('k \<rightharpoonup> 'p)" where
  "load_many_to_one foreign_key parent_key cast parents parent_query children =
     (if children = [] then Inr Map.empty
      else let keys = collect_keys foreign_key children in
        if keys = [] then Inr Map.empty
        else case select_in parents parent_query keys of Inl e \<Rightarrow> Inl e
          | Inr rows \<Rightarrow> Inr (index_rows (\<lambda>p. map_option cast (parent_key p)) rows Map.empty))"

definition load_many_to_one_single ::
  "('c \<Rightarrow> 'k option) \<Rightarrow> ('k, 'p, 'd) key_mapper \<Rightarrow> 'd query \<Rightarrow> 'c \<Rightarrow> string + 'p option" where
  "load_many_to_one_single foreign_key parents parent_query child =
     (case foreign_key child of None \<Rightarrow> Inr None
      | Some k \<Rightarrow>
          let q = (add_binary (km_key_column parents) ''='' (km_param parents k) parent_query)\<lparr>q_limit := Some 1\<rparr> in
          case km_select parents (build_select_plan (km_table parents) (km_columns parents) (with_limit_if_absent 1 q)) of
            Inl e \<Rightarrow> Inl e | Inr rows \<Rightarrow> Inr (case rows of [] \<Rightarrow> None | p # _ \<Rightarrow> Some p))"

section \<open>Many to many\<close>

text \<open>The loop over the rows of the join table: the keys of the related rows, by owner and each once.\<close>

record ('k, 'j) join_scan =
  js_by_owner :: "'k \<rightharpoonup> 'j list"
  js_set :: "'j set"
  js_keys :: "'j list"

definition scan_join_row ::
  "('k \<rightharpoonup> 'r list) \<Rightarrow> ('x \<Rightarrow> 'k option) \<Rightarrow> ('x \<Rightarrow> 'j option) \<Rightarrow> ('k, 'j) join_scan \<Rightarrow> 'x \<Rightarrow> ('k, 'j) join_scan" where
  "scan_join_row grouped owner_of related_of s row =
     (case (owner_of row, related_of row) of
        (Some k, Some j) \<Rightarrow>
          if grouped k = None then s
          else let bucket = (case js_by_owner s k of None \<Rightarrow> [] | Some b \<Rightarrow> b);
                   s1 = s\<lparr>js_by_owner := (js_by_owner s)(k \<mapsto> bucket @ [j])\<rparr> in
            if j \<in> js_set s1 then s1 else s1\<lparr>js_set := insert j (js_set s1), js_keys := js_keys s1 @ [j]\<rparr>
      | _ \<Rightarrow> s)"

definition fill_groups :: "('k \<rightharpoonup> 'j list) \<Rightarrow> ('j \<rightharpoonup> 'r) \<Rightarrow> ('k \<rightharpoonup> 'r list) \<Rightarrow> 'k \<rightharpoonup> 'r list" where
  "fill_groups by_owner related_by_key grouped k =
     (case by_owner k of None \<Rightarrow> grouped k
      | Some js \<Rightarrow> map_option (\<lambda>bucket. bucket @ List.map_filter related_by_key js) (grouped k))"

definition load_many_to_many ::
  "('o \<Rightarrow> 'k option) \<Rightarrow> ('k, 'x, 'd) key_mapper \<Rightarrow> ('x \<Rightarrow> 'f option) \<Rightarrow> ('f \<Rightarrow> 'k) \<Rightarrow> ('x \<Rightarrow> 'j option)
     \<Rightarrow> ('j, 'r, 'd) key_mapper \<Rightarrow> ('r \<Rightarrow> 'g option) \<Rightarrow> ('g \<Rightarrow> 'j) \<Rightarrow> 'd query \<Rightarrow> 'o list \<Rightarrow> string + ('k \<rightharpoonup> 'r list)" where
  "load_many_to_many local_key joins join_local cast related_of related related_key cast' related_query owners =
     (if owners = [] then Inr Map.empty
      else let keys = collect_keys local_key owners in
        if keys = [] then Inr Map.empty
        else case select_in joins empty_query keys of Inl e \<Rightarrow> Inl e
          | Inr join_rows \<Rightarrow>
              let grouped = empty_groups keys;
                  s = foldl (scan_join_row grouped (\<lambda>x. map_option cast (join_local x)) related_of)
                        \<lparr>js_by_owner = Map.empty, js_set = {}, js_keys = []\<rparr> join_rows in
              if js_keys s = [] then Inr grouped
              else case select_in related related_query (js_keys s) of Inl e \<Rightarrow> Inl e
                | Inr rows \<Rightarrow>
                    Inr (fill_groups (js_by_owner s) (index_rows (\<lambda>r. map_option cast' (related_key r)) rows Map.empty) grouped))"

definition load_many_to_many_single ::
  "('o \<Rightarrow> 'k option) \<Rightarrow> ('k, 'x, 'd) key_mapper \<Rightarrow> ('x \<Rightarrow> 'f option) \<Rightarrow> ('f \<Rightarrow> 'k) \<Rightarrow> ('x \<Rightarrow> 'j option)
     \<Rightarrow> ('j, 'r, 'd) key_mapper \<Rightarrow> ('r \<Rightarrow> 'g option) \<Rightarrow> ('g \<Rightarrow> 'j) \<Rightarrow> 'd query \<Rightarrow> 'o \<Rightarrow> string + 'r list" where
  "load_many_to_many_single local_key joins join_local cast related_of related related_key cast' related_query owner =
     (case local_key owner of None \<Rightarrow> Inr []
      | Some k \<Rightarrow>
          case load_many_to_many local_key joins join_local cast related_of related related_key cast' related_query [owner] of
            Inl e \<Rightarrow> Inl e | Inr grouped \<Rightarrow> Inr (case grouped k of None \<Rightarrow> [] | Some rows \<Rightarrow> rows))"

section \<open>What the loops compute\<close>

lemma dedupe_loop_props: "set (dedupe_loop seen ks) = set ks - seen \<and> distinct (dedupe_loop seen ks)"
  by (induction seen ks rule: dedupe_loop.induct) auto

lemma collect_keys_set: "set (collect_keys key ms) = {k. \<exists>m \<in> set ms. key m = Some k}" "distinct (collect_keys key ms)"
  by (auto simp: collect_keys_def dedupe_keys_def dedupe_loop_props map_filter_def) force

lemma group_rows_filter:
  "group_rows key rows grouped k = map_option (\<lambda>bucket. bucket @ filter (\<lambda>r. key r = Some k) rows) (grouped k)"
proof (induction rows arbitrary: grouped)
  case Nil
  then show ?case by (simp add: option.map_ident)
next
  case (Cons row rows)
  show ?case
  proof (cases "key row")
    case (Some k')
    show ?thesis
      by (cases "k' = k"; cases "grouped k'") (simp_all add: Some Cons.IH)
  qed (simp add: Cons.IH)
qed

lemma index_rows_find:
  "index_rows key rows m k = (case filter (\<lambda>r. key r = Some k) rows of [] \<Rightarrow> m k | rs \<Rightarrow> Some (last rs))"
  by (induction key rows m rule: index_rows.induct) (auto split: option.splits list.splits)

definition join_pairs :: "('x \<Rightarrow> 'k option) \<Rightarrow> ('x \<Rightarrow> 'j option) \<Rightarrow> 'x list \<Rightarrow> ('k \<times> 'j) list" where
  "join_pairs owner_of related_of rows =
     List.map_filter (\<lambda>x. case (owner_of x, related_of x) of (Some k, Some j) \<Rightarrow> Some (k, j) | _ \<Rightarrow> None) rows"

abbreviation no_joins :: "('k, 'j) join_scan" where
  "no_joins \<equiv> \<lparr>js_by_owner = Map.empty, js_set = {}, js_keys = []\<rparr>"

text \<open>The state of the scan that belongs to a list of pairs of an owner and a related key.\<close>

definition scanned :: "('k \<times> 'j) list \<Rightarrow> ('k, 'j) join_scan \<Rightarrow> bool" where
  "scanned ps s \<longleftrightarrow> (\<forall>k. (case js_by_owner s k of None \<Rightarrow> [] | Some b \<Rightarrow> b) = map snd (filter (\<lambda>p. fst p = k) ps))
     \<and> js_set s = snd ` set ps \<and> set (js_keys s) = snd ` set ps \<and> distinct (js_keys s)"

lemma scanned_empty: "scanned [] no_joins"
  by (simp add: scanned_def)

lemma scanned_pair:
  assumes "scanned ps s" and "grouped k \<noteq> None" and "owner_of row = Some k" and "related_of row = Some j"
  shows "scanned (ps @ [(k, j)]) (scan_join_row grouped owner_of related_of s row)"
proof -
  let ?s = "scan_join_row grouped owner_of related_of s row"
  from assms(2-4) have owner: "js_by_owner ?s = (js_by_owner s)(k \<mapsto> (case js_by_owner s k of None \<Rightarrow> [] | Some b \<Rightarrow> b) @ [j])"
    and keys: "js_set ?s = insert j (js_set s)" "js_keys ?s = (if j \<in> js_set s then js_keys s else js_keys s @ [j])"
    by (auto simp: scan_join_row_def Let_def)
  from assms(1) have "(case js_by_owner ?s k' of None \<Rightarrow> [] | Some b \<Rightarrow> b) = map snd (filter (\<lambda>p. fst p = k') (ps @ [(k, j)]))" for k'
    by (simp add: owner scanned_def)
  with assms(1) show ?thesis by (auto simp: scanned_def keys)
qed

lemma scanned_step:
  assumes "scanned ps s"
  shows "scanned (ps @ filter (\<lambda>p. grouped (fst p) \<noteq> None) (join_pairs owner_of related_of [row]))
           (scan_join_row grouped owner_of related_of s row)"
proof (cases "owner_of row")
  case (Some k)
  show ?thesis
  proof (cases "related_of row")
    fix j assume j: "related_of row = Some j"
    show ?thesis
    proof (cases "grouped k")
      case None
      with assms show ?thesis by (simp add: Some j join_pairs_def map_filter_simps scan_join_row_def)
    next
      case (Some rs)
      with scanned_pair [of ps s grouped k owner_of row related_of j] assms show ?thesis
        by (simp add: \<open>owner_of row = Some k\<close> j join_pairs_def map_filter_simps)
    qed
  qed (use assms in \<open>simp add: Some join_pairs_def map_filter_simps scan_join_row_def\<close>)
qed (use assms in \<open>simp add: join_pairs_def map_filter_simps scan_join_row_def\<close>)

lemma join_pairs_append: "join_pairs o' r' (xs @ ys) = join_pairs o' r' xs @ join_pairs o' r' ys"
  by (simp add: join_pairs_def map_filter_def)

lemma scan_joins:
  "scanned (filter (\<lambda>p. grouped (fst p) \<noteq> None) (join_pairs owner_of related_of rows))
     (foldl (scan_join_row grouped owner_of related_of) no_joins rows)"
proof (induction rows rule: rev_induct)
  case (snoc row rows)
  from scanned_step [OF snoc] show ?case by (simp add: join_pairs_append)
qed (simp add: scanned_empty join_pairs_def map_filter_simps)

section \<open>What the loaders return\<close>

text \<open>What a database promises of the \<open>IN\<close> condition: from the rows a query denotes it returns those whose key is in the
  list, in their order.\<close>

definition answers_in :: "('k, 'm, 'd) key_mapper \<Rightarrow> 'd query \<Rightarrow> ('m \<Rightarrow> 'k option) \<Rightarrow> 'm list \<Rightarrow> bool" where
  "answers_in km q key table \<longleftrightarrow> (\<forall>keys. keys \<noteq> [] \<longrightarrow> select_in km q keys = Inr (filter (\<lambda>r. key r \<in> Some ` set keys) table))"

definition owner_keys :: "('o \<Rightarrow> 'k option) \<Rightarrow> 'o list \<Rightarrow> 'k set" where
  "owner_keys key owners = {k. \<exists>m \<in> set owners. key m = Some k}"

lemma collect_keys_empty: "collect_keys key ms = [] \<longleftrightarrow> owner_keys key ms = {}"
  using collect_keys_set(1) [of key ms] unfolding owner_keys_def by (metis set_empty)

lemma filter_in_keys: "k \<in> S \<Longrightarrow> filter (\<lambda>r. key r = Some k) (filter (\<lambda>r. key r \<in> Some ` S) rows) = filter (\<lambda>r. key r = Some k) rows"
  by (auto intro!: filter_cong)

lemma empty_groups_keys: "empty_groups (collect_keys key ms) k = (if k \<in> owner_keys key ms then Some [] else None)"
  by (simp add: empty_groups_def collect_keys_set owner_keys_def)

lemma select_collected:
  assumes "answers_in km q key table" and "collect_keys local_key owners \<noteq> []"
  shows "select_in km q (collect_keys local_key owners) = Inr (filter (\<lambda>r. key r \<in> Some ` owner_keys local_key owners) table)"
  using assms by (simp add: answers_in_def collect_keys_set owner_keys_def)

lemma owners_nonempty: "collect_keys key ms \<noteq> [] \<Longrightarrow> ms \<noteq> []"
  by (auto simp: collect_keys_def dedupe_keys_def map_filter_simps)

lemma group_selected:
  "group_rows key (filter (\<lambda>r. key r \<in> Some ` owner_keys local_key owners) table) (empty_groups (collect_keys local_key owners))
    = (\<lambda>k. if k \<in> owner_keys local_key owners then Some (filter (\<lambda>r. key r = Some k) table) else None)"
  by (rule ext) (simp add: group_rows_filter empty_groups_keys filter_in_keys del: filter_filter)

definition last_with :: "('r \<Rightarrow> 'k option) \<Rightarrow> 'r list \<Rightarrow> 'k \<rightharpoonup> 'r" where
  "last_with key rows k = (case filter (\<lambda>r. key r = Some k) rows of [] \<Rightarrow> None | rs \<Rightarrow> Some (last rs))"

lemma index_selected:
  "index_rows key (filter (\<lambda>r. key r \<in> Some ` S) table) Map.empty = (\<lambda>k. if k \<in> S then last_with key table k else None)"
proof
  fix k
  show "index_rows key (filter (\<lambda>r. key r \<in> Some ` S) table) Map.empty k = (if k \<in> S then last_with key table k else None)"
  proof (cases "k \<in> S")
    case False
    then have "filter (\<lambda>r. key r = Some k) (filter (\<lambda>r. key r \<in> Some ` S) table) = []" by (auto simp: filter_empty_conv)
    with False show ?thesis by (simp add: index_rows_find del: filter_filter)
  qed (simp add: index_rows_find filter_in_keys last_with_def del: filter_filter)
qed

text \<open>
  Loading a one-to-many relation for a list of owners gives every key of an owner, and no other, all the related rows
  whose foreign key it is, in the order of the table: the keys are collected, asked for in one statement and the rows put
  back without one being lost, doubled or moved to another owner.\<close>

theorem one_to_many_complete:
  assumes "answers_in related q (\<lambda>r. map_option cast (foreign_key r)) table"
  shows "load_one_to_many local_key foreign_key cast related q owners
    = Inr (\<lambda>k. if k \<in> owner_keys local_key owners then Some (filter (\<lambda>r. map_option cast (foreign_key r) = Some k) table) else None)"
proof (cases "collect_keys local_key owners = []")
  case True
  then show ?thesis
    using collect_keys_empty [of local_key owners] by (auto simp: load_one_to_many_def Let_def)
next
  case False
  with owners_nonempty [OF False] show ?thesis
    by (simp add: load_one_to_many_def Let_def select_collected [OF assms] group_selected del: map_option_eq_Some)
qed

text \<open>
  Loading a many-to-one relation gives every foreign key of a child the parent with that key, the last such row if the
  table has several, and nothing where there is no parent.\<close>

theorem many_to_one_complete:
  assumes "answers_in parents q (\<lambda>r. map_option cast (parent_key r)) table"
  shows "load_many_to_one foreign_key parent_key cast parents q children
    = Inr (\<lambda>k. if k \<in> owner_keys foreign_key children then last_with (\<lambda>r. map_option cast (parent_key r)) table k else None)"
proof (cases "collect_keys foreign_key children = []")
  case True
  then show ?thesis
    using collect_keys_empty [of foreign_key children] by (auto simp: load_many_to_one_def Let_def)
next
  case False
  with owners_nonempty [OF False] show ?thesis
    by (simp add: load_many_to_one_def Let_def select_collected [OF assms] index_selected)
qed

definition joined :: "('x \<Rightarrow> 'k option) \<Rightarrow> ('x \<Rightarrow> 'j option) \<Rightarrow> 'x list \<Rightarrow> ('r \<Rightarrow> 'j option) \<Rightarrow> 'r list \<Rightarrow> 'k \<Rightarrow> 'r list" where
  "joined owner_of related_of join_table key table k =
     List.map_filter (\<lambda>x. if owner_of x = Some k then Option.bind (related_of x) (last_with key table) else None) join_table"

lemma joined_pairs:
  "joined owner_of related_of xs key table k
    = List.map_filter (last_with key table) (map snd (filter (\<lambda>p. fst p = k) (join_pairs owner_of related_of xs)))"
proof (induction xs)
  case (Cons x xs)
  then show ?case
    by (cases "owner_of x"; cases "related_of x") (auto simp: joined_def join_pairs_def map_filter_simps split: option.splits)
qed (simp add: joined_def join_pairs_def map_filter_simps)

lemma pairs_of_selected:
  assumes "k \<in> S"
  shows "filter (\<lambda>p. fst p = k) (filter (\<lambda>p. fst p \<in> S) (join_pairs owner_of related_of (filter (\<lambda>x. owner_of x \<in> Some ` S) xs)))
    = filter (\<lambda>p. fst p = k) (join_pairs owner_of related_of xs)"
proof (induction xs)
  case (Cons x xs)
  then show ?case
    by (cases "owner_of x"; cases "related_of x") (use assms in \<open>auto simp: join_pairs_def map_filter_simps\<close>)
qed (simp add: join_pairs_def map_filter_simps)

lemma fill_groups_keys:
  "fill_groups by_owner related (empty_groups (collect_keys key ms)) k
    = (if k \<in> owner_keys key ms then Some (List.map_filter related (case by_owner k of None \<Rightarrow> [] | Some b \<Rightarrow> b)) else None)"
  by (simp add: fill_groups_def empty_groups_keys map_filter_simps split: option.splits)

lemma map_filter_within: "set js \<subseteq> S \<Longrightarrow> List.map_filter (\<lambda>j. if j \<in> S then f j else None) js = List.map_filter f js"
  by (induction js) (auto simp: map_filter_simps split: option.splits)


section \<open>A mapper over a list of rows\<close>

text \<open>A table of rows with text keys, asked for the rows whose key is one of the parameters.\<close>

definition list_mapper :: "('m \<Rightarrow> string option) \<Rightarrow> 'm list \<Rightarrow> (string, 'm, 'd) key_mapper" where
  "list_mapper key table = \<lparr>km_table = ''t'', km_columns = [], km_key_column = ''k'', km_param = SP_text,
     km_select = (\<lambda>plan. Inr (filter (\<lambda>r. \<exists>k. key r = Some k \<and> SP_text k \<in> set (sp_params plan)) table))\<rparr>"

lemma list_mapper_answers: "answers_in (list_mapper key table) empty_query key table"
  by (auto simp: answers_in_def list_mapper_def select_in_def select_plan_params query_defs push_predicate_def empty_query_def
      intro!: filter_cong)

theorem one_to_many_complete_witness:
  "\<exists>m. load_one_to_many Some (\<lambda>r. Some (fst r)) (\<lambda>k. k) (list_mapper (\<lambda>r. Some (fst r)) [(''a'', 1 :: nat), (''c'', 2), (''a'', 3)])
         (empty_query :: unit query) [''a'', ''b''] = Inr m
     \<and> m ''a'' = Some [(''a'', 1), (''a'', 3)] \<and> m ''b'' = Some [] \<and> m ''c'' = None"
  using one_to_many_complete [where foreign_key = "\<lambda>r :: string \<times> nat. Some (fst r)" and cast = "\<lambda>k. k" and local_key = Some
      and owners = "[''a'', ''b'']", simplified, OF list_mapper_answers, of "[(''a'', 1), (''c'', 2), (''a'', 3)]"]
  by (intro exI conjI, assumption) (simp_all add: owner_keys_def)

theorem many_to_one_complete_witness:
  "\<exists>m. load_many_to_one Some (\<lambda>r. Some (fst r)) (\<lambda>k. k) (list_mapper (\<lambda>r. Some (fst r)) [(''a'', 1 :: nat), (''c'', 2), (''a'', 3)])
         (empty_query :: unit query) [''a'', ''b''] = Inr m
     \<and> m ''a'' = Some (''a'', 3) \<and> m ''b'' = None \<and> m ''c'' = None"
  using many_to_one_complete [where parent_key = "\<lambda>r :: string \<times> nat. Some (fst r)" and cast = "\<lambda>k. k" and foreign_key = Some
      and children = "[''a'', ''b'']", simplified, OF list_mapper_answers, of "[(''a'', 1), (''c'', 2), (''a'', 3)]"]
  by (intro exI conjI, assumption) (simp_all add: owner_keys_def last_with_def)


end
