(* ===== verification/Message_Bus.thy ===== *)
theory Message_Bus
  imports Threads "HOL-Library.Sublist" "HOL-Library.Multiset"
begin

text \<open>
  The message bus (\<open>MessageBus\<close> in \<open>include/flux/message.h\<close>). A topic has an ingress channel, to which publishers send; its
  dispatcher takes one value after the other from it and sends it to the egress channel of every subscriber, one after the
  other. Topics and subscribers are objects with numbers, since a topic that has left the bus's map and a subscriber that
  has left its topic's can still be in use. One action is an access to an atomic flag, a critical section, or an
  operation of a channel; publishers, subscribers, the calls that close and the dispatchers interleave in any order.

  The channels of asio are a parameter: what a send or a receive does now, which may be to wait. The program holds a
  subscriber as long as it has the \<open>Subscription\<close>; the dispatcher holds those it is sending to. A weak reference can be
  locked if one of them does. The order in which a hash map is walked is one of the choices of the world, as is the
  moment at which a timeout fires.
\<close>

section \<open>Channels\<close>

datatype 'c send_result = Sent 'c | Send_error bool | Send_wait

datatype ('c, 'v) receive_result = Received 'v 'c | Receive_error bool | Receive_wait

text \<open>An error says whether \<open>is_channel_terminal_error\<close> holds of it.\<close>

record ('c, 'v) channel_lib =
  ch_new :: "nat \<Rightarrow> 'c"
  ch_send :: "'c \<Rightarrow> 'v \<Rightarrow> 'c send_result"
  ch_receive :: "'c \<Rightarrow> ('c, 'v) receive_result"
  ch_close :: "'c \<Rightarrow> 'c"
  ch_is_open :: "'c \<Rightarrow> bool"

text \<open>What is relied on: a channel is a queue, a closed one takes nothing more, and only a closed one refuses.\<close>

definition channel_laws :: "('c, 'v) channel_lib \<Rightarrow> ('c \<Rightarrow> 'v list) \<Rightarrow> bool" where
  "channel_laws lib contents \<longleftrightarrow>
     (\<forall>n. contents (ch_new lib n) = [] \<and> ch_is_open lib (ch_new lib n))
   \<and> (\<forall>c v c'. ch_send lib c v = Sent c' \<longrightarrow> contents c' = contents c @ [v] \<and> ch_is_open lib c \<and> ch_is_open lib c')
   \<and> (\<forall>c v b. ch_send lib c v = Send_error b \<longrightarrow> \<not> ch_is_open lib c)
   \<and> (\<forall>c v c'. ch_receive lib c = Received v c' \<longrightarrow> contents c = v # contents c' \<and> ch_is_open lib c' = ch_is_open lib c)
   \<and> (\<forall>c b. ch_receive lib c = Receive_error b \<longrightarrow> \<not> ch_is_open lib c)
   \<and> (\<forall>c. \<not> ch_is_open lib (ch_close lib c) \<and> prefix (contents (ch_close lib c)) (contents c))"

section \<open>State\<close>

text \<open>Where a dispatcher is: in \<open>async_receive\<close>, before \<open>collect_subscribers\<close>, or at a place of \<open>fanout_next\<close> with the value and
  the subscribers that are left.\<close>

datatype 'v dispatcher =
    D_receive
  | D_collect 'v
  | D_fanout 'v "nat list"
  | D_check_open 'v nat "nat list"
  | D_send 'v nat "nat list"
  | D_mark 'v nat "nat list"
  | D_remove 'v nat "nat list"
  | D_ended

text \<open>The last two fields are for the statements: the values that the ingress channel took, and those that were handed to
  subscribers.\<close>

record ('c, 'v) topic_state =
  tp_name :: string
  tp_ingress :: 'c
  tp_closed :: bool
  tp_subscribers :: "(nat \<times> nat) list"
  tp_next_subscriber_id :: nat
  tp_dispatcher_started :: bool
  tp_dispatchers :: "'v dispatcher list"
  tp_sending_to :: "nat list"
  tp_accepted :: "'v list"
  tp_sent :: "'v list"

text \<open>\<open>sb_start\<close> is the number of values handed out before the subscription.\<close>

record 'c subscriber_state =
  sb_topic :: nat
  sb_id :: nat
  sb_egress :: 'c
  sb_closed :: bool
  sb_held :: bool
  sb_start :: nat

datatype publish_mode = By_io | By_sync | By_sync_for | By_async

datatype publish_result = Published | Refused | Threw

datatype 'v bus_event =
    Ev_publish publish_mode string 'v publish_result
  | Ev_subscribe string "nat option"
  | Ev_next nat "'v option"
  | Ev_threw string

record bus_options =
  bo_topic_capacity :: nat
  bo_subscription_capacity :: nat

record ('c, 'v) bus =
  bs_options :: bus_options
  bs_closed :: bool
  bs_topics :: "(string \<times> nat) list"
  bs_closed_topics :: "string list"
  bs_topic_heap :: "('c, 'v) topic_state list"
  bs_subscriber_heap :: "'c subscriber_state list"
  bs_log :: "'v bus_event list"

definition create_bus :: "bus_options \<Rightarrow> ('c, 'v) bus" where
  "create_bus options =
     \<lparr>bs_options = \<lparr>bo_topic_capacity = (if bo_topic_capacity options = 0 then 1 else bo_topic_capacity options),
                   bo_subscription_capacity = (if bo_subscription_capacity options = 0 then 1 else bo_subscription_capacity options)\<rparr>,
      bs_closed = False, bs_topics = [], bs_closed_topics = [], bs_topic_heap = [], bs_subscriber_heap = [], bs_log = []\<rparr>"

definition upd_topic :: "nat \<Rightarrow> (('c, 'v) topic_state \<Rightarrow> ('c, 'v) topic_state) \<Rightarrow> ('c, 'v) bus \<Rightarrow> ('c, 'v) bus" where
  "upd_topic t f s = s\<lparr>bs_topic_heap := (bs_topic_heap s)[t := f (bs_topic_heap s ! t)]\<rparr>"

definition upd_subscriber :: "nat \<Rightarrow> ('c subscriber_state \<Rightarrow> 'c subscriber_state) \<Rightarrow> ('c, 'v) bus \<Rightarrow> ('c, 'v) bus" where
  "upd_subscriber i f s = s\<lparr>bs_subscriber_heap := (bs_subscriber_heap s)[i := f (bs_subscriber_heap s ! i)]\<rparr>"

definition log_event :: "'v bus_event \<Rightarrow> ('c, 'v) bus \<Rightarrow> ('c, 'v) bus" where
  "log_event e s = s\<lparr>bs_log := bs_log s @ [e]\<rparr>"

abbreviation topic :: "('c, 'v) bus \<Rightarrow> nat \<Rightarrow> ('c, 'v) topic_state" where
  "topic s t \<equiv> bs_topic_heap s ! t"

abbreviation subscriber :: "('c, 'v) bus \<Rightarrow> nat \<Rightarrow> 'c subscriber_state" where
  "subscriber s i \<equiv> bs_subscriber_heap s ! i"

text \<open>Whether a weak reference to a subscriber can be locked.\<close>

definition alive :: "('c, 'v) bus \<Rightarrow> nat \<Rightarrow> bool" where
  "alive s i \<longleftrightarrow> sb_held (subscriber s i) \<or> i \<in> set (tp_sending_to (topic s (sb_topic (subscriber s i))))"

section \<open>Actions\<close>

datatype 'v purpose = For_publish publish_mode 'v | For_subscribe

datatype 'v bus_act =
    Call_publish bool string 'v
  | Call_sync_publish bool string 'v
  | Call_sync_publish_for bool string 'v
  | Call_async_publish string 'v
  | Call_subscribe bool string
  | Call_close_topic string
  | Call_close
  | Call_next bool nat
  | Call_close_subscription bool nat
  | Call_drop nat
  | Get_topic "'v purpose" string
  | Start_dispatcher "'v purpose" string nat
  | Check_topic "'v purpose" string nat
  | Send publish_mode 'v string nat
  | Add_subscriber string nat
  | Clear_topics
  | Topic_close nat
  | Ingress_close nat
  | Close_subscribers nat
  | Shut_subscriber nat
  | Egress_close nat
  | Remove_subscriber nat
  | Receive nat
  | Subscriber_close nat
  | Dispatch nat nat

datatype bus_io = Go | Walk "nat list" | Time_out | Time_out_late

definition walks :: "bus_io \<Rightarrow> nat list \<Rightarrow> nat list option" where
  "walks io xs = (case io of Walk ys \<Rightarrow> if mset ys = mset xs then Some ys else None | _ \<Rightarrow> None)"

type_synonym ('c, 'v) bus_effect = "('v bus_act list \<times> 'v bus_act list list \<times> ('c, 'v) bus) option"

definition returns :: "'v bus_event \<Rightarrow> ('c, 'v) bus \<Rightarrow> ('c, 'v) bus_effect" where
  "returns e s = Some ([], [], log_event e s)"

definition goes_on :: "'v bus_act list \<Rightarrow> ('c, 'v) bus \<Rightarrow> ('c, 'v) bus_effect" where
  "goes_on acts s = Some (acts, [], s)"

text \<open>No topic for the caller: \<open>publish\<close> returns false, \<open>async_publish\<close> calls back with an error, \<open>subscribe\<close> returns an invalid
  subscription.\<close>

definition give_up :: "'v purpose \<Rightarrow> string \<Rightarrow> ('c, 'v) bus \<Rightarrow> ('c, 'v) bus_effect" where
  "give_up p name s =
     (case p of For_publish m v \<Rightarrow> returns (Ev_publish m name v Refused) s | For_subscribe \<Rightarrow> returns (Ev_subscribe name None) s)"

definition new_topic :: "('c, 'v) channel_lib \<Rightarrow> bus_options \<Rightarrow> string \<Rightarrow> ('c, 'v) topic_state" where
  "new_topic lib options name =
     \<lparr>tp_name = name, tp_ingress = ch_new lib (bo_topic_capacity options), tp_closed = False, tp_subscribers = [],
      tp_next_subscriber_id = 1, tp_dispatcher_started = False, tp_dispatchers = [], tp_sending_to = [], tp_accepted = [], tp_sent = []\<rparr>"

text \<open>The test of \<open>closed\<close> before the lock is repeated under it.\<close>

definition get_or_create_topic :: "('c, 'v) channel_lib \<Rightarrow> 'v purpose \<Rightarrow> string \<Rightarrow> ('c, 'v) bus \<Rightarrow> ('c, 'v) bus_effect" where
  "get_or_create_topic lib p name s =
     (if bs_closed s \<or> name \<in> set (bs_closed_topics s) then give_up p name s
      else case map_of (bs_topics s) name of
        Some t \<Rightarrow> goes_on [Start_dispatcher p name t] s
      | None \<Rightarrow>
          let t = length (bs_topic_heap s) in
          goes_on [Start_dispatcher p name t]
            (s\<lparr>bs_topics := (name, t) # bs_topics s, bs_topic_heap := bs_topic_heap s @ [new_topic lib (bs_options s) name]\<rparr>))"

definition start_dispatcher_if_needed :: "'v purpose \<Rightarrow> string \<Rightarrow> nat \<Rightarrow> ('c, 'v) bus \<Rightarrow> ('c, 'v) bus_effect" where
  "start_dispatcher_if_needed p name t s =
     (if tp_dispatcher_started (topic s t) then goes_on [Check_topic p name t] s
      else Some ([Check_topic p name t], [[Dispatch t (length (tp_dispatchers (topic s t)))]],
             upd_topic t (\<lambda>tp. tp\<lparr>tp_dispatcher_started := True, tp_dispatchers := tp_dispatchers tp @ [D_receive]\<rparr>) s))"

definition check_topic :: "'v purpose \<Rightarrow> string \<Rightarrow> nat \<Rightarrow> ('c, 'v) bus \<Rightarrow> ('c, 'v) bus_effect" where
  "check_topic p name t s =
     (if tp_closed (topic s t) then give_up p name s
      else case p of For_publish m v \<Rightarrow> goes_on [Send m v name t] s | For_subscribe \<Rightarrow> goes_on [Add_subscriber name t] s)"

definition take_value :: "nat \<Rightarrow> 'c \<Rightarrow> 'v \<Rightarrow> ('c, 'v) bus \<Rightarrow> ('c, 'v) bus" where
  "take_value t c v s = upd_topic t (\<lambda>tp. tp\<lparr>tp_ingress := c, tp_accepted := tp_accepted tp @ [v]\<rparr>) s"

text \<open>A send with a timeout may be abandoned while it waits, or lose the race with the timer after the channel took the value.\<close>

definition publish_send ::
  "('c, 'v) channel_lib \<Rightarrow> bus_io \<Rightarrow> publish_mode \<Rightarrow> 'v \<Rightarrow> string \<Rightarrow> nat \<Rightarrow> ('c, 'v) bus \<Rightarrow> ('c, 'v) bus_effect" where
  "publish_send lib io m v name t s =
     (if m = By_sync_for \<and> io = Time_out then returns (Ev_publish m name v Refused) s
      else case ch_send lib (tp_ingress (topic s t)) v of
        Sent c \<Rightarrow>
          returns (Ev_publish m name v (if m = By_sync_for \<and> io = Time_out_late then Refused else Published)) (take_value t c v s)
      | Send_error terminal \<Rightarrow> returns (Ev_publish m name v (if m = By_io \<and> \<not> terminal then Threw else Refused)) s
      | Send_wait \<Rightarrow> None)"

definition add_subscriber :: "('c, 'v) channel_lib \<Rightarrow> string \<Rightarrow> nat \<Rightarrow> ('c, 'v) bus \<Rightarrow> ('c, 'v) bus_effect" where
  "add_subscriber lib name t s =
     (let i = length (bs_subscriber_heap s); n = tp_next_subscriber_id (topic s t) in
      returns (Ev_subscribe name (Some i))
        (upd_topic t (\<lambda>tp. tp\<lparr>tp_subscribers := tp_subscribers tp @ [(n, i)], tp_next_subscriber_id := n + 1\<rparr>)
          (s\<lparr>bs_subscriber_heap := bs_subscriber_heap s @
               [\<lparr>sb_topic = t, sb_id = n, sb_egress = ch_new lib (bo_subscription_capacity (bs_options s)), sb_closed = False,
                 sb_held = True, sb_start = length (tp_sent (topic s t))\<rparr>]\<rparr>)))"

section \<open>Closing\<close>

definition mark_closed :: "nat \<Rightarrow> ('c, 'v) bus \<Rightarrow> ('c, 'v) bus" where
  "mark_closed i s = upd_subscriber i (\<lambda>sb. sb\<lparr>sb_closed := True\<rparr>) s"

definition egress_close :: "('c, 'v) channel_lib \<Rightarrow> nat \<Rightarrow> ('c, 'v) bus \<Rightarrow> ('c, 'v) bus" where
  "egress_close lib i s = upd_subscriber i (\<lambda>sb. sb\<lparr>sb_egress := ch_close lib (sb_egress sb)\<rparr>) s"

definition remove_subscriber :: "nat \<Rightarrow> ('c, 'v) bus \<Rightarrow> ('c, 'v) bus" where
  "remove_subscriber i s =
     upd_topic (sb_topic (subscriber s i))
       (\<lambda>tp. tp\<lparr>tp_subscribers := filter (\<lambda>p. fst p \<noteq> sb_id (subscriber s i)) (tp_subscribers tp)\<rparr>) s"

definition erase_topic :: "string \<Rightarrow> ('c, 'v) bus \<Rightarrow> ('c, 'v) bus_effect" where
  "erase_topic name s =
     (let s1 = s\<lparr>bs_closed_topics := name # bs_closed_topics s\<rparr> in
      case map_of (bs_topics s) name of None \<Rightarrow> goes_on [] s1
      | Some t \<Rightarrow> goes_on [Topic_close t] (s1\<lparr>bs_topics := filter (\<lambda>p. fst p \<noteq> name) (bs_topics s)\<rparr>))"

definition bus_close :: "('c, 'v) bus \<Rightarrow> ('c, 'v) bus_effect" where
  "bus_close s = (if bs_closed s then goes_on [] s else goes_on [Clear_topics] (s\<lparr>bs_closed := True\<rparr>))"

definition clear_topics :: "bus_io \<Rightarrow> ('c, 'v) bus \<Rightarrow> ('c, 'v) bus_effect" where
  "clear_topics io s =
     (case walks io (map snd (bs_topics s)) of None \<Rightarrow> None
      | Some ts \<Rightarrow> goes_on (map Topic_close ts) (s\<lparr>bs_topics := [], bs_closed_topics := []\<rparr>))"

definition topic_close :: "nat \<Rightarrow> ('c, 'v) bus \<Rightarrow> ('c, 'v) bus_effect" where
  "topic_close t s =
     (if tp_closed (topic s t) then goes_on [] s
      else goes_on [Ingress_close t, Close_subscribers t] (upd_topic t (\<lambda>tp. tp\<lparr>tp_closed := True\<rparr>) s))"

definition ingress_close :: "('c, 'v) channel_lib \<Rightarrow> nat \<Rightarrow> ('c, 'v) bus \<Rightarrow> ('c, 'v) bus" where
  "ingress_close lib t s = upd_topic t (\<lambda>tp. tp\<lparr>tp_ingress := ch_close lib (tp_ingress tp)\<rparr>) s"

definition close_subscribers :: "bus_io \<Rightarrow> nat \<Rightarrow> ('c, 'v) bus \<Rightarrow> ('c, 'v) bus_effect" where
  "close_subscribers io t s =
     (case walks io (filter (alive s) (map snd (tp_subscribers (topic s t)))) of None \<Rightarrow> None
      | Some is \<Rightarrow> goes_on (map Shut_subscriber is) (upd_topic t (\<lambda>tp. tp\<lparr>tp_subscribers := []\<rparr>) s))"

definition subscriber_close :: "nat \<Rightarrow> ('c, 'v) bus \<Rightarrow> ('c, 'v) bus_effect" where
  "subscriber_close i s =
     (if sb_closed (subscriber s i) then goes_on [] s else goes_on [Egress_close i, Remove_subscriber i] (mark_closed i s))"

section \<open>Receiving\<close>

definition subscription_next :: "bool \<Rightarrow> nat \<Rightarrow> ('c, 'v) bus \<Rightarrow> ('c, 'v) bus_effect" where
  "subscription_next on_io i s =
     (if sb_closed (subscriber s i) then returns (Ev_next i None) s
      else if \<not> on_io then returns (Ev_threw ''MessageBus::Subscription::next requires current thread to be runtime IO thread'') s
      else goes_on [Receive i] s)"

definition subscription_receive :: "('c, 'v) channel_lib \<Rightarrow> nat \<Rightarrow> ('c, 'v) bus \<Rightarrow> ('c, 'v) bus_effect" where
  "subscription_receive lib i s =
     (case ch_receive lib (sb_egress (subscriber s i)) of
        Received v c \<Rightarrow> returns (Ev_next i (Some v)) (upd_subscriber i (\<lambda>sb. sb\<lparr>sb_egress := c\<rparr>) s)
      | Receive_error terminal \<Rightarrow>
          if terminal then returns (Ev_next i None) (mark_closed i s) else returns (Ev_threw ''receive'') s
      | Receive_wait \<Rightarrow> None)"

section \<open>The dispatcher\<close>

definition upd_dispatcher :: "nat \<Rightarrow> nat \<Rightarrow> 'v dispatcher \<Rightarrow> ('c, 'v) bus \<Rightarrow> ('c, 'v) bus" where
  "upd_dispatcher t k d s = upd_topic t (\<lambda>tp. tp\<lparr>tp_dispatchers := (tp_dispatchers tp)[k := d]\<rparr>) s"

definition dispatch_receive :: "('c, 'v) channel_lib \<Rightarrow> nat \<Rightarrow> nat \<Rightarrow> ('c, 'v) bus \<Rightarrow> ('c, 'v) bus_effect" where
  "dispatch_receive lib t k s =
     (case ch_receive lib (tp_ingress (topic s t)) of
        Received v c \<Rightarrow> goes_on [Dispatch t k] (upd_dispatcher t k (D_collect v) (upd_topic t (\<lambda>tp. tp\<lparr>tp_ingress := c\<rparr>) s))
      | Receive_error _ \<Rightarrow> goes_on [Topic_close t] (upd_dispatcher t k D_ended s)
      | Receive_wait \<Rightarrow> None)"

definition collect_subscribers :: "bus_io \<Rightarrow> nat \<Rightarrow> nat \<Rightarrow> 'v \<Rightarrow> ('c, 'v) bus \<Rightarrow> ('c, 'v) bus_effect" where
  "collect_subscribers io t k v s =
     (case walks io (filter (alive s) (map snd (tp_subscribers (topic s t)))) of None \<Rightarrow> None
      | Some is \<Rightarrow>
          goes_on [Dispatch t k]
            (upd_dispatcher t k (D_fanout v is)
              (upd_topic t (\<lambda>tp. tp\<lparr>tp_subscribers := filter (alive s \<circ> snd) (tp_subscribers tp), tp_sending_to := is,
                                   tp_sent := tp_sent tp @ [v]\<rparr>) s)))"

definition fanout_send :: "('c, 'v) channel_lib \<Rightarrow> nat \<Rightarrow> nat \<Rightarrow> 'v \<Rightarrow> nat \<Rightarrow> nat list \<Rightarrow> ('c, 'v) bus \<Rightarrow> ('c, 'v) bus_effect" where
  "fanout_send lib t k v i is s =
     (case ch_send lib (sb_egress (subscriber s i)) v of
        Sent c \<Rightarrow> goes_on [Dispatch t k] (upd_dispatcher t k (D_fanout v is) (upd_subscriber i (\<lambda>sb. sb\<lparr>sb_egress := c\<rparr>) s))
      | Send_error _ \<Rightarrow> goes_on [Dispatch t k] (upd_dispatcher t k (D_mark v i is) s)
      | Send_wait \<Rightarrow> None)"

definition dispatch_loop :: "('c, 'v) channel_lib \<Rightarrow> bus_io \<Rightarrow> nat \<Rightarrow> nat \<Rightarrow> ('c, 'v) bus \<Rightarrow> ('c, 'v) bus_effect" where
  "dispatch_loop lib io t k s =
     (case tp_dispatchers (topic s t) ! k of
        D_receive \<Rightarrow> dispatch_receive lib t k s
      | D_collect v \<Rightarrow> collect_subscribers io t k v s
      | D_fanout v [] \<Rightarrow> goes_on [Dispatch t k] (upd_dispatcher t k D_receive (upd_topic t (\<lambda>tp. tp\<lparr>tp_sending_to := []\<rparr>) s))
      | D_fanout v (i # is) \<Rightarrow>
          goes_on [Dispatch t k]
            (upd_dispatcher t k (if sb_closed (subscriber s i) then D_mark v i is else D_check_open v i is) s)
      | D_check_open v i is \<Rightarrow>
          goes_on [Dispatch t k]
            (upd_dispatcher t k (if ch_is_open lib (sb_egress (subscriber s i)) then D_send v i is else D_mark v i is) s)
      | D_send v i is \<Rightarrow> fanout_send lib t k v i is s
      | D_mark v i is \<Rightarrow> goes_on [Dispatch t k] (upd_dispatcher t k (D_remove v i is) (mark_closed i s))
      | D_remove v i is \<Rightarrow> goes_on [Dispatch t k] (upd_dispatcher t k (D_fanout v is) (remove_subscriber i s))
      | D_ended \<Rightarrow> None)"

section \<open>The bus\<close>

definition sync_publish :: "publish_mode \<Rightarrow> bool \<Rightarrow> string \<Rightarrow> 'v \<Rightarrow> ('c, 'v) bus \<Rightarrow> ('c, 'v) bus_effect" where
  "sync_publish m on_io name v s =
     (if bs_closed s \<or> on_io then returns (Ev_publish m name v Refused) s else goes_on [Get_topic (For_publish m v) name] s)"

definition async_publish :: "string \<Rightarrow> 'v \<Rightarrow> ('c, 'v) bus \<Rightarrow> ('c, 'v) bus_effect" where
  "async_publish name v s =
     (if bs_closed s then returns (Ev_publish By_async name v Refused) s else goes_on [Get_topic (For_publish By_async v) name] s)"

definition require_io_thread :: "bool \<Rightarrow> string \<Rightarrow> 'v bus_act list \<Rightarrow> ('c, 'v) bus \<Rightarrow> ('c, 'v) bus_effect" where
  "require_io_thread on_io action acts s =
     (if on_io then goes_on acts s else returns (Ev_threw (action @ '' requires current thread to be runtime IO thread'')) s)"

text \<open>The program calls a subscription only while it has it.\<close>

definition holds :: "('c, 'v) bus \<Rightarrow> nat \<Rightarrow> bool" where
  "holds s i \<longleftrightarrow> i < length (bs_subscriber_heap s) \<and> sb_held (subscriber s i)"

fun bus_exec :: "('c, 'v) channel_lib \<Rightarrow> bus_io \<Rightarrow> 'v bus_act \<Rightarrow> ('c, 'v) bus \<Rightarrow> ('c, 'v) bus_effect" where
  "bus_exec lib io (Call_publish on_io name v) s =
     require_io_thread on_io ''MessageBus::IoPublisher::publish'' [Get_topic (For_publish By_io v) name] s"
| "bus_exec lib io (Call_sync_publish on_io name v) s = sync_publish By_sync on_io name v s"
| "bus_exec lib io (Call_sync_publish_for on_io name v) s = sync_publish By_sync_for on_io name v s"
| "bus_exec lib io (Call_async_publish name v) s = async_publish name v s"
| "bus_exec lib io (Call_subscribe on_io name) s = require_io_thread on_io ''MessageBus::subscribe'' [Get_topic For_subscribe name] s"
| "bus_exec lib io (Call_close_topic name) s = erase_topic name s"
| "bus_exec lib io Call_close s = bus_close s"
| "bus_exec lib io (Call_next on_io i) s = (if holds s i then subscription_next on_io i s else None)"
| "bus_exec lib io (Call_close_subscription on_io i) s =
     (if holds s i then require_io_thread on_io ''MessageBus::Subscription::close'' [Subscriber_close i] s else None)"
| "bus_exec lib io (Call_drop i) s = (if holds s i then goes_on [] (upd_subscriber i (\<lambda>sb. sb\<lparr>sb_held := False\<rparr>) s) else None)"
| "bus_exec lib io (Get_topic p name) s = get_or_create_topic lib p name s"
| "bus_exec lib io (Start_dispatcher p name t) s = start_dispatcher_if_needed p name t s"
| "bus_exec lib io (Check_topic p name t) s = check_topic p name t s"
| "bus_exec lib io (Send m v name t) s = publish_send lib io m v name t s"
| "bus_exec lib io (Add_subscriber name t) s = add_subscriber lib name t s"
| "bus_exec lib io Clear_topics s = clear_topics io s"
| "bus_exec lib io (Topic_close t) s = topic_close t s"
| "bus_exec lib io (Ingress_close t) s = goes_on [] (ingress_close lib t s)"
| "bus_exec lib io (Close_subscribers t) s = close_subscribers io t s"
| "bus_exec lib io (Shut_subscriber i) s = goes_on [Egress_close i] (mark_closed i s)"
| "bus_exec lib io (Egress_close i) s = goes_on [] (egress_close lib i s)"
| "bus_exec lib io (Remove_subscriber i) s = goes_on [] (remove_subscriber i s)"
| "bus_exec lib io (Receive i) s = subscription_receive lib i s"
| "bus_exec lib io (Subscriber_close i) s = subscriber_close i s"
| "bus_exec lib io (Dispatch t k) s = dispatch_loop lib io t k s"

fun bus_call :: "'v bus_act \<Rightarrow> bool" where
  "bus_call (Call_publish on_io name v) = True"
| "bus_call (Call_sync_publish on_io name v) = True"
| "bus_call (Call_sync_publish_for on_io name v) = True"
| "bus_call (Call_async_publish name v) = True"
| "bus_call (Call_subscribe on_io name) = True"
| "bus_call (Call_close_topic name) = True"
| "bus_call Call_close = True"
| "bus_call (Call_next on_io i) = True"
| "bus_call (Call_close_subscription on_io i) = True"
| "bus_call (Call_drop i) = True"
| "bus_call _ = False"

type_synonym ('c, 'v) bus_pool = "('c, 'v) bus \<times> 'v bus_act list list"

inductive bus_step :: "('c, 'v) channel_lib \<Rightarrow> ('c, 'v) bus_pool \<Rightarrow> ('c, 'v) bus_pool \<Rightarrow> bool" for lib where
  act: "bus_exec lib io a s = Some (acts, spawned, s') \<Longrightarrow>
          bus_step lib (s, ts1 @ (a # rest) # ts2) (s', ts1 @ (acts @ rest) # ts2 @ spawned)"
| call: "bus_call a \<Longrightarrow> bus_step lib (s, ts) (s, ts @ [[a]])"

interpretation mbp: thread_pool "bus_exec lib" bus_call "bus_step lib" for lib
  by unfold_locales (auto intro: bus_step.intros)

section \<open>What holds of topics and subscribers\<close>

text \<open>The values that the calls of \<open>next\<close> returned for a subscriber.\<close>

definition got :: "nat \<Rightarrow> 'v bus_event list \<Rightarrow> 'v list" where
  "got i log = List.map_filter (\<lambda>e. case e of Ev_next j w \<Rightarrow> if j = i then w else None | _ \<Rightarrow> None) log"

lemma got_append: "got i (log @ log') = got i log @ got i log'"
  by (simp add: got_def map_filter_def)

lemma got_single [simp]: "got i [e] = (case e of Ev_next j (Some v) \<Rightarrow> if j = i then [v] else [] | _ \<Rightarrow> [])"
  by (auto simp: got_def map_filter_simps split: bus_event.splits option.splits)

lemma got_Nil [simp]: "got i [] = []"
  by (simp add: got_def map_filter_simps)

text \<open>Of a dispatcher: the subscribers that still get the value, the value while it is handed out, the value that was taken
  from the channel but not handed out yet, and the subscriber it has found open.\<close>

fun left_of :: "'v dispatcher \<Rightarrow> nat list" where
  "left_of (D_fanout v is) = is"
| "left_of (D_check_open v i is) = i # is"
| "left_of (D_send v i is) = i # is"
| "left_of (D_mark v i is) = is"
| "left_of (D_remove v i is) = is"
| "left_of _ = []"

fun fan_value :: "'v dispatcher \<Rightarrow> 'v list" where
  "fan_value (D_fanout v is) = [v]"
| "fan_value (D_check_open v i is) = [v]"
| "fan_value (D_send v i is) = [v]"
| "fan_value (D_mark v i is) = [v]"
| "fan_value (D_remove v i is) = [v]"
| "fan_value _ = []"

fun hand_of :: "'v dispatcher \<Rightarrow> 'v list" where
  "hand_of (D_collect v) = [v]"
| "hand_of _ = []"

fun busy_with :: "'v dispatcher \<Rightarrow> nat option" where
  "busy_with (D_check_open v i is) = Some i"
| "busy_with (D_send v i is) = Some i"
| "busy_with _ = None"

fun dropping :: "'v dispatcher \<Rightarrow> nat option" where
  "dropping (D_mark v i is) = Some i"
| "dropping (D_remove v i is) = Some i"
| "dropping _ = None"

definition current :: "('c, 'v) topic_state \<Rightarrow> 'v dispatcher" where
  "current tp = (case tp_dispatchers tp of [] \<Rightarrow> D_receive | d # _ \<Rightarrow> d)"

lemma current_upd [simp]:
  "current (tp\<lparr>tp_ingress := c\<rparr>) = current tp" "current (tp\<lparr>tp_accepted := vs\<rparr>) = current tp" "current (tp\<lparr>tp_closed := b\<rparr>) = current tp"
  "current (tp\<lparr>tp_subscribers := ps\<rparr>) = current tp" "current (tp\<lparr>tp_next_subscriber_id := n\<rparr>) = current tp"
  "current (tp\<lparr>tp_dispatcher_started := b\<rparr>) = current tp" "current (tp\<lparr>tp_sending_to := is\<rparr>) = current tp"
  "current (tp\<lparr>tp_sent := vs\<rparr>) = current tp" "current (tp\<lparr>tp_dispatchers := d # ds\<rparr>) = d"
  by (simp_all add: current_def)

definition pending :: "'v dispatcher \<Rightarrow> nat \<Rightarrow> 'v list" where
  "pending d i = (if i \<in> set (left_of d) then fan_value d else [])"

definition statics :: "('c, 'v) bus \<Rightarrow> (nat \<times> nat) list" where
  "statics s = map (\<lambda>sb. (sb_topic sb, sb_id sb)) (bs_subscriber_heap s)"

text \<open>A topic has one dispatcher at most, and loses or reorders nothing between the channel and the handing out.\<close>

definition topic_ok :: "('c, 'v) channel_lib \<Rightarrow> ('c \<Rightarrow> 'v list) \<Rightarrow> (nat \<times> nat) list \<Rightarrow> nat \<Rightarrow> ('c, 'v) topic_state \<Rightarrow> bool" where
  "topic_ok lib contents st t tp \<longleftrightarrow>
     length (tp_dispatchers tp) = (if tp_dispatcher_started tp then 1 else 0)
   \<and> distinct (map snd (tp_subscribers tp)) \<and> (\<forall>(n, i) \<in> set (tp_subscribers tp). i < length st \<and> st ! i = (t, n))
   \<and> distinct (left_of (current tp)) \<and> (\<forall>i \<in> set (left_of (current tp)). i < length st \<and> fst (st ! i) = t)
   \<and> (\<forall>i. dropping (current tp) = Some i \<longrightarrow> i < length st)
   \<and> prefix (tp_sent tp @ hand_of (current tp) @ contents (tp_ingress tp)) (tp_accepted tp)
   \<and> (ch_is_open lib (tp_ingress tp) \<longrightarrow> tp_accepted tp = tp_sent tp @ hand_of (current tp) @ contents (tp_ingress tp))"

text \<open>A subscriber has a part without gaps of what was handed out from its subscription on, and all of it while it is open and
  in the map, but for the value that is on its way.\<close>

definition sub_ok ::
  "('c, 'v) channel_lib \<Rightarrow> ('c \<Rightarrow> 'v list) \<Rightarrow> 'v list \<Rightarrow> ('c, 'v) topic_state \<Rightarrow> nat \<Rightarrow> 'c subscriber_state \<Rightarrow> bool" where
  "sub_ok lib contents g tp i sb \<longleftrightarrow>
     (let S = drop (sb_start sb) (tp_sent tp); D = g @ contents (sb_egress sb) in
      sb_start sb \<le> length (tp_sent tp) \<and> prefix D S
    \<and> (\<not> sb_closed sb \<longrightarrow> i \<in> snd ` set (tp_subscribers tp) \<or> i \<in> set (left_of (current tp)) \<longrightarrow> D @ pending (current tp) i = S)
    \<and> (busy_with (current tp) = Some i \<longrightarrow> ch_is_open lib (sb_egress sb) \<longrightarrow> prefix (D @ fan_value (current tp)) S)
    \<and> (\<not> ch_is_open lib (sb_egress sb) \<longrightarrow> sb_closed sb))"

definition bus_ok :: "('c, 'v) channel_lib \<Rightarrow> ('c \<Rightarrow> 'v list) \<Rightarrow> ('c, 'v) bus \<Rightarrow> bool" where
  "bus_ok lib contents s \<longleftrightarrow>
     (\<forall>t < length (bs_topic_heap s). topic_ok lib contents (statics s) t (topic s t))
   \<and> (\<forall>i < length (bs_subscriber_heap s). sb_topic (subscriber s i) < length (bs_topic_heap s)
        \<and> sub_ok lib contents (got i (bs_log s)) (topic s (sb_topic (subscriber s i))) i (subscriber s i))
   \<and> (\<forall>(n, t) \<in> set (bs_topics s). t < length (bs_topic_heap s))
   \<and> (\<forall>i. length (bs_subscriber_heap s) \<le> i \<longrightarrow> got i (bs_log s) = [])"

text \<open>What the actions that a thread has still to do rely on.\<close>

definition act_ok :: "('c, 'v) bus \<Rightarrow> 'v bus_act \<Rightarrow> bool" where
  "act_ok s a \<longleftrightarrow>
     (case a of
        Start_dispatcher p name t \<Rightarrow> t < length (bs_topic_heap s)
      | Check_topic p name t \<Rightarrow> t < length (bs_topic_heap s)
      | Send m v name t \<Rightarrow> t < length (bs_topic_heap s)
      | Add_subscriber name t \<Rightarrow> t < length (bs_topic_heap s)
      | Topic_close t \<Rightarrow> t < length (bs_topic_heap s)
      | Ingress_close t \<Rightarrow> t < length (bs_topic_heap s)
      | Close_subscribers t \<Rightarrow> t < length (bs_topic_heap s)
      | Shut_subscriber i \<Rightarrow> i < length (bs_subscriber_heap s)
      | Egress_close i \<Rightarrow> i < length (bs_subscriber_heap s) \<and> sb_closed (subscriber s i)
      | Remove_subscriber i \<Rightarrow> i < length (bs_subscriber_heap s)
      | Receive i \<Rightarrow> i < length (bs_subscriber_heap s)
      | Subscriber_close i \<Rightarrow> i < length (bs_subscriber_heap s)
      | Dispatch t k \<Rightarrow> t < length (bs_topic_heap s) \<and> k < length (tp_dispatchers (topic s t))
      | _ \<Rightarrow> True)"

section \<open>Changes that keep it\<close>

lemma statics_nth: "i < length (bs_subscriber_heap s) \<Longrightarrow> statics s ! i = (sb_topic (subscriber s i), sb_id (subscriber s i))"
  by (simp add: statics_def)

lemma length_statics [simp]: "length (statics s) = length (bs_subscriber_heap s)"
  by (simp add: statics_def)

text \<open>Everything a thread relies on stays true when objects are only added and subscribers only closed.\<close>

definition bus_grows :: "('c, 'v) bus \<Rightarrow> ('c, 'v) bus \<Rightarrow> bool" where
  "bus_grows s s' \<longleftrightarrow> length (bs_topic_heap s) \<le> length (bs_topic_heap s') \<and> length (bs_subscriber_heap s) \<le> length (bs_subscriber_heap s')
   \<and> (\<forall>t < length (bs_topic_heap s). length (tp_dispatchers (topic s t)) \<le> length (tp_dispatchers (topic s' t)))
   \<and> (\<forall>i < length (bs_subscriber_heap s). sb_closed (subscriber s i) \<longrightarrow> sb_closed (subscriber s' i))"

lemma bus_grows_act: "bus_grows s s' \<Longrightarrow> act_ok s a \<Longrightarrow> act_ok s' a"
  by (cases a) (auto simp: bus_grows_def act_ok_def intro: less_le_trans)

lemma bus_grows_refl: "bus_grows s s"
  by (simp add: bus_grows_def)

lemma bus_grows_trans: "bus_grows s s1 \<Longrightarrow> bus_grows s1 s2 \<Longrightarrow> bus_grows s s2"
  by (auto simp: bus_grows_def intro: order_trans less_le_trans)

lemma nth_updated: "j < length xs \<Longrightarrow> xs[i := x] ! j = (if i = j then x else xs ! j)"
  by (cases "i = j") simp_all

lemma bus_grows_upd:
  "(\<And>tp. length (tp_dispatchers tp) \<le> length (tp_dispatchers (f tp))) \<Longrightarrow> bus_grows s (upd_topic t f s)"
  "(\<And>sb. sb_closed sb \<Longrightarrow> sb_closed (h sb)) \<Longrightarrow> bus_grows s (upd_subscriber i h s)"
  "bus_grows s (log_event e s)"
  by (auto simp: bus_grows_def upd_topic_def upd_subscriber_def log_event_def nth_updated)

lemma upd_sels [simp]:
  "length (bs_topic_heap (upd_topic t f s)) = length (bs_topic_heap s)" "bs_subscriber_heap (upd_topic t f s) = bs_subscriber_heap s"
  "bs_topic_heap (upd_subscriber i h s) = bs_topic_heap s" "length (bs_subscriber_heap (upd_subscriber i h s)) = length (bs_subscriber_heap s)"
  "bs_log (upd_topic t f s) = bs_log s" "bs_log (upd_subscriber i h s) = bs_log s" "bs_topics (upd_topic t f s) = bs_topics s"
  "bs_topics (upd_subscriber i h s) = bs_topics s" "statics (upd_topic t f s) = statics s"
  "bs_topic_heap (log_event e s) = bs_topic_heap s" "bs_subscriber_heap (log_event e s) = bs_subscriber_heap s"
  "bs_log (log_event e s) = bs_log s @ [e]" "bs_topics (log_event e s) = bs_topics s" "statics (log_event e s) = statics s"
  by (simp_all add: upd_topic_def upd_subscriber_def log_event_def statics_def)

lemma upd_nth [simp]:
  "t < length (bs_topic_heap s) \<Longrightarrow> topic (upd_topic t f s) t' = (if t' = t then f (topic s t) else topic s t')"
  "i < length (bs_subscriber_heap s) \<Longrightarrow> subscriber (upd_subscriber i h s) i' = (if i' = i then h (subscriber s i) else subscriber s i')"
  by (simp_all add: upd_topic_def upd_subscriber_def nth_list_update)

lemma statics_upd:
  assumes "sb_topic (h (subscriber s i)) = sb_topic (subscriber s i)" "sb_id (h (subscriber s i)) = sb_id (subscriber s i)"
  shows "statics (upd_subscriber i h s) = statics s"
proof (rule nth_equalityI)
  show "statics (upd_subscriber i h s) ! k = statics s ! k" if "k < length (statics (upd_subscriber i h s))" for k
    using that assms by (cases "i < length (bs_subscriber_heap s)") (auto simp: statics_nth upd_subscriber_def nth_list_update)
qed simp

lemma bus_okD:
  assumes "bus_ok lib contents s"
  shows "t < length (bs_topic_heap s) \<Longrightarrow> topic_ok lib contents (statics s) t (topic s t)"
    and "i < length (bs_subscriber_heap s) \<Longrightarrow> sb_topic (subscriber s i) < length (bs_topic_heap s)"
    and "i < length (bs_subscriber_heap s) \<Longrightarrow>
      sub_ok lib contents (got i (bs_log s)) (topic s (sb_topic (subscriber s i))) i (subscriber s i)"
    and "(n, t) \<in> set (bs_topics s) \<Longrightarrow> t < length (bs_topic_heap s)"
    and "length (bs_subscriber_heap s) \<le> i \<Longrightarrow> got i (bs_log s) = []"
  using assms by (auto simp: bus_ok_def)

lemma ok_upd_topic:
  assumes "bus_ok lib contents s" "t < length (bs_topic_heap s)" "topic_ok lib contents (statics s) t (f (topic s t))"
    and "\<And>i. i < length (bs_subscriber_heap s) \<Longrightarrow> sb_topic (subscriber s i) = t \<Longrightarrow>
      sub_ok lib contents (got i (bs_log s)) (topic s t) i (subscriber s i) \<Longrightarrow>
      sub_ok lib contents (got i (bs_log s)) (f (topic s t)) i (subscriber s i)"
  shows "bus_ok lib contents (upd_topic t f s)"
  using assms by (auto simp: bus_ok_def)

lemma ok_upd_subscriber:
  assumes "bus_ok lib contents s" "i < length (bs_subscriber_heap s)"
    and "sb_topic (h (subscriber s i)) = sb_topic (subscriber s i)" "sb_id (h (subscriber s i)) = sb_id (subscriber s i)"
    and "sub_ok lib contents (got i (bs_log s)) (topic s (sb_topic (subscriber s i))) i (subscriber s i) \<Longrightarrow>
      sub_ok lib contents (got i (bs_log s)) (topic s (sb_topic (subscriber s i))) i (h (subscriber s i))"
  shows "bus_ok lib contents (upd_subscriber i h s)"
  using assms by (auto simp: bus_ok_def statics_upd)

lemma ok_log:
  assumes "bus_ok lib contents s" "\<And>i v. e \<noteq> Ev_next i (Some v)"
  shows "bus_ok lib contents (log_event e s)"
proof -
  have "got i [e] = []" for i using assms(2) by (cases e) (auto split: option.splits)
  then show ?thesis using assms(1) by (simp add: bus_ok_def got_append del: got_single)
qed

section \<open>Every action bus_keeps it\<close>

definition bus_keeps :: "('c, 'v) channel_lib \<Rightarrow> ('c \<Rightarrow> 'v list) \<Rightarrow> ('c, 'v) bus \<Rightarrow> ('c, 'v) bus_effect \<Rightarrow> bool" where
  "bus_keeps lib contents s eff \<longleftrightarrow>
     (case eff of None \<Rightarrow> True
      | Some (acts, spawned, s') \<Rightarrow> bus_ok lib contents s' \<and> bus_grows s s' \<and> (\<forall>b \<in> set (acts @ concat spawned). act_ok s' b))"

lemma bus_keeps_None [simp]: "bus_keeps lib contents s None"
  by (simp add: bus_keeps_def)

lemma bus_keeps_goes_on:
  "bus_ok lib contents s' \<Longrightarrow> bus_grows s s' \<Longrightarrow> (\<And>b. b \<in> set acts \<Longrightarrow> act_ok s' b) \<Longrightarrow> bus_keeps lib contents s (goes_on acts s')"
  by (simp add: bus_keeps_def goes_on_def)

lemma bus_keeps_returns:
  "bus_ok lib contents s' \<Longrightarrow> bus_grows s s' \<Longrightarrow> (\<And>i v. e \<noteq> Ev_next i (Some v)) \<Longrightarrow> bus_keeps lib contents s (returns e s')"
  by (auto simp: bus_keeps_def returns_def ok_log intro: bus_grows_trans bus_grows_upd)

lemma bus_keeps_give_up: "bus_ok lib contents s \<Longrightarrow> bus_keeps lib contents s (give_up p name s)"
  by (cases p) (auto simp: give_up_def intro: bus_keeps_returns bus_grows_refl)

lemma bus_keeps_require: "bus_ok lib contents s \<Longrightarrow> (\<And>b. b \<in> set acts \<Longrightarrow> act_ok s b) \<Longrightarrow> bus_keeps lib contents s (require_io_thread on_io action acts s)"
  by (auto simp: require_io_thread_def intro: bus_keeps_returns bus_keeps_goes_on bus_grows_refl)

lemma bus_keeps_publish_calls:
  "bus_ok lib contents s \<Longrightarrow> bus_keeps lib contents s (sync_publish m on_io name v s)"
  "bus_ok lib contents s \<Longrightarrow> bus_keeps lib contents s (async_publish name v s)"
  by (auto simp: sync_publish_def async_publish_def act_ok_def intro!: bus_keeps_returns bus_keeps_goes_on bus_grows_refl)

lemma topic_ok_new: "channel_laws lib contents \<Longrightarrow> topic_ok lib contents st t (new_topic lib options name)"
  by (simp add: topic_ok_def new_topic_def current_def channel_laws_def)

lemma bus_keeps_get_topic:
  assumes "channel_laws lib contents" "bus_ok lib contents s"
  shows "bus_keeps lib contents s (get_or_create_topic lib p name s)"
proof -
  let ?t = "length (bs_topic_heap s)"
  let ?s = "s\<lparr>bs_topics := (name, ?t) # bs_topics s, bs_topic_heap := bs_topic_heap s @ [new_topic lib (bs_options s) name]\<rparr>"
  have "bus_ok lib contents ?s"
    using assms(2) topic_ok_new [OF assms(1)] by (auto simp: bus_ok_def statics_def nth_append less_Suc_eq)
  moreover have "bus_grows s ?s" by (auto simp: bus_grows_def nth_append)
  ultimately have "bus_keeps lib contents s (goes_on [Start_dispatcher p name ?t] ?s)"
    by (rule bus_keeps_goes_on) (simp add: act_ok_def)
  moreover have "bus_keeps lib contents s (goes_on [Start_dispatcher p name t] s)" if "map_of (bs_topics s) name = Some t" for t
    using bus_okD(4) [OF assms(2) map_of_SomeD [OF that]] assms(2) by (intro bus_keeps_goes_on) (auto simp: act_ok_def bus_grows_refl)
  ultimately show ?thesis
    using bus_keeps_give_up [OF assms(2)] by (auto simp: get_or_create_topic_def Let_def split: option.splits)
qed

lemma bus_keeps_start:
  assumes "bus_ok lib contents s" "t < length (bs_topic_heap s)"
  shows "bus_keeps lib contents s (start_dispatcher_if_needed p name t s)"
proof (cases "tp_dispatcher_started (topic s t)")
  case True
  with assms show ?thesis by (auto simp: start_dispatcher_if_needed_def act_ok_def intro!: bus_keeps_goes_on bus_grows_refl)
next
  case False
  let ?f = "\<lambda>tp. tp\<lparr>tp_dispatcher_started := True, tp_dispatchers := tp_dispatchers tp @ [D_receive]\<rparr>"
  have e: "tp_dispatchers (topic s t) = []" using bus_okD(1) [OF assms] False by (simp add: topic_ok_def)
  have c: "current (topic s t) = D_receive" by (simp add: current_def e)
  have "bus_ok lib contents (upd_topic t ?f s)"
    using bus_okD(1) [OF assms] by (intro ok_upd_topic [OF assms]) (simp_all add: topic_ok_def sub_ok_def c e)
  moreover have "bus_grows s (upd_topic t ?f s)" by (rule bus_grows_upd) simp
  ultimately show ?thesis using assms False by (simp add: start_dispatcher_if_needed_def bus_keeps_def act_ok_def e)
qed

lemma bus_keeps_check: "bus_ok lib contents s \<Longrightarrow> t < length (bs_topic_heap s) \<Longrightarrow> bus_keeps lib contents s (check_topic p name t s)"
  using bus_keeps_give_up by (auto simp: check_topic_def act_ok_def split: purpose.splits intro!: bus_keeps_goes_on bus_grows_refl)

lemma bus_keeps_send:
  assumes "channel_laws lib contents" "bus_ok lib contents s" "t < length (bs_topic_heap s)"
  shows "bus_keeps lib contents s (publish_send lib io m v name t s)"
proof -
  have "bus_keeps lib contents s (returns (Ev_publish m name v r) (take_value t c v s))"
    if "ch_send lib (tp_ingress (topic s t)) v = Sent c" for c r
  proof -
    from assms(1) that have c: "contents c = contents (tp_ingress (topic s t)) @ [v]" "ch_is_open lib (tp_ingress (topic s t))"
      by (auto simp: channel_laws_def)
    let ?f = "\<lambda>tp. tp\<lparr>tp_ingress := c, tp_accepted := tp_accepted tp @ [v]\<rparr>"
    have "bus_ok lib contents (take_value t c v s)" unfolding take_value_def
      using bus_okD(1) [OF assms(2,3)] by (intro ok_upd_topic [OF assms(2,3)]) (auto simp: topic_ok_def sub_ok_def c)
    then show ?thesis by (rule bus_keeps_returns) (auto simp: take_value_def intro: bus_grows_upd)
  qed
  with assms(2) show ?thesis
    by (auto simp: publish_send_def split: send_result.splits intro: bus_keeps_returns bus_grows_refl)
qed

lemma topic_ok_add:
  "topic_ok lib contents st t tp \<Longrightarrow> topic_ok lib contents (st @ [(t', n)]) t tp"
  by (auto simp: topic_ok_def nth_append)

lemma bus_keeps_add_subscriber:
  assumes "channel_laws lib contents" "bus_ok lib contents s" "t < length (bs_topic_heap s)"
  shows "bus_keeps lib contents s (add_subscriber lib name t s)"
proof -
  let ?i = "length (bs_subscriber_heap s)" and ?n = "tp_next_subscriber_id (topic s t)"
  let ?sb = "\<lparr>sb_topic = t, sb_id = ?n, sb_egress = ch_new lib (bo_subscription_capacity (bs_options s)), sb_closed = False,
     sb_held = True, sb_start = length (tp_sent (topic s t))\<rparr>"
  let ?f = "\<lambda>tp. tp\<lparr>tp_subscribers := tp_subscribers tp @ [(?n, ?i)], tp_next_subscriber_id := ?n + 1\<rparr>"
  let ?s = "upd_topic t ?f (s\<lparr>bs_subscriber_heap := bs_subscriber_heap s @ [?sb]\<rparr>)"
  have st: "statics ?s = statics s @ [(t, ?n)]" by (simp add: statics_def upd_topic_def)
  have new: "topic ?s t' = (if t' = t then ?f (topic s t) else topic s t')" for t'
    using assms(3) by (simp add: upd_topic_def)
  have "topic_ok lib contents (statics ?s) t' (topic ?s t')" if "t' < length (bs_topic_heap s)" for t'
  proof (cases "t' = t")
    case True
    from bus_okD(1) [OF assms(2,3)] have "?i \<notin> snd ` set (tp_subscribers (topic s t))" by (force simp: topic_ok_def)
    with bus_okD(1) [OF assms(2,3)] show ?thesis
      unfolding st new by (auto simp: True topic_ok_def nth_append)
  next
    case False
    with topic_ok_add [OF bus_okD(1) [OF assms(2) that]] show ?thesis unfolding st new by simp
  qed
  moreover have "sub_ok lib contents (got i (bs_log s)) (topic ?s (sb_topic (subscriber s i))) i (subscriber s i)" if "i < ?i" for i
    using bus_okD(3) [OF assms(2) that] that unfolding new by (auto simp: sub_ok_def Let_def)
  moreover have "?i \<notin> set (left_of (current (topic s t)))" using bus_okD(1) [OF assms(2,3)] by (auto simp: topic_ok_def)
  then have "busy_with (current (topic s t)) \<noteq> Some ?i" "pending (current (topic s t)) ?i = []"
    by (cases "current (topic s t)"; simp add: pending_def)+
  then have "sub_ok lib contents (got ?i (bs_log s)) (topic ?s t) ?i ?sb"
    using assms(1) bus_okD(5) [OF assms(2), of ?i] unfolding new by (simp add: sub_ok_def channel_laws_def)
  ultimately have "bus_ok lib contents ?s"
    using assms(2,3) bus_okD(2) [OF assms(2)]
    by (auto simp: bus_ok_def less_Suc_eq nth_append upd_topic_def)
  moreover have "bus_grows s ?s" using new by (auto simp: bus_grows_def nth_append upd_topic_def)
  ultimately show ?thesis unfolding add_subscriber_def Let_def by (rule bus_keeps_returns) simp
qed

lemma bus_keeps_mark:
  assumes "bus_ok lib contents s" "i < length (bs_subscriber_heap s)"
  shows "bus_ok lib contents (mark_closed i s)" "bus_grows s (mark_closed i s)"
  unfolding mark_closed_def
  by (intro ok_upd_subscriber [OF assms]; auto simp: sub_ok_def Let_def) (simp add: bus_grows_upd)

lemma bus_keeps_egress_close:
  assumes "channel_laws lib contents" "bus_ok lib contents s" "i < length (bs_subscriber_heap s)" "sb_closed (subscriber s i)"
  shows "bus_ok lib contents (egress_close lib i s)"
  unfolding egress_close_def
proof (rule ok_upd_subscriber [OF assms(2,3)])
  let ?c = "sb_egress (subscriber s i)"
  have c: "\<not> ch_is_open lib (ch_close lib ?c)" "prefix (contents (ch_close lib ?c)) (contents ?c)"
    using assms(1) by (auto simp: channel_laws_def)
  have "prefix (g @ contents (ch_close lib ?c)) S" if "prefix (g @ contents ?c) S" for g S
    using c(2) that by (meson prefix_order.trans same_prefix_prefix)
  with c(1) assms(4) show "sub_ok lib contents (got i (bs_log s)) tp i (subscriber s i\<lparr>sb_egress := ch_close lib ?c\<rparr>)"
    if "sub_ok lib contents (got i (bs_log s)) tp i (subscriber s i)" for tp
    using that by (simp add: sub_ok_def Let_def)
qed simp_all

lemma bus_grows_egress_close: "bus_grows s (egress_close lib i s)"
  by (simp add: egress_close_def bus_grows_upd)

text \<open>Removing subscribers from the map of a topic.\<close>

lemma bus_keeps_fewer:
  assumes "bus_ok lib contents s" "t < length (bs_topic_heap s)" "\<And>tp. set (g tp) \<subseteq> set (tp_subscribers tp)"
    and "\<And>tp. distinct (map snd (tp_subscribers tp)) \<Longrightarrow> distinct (map snd (g tp))"
  shows "bus_ok lib contents (upd_topic t (\<lambda>tp. tp\<lparr>tp_subscribers := g tp\<rparr>) s)"
proof (rule ok_upd_topic [OF assms(1,2)])
  show "topic_ok lib contents (statics s) t (topic s t\<lparr>tp_subscribers := g (topic s t)\<rparr>)"
    using bus_okD(1) [OF assms(1,2)] assms(3) [of "topic s t"] assms(4) [of "topic s t"] by (auto simp: topic_ok_def)
qed (use assms(3) [of "topic s t"] in \<open>auto simp: sub_ok_def Let_def\<close>)

lemma distinct_snd_filter: "distinct (map snd ps) \<Longrightarrow> distinct (map snd (filter P ps))"
  by (rule distinct_map_filter)

lemma bus_keeps_remove:
  assumes "bus_ok lib contents s" "i < length (bs_subscriber_heap s)"
  shows "bus_ok lib contents (remove_subscriber i s)" "bus_grows s (remove_subscriber i s)"
  using bus_keeps_fewer [OF assms(1) bus_okD(2) [OF assms], of "\<lambda>tp. filter (\<lambda>p. fst p \<noteq> sb_id (subscriber s i)) (tp_subscribers tp)"]
  by (auto simp: remove_subscriber_def distinct_snd_filter intro: bus_grows_upd)

lemma bus_keeps_topics:
  assumes "bus_ok lib contents s" "set ps \<subseteq> set (bs_topics s)"
  shows "bus_ok lib contents (s\<lparr>bs_topics := ps, bs_closed_topics := ns\<rparr>)" "bus_ok lib contents (s\<lparr>bs_closed := b\<rparr>)"
    "bus_ok lib contents (s\<lparr>bs_closed_topics := ns\<rparr>)"
    "bus_grows s (s\<lparr>bs_topics := ps, bs_closed_topics := ns\<rparr>)" "bus_grows s (s\<lparr>bs_closed := b\<rparr>)" "bus_grows s (s\<lparr>bs_closed_topics := ns\<rparr>)"
  using assms by (auto simp: bus_ok_def statics_def bus_grows_def)

lemma bus_keeps_erase:
  assumes "bus_ok lib contents s"
  shows "bus_keeps lib contents s (erase_topic name s)"
proof -
  have u: "s\<lparr>bs_closed_topics := ns, bs_topics := ps\<rparr> = s\<lparr>bs_topics := ps, bs_closed_topics := ns\<rparr>" for ns ps by simp
  have "t < length (bs_topic_heap s)" if "map_of (bs_topics s) name = Some t" for t
    using bus_okD(4) [OF assms map_of_SomeD [OF that]] .
  with bus_keeps_topics(1,4) [OF assms, of "filter (\<lambda>p. fst p \<noteq> name) (bs_topics s)" "name # bs_closed_topics s"]
    bus_keeps_topics(3,6) [OF assms, of "[]" "name # bs_closed_topics s"] show ?thesis
    unfolding erase_topic_def Let_def u by (auto simp: act_ok_def split: option.splits intro!: bus_keeps_goes_on)
qed

lemma bus_keeps_bus_close: "bus_ok lib contents s \<Longrightarrow> bus_keeps lib contents s (bus_close s)"
  using bus_keeps_topics(2,5) [of lib contents s "[]"] by (auto simp: bus_close_def act_ok_def intro!: bus_keeps_goes_on bus_grows_refl)

lemma walks_Some: "walks io xs = Some ys \<Longrightarrow> mset ys = mset xs"
  by (auto simp: walks_def split: bus_io.splits if_splits)

lemma walks_set: "walks io xs = Some ys \<Longrightarrow> set ys = set xs" "walks io xs = Some ys \<Longrightarrow> distinct xs \<Longrightarrow> distinct ys"
  using walks_Some [of io xs ys] mset_eq_setD [of ys xs] mset_eq_imp_distinct_iff [of ys xs] by simp_all

lemma bus_keeps_clear:
  assumes "bus_ok lib contents s"
  shows "bus_keeps lib contents s (clear_topics io s)"
  using bus_keeps_topics [OF assms, of "[]"] bus_okD(4) [OF assms] walks_set(1) [of io "map snd (bs_topics s)"]
  by (auto simp: clear_topics_def act_ok_def split: option.splits intro!: bus_keeps_goes_on)

lemma bus_keeps_topic_close:
  assumes "bus_ok lib contents s" "t < length (bs_topic_heap s)"
  shows "bus_keeps lib contents s (topic_close t s)"
proof -
  have "bus_ok lib contents (upd_topic t (\<lambda>tp. tp\<lparr>tp_closed := True\<rparr>) s)"
    using bus_okD(1) [OF assms] by (intro ok_upd_topic [OF assms]) (auto simp: topic_ok_def sub_ok_def Let_def)
  with assms show ?thesis
    by (auto simp: topic_close_def act_ok_def intro!: bus_keeps_goes_on bus_grows_refl bus_grows_upd)
qed

lemma bus_keeps_ingress_close:
  assumes "channel_laws lib contents" "bus_ok lib contents s" "t < length (bs_topic_heap s)"
  shows "bus_ok lib contents (ingress_close lib t s)" "bus_grows s (ingress_close lib t s)"
proof -
  let ?c = "tp_ingress (topic s t)"
  have c: "\<not> ch_is_open lib (ch_close lib ?c)" "prefix (contents (ch_close lib ?c)) (contents ?c)"
    using assms(1) by (auto simp: channel_laws_def)
  have "prefix (xs @ hs @ contents (ch_close lib ?c)) ys" if "prefix (xs @ hs @ contents ?c) ys" for xs hs ys
    using c(2) that by (meson prefix_order.trans same_prefix_prefix)
  with c(1) show "bus_ok lib contents (ingress_close lib t s)" unfolding ingress_close_def
    using bus_okD(1) [OF assms(2,3)] by (intro ok_upd_topic [OF assms(2,3)]) (simp_all add: topic_ok_def sub_ok_def Let_def)
  show "bus_grows s (ingress_close lib t s)" by (simp add: ingress_close_def bus_grows_upd)
qed

lemma bus_keeps_close_subscribers:
  assumes "bus_ok lib contents s" "t < length (bs_topic_heap s)"
  shows "bus_keeps lib contents s (close_subscribers io t s)"
proof -
  have "i < length (bs_subscriber_heap s)" if "(n, i) \<in> set (tp_subscribers (topic s t))" for n i
    using bus_okD(1) [OF assms] that by (auto simp: topic_ok_def)
  with bus_keeps_fewer [OF assms, of "\<lambda>tp. []"] walks_set(1) [of io "filter (alive s) (map snd (tp_subscribers (topic s t)))"] show ?thesis
    by (auto simp: close_subscribers_def act_ok_def split: option.splits intro!: bus_keeps_goes_on bus_grows_upd)
qed

lemma bus_keeps_subscriber_close:
  assumes "bus_ok lib contents s" "i < length (bs_subscriber_heap s)"
  shows "bus_keeps lib contents s (subscriber_close i s)"
proof -
  have "sb_closed (subscriber (mark_closed i s) i)" "length (bs_subscriber_heap (mark_closed i s)) = length (bs_subscriber_heap s)"
    using assms(2) by (simp_all add: mark_closed_def)
  with bus_keeps_mark [OF assms] assms show ?thesis
    by (auto simp: subscriber_close_def act_ok_def intro!: bus_keeps_goes_on bus_grows_refl)
qed

lemma bus_keeps_next:
  assumes "bus_ok lib contents s" "i < length (bs_subscriber_heap s)"
  shows "bus_keeps lib contents s (subscription_next on_io i s)"
  using assms by (auto simp: subscription_next_def act_ok_def intro!: bus_keeps_returns bus_keeps_goes_on bus_grows_refl)

lemma bus_keeps_receive:
  assumes "channel_laws lib contents" "bus_ok lib contents s" "i < length (bs_subscriber_heap s)"
  shows "bus_keeps lib contents s (subscription_receive lib i s)"
proof -
  have "bus_keeps lib contents s (returns (Ev_next i (Some v)) (upd_subscriber i (\<lambda>sb. sb\<lparr>sb_egress := c\<rparr>) s))"
    if "ch_receive lib (sb_egress (subscriber s i)) = Received v c" for v c
  proof -
    let ?h = "\<lambda>sb. sb\<lparr>sb_egress := c\<rparr>"
    from assms(1) that have c: "contents (sb_egress (subscriber s i)) = v # contents c"
      "ch_is_open lib c = ch_is_open lib (sb_egress (subscriber s i))" by (auto simp: channel_laws_def)
    have "statics (upd_subscriber i ?h s) = statics s" by (simp add: statics_upd)
    moreover have "sub_ok lib contents (got i (bs_log s) @ [v]) tp i (subscriber s i\<lparr>sb_egress := c\<rparr>)"
      if "sub_ok lib contents (got i (bs_log s)) tp i (subscriber s i)" for tp
      using that by (simp add: sub_ok_def Let_def c)
    ultimately have "bus_ok lib contents (log_event (Ev_next i (Some v)) (upd_subscriber i ?h s))"
      using assms(2,3) by (auto simp: bus_ok_def got_append)
    moreover have "bus_grows s (log_event (Ev_next i (Some v)) (upd_subscriber i ?h s))" by (rule bus_grows_trans [OF bus_grows_upd(2,3)]) simp
    ultimately show ?thesis by (simp add: bus_keeps_def returns_def)
  qed
  with bus_keeps_mark [OF assms(2,3)] assms(2) show ?thesis
    by (auto simp: subscription_receive_def split: receive_result.splits intro!: bus_keeps_returns bus_grows_refl)
qed

section \<open>The dispatcher bus_keeps it\<close>

lemma upd_topic_cong: "f (topic s t) = g (topic s t) \<Longrightarrow> upd_topic t f s = upd_topic t g s"
  by (simp add: upd_topic_def)

lemma upd_topic_twice: "upd_topic t f (upd_topic t g s) = upd_topic t (f \<circ> g) s"
  by (cases "t < length (bs_topic_heap s)") (simp_all add: upd_topic_def not_less list_update_beyond)

lemma one_dispatcher:
  assumes "bus_ok lib contents s" "t < length (bs_topic_heap s)" "k < length (tp_dispatchers (topic s t))"
  shows "k = 0" "tp_dispatchers (topic s t) = [current (topic s t)]" "tp_dispatcher_started (topic s t)"
  using bus_okD(1) [OF assms(1,2)] assms(3)
  by (auto simp: topic_ok_def current_def split: if_splits list.splits)

text \<open>A move of the dispatcher that may change other fields of the topic as well.\<close>

lemma bus_keeps_move:
  assumes "bus_ok lib contents s" "t < length (bs_topic_heap s)" "k < length (tp_dispatchers (topic s t))"
    and "\<And>tp. tp_dispatchers (f tp) = tp_dispatchers tp"
    and "topic_ok lib contents (statics s) t ((f (topic s t))\<lparr>tp_dispatchers := [d]\<rparr>)"
    and "\<And>i. i < length (bs_subscriber_heap s) \<Longrightarrow> sb_topic (subscriber s i) = t \<Longrightarrow>
      sub_ok lib contents (got i (bs_log s)) (topic s t) i (subscriber s i) \<Longrightarrow>
      sub_ok lib contents (got i (bs_log s)) ((f (topic s t))\<lparr>tp_dispatchers := [d]\<rparr>) i (subscriber s i)"
    and "\<And>b. b \<in> set acts \<Longrightarrow> b = Dispatch t k \<or> b = Topic_close t"
  shows "bus_keeps lib contents s (goes_on acts (upd_dispatcher t k d (upd_topic t f s)))"
proof -
  note k = one_dispatcher [OF assms(1-3)]
  have "upd_dispatcher t k d (upd_topic t f s) = upd_topic t (\<lambda>tp. (f tp)\<lparr>tp_dispatchers := [d]\<rparr>) s"
    unfolding upd_dispatcher_def upd_topic_twice by (rule upd_topic_cong) (simp add: k assms(4))
  moreover have "bus_ok lib contents (upd_topic t (\<lambda>tp. (f tp)\<lparr>tp_dispatchers := [d]\<rparr>) s)"
    by (intro ok_upd_topic assms(1,2,5,6))
  moreover have "bus_grows s (upd_dispatcher t k d (upd_topic t f s))"
    unfolding upd_dispatcher_def by (rule bus_grows_trans [OF bus_grows_upd(1,1)]) (simp_all add: assms(4))
  moreover have "tp_dispatchers (topic (upd_dispatcher t k d (upd_topic t f s)) t) = [d]"
    using assms(2) by (simp add: upd_dispatcher_def k assms(4))
  moreover from this have "act_ok (upd_dispatcher t k d (upd_topic t f s)) (Dispatch t k)"
      "act_ok (upd_dispatcher t k d (upd_topic t f s)) (Topic_close t)"
    using assms(2) by (simp_all add: act_ok_def k(1)) (simp_all add: upd_dispatcher_def)
  ultimately show ?thesis
    using assms(7) by (intro bus_keeps_goes_on) metis+
qed

lemma upd_topic_id: "upd_topic t (\<lambda>tp. tp) s = s"
  by (simp add: upd_topic_def)

lemmas bus_keeps_pc = bus_keeps_move [where f = "\<lambda>tp. tp", unfolded upd_topic_id]

text \<open>A dispatcher that goes on to a place where the same subscribers are left changes nothing for them.\<close>

lemma sub_ok_same:
  assumes "sub_ok lib contents g tp i sb" "tp_sent tp' = tp_sent tp" "tp_subscribers tp' = tp_subscribers tp"
    and "left_of (current tp') = left_of (current tp)" "left_of (current tp) \<noteq> [] \<Longrightarrow> fan_value (current tp') = fan_value (current tp)"
    and "busy_with (current tp') = Some i \<Longrightarrow> ch_is_open lib (sb_egress sb) \<Longrightarrow>
      prefix (g @ contents (sb_egress sb) @ fan_value (current tp')) (drop (sb_start sb) (tp_sent tp))"
  shows "sub_ok lib contents g tp' i sb"
proof -
  have "pending (current tp') i = pending (current tp) i"
    using assms(4,5) by (cases "left_of (current tp)") (simp_all add: pending_def)
  with assms(1-4,6) show ?thesis by (simp add: sub_ok_def Let_def)
qed

lemma bus_keeps_dispatch_receive:
  assumes "channel_laws lib contents" "bus_ok lib contents s" "t < length (bs_topic_heap s)" "k < length (tp_dispatchers (topic s t))"
    and "current (topic s t) = D_receive"
  shows "bus_keeps lib contents s (dispatch_receive lib t k s)"
proof -
  note ok = bus_okD(1) [OF assms(2,3)]
  have "bus_keeps lib contents s (goes_on [Dispatch t k] (upd_dispatcher t k (D_collect v) (upd_topic t (\<lambda>tp. tp\<lparr>tp_ingress := c\<rparr>) s)))"
    if "ch_receive lib (tp_ingress (topic s t)) = Received v c" for v c
  proof (rule bus_keeps_move [OF assms(2-4)])
    from assms(1) that have c: "contents (tp_ingress (topic s t)) = v # contents c"
      "ch_is_open lib c = ch_is_open lib (tp_ingress (topic s t))" by (auto simp: channel_laws_def)
    show "topic_ok lib contents (statics s) t (topic s t\<lparr>tp_ingress := c, tp_dispatchers := [D_collect v]\<rparr>)"
      using ok one_dispatcher(3) [OF assms(2-4)] by (simp add: topic_ok_def assms(5) c)
  qed (simp_all, erule sub_ok_same, simp_all add: assms(5))
  moreover have "bus_keeps lib contents s (goes_on [Topic_close t] (upd_dispatcher t k D_ended s))"
  proof (rule bus_keeps_pc [OF assms(2-4)])
    show "topic_ok lib contents (statics s) t (topic s t\<lparr>tp_dispatchers := [D_ended]\<rparr>)" using ok one_dispatcher(3) [OF assms(2-4)] by (simp add: topic_ok_def assms(5))
  qed (simp_all, erule sub_ok_same, simp_all add: assms(5))
  ultimately show ?thesis by (simp add: dispatch_receive_def split: receive_result.splits)
qed

lemma bus_keeps_collect:
  assumes "bus_ok lib contents s" "t < length (bs_topic_heap s)" "k < length (tp_dispatchers (topic s t))"
    and "current (topic s t) = D_collect v"
  shows "bus_keeps lib contents s (collect_subscribers io t k v s)"
proof -
  note ok = bus_okD(1) [OF assms(1,2)]
  have "bus_keeps lib contents s (goes_on [Dispatch t k] (upd_dispatcher t k (D_fanout v is)
      (upd_topic t (\<lambda>tp. tp\<lparr>tp_subscribers := filter (alive s \<circ> snd) (tp_subscribers tp), tp_sending_to := is, tp_sent := tp_sent tp @ [v]\<rparr>) s)))"
    if w: "walks io (filter (alive s) (map snd (tp_subscribers (topic s t)))) = Some is" for "is"
  proof (rule bus_keeps_move [OF assms(1-3)])
    let ?tp = "topic s t\<lparr>tp_subscribers := filter (alive s \<circ> snd) (tp_subscribers (topic s t)), tp_sending_to := is,
       tp_sent := tp_sent (topic s t) @ [v], tp_dispatchers := [D_fanout v is]\<rparr>"
    have is': "set is = {i \<in> snd ` set (tp_subscribers (topic s t)). alive s i}" "distinct is"
      using walks_set [OF w] ok by (auto simp: topic_ok_def)
    from ok one_dispatcher(3) [OF assms(1-3)] is' show "topic_ok lib contents (statics s) t ?tp"
      by (force simp: topic_ok_def assms(4) distinct_map_filter)
    fix i assume s: "sub_ok lib contents (got i (bs_log s)) (topic s t) i (subscriber s i)"
    have "i \<in> set is \<longleftrightarrow> i \<in> snd ` set (tp_subscribers ?tp)" using is' by force
    moreover have "i \<in> set is \<Longrightarrow> i \<in> snd ` set (tp_subscribers (topic s t))" using is' by blast
    ultimately show "sub_ok lib contents (got i (bs_log s)) ?tp i (subscriber s i)"
      using s by (auto simp: sub_ok_def Let_def assms(4) pending_def prefix_def)
  qed simp_all
  then show ?thesis by (simp add: collect_subscribers_def split: option.splits)
qed

text \<open>A subscriber that is closed is left out.\<close>

lemma sub_ok_drop:
  assumes "sub_ok lib contents g tp i sb" "left_of (current tp) = j # is" "distinct (j # is)" "fan_value (current tp) = [v]"
    and "i = j \<Longrightarrow> sb_closed sb"
  shows "sub_ok lib contents g (tp\<lparr>tp_dispatchers := [D_mark v j is]\<rparr>) i sb"
  using assms by (cases "i = j") (auto simp: sub_ok_def Let_def pending_def)

lemma bus_keeps_drop:
  assumes "bus_ok lib contents s" "t < length (bs_topic_heap s)" "k < length (tp_dispatchers (topic s t))"
    and "left_of (current (topic s t)) = j # is" "fan_value (current (topic s t)) = [v]" "hand_of (current (topic s t)) = []"
    and "sb_closed (subscriber s j)"
  shows "bus_keeps lib contents s (goes_on [Dispatch t k] (upd_dispatcher t k (D_mark v j is) s))"
proof (rule bus_keeps_pc [OF assms(1-3)])
  note ok = bus_okD(1) [OF assms(1,2)]
  from ok one_dispatcher(3) [OF assms(1-3)] show "topic_ok lib contents (statics s) t (topic s t\<lparr>tp_dispatchers := [D_mark v j is]\<rparr>)"
    by (simp add: topic_ok_def assms(4,6))
  have "distinct (j # is)" using ok assms(4) by (simp add: topic_ok_def)
  then show "sub_ok lib contents (got i (bs_log s)) (topic s t\<lparr>tp_dispatchers := [D_mark v j is]\<rparr>) i (subscriber s i)"
    if "sub_ok lib contents (got i (bs_log s)) (topic s t) i (subscriber s i)" for i
    using sub_ok_drop [OF that assms(4) _ assms(5)] assms(7) by blast
qed simp_all

text \<open>A dispatcher that only goes on.\<close>

lemma bus_keeps_forward:
  assumes "bus_ok lib contents s" "t < length (bs_topic_heap s)" "k < length (tp_dispatchers (topic s t))"
    and "left_of d = left_of (current (topic s t))" "fan_value d = fan_value (current (topic s t))" "hand_of (current (topic s t)) = hand_of d"
    and "\<And>i. dropping d = Some i \<Longrightarrow> i < length (bs_subscriber_heap s)"
    and "\<And>i. busy_with d = Some i \<Longrightarrow> i < length (bs_subscriber_heap s) \<Longrightarrow> sb_topic (subscriber s i) = t \<Longrightarrow>
      sub_ok lib contents (got i (bs_log s)) (topic s t) i (subscriber s i) \<Longrightarrow>
      busy_with (current (topic s t)) = Some i \<or> \<not> sb_closed (subscriber s i) \<and> i \<in> set (left_of d)"
  shows "bus_keeps lib contents s (goes_on [Dispatch t k] (upd_dispatcher t k d s))"
proof (rule bus_keeps_pc [OF assms(1-3)])
  note ok = bus_okD(1) [OF assms(1,2)]
  from ok one_dispatcher(3) [OF assms(1-3)] assms(7) show "topic_ok lib contents (statics s) t (topic s t\<lparr>tp_dispatchers := [d]\<rparr>)"
    by (simp add: topic_ok_def assms(4,6))
  show "sub_ok lib contents (got i (bs_log s)) (topic s t\<lparr>tp_dispatchers := [d]\<rparr>) i (subscriber s i)"
    if "i < length (bs_subscriber_heap s)" "sb_topic (subscriber s i) = t"
      and o: "sub_ok lib contents (got i (bs_log s)) (topic s t) i (subscriber s i)" for i
  proof (rule sub_ok_same [OF o])
    assume "busy_with (current (topic s t\<lparr>tp_dispatchers := [d]\<rparr>)) = Some i" "ch_is_open lib (sb_egress (subscriber s i))"
    with assms(8) [OF _ that] o show "prefix (got i (bs_log s) @ contents (sb_egress (subscriber s i)) @
        fan_value (current (topic s t\<lparr>tp_dispatchers := [d]\<rparr>))) (drop (sb_start (subscriber s i)) (tp_sent (topic s t)))"
      by (auto simp: sub_ok_def Let_def assms(4,5) pending_def)
  qed (simp_all add: assms)
qed simp_all

lemma bus_keeps_sent:
  assumes "channel_laws lib contents" "bus_ok lib contents s" "t < length (bs_topic_heap s)" "k < length (tp_dispatchers (topic s t))"
    and "current (topic s t) = D_send v j is" "ch_send lib (sb_egress (subscriber s j)) v = Sent c"
  shows "bus_ok lib contents (upd_dispatcher t k (D_fanout v is) (upd_subscriber j (\<lambda>sb. sb\<lparr>sb_egress := c\<rparr>) s))"
proof -
  let ?h = "\<lambda>sb. sb\<lparr>sb_egress := c\<rparr>" and ?tp = "topic s t\<lparr>tp_dispatchers := [D_fanout v is]\<rparr>"
  note ok = bus_okD(1) [OF assms(2,3)] and k = one_dispatcher [OF assms(2-4)]
  let ?s = "upd_topic t (\<lambda>tp. tp\<lparr>tp_dispatchers := [D_fanout v is]\<rparr>) (upd_subscriber j ?h s)"
  have s: "upd_dispatcher t k (D_fanout v is) (upd_subscriber j ?h s) = ?s"
    unfolding upd_dispatcher_def by (rule upd_topic_cong) (simp add: k)
  from ok assms(5) have j: "j < length (bs_subscriber_heap s)" "fst (statics s ! j) = t" "j \<notin> set is" "distinct is" by (simp_all add: topic_ok_def)
  then have jt: "sb_topic (subscriber s j) = t" by (simp add: statics_nth)
  from assms(1,6) have c: "contents c = contents (sb_egress (subscriber s j)) @ [v]" "ch_is_open lib (sb_egress (subscriber s j))" "ch_is_open lib c"
    by (auto simp: channel_laws_def)
  have st: "statics ?s = statics s" by (simp add: statics_upd)
  have "topic_ok lib contents (statics s) t ?tp" using ok k(3) by (simp add: topic_ok_def assms(5))
  moreover have "sub_ok lib contents g ?tp i sb" if "sub_ok lib contents g (topic s t) i sb" "i \<noteq> j" for g i sb
    using that by (auto simp: sub_ok_def Let_def assms(5) pending_def)
  moreover have "sub_ok lib contents g ?tp j (subscriber s j\<lparr>sb_egress := c\<rparr>)" if "sub_ok lib contents g (topic s t) j (subscriber s j)" for g
    using that j(3) c by (auto simp: sub_ok_def Let_def assms(5) pending_def)
  ultimately show ?thesis
    using assms(2,3) j(1) jt unfolding s bus_ok_def st by auto
qed

lemma bus_keeps_fanout_send:
  assumes "channel_laws lib contents" "bus_ok lib contents s" "t < length (bs_topic_heap s)" "k < length (tp_dispatchers (topic s t))"
    and "current (topic s t) = D_send v j is"
  shows "bus_keeps lib contents s (fanout_send lib t k v j is s)"
proof (cases "ch_send lib (sb_egress (subscriber s j)) v")
  case (Sent c)
  let ?s = "upd_dispatcher t k (D_fanout v is) (upd_subscriber j (\<lambda>sb. sb\<lparr>sb_egress := c\<rparr>) s)"
  have "bus_grows s ?s" unfolding upd_dispatcher_def by (rule bus_grows_trans [OF bus_grows_upd(2,1)]) simp_all
  moreover from this have "act_ok ?s (Dispatch t k)" by (rule bus_grows_act) (simp add: act_ok_def assms(3,4))
  ultimately show ?thesis using bus_keeps_sent [OF assms Sent] by (simp add: fanout_send_def Sent bus_keeps_def goes_on_def)
next
  case (Send_error b)
  from bus_okD(1) [OF assms(2,3)] assms(5) have "j < length (bs_subscriber_heap s)" by (simp add: topic_ok_def)
  moreover from assms(1) Send_error have "\<not> ch_is_open lib (sb_egress (subscriber s j))" unfolding channel_laws_def by blast
  ultimately have "sb_closed (subscriber s j)" using bus_okD(3) [OF assms(2)] by (auto simp: sub_ok_def Let_def)
  with bus_keeps_drop [OF assms(2-4), of j "is" v] assms(5) show ?thesis by (simp add: fanout_send_def Send_error)
qed (simp add: fanout_send_def)

lemma bus_keeps_dispatch:
  assumes "channel_laws lib contents" "bus_ok lib contents s" "t < length (bs_topic_heap s)" "k < length (tp_dispatchers (topic s t))"
  shows "bus_keeps lib contents s (dispatch_loop lib io t k s)"
proof -
  note ok = bus_okD(1) [OF assms(2,3)] and k = one_dispatcher [OF assms(2-4)] and sub = bus_okD(3) [OF assms(2)]
  have d: "tp_dispatchers (topic s t) ! k = current (topic s t)" by (simp add: k)
  show ?thesis
  proof (cases "current (topic s t)")
    case (D_fanout v "is")
    show ?thesis
    proof (cases "is")
      case Nil
      have "bus_keeps lib contents s (goes_on [Dispatch t k] (upd_dispatcher t k D_receive (upd_topic t (\<lambda>tp. tp\<lparr>tp_sending_to := []\<rparr>) s)))"
      proof (rule bus_keeps_move [OF assms(2-4)])
        show "topic_ok lib contents (statics s) t (topic s t\<lparr>tp_sending_to := [], tp_dispatchers := [D_receive]\<rparr>)"
          using ok k(3) by (simp add: topic_ok_def D_fanout)
      qed (simp_all, erule sub_ok_same, simp_all add: D_fanout Nil)
      then show ?thesis by (simp add: dispatch_loop_def d D_fanout Nil)
    next
      case (Cons i is')
      with ok D_fanout have i: "i < length (bs_subscriber_heap s)" by (simp add: topic_ok_def)
      have "bus_keeps lib contents s (goes_on [Dispatch t k] (upd_dispatcher t k (D_mark v i is') s))" if "sb_closed (subscriber s i)"
        using bus_keeps_drop [OF assms(2-4) _ _ _ that] by (simp add: D_fanout Cons)
      moreover have "bus_keeps lib contents s (goes_on [Dispatch t k] (upd_dispatcher t k (D_check_open v i is') s))" if "\<not> sb_closed (subscriber s i)"
        using that by (intro bus_keeps_forward [OF assms(2-4)]) (simp_all add: D_fanout Cons)
      ultimately show ?thesis by (simp add: dispatch_loop_def d D_fanout Cons)
    qed
  next
    case (D_check_open v i "is")
    with ok have i: "i < length (bs_subscriber_heap s)" by (simp add: topic_ok_def)
    have "sb_closed (subscriber s i)" if "\<not> ch_is_open lib (sb_egress (subscriber s i))" using sub [OF i] that by (simp add: sub_ok_def Let_def)
    then have "bus_keeps lib contents s (goes_on [Dispatch t k] (upd_dispatcher t k (D_mark v i is) s))" if "\<not> ch_is_open lib (sb_egress (subscriber s i))"
      using bus_keeps_drop [OF assms(2-4), of i "is" v] that by (simp add: D_check_open)
    moreover have "bus_keeps lib contents s (goes_on [Dispatch t k] (upd_dispatcher t k (D_send v i is) s))"
      by (intro bus_keeps_forward [OF assms(2-4)]) (simp_all add: D_check_open)
    ultimately show ?thesis by (simp add: dispatch_loop_def d D_check_open)
  next
    case (D_mark v i "is")
    with ok have i: "i < length (bs_subscriber_heap s)" by (simp add: topic_ok_def)
    let ?s = "mark_closed i s"
    have "bus_keeps lib contents ?s (goes_on [Dispatch t k] (upd_dispatcher t k (D_remove v i is) ?s))"
      using assms(3,4) i bus_keeps_mark(1) [OF assms(2) i]
      by (intro bus_keeps_forward) (simp_all add: D_mark mark_closed_def)
    with bus_keeps_mark(2) [OF assms(2) i] show ?thesis
      by (auto simp: dispatch_loop_def d D_mark bus_keeps_def goes_on_def intro: bus_grows_trans)
  next
    case (D_remove v i "is")
    with ok have i: "i < length (bs_subscriber_heap s)" by (simp add: topic_ok_def)
    let ?s = "remove_subscriber i s"
    have t: "topic ?s t = topic s t\<lparr>tp_subscribers := tp_subscribers (topic ?s t)\<rparr>" "length (bs_topic_heap ?s) = length (bs_topic_heap s)"
      using bus_okD(2) [OF assms(2) i] by (auto simp: remove_subscriber_def)
    then have "current (topic ?s t) = D_remove v i is" "tp_dispatchers (topic ?s t) = tp_dispatchers (topic s t)"
      by (metis current_upd(4) D_remove, metis topic_state.select_convs(7) topic_state.update_convs(4) topic_state.surjective)
    with bus_keeps_remove(1) [OF assms(2) i] assms(3,4) t(2)
    have "bus_keeps lib contents ?s (goes_on [Dispatch t k] (upd_dispatcher t k (D_fanout v is) ?s))"
      by (intro bus_keeps_forward) simp_all
    with bus_keeps_remove(2) [OF assms(2) i] show ?thesis
      by (auto simp: dispatch_loop_def d D_remove bus_keeps_def goes_on_def intro: bus_grows_trans)
  qed (use bus_keeps_dispatch_receive [OF assms] bus_keeps_collect [OF assms(2-4)] bus_keeps_fanout_send [OF assms] in \<open>simp_all add: dispatch_loop_def d\<close>)
qed

section \<open>Every run bus_keeps it\<close>

lemma bus_keeps_exec:
  assumes "channel_laws lib contents" "bus_ok lib contents s" "act_ok s a"
  shows "bus_keeps lib contents s (bus_exec lib io a s)"
proof (cases a)
  case (Call_drop i)
  have "bus_keeps lib contents s (goes_on [] (upd_subscriber i (\<lambda>sb. sb\<lparr>sb_held := False\<rparr>) s))" if "i < length (bs_subscriber_heap s)"
    using ok_upd_subscriber [OF assms(2) that, of "\<lambda>sb. sb\<lparr>sb_held := False\<rparr>"]
    by (intro bus_keeps_goes_on) (auto simp: sub_ok_def Let_def intro: bus_grows_upd)
  then show ?thesis by (simp add: Call_drop holds_def)
next
  case (Shut_subscriber i)
  with assms have i: "i < length (bs_subscriber_heap s)" by (simp add: act_ok_def)
  then have "act_ok (mark_closed i s) (Egress_close i)" by (simp add: act_ok_def mark_closed_def)
  with bus_keeps_mark [OF assms(2) i] show ?thesis by (simp add: Shut_subscriber bus_keeps_def goes_on_def)
qed (use assms in \<open>auto simp: act_ok_def holds_def intro!: bus_keeps_require bus_keeps_publish_calls bus_keeps_get_topic bus_keeps_start bus_keeps_check bus_keeps_send
       bus_keeps_add_subscriber bus_keeps_erase bus_keeps_bus_close bus_keeps_clear bus_keeps_topic_close bus_keeps_goes_on bus_keeps_ingress_close
       bus_keeps_close_subscribers bus_keeps_subscriber_close bus_keeps_next bus_keeps_receive bus_keeps_remove bus_keeps_egress_close bus_grows_egress_close bus_keeps_dispatch\<close>)

definition bus_inv :: "('c, 'v) channel_lib \<Rightarrow> ('c \<Rightarrow> 'v list) \<Rightarrow> ('c, 'v) bus_pool \<Rightarrow> bool" where
  "bus_inv lib contents x \<longleftrightarrow> channel_laws lib contents \<longrightarrow> bus_ok lib contents (fst x) \<and> (\<forall>a \<in> set (concat (snd x)). act_ok (fst x) a)"

lemma bus_inv_init: "bus_inv lib contents (create_bus options, [])"
  by (simp add: bus_inv_def bus_ok_def create_bus_def)

lemma bus_inv_step:
  assumes "bus_inv lib contents x" "bus_step lib x y"
  shows "bus_inv lib contents y"
  using assms(2,1)
proof (induction rule: bus_step.induct)
  case (act io a s acts spawned s' ts1 rest ts2)
  show ?case unfolding bus_inv_def
  proof
    assume l: "channel_laws lib contents"
    with act.prems have "bus_ok lib contents s" "act_ok s a" "\<forall>b \<in> set (concat ts1 @ rest @ concat ts2). act_ok s b"
      by (auto simp: bus_inv_def)
    moreover from bus_keeps_exec [OF l this(1,2), of io] act.hyps
    have "bus_ok lib contents s'" "bus_grows s s'" "\<forall>b \<in> set (acts @ concat spawned). act_ok s' b" by (simp_all add: bus_keeps_def)
    ultimately show "bus_ok lib contents (fst (s', ts1 @ (acts @ rest) # ts2 @ spawned))
        \<and> (\<forall>b \<in> set (concat (snd (s', ts1 @ (acts @ rest) # ts2 @ spawned))). act_ok (fst (s', ts1 @ (acts @ rest) # ts2 @ spawned)) b)"
      by (auto intro: bus_grows_act)
  qed
next
  case (call a s ts)
  then show ?case by (cases a) (auto simp: bus_inv_def act_ok_def)
qed

interpretation mb: invariant_system "\<lambda>x. \<exists>options. x = (create_bus options, [])" "bus_step lib" "bus_inv lib contents" for lib contents
  by unfold_locales (use bus_inv_init bus_inv_step in blast)+

lemma reachable_ok:
  assumes "channel_laws lib contents" "(bus_step lib)\<^sup>*\<^sup>* (create_bus options, []) (s, ts)"
  shows "bus_ok lib contents s"
  using mb.reachable_inv [OF _ assms(2), of contents] assms(1) by (auto simp: bus_inv_def)


text \<open>
  A topic hands out what was published in the order in which the values were accepted: there is one dispatcher at most,
  and until the topic is closed every accepted value has been handed out, is in the dispatcher's hand, or waits in the
  channel; a closed one may drop values, but only the last ones.\<close>

theorem topic_in_order:
  assumes "channel_laws lib contents" and "(bus_step lib)\<^sup>*\<^sup>* (create_bus options, []) (s, ts)" and "t < length (bs_topic_heap s)"
  shows "length (tp_dispatchers (topic s t)) \<le> 1 \<and> prefix (tp_sent (topic s t)) (tp_accepted (topic s t))
    \<and> (ch_is_open lib (tp_ingress (topic s t)) \<longrightarrow>
         tp_accepted (topic s t) = tp_sent (topic s t) @ concat (map hand_of (tp_dispatchers (topic s t))) @ contents (tp_ingress (topic s t)))"
proof -
  have ok: "topic_ok lib contents (statics s) t (topic s t)" using bus_okD(1) [OF reachable_ok [OF assms(1,2)] assms(3)] .
  then have "concat (map hand_of (tp_dispatchers (topic s t))) = hand_of (current (topic s t))"
    by (auto simp: topic_ok_def current_def length_Suc_conv split: if_splits)
  with ok show ?thesis by (auto simp: topic_ok_def dest: append_prefixD)
qed

section \<open>A closed topic stays closed\<close>

definition shut :: "string \<Rightarrow> ('c, 'v) bus \<Rightarrow> bool" where
  "shut name s \<longleftrightarrow> name \<in> set (bs_closed_topics s) \<or> bs_closed s"

fun in_flight :: "string \<Rightarrow> 'v bus_act \<Rightarrow> bool" where
  "in_flight name (Start_dispatcher (For_publish m v) n t) = (n = name)"
| "in_flight name (Check_topic (For_publish m v) n t) = (n = name)"
| "in_flight name (Send m v n t) = (n = name)"
| "in_flight name _ = False"

definition published :: "string \<Rightarrow> ('c, 'v) bus \<Rightarrow> 'v bus_event list" where
  "published name s = filter (\<lambda>e. \<exists>m v. e = Ev_publish m name v Published) (bs_log s)"

text \<open>What is kept from the moment at which a topic is shut and no call is on its way to it.\<close>

definition refuses :: "string \<Rightarrow> ('c, 'v) bus \<Rightarrow> 'v bus_act \<Rightarrow> bool" where
  "refuses name s a \<longleftrightarrow> \<not> in_flight name a \<and> (a = Clear_topics \<longrightarrow> bs_closed s)"

lemma published_simps:
  "published name (upd_topic t f s) = published name s" "published name (upd_subscriber i h s) = published name s"
  "published name (upd_dispatcher t k d s) = published name s" "published name (mark_closed i s) = published name s"
  "published name (egress_close lib i s) = published name s" "published name (ingress_close lib t s) = published name s"
  "published name (remove_subscriber i s) = published name s" "published name (take_value t c v s) = published name s"
  "published name (log_event e s) = published name s @ (if \<exists>m v. e = Ev_publish m name v Published then [e] else [])"
  by (simp_all add: published_def upd_topic_def upd_subscriber_def upd_dispatcher_def mark_closed_def egress_close_def ingress_close_def
      remove_subscriber_def take_value_def log_event_def)

lemma shut_simps:
  "bs_closed_topics (upd_topic t f s) = bs_closed_topics s" "bs_closed_topics (upd_subscriber i h s) = bs_closed_topics s"
  "bs_closed (upd_topic t f s) = bs_closed s" "bs_closed (upd_subscriber i h s) = bs_closed s"
  "bs_closed_topics (log_event e s) = bs_closed_topics s" "bs_closed (log_event e s) = bs_closed s"
  by (simp_all add: upd_topic_def upd_subscriber_def log_event_def)

lemmas shut_unfolds = published_simps shut_simps upd_dispatcher_def mark_closed_def egress_close_def ingress_close_def
  remove_subscriber_def take_value_def shut_def refuses_def goes_on_def returns_def

lemma refuses_dispatch:
  "dispatch_loop lib io t k s = Some (acts, spawned, s') \<Longrightarrow> shut name s \<Longrightarrow>
     shut name s' \<and> (bs_closed s \<longrightarrow> bs_closed s') \<and> published name s' = published name s \<and> (\<forall>b \<in> set (acts @ concat spawned). refuses name s' b)"
  by (auto simp: dispatch_loop_def dispatch_receive_def collect_subscribers_def fanout_send_def shut_unfolds
      split: dispatcher.splits list.splits receive_result.splits send_result.splits option.splits)

lemma refuses_topic:
  "get_or_create_topic lib p n s = Some (acts, spawned, s') \<Longrightarrow> shut name s \<Longrightarrow>
     shut name s' \<and> (bs_closed s \<longrightarrow> bs_closed s') \<and> published name s' = published name s \<and> (\<forall>b \<in> set (acts @ concat spawned). refuses name s' b)"
  by (cases p) (auto simp: get_or_create_topic_def give_up_def shut_unfolds published_def log_event_def Let_def split: option.splits if_splits)

lemma refuses_exec:
  assumes "bus_exec lib io a s = Some (acts, spawned, s')" "shut name s" "refuses name s a"
  shows "shut name s' \<and> (bs_closed s \<longrightarrow> bs_closed s') \<and> published name s' = published name s \<and> (\<forall>b \<in> set (acts @ concat spawned). refuses name s' b)"
proof (cases a)
  case (Dispatch t k)
  with assms refuses_dispatch [of lib io t k] show ?thesis by simp
next
  case (Get_topic p n)
  with assms refuses_topic [of lib p n] show ?thesis by simp
next
  case (Start_dispatcher p n t)
  with assms show ?thesis by (cases p) (auto simp: start_dispatcher_if_needed_def shut_unfolds split: if_splits)
next
  case (Check_topic p n t)
  with assms show ?thesis by (cases p) (auto simp: check_topic_def give_up_def shut_unfolds split: if_splits)
next
  case (Send m v n t)
  with assms show ?thesis by (auto simp: publish_send_def shut_unfolds split: if_splits send_result.splits)
qed (use assms in \<open>auto simp: require_io_thread_def sync_publish_def async_publish_def erase_topic_def bus_close_def clear_topics_def
       topic_close_def close_subscribers_def subscriber_close_def subscription_next_def subscription_receive_def add_subscriber_def
       shut_unfolds published_def Let_def split: if_splits option.splits receive_result.splits\<close>)

lemma refuses_step:
  assumes "bus_step lib x y" "shut name (fst x)" "\<forall>a \<in> set (concat (snd x)). refuses name (fst x) a"
  shows "shut name (fst y) \<and> (\<forall>a \<in> set (concat (snd y)). refuses name (fst y) a) \<and> published name (fst y) = published name (fst x)"
  using assms
proof (induction rule: bus_step.induct)
  case (act io a s acts spawned s' ts1 rest ts2)
  from act.prems have "refuses name s a" by simp
  from refuses_exec [OF act.hyps _ this] act.prems(1) have e: "shut name s' \<and> (bs_closed s \<longrightarrow> bs_closed s')
      \<and> published name s' = published name s \<and> (\<forall>b \<in> set (acts @ concat spawned). refuses name s' b)" by simp
  then have "refuses name s b \<Longrightarrow> refuses name s' b" for b by (auto simp: refuses_def)
  with e act.prems(2) show ?case by auto
next
  case (call a s ts)
  then show ?case by (cases a) (auto simp: refuses_def)
qed

text \<open>
  Closing a topic, or the bus, is final. From a state in which the name is closed and no call is on its way to the topic,
  no run reports a value as published under that name again.\<close>

theorem closed_topic_refuses:
  assumes "shut name s" and "\<forall>a \<in> set (concat ts). \<not> in_flight name a \<and> (a = Clear_topics \<longrightarrow> bs_closed s)"
    and "(bus_step lib)\<^sup>*\<^sup>* (s, ts) (s', ts')"
  shows "shut name s' \<and> published name s' = published name s"
proof -
  have "shut name (fst y) \<and> (\<forall>a \<in> set (concat (snd y)). refuses name (fst y) a) \<and> published name (fst y) = published name s"
    if "(bus_step lib)\<^sup>*\<^sup>* (s, ts) y" for y
    using that
  proof (induction rule: rtranclp_induct)
    case base
    with assms(1,2) show ?case by (simp add: refuses_def)
  next
    case (step y z)
    with refuses_step [OF step.hyps(2), of name] show ?case by simp
  qed
  from this [OF assms(3)] show ?thesis by simp
qed

section \<open>Instances and races\<close>

text \<open>Channels as lists.\<close>

record 'v list_channel =
  lc_items :: "'v list"
  lc_capacity :: nat
  lc_open :: bool

definition list_channels :: "('v list_channel, 'v) channel_lib" where
  "list_channels =
     \<lparr>ch_new = (\<lambda>n. \<lparr>lc_items = [], lc_capacity = n, lc_open = True\<rparr>),
      ch_send = (\<lambda>c v. if \<not> lc_open c then Send_error True
                       else if length (lc_items c) < lc_capacity c then Sent (c\<lparr>lc_items := lc_items c @ [v]\<rparr>) else Send_wait),
      ch_receive = (\<lambda>c. case lc_items c of v # vs \<Rightarrow> Received v (c\<lparr>lc_items := vs\<rparr>)
                        | [] \<Rightarrow> if lc_open c then Receive_wait else Receive_error True),
      ch_close = (\<lambda>c. c\<lparr>lc_open := False\<rparr>),
      ch_is_open = lc_open\<rparr>"

lemma list_channel_laws: "channel_laws list_channels lc_items"
  by (auto simp: channel_laws_def list_channels_def split: if_splits list.splits)

lemma list_channel_waits:
  "lc_items c = [] \<Longrightarrow> lc_open c \<Longrightarrow> ch_receive list_channels c = Receive_wait"
  "lc_capacity c \<le> length (lc_items c) \<Longrightarrow> lc_open c \<Longrightarrow> ch_send list_channels c v = Send_wait"
  by (simp_all add: list_channels_def)

definition small_bus :: bus_options where
  "small_bus = \<lparr>bo_topic_capacity = 4, bo_subscription_capacity = 1\<rparr>"

definition go :: "nat \<Rightarrow> nat \<Rightarrow> (nat bus_act + nat \<times> bus_io) list" where
  "go n i = replicate n (Inr (i, Go))"

text \<open>Two subscribers (threads 0 and 2; the dispatcher is thread 1), then a value (thread 3) on its way to the first.\<close>

definition two_subscribers :: "(nat bus_act + nat \<times> bus_io) list" where
  "two_subscribers = Inl (Call_subscribe True ''a'') # go 5 0 @ Inl (Call_subscribe True ''a'') # go 5 2"

definition one_value :: "nat \<Rightarrow> nat \<Rightarrow> (nat bus_act + nat \<times> bus_io) list" where
  "one_value i v = Inl (Call_publish True ''a'' v) # go 5 i @ [Inr (1, Go), Inr (1, Walk [0, 1])]"

definition value_run :: "(nat bus_act + nat \<times> bus_io) list" where
  "value_run = two_subscribers @ one_value 3 7 @ go 7 1 @ Inl (Call_next True 0) # go 2 4"

lemma value_run_reaches:
  "if_run (pool_run (bus_exec list_channels) bus_call value_run (create_bus small_bus, []))
     (\<lambda>s ts. length (bs_subscriber_heap s) = 2 \<and> length (bs_topic_heap s) = 1 \<and> got 0 (bs_log s) = [7]
        \<and> tp_dispatchers (topic s 0) = [D_receive] \<and> tp_accepted (topic s 0) = [7] \<and> tp_subscribers (topic s 0) = [(1, 0), (2, 1)]
        \<and> \<not> sb_closed (subscriber s 1) \<and> sb_topic (subscriber s 1) = 0 \<and> sb_topic (subscriber s 0) = 0 \<and> sb_start (subscriber s 1) = 0
        \<and> lc_open (tp_ingress (topic s 0)))"
  by code_simp


theorem topic_in_order_witness:
  "\<exists>s ts. (bus_step list_channels)\<^sup>*\<^sup>* (create_bus small_bus, []) (s, ts)
     \<and> tp_accepted (topic s 0) = [7 :: nat] \<and> tp_accepted (topic s 0) = tp_sent (topic s 0) @ lc_items (tp_ingress (topic s 0))"
proof (rule mbp.run_reaches [OF value_run_reaches], elim conjE)
  fix s :: "(nat list_channel, nat) bus" and ts
  assume r: "(bus_step list_channels)\<^sup>*\<^sup>* (create_bus small_bus, []) (s, ts)" "length (bs_topic_heap s) = 1" "lc_open (tp_ingress (topic s 0))"
    "tp_dispatchers (topic s 0) = [D_receive]" "tp_accepted (topic s 0) = [7]"
  moreover from this have "ch_is_open list_channels (tp_ingress (topic s 0))" by (simp add: list_channels_def)
  ultimately show ?thesis using topic_in_order [OF list_channel_laws r(1), of 0] by (intro exI [of _ s] exI [of _ ts]) simp
qed

definition close_run :: "(nat bus_act + nat \<times> bus_io) list" where
  "close_run = [Inl (Call_close_topic ''a''), Inr (0, Go), Inl (Call_publish True ''a'' 7)]"

theorem closed_topic_refuses_witness:
  "\<exists>s ts s' ts'. (bus_step list_channels)\<^sup>*\<^sup>* (create_bus small_bus, []) (s, ts) \<and> (bus_step list_channels)\<^sup>*\<^sup>* (s, ts) (s', ts')
     \<and> bs_log s' = [Ev_publish By_io ''a'' (7 :: nat) Refused] \<and> published ''a'' s' = []"
proof -
  have "if_run (pool_run (bus_exec list_channels) bus_call close_run (create_bus small_bus, []))
      (\<lambda>s ts. bs_closed_topics s = [''a''] \<and> concat ts = [Call_publish True ''a'' 7] \<and> bs_log s = []
         \<and> if_run (pool_run (bus_exec list_channels) bus_call (go 2 1) (s, ts)) (\<lambda>s' ts'. bs_log s' = [Ev_publish By_io ''a'' 7 Refused]))"
    by code_simp
  then obtain s :: "(nat list_channel, nat) bus" and ts s' ts' where r: "(bus_step list_channels)\<^sup>*\<^sup>* (create_bus small_bus, []) (s, ts)" "(bus_step list_channels)\<^sup>*\<^sup>* (s, ts) (s', ts')"
      "bs_log s' = [Ev_publish By_io ''a'' 7 Refused]" "bs_closed_topics s = [''a'']" "concat ts = [Call_publish True ''a'' 7]" "bs_log s = []"
    by (elim mbp.run_reaches conjE) blast
  then have "shut ''a'' s" by (simp add: shut_def)
  with closed_topic_refuses [OF this _ r(2)] r(5,6) have "published ''a'' s' = []" by (simp add: published_def)
  with r show ?thesis by blast
qed

text \<open>
  A subscription that races with the end of its topic is never told: it has checked that the topic is open, the topic is closed
  and its subscribers are collected, and only then it is added. No thread is left that could close it, the dispatcher has
  ended, and \<open>next\<close> waits.\<close>

definition late_run :: "(nat bus_act + nat \<times> bus_io) list" where
  "late_run = Inl (Call_subscribe True ''a'') # go 4 0 @ Inl (Call_close_topic ''a'') # go 3 2 @ [Inr (2, Walk [])] @ go 2 1 @ go 1 0"

theorem late_subscriber_waits:
  "\<exists>s ts. (bus_step list_channels)\<^sup>*\<^sup>* (create_bus small_bus, []) (s, ts) \<and> concat ts = ([] :: nat bus_act list)
     \<and> tp_closed (topic s 0) \<and> tp_dispatchers (topic s 0) = [D_ended] \<and> holds s 0 \<and> \<not> sb_closed (subscriber s 0)
     \<and> ch_receive list_channels (sb_egress (subscriber s 0)) = Receive_wait"
proof -
  have "if_run (pool_run (bus_exec list_channels) bus_call late_run (create_bus small_bus, []))
      (\<lambda>s ts. concat ts = ([] :: nat bus_act list) \<and> tp_closed (topic s 0) \<and> tp_dispatchers (topic s 0) = [D_ended] \<and> holds s 0 \<and> \<not> sb_closed (subscriber s 0)
         \<and> lc_items (sb_egress (subscriber s 0)) = [] \<and> lc_open (sb_egress (subscriber s 0)))"
    by code_simp
  then show ?thesis by (elim mbp.run_reaches conjE) (auto simp del: concat_eq_Nil_conv intro!: exI list_channel_waits)
qed

text \<open>
  A subscription that is dropped while a value is on its way to its full channel stops the topic: the dispatcher waits for
  room in the channel of an object that nobody can read from any more, and the other subscriber gets nothing.\<close>

definition dropped_run :: "(nat bus_act + nat \<times> bus_io) list" where
  "dropped_run = two_subscribers @ one_value 3 7 @ go 7 1 @ one_value 4 8 @ go 2 1 @ Inl (Call_drop 0) # go 1 5"

theorem dropped_subscriber_stalls:
  "\<exists>s ts. (bus_step list_channels)\<^sup>*\<^sup>* (create_bus small_bus, []) (s, ts) \<and> concat ts = [Dispatch 0 0]
     \<and> tp_dispatchers (topic s 0) = [D_send (8 :: nat) 0 [1]] \<and> \<not> holds s 0
     \<and> ch_send list_channels (sb_egress (subscriber s 0)) 8 = Send_wait \<and> holds s 1 \<and> lc_items (sb_egress (subscriber s 1)) = [7]"
proof -
  have "if_run (pool_run (bus_exec list_channels) bus_call dropped_run (create_bus small_bus, []))
      (\<lambda>s ts. concat ts = [Dispatch 0 0] \<and> tp_dispatchers (topic s 0) = [D_send 8 0 [1]] \<and> \<not> holds s 0 \<and> holds s 1
         \<and> lc_items (sb_egress (subscriber s 0)) = [7] \<and> lc_open (sb_egress (subscriber s 0)) \<and> lc_capacity (sb_egress (subscriber s 0)) = 1
         \<and> lc_items (sb_egress (subscriber s 1)) = [7])"
    by code_simp
  then show ?thesis by (elim mbp.run_reaches conjE) (auto simp del: concat_eq_Nil_conv intro!: exI list_channel_waits)
qed

end
