(* ===== verification/Fd.thy ===== *)
theory Fd
  imports Prelude "HOL-Library.Word"
begin

unbundle bit_operations_syntax

text \<open>
  Streams over file descriptors and their watchers (\<open>include/flux/fd.h\<close>, \<open>src/fd.cpp\<close>). Six senders wait, read and write; each has an
  operation state with the same life: it checks the descriptor and the stop token, registers a callback for stop requests, starts
  an asynchronous operation of asio, and completes its receiver from the handler. The class template is written out six
  times in the source; here the operation is one record with its kind, and the six handlers are six definitions.

  An operation has a place in its code and its stop callback another one; one step is one access to a flag, one call of asio,
  or one completion. Operations, callbacks, stop requests, the event loop and \<open>close\<close> interleave in any order. Of asio it is
  assumed what its documentation says: \<open>cancel\<close> and \<open>close\<close> end every outstanding operation on the descriptor with
  \<open>operation_aborted\<close>, and an operation that succeeds transfers what \<open>fd_result_ok\<close> says.
\<close>

section \<open>Operations\<close>

datatype fd_kind = Wait_readable | Wait_writable | Write_some string | Write_all string | Read_some nat | Read_exactly nat

datatype fd_error = Operation_aborted | Bad_descriptor | End_of_file | Other_error nat

datatype completion = Set_value nat | Set_error fd_error | Set_not_valid | Set_stopped

datatype cancel_place = Check_completed | Check_open | Do_cancel

datatype fd_place =
    P_begin
  | P_check_stop
  | P_register
  | P_inline_cancel cancel_place
  | P_launch
  | P_pending
  | P_queued "fd_error option" nat
  | P_finish "fd_error option" nat
  | P_reset "fd_error option" nat
  | P_deliver completion
  | P_done

datatype stop_callback = Cb_none | Cb_registered | Cb_running cancel_place

record fd_operation =
  fo_kind :: fd_kind
  fo_token :: nat
  fo_place :: fd_place
  fo_completed :: bool
  fo_on_stop :: stop_callback
  fo_deliveries :: "completion list"

text \<open>The calls of \<open>close\<close> that have cancelled and not yet closed are counted.\<close>

record fd_state =
  fd_open :: bool
  fd_ops :: "fd_operation list"
  fd_stopped_tokens :: "nat list"
  fd_closing :: nat
  fd_close_called :: bool

definition fd_new :: "fd_state" where
  "fd_new = \<lparr>fd_open = True, fd_ops = [], fd_stopped_tokens = [], fd_closing = 0, fd_close_called = False\<rparr>"

abbreviation op_at :: "fd_state \<Rightarrow> nat \<Rightarrow> fd_operation" where
  "op_at s i \<equiv> fd_ops s ! i"

definition upd_fd_op :: "nat \<Rightarrow> (fd_operation \<Rightarrow> fd_operation) \<Rightarrow> fd_state \<Rightarrow> fd_state" where
  "upd_fd_op i f s = s\<lparr>fd_ops := (fd_ops s)[i := f (op_at s i)]\<rparr>"

definition goto :: "fd_place \<Rightarrow> fd_operation \<Rightarrow> fd_operation" where
  "goto p = fo_place_update (\<lambda>_. p)"

definition set_stopped_or_error :: "fd_error \<Rightarrow> completion" where
  "set_stopped_or_error e = (if e = Operation_aborted \<or> e = Bad_descriptor then Set_stopped else Set_error e)"

section \<open>The six handlers\<close>

definition wait_readable_done :: "fd_error option \<Rightarrow> nat \<Rightarrow> completion" where
  "wait_readable_done ec n = (case ec of Some e \<Rightarrow> set_stopped_or_error e | None \<Rightarrow> Set_value 0)"

definition wait_writable_done :: "fd_error option \<Rightarrow> nat \<Rightarrow> completion" where
  "wait_writable_done ec n = (case ec of Some e \<Rightarrow> set_stopped_or_error e | None \<Rightarrow> Set_value 0)"

definition write_some_done :: "fd_error option \<Rightarrow> nat \<Rightarrow> completion" where
  "write_some_done ec written = (case ec of Some e \<Rightarrow> set_stopped_or_error e | None \<Rightarrow> Set_value written)"

definition write_all_done :: "fd_error option \<Rightarrow> nat \<Rightarrow> completion" where
  "write_all_done ec written = (case ec of Some e \<Rightarrow> set_stopped_or_error e | None \<Rightarrow> Set_value written)"

definition read_some_done :: "fd_error option \<Rightarrow> nat \<Rightarrow> completion" where
  "read_some_done ec n =
     (case ec of Some e \<Rightarrow> if e = End_of_file then Set_value 0 else set_stopped_or_error e | None \<Rightarrow> Set_value n)"

definition read_exactly_done :: "fd_error option \<Rightarrow> nat \<Rightarrow> completion" where
  "read_exactly_done ec n = (case ec of Some e \<Rightarrow> set_stopped_or_error e | None \<Rightarrow> Set_value n)"

fun fd_handler :: "fd_kind \<Rightarrow> fd_error option \<Rightarrow> nat \<Rightarrow> completion" where
  "fd_handler Wait_readable = wait_readable_done"
| "fd_handler Wait_writable = wait_writable_done"
| "fd_handler (Write_some data) = write_some_done"
| "fd_handler (Write_all data) = write_all_done"
| "fd_handler (Read_some capacity) = read_some_done"
| "fd_handler (Read_exactly bytes) = read_exactly_done"

text \<open>Reads into an empty buffer finish at once; everything else is handed to asio, which posts the handler with an error if the
  descriptor is closed.\<close>

definition issue :: "bool \<Rightarrow> fd_place" where
  "issue is_open = (if is_open then P_pending else P_queued (Some Bad_descriptor) 0)"

definition read_some_start :: "nat \<Rightarrow> bool \<Rightarrow> fd_place" where
  "read_some_start capacity is_open = (if capacity = 0 then P_finish None 0 else issue is_open)"

definition read_exactly_start :: "nat \<Rightarrow> bool \<Rightarrow> fd_place" where
  "read_exactly_start bytes is_open = (if bytes = 0 then P_finish None 0 else issue is_open)"

fun launch :: "fd_kind \<Rightarrow> bool \<Rightarrow> fd_place" where
  "launch (Read_some capacity) is_open = read_some_start capacity is_open"
| "launch (Read_exactly bytes) is_open = read_exactly_start bytes is_open"
| "launch _ is_open = issue is_open"

text \<open>What asio transfers.\<close>

fun fd_result_ok :: "fd_kind \<Rightarrow> fd_error option \<Rightarrow> nat \<Rightarrow> bool" where
  "fd_result_ok k (Some e) n \<longleftrightarrow> e \<noteq> Operation_aborted \<and> e \<noteq> Bad_descriptor"
| "fd_result_ok Wait_readable None n \<longleftrightarrow> n = 0"
| "fd_result_ok Wait_writable None n \<longleftrightarrow> n = 0"
| "fd_result_ok (Write_some data) None n \<longleftrightarrow> n \<le> length data"
| "fd_result_ok (Write_all data) None n \<longleftrightarrow> n = length data"
| "fd_result_ok (Read_some capacity) None n \<longleftrightarrow> 0 < n \<and> n \<le> capacity"
| "fd_result_ok (Read_exactly bytes) None n \<longleftrightarrow> n = bytes"

section \<open>The life of an operation\<close>

definition cancel_all :: "fd_state \<Rightarrow> fd_state" where
  "cancel_all s =
     s\<lparr>fd_ops := map (\<lambda>p. if fo_place p = P_pending then goto (P_queued (Some Operation_aborted) 0) p else p) (fd_ops s)\<rparr>"

text \<open>\<open>request_cancel\<close>, one access after the other; \<open>None\<close> when it returns.\<close>

definition request_cancel :: "cancel_place \<Rightarrow> nat \<Rightarrow> fd_state \<Rightarrow> cancel_place option \<times> fd_state" where
  "request_cancel c i s =
     (case c of
        Check_completed \<Rightarrow> (if fo_completed (op_at s i) then None else Some Check_open, s)
      | Check_open \<Rightarrow> (if fd_open s then Some Do_cancel else None, s)
      | Do_cancel \<Rightarrow> (None, cancel_all s))"

text \<open>A refused operation has no callback yet, so that nobody else sees its flag.\<close>

definition refuse :: "completion \<Rightarrow> fd_operation \<Rightarrow> fd_operation" where
  "refuse c p = p\<lparr>fo_completed := True, fo_place := P_deliver c\<rparr>"

definition begin_operation :: "nat \<Rightarrow> fd_state \<Rightarrow> fd_state" where
  "begin_operation i s = upd_fd_op i (if fd_open s then goto P_check_stop else refuse Set_not_valid) s"

definition check_stop :: "nat \<Rightarrow> fd_state \<Rightarrow> fd_state" where
  "check_stop i s = upd_fd_op i (if fo_token (op_at s i) \<in> set (fd_stopped_tokens s) then refuse Set_stopped else goto P_register) s"

text \<open>A callback that is registered after the stop request runs at once, in the thread that registers it.\<close>

definition fd_register_stop :: "nat \<Rightarrow> fd_state \<Rightarrow> fd_state" where
  "fd_register_stop i s =
     upd_fd_op i (if fo_token (op_at s i) \<in> set (fd_stopped_tokens s) then goto (P_inline_cancel Check_completed)
               else (\<lambda>p. p\<lparr>fo_on_stop := Cb_registered, fo_place := P_launch\<rparr>)) s"

definition inline_cancel :: "cancel_place \<Rightarrow> nat \<Rightarrow> fd_state \<Rightarrow> fd_state" where
  "inline_cancel c i s =
     (case request_cancel c i s of
        (Some c', s') \<Rightarrow> upd_fd_op i (goto (P_inline_cancel c')) s'
      | (None, s') \<Rightarrow> upd_fd_op i (goto P_launch) s')"

text \<open>\<open>finish_operation\<close>: the exchange of the flag, and then the end of the callback, which waits while it is running.\<close>

definition finish_operation :: "fd_error option \<Rightarrow> nat \<Rightarrow> nat \<Rightarrow> fd_state \<Rightarrow> fd_state" where
  "finish_operation ec n i s =
     upd_fd_op i (\<lambda>p. if fo_completed p then goto P_done p else p\<lparr>fo_completed := True, fo_place := P_reset ec n\<rparr>) s"

definition reset_stop :: "fd_error option \<Rightarrow> nat \<Rightarrow> nat \<Rightarrow> fd_state \<Rightarrow> fd_state option" where
  "reset_stop ec n i s =
     (case fo_on_stop (op_at s i) of
        Cb_running _ \<Rightarrow> None
      | _ \<Rightarrow> Some (upd_fd_op i (\<lambda>p. p\<lparr>fo_on_stop := Cb_none, fo_place := P_deliver (fd_handler (fo_kind p) ec n)\<rparr>) s))"

definition deliver :: "completion \<Rightarrow> nat \<Rightarrow> fd_state \<Rightarrow> fd_state" where
  "deliver c i s = upd_fd_op i (\<lambda>p. p\<lparr>fo_deliveries := fo_deliveries p @ [c], fo_place := P_done\<rparr>) s"

definition advance :: "nat \<Rightarrow> fd_state \<Rightarrow> fd_state option" where
  "advance i s =
     (case fo_place (op_at s i) of
        P_begin \<Rightarrow> Some (begin_operation i s)
      | P_check_stop \<Rightarrow> Some (check_stop i s)
      | P_register \<Rightarrow> Some (fd_register_stop i s)
      | P_inline_cancel c \<Rightarrow> Some (inline_cancel c i s)
      | P_launch \<Rightarrow> Some (upd_fd_op i (goto (launch (fo_kind (op_at s i)) (fd_open s))) s)
      | P_pending \<Rightarrow> None
      | P_queued ec n \<Rightarrow> Some (upd_fd_op i (goto (P_finish ec n)) s)
      | P_finish ec n \<Rightarrow> Some (finish_operation ec n i s)
      | P_reset ec n \<Rightarrow> reset_stop ec n i s
      | P_deliver c \<Rightarrow> Some (deliver c i s)
      | P_done \<Rightarrow> None)"

text \<open>The stop callback: it starts once the token is stopped, and then goes through \<open>request_cancel\<close>.\<close>

definition run_callback :: "nat \<Rightarrow> fd_state \<Rightarrow> fd_state option" where
  "run_callback i s =
     (case fo_on_stop (op_at s i) of
        Cb_none \<Rightarrow> None
      | Cb_registered \<Rightarrow>
          if fo_token (op_at s i) \<in> set (fd_stopped_tokens s)
          then Some (upd_fd_op i (\<lambda>p. p\<lparr>fo_on_stop := Cb_running Check_completed\<rparr>) s) else None
      | Cb_running c \<Rightarrow>
          (case request_cancel c i s of
             (Some c', s') \<Rightarrow> Some (upd_fd_op i (\<lambda>p. p\<lparr>fo_on_stop := Cb_running c'\<rparr>) s')
           | (None, s') \<Rightarrow> Some (upd_fd_op i (\<lambda>p. p\<lparr>fo_on_stop := Cb_none\<rparr>) s')))"

text \<open>\<open>FdStream::close\<close> cancels and then closes, which cancels once more.\<close>

definition close_begin :: "fd_state \<Rightarrow> fd_state" where
  "close_begin s = (cancel_all s)\<lparr>fd_closing := fd_closing s + 1, fd_close_called := True\<rparr>"

definition close_end :: "fd_state \<Rightarrow> fd_state option" where
  "close_end s = (if fd_closing s = 0 then None else Some ((cancel_all s)\<lparr>fd_open := False, fd_closing := fd_closing s - 1\<rparr>))"

definition connect_start :: "fd_kind \<Rightarrow> nat \<Rightarrow> fd_state \<Rightarrow> fd_state" where
  "connect_start k t s =
     s\<lparr>fd_ops := fd_ops s @ [\<lparr>fo_kind = k, fo_token = t, fo_place = P_begin, fo_completed = False, fo_on_stop = Cb_none, fo_deliveries = []\<rparr>]\<rparr>"

definition io_done :: "nat \<Rightarrow> fd_error option \<Rightarrow> nat \<Rightarrow> fd_state \<Rightarrow> fd_state option" where
  "io_done i ec n s =
     (if fo_place (op_at s i) = P_pending \<and> fd_result_ok (fo_kind (op_at s i)) ec n then Some (upd_fd_op i (goto (P_queued ec n)) s) else None)"

datatype fd_event =
    Start fd_kind nat
  | Advance nat
  | Io_done nat "fd_error option" nat
  | Stop nat
  | Callback nat
  | Close
  | Close_end

fun fd_exec :: "fd_event \<Rightarrow> fd_state \<Rightarrow> fd_state option" where
  "fd_exec (Start k t) s = Some (connect_start k t s)"
| "fd_exec (Advance i) s = (if i < length (fd_ops s) then advance i s else None)"
| "fd_exec (Io_done i ec n) s = (if i < length (fd_ops s) then io_done i ec n s else None)"
| "fd_exec (Stop t) s = Some (s\<lparr>fd_stopped_tokens := t # fd_stopped_tokens s\<rparr>)"
| "fd_exec (Callback i) s = (if i < length (fd_ops s) then run_callback i s else None)"
| "fd_exec Close s = Some (close_begin s)"
| "fd_exec Close_end s = close_end s"

definition fd_step :: "fd_state \<Rightarrow> fd_state \<Rightarrow> bool" where
  "fd_step s s' \<longleftrightarrow> (\<exists>e. fd_exec e s = Some s')"

section \<open>What holds of every operation\<close>

text \<open>What may be delivered to the receiver of a kind of operation.\<close>

fun value_ok :: "fd_kind \<Rightarrow> completion \<Rightarrow> bool" where
  "value_ok Wait_readable (Set_value n) \<longleftrightarrow> n = 0"
| "value_ok Wait_writable (Set_value n) \<longleftrightarrow> n = 0"
| "value_ok (Write_some data) (Set_value n) \<longleftrightarrow> n \<le> length data"
| "value_ok (Write_all data) (Set_value n) \<longleftrightarrow> n = length data"
| "value_ok (Read_some capacity) (Set_value n) \<longleftrightarrow> n \<le> capacity"
| "value_ok (Read_exactly bytes) (Set_value n) \<longleftrightarrow> n = bytes"
| "value_ok k (Set_error e) \<longleftrightarrow> e \<noteq> Operation_aborted \<and> e \<noteq> Bad_descriptor \<and> (e = End_of_file \<longrightarrow> (\<forall>capacity. k \<noteq> Read_some capacity))"
| "value_ok k c \<longleftrightarrow> True"

definition was_stopped :: "fd_state \<Rightarrow> bool" where
  "was_stopped s \<longleftrightarrow> fd_close_called s \<or> fd_stopped_tokens s \<noteq> []"

fun cause_ok :: "fd_state \<Rightarrow> completion \<Rightarrow> bool" where
  "cause_ok s Set_stopped = was_stopped s"
| "cause_ok s Set_not_valid = fd_close_called s"
| "cause_ok s _ = True"

definition result_ok :: "fd_state \<Rightarrow> fd_kind \<Rightarrow> fd_error option \<Rightarrow> nat \<Rightarrow> bool" where
  "result_ok s k ec n \<longleftrightarrow> value_ok k (fd_handler k ec n) \<and> cause_ok s (fd_handler k ec n)"

fun place_ok :: "fd_state \<Rightarrow> fd_operation \<Rightarrow> fd_place \<Rightarrow> bool" where
  "place_ok s p P_pending \<longleftrightarrow> fd_open s \<and> \<not> fo_completed p"
| "place_ok s p (P_queued ec n) \<longleftrightarrow> result_ok s (fo_kind p) ec n \<and> \<not> fo_completed p"
| "place_ok s p (P_finish ec n) \<longleftrightarrow> result_ok s (fo_kind p) ec n \<and> \<not> fo_completed p"
| "place_ok s p (P_reset ec n) \<longleftrightarrow> result_ok s (fo_kind p) ec n \<and> fo_completed p"
| "place_ok s p P_launch \<longleftrightarrow> \<not> fo_completed p"
| "place_ok s p (P_deliver c) \<longleftrightarrow> fo_completed p \<and> fo_on_stop p = Cb_none \<and> value_ok (fo_kind p) c \<and> cause_ok s c"
| "place_ok s p P_done \<longleftrightarrow> fo_completed p \<and> fo_on_stop p = Cb_none
     \<and> (\<exists>c. fo_deliveries p = [c] \<and> value_ok (fo_kind p) c \<and> cause_ok s c)"
| "place_ok s p (P_inline_cancel c) \<longleftrightarrow> fo_on_stop p = Cb_none \<and> \<not> fo_completed p \<and> was_stopped s"
| "place_ok s p _ \<longleftrightarrow> fo_on_stop p = Cb_none \<and> \<not> fo_completed p"

definition fd_op_ok :: "fd_state \<Rightarrow> fd_operation \<Rightarrow> bool" where
  "fd_op_ok s p \<longleftrightarrow> place_ok s p (fo_place p) \<and> (fo_place p \<noteq> P_done \<longrightarrow> fo_deliveries p = [])
     \<and> ((\<exists>c. fo_on_stop p = Cb_running c) \<longrightarrow> was_stopped s)"

definition fd_inv :: "fd_state \<Rightarrow> bool" where
  "fd_inv s \<longleftrightarrow> (\<forall>p \<in> set (fd_ops s). fd_op_ok s p) \<and> (fd_open s \<or> fd_close_called s) \<and> (fd_closing s = 0 \<or> fd_close_called s)"

lemmas fd_handler_defs = wait_readable_done_def wait_writable_done_def write_some_done_def write_all_done_def read_some_done_def
  read_exactly_done_def set_stopped_or_error_def

lemma fd_handler_error:
  "fd_handler k (Some Operation_aborted) n = Set_stopped" "fd_handler k (Some Bad_descriptor) n = Set_stopped"
  by (cases k; simp add: fd_handler_defs)+

lemma result_ok_io: "fd_result_ok k ec n \<Longrightarrow> result_ok s k ec n"
  by (cases k; cases ec; cases "the ec") (auto simp: result_ok_def fd_handler_defs split: if_splits)

lemma result_ok_simps:
  "result_ok s k (Some Operation_aborted) n = was_stopped s" "result_ok s k (Some Bad_descriptor) n = was_stopped s"
  by (simp_all add: result_ok_def fd_handler_error)

lemma result_ok_empty: "result_ok s (Read_some 0) None 0" "result_ok s (Read_exactly 0) None 0"
  by (simp_all add: result_ok_def fd_handler_defs)

text \<open>What an operation may assume is kept when tokens are stopped and \<open>close\<close> is called.\<close>

definition goes_further :: "fd_state \<Rightarrow> fd_state \<Rightarrow> bool" where
  "goes_further s s' \<longleftrightarrow> (was_stopped s \<longrightarrow> was_stopped s') \<and> (fd_close_called s \<longrightarrow> fd_close_called s') \<and> (fd_open s \<longrightarrow> fd_open s')"

lemma cause_ok_mono: "cause_ok s c \<Longrightarrow> goes_further s s' \<Longrightarrow> cause_ok s' c"
  by (cases c) (auto simp: goes_further_def)

lemma fd_op_ok_mono: "fd_op_ok s p \<Longrightarrow> goes_further s s' \<Longrightarrow> fd_op_ok s' p"
  using cause_ok_mono by (cases "fo_place p") (auto simp: fd_op_ok_def result_ok_def goes_further_def)

lemma fd_inv_further:
  assumes "fd_inv s" "goes_further s s'" "fd_open s' = fd_open s" "fd_closing s' = fd_closing s"
    and "\<And>p. p \<in> set (fd_ops s') \<Longrightarrow> p \<in> set (fd_ops s) \<or> fd_op_ok s' p"
  shows "fd_inv s'"
  using assms fd_op_ok_mono [OF _ assms(2)] by (auto simp: fd_inv_def goes_further_def)

lemma fd_inv_upd:
  assumes "fd_inv s" "i < length (fd_ops s)" "fd_op_ok s (op_at s i) \<Longrightarrow> fd_op_ok s (f (op_at s i))"
  shows "fd_inv (upd_fd_op i f s)"
proof -
  have eq: "fd_op_ok (upd_fd_op i f s) p = fd_op_ok s p" for p
    using fd_op_ok_mono [of s p "upd_fd_op i f s"] fd_op_ok_mono [of "upd_fd_op i f s" p s]
    by (auto simp: goes_further_def upd_fd_op_def was_stopped_def)
  show ?thesis
    using assms set_update_subset_insert [of "fd_ops s" i] eq
    by (fastforce simp: fd_inv_def upd_fd_op_def)
qed

lemma fd_inv_nth: "fd_inv s \<Longrightarrow> i < length (fd_ops s) \<Longrightarrow> fd_op_ok s (op_at s i)"
  by (simp add: fd_inv_def)

lemma cancel_all_simps [simp]:
  "fd_open (cancel_all s) = fd_open s" "fd_stopped_tokens (cancel_all s) = fd_stopped_tokens s" "fd_closing (cancel_all s) = fd_closing s"
  "fd_close_called (cancel_all s) = fd_close_called s" "length (fd_ops (cancel_all s)) = length (fd_ops s)"
  "i < length (fd_ops s) \<Longrightarrow> fo_on_stop (op_at (cancel_all s) i) = fo_on_stop (op_at s i)"
  "i < length (fd_ops s) \<Longrightarrow> fo_place (op_at s i) \<noteq> P_pending \<Longrightarrow> op_at (cancel_all s) i = op_at s i"
  by (simp_all add: cancel_all_def goto_def)

lemma fd_op_ok_aborted: "fd_op_ok s p \<Longrightarrow> was_stopped s \<Longrightarrow> fd_op_ok s (goto (P_queued (Some Operation_aborted) 0) p)" if "fo_place p = P_pending"
  using that by (auto simp: fd_op_ok_def goto_def result_ok_simps)

lemma fd_inv_cancel_all: "fd_inv s \<Longrightarrow> was_stopped s \<Longrightarrow> fd_inv (cancel_all s)"
  by (rule fd_inv_further [of s])
    (auto simp: goes_further_def was_stopped_def fd_inv_def cancel_all_def [of s] intro!: fd_op_ok_mono [OF fd_op_ok_aborted])

lemma fd_inv_request_cancel: "fd_inv s \<Longrightarrow> was_stopped s \<Longrightarrow> request_cancel c i s = (r, s') \<Longrightarrow> fd_inv s'"
  using fd_inv_cancel_all by (auto simp: request_cancel_def split: cancel_place.splits if_splits)

lemma request_cancel_keeps:
  assumes "request_cancel c i s = (r, s')"
  shows "length (fd_ops s') = length (fd_ops s)" "was_stopped s' = was_stopped s"
    "i < length (fd_ops s) \<Longrightarrow> fo_on_stop (op_at s' i) = fo_on_stop (op_at s i)"
    "i < length (fd_ops s) \<Longrightarrow> fo_place (op_at s i) \<noteq> P_pending \<Longrightarrow> op_at s' i = op_at s i"
  using assms by (auto simp: request_cancel_def was_stopped_def split: cancel_place.splits)

lemma fd_inv_begin:
  assumes "fd_inv s" "i < length (fd_ops s)"
  shows "fo_place (op_at s i) = P_begin \<Longrightarrow> fd_inv (begin_operation i s)"
    "fo_place (op_at s i) = P_check_stop \<Longrightarrow> fd_inv (check_stop i s)"
    "fo_place (op_at s i) = P_register \<Longrightarrow> fd_inv (fd_register_stop i s)"
  unfolding begin_operation_def check_stop_def fd_register_stop_def using assms(1)
  by (intro fd_inv_upd assms; auto simp: fd_op_ok_def goto_def refuse_def fd_inv_def was_stopped_def split: if_splits)+

lemma fd_inv_inline:
  assumes "fd_inv s" "i < length (fd_ops s)" "fo_place (op_at s i) = P_inline_cancel c"
  shows "fd_inv (inline_cancel c i s)"
proof -
  obtain r s' where e: "request_cancel c i s = (r, s')" by fastforce
  have w: "was_stopped s" using fd_inv_nth [OF assms(1,2)] assms(3) by (simp add: fd_op_ok_def)
  have "fd_inv s'" using fd_inv_request_cancel [OF assms(1) w e] .
  then show ?thesis
    using request_cancel_keeps [OF e] assms(2,3) w unfolding inline_cancel_def e
    by (auto split: option.splits intro!: fd_inv_upd simp: fd_op_ok_def goto_def)
qed

lemma launch_ok:
  assumes "fd_inv s" "fd_op_ok s p" "fo_place p = P_launch"
  shows "fd_op_ok s (goto (launch (fo_kind p) (fd_open s)) p)"
  using assms by (cases "fo_kind p")
    (auto simp: fd_op_ok_def goto_def read_some_start_def read_exactly_start_def issue_def result_ok_simps result_ok_empty fd_inv_def was_stopped_def)

lemma fd_inv_finish:
  assumes "fd_inv s" "i < length (fd_ops s)"
  shows "fo_place (op_at s i) = P_queued ec n \<Longrightarrow> fd_inv (upd_fd_op i (goto (P_finish ec n)) s)"
    "fo_place (op_at s i) = P_finish ec n \<Longrightarrow> fd_inv (finish_operation ec n i s)"
    "fo_place (op_at s i) = P_reset ec n \<Longrightarrow> reset_stop ec n i s = Some s' \<Longrightarrow> fd_inv s'"
    "fo_place (op_at s i) = P_deliver c \<Longrightarrow> fd_inv (deliver c i s)"
  unfolding finish_operation_def reset_stop_def deliver_def using assms
  by (auto simp: fd_op_ok_def goto_def result_ok_def split: stop_callback.splits intro!: fd_inv_upd)

lemma fd_inv_launch:
  assumes "fd_inv s" "i < length (fd_ops s)" "fo_place (op_at s i) = P_launch"
  shows "fd_inv (upd_fd_op i (goto (launch (fo_kind (op_at s i)) (fd_open s))) s)"
  using assms launch_ok by (intro fd_inv_upd) auto

lemma fd_inv_advance:
  assumes "fd_inv s" "i < length (fd_ops s)" "advance i s = Some s'"
  shows "fd_inv s'"
  using assms fd_inv_begin [OF assms(1,2)] fd_inv_inline [OF assms(1,2)] fd_inv_finish [OF assms(1,2)] fd_inv_launch [OF assms(1,2)]
  by (auto simp: advance_def split: fd_place.splits)

lemma fd_inv_callback:
  assumes "fd_inv s" "i < length (fd_ops s)" "run_callback i s = Some s'"
  shows "fd_inv s'"
proof (cases "fo_on_stop (op_at s i)")
  case Cb_registered
  with assms show ?thesis
    by (cases "fo_place (op_at s i)") (auto simp: run_callback_def fd_op_ok_def was_stopped_def split: if_splits intro!: fd_inv_upd)
next
  case (Cb_running c)
  obtain r s1 where e: "request_cancel c i s = (r, s1)" by fastforce
  have w: "was_stopped s" using fd_inv_nth [OF assms(1,2)] Cb_running by (auto simp: fd_op_ok_def)
  have "fd_inv s1" using fd_inv_request_cancel [OF assms(1) w e] .
  moreover from this have "fd_op_ok s1 (op_at s1 i)" using assms(2) request_cancel_keeps [OF e] by (intro fd_inv_nth) simp_all
  ultimately show ?thesis
    using request_cancel_keeps [OF e] assms(2,3) w Cb_running unfolding run_callback_def
    by (cases "fo_place (op_at s1 i)") (auto simp: e fd_op_ok_def split: option.splits intro!: fd_inv_upd)
qed (use assms in \<open>simp add: run_callback_def\<close>)

lemma fd_inv_io_done:
  assumes "fd_inv s" "i < length (fd_ops s)" "io_done i ec n s = Some s'"
  shows "fd_inv s'"
  using assms by (auto simp: io_done_def fd_op_ok_def goto_def result_ok_io split: if_splits intro!: fd_inv_upd)

lemma fd_inv_close_begin:
  assumes "fd_inv s"
  shows "fd_inv (close_begin s)"
proof -
  let ?s = "s\<lparr>fd_closing := fd_closing s + 1, fd_close_called := True\<rparr>"
  have "fd_inv ?s" using assms fd_op_ok_mono [of s _ ?s] by (simp add: fd_inv_def goes_further_def was_stopped_def)
  then have "fd_inv (cancel_all ?s)" by (rule fd_inv_cancel_all) (simp add: was_stopped_def)
  also have "cancel_all ?s = close_begin s" by (simp add: cancel_all_def close_begin_def)
  finally show ?thesis .
qed

lemma fd_inv_close_end: "fd_inv s \<Longrightarrow> close_end s = Some s' \<Longrightarrow> fd_inv s'"
proof -
  assume inv: "fd_inv s" and s': "close_end s = Some s'"
  have c: "fd_inv (cancel_all s)" "fd_close_called s" "s' = (cancel_all s)\<lparr>fd_open := False, fd_closing := fd_closing s - 1\<rparr>"
    using fd_inv_cancel_all inv s' by (auto simp: close_end_def fd_inv_def was_stopped_def split: if_splits)
  have "fd_op_ok s' p" if "p \<in> set (fd_ops (cancel_all s))" for p
  proof -
    have "fd_op_ok (cancel_all s) p" "fo_place p \<noteq> P_pending" using c(1) that by (auto simp: fd_inv_def cancel_all_def goto_def)
    then show ?thesis using c(2) by (cases "fo_place p"; cases "hd (fo_deliveries p)")
      (auto simp: fd_op_ok_def c(3) result_ok_def was_stopped_def elim: cause_ok.elims)
  qed
  then show ?thesis using c by (simp add: fd_inv_def)
qed

lemma fd_inv_step: "fd_inv s \<Longrightarrow> fd_step s s' \<Longrightarrow> fd_inv s'"
  unfolding fd_step_def
proof (elim exE)
  fix e assume inv: "fd_inv s" and e: "fd_exec e s = Some s'"
  show "fd_inv s'"
  proof (cases e)
    case (Start k t)
    with inv e show ?thesis
      by (intro fd_inv_further [OF inv]) (auto simp: connect_start_def goes_further_def was_stopped_def fd_op_ok_def)
  next
    case (Stop t)
    with inv e show ?thesis by (intro fd_inv_further [OF inv]) (auto simp: goes_further_def was_stopped_def)
  next
    case (Advance i)
    with e show ?thesis by (simp add: fd_inv_advance [OF inv] split: if_splits)
  next
    case (Io_done i ec n)
    with e show ?thesis by (simp add: fd_inv_io_done [OF inv] split: if_splits)
  next
    case (Callback i)
    with e show ?thesis by (simp add: fd_inv_callback [OF inv] split: if_splits)
  next
    case Close
    with e fd_inv_close_begin [OF inv] show ?thesis by simp
  next
    case Close_end
    with e fd_inv_close_end [OF inv] show ?thesis by simp
  qed
qed

lemma fd_inv_new: "fd_inv fd_new"
  by (simp add: fd_inv_def fd_new_def)

interpretation fdi: invariant_system "\<lambda>s. s = fd_new" fd_step fd_inv
  by unfold_locales (use fd_inv_new fd_inv_step in auto)

lemma fd_reachable_op: "fd_step\<^sup>*\<^sup>* fd_new s \<Longrightarrow> i < length (fd_ops s) \<Longrightarrow> fd_op_ok s (op_at s i)"
  using fdi.reachable_inv [of fd_new s] fd_inv_nth by blast

text \<open>
  C22: An operation on a descriptor completes its receiver at most once, and nothing touches it afterwards: when it has completed, it
  has no step left and its stop callback is neither registered nor running, whatever stop requests and calls of \<open>close\<close>
  are under way.\<close>

theorem fd_completes_once:
  assumes "fd_step\<^sup>*\<^sup>* fd_new s" and "i < length (fd_ops s)"
  shows "length (fo_deliveries (op_at s i)) \<le> 1
    \<and> (fo_deliveries (op_at s i) \<noteq> [] \<longrightarrow> fo_on_stop (op_at s i) = Cb_none \<and> advance i s = None \<and> run_callback i s = None)"
proof (cases "fo_place (op_at s i) = P_done")
  case True
  with fd_reachable_op [OF assms] show ?thesis by (auto simp: fd_op_ok_def advance_def run_callback_def)
qed (use fd_reachable_op [OF assms] in \<open>simp add: fd_op_ok_def\<close>)

text \<open>
  What an operation delivers fits its request: writing everything reports the length of the data and reading exactly the length
  of the buffer, the others report no more than that, an end of file is a value for \<open>read_some\<close> and an error for the
  others. It is stopped only if a stop was requested or the stream was closed, and refused as not valid only after a call of
  \<open>close\<close>.\<close>

theorem fd_delivers_fitting:
  assumes "fd_step\<^sup>*\<^sup>* fd_new s" and "i < length (fd_ops s)" and "c \<in> set (fo_deliveries (op_at s i))"
  shows "value_ok (fo_kind (op_at s i)) c \<and> (c = Set_stopped \<longrightarrow> fd_close_called s \<or> fd_stopped_tokens s \<noteq> [])
    \<and> (c = Set_not_valid \<longrightarrow> fd_close_called s)"
  using fd_reachable_op [OF assms(1,2)] assms(3)
  by (cases "fo_place (op_at s i) = P_done") (auto simp: fd_op_ok_def was_stopped_def)

text \<open>
  C23: No completion is lost. When no operation and no callback can go on by itself, every operation has completed its receiver or
  waits for the descriptor; and when the descriptor is closed, every operation has completed.\<close>

theorem fd_quiescent:
  assumes "fd_step\<^sup>*\<^sup>* fd_new s" and "\<forall>i < length (fd_ops s). advance i s = None \<and> run_callback i s = None" and "i < length (fd_ops s)"
  shows "length (fo_deliveries (op_at s i)) = 1 \<or> fd_open s \<and> fo_place (op_at s i) = P_pending"
proof -
  have a: "advance i s = None" "run_callback i s = None" using assms(2,3) by auto
  have ok: "fd_op_ok s (op_at s i)" using fd_reachable_op [OF assms(1,3)] .
  show ?thesis
  proof (cases "fo_place (op_at s i)")
    case (P_reset ec n)
    then show ?thesis using a
      by (auto simp: advance_def reset_stop_def run_callback_def split: stop_callback.splits prod.splits option.splits if_splits)
  qed (use a(1) ok in \<open>auto simp: advance_def fd_op_ok_def\<close>)
qed

section \<open>Instances and races\<close>

fun fd_run :: "fd_event list \<Rightarrow> fd_state \<Rightarrow> fd_state option" where
  "fd_run [] s = Some s"
| "fd_run (e # es) s = (case fd_exec e s of None \<Rightarrow> None | Some s' \<Rightarrow> fd_run es s')"

lemma fd_step_exec: "fd_exec e s = Some s' \<Longrightarrow> fd_step s s'"
  by (auto simp: fd_step_def)

lemma fd_run_steps: "fd_run es s = Some s' \<Longrightarrow> fd_step\<^sup>*\<^sup>* s s'"
  by (induction es arbitrary: s) (auto split: option.splits intro: converse_rtranclp_into_rtranclp fd_step_exec)

definition steps_of :: "nat \<Rightarrow> nat \<Rightarrow> fd_event list" where
  "steps_of n i = replicate n (Advance i)"

text \<open>A read of four bytes that gets two, and a wait that is cut short by \<open>close\<close>.\<close>

definition fd_sample :: "fd_event list" where
  "fd_sample = Start (Read_some 4) 0 # steps_of 4 0 @ Start Wait_writable 1 # steps_of 4 1 @ Io_done 0 None 2 # steps_of 4 0 @ [Close, Close_end] @ steps_of 4 1"

definition fd_sample_state :: fd_state where
  "fd_sample_state = the (fd_run fd_sample fd_new)"

lemma fd_sample_reaches: "fd_step\<^sup>*\<^sup>* fd_new fd_sample_state"
proof (rule fd_run_steps)
  have "fd_run fd_sample fd_new \<noteq> None" by code_simp
  then show "fd_run fd_sample fd_new = Some fd_sample_state" by (simp add: fd_sample_state_def)
qed

lemma fd_sample_ops: "map fo_deliveries (fd_ops fd_sample_state) = [[Set_value 2], [Set_stopped]]"
  by code_simp

lemma fd_sample_nth: "length (fd_ops fd_sample_state) = 2" "fo_deliveries (op_at fd_sample_state 0) = [Set_value 2]"
  "fo_deliveries (op_at fd_sample_state 1) = [Set_stopped]"
  using fd_sample_ops by (auto simp: map_eq_Cons_conv)

theorem fd_completes_once_witness:
  "fo_deliveries (op_at fd_sample_state 0) = [Set_value 2] \<and> advance 0 fd_sample_state = None"
  using fd_completes_once [OF fd_sample_reaches, of 0] fd_sample_nth by simp

theorem fd_delivers_fitting_witness:
  "Set_stopped \<in> set (fo_deliveries (op_at fd_sample_state 1)) \<and> (fd_close_called fd_sample_state \<or> fd_stopped_tokens fd_sample_state \<noteq> [])"
  using fd_delivers_fitting [OF fd_sample_reaches, of 1 Set_stopped] fd_sample_nth by simp

theorem fd_quiescent_witness: "length (fo_deliveries (op_at fd_sample_state 1)) = 1"
proof -
  have "\<not> fd_open fd_sample_state" "\<forall>i < length (fd_ops fd_sample_state). advance i fd_sample_state = None \<and> run_callback i fd_sample_state = None"
    by code_simp+
  then show ?thesis using fd_quiescent [OF fd_sample_reaches, of 1] fd_sample_nth by auto
qed

text \<open>
  A stop request hits the neighbours: \<open>request_cancel\<close> cancels the descriptor, not the operation, so that a write that nobody
  asked to stop is stopped with the read.\<close>

theorem stop_hits_neighbour:
  "\<exists>s. fd_step\<^sup>*\<^sup>* fd_new s \<and> fd_open s \<and> \<not> fd_close_called s \<and> fd_stopped_tokens s = [0]
     \<and> fo_token (op_at s 1) = 1 \<and> fo_deliveries (op_at s 1) = [Set_stopped]"
proof -
  let ?es = "Start (Read_some 4) 0 # steps_of 4 0 @ Start (Write_all ''x'') 1 # steps_of 4 1 @ Stop 0 # replicate 4 (Callback 0) @ steps_of 4 1"
  let ?s = "the (fd_run ?es fd_new)"
  have r: "fd_run ?es fd_new \<noteq> None" and "fd_open ?s \<and> \<not> fd_close_called ?s \<and> fd_stopped_tokens ?s = [0]
     \<and> fo_token (op_at ?s 1) = 1 \<and> fo_deliveries (op_at ?s 1) = [Set_stopped]" by code_simp+
  with fd_run_steps [of ?es fd_new ?s] show ?thesis by fastforce
qed

text \<open>
  A stop request can be lost: it comes after the callback is registered and before the asynchronous operation is started, finds
  nothing to cancel, and the operation then waits for the descriptor although its token is stopped and no callback is
  left.\<close>

theorem stop_request_lost:
  "\<exists>s. fd_step\<^sup>*\<^sup>* fd_new s \<and> fd_open s \<and> fo_token (op_at s 0) \<in> set (fd_stopped_tokens s)
     \<and> fo_place (op_at s 0) = P_pending \<and> fo_on_stop (op_at s 0) = Cb_none"
proof -
  let ?es = "Start Wait_readable 0 # steps_of 3 0 @ Stop 0 # replicate 4 (Callback 0) @ steps_of 1 0"
  let ?s = "the (fd_run ?es fd_new)"
  have r: "fd_run ?es fd_new \<noteq> None" and "fd_open ?s \<and> fo_token (op_at ?s 0) \<in> set (fd_stopped_tokens ?s)
     \<and> fo_place (op_at ?s 0) = P_pending \<and> fo_on_stop (op_at ?s 0) = Cb_none" by code_simp+
  with fd_run_steps [of ?es fd_new ?s] show ?thesis by fastforce
qed

section \<open>Taking over descriptors\<close>

text \<open>The descriptors that the process has open are a list. Duplicating a descriptor and handing it to the event loop can fail, and
  so does the search for the runtime outside of one.\<close>

definition adopt :: "bool \<Rightarrow> (int \<Rightarrow> string option) \<Rightarrow> int \<Rightarrow> int list \<Rightarrow> (string + int) \<times> int list" where
  "adopt has_runtime assign fd descriptors =
     (if fd < 0 then (Inl ''FdStream::adopt requires a valid file descriptor'', descriptors)
      else if \<not> has_runtime then (Inl ''no current flux::Runtime in this execution context'', descriptors)
      else case assign fd of
        Some e \<Rightarrow> (Inl e, remove1 fd descriptors)
      | None \<Rightarrow> (Inr fd, descriptors))"

definition attach :: "bool \<Rightarrow> (int \<Rightarrow> string + int) \<Rightarrow> (int \<Rightarrow> string option) \<Rightarrow> int \<Rightarrow> int list \<Rightarrow> (string + int) \<times> int list" where
  "attach has_runtime dup assign fd descriptors =
     (if fd < 0 then (Inl ''FdStream::attach requires a valid file descriptor'', descriptors)
      else case dup fd of
        Inl e \<Rightarrow> (Inl e, descriptors)
      | Inr duplicated \<Rightarrow> adopt has_runtime assign duplicated (duplicated # descriptors))"

text \<open>
  In a runtime \<open>attach\<close> leaks nothing: it gives a stream over one new descriptor and leaves the others open, or fails and
  leaves the open descriptors as they were.\<close>

theorem attach_leaks_nothing:
  assumes "attach True dup assign fd descriptors = (r, descriptors')" and "\<And>d. dup fd = Inr d \<Longrightarrow> 0 \<le> d"
  shows "case r of Inl e \<Rightarrow> descriptors' = descriptors | Inr d \<Rightarrow> dup fd = Inr d \<and> descriptors' = d # descriptors"
  using assms by (auto simp: attach_def adopt_def split: sum.splits option.splits if_splits)

theorem attach_leaks_nothing_witness:
  "attach True (\<lambda>_. Inr 7) (\<lambda>_. Some ''epoll'') 3 [3] = (Inl ''epoll'', [3])"
proof -
  obtain r ds where e: "attach True (\<lambda>_. Inr 7) (\<lambda>_. Some ''epoll'') 3 [3] = (r, ds)" by fastforce
  then have "r = Inl ''epoll''" by (simp add: attach_def adopt_def split: if_splits)
  with attach_leaks_nothing [OF e] e show ?thesis by simp
qed

text \<open>Outside of a runtime the duplicate stays open.\<close>

lemma attach_without_runtime_leaks:
  "attach False (\<lambda>_. Inr 7) (\<lambda>_. None) 3 [3] = (Inl ''no current flux::Runtime in this execution context'', [7, 3])"
  by (simp add: attach_def adopt_def)

text \<open>The coroutines: a write of nothing returns at once, the others await the sender.\<close>

definition write_some_call :: "string \<Rightarrow> nat + fd_kind" where
  "write_some_call data = (if data = [] then Inl 0 else Inr (Write_some data))"

definition write_all_call :: "string \<Rightarrow> nat + fd_kind" where
  "write_all_call data = (if data = [] then Inl 0 else Inr (Write_all data))"

section \<open>Watchers\<close>

record fd_watcher =
  wt_fd :: int
  wt_events :: "32 word"
  wt_stopped :: bool
  wt_assigned :: bool

record watch_event =
  we_ok :: bool
  we_readable :: bool
  we_writable :: bool
  we_error :: "fd_error option"

abbreviation flag_readable :: "32 word" where
  "flag_readable \<equiv> 1"

abbreviation flag_writable :: "32 word" where
  "flag_writable \<equiv> 2"

definition watch_sender :: "bool \<Rightarrow> (int \<Rightarrow> string option) \<Rightarrow> int \<Rightarrow> 32 word \<Rightarrow> string + fd_watcher" where
  "watch_sender has_runtime assign fd events =
     (if fd < 0 then Inl ''FdWatcher::watch_sender requires a valid fd''
      else let normalized = events AND (flag_readable OR flag_writable) in
      if normalized = 0 then Inl ''FdWatcher::watch_sender requires readable and/or writable events''
      else if \<not> has_runtime then Inl ''FdWatcher::watch_sender requires current runtime''
      else case assign fd of
        Some e \<Rightarrow> Inl e
      | None \<Rightarrow> Inr \<lparr>wt_fd = fd, wt_events = normalized, wt_stopped = False, wt_assigned = True\<rparr>)"

definition want_read :: "fd_watcher \<Rightarrow> bool" where
  "want_read w \<longleftrightarrow> wt_events w AND flag_readable \<noteq> 0"

definition want_write :: "fd_watcher \<Rightarrow> bool" where
  "want_write w \<longleftrightarrow> wt_events w AND flag_writable \<noteq> 0"

text \<open>How the waits that \<open>next_sender\<close> starts can end: the first of them decides.\<close>

datatype wait_end = Wait_read_ready | Wait_write_ready | Wait_timed_out | Wait_system_error fd_error | Wait_other_error

fun can_end :: "fd_watcher \<Rightarrow> int option \<Rightarrow> wait_end \<Rightarrow> bool" where
  "can_end w timeout_ms Wait_read_ready = want_read w"
| "can_end w timeout_ms Wait_write_ready = (want_write w \<or> \<not> want_read w)"
| "can_end w timeout_ms Wait_timed_out = (timeout_ms \<noteq> None)"
| "can_end w timeout_ms _ = True"

definition readable_event :: watch_event where
  "readable_event = \<lparr>we_ok = True, we_readable = True, we_writable = False, we_error = None\<rparr>"

definition writable_event :: watch_event where
  "writable_event = \<lparr>we_ok = True, we_readable = False, we_writable = True, we_error = None\<rparr>"

definition error_event :: "fd_error \<Rightarrow> watch_event" where
  "error_event e = \<lparr>we_ok = False, we_readable = False, we_writable = False, we_error = Some e\<rparr>"

text \<open>\<open>finalize\<close>, with the two loads of the flag \<open>stopped\<close>; \<open>Other_error 5\<close> stands for \<open>io_error\<close>.\<close>

definition upon_error :: "bool \<Rightarrow> wait_end \<Rightarrow> watch_event option" where
  "upon_error stopped outcome =
     (case outcome of
        Wait_read_ready \<Rightarrow> Some readable_event
      | Wait_write_ready \<Rightarrow> Some writable_event
      | Wait_timed_out \<Rightarrow> None
      | Wait_system_error e \<Rightarrow>
          if stopped \<or> e = Operation_aborted \<or> e = Bad_descriptor then None else Some (error_event e)
      | Wait_other_error \<Rightarrow> if stopped then None else Some (error_event (Other_error 5)))"

definition watch_finalize :: "bool \<Rightarrow> bool \<Rightarrow> wait_end \<Rightarrow> watch_event option" where
  "watch_finalize stopped1 stopped2 outcome =
     (case upon_error stopped1 outcome of None \<Rightarrow> None | Some ev \<Rightarrow> if stopped2 then None else Some ev)"

definition next_sender :: "fd_watcher \<Rightarrow> bool \<Rightarrow> bool \<Rightarrow> wait_end \<Rightarrow> watch_event option" where
  "next_sender w stopped1 stopped2 outcome = (if wt_stopped w then None else watch_finalize stopped1 stopped2 outcome)"

definition bounded_timeout :: "int \<Rightarrow> int" where
  "bounded_timeout timeout_ms = max 0 timeout_ms"

definition stop_sender :: "fd_watcher \<Rightarrow> fd_watcher" where
  "stop_sender w = (if wt_stopped w then w else w\<lparr>wt_stopped := True, wt_assigned := False\<rparr>)"

text \<open>
  A watcher reports what it was asked for. An event of a watcher that was created for some flags is readable only if reading
  was among them and writable only if writing was, is one of the two unless it is an error, and a watcher that is
  stopped, before the call or before the call ends, reports nothing.\<close>

theorem watcher_reports_requested:
  assumes "watch_sender has_runtime assign fd events = Inr w" and "can_end w timeout_ms outcome"
  shows "next_sender w True True outcome = None \<and> next_sender (stop_sender w) stopped1 stopped2 outcome = None
    \<and> (case next_sender w stopped1 stopped2 outcome of
         None \<Rightarrow> True
       | Some ev \<Rightarrow> (we_readable ev \<longrightarrow> bit events 0) \<and> (we_writable ev \<longrightarrow> bit events 1)
           \<and> we_ok ev = (we_readable ev \<noteq> we_writable ev) \<and> we_ok ev = (we_error ev = None))"
proof -
  have w: "wt_events w = events AND 3" "wt_events w \<noteq> 0" "\<not> wt_stopped w"
    using assms(1) by (auto simp: watch_sender_def Let_def split: if_splits option.splits)
  have "want_read w \<longleftrightarrow> events AND 1 \<noteq> 0" "want_write w \<longleftrightarrow> events AND 2 \<noteq> 0" by (simp_all add: want_read_def want_write_def w(1) and.assoc)
  moreover have "bit events 0 \<longleftrightarrow> events AND 1 \<noteq> 0" "bit events 1 \<longleftrightarrow> events AND 2 \<noteq> 0"
    using bit_iff_and_push_bit_not_eq_0 [of events 0] bit_iff_and_push_bit_not_eq_0 [of events 1] by simp_all
  moreover have "events AND 1 \<noteq> 0 \<or> events AND 2 \<noteq> 0"
    using w(1,2) bit.conj_disj_distrib [of events 1 2] by auto
  ultimately show ?thesis using assms(2) w(3)
    by (auto simp: next_sender_def watch_finalize_def upon_error_def stop_sender_def readable_event_def writable_event_def error_event_def
        split: wait_end.splits if_splits)
qed

theorem watcher_reports_requested_witness:
  "\<exists>w. watch_sender True (\<lambda>_. None) 3 5 = Inr w \<and> next_sender w False False Wait_read_ready = Some readable_event
     \<and> next_sender (stop_sender w) False False Wait_read_ready = None \<and> bit (5 :: 32 word) 0"
proof -
  let ?w = "\<lparr>wt_fd = 3, wt_events = 1, wt_stopped = False, wt_assigned = True\<rparr>"
  have w: "watch_sender True (\<lambda>_. None) 3 5 = Inr ?w" by (simp add: watch_sender_def)
  have e: "next_sender ?w False False Wait_read_ready = Some readable_event" by (simp add: next_sender_def watch_finalize_def upon_error_def)
  show ?thesis
    using watcher_reports_requested [OF w, of None Wait_read_ready False False] w e by (auto simp: want_read_def readable_event_def)
qed

end
