(* ===== verification/Net.thy ===== *)
theory Net
  imports Prelude "HOL-Library.Word"
begin

unbundle bit_operations_syntax

text \<open>
  Socket addresses, name resolution, TCP and UDP (\<open>include/flux/tcp.h\<close>, \<open>src/tcp.cpp\<close>, \<open>src/udp.cpp\<close>). The sockets of asio, the
  resolver and the parsing and printing of addresses are parameters: a call gets the world and returns an exception's text or
  a value, and the world. The bytes that a peer sends are the segments that arrive on the socket and the way the stream
  ends.
\<close>

section \<open>Addresses\<close>

type_synonym byte = "8 word"

datatype ip_address = Ip_v4 "byte list" | Ip_v6 "byte list" "32 word"

datatype address_family = Unspecified | Ipv4 | Ipv6

text \<open>\<open>sockaddr_in\<close> and \<open>sockaddr_in6\<close>, with the port in network order.\<close>

datatype sockaddr = Sockaddr_in "16 word" "byte list" | Sockaddr_in6 "16 word" "byte list" "32 word" | Sockaddr_other nat

record socket_address =
  sa_address :: "ip_address option"
  sa_port :: "16 word"
  sa_native :: "sockaddr option"
  sa_native_length :: int
  sa_native_ready :: bool

definition socket_address_new :: "ip_address option \<Rightarrow> 16 word \<Rightarrow> socket_address" where
  "socket_address_new address port =
     \<lparr>sa_address = address, sa_port = port, sa_native = None, sa_native_length = 0, sa_native_ready = False\<rparr>"

definition sa_valid :: "socket_address \<Rightarrow> bool" where
  "sa_valid a \<longleftrightarrow> sa_address a \<noteq> None"

definition is_ipv4 :: "socket_address \<Rightarrow> bool" where
  "is_ipv4 a = (case sa_address a of Some (Ip_v4 _) \<Rightarrow> True | _ \<Rightarrow> False)"

definition is_ipv6 :: "socket_address \<Rightarrow> bool" where
  "is_ipv6 a = (case sa_address a of Some (Ip_v6 _ _) \<Rightarrow> True | _ \<Rightarrow> False)"

definition sa_family :: "socket_address \<Rightarrow> address_family" where
  "sa_family a = (case sa_address a of None \<Rightarrow> Unspecified | Some (Ip_v4 _) \<Rightarrow> Ipv4 | Some (Ip_v6 _ _) \<Rightarrow> Ipv6)"

definition as_asio_address :: "socket_address \<Rightarrow> string + ip_address" where
  "as_asio_address a = (case sa_address a of None \<Rightarrow> Inl ''invalid socket address'' | Some x \<Rightarrow> Inr x)"

definition sa_ip :: "(ip_address \<Rightarrow> string) \<Rightarrow> socket_address \<Rightarrow> string" where
  "sa_ip ip_text a = (case sa_address a of None \<Rightarrow> [] | Some x \<Rightarrow> ip_text x)"

definition sa_to_string :: "(ip_address \<Rightarrow> string) \<Rightarrow> socket_address \<Rightarrow> string" where
  "sa_to_string ip_text a =
     (if \<not> sa_valid a then []
      else if is_ipv6 a then ''['' @ sa_ip ip_text a @ '']:'' @ dec_of_nat (unat (sa_port a))
      else sa_ip ip_text a @ '':'' @ dec_of_nat (unat (sa_port a)))"

definition htons :: "16 word \<Rightarrow> 16 word" where
  "htons x = push_bit 8 x OR drop_bit 8 x"

definition refresh_native_cache :: "socket_address \<Rightarrow> socket_address" where
  "refresh_native_cache a =
     (case sa_address a of
        None \<Rightarrow> a\<lparr>sa_native_length := 0, sa_native_ready := True\<rparr>
      | Some address \<Rightarrow>
          if sa_native_ready a then a
          else case address of
            Ip_v4 bs \<Rightarrow> a\<lparr>sa_native := Some (Sockaddr_in (htons (sa_port a)) bs), sa_native_length := 16, sa_native_ready := True\<rparr>
          | Ip_v6 bs scope \<Rightarrow>
              a\<lparr>sa_native := Some (Sockaddr_in6 (htons (sa_port a)) bs scope), sa_native_length := 28, sa_native_ready := True\<rparr>)"

definition sa_data :: "socket_address \<Rightarrow> sockaddr option \<times> socket_address" where
  "sa_data a = (let a' = refresh_native_cache a in (if sa_native_length a' > 0 then sa_native a' else None, a'))"

definition sa_size :: "socket_address \<Rightarrow> int \<times> socket_address" where
  "sa_size a = (let a' = refresh_native_cache a in (sa_native_length a', a'))"

definition from_asio :: "ip_address \<Rightarrow> int \<Rightarrow> string + socket_address" where
  "from_asio address port =
     (if port < 0 \<or> port > 65535 then Inl ''port out of range'' else Inr (socket_address_new (Some address) (word_of_int port)))"

definition from_native :: "sockaddr option \<Rightarrow> int \<Rightarrow> socket_address" where
  "from_native native len =
     (case native of
        None \<Rightarrow> socket_address_new None 0
      | Some sa \<Rightarrow>
          if len \<le> 0 then socket_address_new None 0
          else case sa of
            Sockaddr_in port bs \<Rightarrow> if len < 16 then socket_address_new None 0 else socket_address_new (Some (Ip_v4 bs)) (htons port)
          | Sockaddr_in6 port bs scope \<Rightarrow>
              if len < 28 then socket_address_new None 0 else socket_address_new (Some (Ip_v6 bs scope)) (htons port)
          | Sockaddr_other _ \<Rightarrow> socket_address_new None 0)"

definition sa_ipv4 :: "(string \<Rightarrow> byte list option) \<Rightarrow> string \<Rightarrow> int \<Rightarrow> string + socket_address" where
  "sa_ipv4 make_address_v4 ip port =
     (case make_address_v4 ip of None \<Rightarrow> Inl (''invalid IPv4 address: '' @ ip) | Some bs \<Rightarrow> from_asio (Ip_v4 bs) port)"

definition sa_ipv6 :: "(string \<Rightarrow> (byte list \<times> 32 word) option) \<Rightarrow> string \<Rightarrow> int \<Rightarrow> string + socket_address" where
  "sa_ipv6 make_address_v6 ip port =
     (case make_address_v6 ip of None \<Rightarrow> Inl (''invalid IPv6 address: '' @ ip) | Some (bs, scope) \<Rightarrow> from_asio (Ip_v6 bs scope) port)"

text \<open>What the cache holds, if it is filled.\<close>

definition cache_ok :: "socket_address \<Rightarrow> bool" where
  "cache_ok a \<longleftrightarrow> sa_native_ready a \<longrightarrow>
     (case sa_address a of
        None \<Rightarrow> sa_native_length a = 0
      | Some (Ip_v4 bs) \<Rightarrow> sa_native a = Some (Sockaddr_in (htons (sa_port a)) bs) \<and> sa_native_length a = 16
      | Some (Ip_v6 bs scope) \<Rightarrow> sa_native a = Some (Sockaddr_in6 (htons (sa_port a)) bs scope) \<and> sa_native_length a = 28)"

lemma htons_htons [simp]: "htons (htons x) = x"
  by (rule bit_eqI) (auto simp: htons_def bit_simps)

lemma cache_ok_new: "cache_ok (socket_address_new address port)"
  by (simp add: cache_ok_def socket_address_new_def)

lemma cache_ok_refresh: "cache_ok a \<Longrightarrow> cache_ok (refresh_native_cache a)"
  by (auto simp: cache_ok_def refresh_native_cache_def split: option.splits ip_address.splits)

text \<open>
  The native form of an address tcp_reads back: whatever was asked of the object before, the \<open>sockaddr\<close> that \<open>data\<close> returns, with the
  length that \<open>size\<close> returns, gives the same address and port again; and asking does not change the address.\<close>

theorem native_address_roundtrip:
  assumes "cache_ok a" and "sa_data a = (native, a1)" and "sa_size a1 = (len, a2)"
  shows "sa_address (from_native native len) = sa_address a \<and> (sa_valid a \<longrightarrow> sa_port (from_native native len) = sa_port a)
    \<and> sa_address a2 = sa_address a \<and> sa_port a2 = sa_port a \<and> cache_ok a2"
  using assms
  by (auto simp: cache_ok_def sa_data_def sa_size_def refresh_native_cache_def from_native_def socket_address_new_def sa_valid_def Let_def
      split: option.splits ip_address.splits if_splits)

theorem native_address_roundtrip_witness:
  "\<exists>a native a1 len a2. from_asio (Ip_v4 [127, 0, 0, 1]) 8080 = Inr a \<and> sa_data a = (native, a1) \<and> sa_size a1 = (len, a2)
     \<and> sa_address (from_native native len) = Some (Ip_v4 [127, 0, 0, 1]) \<and> sa_port (from_native native len) = 8080"
proof -
  let ?a = "socket_address_new (Some (Ip_v4 [127, 0, 0, 1])) 8080"
  obtain native a1 len a2 where d: "sa_data ?a = (native, a1)" "sa_size a1 = (len, a2)" by fastforce
  have "from_asio (Ip_v4 [127, 0, 0, 1]) 8080 = Inr ?a" by (simp add: from_asio_def)
  with native_address_roundtrip [OF cache_ok_new d] d show ?thesis by (auto simp: socket_address_new_def sa_valid_def)
qed

section \<open>Resolution\<close>

datatype resolve_transport = Transport_tcp | Transport_udp

record resolver_flags =
  rf_passive :: bool
  rf_address_configured :: bool
  rf_v4_mapped :: bool

record resolve_options =
  ro_family :: address_family
  ro_passive :: bool
  ro_transport :: resolve_transport

type_synonym asio_endpoint = "ip_address \<times> 16 word"

type_synonym ('a, 'w) net_call = "'w \<Rightarrow> (string + 'a) \<times> 'w"

type_synonym 'w resolver = "resolve_transport \<Rightarrow> string \<Rightarrow> string \<Rightarrow> resolver_flags \<Rightarrow> (asio_endpoint list, 'w) net_call"

definition to_resolver_flags :: "resolve_options \<Rightarrow> resolver_flags" where
  "to_resolver_flags options =
     \<lparr>rf_passive = ro_passive options,
      rf_address_configured = (ro_family options = Ipv4 \<or> ro_family options = Ipv6),
      rf_v4_mapped = (ro_family options = Ipv4)\<rparr>"

definition from_endpoint :: "asio_endpoint \<Rightarrow> socket_address" where
  "from_endpoint ep = socket_address_new (Some (fst ep)) (snd ep)"

definition to_endpoint :: "socket_address \<Rightarrow> string + asio_endpoint" where
  "to_endpoint a = (case sa_address a of None \<Rightarrow> Inl ''invalid socket address'' | Some x \<Rightarrow> Inr (x, sa_port a))"

definition resolve :: "'w resolver \<Rightarrow> string \<Rightarrow> string \<Rightarrow> resolve_options \<Rightarrow> (socket_address list, 'w) net_call" where
  "resolve rs host service options w =
     (case rs (ro_transport options) host service (to_resolver_flags options) w of
        (Inl e, w') \<Rightarrow> (Inl e, w')
      | (Inr eps, w') \<Rightarrow> (Inr (map from_endpoint eps), w'))"

definition resolve_port :: "'w resolver \<Rightarrow> string \<Rightarrow> int \<Rightarrow> resolve_options \<Rightarrow> (socket_address list, 'w) net_call" where
  "resolve_port rs host port options = resolve rs host (dec_of_int port) options"

definition resolve_tcp :: "'w resolver \<Rightarrow> string \<Rightarrow> int \<Rightarrow> address_family \<Rightarrow> (socket_address list, 'w) net_call" where
  "resolve_tcp rs host port family =
     resolve_port rs host port \<lparr>ro_family = family, ro_passive = False, ro_transport = Transport_tcp\<rparr>"

definition resolve_udp :: "'w resolver \<Rightarrow> string \<Rightarrow> int \<Rightarrow> address_family \<Rightarrow> (socket_address list, 'w) net_call" where
  "resolve_udp rs host port family =
     resolve_port rs host port \<lparr>ro_family = family, ro_passive = False, ro_transport = Transport_udp\<rparr>"

definition family_matches :: "socket_address \<Rightarrow> address_family \<Rightarrow> bool" where
  "family_matches a family = (case family of Unspecified \<Rightarrow> True | Ipv4 \<Rightarrow> is_ipv4 a | Ipv6 \<Rightarrow> is_ipv6 a)"

section \<open>Reaching an endpoint\<close>

text \<open>What the four loops over resolved endpoints have in common: they take the first endpoint that works, skip some, and when
  none works throw the last exception.\<close>

text \<open>All of the endpoints fail: the exceptions, and the world afterwards.\<close>

fun all_fail :: "('e \<Rightarrow> bool) \<Rightarrow> ('e \<Rightarrow> ('a, 'w) net_call) \<Rightarrow> 'e list \<Rightarrow> 'w \<Rightarrow> (string list \<times> 'w) option" where
  "all_fail skip attempt [] w = Some ([], w)"
| "all_fail skip attempt (e # es) w =
     (if skip e then all_fail skip attempt es w
      else case attempt e w of
        (Inr _, _) \<Rightarrow> None
      | (Inl err, w') \<Rightarrow> map_option (apfst ((#) err)) (all_fail skip attempt es w'))"

locale endpoint_search =
  fixes loop :: "'e list \<Rightarrow> string option \<Rightarrow> 'w \<Rightarrow> (string + 'a) \<times> 'w"
    and skip :: "'e \<Rightarrow> bool"
    and attempt :: "'e \<Rightarrow> ('a, 'w) net_call"
    and none_error :: string
  assumes loop_end: "loop [] err w = (Inl (case err of Some e \<Rightarrow> e | None \<Rightarrow> none_error), w)"
    and loop_skip: "skip e \<Longrightarrow> loop (e # es) err w = loop es err w"
    and loop_ok: "\<not> skip e \<Longrightarrow> attempt e w = (Inr x, w') \<Longrightarrow> loop (e # es) err w = (Inr x, w')"
    and loop_error: "\<not> skip e \<Longrightarrow> attempt e w = (Inl e', w') \<Longrightarrow> loop (e # es) err w = loop es (Some e') w'"
begin

lemma loop_all_fail:
  "all_fail skip attempt es w = Some (errs, w') \<Longrightarrow>
     loop (es @ es') err w = loop es' (if errs = [] then err else Some (last errs)) w'"
proof (induction es arbitrary: w err errs)
  case (Cons e es)
  then show ?case
    by (cases "skip e"; cases "attempt e w"; cases "fst (attempt e w)") (auto simp: loop_skip loop_error)
qed simp

lemma first_or_all_fail:
  obtains (found) es1 e es2 errs w1 x w2 where "es = es1 @ e # es2" "\<not> skip e" "all_fail skip attempt es1 w = Some (errs, w1)"
      "attempt e w1 = (Inr x, w2)"
    | (none) errs w1 where "all_fail skip attempt es w = Some (errs, w1)"
proof (induction es arbitrary: w thesis)
  case (Cons e es)
  show ?case
  proof (cases "\<not> skip e \<and> (\<exists>x w2. attempt e w = (Inr x, w2))")
    case True
    then show ?thesis using Cons.prems(1) [of "[]" e es "[]" w] by auto
  next
    case False
    let ?w = "if skip e then w else snd (attempt e w)"
    have step: "\<exists>errs'. all_fail skip attempt (e # l) w = Some (errs', w1)" if "all_fail skip attempt l ?w = Some (errs, w1)" for l errs w1
      using that False by (cases "attempt e w"; cases "fst (attempt e w)") auto
    show ?thesis
    proof (rule Cons.IH [of ?w])
      fix es1 e1 es2 errs w1 x w2
      assume "es = es1 @ e1 # es2" "\<not> skip e1" "all_fail skip attempt es1 ?w = Some (errs, w1)" "attempt e1 w1 = (Inr x, w2)"
      with step [of es1 errs w1] Cons.prems(1) [of "e # es1" e1 es2 _ w1 x w2] show ?thesis by auto
    next
      fix errs w1
      assume "all_fail skip attempt es ?w = Some (errs, w1)"
      with step [of es errs w1] Cons.prems(2) show ?thesis by auto
    qed
  qed
qed (use that in simp)

text \<open>The loop returns what the first endpoint gives that works, and otherwise the last exception; endpoints after the one
  that worked are not tried.\<close>

lemma loop_finds_first:
  "fst (loop es None w) = Inr x \<longleftrightarrow>
     (\<exists>es1 e es2 errs w1. es = es1 @ e # es2 \<and> \<not> skip e \<and> all_fail skip attempt es1 w = Some (errs, w1) \<and> fst (attempt e w1) = Inr x
        \<and> loop es None w = attempt e w1)" (is "?l \<longleftrightarrow> ?r")
proof
  assume ?l
  show ?r
  proof (rule first_or_all_fail [of es w])
    fix es1 e es2 errs w1 y w2
    assume a: "es = es1 @ e # es2" "\<not> skip e" "all_fail skip attempt es1 w = Some (errs, w1)" "attempt e w1 = (Inr y, w2)"
    then have "loop es None w = (Inr y, w2)" using loop_all_fail [OF a(3), of "e # es2" None] by (simp add: loop_ok)
    with a \<open>?l\<close> show ?r by (intro exI [of _ es1] exI [of _ e] exI [of _ es2] exI [of _ errs] exI [of _ w1]) simp
  next
    fix errs w1
    assume "all_fail skip attempt es w = Some (errs, w1)"
    with \<open>?l\<close> loop_all_fail [of es w errs w1 "[]" None] show ?r by (simp add: loop_end)
  qed
qed auto

lemma loop_error_last:
  assumes "all_fail skip attempt es w = Some (errs, w')"
  shows "loop es None w = (Inl (if errs = [] then none_error else last errs), w')"
  using loop_all_fail [OF assms, of "[]" None] by (simp add: loop_end)

end

text \<open>The calls that make a socket ready, in the order in which they are made; the first that fails throws.\<close>

datatype socket_op = Op_open bool | Op_reuse_address | Op_v6_only | Op_reuse_port | Op_bind asio_endpoint | Op_listen int

fun do_all :: "(socket_op \<Rightarrow> (unit, 'w) net_call) \<Rightarrow> socket_op list \<Rightarrow> (unit, 'w) net_call" where
  "do_all sys [] w = (Inr (), w)"
| "do_all sys (c # cs) w = (case sys c w of (Inl e, w') \<Rightarrow> (Inl e, w') | (Inr _, w') \<Rightarrow> do_all sys cs w')"

definition endpoint_v6 :: "asio_endpoint \<Rightarrow> bool" where
  "endpoint_v6 ep = (case fst ep of Ip_v6 _ _ \<Rightarrow> True | _ \<Rightarrow> False)"

definition tcp_connect_endpoint :: "(asio_endpoint \<Rightarrow> ('s, 'w) net_call) \<Rightarrow> socket_address \<Rightarrow> ('s, 'w) net_call" where
  "tcp_connect_endpoint connect a w = (case to_endpoint a of Inl e \<Rightarrow> (Inl e, w) | Inr ep \<Rightarrow> connect ep w)"

fun tcp_connect_loop :: "(asio_endpoint \<Rightarrow> ('s, 'w) net_call) \<Rightarrow> address_family \<Rightarrow> socket_address list \<Rightarrow> string option \<Rightarrow> ('s, 'w) net_call" where
  "tcp_connect_loop connect family [] last_error w =
     (case last_error of Some e \<Rightarrow> (Inl e, w) | None \<Rightarrow> (Inl ''no TCP endpoint resolved'', w))"
| "tcp_connect_loop connect family (endpoint # rest) last_error w =
     (if \<not> family_matches endpoint family then tcp_connect_loop connect family rest last_error w
      else case tcp_connect_endpoint connect endpoint w of
        (Inr s, w') \<Rightarrow> (Inr s, w')
      | (Inl e, w') \<Rightarrow> tcp_connect_loop connect family rest (Some e) w')"

definition tcp_connect ::
  "'w resolver \<Rightarrow> (asio_endpoint \<Rightarrow> ('s, 'w) net_call) \<Rightarrow> string \<Rightarrow> int \<Rightarrow> address_family \<Rightarrow> ('s, 'w) net_call" where
  "tcp_connect rs connect host port family w =
     (case resolve_tcp rs host port family w of
        (Inl e, w') \<Rightarrow> (Inl e, w')
      | (Inr endpoints, w') \<Rightarrow> tcp_connect_loop connect family endpoints None w')"

record tcp_bind_options =
  tb_backlog :: int
  tb_family :: address_family
  tb_ipv6_only :: bool
  tb_reuse_port :: bool

record tcp_listener =
  tl_open :: bool
  tl_bound_port :: nat

definition tcp_bind_ops :: "tcp_bind_options \<Rightarrow> asio_endpoint \<Rightarrow> socket_op list" where
  "tcp_bind_ops options ep =
     [Op_open (endpoint_v6 ep), Op_reuse_address] @ (if tb_ipv6_only options \<and> endpoint_v6 ep then [Op_v6_only] else [])
       @ [Op_bind ep, Op_listen (tb_backlog options)]"

definition tcp_bind_endpoint ::
  "(socket_op \<Rightarrow> (unit, 'w) net_call) \<Rightarrow> ('w \<Rightarrow> 16 word) \<Rightarrow> tcp_bind_options \<Rightarrow> socket_address \<Rightarrow> (tcp_listener, 'w) net_call" where
  "tcp_bind_endpoint sys local_port options a w =
     (case to_endpoint a of
        Inl e \<Rightarrow> (Inl e, w)
      | Inr ep \<Rightarrow>
          (case do_all sys (tcp_bind_ops options ep) w of
             (Inl e, w') \<Rightarrow> (Inl e, w')
           | (Inr _, w') \<Rightarrow> (Inr \<lparr>tl_open = True, tl_bound_port = unat (local_port w')\<rparr>, w')))"

fun tcp_bind_loop ::
  "(socket_op \<Rightarrow> (unit, 'w) net_call) \<Rightarrow> ('w \<Rightarrow> 16 word) \<Rightarrow> tcp_bind_options \<Rightarrow> socket_address list \<Rightarrow> string option \<Rightarrow> (tcp_listener, 'w) net_call" where
  "tcp_bind_loop sys local_port options [] last_error w =
     (case last_error of Some e \<Rightarrow> (Inl e, w) | None \<Rightarrow> (Inl ''unable to bind TCP listener'', w))"
| "tcp_bind_loop sys local_port options (endpoint # rest) last_error w =
     (case tcp_bind_endpoint sys local_port options endpoint w of
        (Inr l, w') \<Rightarrow> (Inr l, w')
      | (Inl e, w') \<Rightarrow> tcp_bind_loop sys local_port options rest (Some e) w')"

definition tcp_bind ::
  "'w resolver \<Rightarrow> (socket_op \<Rightarrow> (unit, 'w) net_call) \<Rightarrow> ('w \<Rightarrow> 16 word) \<Rightarrow> string \<Rightarrow> int \<Rightarrow> tcp_bind_options \<Rightarrow> (tcp_listener, 'w) net_call" where
  "tcp_bind rs sys local_port host port options w =
     (case resolve_port rs host port \<lparr>ro_family = tb_family options, ro_passive = True, ro_transport = Transport_tcp\<rparr> w of
        (Inl e, w') \<Rightarrow> (Inl e, w')
      | (Inr endpoints, w') \<Rightarrow> tcp_bind_loop sys local_port options endpoints None w')"

section \<open>UDP sockets\<close>

record udp_bind_options =
  ub_family :: address_family
  ub_reuse_addr :: bool
  ub_ipv6_only :: bool
  ub_reuse_port :: bool

text \<open>The datagrams that have arrived are in the socket, with their senders; what is sent is logged with the destination.\<close>

record udp_socket =
  us_open :: bool
  us_connected :: bool
  us_remote :: "asio_endpoint option"
  us_arrived :: "(string \<times> asio_endpoint) list"
  us_sent :: "(string \<times> asio_endpoint) list"

definition udp_bind_ops :: "udp_bind_options \<Rightarrow> asio_endpoint \<Rightarrow> socket_op list" where
  "udp_bind_ops options ep =
     [Op_open (endpoint_v6 ep)] @ (if ub_reuse_addr options then [Op_reuse_address] else [])
       @ (if ub_ipv6_only options \<and> endpoint_v6 ep then [Op_v6_only] else [])
       @ (if ub_reuse_port options then [Op_reuse_port] else []) @ [Op_bind ep]"

definition udp_bind_endpoint ::
  "(socket_op \<Rightarrow> (unit, 'w) net_call) \<Rightarrow> udp_bind_options \<Rightarrow> socket_address \<Rightarrow> (udp_socket, 'w) net_call" where
  "udp_bind_endpoint sys options a w =
     (case to_endpoint a of
        Inl e \<Rightarrow> (Inl e, w)
      | Inr ep \<Rightarrow>
          (case do_all sys (udp_bind_ops options ep) w of
             (Inl e, w') \<Rightarrow> (Inl e, w')
           | (Inr _, w') \<Rightarrow> (Inr \<lparr>us_open = True, us_connected = False, us_remote = None, us_arrived = [], us_sent = []\<rparr>, w')))"

fun udp_bind_loop ::
  "(socket_op \<Rightarrow> (unit, 'w) net_call) \<Rightarrow> udp_bind_options \<Rightarrow> socket_address list \<Rightarrow> string option \<Rightarrow> (udp_socket, 'w) net_call" where
  "udp_bind_loop sys options [] last_error w =
     (case last_error of Some e \<Rightarrow> (Inl e, w) | None \<Rightarrow> (Inl ''unable to bind UDP socket'', w))"
| "udp_bind_loop sys options (endpoint # rest) last_error w =
     (case udp_bind_endpoint sys options endpoint w of
        (Inr s, w') \<Rightarrow> (Inr s, w')
      | (Inl e, w') \<Rightarrow> udp_bind_loop sys options rest (Some e) w')"

definition udp_bind ::
  "'w resolver \<Rightarrow> (socket_op \<Rightarrow> (unit, 'w) net_call) \<Rightarrow> string \<Rightarrow> int \<Rightarrow> udp_bind_options \<Rightarrow> (udp_socket, 'w) net_call" where
  "udp_bind rs sys host port options w =
     (case resolve_port rs host port \<lparr>ro_family = ub_family options, ro_passive = True, ro_transport = Transport_udp\<rparr> w of
        (Inl e, w') \<Rightarrow> (Inl e, w')
      | (Inr endpoints, w') \<Rightarrow> udp_bind_loop sys options endpoints None w')"

definition udp_connect_endpoint :: "(asio_endpoint \<Rightarrow> (unit, 'w) net_call) \<Rightarrow> socket_address \<Rightarrow> (udp_socket, 'w) net_call" where
  "udp_connect_endpoint connect a w =
     (case to_endpoint a of
        Inl e \<Rightarrow> (Inl e, w)
      | Inr ep \<Rightarrow>
          (case connect ep w of
             (Inl e, w') \<Rightarrow> (Inl e, w')
           | (Inr _, w') \<Rightarrow> (Inr \<lparr>us_open = True, us_connected = True, us_remote = Some ep, us_arrived = [], us_sent = []\<rparr>, w')))"

fun udp_connect_loop :: "(asio_endpoint \<Rightarrow> (unit, 'w) net_call) \<Rightarrow> socket_address list \<Rightarrow> string option \<Rightarrow> (udp_socket, 'w) net_call" where
  "udp_connect_loop connect [] last_error w =
     (case last_error of Some e \<Rightarrow> (Inl e, w) | None \<Rightarrow> (Inl ''no UDP endpoint resolved'', w))"
| "udp_connect_loop connect (endpoint # rest) last_error w =
     (case udp_connect_endpoint connect endpoint w of
        (Inr s, w') \<Rightarrow> (Inr s, w')
      | (Inl e, w') \<Rightarrow> udp_connect_loop connect rest (Some e) w')"

definition udp_connect ::
  "'w resolver \<Rightarrow> (asio_endpoint \<Rightarrow> (unit, 'w) net_call) \<Rightarrow> string \<Rightarrow> int \<Rightarrow> address_family \<Rightarrow> (udp_socket, 'w) net_call" where
  "udp_connect rs connect host port family w =
     (case resolve_udp rs host port family w of
        (Inl e, w') \<Rightarrow> (Inl e, w')
      | (Inr endpoints, w') \<Rightarrow> udp_connect_loop connect endpoints None w')"

interpretation tcl: endpoint_search "tcp_connect_loop connect family" "\<lambda>a. \<not> family_matches a family" "tcp_connect_endpoint connect"
  "''no TCP endpoint resolved''" for connect family
  by unfold_locales (auto split: option.splits)

interpretation tbl: endpoint_search "tcp_bind_loop sys local_port options" "\<lambda>_. False" "tcp_bind_endpoint sys local_port options"
  "''unable to bind TCP listener''" for sys local_port options
  by unfold_locales (auto split: option.splits)

interpretation ubl: endpoint_search "udp_bind_loop sys options" "\<lambda>_. False" "udp_bind_endpoint sys options"
  "''unable to bind UDP socket''" for sys options
  by unfold_locales (auto split: option.splits)

interpretation ucl: endpoint_search "udp_connect_loop connect" "\<lambda>_. False" "udp_connect_endpoint connect"
  "''no UDP endpoint resolved''" for connect
  by unfold_locales (auto split: option.splits)

text \<open>
  \<open>TcpClient::connect\<close> connects to the first of the resolved endpoints that has the requested family and accepts, and tries none
  after it; when every one of them fails it throws the exception of the last, and the world has seen exactly these
  attempts.\<close>

theorem tcp_connect_first:
  assumes "resolve_tcp rs host port family w = (Inr endpoints, w0)"
  shows "(fst (tcp_connect rs connect host port family w) = Inr s \<longleftrightarrow>
        (\<exists>es1 e es2 errs w1. endpoints = es1 @ e # es2 \<and> family_matches e family
           \<and> all_fail (\<lambda>a. \<not> family_matches a family) (tcp_connect_endpoint connect) es1 w0 = Some (errs, w1)
           \<and> fst (tcp_connect_endpoint connect e w1) = Inr s
           \<and> tcp_connect rs connect host port family w = tcp_connect_endpoint connect e w1))
    \<and> (all_fail (\<lambda>a. \<not> family_matches a family) (tcp_connect_endpoint connect) endpoints w0 = Some (errs, w') \<longrightarrow>
        tcp_connect rs connect host port family w = (Inl (if errs = [] then ''no TCP endpoint resolved'' else last errs), w'))"
proof -
  have "tcp_connect rs connect host port family w = tcp_connect_loop connect family endpoints None w0" by (simp add: tcp_connect_def assms)
  then show ?thesis using tcl.loop_finds_first [of connect family endpoints w0 s] tcl.loop_error_last [of family connect endpoints w0 errs w'] by simp
qed

text \<open>A world that lists the attempts, and a resolver of three endpoints.\<close>

definition sample_endpoints :: "asio_endpoint list" where
  "sample_endpoints = [(Ip_v6 (replicate 15 0 @ [1]) 0, 80), (Ip_v4 [127, 0, 0, 1], 80), (Ip_v4 [127, 0, 0, 2], 80)]"

definition sample_resolver :: "asio_endpoint list resolver" where
  "sample_resolver _ _ _ _ w = (Inr sample_endpoints, w)"

lemma sample_resolver_resolves:
  "resolve_tcp sample_resolver host port family w = (Inr (map from_endpoint sample_endpoints), w)"
  "resolve_port sample_resolver host port options w = (Inr (map from_endpoint sample_endpoints), w)"
  by (simp_all add: resolve_tcp_def resolve_port_def resolve_def sample_resolver_def)

theorem tcp_connect_first_witness:
  "tcp_connect sample_resolver (\<lambda>ep w. (Inl ''refused'' :: string + nat, w @ [ep])) ''localhost'' 80 Ipv4 []
     = (Inl ''refused'', [(Ip_v4 [127, 0, 0, 1], 80), (Ip_v4 [127, 0, 0, 2], 80)])"
proof -
  let ?connect = "\<lambda>ep w. (Inl ''refused'' :: string + nat, w @ [ep])"
  have "all_fail (\<lambda>a. \<not> family_matches a Ipv4) (tcp_connect_endpoint ?connect) (map from_endpoint sample_endpoints) []
      = Some ([''refused'', ''refused''], [(Ip_v4 [127, 0, 0, 1], 80), (Ip_v4 [127, 0, 0, 2], 80)])"
    by code_simp
  with tcp_connect_first [OF sample_resolver_resolves(1) [of "''localhost''" 80 Ipv4 "[]"], of ?connect] show ?thesis by simp
qed

text \<open>
  The family is a hint to the resolver and no more: only \<open>TcpClient::connect\<close> checks it. A listener that asks for IPv4 is bound to the
  first endpoint that works, whatever its family.\<close>

theorem tcp_bind_ignores_family:
  "tcp_bind sample_resolver (\<lambda>c w. (Inr (), case c of Op_bind ep \<Rightarrow> w @ [ep] | _ \<Rightarrow> w)) (\<lambda>_. 80) ''localhost'' 80
     \<lparr>tb_backlog = 128, tb_family = Ipv4, tb_ipv6_only = False, tb_reuse_port = False\<rparr> []
   = (Inr \<lparr>tl_open = True, tl_bound_port = 80\<rparr>, [(Ip_v6 (replicate 15 0 @ [1]) 0, 80)])"
  by code_simp

text \<open>The listener does not look at the option \<open>reuse_port\<close>.\<close>

lemma tcp_bind_ignores_reuse_port: "tcp_bind_ops (options\<lparr>tb_reuse_port := b\<rparr>) = tcp_bind_ops options"
  by (simp add: tcp_bind_ops_def fun_eq_iff)

datatype 'a net_outcome = Got 'a | Threw string | Waits

definition udp_send :: "string \<Rightarrow> udp_socket \<Rightarrow> nat net_outcome \<times> udp_socket" where
  "udp_send data s =
     (if \<not> us_open s \<or> \<not> us_connected s then (Threw ''UdpSocket::send requires a connected socket'', s)
      else if data = [] then (Got 0, s)
      else (Got (length data), s\<lparr>us_sent := us_sent s @ [(data, the (us_remote s))]\<rparr>))"

definition udp_send_to :: "string \<Rightarrow> socket_address \<Rightarrow> udp_socket \<Rightarrow> nat net_outcome \<times> udp_socket" where
  "udp_send_to data a s =
     (if \<not> us_open s then (Threw ''UdpSocket is not valid'', s)
      else if data = [] then (Got 0, s)
      else case to_endpoint a of
        Inl e \<Rightarrow> (Threw e, s)
      | Inr ep \<Rightarrow> (Got (length data), s\<lparr>us_sent := us_sent s @ [(data, ep)]\<rparr>))"

text \<open>A receive takes one datagram and cuts it to the size of the buffer. The result has the sender only if it did receive.\<close>

definition udp_receive_from :: "nat \<Rightarrow> udp_socket \<Rightarrow> (string \<times> socket_address) net_outcome \<times> udp_socket" where
  "udp_receive_from n s =
     (if \<not> us_open s then (Threw ''UdpSocket is not valid'', s)
      else if n = 0 then (Got ([], socket_address_new None 0), s)
      else case us_arrived s of
        [] \<Rightarrow> (Waits, s)
      | (data, ep) # rest \<Rightarrow> (Got (take n data, from_endpoint ep), s\<lparr>us_arrived := rest\<rparr>))"

definition udp_receive :: "nat \<Rightarrow> udp_socket \<Rightarrow> string net_outcome \<times> udp_socket" where
  "udp_receive n s =
     (if n = 0 then (Got [], s)
      else if \<not> us_open s then (Threw ''UdpSocket is not valid'', s)
      else if \<not> us_connected s then
        (case udp_receive_from n s of
           (Got (data, _), s') \<Rightarrow> (Got data, s')
         | (Threw e, s') \<Rightarrow> (Threw e, s')
         | (Waits, s') \<Rightarrow> (Waits, s'))
      else case us_arrived s of [] \<Rightarrow> (Waits, s) | (data, _) # rest \<Rightarrow> (Got (take n data), s\<lparr>us_arrived := rest\<rparr>))"

definition udp_next :: "nat \<Rightarrow> udp_socket \<Rightarrow> (string \<times> socket_address) option net_outcome \<times> udp_socket" where
  "udp_next n s =
     (if \<not> us_open s then (Got None, s)
      else case udp_receive_from n s of
        (Got d, s') \<Rightarrow> (Got (Some d), s')
      | (Threw e, s') \<Rightarrow> (Threw e, s')
      | (Waits, s') \<Rightarrow> (Waits, s'))"

fun udp_receive_many :: "nat list \<Rightarrow> udp_socket \<Rightarrow> string list \<times> udp_socket" where
  "udp_receive_many [] s = ([], s)"
| "udp_receive_many (n # ns) s =
     (case udp_receive n s of (Got d, s') \<Rightarrow> (case udp_receive_many ns s' of (ds, s2) \<Rightarrow> (d # ds, s2)) | (_, s') \<Rightarrow> ([], s'))"

text \<open>
  UDP keeps datagrams apart: as many receives with buffers as there are datagrams return them one by one in the order of their
  arrival, each cut to the size of its buffer, on connected sockets and on others.\<close>

theorem udp_one_datagram_each:
  assumes "us_open s" and "\<forall>n \<in> set ns. 0 < n" and "length ns \<le> length (us_arrived s)"
  shows "udp_receive_many ns s = (map2 take ns (map fst (us_arrived s)), s\<lparr>us_arrived := drop (length ns) (us_arrived s)\<rparr>)"
  using assms
proof (induction ns arbitrary: s)
  case (Cons n ns)
  then obtain data ep rest where a: "us_arrived s = (data, ep) # rest" by (cases "us_arrived s") auto
  have "udp_receive n s = (Got (take n data), s\<lparr>us_arrived := rest\<rparr>)" using Cons.prems a by (simp add: udp_receive_def udp_receive_from_def)
  with Cons.IH [of "s\<lparr>us_arrived := rest\<rparr>"] Cons.prems a show ?case by simp
qed simp

theorem udp_one_datagram_each_witness:
  "fst (udp_receive_many [3, 9] \<lparr>us_open = True, us_connected = False, us_remote = None,
     us_arrived = [(''hello'', (Ip_v4 [10, 0, 0, 1], 53)), (''you'', (Ip_v4 [10, 0, 0, 2], 53))], us_sent = []\<rparr>) = [''hel'', ''you'']"
  by (subst udp_one_datagram_each) simp_all

section \<open>TCP clients\<close>

text \<open>How the peer's stream ends after the segments that have arrived; \<open>None\<close> if it has not ended.\<close>

datatype stream_end = End_eof | End_error string

record tcp_client =
  tc_open :: bool
  tc_eof :: bool
  tc_segments :: "string list"
  tc_end :: "stream_end option"
  tc_sent :: string

definition tcp_client_new :: "string list \<Rightarrow> stream_end option \<Rightarrow> tcp_client" where
  "tcp_client_new segments ends = \<lparr>tc_open = True, tc_eof = False, tc_segments = segments, tc_end = ends, tc_sent = []\<rparr>"

text \<open>\<open>async_read_some\<close> takes from the next segment what fits into the buffer.\<close>

definition socket_read :: "nat \<Rightarrow> tcp_client \<Rightarrow> (string + stream_end) option \<times> tcp_client" where
  "socket_read n c =
     (case tc_segments c of
        [] \<Rightarrow> (map_option Inr (tc_end c), c)
      | x # xs \<Rightarrow> (Some (Inl (take n x)), c\<lparr>tc_segments := (if length x \<le> n then xs else drop n x # xs)\<rparr>))"

definition tcp_read_some :: "nat \<Rightarrow> tcp_client \<Rightarrow> string net_outcome \<times> tcp_client" where
  "tcp_read_some n c =
     (if \<not> tc_open c then (Threw ''TcpClient is not connected'', c)
      else if n = 0 then (Got [], c)
      else case socket_read n c of
        (None, c') \<Rightarrow> (Waits, c')
      | (Some (Inl bs), c') \<Rightarrow> if bs = [] then (Got [], c'\<lparr>tc_eof := True\<rparr>) else (Got bs, c')
      | (Some (Inr End_eof), c') \<Rightarrow> (Got [], c'\<lparr>tc_eof := True\<rparr>)
      | (Some (Inr (End_error e)), c') \<Rightarrow> (Threw e, c'))"

text \<open>\<open>read_some(max_bytes)\<close> does not look at the socket when it has no room.\<close>

definition tcp_read_string :: "nat \<Rightarrow> tcp_client \<Rightarrow> string net_outcome \<times> tcp_client" where
  "tcp_read_string max_bytes c = (if max_bytes = 0 then (Got [], c) else tcp_read_some max_bytes c)"

text \<open>\<open>asio::async_read\<close> reads until the buffer is full: the bytes, the segments left, and how many bytes are missing.\<close>

fun read_full :: "nat \<Rightarrow> string list \<Rightarrow> string \<times> string list \<times> nat" where
  "read_full n [] = ([], [], n)"
| "read_full n (x # xs) =
     (if n = 0 then ([], x # xs, 0)
      else if length x \<le> n then (case read_full (n - length x) xs of (bs, rest, missing) \<Rightarrow> (x @ bs, rest, missing))
      else (take n x, drop n x # xs, 0))"

definition tcp_read_exactly :: "nat \<Rightarrow> tcp_client \<Rightarrow> string net_outcome \<times> tcp_client" where
  "tcp_read_exactly n c =
     (if n = 0 then (Got [], c)
      else if \<not> tc_open c then (Threw ''TcpClient is not connected'', c)
      else case read_full n (tc_segments c) of
        (bs, rest, missing) \<Rightarrow>
          if missing = 0 then (Got bs, c\<lparr>tc_segments := rest\<rparr>)
          else (case tc_end c of
                  None \<Rightarrow> (Waits, c)
                | Some End_eof \<Rightarrow> (Threw ''End of file'', c\<lparr>tc_segments := rest, tc_eof := True\<rparr>)
                | Some (End_error e) \<Rightarrow> (Threw e, c\<lparr>tc_segments := rest\<rparr>)))"

partial_function (option) read_all_loop :: "nat \<Rightarrow> string \<Rightarrow> tcp_client \<Rightarrow> (string net_outcome \<times> tcp_client) option" where
  "read_all_loop chunk_size data c =
     (case tcp_read_some chunk_size c of
        (Got bs, c') \<Rightarrow> if bs = [] \<and> tc_eof c' then Some (Got data, c') else read_all_loop chunk_size (data @ bs) c'
      | (Threw e, c') \<Rightarrow> Some (Threw e, c')
      | (Waits, c') \<Rightarrow> Some (Waits, c'))"

definition tcp_read_all :: "nat \<Rightarrow> tcp_client \<Rightarrow> (string net_outcome \<times> tcp_client) option" where
  "tcp_read_all chunk_size c = (if chunk_size = 0 then Some (Got [], c) else read_all_loop chunk_size [] c)"

definition tcp_next :: "nat \<Rightarrow> tcp_client \<Rightarrow> string option net_outcome \<times> tcp_client" where
  "tcp_next max_bytes c =
     (if \<not> tc_open c then (Got None, c)
      else case tcp_read_string max_bytes c of
        (Got chunk, c') \<Rightarrow> (Got (if chunk = [] \<and> tc_eof c' then None else Some chunk), c')
      | (Threw e, c') \<Rightarrow> (Threw e, c')
      | (Waits, c') \<Rightarrow> (Waits, c'))"

text \<open>\<open>taken\<close> is what \<open>async_write_some\<close> reports.\<close>

definition tcp_write :: "nat \<Rightarrow> string \<Rightarrow> tcp_client \<Rightarrow> nat net_outcome \<times> tcp_client" where
  "tcp_write taken data c =
     (if \<not> tc_open c then (Threw ''TcpClient is not connected'', c)
      else if data = [] then (Got 0, c)
      else (Got (min taken (length data)), c\<lparr>tc_sent := tc_sent c @ take taken data\<rparr>))"

definition tcp_write_all :: "string \<Rightarrow> tcp_client \<Rightarrow> nat net_outcome \<times> tcp_client" where
  "tcp_write_all data c =
     (if \<not> tc_open c then (Threw ''TcpClient is not connected'', c)
      else if data = [] then (Got 0, c)
      else (Got (length data), c\<lparr>tc_sent := tc_sent c @ data\<rparr>))"

definition tcp_close :: "tcp_client \<Rightarrow> tcp_client" where
  "tcp_close c = c\<lparr>tc_open := False, tc_eof := True\<rparr>"

lemma read_full_split:
  "read_full n xs = (bs, rest, missing) \<Longrightarrow> bs @ concat rest = concat xs \<and> length bs + missing = n \<and> (missing \<noteq> 0 \<longrightarrow> rest = [])"
  by (induction n xs arbitrary: bs rest missing rule: read_full.induct) (auto split: if_splits prod.splits)

lemma tcp_read_some_split:
  assumes "tcp_read_some n c = (Got bs, c')"
  shows "bs @ concat (tc_segments c') = concat (tc_segments c)" "length bs \<le> n" "tc_open c' = tc_open c" "tc_end c' = tc_end c"
  using assms by (auto simp: tcp_read_some_def socket_read_def split: if_splits list.splits option.splits sum.splits stream_end.splits)

lemma tcp_read_exactly_split:
  assumes "tcp_read_exactly n c = (Got bs, c')"
  shows "bs @ concat (tc_segments c') = concat (tc_segments c)" "length bs = n"
  using assms read_full_split [of n "tc_segments c"]
  by (auto simp: tcp_read_exactly_def split: if_splits prod.splits option.splits stream_end.splits)

datatype read_call = Read_string nat | Read_exact nat | Read_next nat

fun do_read :: "read_call \<Rightarrow> tcp_client \<Rightarrow> string net_outcome \<times> tcp_client" where
  "do_read (Read_string n) c = tcp_read_string n c"
| "do_read (Read_exact n) c = tcp_read_exactly n c"
| "do_read (Read_next n) c =
     (case tcp_next n c of (Got None, c') \<Rightarrow> (Got [], c') | (Got (Some bs), c') \<Rightarrow> (Got bs, c') | (Threw e, c') \<Rightarrow> (Threw e, c') | (Waits, c') \<Rightarrow> (Waits, c'))"

text \<open>A sequence of reads up to the first that throws or waits: what they return, and the client if none does.\<close>

fun tcp_reads :: "read_call list \<Rightarrow> tcp_client \<Rightarrow> string list \<times> tcp_client option" where
  "tcp_reads [] c = ([], Some c)"
| "tcp_reads (r # rs) c =
     (case do_read r c of (Got bs, c') \<Rightarrow> (case tcp_reads rs c' of (bss, c2) \<Rightarrow> (bs # bss, c2)) | _ \<Rightarrow> ([], None))"

lemma do_read_split: "do_read r c = (Got bs, c') \<Longrightarrow> bs @ concat (tc_segments c') = concat (tc_segments c)"
  by (cases r)
    (auto simp: tcp_next_def tcp_read_string_def dest: tcp_read_some_split(1) tcp_read_exactly_split(1)
      split: if_splits prod.splits net_outcome.splits option.splits)

text \<open>
  A TCP client reads its peer's bytes in order, none twice and none left out: whatever mixture of \<open>read_some\<close>, \<open>read_exactly\<close> and
  \<open>next\<close> is called with whatever sizes, what the calls return, one after the other, is a beginning of what the peer sent,
  and what follows it is what is still unread.\<close>

theorem tcp_reads_in_order:
  assumes "tcp_reads calls c = (bss, r)"
  shows "(case r of Some c' \<Rightarrow> concat bss @ concat (tc_segments c') = concat (tc_segments c)
    | None \<Rightarrow> \<exists>rest. concat bss @ rest = concat (tc_segments c))"
  using assms
proof (induction calls arbitrary: c bss)
  case (Cons a calls)
  show ?case
  proof (cases "do_read a c")
    case (Pair o' c1)
    show ?thesis
    proof (cases o')
      case (Got bs)
      obtain bss1 r1 where rs: "tcp_reads calls c1 = (bss1, r1)" by fastforce
      have eq: "bss = bs # bss1" "r = r1" using Cons.prems Pair Got rs by auto
      have bs: "bs @ concat (tc_segments c1) = concat (tc_segments c)" using do_read_split Pair Got by simp
      show ?thesis using Cons.IH [OF rs [folded eq(2)]] unfolding eq(1) bs [symmetric] by (cases r) auto
    qed (use Cons.prems Pair in auto)
  qed
qed auto

lemma read_all_loop_returns:
  assumes "0 < n" "tc_open c" "[] \<notin> set (tc_segments c)" "tc_end c = Some e"
  shows "read_all_loop n data c = Some (case e of End_eof \<Rightarrow> (Got (data @ concat (tc_segments c)), c\<lparr>tc_segments := [], tc_eof := True\<rparr>)
    | End_error err \<Rightarrow> (Threw err, c\<lparr>tc_segments := []\<rparr>))"
  using assms
proof (induction "length (concat (tc_segments c))" arbitrary: c data rule: less_induct)
  case less
  show ?case
  proof (cases "tc_segments c")
    case Nil
    with less.prems show ?thesis
      by (subst read_all_loop.simps) (auto simp: tcp_read_some_def socket_read_def split: stream_end.splits)
  next
    case (Cons x xs)
    let ?c = "c\<lparr>tc_segments := (if length x \<le> n then xs else drop n x # xs)\<rparr>"
    have "tcp_read_some n c = (Got (take n x), ?c)" "take n x \<noteq> []"
      using less.prems Cons by (auto simp: tcp_read_some_def socket_read_def)
    then have "read_all_loop n data c = read_all_loop n (data @ take n x) ?c" by (subst read_all_loop.simps) simp
    moreover have "length (concat (tc_segments ?c)) < length (concat (tc_segments c))" using less.prems Cons by auto
    ultimately show ?thesis using less.hyps [of ?c "data @ take n x"] less.prems Cons by (auto split: stream_end.splits)
  qed
qed

text \<open>
  \<open>read_all\<close> returns, with everything the peer sent before it closed the stream, whatever the size of the chunks (except zero) and
  however the bytes were cut into segments; on a failing stream it throws.\<close>

theorem tcp_read_all_complete:
  assumes "0 < chunk_size" and "tc_open c" and "[] \<notin> set (tc_segments c)" and "tc_end c = Some e"
  shows "tcp_read_all chunk_size c = Some (case e of
      End_eof \<Rightarrow> (Got (concat (tc_segments c)), c\<lparr>tc_segments := [], tc_eof := True\<rparr>)
    | End_error err \<Rightarrow> (Threw err, c\<lparr>tc_segments := []\<rparr>))"
  using read_all_loop_returns [OF assms, of "[]"] assms(1) by (cases e) (simp_all add: tcp_read_all_def)

theorem tcp_reads_in_order_witness:
  "\<exists>c'. tcp_reads [Read_string 3, Read_exact 4, Read_next 9] (tcp_client_new [''hello'', ''world''] None) = ([''hel'', ''lowo'', ''rld''], Some c')
     \<and> concat (tc_segments c') = []"
proof -
  let ?c = "tcp_client_new [''hello'', ''world''] None" and ?calls = "[Read_string 3, Read_exact 4, Read_next 9]"
  have "fst (tcp_reads ?calls ?c) = [''hel'', ''lowo'', ''rld'']" "snd (tcp_reads ?calls ?c) \<noteq> None" by code_simp+
  then obtain c' where "tcp_reads ?calls ?c = ([''hel'', ''lowo'', ''rld''], Some c')" by (cases "tcp_reads ?calls ?c") auto
  with tcp_reads_in_order [OF this] show ?thesis by (auto simp: tcp_client_new_def)
qed

theorem tcp_read_all_complete_witness:
  "map_option fst (tcp_read_all 4 (tcp_client_new [''hello'', ''world''] (Some End_eof))) = Some (Got ''helloworld'')"
  using tcp_read_all_complete [of 4 "tcp_client_new [''hello'', ''world''] (Some End_eof)" End_eof] by (simp add: tcp_client_new_def)

text \<open>
  With chunks of size zero the stream of chunks never ends, even after the peer has closed its side: the socket is not looked
  at, so that the end of the file is never noticed.\<close>

theorem zero_chunks_never_end:
  assumes "tc_open c" and "\<not> tc_eof c"
  shows "tcp_next 0 c = (Got (Some []), c)"
  using assms by (simp add: tcp_next_def tcp_read_string_def)

end
