(* ===== verification/Fs_Watch.thy ===== *)
theory Fs_Watch
  imports Prelude "HOL-Library.Word"
begin

unbundle bit_operations_syntax

text \<open>
  The watcher of files and directories (\<open>src/watch.cpp\<close>, \<open>include/flux/watch.h\<close>): the bytes that are read from an \<open>inotify\<close> descriptor are
  collected in a buffer and cut into events. The buffer is a vector of characters, modelled as the memory it owns and its
  size, because the code goes on reading through a pointer into it after the vector has been changed. Reads, the
  information on the watched path and its changes come from the world.
\<close>

section \<open>Bytes\<close>

type_synonym octet = "8 word"

definition enc32 :: "32 word \<Rightarrow> octet list" where
  "enc32 w = [ucast w, ucast (drop_bit 8 w), ucast (drop_bit 16 w), ucast (drop_bit 24 w)]"

text \<open>A field of a C structure on a little-endian machine.\<close>

definition read_u32 :: "octet list \<Rightarrow> nat \<Rightarrow> 32 word" where
  "read_u32 mem i =
     ucast (mem ! i) OR push_bit 8 (ucast (mem ! (i + 1))) OR push_bit 16 (ucast (mem ! (i + 2))) OR push_bit 24 (ucast (mem ! (i + 3)))"

lemma enc32_length [simp]: "length (enc32 w) = 4"
  by (simp add: enc32_def)

lemma read_enc32: "read_u32 (enc32 w) 0 = w"
proof (rule bit_word_eqI)
  fix n assume "n < LENGTH(32)"
  then consider "n < 8" | "8 \<le> n" "n < 16" | "16 \<le> n" "n < 24" | "24 \<le> n" "n < 32" by fastforce
  then show "bit (read_u32 (enc32 w) 0) n = bit w n" by cases (auto simp: read_u32_def enc32_def bit_simps)
qed

lemma read_u32_append: "read_u32 (xs @ ys) (length xs + i) = read_u32 ys i"
  by (simp add: read_u32_def nth_append add.assoc)

lemma read_u32_prefix: "i + 3 < length xs \<Longrightarrow> read_u32 (xs @ ys) i = read_u32 xs i"
  by (simp add: read_u32_def nth_append)

section \<open>The buffer\<close>

abbreviation IN_Q_OVERFLOW :: "32 word" where "IN_Q_OVERFLOW \<equiv> 0x4000"

abbreviation IN_IGNORED :: "32 word" where "IN_IGNORED \<equiv> 0x8000"

abbreviation ENOSPC :: int where "ENOSPC \<equiv> 28"

record file_info =
  fi_regular_file :: bool
  fi_directory :: bool
  fi_symlink :: bool
  fi_size :: nat
  fi_last_write_time :: int

record pending_event =
  pe_name :: "octet list"
  pe_status :: int
  pe_mask :: "32 word"
  pe_ignored :: bool

text \<open>\<open>fw_mem\<close> is the memory behind the vector \<open>pending\<close>, which is at least as long as the vector.\<close>

record watch_state =
  fw_path :: string
  fw_mem :: "octet list"
  fw_size :: nat
  fw_offset :: nat
  fw_snapshot :: "file_info option"
  fw_running :: bool

definition watch_new :: "string \<Rightarrow> file_info option \<Rightarrow> watch_state" where
  "watch_new path initial = \<lparr>fw_path = path, fw_mem = [], fw_size = 0, fw_offset = 0, fw_snapshot = initial, fw_running = True\<rparr>"

definition normalize_inotify_name :: "octet list \<Rightarrow> octet list" where
  "normalize_inotify_name name = takeWhile (\<lambda>b. b \<noteq> 0) name"

text \<open>\<open>insert\<close> at the end, \<open>clear\<close>, and \<open>erase\<close> at the front, which moves the rest and leaves the bytes behind the new end as they
  are.\<close>

definition vec_append :: "octet list \<Rightarrow> watch_state \<Rightarrow> watch_state" where
  "vec_append chunk s =
     s\<lparr>fw_mem := take (fw_size s) (fw_mem s) @ chunk @ drop (fw_size s + length chunk) (fw_mem s), fw_size := fw_size s + length chunk\<rparr>"

definition vec_erase_front :: "nat \<Rightarrow> watch_state \<Rightarrow> watch_state" where
  "vec_erase_front n s =
     s\<lparr>fw_mem := drop n (take (fw_size s) (fw_mem s)) @ drop (fw_size s - n) (fw_mem s), fw_size := fw_size s - n\<rparr>"

definition consume :: "nat \<Rightarrow> watch_state \<Rightarrow> watch_state" where
  "consume event_size s =
     (let offset = fw_offset s + event_size in
      if offset \<ge> fw_size s then s\<lparr>fw_size := 0, fw_offset := 0\<rparr>
      else if offset > 2048 then (vec_erase_front offset s)\<lparr>fw_offset := 0\<rparr>
      else s\<lparr>fw_offset := offset\<rparr>)"

text \<open>The event is read through a pointer into the buffer; the last field is read through it after the event has been consumed.\<close>

definition try_pop_pending_event_locked :: "watch_state \<Rightarrow> pending_event option \<times> watch_state" where
  "try_pop_pending_event_locked s =
     (let available = fw_size s - fw_offset s in
      if available < 16 then (None, s)
      else
        let raw = fw_offset s; len = unat (read_u32 (fw_mem s) (raw + 12)); event_size = 16 + len in
        if available < event_size then (None, s)
        else
          let mask = read_u32 (fw_mem s) (raw + 4); s' = consume event_size s in
          (Some \<lparr>pe_name = normalize_inotify_name (take len (drop (raw + 16) (fw_mem s))),
                 pe_status = (if mask AND IN_Q_OVERFLOW \<noteq> 0 then ENOSPC else 0),
                 pe_mask = mask,
                 pe_ignored = (read_u32 (fw_mem s') (raw + 4) AND IN_IGNORED \<noteq> 0)\<rparr>, s'))"

section \<open>The watcher\<close>

record watch_result =
  wr_path :: string
  wr_name :: "octet list"
  wr_status :: int
  wr_mask :: "32 word"
  wr_previous :: "file_info option"
  wr_current :: "file_info option"

definition watch_modified :: "watch_result \<Rightarrow> bool" where
  "watch_modified r \<longleftrightarrow> wr_mask r AND (0x2 OR 0x4 OR 0x8) \<noteq> 0"

definition watch_renamed :: "watch_result \<Rightarrow> bool" where
  "watch_renamed r \<longleftrightarrow> wr_mask r AND (0x40 OR 0x80 OR 0x800) \<noteq> 0"

definition watch_removed :: "watch_result \<Rightarrow> bool" where
  "watch_removed r \<longleftrightarrow> wr_mask r AND (0x200 OR 0x400) \<noteq> 0"

text \<open>An event that was taken is completed with the information on the path before and now.\<close>

definition report_event :: "pending_event \<Rightarrow> file_info option \<Rightarrow> file_info option \<Rightarrow> watch_state \<Rightarrow> watch_result \<times> watch_state" where
  "report_event ev previous current s =
     (\<lparr>wr_path = fw_path s, wr_name = pe_name ev, wr_status = pe_status ev, wr_mask = pe_mask ev, wr_previous = previous, wr_current = current\<rparr>,
      s\<lparr>fw_snapshot := current, fw_running := fw_running s \<and> \<not> pe_ignored ev\<rparr>)"

datatype watch_read = Read_bytes "octet list" | Read_aborted | Read_failed string

datatype next_outcome = Next_event watch_result | Next_end | Next_threw string | Next_waits

text \<open>\<open>next\<close>, over the reads to come and what the file system says of the path. The watcher may be stopped while a read is
  under way, which aborts the read.\<close>

fun watch_next :: "watch_read list \<Rightarrow> file_info option \<Rightarrow> watch_state \<Rightarrow> next_outcome \<times> watch_read list \<times> watch_state" where
  "watch_next reads current s =
     (if \<not> fw_running s then (Next_end, reads, s)
      else case try_pop_pending_event_locked s of
        (Some ev, s') \<Rightarrow> (case report_event ev (fw_snapshot s') current s' of (r, s2) \<Rightarrow> (Next_event r, reads, s2))
      | (None, _) \<Rightarrow>
          (case reads of
             [] \<Rightarrow> (Next_waits, [], s)
           | Read_aborted # reads' \<Rightarrow> (Next_end, reads', s)
           | Read_failed e # reads' \<Rightarrow> (Next_threw e, reads', s)
           | Read_bytes chunk # reads' \<Rightarrow>
               if chunk = [] then watch_next reads' current s
               else (case try_pop_pending_event_locked (vec_append chunk s) of
                       (Some ev, s') \<Rightarrow> (case report_event ev (fw_snapshot s') current s' of (r, s2) \<Rightarrow> (Next_event r, reads', s2))
                     | (None, s') \<Rightarrow> watch_next reads' current s')))"

definition watch_stop :: "watch_state \<Rightarrow> watch_state" where
  "watch_stop s = s\<lparr>fw_running := False\<rparr>"

section \<open>Events in order\<close>

record inotify_event =
  ie_wd :: "32 word"
  ie_mask :: "32 word"
  ie_cookie :: "32 word"
  ie_name :: "octet list"

definition encode :: "inotify_event \<Rightarrow> octet list" where
  "encode e = enc32 (ie_wd e) @ enc32 (ie_mask e) @ enc32 (ie_cookie e) @ enc32 (of_nat (length (ie_name e))) @ ie_name e"

definition event_ok :: "inotify_event \<Rightarrow> bool" where
  "event_ok e \<longleftrightarrow> length (ie_name e) < 2 ^ 32"

definition buffer_ok :: "watch_state \<Rightarrow> bool" where
  "buffer_ok s \<longleftrightarrow> fw_offset s \<le> fw_size s \<and> fw_size s \<le> length (fw_mem s)"

text \<open>The bytes that are still to be read.\<close>

definition unread :: "watch_state \<Rightarrow> octet list" where
  "unread s = drop (fw_offset s) (take (fw_size s) (fw_mem s))"

lemma unread_length: "buffer_ok s \<Longrightarrow> length (unread s) = fw_size s - fw_offset s"
  by (simp add: unread_def buffer_ok_def)

lemma unread_append: "buffer_ok s \<Longrightarrow> buffer_ok (vec_append chunk s) \<and> unread (vec_append chunk s) = unread s @ chunk"
  by (auto simp: buffer_ok_def unread_def vec_append_def)

lemma unread_consume:
  assumes "buffer_ok s" "n \<le> length (unread s)"
  shows "buffer_ok (consume n s) \<and> unread (consume n s) = drop n (unread s)"
  using assms by (auto simp: buffer_ok_def unread_def consume_def vec_erase_front_def Let_def add.commute)

lemma unread_mem:
  assumes "buffer_ok s" "i + 3 < length (unread s)"
  shows "read_u32 (fw_mem s) (fw_offset s + i) = read_u32 (unread s) i"
  using assms by (simp add: buffer_ok_def unread_def read_u32_def add.assoc)

lemma encode_fields:
  assumes "event_ok e"
  shows "length (encode e) = 16 + length (ie_name e)" "read_u32 (encode e @ rest) 4 = ie_mask e"
    "unat (read_u32 (encode e @ rest) 12) = length (ie_name e)" "take (length (ie_name e)) (drop 16 (encode e @ rest)) = ie_name e"
proof -
  show "length (encode e) = 16 + length (ie_name e)" by (simp add: encode_def)
  show "read_u32 (encode e @ rest) 4 = ie_mask e"
    using read_u32_append [of "enc32 (ie_wd e)" _ 0] read_u32_prefix [of 0 "enc32 (ie_mask e)"] by (simp add: encode_def read_enc32)
  have "read_u32 (encode e @ rest) 12 = of_nat (length (ie_name e))"
    using read_u32_append [of "enc32 (ie_wd e) @ enc32 (ie_mask e) @ enc32 (ie_cookie e)" _ 0]
      read_u32_prefix [of 0 "enc32 (of_nat (length (ie_name e)))"] by (simp add: encode_def read_enc32)
  then show "unat (read_u32 (encode e @ rest) 12) = length (ie_name e)" using assms by (simp add: event_ok_def unat_of_nat take_bit_nat_eq_self)
  show "take (length (ie_name e)) (drop 16 (encode e @ rest)) = ie_name e" by (simp add: encode_def)
qed

definition seen :: "inotify_event \<Rightarrow> octet list \<times> 32 word \<times> int" where
  "seen e = (normalize_inotify_name (ie_name e), ie_mask e, if ie_mask e AND IN_Q_OVERFLOW \<noteq> 0 then ENOSPC else 0)"

definition popped :: "pending_event \<Rightarrow> octet list \<times> 32 word \<times> int" where
  "popped ev = (pe_name ev, pe_mask ev, pe_status ev)"

lemma pop_event:
  assumes "buffer_ok s" "event_ok e" "unread s = encode e @ rest"
  shows "\<exists>ev. try_pop_pending_event_locked s = (Some ev, consume (length (encode e)) s) \<and> popped ev = seen e"
proof -
  have l: "16 + length (ie_name e) \<le> length (unread s)" "length (unread s) = fw_size s - fw_offset s"
    using assms(3) encode_fields(1) [OF assms(2)] unread_length [OF assms(1)] by simp_all
  have "read_u32 (fw_mem s) (fw_offset s + 12) = read_u32 (unread s) 12" "read_u32 (fw_mem s) (fw_offset s + 4) = read_u32 (unread s) 4"
    using unread_mem [OF assms(1)] l by simp_all
  moreover have "take (length (ie_name e)) (drop (fw_offset s + 16) (fw_mem s)) = take (length (ie_name e)) (drop 16 (unread s))"
    using l assms(1) by (simp add: unread_def buffer_ok_def take_drop min_def add.commute add.left_commute)
  ultimately show ?thesis
    using encode_fields(1) [OF assms(2)] encode_fields(2-4) [OF assms(2), of rest] l by (simp add: try_pop_pending_event_locked_def Let_def assms(3) popped_def seen_def)
qed

lemma pop_partial:
  assumes "buffer_ok s" "event_ok e" "unread s @ tail = encode e @ rest" "length (unread s) < length (encode e)"
  shows "try_pop_pending_event_locked s = (None, s)"
proof (cases "length (unread s) < 16")
  case False
  have l: "length (unread s) = fw_size s - fw_offset s" using assms(1) by (rule unread_length)
  have "read_u32 (fw_mem s) (fw_offset s + 12) = read_u32 (unread s @ tail) 12"
    using unread_mem [OF assms(1), of 12] read_u32_prefix [of 12 "unread s" tail] False by simp
  then have "unat (read_u32 (fw_mem s) (fw_offset s + 12)) = length (ie_name e)" using encode_fields(3) [OF assms(2)] assms(3) by simp
  then show ?thesis using False l assms(4) encode_fields(1) [OF assms(2)] by (simp add: try_pop_pending_event_locked_def Let_def)
qed (use assms(1) in \<open>simp add: try_pop_pending_event_locked_def unread_def buffer_ok_def\<close>)

lemma pending_cases:
  assumes "buffer_ok s" "\<forall>e \<in> set es. event_ok e" "unread s @ tail = concat (map encode es)"
  obtains (none) "try_pop_pending_event_locked s = (None, s)"
    | (event) e es' ev where "es = e # es'" "try_pop_pending_event_locked s = (Some ev, consume (length (encode e)) s)"
        "popped ev = seen e" "buffer_ok (consume (length (encode e)) s)" "unread (consume (length (encode e)) s) @ tail = concat (map encode es')"
proof (cases es)
  case Nil
  with assms that(1) show ?thesis by (simp add: try_pop_pending_event_locked_def unread_def buffer_ok_def)
next
  case (Cons e es')
  show ?thesis
  proof (cases "length (unread s) < length (encode e)")
    case True
    with pop_partial [OF assms(1), of e tail "concat (map encode es')"] assms(2,3) Cons that(1) show ?thesis by simp
  next
    case False
    define rest where "rest = drop (length (encode e)) (unread s)"
    have "unread s = encode e @ rest" "rest @ tail = concat (map encode es')"
      using arg_cong [OF assms(3), of "take (length (encode e))"] arg_cong [OF assms(3), of "drop (length (encode e))"] False Cons
      by (simp_all add: rest_def) (metis append_take_drop_id)
    moreover obtain ev where "try_pop_pending_event_locked s = (Some ev, consume (length (encode e)) s)" "popped ev = seen e"
      using pop_event [OF assms(1) _ \<open>unread s = encode e @ rest\<close>] assms(2) Cons by auto
    ultimately show ?thesis using that(2) [OF Cons, of ev] unread_consume [OF assms(1), of "length (encode e)"] by simp
  qed
qed

text \<open>The bytes that the reads bring, up to the first that fails.\<close>

fun arriving :: "watch_read list \<Rightarrow> octet list" where
  "arriving (Read_bytes chunk # reads) = chunk @ arriving reads"
| "arriving _ = []"

definition reported :: "watch_result \<Rightarrow> octet list \<times> 32 word \<times> int" where
  "reported r = (wr_name r, wr_mask r, wr_status r)"

lemma report_event_keeps:
  assumes "report_event ev previous current s = (r, s')"
  shows "reported r = popped ev \<and> (buffer_ok s' \<longleftrightarrow> buffer_ok s) \<and> unread s' = unread s \<and> fw_size s' = fw_size s
    \<and> (fw_running s' \<longleftrightarrow> fw_running s \<and> \<not> pe_ignored ev)"
  using assms by (auto simp: report_event_def reported_def popped_def buffer_ok_def unread_def)

lemma watch_next_event:
  assumes "watch_next reads current s = (Next_event r, reads', s')" "buffer_ok s" "\<forall>e \<in> set es. event_ok e"
    and "unread s @ arriving reads @ tail = concat (map encode es)"
  shows "\<exists>e es'. es = e # es' \<and> reported r = seen e \<and> buffer_ok s' \<and> unread s' @ arriving reads' @ tail = concat (map encode es')"
  using assms
proof (induction reads current s rule: watch_next.induct)
  case (1 reads current s)
  show ?case
  proof (cases rule: pending_cases [OF "1.prems"(2,3,4), case_names none event])
    case none
    obtain chunk reads1 where rs: "reads = Read_bytes chunk # reads1" and run: "fw_running s"
      using "1.prems"(1) none by (auto split: if_splits list.splits watch_read.splits)
    show ?thesis
    proof (cases "chunk = []")
      case True
      with "1.IH"(1) [OF _ _ _ rs] "1.prems" none rs run show ?thesis by simp
    next
      case False
      note app = unread_append [OF "1.prems"(2), of chunk]
      have t: "unread (vec_append chunk s) @ arriving reads1 @ tail = concat (map encode es)" using "1.prems"(4) rs app by simp
      show ?thesis
      proof (cases rule: pending_cases [OF conjunct1 [OF app] "1.prems"(3) t, case_names none event])
        case none
        with "1.IH" False "1.prems" \<open>try_pop_pending_event_locked s = (None, s)\<close> rs run app t show ?thesis by simp
      next
        case (event e es' ev)
        with "1.prems"(1) \<open>try_pop_pending_event_locked s = (None, s)\<close> rs run False show ?thesis
          by (auto split: prod.splits dest!: report_event_keeps)
      qed
    qed
  next
    case (event e es' ev)
    with "1.prems"(1) show ?thesis by (auto split: prod.splits if_splits dest!: report_event_keeps)
  qed
qed

text \<open>The results of calling \<open>next\<close> again and again, until it does not return an event. The information on the path may differ each
  time.\<close>

fun nexts :: "nat \<Rightarrow> watch_read list \<Rightarrow> (nat \<Rightarrow> file_info option) \<Rightarrow> watch_state \<Rightarrow> watch_result list" where
  "nexts 0 reads infos s = []"
| "nexts (Suc k) reads infos s =
     (case watch_next reads (infos k) s of (Next_event r, reads', s') \<Rightarrow> r # nexts k reads' infos s' | _ \<Rightarrow> [])"

lemma nexts_prefix:
  assumes "buffer_ok s" "\<forall>e \<in> set es. event_ok e" "unread s @ arriving reads @ tail = concat (map encode es)"
  shows "map reported (nexts k reads infos s) = map seen (take (length (nexts k reads infos s)) es)"
  using assms
proof (induction k arbitrary: reads s es)
  case (Suc k)
  obtain res reads' s' where n: "watch_next reads (infos k) s = (res, reads', s')" by (metis prod_cases3)
  show ?case
  proof (cases res)
    case (Next_event r)
    from watch_next_event [OF n [unfolded Next_event] Suc.prems] obtain e es' where
      e: "es = e # es'" "reported r = seen e" "buffer_ok s'" "unread s' @ arriving reads' @ tail = concat (map encode es')" by blast
    with Suc.IH [OF e(3) _ e(4)] Suc.prems(2) n Next_event show ?thesis by (simp del: watch_next.simps)
  qed (simp_all add: n del: watch_next.simps)
qed simp


text \<open>As long as the buffer is not compacted, the flag that ends the watcher is that of the event.\<close>

lemma ignored_exact:
  assumes "buffer_ok s" "event_ok e" "unread s = encode e @ rest" "fw_size s \<le> 2048"
    and "try_pop_pending_event_locked s = (Some ev, s')"
  shows "pe_ignored ev \<longleftrightarrow> ie_mask e AND IN_IGNORED \<noteq> 0"
proof -
  have "fw_mem (consume n s) = fw_mem s" for n using assms(4) by (auto simp: consume_def Let_def)
  moreover have "read_u32 (fw_mem s) (fw_offset s + 4) = ie_mask e"
    using unread_mem [OF assms(1), of 4] encode_fields(1,2) [OF assms(2)] by (simp add: assms(3) encode_fields(1) [OF assms(2)])
  ultimately show ?thesis using assms(5) by (auto simp: try_pop_pending_event_locked_def Let_def split: if_splits)
qed

lemma consume_size: "fw_size (consume n s) \<le> fw_size s" "fw_running (consume n s) = fw_running s"
  by (auto simp: consume_def vec_erase_front_def Let_def)

text \<open>A call finds the next event if its bytes are here or arrive.\<close>

lemma pop_reports:
  assumes "fw_running s" "buffer_ok s" "event_ok e" "unread s @ tail = encode e @ rest" "\<not> length (unread s) < length (encode e)"
    "fw_size s \<le> 2048" "ie_mask e AND IN_IGNORED = 0"
  obtains ev s1 r s' where "try_pop_pending_event_locked s = (Some ev, s1)" "report_event ev (fw_snapshot s1) current s1 = (r, s')"
    "fw_running s'" "fw_size s' \<le> fw_size s"
proof -
  define rest1 where "rest1 = drop (length (encode e)) (unread s)"
  have u: "unread s = encode e @ rest1"
    using arg_cong [OF assms(4), of "take (length (encode e))"] assms(5) unfolding rest1_def by simp (metis append_take_drop_id)
  obtain ev where ev: "try_pop_pending_event_locked s = (Some ev, consume (length (encode e)) s)"
    using pop_event [OF assms(2,3) u] by blast
  obtain r s' where r: "report_event ev (fw_snapshot (consume (length (encode e)) s)) current (consume (length (encode e)) s) = (r, s')" by fastforce
  show ?thesis
    using that [OF ev r] report_event_keeps [OF r] ignored_exact [OF assms(2,3) u assms(6) ev] assms(1,7) consume_size by auto
qed

lemma watch_next_progress:
  assumes "fw_running s" "buffer_ok s" "event_ok e" "unread s @ arriving reads = encode e @ rest" "fw_size s + length (arriving reads) \<le> 2048"
    "ie_mask e AND IN_IGNORED = 0"
  shows "\<exists>r reads' s'. watch_next reads current s = (Next_event r, reads', s') \<and> fw_running s' \<and> fw_size s' + length (arriving reads') \<le> 2048"
  using assms
proof (induction reads current s rule: watch_next.induct)
  case (1 reads current s)
  show ?case
  proof (cases "length (unread s) < length (encode e)")
    case True
    then have none: "try_pop_pending_event_locked s = (None, s)" by (rule pop_partial [OF "1.prems"(2,3,4)])
    obtain chunk reads1 where rs: "reads = Read_bytes chunk # reads1"
      using "1.prems"(4) True by (cases reads rule: arriving.cases) auto
    let ?s = "vec_append chunk s"
    note app = unread_append [OF "1.prems"(2), of chunk]
    have s: "fw_size ?s + length (arriving reads1) \<le> 2048" "fw_running ?s" "unread ?s @ arriving reads1 = encode e @ rest"
      using "1.prems"(1,4,5) rs app by (simp_all add: vec_append_def)
    consider "chunk = []" | "chunk \<noteq> []" "length (unread ?s) < length (encode e)" | "chunk \<noteq> []" "\<not> length (unread ?s) < length (encode e)"
      by blast
    then show ?thesis
    proof cases
      case 1
      with "1.IH"(1) [OF _ none [symmetric] _ rs] "1.prems" none rs show ?thesis by (simp del: watch_next.simps) (simp add: rs none)
    next
      case 2
      have "try_pop_pending_event_locked ?s = (None, ?s)" by (rule pop_partial [OF conjunct1 [OF app] "1.prems"(3) s(3) 2(2)])
      with "1.IH" 2 "1.prems" none rs app s show ?thesis by simp
    next
      case 3
      show ?thesis
        by (rule pop_reports [OF s(2) conjunct1 [OF app] "1.prems"(3) s(3) 3(2) _ "1.prems"(6), of current])
          (use s(1) none rs 3(1) "1.prems"(1) in simp_all)
    qed
  next
    case False
    show ?thesis
      by (rule pop_reports [OF "1.prems"(1-4) False _ "1.prems"(6), of current]) (use "1.prems"(1,5) in simp_all)
  qed
qed

lemma nexts_all:
  assumes "fw_running s" "buffer_ok s" "\<forall>e \<in> set es. event_ok e \<and> ie_mask e AND IN_IGNORED = 0"
    and "unread s @ arriving reads = concat (map encode es)" "fw_size s + length (arriving reads) \<le> 2048"
  shows "length (nexts (length es) reads infos s) = length es"
  using assms
proof (induction es arbitrary: reads s)
  case (Cons e es)
  from watch_next_progress [OF Cons.prems(1,2), of e reads "concat (map encode es)" "infos (length es)"] Cons.prems
  obtain r reads' s' where n: "watch_next reads (infos (length es)) s = (Next_event r, reads', s')" "fw_running s'"
    "fw_size s' + length (arriving reads') \<le> 2048" by auto
  from watch_next_event [OF n(1) Cons.prems(2), of "e # es" "[]"] Cons.prems
  have "buffer_ok s'" "unread s' @ arriving reads' = concat (map encode es)" by auto
  with Cons.IH [OF n(2) _ _ _ n(3)] Cons.prems(3) n(1) show ?case by (simp del: watch_next.simps)
qed simp

text \<open>
  No event is lost in a short run: when the events that arrive take at most 2048 bytes and none of them ends the watch, as many calls of
  \<open>next\<close> as there are events return them all.\<close>

theorem watch_events_complete:
  assumes "\<forall>e \<in> set es. event_ok e \<and> ie_mask e AND IN_IGNORED = 0" and "arriving reads = concat (map encode es)"
    and "length (arriving reads) \<le> 2048"
  shows "map reported (nexts (length es) reads infos (watch_new path initial)) = map seen es"
proof -
  let ?s = "watch_new path initial"
  have s: "fw_running ?s" "buffer_ok ?s" "unread ?s = []" "fw_size ?s = 0" by (simp_all add: watch_new_def buffer_ok_def unread_def)
  have "length (nexts (length es) reads infos ?s) = length es" using nexts_all [OF s(1,2) assms(1)] assms(2,3) s by simp
  then show ?thesis using nexts_prefix [OF s(2), of es reads "[]" "length es" infos] assms(1,2) s(3) by simp
qed

section \<open>Instances\<close>

definition short_event :: "32 word \<Rightarrow> inotify_event" where
  "short_event m = \<lparr>ie_wd = 1, ie_mask = m, ie_cookie = 0, ie_name = []\<rparr>"

definition named_event :: inotify_event where
  "named_event = \<lparr>ie_wd = 1, ie_mask = 0x100, ie_cookie = 0, ie_name = [97, 98] @ replicate 30 0\<rparr>"

lemma sample_events_ok: "event_ok (short_event m)" "event_ok named_event"
  by (simp_all add: event_ok_def short_event_def named_event_def)

definition sample_reads :: "watch_read list" where
  "sample_reads = (let bs = encode (short_event 4) @ encode named_event in [Read_bytes (take 20 bs), Read_bytes (drop 20 bs)])"

lemma sample_arriving: "arriving sample_reads = concat (map encode [short_event 4, named_event])"
  by (simp add: sample_reads_def Let_def del: take_append drop_append)


theorem watch_events_complete_witness:
  "map reported (nexts 1 [Read_bytes (encode (short_event 4))] (\<lambda>_. None) (watch_new ''/tmp'' None)) = [([], 4, 0)]"
  using watch_events_complete [of "[short_event 4]" "[Read_bytes (encode (short_event 4))]" "\<lambda>_. None" "''/tmp''" None] sample_events_ok
  by (simp add: encode_def short_event_def seen_def normalize_inotify_name_def del: nexts.simps)

section \<open>A flag read too late\<close>

text \<open>126 events without a name, one with a name, and 127 more, the last of which ends the watch: 4096 bytes, one read.\<close>

definition busy_tail :: "octet list" where
  "busy_tail = concat (replicate 126 (encode (short_event 2))) @ encode (short_event IN_IGNORED)"

definition busy_bytes :: "octet list" where
  "busy_bytes = concat (replicate 126 (encode (short_event 4))) @ encode named_event @ busy_tail"

lemma encode_lengths [simp]: "length (encode (short_event m)) = 16" "length (encode named_event) = 48" "length busy_tail = 2032" "length busy_bytes = 4096"
  by (simp_all add: encode_fields(1) sample_events_ok busy_tail_def busy_bytes_def length_concat sum_list_replicate)
    (simp_all add: short_event_def named_event_def)

lemma pop_short:
  assumes "fw_running s" "buffer_ok s" "unread s = encode (short_event 4) @ rest" "rest \<noteq> []" "fw_offset s + 16 \<le> 2048" "fw_snapshot s = None"
  shows "\<exists>r. watch_next reads None s = (Next_event r, reads, s\<lparr>fw_offset := fw_offset s + 16\<rparr>)"
proof -
  have l: "fw_offset s + 16 < fw_size s" using unread_length [OF assms(2)] assms(3,4) by (cases rest) auto
  then have c: "consume 16 s = s\<lparr>fw_offset := fw_offset s + 16\<rparr>" using assms(5) by (simp add: consume_def Let_def)
  obtain ev where ev: "try_pop_pending_event_locked s = (Some ev, s\<lparr>fw_offset := fw_offset s + 16\<rparr>)"
    using pop_event [OF assms(2) sample_events_ok(1) assms(3)] c by auto
  have "read_u32 (fw_mem s) (fw_offset s + 4) = 4"
    using unread_mem [OF assms(2), of 4] encode_fields(2) [OF sample_events_ok(1)] by (simp add: assms(3)) (simp add: short_event_def)
  then have "\<not> pe_ignored ev" using ev by (auto simp: try_pop_pending_event_locked_def Let_def c split: if_splits)
  with ev assms(1,6) show ?thesis by (simp add: report_event_def)
qed

lemma nexts_short:
  assumes "fw_running s" "buffer_ok s" "unread s = concat (replicate n (encode (short_event 4))) @ rest" "rest \<noteq> []"
    "fw_offset s + 16 * n \<le> 2048" "fw_snapshot s = None"
  shows "length (nexts (n + k) reads (\<lambda>_. None) s) = n + length (nexts k reads (\<lambda>_. None) (s\<lparr>fw_offset := fw_offset s + 16 * n\<rparr>))"
  using assms
proof (induction n arbitrary: s)
  case (Suc n)
  let ?s = "s\<lparr>fw_offset := fw_offset s + 16\<rparr>"
  obtain r where r: "watch_next reads None s = (Next_event r, reads, ?s)" using pop_short [OF Suc.prems(1,2)] Suc.prems(3-6) by fastforce
  have "buffer_ok ?s" using Suc.prems(2,3) unread_length [OF Suc.prems(2)] by (auto simp: buffer_ok_def)
  moreover have "unread ?s = drop 16 (unread s)" by (simp add: unread_def add.commute)
  then have "unread ?s = concat (replicate n (encode (short_event 4))) @ rest" by (simp add: Suc.prems(3))
  ultimately show ?case using Suc.IH [of ?s] Suc.prems r by (simp add: add.assoc del: watch_next.simps)
qed simp

definition busy_state :: "nat \<Rightarrow> watch_state" where
  "busy_state offset = (vec_append busy_bytes (watch_new ''/tmp'' None))\<lparr>fw_offset := offset\<rparr>"

lemma busy_state_simps [simp]:
  "fw_mem (busy_state n) = busy_bytes" "fw_size (busy_state n) = 4096" "fw_offset (busy_state n) = n" "fw_running (busy_state n)"
  "fw_snapshot (busy_state n) = None"
  by (simp_all add: busy_state_def vec_append_def watch_new_def)

lemma busy_state_ok: "n \<le> 4096 \<Longrightarrow> buffer_ok (busy_state n) \<and> unread (busy_state n) = drop n busy_bytes"
  by (simp add: buffer_ok_def unread_def)

text \<open>The event with the name crosses the mark of 2048 bytes: the buffer is compacted, and the pointer that read the event now points
  into a later one.\<close>

lemma busy_event_ends_watch:
  "\<exists>ev s'. try_pop_pending_event_locked (busy_state 2016) = (Some ev, s') \<and> pe_mask ev = 0x100 \<and> pe_ignored ev"
proof -
  have u: "buffer_ok (busy_state 2016)" "unread (busy_state 2016) = encode named_event @ busy_tail"
    using busy_state_ok [of 2016] by (simp_all add: busy_bytes_def length_concat sum_list_replicate)
  obtain ev where ev: "try_pop_pending_event_locked (busy_state 2016) = (Some ev, consume 48 (busy_state 2016))" "popped ev = seen named_event"
    using pop_event [OF u(1) sample_events_ok(2) u(2)] by auto
  have "fw_mem (consume 48 (busy_state 2016)) = busy_tail @ drop 2032 busy_bytes"
    by (simp add: consume_def vec_erase_front_def Let_def busy_bytes_def length_concat sum_list_replicate)
  moreover have "read_u32 (busy_tail @ drop 2032 busy_bytes) 2020 = IN_IGNORED"
    using read_u32_append [of "concat (replicate 126 (encode (short_event 2)))" "encode (short_event IN_IGNORED) @ drop 2032 busy_bytes" 4]
      encode_fields(2) [OF sample_events_ok(1) [of IN_IGNORED]]
    by (simp add: busy_tail_def length_concat sum_list_replicate) (simp add: short_event_def)
  ultimately have "pe_ignored ev" using ev(1) by (auto simp: try_pop_pending_event_locked_def Let_def split: if_splits)
  then show ?thesis using ev by (auto simp: popped_def seen_def named_event_def)
qed

lemma nexts_ended: "\<not> fw_running s \<Longrightarrow> nexts k reads infos s = []"
  by (cases k) simp_all

lemma nexts_after_pop:
  assumes "fw_running s" "try_pop_pending_event_locked s = (Some ev, s')" "pe_ignored ev"
  shows "length (nexts (Suc k) reads infos s) = 1"
  using assms by (simp add: nexts_ended report_event_def)

lemma nexts_first_read:
  assumes "chunk \<noteq> []" "try_pop_pending_event_locked (vec_append chunk (watch_new path initial)) = (Some ev, s')"
  shows "nexts (Suc k) [Read_bytes chunk] infos (watch_new path initial) = nexts (Suc k) [] infos (vec_append chunk (watch_new path initial))"
proof -
  have "try_pop_pending_event_locked (watch_new path initial) = (None, watch_new path initial)" "fw_running (watch_new path initial)"
    "fw_running (vec_append chunk (watch_new path initial))"
    by (simp_all add: try_pop_pending_event_locked_def watch_new_def vec_append_def)
  with assms show ?thesis by simp
qed

text \<open>
  The watcher can end too early. 254 events arrive in one read, and only the last of them ends the watch; the watcher reports 127 and
  then says that it has ended, because it took the flag of the 127th event from the bytes of the last one.\<close>

theorem watcher_ends_early:
  "length (nexts 254 [Read_bytes busy_bytes] (\<lambda>_. None) (watch_new ''/tmp'' None)) = 127
    \<and> busy_bytes = concat (map encode (replicate 126 (short_event 4) @ named_event # replicate 126 (short_event 2) @ [short_event IN_IGNORED]))"
proof -
  let ?n = "\<lambda>_ :: nat. None :: file_info option"
  obtain ev s' where ev: "try_pop_pending_event_locked (busy_state 2016) = (Some ev, s')" "pe_ignored ev" using busy_event_ends_watch by blast
  have "length (nexts (126 + 128) [] ?n (busy_state 0)) = 126 + length (nexts 128 [] ?n ((busy_state 0)\<lparr>fw_offset := fw_offset (busy_state 0) + 16 * 126\<rparr>))"
    by (rule nexts_short [where rest = "encode named_event @ busy_tail"]) (use busy_state_ok [of 0] in \<open>simp_all add: busy_bytes_def\<close>, simp add: encode_def enc32_def)
  also have "(busy_state 0)\<lparr>fw_offset := fw_offset (busy_state 0) + 16 * 126\<rparr> = busy_state 2016" by (simp add: busy_state_def)
  also have "nexts 128 [] ?n (busy_state 2016) = nexts (Suc 127) [] ?n (busy_state 2016)" by simp
  also have "length (nexts (Suc 127) [] ?n (busy_state 2016)) = 1" by (rule nexts_after_pop [OF _ ev]) simp
  finally have "length (nexts 254 [] ?n (busy_state 0)) = 127" by simp
  moreover have s0: "vec_append busy_bytes (watch_new ''/tmp'' None) = busy_state 0" by (simp add: busy_state_def vec_append_def watch_new_def)
  obtain ev0 s0' where first: "try_pop_pending_event_locked (vec_append busy_bytes (watch_new ''/tmp'' None)) = (Some ev0, s0')"
    using pop_event [OF _ sample_events_ok(1), of "busy_state 0" 4] busy_state_ok [of 0] unfolding s0
    by (fastforce simp: busy_bytes_def numeral_eq_Suc)
  have busy_bytes_ne: "busy_bytes \<noteq> []" using encode_lengths(4) by (metis list.size(3) zero_neq_numeral)
  have "nexts 254 [Read_bytes busy_bytes] ?n (watch_new ''/tmp'' None) = nexts 254 [] ?n (busy_state 0)"
    using nexts_first_read [OF _ first, of 253 ?n] busy_bytes_ne by (simp add: s0 del: nexts.simps)
  moreover have "busy_bytes = concat (map encode (replicate 126 (short_event 4) @ named_event # replicate 126 (short_event 2) @ [short_event IN_IGNORED]))"
    by (simp add: busy_bytes_def busy_tail_def)
  ultimately show ?thesis by simp
qed

end
