(* ===== verification/Runtime.thy ===== *)
theory Runtime
  imports Prelude "HOL-Library.Char_ord" "HOL-Library.List_Lexorder"
begin

text \<open>
  The parts of the runtime that keep data of their own: the registry of schedulers (\<open>src/runtime.cpp\<close>) and the timer
  (\<open>src/timer.cpp\<close>). A scheduler is a value; a timer of asio is the waits that are pending on it.
\<close>

section \<open>Schedulers\<close>

record 'a scheduler_registry =
  rg_pool :: 'a
  rg_io_override :: "'a option"
  rg_cpu :: "'a option"
  rg_gpu :: "'a option"
  rg_named :: "(string \<times> 'a) list"

definition registry_new :: "'a \<Rightarrow> 'a scheduler_registry" where
  "registry_new pool = \<lparr>rg_pool = pool, rg_io_override = None, rg_cpu = None, rg_gpu = None, rg_named = []\<rparr>"

definition io_scheduler :: "'a scheduler_registry \<Rightarrow> 'a" where
  "io_scheduler r = (case rg_io_override r of Some x \<Rightarrow> x | None \<Rightarrow> rg_pool r)"

definition set_io_scheduler :: "'a \<Rightarrow> 'a scheduler_registry \<Rightarrow> 'a scheduler_registry" where
  "set_io_scheduler x r = r\<lparr>rg_io_override := Some x\<rparr>"

definition reset_io_scheduler :: "'a scheduler_registry \<Rightarrow> 'a scheduler_registry" where
  "reset_io_scheduler r = r\<lparr>rg_io_override := None\<rparr>"

definition set_cpu_scheduler :: "'a \<Rightarrow> 'a scheduler_registry \<Rightarrow> 'a scheduler_registry" where
  "set_cpu_scheduler x r = r\<lparr>rg_cpu := Some x\<rparr>"

definition set_gpu_scheduler :: "'a \<Rightarrow> 'a scheduler_registry \<Rightarrow> 'a scheduler_registry" where
  "set_gpu_scheduler x r = r\<lparr>rg_gpu := Some x\<rparr>"

definition reset_cpu_scheduler :: "'a scheduler_registry \<Rightarrow> 'a scheduler_registry" where
  "reset_cpu_scheduler r = r\<lparr>rg_cpu := None\<rparr>"

definition reset_gpu_scheduler :: "'a scheduler_registry \<Rightarrow> 'a scheduler_registry" where
  "reset_gpu_scheduler r = r\<lparr>rg_gpu := None\<rparr>"

definition register_scheduler :: "string \<Rightarrow> 'a \<Rightarrow> 'a scheduler_registry \<Rightarrow> 'a scheduler_registry" where
  "register_scheduler name x r = r\<lparr>rg_named := (name, x) # filter (\<lambda>p. fst p \<noteq> name) (rg_named r)\<rparr>"

definition unregister_scheduler :: "string \<Rightarrow> 'a scheduler_registry \<Rightarrow> 'a scheduler_registry" where
  "unregister_scheduler name r = r\<lparr>rg_named := filter (\<lambda>p. fst p \<noteq> name) (rg_named r)\<rparr>"

definition find_scheduler :: "string \<Rightarrow> 'a scheduler_registry \<Rightarrow> 'a option" where
  "find_scheduler name r =
     (if name = ''io'' then Some (io_scheduler r)
      else if name = ''cpu'' then rg_cpu r
      else if name = ''gpu'' then rg_gpu r
      else map_of (rg_named r) name)"

definition scheduler_names :: "'a scheduler_registry \<Rightarrow> string list" where
  "scheduler_names r =
     sort ([''io''] @ (if rg_cpu r \<noteq> None then [''cpu''] else []) @ (if rg_gpu r \<noteq> None then [''gpu''] else [])
       @ filter (\<lambda>n. \<not> (n = ''io'' \<or> n = ''cpu'' \<or> n = ''gpu'')) (map fst (rg_named r)))"

text \<open>The operations that change the registry.\<close>

datatype 'a registry_op =
    Set_io 'a | Reset_io | Set_cpu 'a | Set_gpu 'a | Reset_cpu | Reset_gpu | Register string 'a | Unregister string

fun registry_do :: "'a registry_op \<Rightarrow> 'a scheduler_registry \<Rightarrow> 'a scheduler_registry" where
  "registry_do (Set_io x) r = set_io_scheduler x r"
| "registry_do Reset_io r = reset_io_scheduler r"
| "registry_do (Set_cpu x) r = set_cpu_scheduler x r"
| "registry_do (Set_gpu x) r = set_gpu_scheduler x r"
| "registry_do Reset_cpu r = reset_cpu_scheduler r"
| "registry_do Reset_gpu r = reset_gpu_scheduler r"
| "registry_do (Register name x) r = register_scheduler name x r"
| "registry_do (Unregister name) r = unregister_scheduler name r"

lemmas registry_defs = set_io_scheduler_def reset_io_scheduler_def set_cpu_scheduler_def set_gpu_scheduler_def reset_cpu_scheduler_def
  reset_gpu_scheduler_def register_scheduler_def unregister_scheduler_def

lemma named_distinct: "distinct (map fst (rg_named (fold registry_do ops (registry_new pool))))"
proof -
  have "distinct (map fst (rg_named (registry_do c r)))" if "distinct (map fst (rg_named r))" for c and r :: "'a scheduler_registry"
    using that by (cases c) (auto simp: registry_defs distinct_map_filter)
  then have "distinct (map fst (rg_named (fold registry_do ops r)))" if "distinct (map fst (rg_named r))" for r :: "'a scheduler_registry"
    using that by (induction ops arbitrary: r) auto
  then show ?thesis by (simp add: registry_new_def)
qed

text \<open>
  The registry lists what it finds: after any calls, \<open>scheduler_names\<close> is the sorted list without repetitions of exactly the names for
  which \<open>find_scheduler\<close> returns a scheduler.\<close>

theorem scheduler_names_exact:
  assumes "r = fold registry_do ops (registry_new pool)"
  shows "sorted (scheduler_names r) \<and> distinct (scheduler_names r) \<and> set (scheduler_names r) = {n. find_scheduler n r \<noteq> None}"
proof (intro conjI)
  show "sorted (scheduler_names r)" unfolding scheduler_names_def by (rule sorted_sort)
  show "distinct (scheduler_names r)" unfolding scheduler_names_def distinct_sort assms using named_distinct [of ops pool] by simp
  have n: "n \<in> set (map fst (rg_named r)) \<longleftrightarrow> map_of (rg_named r) n \<noteq> None" for n by (simp add: map_of_eq_None_iff)
  show "set (scheduler_names r) = {n. find_scheduler n r \<noteq> None}"
    unfolding scheduler_names_def set_sort find_scheduler_def by (rule set_eqI) (simp add: n del: set_map)
qed

theorem scheduler_names_exact_witness:
  "scheduler_names (fold registry_do [Register ''zz'' 3, Set_gpu 2, Register ''ab'' 4, Register ''cpu'' 5] (registry_new (1 :: nat)))
     = [''ab'', ''gpu'', ''io'', ''zz''] \<and> find_scheduler ''zz'' (fold registry_do [Register ''zz'' 3, Set_gpu 2, Register ''ab'' 4, Register ''cpu'' 5] (registry_new (1 :: nat))) \<noteq> None"
proof -
  let ?r = "fold registry_do [Register ''zz'' 3, Set_gpu 2, Register ''ab'' 4, Register ''cpu'' 5] (registry_new (1 :: nat))"
  have names: "scheduler_names ?r = [''ab'', ''gpu'', ''io'', ''zz'']" by code_simp
  moreover have "''zz'' \<in> set (scheduler_names ?r)" unfolding names by simp
  then have "find_scheduler ''zz'' ?r \<noteq> None" using scheduler_names_exact [OF refl, of "[Register ''zz'' 3, Set_gpu 2, Register ''ab'' 4, Register ''cpu'' 5]" 1] by blast
  ultimately show ?thesis by blast
qed

text \<open>A scheduler can be registered under a reserved name, and is then never found.\<close>

lemma reserved_name_shadowed: "find_scheduler ''cpu'' (register_scheduler ''cpu'' x (registry_new pool)) = None"
  by (simp add: find_scheduler_def register_scheduler_def registry_new_def)

section \<open>Timers\<close>

text \<open>Waits have numbers; the answers that \<open>wait\<close> returned are collected with them. A timer of asio that is set anew or cancelled ends the
  waits that are pending on it and says how many they were.\<close>

record timer_state =
  tm_closed :: bool
  tm_pending :: "nat list"
  tm_answers :: "(nat \<times> bool) list"
  tm_next :: nat

datatype timer_result = Cancelled nat | Timer_threw string | Answered nat bool | Pending nat

definition timer_new :: timer_state where
  "timer_new = \<lparr>tm_closed = False, tm_pending = [], tm_answers = [], tm_next = 0\<rparr>"

definition end_waits :: "bool \<Rightarrow> timer_state \<Rightarrow> timer_state" where
  "end_waits b s = s\<lparr>tm_pending := [], tm_answers := tm_answers s @ map (\<lambda>w. (w, b)) (tm_pending s)\<rparr>"

definition timer_expires :: "timer_state \<Rightarrow> timer_result \<times> timer_state" where
  "timer_expires s =
     (if tm_closed s then (Timer_threw ''SteadyTimer is not valid'', s) else (Cancelled (length (tm_pending s)), end_waits False s))"

definition timer_cancel :: "timer_state \<Rightarrow> timer_result \<times> timer_state" where
  "timer_cancel s = (if tm_closed s then (Cancelled 0, s) else (Cancelled (length (tm_pending s)), end_waits False s))"

definition timer_wait :: "timer_state \<Rightarrow> timer_result \<times> timer_state" where
  "timer_wait s =
     (let w = tm_next s; s1 = s\<lparr>tm_next := w + 1\<rparr> in
      if tm_closed s then (Answered w False, s1\<lparr>tm_answers := tm_answers s @ [(w, False)]\<rparr>)
      else (Pending w, s1\<lparr>tm_pending := tm_pending s @ [w]\<rparr>))"

definition timer_close :: "timer_state \<Rightarrow> timer_state" where
  "timer_close s = (end_waits False s)\<lparr>tm_closed := True\<rparr>"

definition timer_fire :: "timer_state \<Rightarrow> timer_state" where
  "timer_fire s = end_waits True s"

datatype timer_event = Timer_expires | Timer_cancel | Timer_wait | Timer_close | Timer_fire

fun timer_do :: "timer_event \<Rightarrow> timer_state \<Rightarrow> timer_state" where
  "timer_do Timer_expires s = snd (timer_expires s)"
| "timer_do Timer_cancel s = snd (timer_cancel s)"
| "timer_do Timer_wait s = snd (timer_wait s)"
| "timer_do Timer_close s = timer_close s"
| "timer_do Timer_fire s = timer_fire s"

definition timer_inv :: "timer_state \<Rightarrow> bool" where
  "timer_inv s \<longleftrightarrow> distinct (map fst (tm_answers s) @ tm_pending s) \<and> set (map fst (tm_answers s) @ tm_pending s) = {..< tm_next s}
     \<and> (tm_closed s \<longrightarrow> tm_pending s = [])"

lemma timer_inv_end: "timer_inv s \<Longrightarrow> timer_inv (end_waits b s)"
  by (auto simp: timer_inv_def end_waits_def comp_def)

lemma timer_inv_close: "timer_inv s \<Longrightarrow> timer_inv (timer_close s)"
  using timer_inv_end [of s False] by (simp add: timer_inv_def timer_close_def end_waits_def)

lemma timer_inv_do: "timer_inv s \<Longrightarrow> timer_inv (timer_do e s)"
proof (cases e)
  case Timer_wait
  assume "timer_inv s"
  then have "distinct (map fst (tm_answers s) @ tm_pending s)" "set (map fst (tm_answers s) @ tm_pending s) = {..< tm_next s}"
    "tm_closed s \<Longrightarrow> tm_pending s = []" by (auto simp: timer_inv_def)
  moreover from this(2) have "tm_next s \<notin> set (map fst (tm_answers s) @ tm_pending s)" by simp
  ultimately show ?thesis using Timer_wait by (auto simp: timer_inv_def timer_wait_def Let_def lessThan_Suc)
qed (simp_all add: timer_expires_def timer_cancel_def timer_fire_def timer_inv_end timer_inv_close)

text \<open>
  Every wait on a timer is answered once at most, a wait that is not yet answered is pending on a timer that is not closed, and closing
  the timer answers all of them.\<close>

theorem timer_waits_answered:
  assumes "s = fold timer_do events timer_new"
  shows "distinct (map fst (tm_answers s)) \<and> (\<forall>w < tm_next s. w \<in> set (map fst (tm_answers s)) \<or> w \<in> set (tm_pending s) \<and> \<not> tm_closed s)
    \<and> set (map fst (tm_answers (timer_close s))) = {..< tm_next s}"
proof -
  have "timer_inv timer_new" by (simp add: timer_inv_def timer_new_def)
  then have "timer_inv (fold timer_do events timer_new)" by (induction events rule: rev_induct) (auto intro: timer_inv_do)
  then have "timer_inv s" by (simp add: assms)
  moreover from timer_inv_do [OF this, of Timer_close] have "timer_inv (timer_close s)" by simp
  ultimately show ?thesis by (auto simp: timer_inv_def timer_close_def end_waits_def)
qed

theorem timer_waits_answered_witness:
  "tm_answers (fold timer_do [Timer_wait, Timer_fire, Timer_wait, Timer_close, Timer_wait] timer_new) = [(0, True), (1, False), (2, False)]
    \<and> distinct (map fst (tm_answers (fold timer_do [Timer_wait, Timer_fire, Timer_wait, Timer_close, Timer_wait] timer_new)))"
  using timer_waits_answered [OF refl, of "[Timer_wait, Timer_fire, Timer_wait, Timer_close, Timer_wait]"]
  by (simp add: timer_new_def timer_wait_def timer_close_def timer_fire_def end_waits_def Let_def)

end
