(* ===== verification/Spec2Isabelle.thy ===== *)
theory Spec2Isabelle
  imports Pool Redis Http_Client Sql Ws_Client Mailbox Body_File Route_Binder Orm_Relation Message_Bus Fd Net Fs_Watch Runtime
begin

text \<open>
  A verification development for \<open>async_uv\<close> / \<open>flux\<close>, a C++ framework in three layers: asynchronous
  primitives over libuv (\<open>include/flux\<close>, \<open>src\<close>), protocol libraries (\<open>layer2\<close>) and a web framework
  (\<open>layer3\<close>). The sources are under \<open>src/\<close> of the repository's snapshot; paths below are relative to it.

  \<^bold>\<open>How the program works.\<close> A task acquires permits from an \<open>AsyncSemaphore\<close>, passes values through a
  \<open>Mailbox\<close> or pulls them from a \<open>Stream\<close>. An \<open>App\<close> accepts sockets; for each connection it reads bytes
  into an \<open>HttpParser\<close> until a message is complete, turns the message into a \<open>ServerRequest\<close>, checks
  it against the limits, runs the middlewares around \<open>dispatch\<close>, which asks the \<open>Router\<close> for a
  handler, and writes the response, buffered or streamed. The decision whether the connection goes
  on is \<open>should_keep_alive\<close>.

  \<^bold>\<open>Theories, in the order of the calls.\<close>

  \<^item> \<open>Prelude\<close>: the C++ string operations the sources use (\<open>find\<close>, \<open>substr\<close>, the character classes,
    \<open>to_string\<close>, hexadecimal output) with their lemmas in the collection \<open>cxx_string\<close>; the locales
    \<open>invariant_system\<close> (a step relation with an inductive invariant), \<open>invariant_machine\<close> (a
    deterministic machine driven by a list of calls) and \<open>char_escape\<close> (a character-wise escape that can
    be read back).
  \<^item> \<open>Waiter_List\<close>, \<open>Semaphore\<close> (\<open>include/flux/async_semaphore.h\<close>): the intrusive list of waiters on an
    explicit node heap, shown to implement the FIFO queue of the locale \<open>waiter_queue\<close>; the semaphore's
    critical sections as functions; and \<open>sem_step\<close>, the interleaving of start, stop, release, close and
    delivery. One step is one critical section or one atomic action outside the lock, as in the code, so
    the races between \<open>finish\<close>, \<open>finish_stopped\<close> and the stop callback are all there. The invariant
    \<open>sem_inv\<close> gives the permit ledger, the absence of missed wake-ups and single completion; two
    reachable states show the races that remain.
  \<^item> \<open>Mailbox\<close> (the class \<open>Mailbox\<close> of \<open>include/flux/message.h\<close>, and \<open>include/flux/stream.h\<close>): the bounded queue
    with its senders and receivers as a step relation, \<open>send_for\<close> with its deadline loop over the clock
    it reads, and the mutual exclusion of \<open>Stream::next\<close>.
  \<^item> \<open>Threads\<close>: pools of threads whose atomic actions interleave in any order; the locale \<open>thread_pool\<close> turns executable
    schedules into runs of a step relation, for the three theories whose objects are shared between threads.
  \<^item> \<open>Message_Bus\<close> (the class \<open>MessageBus\<close> of \<open>include/flux/message.h\<close>): topics with an ingress channel, a dispatcher and
    subscribers, as such a pool. Subscribers see a topic in order and without gaps, a topic has one dispatcher and loses
    nothing while it is open, and a closed topic stays closed; two reachable states show the races that remain.
  \<^item> \<open>Fd\<close> (\<open>include/flux/fd.h\<close>, \<open>src/fd.cpp\<close>): the operations on a descriptor and their stop callbacks, each with its place in
    the code, interleaved with the event loop, stop requests and \<open>close\<close>; an operation completes once, is not touched
    afterwards, and is not forgotten. Then taking over descriptors, and watchers.
  \<^item> \<open>Net\<close> (\<open>src/tcp.cpp\<close>, \<open>src/udp.cpp\<close>): socket addresses and their native form, the four loops over resolved endpoints as
    instances of the locale \<open>endpoint_search\<close>, the reads of a TCP client over the segments that arrive, datagrams.
  \<^item> \<open>Fs_Watch\<close> (\<open>src/watch.cpp\<close>): the buffer of the file watcher as the memory of a vector and its cutting into events, which
    are reported in order; a flag that is read through a stale pointer can end the watcher.
  \<^item> \<open>Runtime\<close> (\<open>src/runtime.cpp\<close>, \<open>src/timer.cpp\<close>): the registry of schedulers, and timers.
  \<^item> \<open>Pool\<close> (the connection pools of \<open>layer2/src/redis.cpp\<close> and \<open>layer2/src/sql.cpp\<close>, which share their code):
    the free and leased indices on top of the semaphore's step relation, through the locale
    \<open>permit_source\<close>; no index is leased twice, an idle pool has a permit per free connection.
  \<^item> \<open>Redis\<close> (\<open>layer2/src/redis.cpp\<close>): splitting a command, filling its placeholders, reading replies, the
    client's lifecycle, and the health check of a pooled client.
  \<^item> \<open>Cookies\<close>, \<open>Http_Client\<close> (\<open>layer2/src/http.cpp\<close>): the cookie jar; the client from the request builder to
    the response, with redirects, retries and resumed downloads, over a network whose every call may fail.
  \<^item> \<open>Sql_Text\<close>, \<open>Sql\<close> (\<open>layer2/src/sql.cpp\<close>): parameters, the connection string and the placeholders; then the
    connection with its three drivers, one-shot queries, pooled connections and their leases.
  \<^item> \<open>Ws\<close>, \<open>Ws_Client\<close> (\<open>layer2/src/ws.cpp\<close>): WebSocket sessions, server and client as pools of threads; every end is reported once,
    messages arrive in order, the client's session is the latest one.
  \<^item> \<open>Http_Types\<close>: the records of \<open>layer2/include/flux_http\<close> that parser and server share, and the locale
    \<open>header_lookup\<close>: what a case-insensitive lookup promises. The code has five of them; each is interpreted
    on the locale in its own theory, and \<open>header_lookups_agree\<close> below follows.
  \<^item> \<open>Http_Parser\<close> (\<open>layer2/src/parser.cpp\<close>): head and limits, header and trailer lines, the chunk scan, the
    spill of large bodies to temporary files, and the message loop of \<open>feed\<close>. The lemmas show the limits
    on every message, that splitting the input changes nothing, and that \<open>feed\<close> returns.
  \<^item> \<open>Body_File\<close>: \<open>move_body_file_to\<close>, \<open>dispose_body_file\<close> and the destructor of the body file.
  \<^item> \<open>Http_Server\<close> (\<open>layer2/src/server.cpp\<close>): targets, validation, serialisation, keep-alive, body readers and
    writers, the read loop of a connection and the middleware chain of layer 2. The round trips put the
    serialisers against the parser.
  \<^item> \<open>Router_Node\<close>, \<open>Router\<close> (\<open>router_node.hpp\<close>, \<open>router.cpp\<close>): the prefix tree, its greedy walks, registration,
    matching through sub-routers, allowed methods and route lists.
  \<^item> \<open>Layer3_Error\<close>, \<open>Request_Context\<close>, \<open>Middleware\<close>, \<open>Rate_Limit\<close>, \<open>Forms\<close> (\<open>error.hpp\<close>, \<open>context.hpp\<close> and
    \<open>stream.hpp\<close>, \<open>middleware.hpp\<close> with \<open>cors.hpp\<close> and \<open>body_limit.hpp\<close>, \<open>rate_limit.hpp\<close>, \<open>form_parser.hpp\<close> and
    \<open>multipart_parser.hpp\<close>): the request context as a record, a handler as an action that returns the
    exception it throws, the context and the outside world, and a middleware as a function of the next
    action.
  \<^item> \<open>App\<close>, \<open>Route_Group\<close> (\<open>app.cpp\<close>, \<open>route_group.hpp\<close>): the application, dispatch, the connection loop, and
    groups flattened into it.
  \<^item> \<open>Di\<close>, \<open>Route_Binder\<close> (\<open>di.hpp\<close>): the dependency injection container over a description of the program's types, with
    lifetimes, member injection and the guard against cycles, through the locale \<open>container_relation\<close> (a relation between the
    container before and after that every elementary change keeps); then the binder that registers
    controllers' methods as routes, shown to be plain calls on a route group.
  \<^item> \<open>Orm_Meta\<close>, \<open>Orm_Query\<close>, \<open>Orm_Tx\<close>, \<open>Orm_Mapper\<close>, \<open>Orm_Relation\<close> (\<open>orm.hpp\<close>), the object mapper in the order its parts
    use each other. \<open>Orm_Meta\<close>: a model as a map from offsets to members with their attributes, the table of columns derived
    from it, parameters and cells, quoting, and the policy on raw SQL; what is written is read back. \<open>Orm_Query\<close>: the
    builder methods as operations on the query record and the statement built from it; the values of the calls are the
    parameters of the statement, which the scanner of \<open>Sql_Text\<close> accepts. \<open>Orm_Tx\<close>: the stack of frames, savepoints,
    timeouts and options of transactions over any database, then the effect of whole programs of nested and joined
    transactions on a database that obeys \<open>tx_laws\<close> (what the control statements do to data and savepoints, a failed
    statement included). \<open>Orm_Mapper\<close>: the statements of inserts, updates, upserts and deletions, batches cut by the
    driver's limit, update and query chains. \<open>Orm_Relation\<close>: loading relations, shown to be a join in memory.

  \<^bold>\<open>Loops.\<close> A loop whose end depends on its input alone is a \<open>function\<close> with a measure: the header lines and
  trailers (remaining bytes), the router's walks (remaining path), the form pairs, and
  \<open>serve_connection\<close>, whose measure is the number of requests the keep-alive limit still allows. The
  chunk scan, the message loop of \<open>feed\<close>, the draining of waiters and the multipart loop may run for ever on
  some arguments, so they are partial functions into \<open>option\<close> with \<open>None\<close> for not returning; that they
  do return is proved apart (\<open>feed_returns\<close>, \<open>close_drains\<close>, \<open>parse_multipart_returns_iff\<close>). The polling
  loops \<open>send_for\<close> and \<open>recv\<close> take the number of polls as fuel, with the clock and the interference of
  the other tasks at each poll as arguments: \<open>send_for_returns\<close> shows that the polls up to the deadline are
  enough. The waits of the SQL client for its server are partial functions too, and
  \<open>pg_results_collected\<close> shows that an answered query returns. \<open>drain_messages\<close> takes the length of the queue it empties. The
  nested resolutions of the container take their depth as fuel; with finitely many services their number is enough
  (\<open>enough_depth\<close>).

  \<^bold>\<open>Parameters.\<close> Boost.Beast is the function \<open>beast\<close> from a buffer to what \<open>parser.put\<close> reports; Boost.URL the
  record \<open>url_lib\<close>; ada's percent decoding, the gzip compressor, \<open>std::hash\<close>, the random generator and the clock
  are arguments of the definitions that use them; the network, the resolver and the environment of the HTTP
  client are the record \<open>http_lib\<close>, a Redis
  connection the functions of its library that the client calls, and the database libraries the record \<open>sql_lib\<close>. What is relied on is named: \<open>beast_stable\<close> (a complete
  message is not changed by later input), \<open>beast_checks_chunks\<close> (a complete chunked message has chunk
  sizes that fit in it), \<open>beast_reads\<close> (Beast reads a plain response that carries its length) and \<open>serves\<close>
  (a server answers a download with its content, from the offset on if it honours ranges), \<open>tx_laws\<close> (what a database
  promises of \<open>BEGIN\<close>, \<open>COMMIT\<close>, \<open>ROLLBACK\<close> and savepoints) \<open>answers_in\<close> (what it promises of an \<open>IN\<close> condition) and \<open>channel_laws\<close> (the channels of asio
  are queues that refuse only when closed); \<open>fd_result_ok\<close> is what asio documents of completed reads and writes. Each
  has a concrete instance in a witness. \<open>wire_response\<close> states which responses can be put on the wire: no line breaks
  in the fields, the lines within the parser's limits.

  \<^bold>\<open>Widths.\<close> Sizes are natural numbers; where the code depends on the width the bound is written out: \<open>stoull\<close>
  fails from \<open>2 ^ 64\<close> on, and the lemmas on chunk sizes assume that a buffer is shorter than that. Permit
  counts are integers, as the \<open>ptrdiff_t\<close> of the code far from its bounds.

  \<^bold>\<open>Not modelled.\<close> The wrappers of asio and stdexec without data of their own (threads of the runtime, tasks, scopes, file system
  calls, socket options) and the logging to standard error: for the protocol layers a socket is the list of results its reads
  return and the text written to it, and writes succeed. Of the message bus, a publisher whose
  bus is gone, a bus without a runtime, and the posting of callbacks to the runtime are left out. The objects \<open>Service\<close> of the mapper forward their calls, and the numbers of affected rows are what the database reports.
\<close>

section \<open>Properties across components\<close>

text \<open>
  The five header lookups of the code agree on every header list and name: the parser's message
  (which upper-cases), the server request and \<open>has_header_ci\<close> (which lower-case), the context (which
  compares character by character) and the middleware's response lookup (index by index).\<close>

theorem header_lookups_agree:
  "message_header hs n = request_header hs n \<and> request_header hs n = fields_header hs n
   \<and> fields_header hs n = find_response_header hs n
   \<and> (has_header_ci hs n \<longleftrightarrow> fields_header hs n \<noteq> None)"
  using header_lookup_unique [OF message.header_lookup_axioms request.header_lookup_axioms]
    header_lookup_unique [OF request.header_lookup_axioms fields.header_lookup_axioms]
    header_lookup_unique [OF fields.header_lookup_axioms response_header.header_lookup_axioms]
    has_header_ci_lookup
  by auto

definition write_chunks :: "string list \<Rightarrow> stream_handler" where
  "write_chunks cs = (\<lambda>w. (None, foldl (\<lambda>w c. stream_write c w) w cs))"

lemma foldl_stream_write:
  "so_valid (stw_socket w) \<Longrightarrow> \<not> stw_closed w \<Longrightarrow>
     foldl (\<lambda>w c. stream_write c w) w cs =
       w\<lparr>stw_socket := (stw_socket w)\<lparr>so_written := so_written (stw_socket w) @
            concat (map serialize_chunk (filter (\<lambda>c. c \<noteq> []) cs))\<rparr>\<rparr>"
  by (induction cs arbitrary: w) (auto simp: stream_write_def)

text \<open>
  C35: A streamed response is well-formed on the wire: a stream handler that writes any chunks through
  the stream writer produces the head, one encoded chunk per non-empty write and one end marker,
  and the parser's chunk scan, started behind the head, stays in step through all of it and finds
  no trailers.\<close>

theorem streamed_body_reads_back:
  assumes "so_valid s" and "po_max_header_line_size opts = 0 \<or> 16 \<le> po_max_header_line_size opts"
    and "out = so_written (snd (send_response (StreamingResponse r (write_chunks cs)) s))" and "length out < 2 ^ 64"
  shows "out = so_written s @ stream_head r @ concat (map serialize_chunk (filter (\<lambda>c. c \<noteq> []) cs)) @ serialize_chunk_end
    \<and> parse_chunked_trailers opts out (length (so_written s @ stream_head r)) n0 = Some (Inr ([], n0))"
proof -
  have out: "out = so_written s @ stream_head r @ concat (map serialize_chunk (filter (\<lambda>c. c \<noteq> []) cs)) @ serialize_chunk_end"
    using assms(1,3) by (simp add: send_response_def write_chunks_def foldl_stream_write stream_close_def)
  have "\<forall>c \<in> set (filter (\<lambda>c. c \<noteq> []) cs). c \<noteq> []" by simp
  from chunks_read [OF assms(2) this, of "so_written s @ stream_head r" "[]" n0] assms(4) out
  show ?thesis by simp
qed

theorem streamed_body_reads_back_witness:
  "\<exists>out. out = so_written (snd (send_response (StreamingResponse default_response (write_chunks [''a'', [], ''b'']))
       \<lparr>so_valid = True, so_written = []\<rparr>))
     \<and> parse_chunked_trailers default_parser_options out (length (stream_head default_response)) 0 = Some (Inr ([], 0))"
proof -
  let ?s = "\<lparr>so_valid = True, so_written = []\<rparr>"
  define out where "out = so_written (snd (send_response (StreamingResponse default_response (write_chunks [''a'', [], ''b''])) ?s))"
  have "length out < 2 ^ 64"
    by (simp add: out_def send_response_def write_chunks_def stream_write_def stream_close_def stream_head_def
        default_response_def stream_status_text_def dec_of_int_def render_base.simps serialize_chunk_def serialize_chunk_end_def)
  with streamed_body_reads_back [OF _ _ out_def, of default_parser_options 0] show ?thesis
    by (auto simp: default_parser_options_def out_def)
qed

end
